(* ===== verification/Prelude.thy ===== *)
theory Prelude
  imports Main "HOL-Library.Char_ord" "HOL-Library.List_Lexorder"
begin

text \<open>
  Shared vocabulary of the development.

  \<^item> \<open>cpp_error\<close> and \<open>'a res\<close>: the exceptions of the C++ standard library that the code throws
    (or lets escape), as values; \<open>bind_res\<close> runs a continuation unless an exception is pending.
  \<^item> \<open>omap\<close>: an association list sorted by key, the model of \<open>std::map\<close>, with its member functions
    \<open>emplace\<close> (keeps an existing entry), \<open>assign\<close> (\<open>operator[] =\<close>) and \<open>map_at\<close>; the interface
    is the locale \<open>std_map\<close>.
  \<^item> \<open>vec_at\<close>: \<open>std::vector::at\<close>, checked access; \<open>raw_get\<close> and \<open>raw_set\<close>: \<open>operator[]\<close>, where an
    index outside the vector is undefined behaviour.
  \<^item> \<open>run\<close> and the locale \<open>step_system\<close>: runs of a step relation and their invariants.
  \<^item> \<open>fmt_nat\<close>, \<open>fmt_int\<close>: decimal formatting as \<open>fmt::format\<close> prints integers.
\<close>

named_theorems state_simps \<open>field-wise facts about the state updates of the components\<close>
named_theorems inv_intros \<open>preservation facts of the component invariants\<close>

section \<open>Exceptions as values\<close>

datatype cpp_error =
    OutOfRange        \<comment> \<open>\<open>std::out_of_range\<close>, thrown by \<open>at\<close>\<close>
  | InvalidArgument   \<comment> \<open>\<open>std::invalid_argument\<close>\<close>
  | RuntimeError      \<comment> \<open>\<open>std::runtime_error\<close>\<close>
  | LogicError        \<comment> \<open>\<open>std::logic_error\<close>\<close>
  | PromiseSatisfied  \<comment> \<open>\<open>std::future_error\<close> with \<open>promise_already_satisfied\<close>\<close>
  | FutureRetrieved   \<comment> \<open>\<open>std::future_error\<close> with \<open>future_already_retrieved\<close>\<close>
  | AssertionFailed   \<comment> \<open>a failing \<open>assert\<close>\<close>
  | UndefinedBehaviour \<comment> \<open>unchecked access outside an object, division by zero, value out of range\<close>
  | CallbackUnset     \<comment> \<open>\<open>std::bad_function_call\<close>: an empty \<open>std::function\<close> is called\<close>
  | JsonException     \<comment> \<open>an exception of \<open>nlohmann::json\<close>: a missing key or a value of another type\<close>

type_synonym 'a res = "cpp_error + 'a"

fun bind_res :: "'a res \<Rightarrow> ('a \<Rightarrow> 'b res) \<Rightarrow> 'b res" where
  "bind_res (Inl e) f = Inl e"
| "bind_res (Inr x) f = f x"

lemma bind_res_eq_Inr_iff [simp]:
  "bind_res r f = Inr y \<longleftrightarrow> (\<exists>x. r = Inr x \<and> f x = Inr y)"
  by (cases r) auto

lemma bind_res_eq_Inl_iff:
  "bind_res r f = Inl e \<longleftrightarrow> r = Inl e \<or> (\<exists>x. r = Inr x \<and> f x = Inl e)"
  by (cases r) auto

lemma bind_res_cong [fundef_cong]:
  "r = r' \<Longrightarrow> (\<And>x. r' = Inr x \<Longrightarrow> f x = g x) \<Longrightarrow> bind_res r f = bind_res r' g"
  by (cases r) auto

lemma bind_res_assoc: "bind_res (bind_res r f) g = bind_res r (\<lambda>x. bind_res (f x) g)"
  by (cases r) auto

fun is_ok :: "'a res \<Rightarrow> bool" where
  "is_ok (Inr _) = True"
| "is_ok (Inl _) = False"

lemma is_ok_iff: "is_ok r \<longleftrightarrow> (\<exists>x. r = Inr x)"
  by (cases r) auto

text \<open>A loop whose body may throw: the state is threaded from left to right.\<close>

fun fold_res :: "('a \<Rightarrow> 's \<Rightarrow> 's res) \<Rightarrow> 'a list \<Rightarrow> 's \<Rightarrow> 's res" where
  "fold_res f [] s = Inr s"
| "fold_res f (x # xs) s = bind_res (f x s) (fold_res f xs)"

lemma fold_res_cong:
  "(\<And>x t. x \<in> set xs \<Longrightarrow> f x t = h x t) \<Longrightarrow> fold_res f xs s = fold_res h xs s"
proof (induction xs arbitrary: s)
  case (Cons x xs)
  then have "fold_res f xs t = fold_res h xs t" for t by simp
  then have "fold_res f xs = fold_res h xs" by (rule ext)
  with Cons.prems show ?case by simp
qed simp

lemma fold_res_append: "fold_res f (xs @ ys) s = bind_res (fold_res f xs s) (fold_res f ys)"
proof (induction xs arbitrary: s)
  case (Cons x xs)
  then show ?case by (cases "f x s") auto
qed simp

lemma fold_res_invariant:
  assumes "fold_res f xs s = Inr t" and "P s"
    and "\<And>x s s'. x \<in> set xs \<Longrightarrow> P s \<Longrightarrow> f x s = Inr s' \<Longrightarrow> P s'"
  shows "P t"
  using assms
proof (induction xs arbitrary: s)
  case (Cons x xs)
  from Cons.prems(1) obtain s' where s': "f x s = Inr s'" "fold_res f xs s' = Inr t" by auto
  from Cons.prems(2,3) s'(1) have "P s'" by (meson list.set_intros(1))
  with s'(2) Cons.prems(3) show ?case by (auto intro: Cons.IH)
qed simp

section \<open>Checked vector access\<close>

definition vec_at :: "'a list \<Rightarrow> nat \<Rightarrow> 'a res" where
  "vec_at xs i = (if i < length xs then Inr (xs ! i) else Inl OutOfRange)"

lemma vec_at_Inr [simp]: "vec_at xs i = Inr x \<longleftrightarrow> i < length xs \<and> xs ! i = x"
  by (auto simp: vec_at_def)

lemma vec_at_Inl [simp]: "vec_at xs i = Inl e \<longleftrightarrow> length xs \<le> i \<and> e = OutOfRange"
  by (auto simp: vec_at_def)

text \<open>\<open>operator[]\<close> of a vector with an index of type \<open>int\<close> or \<open>size_t\<close>: unchecked.\<close>

definition raw_get :: "'a list \<Rightarrow> int \<Rightarrow> 'a res" where
  "raw_get xs i = (if 0 \<le> i \<and> nat i < length xs then Inr (xs ! nat i) else Inl UndefinedBehaviour)"

definition raw_set :: "'a list \<Rightarrow> int \<Rightarrow> 'a \<Rightarrow> 'a list res" where
  "raw_set xs i v =
     (if 0 \<le> i \<and> nat i < length xs then Inr (xs[nat i := v]) else Inl UndefinedBehaviour)"

lemma raw_get_Inr [simp]: "raw_get xs i = Inr x \<longleftrightarrow> 0 \<le> i \<and> nat i < length xs \<and> xs ! nat i = x"
  by (auto simp: raw_get_def)

lemma raw_set_Inr [simp]:
  "raw_set xs i v = Inr ys \<longleftrightarrow> 0 \<le> i \<and> nat i < length xs \<and> ys = xs[nat i := v]"
  by (auto simp: raw_set_def)

lemma raw_get_int: "i < length xs \<Longrightarrow> raw_get xs (int i) = Inr (xs ! i)"
  by (simp add: raw_get_def)

lemma raw_set_int: "i < length xs \<Longrightarrow> raw_set xs (int i) v = Inr (xs[i := v])"
  by (simp add: raw_set_def)

text \<open>Dereferencing a pointer that may be null.\<close>

fun deref :: "'a option \<Rightarrow> 'a res" where
  "deref None = Inl UndefinedBehaviour"
| "deref (Some x) = Inr x"

lemma deref_Inr [simp]: "deref p = Inr x \<longleftrightarrow> p = Some x"
  by (cases p) auto

definition find_index :: "('a \<Rightarrow> bool) \<Rightarrow> 'a list \<Rightarrow> nat option" where
  "find_index P xs = List.find (\<lambda>i. P (xs ! i)) [0..<length xs]"

lemma find_index_Some:
  "find_index P xs = Some i \<Longrightarrow> i < length xs \<and> P (xs ! i)"
  by (auto simp: find_index_def find_Some_iff)

lemma find_index_None: "find_index P xs = None \<longleftrightarrow> (\<forall>x \<in> set xs. \<not> P x)"
  by (force simp: find_index_def find_None_iff in_set_conv_nth)

lemma find_index_first:
  assumes "find_index P xs = Some i" and "j < i"
  shows "\<not> P (xs ! j)"
  using assms by (auto simp: find_index_def find_Some_iff)

section \<open>Ordered maps\<close>

type_synonym ('k, 'v) omap = "('k \<times> 'v) list"

definition omap_ok :: "('k::linorder, 'v) omap \<Rightarrow> bool" where
  "omap_ok m \<longleftrightarrow> sorted_wrt (<) (map fst m)"

fun emplace :: "'k::linorder \<Rightarrow> 'v \<Rightarrow> ('k, 'v) omap \<Rightarrow> ('k, 'v) omap" where
  "emplace k v [] = [(k, v)]"
| "emplace k v ((a, b) # m) =
     (if k < a then (k, v) # (a, b) # m else if k = a then (a, b) # m else (a, b) # emplace k v m)"

fun assign :: "'k::linorder \<Rightarrow> 'v \<Rightarrow> ('k, 'v) omap \<Rightarrow> ('k, 'v) omap" where
  "assign k v [] = [(k, v)]"
| "assign k v ((a, b) # m) =
     (if k < a then (k, v) # (a, b) # m else if k = a then (k, v) # m else (a, b) # assign k v m)"

definition map_at :: "('k, 'v) omap \<Rightarrow> 'k \<Rightarrow> 'v res" where
  "map_at m k = (case map_of m k of None \<Rightarrow> Inl OutOfRange | Some v \<Rightarrow> Inr v)"

lemma map_at_Inr [simp]: "map_at m k = Inr v \<longleftrightarrow> map_of m k = Some v"
  by (auto simp: map_at_def split: option.splits)

lemma map_at_Inl [simp]: "map_at m k = Inl e \<longleftrightarrow> map_of m k = None \<and> e = OutOfRange"
  by (auto simp: map_at_def split: option.splits)

lemma omap_ok_Nil [simp]: "omap_ok []"
  by (simp add: omap_ok_def)

lemma omap_ok_Cons [simp]: "omap_ok ((k, v) # m) \<longleftrightarrow> (\<forall>x \<in> fst ` set m. k < x) \<and> omap_ok m"
  by (simp add: omap_ok_def)

lemma map_of_smaller: "(\<forall>x \<in> fst ` set m. k < x) \<Longrightarrow> map_of m (k::'k::linorder) = None"
  by (auto simp: map_of_eq_None_iff)

lemma fst_set_emplace [simp]: "fst ` set (emplace k v m) = insert k (fst ` set m)"
  by (induction k v m rule: emplace.induct) (simp_all add: insert_commute)

lemma fst_set_assign [simp]: "fst ` set (assign k v m) = insert k (fst ` set m)"
  by (induction k v m rule: assign.induct) (simp_all add: insert_commute)

lemma omap_ok_emplace [simp]: "omap_ok m \<Longrightarrow> omap_ok (emplace k v m)"
  by (induction k v m rule: emplace.induct) (auto simp del: set_map dest: less_trans)

lemma omap_ok_assign [simp]: "omap_ok m \<Longrightarrow> omap_ok (assign k v m)"
  by (induction k v m rule: assign.induct) (auto simp del: set_map dest: less_trans)

lemma map_of_emplace [simp]:
  "omap_ok m \<Longrightarrow>
   map_of (emplace k v m) = (if map_of m k = None then (map_of m)(k \<mapsto> v) else map_of m)"
proof (induction m)
  case (Cons p m)
  obtain a b where p: "p = (a, b)" by (cases p)
  from Cons.prems p have ok: "omap_ok m" and less: "\<forall>x \<in> fst ` set m. a < x" by auto
  consider "k < a" | "k = a" | "a < k" by (rule linorder_cases)
  then show ?case
  proof cases
    case 1
    with less have "map_of m k = None" by (intro map_of_smaller) (auto intro: less_trans)
    with 1 p show ?thesis by auto
  next
    case 3
    with Cons.IH [OF ok] p show ?thesis by (auto simp: fun_eq_iff)
  qed (auto simp: p)
qed auto

lemma map_of_assign [simp]:
  "omap_ok m \<Longrightarrow> map_of (assign k v m) = (map_of m)(k \<mapsto> v)"
proof (induction m)
  case (Cons p m)
  obtain a b where p: "p = (a, b)" by (cases p)
  from Cons.prems p have ok: "omap_ok m" by auto
  from Cons.IH [OF ok] p show ?case by (auto simp: fun_eq_iff)
qed auto

text \<open>Whatever the keys, \<open>assign\<close> makes its own key readable; sortedness is not needed.\<close>

lemma map_of_assign_same: "map_of (assign k v m) k = Some v"
  by (induction m) auto

lemma map_of_assign_other: "k' \<noteq> k \<Longrightarrow> map_of (assign k v m) k' = map_of m k'"
  by (induction m) auto

lemma omap_mem_iff: "omap_ok m \<Longrightarrow> (k, v) \<in> set m \<longleftrightarrow> map_of m k = Some v"
proof -
  assume "omap_ok m"
  then have "distinct (map fst m)" by (simp add: omap_ok_def strict_sorted_iff)
  then show ?thesis by (simp add: map_of_eq_Some_iff)
qed

text \<open>
  The interface the components use: what a lookup returns after each writing operation, and that
  every operation keeps the representation invariant. Loops over the operations are treated once,
  for any provider.
\<close>

locale std_map =
  fixes empty_m :: "'m"
    and lookup :: "'m \<Rightarrow> 'k \<Rightarrow> 'v option"
    and ins :: "'k \<Rightarrow> 'v \<Rightarrow> 'm \<Rightarrow> 'm"
    and put :: "'k \<Rightarrow> 'v \<Rightarrow> 'm \<Rightarrow> 'm"
    and inv :: "'m \<Rightarrow> bool"
  assumes lookup_empty: "lookup empty_m k = None"
    and lookup_ins: "inv m \<Longrightarrow>
      lookup (ins k v m) = (if lookup m k = None then (lookup m)(k \<mapsto> v) else lookup m)"
    and lookup_put: "inv m \<Longrightarrow> lookup (put k v m) = (lookup m)(k \<mapsto> v)"
    and inv_empty: "inv empty_m"
    and inv_ins: "inv m \<Longrightarrow> inv (ins k v m)"
    and inv_put: "inv m \<Longrightarrow> inv (put k v m)"
begin

lemma inv_fold_put: "inv m \<Longrightarrow> inv (fold (\<lambda>(k, v). put k v) kvs m)"
  by (induction kvs arbitrary: m) (auto simp: inv_put)

lemma inv_fold_ins: "inv m \<Longrightarrow> inv (fold (\<lambda>(k, v). ins k v) kvs m)"
  by (induction kvs arbitrary: m) (auto simp: inv_ins)

text \<open>Assigning a list of pairs: the last writer of a key wins.\<close>

lemma lookup_fold_put:
  "inv m \<Longrightarrow> lookup (fold (\<lambda>(k, v). put k v) kvs m) = lookup m ++ map_of (rev kvs)"
proof (induction kvs arbitrary: m)
  case (Cons kv kvs)
  obtain k v where kv: "kv = (k, v)" by (cases kv)
  from Cons kv show ?case
    by (auto simp: inv_put lookup_put fun_eq_iff map_add_def split: option.splits)
qed simp

text \<open>Emplacing a list of pairs: the first writer of a key wins.\<close>

lemma lookup_fold_ins:
  "inv m \<Longrightarrow> lookup (fold (\<lambda>(k, v). ins k v) kvs m) = map_of kvs ++ lookup m"
proof (induction kvs arbitrary: m)
  case (Cons kv kvs)
  obtain k v where kv: "kv = (k, v)" by (cases kv)
  from Cons kv show ?case
    by (auto simp: inv_ins lookup_ins fun_eq_iff map_add_def split: option.splits)
qed simp

end

interpretation om: std_map "[]" map_of emplace assign omap_ok
  by unfold_locales auto

section \<open>Step systems\<close>

text \<open>
  The contract between a component that changes its state in steps and an invariant: the initial
  states satisfy it and every step keeps it. What follows for runs is proved once.
\<close>

inductive run :: "('s \<Rightarrow> 's \<Rightarrow> bool) \<Rightarrow> 's \<Rightarrow> 's \<Rightarrow> bool" for step where
  run_refl: "run step s s"
| run_step: "run step s t \<Longrightarrow> step t u \<Longrightarrow> run step s u"

locale step_system =
  fixes init :: "'s \<Rightarrow> bool" and step :: "'s \<Rightarrow> 's \<Rightarrow> bool" and inv :: "'s \<Rightarrow> bool"
  assumes init_inv: "init s \<Longrightarrow> inv s"
    and step_inv: "inv s \<Longrightarrow> step s t \<Longrightarrow> inv t"
begin

lemma run_inv: "run step s t \<Longrightarrow> inv s \<Longrightarrow> inv t"
  by (induction rule: run.induct) (auto intro: step_inv)

lemma reach_inv: "init s \<Longrightarrow> run step s t \<Longrightarrow> inv t"
  by (auto intro: run_inv init_inv)

end

section \<open>Decimal formatting\<close>

fun fmt_nat :: "nat \<Rightarrow> string" where
  "fmt_nat n = (if n < 10 then [char_of (48 + n)] else fmt_nat (n div 10) @ [char_of (48 + n mod 10)])"

declare fmt_nat.simps [simp del]

definition fmt_int :: "int \<Rightarrow> string" where
  "fmt_int i = (if i < 0 then CHR ''-'' # fmt_nat (nat (- i)) else fmt_nat (nat i))"

definition is_digit :: "char \<Rightarrow> bool" where
  "is_digit c \<longleftrightarrow> 48 \<le> (of_char c :: nat) \<and> (of_char c :: nat) \<le> 57"

lemma digit_char [simp]: "d < 10 \<Longrightarrow> is_digit (char_of (48 + d :: nat))"
  by (simp add: is_digit_def)

lemma fmt_nat_digits: "\<forall>c \<in> set (fmt_nat n). is_digit c"
proof (induction n rule: fmt_nat.induct)
  case (1 n)
  then show ?case
    by (cases "n < 10") (auto simp: fmt_nat.simps [of n])
qed

lemma fmt_nat_nonempty [simp]: "fmt_nat n \<noteq> []"
  by (simp add: fmt_nat.simps [of n])

lemma Nil_neq_fmt_nat [simp]: "[] \<noteq> fmt_nat n"
  by (rule fmt_nat_nonempty [symmetric])

lemma digit_char_inj:
  assumes "char_of (48 + a :: nat) = (char_of (48 + b) :: char)" and "a < 10" and "b < 10"
  shows "a = b"
proof -
  from assms(1) have "of_char (char_of (48 + a) :: char) = (of_char (char_of (48 + b) :: char) :: nat)"
    by simp
  with assms(2,3) show ?thesis by simp
qed

lemma fmt_nat_inj: "fmt_nat m = fmt_nat n \<Longrightarrow> m = n"
proof (induction m arbitrary: n rule: fmt_nat.induct)
  case (1 m)
  show ?case
  proof (cases "m < 10")
    case True
    with "1.prems" have n: "n < 10"
      by (cases "n < 10") (auto simp: fmt_nat.simps [of m] fmt_nat.simps [of n])
    with True "1.prems" show ?thesis
      by (auto simp: fmt_nat.simps [of m] fmt_nat.simps [of n] dest: digit_char_inj)
  next
    case False
    with "1.prems" have n: "\<not> n < 10"
      by (cases "n < 10") (auto simp: fmt_nat.simps [of m] fmt_nat.simps [of n])
    with False "1.prems" have eq: "fmt_nat (m div 10) = fmt_nat (n div 10)"
      and last: "char_of (48 + m mod 10) = (char_of (48 + n mod 10) :: char)"
      by (auto simp: fmt_nat.simps [of m] fmt_nat.simps [of n])
    from "1.IH" [OF False eq] have "m div 10 = n div 10" .
    moreover from last have "m mod 10 = n mod 10" by (rule digit_char_inj) auto
    ultimately show ?thesis by (metis div_mult_mod_eq)
  qed
qed

section \<open>Loops over vectors whose body may throw\<close>

text \<open>\<open>at\<close> with an \<open>int\<close>: a negative index converts to a huge \<open>size_t\<close>.\<close>

definition vec_at_int :: "'a list \<Rightarrow> int \<Rightarrow> 'a res" where
  "vec_at_int xs i = (if 0 \<le> i then vec_at xs (nat i) else Inl OutOfRange)"

lemma vec_at_int_Inr [simp]: "vec_at_int xs i = Inr x \<longleftrightarrow> 0 \<le> i \<and> nat i < length xs \<and> xs ! nat i = x"
  by (auto simp: vec_at_int_def)

fun map_res :: "('a \<Rightarrow> 'b res) \<Rightarrow> 'a list \<Rightarrow> 'b list res" where
  "map_res f [] = Inr []"
| "map_res f (x # xs) = bind_res (f x) (\<lambda>y. bind_res (map_res f xs) (\<lambda>ys. Inr (y # ys)))"

fun filter_res :: "('a \<Rightarrow> bool res) \<Rightarrow> 'a list \<Rightarrow> 'a list res" where
  "filter_res P [] = Inr []"
| "filter_res P (x # xs) =
     bind_res (P x) (\<lambda>b. bind_res (filter_res P xs) (\<lambda>ys. Inr (if b then x # ys else ys)))"

lemma map_res_total: "(\<And>x. x \<in> set xs \<Longrightarrow> f x = Inr (g x)) \<Longrightarrow> map_res f xs = Inr (map g xs)"
  by (induction xs) auto

lemma map_res_Inr: "map_res f xs = Inr ys \<longleftrightarrow> list_all2 (\<lambda>x y. f x = Inr y) xs ys"
  by (induction xs arbitrary: ys) (auto simp: list_all2_Cons1)

lemma filter_res_total:
  "(\<And>x. x \<in> set xs \<Longrightarrow> P x = Inr (Q x)) \<Longrightarrow> filter_res P xs = Inr (filter Q xs)"
  by (induction xs) auto

lemma filter_res_Inr:
  "filter_res P xs = Inr ys \<Longrightarrow> (\<forall>x \<in> set xs. is_ok (P x)) \<and> ys = filter (\<lambda>x. P x = Inr True) xs"
proof (induction xs arbitrary: ys)
  case (Cons x xs)
  then obtain b zs where "P x = Inr b" "filter_res P xs = Inr zs" "ys = (if b then x # zs else zs)"
    by auto
  with Cons.IH [of zs] show ?case by auto
qed simp

end
