(* ===== verification/Datatypes.thy ===== *)
theory Datatypes
  imports Complex_Main Prelude "HOL-Library.Word"
begin

text \<open>
  The shared data types: timestamps, enumerations and the time domain configuration of
  \<open>include/traact/datatypes.h\<close>, the component and module types of
  \<open>include/traact/component/ComponentTypes.h\<close>, the names of
  \<open>src/traact/util/EnumToString.cpp\<close> and the task identifiers of
  \<open>include/traact/dataflow/graph/task/TraactTaskId.h\<close>.

  A \<open>Timestamp\<close> or \<open>TimeDuration\<close> is a count of nanoseconds in an \<open>int64_t\<close>. The model reads the
  count as an \<open>int\<close>: a signed overflow is undefined in C++, so the code's results are these values
  as long as every intermediate count passes \<open>in_int64\<close>. Conversions from \<open>uint64_t\<close> wrap and
  are written with words. A \<open>double\<close> value is a rational number (see \<open>Clock\<close> for its rounding).
\<close>

section \<open>Timestamps\<close>

type_synonym timestamp = int
type_synonym time_duration = int

definition in_int64 :: "int \<Rightarrow> bool" where
  "in_int64 x \<longleftrightarrow> - (2 ^ 63) \<le> x \<and> x < 2 ^ 63"

definition kTimestampZero :: timestamp where
  "kTimestampZero = 0"

definition kTimeDurationMin :: time_duration where
  "kTimeDurationMin = - (2 ^ 63)"

definition kTimestampMax :: timestamp where
  "kTimestampMax = 2 ^ 63 - 1"

definition AsTimestamp :: "64 word \<Rightarrow> timestamp" where
  "AsTimestamp ts = kTimestampZero + sint ts"

definition isWithinRange :: "timestamp \<Rightarrow> timestamp \<Rightarrow> time_duration \<Rightarrow> bool" where
  "isWithinRange value_0 value_1 max_offset =
     (let ts0_min = value_0 - max_offset;
          ts0_max = value_0 + max_offset;
          ts1_min = value_1 - max_offset;
          ts1_max = value_1 + max_offset
      in ts1_min \<le> ts0_max \<and> ts0_min \<le> ts1_max)"

lemma isWithinRange_iff: "isWithinRange a b m \<longleftrightarrow> \<bar>a - b\<bar> \<le> 2 * m"
  by (auto simp: isWithinRange_def Let_def)

lemma isWithinRange_sym: "isWithinRange a b m = isWithinRange b a m"
  by (auto simp: isWithinRange_iff)

lemma isWithinRange_refl: "0 \<le> m \<Longrightarrow> isWithinRange a a m"
  by (simp add: isWithinRange_iff)

text \<open>None of the four intermediate values leaves the \<open>int64_t\<close> range for ordinary arguments.\<close>

lemma isWithinRange_no_overflow:
  assumes "\<bar>a\<bar> < 2 ^ 62" and "0 \<le> m" and "m < 2 ^ 62"
  shows "in_int64 (a - m) \<and> in_int64 (a + m)"
  using assms by (auto simp: in_int64_def)

lemma AsTimestamp_small: "ts < 2 ^ 63 \<Longrightarrow> AsTimestamp (word_of_nat ts) = int ts"
proof -
  assume small: "ts < 2 ^ 63"
  then have "int ts < 2 ^ 63" by simp
  then have "signed_take_bit 63 (int ts) = int ts"
    by (intro signed_take_bit_int_eq_self) auto
  then show ?thesis by (simp add: AsTimestamp_def kTimestampZero_def signed_of_nat)
qed

section \<open>Enumerations of the data flow\<close>

datatype EventType =
    EV_INVALID | CONFIGURE | START | DATA | PARAMETER_CHANGE | STOP | TEARDOWN
  | DATAFLOW_NO_OP | DATAFLOW_STOP

datatype SourceMode = WAIT_FOR_BUFFER | IMMEDIATE_RETURN

datatype MissingSourceEventMode = WAIT_FOR_EVENT | CANCEL_OLDEST

datatype BaseType =
    UNKNOWN | INT_8 | UINT_8 | INT_16 | UINT_16 | INT_32 | FLOAT_16 | FLOAT_32 | FLOAT_64

fun getBytes :: "BaseType \<Rightarrow> int" where
  "getBytes INT_8 = 1"
| "getBytes UINT_8 = 1"
| "getBytes INT_16 = 2"
| "getBytes UINT_16 = 2"
| "getBytes FLOAT_16 = 2"
| "getBytes INT_32 = 4"
| "getBytes FLOAT_32 = 4"
| "getBytes FLOAT_64 = 8"
| "getBytes UNKNOWN = 0"

lemma getBytes_range: "getBytes t \<in> {0, 1, 2, 4, 8} \<and> (getBytes t = 0 \<longleftrightarrow> t = UNKNOWN)"
  by (cases t) auto

datatype Concurrency = UNLIMITED | SERIAL

record PortGroupInfo =
  pgi_port_group_index :: int
  pgi_size :: int

record TimeDomainManagerConfig =
  time_domain :: int
  ringbuffer_size :: nat
  max_offset :: time_duration
  max_delay :: time_duration
  sensor_frequency :: rat
  source_mode :: SourceMode
  missing_source_event_mode :: MissingSourceEventMode
  cpu_count :: int
  profile :: bool

definition default_config :: TimeDomainManagerConfig where
  "default_config =
     \<lparr>time_domain = -1, ringbuffer_size = 0, max_offset = kTimeDurationMin,
      max_delay = kTimeDurationMin, sensor_frequency = 30, source_mode = WAIT_FOR_BUFFER,
      missing_source_event_mode = WAIT_FOR_EVENT, cpu_count = 0, profile = False\<rparr>"

section \<open>Component types, ordered as the enumeration is\<close>

datatype ComponentType =
    CT_INVALID | ASYNC_SOURCE | INTERNAL_SYNC_SOURCE | SYNC_SOURCE | SYNC_FUNCTIONAL
  | ASYNC_FUNCTIONAL | SYNC_SINK | ASYNC_SINK

fun ct_value :: "ComponentType \<Rightarrow> nat" where
  "ct_value CT_INVALID = 0"
| "ct_value ASYNC_SOURCE = 1"
| "ct_value INTERNAL_SYNC_SOURCE = 2"
| "ct_value SYNC_SOURCE = 3"
| "ct_value SYNC_FUNCTIONAL = 4"
| "ct_value ASYNC_FUNCTIONAL = 5"
| "ct_value SYNC_SINK = 6"
| "ct_value ASYNC_SINK = 7"

lemma ct_value_inj: "ct_value a = ct_value b \<longleftrightarrow> a = b"
  by (cases a; cases b) auto

instantiation ComponentType :: linorder
begin

definition less_eq_ComponentType :: "ComponentType \<Rightarrow> ComponentType \<Rightarrow> bool" where
  "less_eq_ComponentType a b \<longleftrightarrow> ct_value a \<le> ct_value b"

definition less_ComponentType :: "ComponentType \<Rightarrow> ComponentType \<Rightarrow> bool" where
  "less_ComponentType a b \<longleftrightarrow> ct_value a < ct_value b"

instance
  by standard (auto simp: less_eq_ComponentType_def less_ComponentType_def ct_value_inj)

end

definition is_source_type :: "ComponentType \<Rightarrow> bool" where
  "is_source_type t \<longleftrightarrow> t = ASYNC_SOURCE \<or> t = INTERNAL_SYNC_SOURCE"

lemma source_types_first:
  "is_source_type a \<Longrightarrow> \<not> is_source_type b \<Longrightarrow> b \<noteq> CT_INVALID \<Longrightarrow> a < b"
  by (cases a; cases b) (auto simp: is_source_type_def less_ComponentType_def)

datatype ModuleType = MT_INVALID | MT_GLOBAL | UNIQUE_DATAFLOW_PARAMETER | UNIQUE_NODE

fun toString_EventType :: "EventType \<Rightarrow> string" where
  "toString_EventType EV_INVALID = ''INVALID''"
| "toString_EventType CONFIGURE = ''CONFIGURE''"
| "toString_EventType START = ''START''"
| "toString_EventType DATA = ''DATA''"
| "toString_EventType PARAMETER_CHANGE = ''PARAMETER_CHANGE''"
| "toString_EventType STOP = ''STOP''"
| "toString_EventType TEARDOWN = ''TEARDOWN''"
| "toString_EventType DATAFLOW_NO_OP = ''DATAFLOW_NO_OP''"
| "toString_EventType DATAFLOW_STOP = ''DATAFLOW_STOP''"

fun toString_Concurrency :: "Concurrency \<Rightarrow> string" where
  "toString_Concurrency UNLIMITED = ''UNLIMITED''"
| "toString_Concurrency SERIAL = ''SERIAL''"

fun toString_ComponentType :: "ComponentType \<Rightarrow> string" where
  "toString_ComponentType CT_INVALID = ''INVALID''"
| "toString_ComponentType ASYNC_SOURCE = ''ASYNC_SOURCE''"
| "toString_ComponentType INTERNAL_SYNC_SOURCE = ''INTERNAL_SYNC_SOURCE''"
| "toString_ComponentType SYNC_SOURCE = ''SYNC_SOURCE''"
| "toString_ComponentType SYNC_FUNCTIONAL = ''SYNC_FUNCTIONAL''"
| "toString_ComponentType ASYNC_FUNCTIONAL = ''ASYNC_FUNCTIONAL''"
| "toString_ComponentType SYNC_SINK = ''SYNC_SINK''"
| "toString_ComponentType ASYNC_SINK = ''ASYNC_SINK''"

lemma toString_EventType_inj: "toString_EventType a = toString_EventType b \<longleftrightarrow> a = b"
  by (cases a; cases b) simp_all

lemma toString_ComponentType_inj:
  "toString_ComponentType a = toString_ComponentType b \<longleftrightarrow> a = b"
  by (cases a; cases b) simp_all

section \<open>Task identifiers\<close>

datatype TaskType =
    CONTROL_FLOW | SEAM_ENTRY | SEAM_START | SEAM_END | SOURCE | COMPONENT | MODULE
  | CUDA_COMPONENT | CUDA_FLOW | TT_INVALID | TT_COUNT

abbreviation kComponent :: string where "kComponent \<equiv> ''Component''"
abbreviation kControlFlow :: string where "kControlFlow \<equiv> ''ControlFlow''"
abbreviation kModule :: string where "kModule \<equiv> ''Module''"
abbreviation kSource :: string where "kSource \<equiv> ''Source''"
abbreviation kCudaComponent :: string where "kCudaComponent \<equiv> ''CudaComponent''"
abbreviation kCudaFlow :: string where "kCudaFlow \<equiv> ''CudaFlow''"
abbreviation kSeamEntry :: string where "kSeamEntry \<equiv> ''SeamEntry''"
abbreviation kSeamStart :: string where "kSeamStart \<equiv> ''SeamStart''"
abbreviation kSeamEnd :: string where "kSeamEnd \<equiv> ''SeamEnd''"
abbreviation kGlobalStart :: string where "kGlobalStart \<equiv> ''GlobalStart''"
abbreviation kGlobalEnd :: string where "kGlobalEnd \<equiv> ''GlobalEnd''"
abbreviation kTimeStepStart :: string where "kTimeStepStart \<equiv> ''TimeStepStart''"
abbreviation kTimeStepEnd :: string where "kTimeStepEnd \<equiv> ''TimeStepEnd''"
abbreviation kTimeStepSelf :: string where "kTimeStepSelf \<equiv> ''TimeStepSelf''"

definition taskTypeNameToEnum :: "string \<Rightarrow> TaskType" where
  "taskTypeNameToEnum name =
     (if name = kComponent then COMPONENT
      else if name = kControlFlow then CONTROL_FLOW
      else if name = kSeamEntry then SEAM_ENTRY
      else if name = kSeamStart then SEAM_START
      else if name = kSeamEnd then SEAM_END
      else if name = kModule then MODULE
      else if name = kSource then SOURCE
      else if name = kCudaComponent then CUDA_COMPONENT
      else if name = kCudaFlow then CUDA_FLOW
      else TT_INVALID)"

fun taskTypeEnumToName :: "TaskType \<Rightarrow> string" where
  "taskTypeEnumToName CONTROL_FLOW = kControlFlow"
| "taskTypeEnumToName SEAM_ENTRY = kSeamEntry"
| "taskTypeEnumToName SEAM_START = kSeamStart"
| "taskTypeEnumToName SEAM_END = kSeamEnd"
| "taskTypeEnumToName COMPONENT = kComponent"
| "taskTypeEnumToName MODULE = kModule"
| "taskTypeEnumToName SOURCE = kSource"
| "taskTypeEnumToName CUDA_COMPONENT = kCudaComponent"
| "taskTypeEnumToName CUDA_FLOW = kCudaFlow"
| "taskTypeEnumToName TT_INVALID = ''invalid''"
| "taskTypeEnumToName TT_COUNT = ''invalid''"

definition getTaskId :: "string \<Rightarrow> string \<Rightarrow> int \<Rightarrow> string" where
  "getTaskId type name time_step = type @ ''_'' @ fmt_int time_step @ ''_'' @ name"

lemma taskType_roundtrip:
  "t \<noteq> TT_COUNT \<Longrightarrow> taskTypeNameToEnum (taskTypeEnumToName t) = t"
  by (cases t) (simp_all add: taskTypeNameToEnum_def)

lemma taskTypeEnumToName_no_underscore: "CHR ''_'' \<notin> set (taskTypeEnumToName t)"
  by (cases t) simp_all

text \<open>The three parts of an identifier can be told apart again, whatever the instance is called.\<close>

lemma underscore_not_digit: "\<not> is_digit CHR ''_''" and minus_not_digit: "\<not> is_digit CHR ''-''"
  by (simp_all add: is_digit_def)

lemma fmt_int_no_underscore: "CHR ''_'' \<notin> set (fmt_int i)"
  using fmt_nat_digits underscore_not_digit by (auto simp: fmt_int_def)

lemma fmt_int_inj: "fmt_int i = fmt_int j \<Longrightarrow> i = j"
proof -
  assume eq: "fmt_int i = fmt_int j"
  have no_minus: "hd (fmt_nat n) \<noteq> CHR ''-''" for n
    using fmt_nat_digits [of n] minus_not_digit by (metis fmt_nat_nonempty list.set_sel(1))
  have "CHR ''-'' # fmt_nat m \<noteq> fmt_nat n" for m n
    using no_minus [of n] by (metis list.sel(1))
  then have not_mixed: "fmt_nat n \<noteq> CHR ''-'' # fmt_nat m" "CHR ''-'' # fmt_nat m \<noteq> fmt_nat n" for m n
    by metis+
  show ?thesis
    using eq by (auto simp: fmt_int_def not_mixed split: if_splits dest: fmt_nat_inj)
qed

lemma append_sep_eq:
  assumes "c \<notin> set a" and "c \<notin> set a'" and "a @ c # b = a' @ c # b'"
  shows "a = a' \<and> b = b'"
  using assms
proof (induction a arbitrary: a')
  case Nil
  then show ?case by (cases a') auto
next
  case (Cons x a)
  then show ?case by (cases a') auto
qed

lemma getTaskId_inj:
  assumes "CHR ''_'' \<notin> set t" and "CHR ''_'' \<notin> set t'"
    and "getTaskId t n i = getTaskId t' n' i'"
  shows "t = t' \<and> n = n' \<and> i = i'"
proof -
  from assms(3) have "t @ CHR ''_'' # (fmt_int i @ CHR ''_'' # n) =
      t' @ CHR ''_'' # (fmt_int i' @ CHR ''_'' # n')"
    by (simp add: getTaskId_def)
  then have t: "t = t'" and rest: "fmt_int i @ CHR ''_'' # n = fmt_int i' @ CHR ''_'' # n'"
    using append_sep_eq [OF assms(1,2)] by auto
  from append_sep_eq [OF fmt_int_no_underscore fmt_int_no_underscore rest]
  have "fmt_int i = fmt_int i'" "n = n'" by auto
  with t show ?thesis by (auto dest: fmt_int_inj)
qed

end
