(* ===== verification/Clock.thy ===== *)
theory Clock
  imports Datatypes "HOL-Library.Log_Nat"
begin

text \<open>
  \<open>src/traact/dataflow/taskflow/TimeDomainClock.{h,cpp}\<close>: the clock of a time domain, which
  predicts the timestamp of the next frame.

  A \<open>double\<close> is the rational number it stands for. \<open>to_double\<close> rounds to 53 significant bits, ties
  to even, which is the result of every IEEE operation whose exact value is neither subnormal nor
  beyond the largest double; the values here are counts of nanoseconds of at most 64 bits. The
  conversion \<open>static_cast<uint64_t>\<close> truncates and is undefined outside the range of \<open>uint64_t\<close>.
\<close>

section \<open>Double arithmetic\<close>

definition binade :: "rat \<Rightarrow> int" where
  "binade x =
     (let (p, q) = quotient_of \<bar>x\<bar>;
          e = bitlen p - bitlen q
      in if 2 powi e \<le> \<bar>x\<bar> then e else e - 1)"

definition round_half_even :: "rat \<Rightarrow> int" where
  "round_half_even x =
     (let f = \<lfloor>x\<rfloor>; r = x - of_int f
      in if r < 1 / 2 then f else if 1 / 2 < r then f + 1 else if even f then f else f + 1)"

definition to_double :: "rat \<Rightarrow> rat" where
  "to_double x =
     (if x = 0 then 0
      else let e = binade x - 52 in of_int (round_half_even (x / 2 powi e)) * 2 powi e)"

definition dmul :: "rat \<Rightarrow> rat \<Rightarrow> rat" where
  "dmul a b = to_double (a * b)"

definition dadd :: "rat \<Rightarrow> rat \<Rightarrow> rat" where
  "dadd a b = to_double (a + b)"

definition ddiv :: "rat \<Rightarrow> rat \<Rightarrow> rat" where
  "ddiv a b = to_double (a / b)"

definition int_to_double :: "int \<Rightarrow> rat" where
  "int_to_double i = to_double (of_int i)"

definition double_to_uint64 :: "rat \<Rightarrow> 64 word res" where
  "double_to_uint64 x =
     (let t = (if 0 \<le> x then \<lfloor>x\<rfloor> else \<lceil>x\<rceil>)
      in if 0 \<le> t \<and> t < 2 ^ 64 then Inr (word_of_int t) else Inl UndefinedBehaviour)"

lemma round_half_even_of_int [simp]: "round_half_even (of_int n) = n"
  by (simp add: round_half_even_def Let_def)

lemma to_double_0 [simp]: "to_double 0 = 0"
  by (simp add: to_double_def)

text \<open>Integers of at most 53 bits are doubles.\<close>

lemma binade_of_int:
  assumes "\<bar>n\<bar> < 2 ^ 53"
  shows "binade (of_int n) \<le> 52"
proof -
  from assms have "bitlen \<bar>n\<bar> \<le> 53" using bitlen_le_iff_power [of "\<bar>n\<bar>" 53] by simp
  moreover have "quotient_of \<bar>of_int n\<bar> = (\<bar>n\<bar>, 1)"
    by (simp add: of_int_rat quotient_of_Fract)
  moreover have "bitlen 1 = 1" by (subst compute_bitlen) simp
  ultimately show ?thesis by (simp add: binade_def Let_def)
qed

lemma to_double_of_int:
  assumes "\<bar>n\<bar> < 2 ^ 53"
  shows "to_double (of_int n) = of_int n"
proof (cases "n = 0")
  case False
  define k where "k = nat (52 - binade (of_int n))"
  have k: "binade (of_int n) - 52 = - int k"
    using binade_of_int [OF assms] by (simp add: k_def)
  have "(of_int n :: rat) / 2 powi (- int k) = of_int (n * 2 ^ k)"
    by (simp add: power_int_minus divide_inverse)
  then have "to_double (of_int n) = of_int (n * 2 ^ k) * 2 powi (- int k)"
    using False by (simp add: to_double_def k Let_def del: of_int_mult)
  then show ?thesis by (simp add: power_int_minus)
qed simp

lemma double_to_uint64_of_int:
  "0 \<le> n \<Longrightarrow> n < 2 ^ 64 \<Longrightarrow> double_to_uint64 (of_int n) = Inr (word_of_int n)"
  by (simp add: double_to_uint64_def)

lemma AsTimestamp_word_of_int:
  assumes "0 \<le> n" and "n < 2 ^ 63"
  shows "AsTimestamp (word_of_int n) = n"
proof -
  from assms have "signed_take_bit 63 n = n"
    by (intro signed_take_bit_int_eq_self) auto
  then show ?thesis by (simp add: AsTimestamp_def kTimestampZero_def signed_of_int)
qed

section \<open>The clock\<close>

record TimeDomainClock =
  expected_sensor_frequency :: rat
  tdc_max_offset :: time_duration
  alpha_0 :: rat
  alpha_1 :: rat
  sensor_delta_mean :: time_duration
  current_time_step :: nat
  initial_timestamp_mean :: timestamp
  current_timestamp :: timestamp
  expected_next_timestamp :: timestamp
  received_next_timestamps :: "timestamp list"

definition one_second :: time_duration where
  "one_second = 1000000000"

definition TimeDomainClock_init :: "rat \<Rightarrow> time_duration \<Rightarrow> rat \<Rightarrow> TimeDomainClock res" where
  "TimeDomainClock_init frequency off a0 =
     (if frequency = 0 then Inl UndefinedBehaviour
      else bind_res (double_to_uint64 (ddiv (int_to_double one_second) frequency)) (\<lambda>delta.
        Inr \<lparr>expected_sensor_frequency = frequency, tdc_max_offset = off, alpha_0 = a0,
             alpha_1 = dadd 1 (- a0), sensor_delta_mean = AsTimestamp delta,
             current_time_step = 0, initial_timestamp_mean = kTimestampZero,
             current_timestamp = kTimestampZero, expected_next_timestamp = kTimestampZero,
             received_next_timestamps = []\<rparr>))"

definition isNextExpectedTimestamp :: "TimeDomainClock \<Rightarrow> timestamp \<Rightarrow> bool" where
  "isNextExpectedTimestamp c next_timestamp =
     isWithinRange (expected_next_timestamp c) next_timestamp (tdc_max_offset c)"

definition isFurtherAheadThenNextExpectedTimestamp :: "TimeDomainClock \<Rightarrow> timestamp \<Rightarrow> bool" where
  "isFurtherAheadThenNextExpectedTimestamp c next_timestamp \<longleftrightarrow>
     expected_next_timestamp c + tdc_max_offset c < next_timestamp - tdc_max_offset c"

definition isNextExpectedTimestampOrBigger :: "TimeDomainClock \<Rightarrow> timestamp \<Rightarrow> bool" where
  "isNextExpectedTimestampOrBigger c next_timestamp \<longleftrightarrow>
     isNextExpectedTimestamp c next_timestamp \<or> next_timestamp \<ge> expected_next_timestamp c"

definition getInitTimestamp :: "TimeDomainClock \<Rightarrow> timestamp" where
  "getInitTimestamp c = initial_timestamp_mean c"

definition newTimestamp :: "timestamp \<Rightarrow> TimeDomainClock \<Rightarrow> TimeDomainClock res" where
  "newTimestamp ts c =
     (if initial_timestamp_mean c = kTimestampZero then
        Inr (c\<lparr>initial_timestamp_mean := ts, expected_next_timestamp := ts,
              current_timestamp := ts, current_time_step := 0\<rparr>)
      else if isWithinRange (initial_timestamp_mean c) ts (tdc_max_offset c) then
        bind_res (double_to_uint64 (dmul (int_to_double (initial_timestamp_mean c)) (alpha_0 c)))
          (\<lambda>ts_init.
        bind_res (double_to_uint64 (dmul (int_to_double ts) (alpha_1 c))) (\<lambda>ts_other.
          let m = AsTimestamp (ts_init + ts_other)
          in Inr (c\<lparr>initial_timestamp_mean := m, current_timestamp := m\<rparr>)))
      else if isNextExpectedTimestamp c ts then
        Inr (c\<lparr>received_next_timestamps := received_next_timestamps c @ [ts]\<rparr>)
      else Inr c)"

definition get_mean_timestamp :: "timestamp list \<Rightarrow> timestamp" where
  "get_mean_timestamp values =
     (if values = [] then kTimestampZero
      else AsTimestamp
        (fold (\<lambda>ts mean_ts. mean_ts + word_of_int ts) values (0 :: 64 word)
           div word_of_nat (length values)))"

definition advanceTimeStep :: "TimeDomainClock \<Rightarrow> TimeDomainClock res" where
  "advanceTimeStep c =
     (let c1 = c\<lparr>current_time_step := current_time_step c + 1\<rparr>
      in bind_res
        (if received_next_timestamps c1 \<noteq> [] then
           let mean_next = get_mean_timestamp (received_next_timestamps c1);
               time_diff = mean_next - current_timestamp c1
           in bind_res (double_to_uint64
                (dadd (dmul (int_to_double (sensor_delta_mean c1)) (alpha_0 c1))
                      (dmul (int_to_double time_diff) (alpha_1 c1)))) (\<lambda>delta.
              Inr (c1\<lparr>sensor_delta_mean := AsTimestamp delta, received_next_timestamps := []\<rparr>))
         else Inr c1)
        (\<lambda>c2.
          let c3 = c2\<lparr>current_timestamp := expected_next_timestamp c2\<rparr>
          in Inr (c3\<lparr>expected_next_timestamp := current_timestamp c3 + sensor_delta_mean c3\<rparr>)))"

definition getNextExpectedTimestamp :: "TimeDomainClock \<Rightarrow> (timestamp \<times> TimeDomainClock) res" where
  "getNextExpectedTimestamp c =
     (let result = expected_next_timestamp c
      in bind_res (advanceTimeStep c) (\<lambda>c'. Inr (result, c')))"

section \<open>Classification of a requested timestamp\<close>

lemma next_iff: "isNextExpectedTimestamp c t \<longleftrightarrow> \<bar>expected_next_timestamp c - t\<bar> \<le> 2 * tdc_max_offset c"
  by (simp add: isNextExpectedTimestamp_def isWithinRange_iff)

lemma ahead_iff: "isFurtherAheadThenNextExpectedTimestamp c t \<longleftrightarrow>
    expected_next_timestamp c + 2 * tdc_max_offset c < t"
  by (auto simp: isFurtherAheadThenNextExpectedTimestamp_def)

lemma orBigger_iff: "0 \<le> tdc_max_offset c \<Longrightarrow> isNextExpectedTimestampOrBigger c t \<longleftrightarrow>
    expected_next_timestamp c - 2 * tdc_max_offset c \<le> t"
  by (auto simp: isNextExpectedTimestampOrBigger_def next_iff)

section \<open>The clock as the scheduler sets it up\<close>

text \<open>
  The scheduler constructs the clock with \<open>alpha_0 = 1.0\<close>: the frame distance is then fixed, and the
  predicted timestamps are an arithmetic progression. The laws are stated once for any clock.
\<close>

locale frame_clock =
  fixes adv :: "'c \<Rightarrow> 'c" and expected :: "'c \<Rightarrow> int" and delta :: "'c \<Rightarrow> int" and ok :: "'c \<Rightarrow> bool"
  assumes expected_adv: "ok c \<Longrightarrow> expected (adv c) = expected c + delta c"
    and delta_adv: "ok c \<Longrightarrow> delta (adv c) = delta c"
    and ok_adv: "ok c \<Longrightarrow> ok (adv c)"
begin

lemma ok_iter: "ok c \<Longrightarrow> ok ((adv ^^ n) c)"
  by (induction n) (auto simp: ok_adv)

lemma delta_iter: "ok c \<Longrightarrow> delta ((adv ^^ n) c) = delta c"
  by (induction n) (auto simp: ok_iter delta_adv)

lemma expected_iter: "ok c \<Longrightarrow> expected ((adv ^^ n) c) = expected c + int n * delta c"
  by (induction n) (auto simp: ok_iter delta_iter expected_adv algebra_simps)

text \<open>A clock with a positive distance passes every bound.\<close>

lemma expected_passes:
  assumes "ok c" and "0 < delta c"
  shows "t < expected ((adv ^^ nat (t - expected c + 1)) c)"
proof (cases "t < expected c")
  case True
  have "0 \<le> int (nat (t - expected c + 1)) * delta c" using assms(2) by simp
  with True show ?thesis by (simp add: expected_iter [OF assms(1)])
next
  case False
  let ?n = "t - expected c + 1"
  from False have n: "0 \<le> ?n" by simp
  have "?n \<le> ?n * delta c" using assms(2) n mult_left_mono [of 1 "delta c" ?n] by simp
  with n show ?thesis by (simp add: expected_iter [OF assms(1)])
qed

end

definition clock_ok :: "TimeDomainClock \<Rightarrow> bool" where
  "clock_ok c \<longleftrightarrow> alpha_0 c = 1 \<and> alpha_1 c = 0 \<and>
     0 \<le> sensor_delta_mean c \<and> sensor_delta_mean c < 2 ^ 53"

definition advance :: "TimeDomainClock \<Rightarrow> TimeDomainClock" where
  "advance c = c\<lparr>current_time_step := current_time_step c + 1, received_next_timestamps := [],
     current_timestamp := expected_next_timestamp c,
     expected_next_timestamp := expected_next_timestamp c + sensor_delta_mean c\<rparr>"

lemma advanceTimeStep_ok:
  assumes "clock_ok c"
  shows "advanceTimeStep c = Inr (advance c)"
proof -
  from assms have r: "to_double (of_int (sensor_delta_mean c)) = of_int (sensor_delta_mean c)"
    by (intro to_double_of_int) (auto simp: clock_ok_def)
  from assms have u: "double_to_uint64 (of_int (sensor_delta_mean c)) =
      Inr (word_of_int (sensor_delta_mean c))"
    by (intro double_to_uint64_of_int) (auto simp: clock_ok_def)
  from assms have t: "AsTimestamp (word_of_int (sensor_delta_mean c)) = sensor_delta_mean c"
    by (intro AsTimestamp_word_of_int) (auto simp: clock_ok_def)
  from assms show ?thesis
    by (simp add: advanceTimeStep_def advance_def Let_def clock_ok_def dmul_def dadd_def
        int_to_double_def r u t)
qed

lemma getNextExpectedTimestamp_ok:
  "clock_ok c \<Longrightarrow> getNextExpectedTimestamp c = Inr (expected_next_timestamp c, advance c)"
  by (simp add: getNextExpectedTimestamp_def advanceTimeStep_ok)

lemma advance_fields [simp]:
  "expected_next_timestamp (advance c) = expected_next_timestamp c + sensor_delta_mean c"
  "sensor_delta_mean (advance c) = sensor_delta_mean c"
  "tdc_max_offset (advance c) = tdc_max_offset c"
  "initial_timestamp_mean (advance c) = initial_timestamp_mean c"
  "clock_ok (advance c) = clock_ok c"
  by (simp_all add: advance_def clock_ok_def)

interpretation fc: frame_clock advance expected_next_timestamp sensor_delta_mean clock_ok
  by unfold_locales auto

lemma newTimestamp_first:
  "initial_timestamp_mean c = kTimestampZero \<Longrightarrow>
   newTimestamp ts c = Inr (c\<lparr>initial_timestamp_mean := ts, expected_next_timestamp := ts,
     current_timestamp := ts, current_time_step := 0\<rparr>)"
  by (simp add: newTimestamp_def)

lemma newTimestamp_ok:
  "clock_ok c \<Longrightarrow> newTimestamp ts c = Inr c' \<Longrightarrow>
   clock_ok c' \<and> tdc_max_offset c' = tdc_max_offset c \<and> sensor_delta_mean c' = sensor_delta_mean c"
  by (auto simp: newTimestamp_def clock_ok_def Let_def split: if_splits)

text \<open>
  A further source that reports the first frame leaves the clock as it is as long as the initial
  timestamp has at most 53 bits.
\<close>

lemma newTimestamp_same_frame:
  assumes ok: "clock_ok c" and init: "initial_timestamp_mean c \<noteq> 0"
    and range: "0 \<le> initial_timestamp_mean c" "initial_timestamp_mean c < 2 ^ 53"
    and near: "isWithinRange (initial_timestamp_mean c) ts (tdc_max_offset c)"
  shows "newTimestamp ts c = Inr (c\<lparr>current_timestamp := initial_timestamp_mean c\<rparr>)"
proof -
  let ?i = "initial_timestamp_mean c"
  have r: "to_double (of_int ?i) = of_int ?i" using range by (intro to_double_of_int) auto
  have u: "double_to_uint64 (of_int ?i) = Inr (word_of_int ?i)"
    using range by (intro double_to_uint64_of_int) auto
  have z: "double_to_uint64 0 = Inr 0" by (simp add: double_to_uint64_def)
  have t: "AsTimestamp (word_of_int ?i) = ?i" using range by (intro AsTimestamp_word_of_int) auto
  from ok init near show ?thesis
    by (simp add: newTimestamp_def kTimestampZero_def clock_ok_def dmul_def int_to_double_def r u z t
        Let_def)
qed

text \<open>Nothing is lost while the frame is not the first one, either.\<close>

lemma newTimestamp_later_frame:
  "initial_timestamp_mean c \<noteq> 0 \<Longrightarrow>
   \<not> isWithinRange (initial_timestamp_mean c) ts (tdc_max_offset c) \<Longrightarrow>
   newTimestamp ts c = Inr (if isNextExpectedTimestamp c ts
     then c\<lparr>received_next_timestamps := received_next_timestamps c @ [ts]\<rparr> else c)"
  by (simp add: newTimestamp_def kTimestampZero_def)

section \<open>The frame distance of a sensor\<close>

lemma round_half_even_le: "x \<le> of_int n \<Longrightarrow> round_half_even x \<le> n"
proof -
  assume le: "x \<le> of_int n"
  then have f: "\<lfloor>x\<rfloor> \<le> n" by (simp add: floor_le_iff)
  show ?thesis
  proof (cases "\<lfloor>x\<rfloor> = n")
    case True
    with le have "x = of_int n" by (simp add: floor_eq_iff)
    then show ?thesis by simp
  next
    case False
    with f show ?thesis by (simp add: round_half_even_def Let_def)
  qed
qed

lemma round_half_even_nonneg: "0 \<le> x \<Longrightarrow> 0 \<le> round_half_even x"
  by (simp add: round_half_even_def Let_def)

lemma bitlen_rat_bounds:
  assumes "0 < p"
  shows "2 powi (bitlen p - 1) \<le> (of_int p :: rat)" and "(of_int p :: rat) < 2 powi (bitlen p)"
proof -
  from assms have b: "1 \<le> bitlen p" using bitlen_eq_zero_iff [of p] bitlen_nonneg [of p] by linarith
  from bitlen_bounds [OF assms] have "2 ^ nat (bitlen p - 1) \<le> p" "p < 2 ^ nat (bitlen p)" by auto
  then have "(of_int (2 ^ nat (bitlen p - 1)) :: rat) \<le> of_int p" "of_int p < (of_int (2 ^ nat (bitlen p)) :: rat)"
    by (simp_all only: of_int_le_iff of_int_less_iff)
  with b show "2 powi (bitlen p - 1) \<le> (of_int p :: rat)" "(of_int p :: rat) < 2 powi (bitlen p)"
    by (simp_all add: power_int_def)
qed

lemma binade_lower:
  assumes "0 < x"
  shows "2 powi (binade x) \<le> x"
proof -
  obtain p q where pq: "quotient_of x = (p, q)" by (cases "quotient_of x")
  with assms have p: "0 < p" and q: "0 < q" and x: "x = of_int p / of_int q"
    using quotient_of_denom_pos [OF pq] quotient_of_div [OF pq] by (auto simp: zero_less_divide_iff)
  have "2 powi (bitlen p - bitlen q - 1) = 2 powi (bitlen p - 1) / (2 powi (bitlen q) :: rat)"
    by (simp add: power_int_diff power_int_add algebra_simps)
  also have "\<dots> \<le> of_int p / of_int q"
    using bitlen_rat_bounds(1) [OF p] bitlen_rat_bounds(2) [OF q] p q
    by (intro frac_le) auto
  finally have low: "2 powi (bitlen p - bitlen q - 1) \<le> x" using x by simp
  have "binade x = (if 2 powi (bitlen p - bitlen q) \<le> x then bitlen p - bitlen q
      else bitlen p - bitlen q - 1)"
    using assms pq by (simp add: binade_def Let_def)
  with low show ?thesis by simp
qed

lemma to_double_le:
  assumes "0 \<le> x" and "x \<le> of_int n" and "n < 2 ^ 53"
  shows "0 \<le> to_double x \<and> to_double x \<le> of_int n"
proof (cases "x = 0")
  case False
  with assms(1) have x: "0 < x" by simp
  have "2 powi (binade x) < (2 powi 53 :: rat)"
  proof -
    have "2 powi (binade x) \<le> (of_int n :: rat)" using binade_lower [OF x] assms(2) by simp
    also have "\<dots> < of_int (2 ^ 53)" using assms(3) by (simp only: of_int_less_iff)
    finally show ?thesis by simp
  qed
  then have "binade x < 53"
    using power_int_increasing [of 53 "binade x" "2 :: rat"] by (metis linorder_not_le one_le_numeral)
  define k where "k = nat (52 - binade x)"
  have k: "binade x - 52 = - int k" using \<open>binade x < 53\<close> by (simp add: k_def)
  have d: "to_double x = of_int (round_half_even (x * 2 ^ k)) / 2 ^ k"
    using False by (simp add: to_double_def k Let_def power_int_minus field_simps)
  have "x * 2 ^ k \<le> of_int (n * 2 ^ k)" using assms(2) by simp
  then have "round_half_even (x * 2 ^ k) \<le> n * 2 ^ k" by (rule round_half_even_le)
  then have "(of_int (round_half_even (x * 2 ^ k)) :: rat) \<le> of_int (n * 2 ^ k)"
    by (simp only: of_int_le_iff)
  moreover have "0 \<le> round_half_even (x * 2 ^ k)" using x by (intro round_half_even_nonneg) simp
  ultimately show ?thesis by (simp add: d divide_le_eq)
qed (use assms in simp)

text \<open>Any sensor of at least one frame per second gets a clock whose distance is exact afterwards.\<close>

lemma TimeDomainClock_init_ok:
  assumes "1 \<le> f"
  shows "\<exists>c. TimeDomainClock_init f off 1 = Inr c \<and> clock_ok c \<and> tdc_max_offset c = off \<and>
     sensor_delta_mean c \<le> one_second \<and> initial_timestamp_mean c = 0 \<and>
     received_next_timestamps c = [] \<and> sensor_delta_mean c = \<lfloor>to_double (10 ^ 9 / f)\<rfloor>"
proof -
  let ?q = "to_double (of_int one_second / f)"
  have sec: "int_to_double one_second = of_int one_second"
    unfolding int_to_double_def by (rule to_double_of_int) (simp add: one_second_def)
  have "0 \<le> ?q \<and> ?q \<le> of_int one_second"
  proof (rule to_double_le)
    have "of_int one_second / f \<le> of_int one_second / 1"
      using assms by (intro divide_left_mono) (simp_all add: one_second_def)
    then show "of_int one_second / f \<le> of_int one_second" by simp
  qed (use assms in \<open>simp_all add: one_second_def\<close>)
  then have fl: "0 \<le> \<lfloor>?q\<rfloor>" "\<lfloor>?q\<rfloor> \<le> one_second" and q0: "0 \<le> ?q"
    by (simp_all add: floor_le_iff)
  then have "double_to_uint64 ?q = Inr (word_of_int \<lfloor>?q\<rfloor>)"
    by (simp add: double_to_uint64_def one_second_def)
  moreover have "AsTimestamp (word_of_int \<lfloor>?q\<rfloor>) = \<lfloor>?q\<rfloor>"
    using fl by (intro AsTimestamp_word_of_int) (simp_all add: one_second_def)
  ultimately have "TimeDomainClock_init f off 1 =
      Inr \<lparr>expected_sensor_frequency = f, tdc_max_offset = off, alpha_0 = 1,
             alpha_1 = 0, sensor_delta_mean = \<lfloor>?q\<rfloor>,
             current_time_step = 0, initial_timestamp_mean = kTimestampZero,
             current_timestamp = kTimestampZero, expected_next_timestamp = kTimestampZero,
             received_next_timestamps = []\<rparr>"
    using assms by (auto simp: TimeDomainClock_init_def ddiv_def sec dadd_def)
  then show ?thesis using fl by (simp add: clock_ok_def kTimestampZero_def one_second_def)
qed

end
