(* ===== verification/Clock64.thy ===== *)
theory Clock64
  imports Clock
begin

text \<open>
  The methods of \<open>TimeDomainClock\<close> at the width of the code: timestamps and durations are \<open>int64_t\<close>
  counts of nanoseconds, and an addition or subtraction that leaves their range is undefined behaviour.
  Where these versions return, they return what those of \<open>Clock\<close> return (\<open>newTimestamp64_agrees\<close>,
  \<open>getNextExpectedTimestamp64_agrees\<close>). \<open>current_time_step_\<close> is counted without a bound; it is never read.
\<close>

section \<open>Methods\<close>

definition int64 :: "int \<Rightarrow> int res" where
  "int64 x = (if in_int64 x then Inr x else Inl UndefinedBehaviour)"

definition isWithinRange64 :: "timestamp \<Rightarrow> timestamp \<Rightarrow> time_duration \<Rightarrow> bool res" where
  "isWithinRange64 value_0 value_1 off =
     bind_res (int64 (value_0 - off)) (\<lambda>ts0_min.
     bind_res (int64 (value_0 + off)) (\<lambda>ts0_max.
     bind_res (int64 (value_1 - off)) (\<lambda>ts1_min.
     bind_res (int64 (value_1 + off)) (\<lambda>ts1_max.
       Inr (ts1_min \<le> ts0_max \<and> ts0_min \<le> ts1_max)))))"

definition isNextExpectedTimestamp64 :: "TimeDomainClock \<Rightarrow> timestamp \<Rightarrow> bool res" where
  "isNextExpectedTimestamp64 c next_timestamp =
     isWithinRange64 (expected_next_timestamp c) next_timestamp (tdc_max_offset c)"

definition newTimestamp64 :: "timestamp \<Rightarrow> TimeDomainClock \<Rightarrow> TimeDomainClock res" where
  "newTimestamp64 ts c =
     (if initial_timestamp_mean c = kTimestampZero then
        Inr (c\<lparr>initial_timestamp_mean := ts, expected_next_timestamp := ts,
              current_timestamp := ts, current_time_step := 0\<rparr>)
      else bind_res (isWithinRange64 (initial_timestamp_mean c) ts (tdc_max_offset c)) (\<lambda>same_frame.
        if same_frame then
          bind_res (double_to_uint64 (dmul (int_to_double (initial_timestamp_mean c)) (alpha_0 c)))
            (\<lambda>ts_init.
          bind_res (double_to_uint64 (dmul (int_to_double ts) (alpha_1 c))) (\<lambda>ts_other.
            let m = AsTimestamp (ts_init + ts_other)
            in Inr (c\<lparr>initial_timestamp_mean := m, current_timestamp := m\<rparr>)))
        else bind_res (isNextExpectedTimestamp64 c ts) (\<lambda>next_frame.
          if next_frame then Inr (c\<lparr>received_next_timestamps := received_next_timestamps c @ [ts]\<rparr>)
          else Inr c)))"

definition advanceTimeStep64 :: "TimeDomainClock \<Rightarrow> TimeDomainClock res" where
  "advanceTimeStep64 c =
     (let c1 = c\<lparr>current_time_step := current_time_step c + 1\<rparr>
      in bind_res
        (if received_next_timestamps c1 \<noteq> [] then
           let mean_next = get_mean_timestamp (received_next_timestamps c1)
           in bind_res (int64 (mean_next - current_timestamp c1)) (\<lambda>time_diff.
              bind_res (double_to_uint64
                (dadd (dmul (int_to_double (sensor_delta_mean c1)) (alpha_0 c1))
                      (dmul (int_to_double time_diff) (alpha_1 c1)))) (\<lambda>delta.
              Inr (c1\<lparr>sensor_delta_mean := AsTimestamp delta, received_next_timestamps := []\<rparr>)))
         else Inr c1)
        (\<lambda>c2.
          let c3 = c2\<lparr>current_timestamp := expected_next_timestamp c2\<rparr>
          in bind_res (int64 (current_timestamp c3 + sensor_delta_mean c3)) (\<lambda>next_frame.
             Inr (c3\<lparr>expected_next_timestamp := next_frame\<rparr>))))"

definition getNextExpectedTimestamp64 :: "TimeDomainClock \<Rightarrow> (timestamp \<times> TimeDomainClock) res" where
  "getNextExpectedTimestamp64 c =
     (let result = expected_next_timestamp c
      in bind_res (advanceTimeStep64 c) (\<lambda>c'. Inr (result, c')))"

text \<open>What the users of a clock do with it: the sources report timestamps, and the scheduler takes
  the next expected one.\<close>

datatype clock_call = Report timestamp | NextFrame

fun clock_call64 :: "clock_call \<Rightarrow> timestamp list \<times> TimeDomainClock \<Rightarrow> (timestamp list \<times> TimeDomainClock) res" where
  "clock_call64 (Report t) (frames, c) = bind_res (newTimestamp64 t c) (\<lambda>c'. Inr (frames, c'))"
| "clock_call64 NextFrame (frames, c) =
     bind_res (getNextExpectedTimestamp64 c) (\<lambda>(t, c'). Inr (frames @ [t], c'))"

section \<open>Agreement with the unbounded methods\<close>

lemma int64_eq [simp]: "int64 x = Inr y \<longleftrightarrow> in_int64 x \<and> y = x"
  by (auto simp: int64_def)

lemma isWithinRange64_agrees: "isWithinRange64 a b m = Inr v \<Longrightarrow> v = isWithinRange a b m"
  by (auto simp: isWithinRange64_def isWithinRange_def int64_def Let_def split: if_splits)

lemma newTimestamp64_agrees: "newTimestamp64 ts c = Inr c' \<Longrightarrow> newTimestamp ts c = Inr c'"
  by (cases "isWithinRange64 (initial_timestamp_mean c) ts (tdc_max_offset c)";
      cases "isNextExpectedTimestamp64 c ts")
    (auto simp: newTimestamp64_def newTimestamp_def isNextExpectedTimestamp64_def isNextExpectedTimestamp_def
      dest!: isWithinRange64_agrees split: if_splits)

lemma advanceTimeStep64_agrees: "advanceTimeStep64 c = Inr c' \<Longrightarrow> advanceTimeStep c = Inr c'"
  by (auto simp: advanceTimeStep64_def advanceTimeStep_def int64_def Let_def split: if_splits)

lemma getNextExpectedTimestamp64_agrees:
  "getNextExpectedTimestamp64 c = Inr r \<Longrightarrow> getNextExpectedTimestamp c = Inr r"
  by (cases "advanceTimeStep64 c")
    (auto simp: getNextExpectedTimestamp64_def getNextExpectedTimestamp_def dest: advanceTimeStep64_agrees)

section \<open>Rounding stays between powers of two\<close>

lemma round_half_even_ge: "of_int n \<le> x \<Longrightarrow> n \<le> round_half_even x"
proof -
  assume "of_int n \<le> x"
  then have "n \<le> \<lfloor>x\<rfloor>" by (simp add: le_floor_iff)
  then show ?thesis by (simp add: round_half_even_def Let_def)
qed

lemma binade_upper:
  assumes "0 < x"
  shows "x < 2 powi (binade x + 1)"
proof -
  obtain p q where pq: "quotient_of x = (p, q)" by (cases "quotient_of x")
  with assms have p: "0 < p" and q: "0 < q" and x: "x = of_int p / of_int q"
    using quotient_of_denom_pos [OF pq] quotient_of_div [OF pq] by (auto simp: zero_less_divide_iff)
  have "of_int p / of_int q < 2 powi (bitlen p) / (2 powi (bitlen q - 1) :: rat)"
    using bitlen_rat_bounds(2) [OF p] bitlen_rat_bounds(1) [OF q] p q
    by (intro frac_less) auto
  also have "\<dots> = 2 powi (bitlen p - bitlen q + 1)"
    by (simp add: power_int_diff power_int_add algebra_simps)
  finally have up: "x < 2 powi (bitlen p - bitlen q + 1)" using x by simp
  have "binade x = (if 2 powi (bitlen p - bitlen q) \<le> x then bitlen p - bitlen q
      else bitlen p - bitlen q - 1)"
    using assms pq by (simp add: binade_def Let_def)
  with up show ?thesis by simp
qed

lemma to_double_le_power:
  assumes "0 < x" and "x \<le> 2 ^ k"
  shows "to_double x \<le> 2 ^ k"
proof -
  define e where "e = binade x - 52"
  have "2 powi (binade x) \<le> (2 powi (int k) :: rat)" using binade_lower [OF assms(1)] assms(2) by simp
  then have "binade x \<le> int k"
    using power_int_strict_increasing [of "int k" "binade x" "2 :: rat"] by (cases "binade x \<le> int k") auto
  then have j: "int (nat (int k - e)) = int k - e" by (simp add: e_def)
  have "x / 2 powi e \<le> 2 powi (int k) / 2 powi e" using assms(2) by (intro divide_right_mono) simp_all
  also have "\<dots> = 2 powi (int k - e)" by (simp add: power_int_diff)
  also have pow: "(2 :: rat) powi (int k - e) = of_int (2 ^ nat (int k - e))"
    by (subst j [symmetric], subst power_int_of_nat) simp
  finally have "round_half_even (x / 2 powi e) \<le> 2 ^ nat (int k - e)" by (rule round_half_even_le)
  then have "(of_int (round_half_even (x / 2 powi e)) :: rat) \<le> of_int (2 ^ nat (int k - e))"
    by (simp only: of_int_le_iff)
  also note pow [symmetric]
  finally have "of_int (round_half_even (x / 2 powi e)) * 2 powi e \<le> 2 powi (int k - e) * (2 powi e :: rat)"
    by (intro mult_right_mono) simp_all
  also have "\<dots> = 2 ^ k" by (simp add: power_int_diff)
  finally show ?thesis using assms(1) by (simp add: to_double_def e_def Let_def)
qed

lemma to_double_ge_1:
  assumes "1 \<le> x"
  shows "1 \<le> to_double x"
proof -
  define e where "e = binade x - 52"
  have x: "0 < x" using assms by simp
  have "1 < (2 :: rat) powi (binade x + 1)" using binade_upper [OF x] assms by linarith
  then have b: "0 \<le> binade x"
    using power_int_increasing [of "binade x + 1" 0 "2 :: rat"] by (cases "0 \<le> binade x") auto
  have "(of_int (2 ^ 52) :: rat) = 2 powi (binade x) / 2 powi e" by (simp add: e_def power_int_diff)
  also have "\<dots> \<le> x / 2 powi e" using binade_lower [OF x] by (intro divide_right_mono) simp_all
  finally have "2 ^ 52 \<le> round_half_even (x / 2 powi e)" by (rule round_half_even_ge)
  then have "(of_int (2 ^ 52) :: rat) \<le> of_int (round_half_even (x / 2 powi e))" by (simp only: of_int_le_iff)
  then have "of_int (2 ^ 52) * 2 powi e \<le> of_int (round_half_even (x / 2 powi e)) * (2 powi e :: rat)"
    by (intro mult_right_mono) simp_all
  moreover have "of_int (2 ^ 52) * 2 powi e = (2 powi (binade x) :: rat)" by (simp add: e_def power_int_diff)
  moreover have "(1 :: rat) \<le> 2 powi (binade x)" using b by (simp add: one_le_power_int)
  ultimately have "1 \<le> of_int (round_half_even (x / 2 powi e)) * (2 powi e :: rat)" by linarith
  with x show ?thesis by (simp add: to_double_def e_def Let_def)
qed

section \<open>The clock of the scheduler in range\<close>

text \<open>With \<open>alpha_0 = 1.0\<close> a report of the first frame rounds the initial timestamp to a double, which
  keeps it positive and below \<open>2 ^ 62\<close>.\<close>

lemma initial_mean_ok:
  assumes "0 < i" and "i \<le> 2 ^ 62"
  shows "\<exists>m. double_to_uint64 (dmul (int_to_double i) 1) = Inr (word_of_int m) \<and> 0 < m \<and> m \<le> 2 ^ 62 \<and>
    AsTimestamp (word_of_int m) = m"
proof -
  let ?x = "to_double (of_int i)" and ?y = "to_double (to_double (of_int i))"
  have "(of_int i :: rat) \<le> of_int (2 ^ 62)" using assms(2) by (simp only: of_int_le_iff)
  then have x: "1 \<le> ?x" "?x \<le> 2 ^ 62"
    using assms(1) by (intro to_double_ge_1 to_double_le_power; simp)+
  have y: "1 \<le> ?y" "?y \<le> 2 ^ 62"
    using to_double_ge_1 [OF x(1)] to_double_le_power [of ?x 62] x by linarith+
  then have "?y \<le> of_int (2 ^ 62)" by simp
  then have "\<lfloor>?y\<rfloor> \<le> 2 ^ 62" by (metis floor_mono floor_of_int)
  moreover have "1 \<le> \<lfloor>?y\<rfloor>" using y(1) by simp
  ultimately have fl: "0 < \<lfloor>?y\<rfloor>" "\<lfloor>?y\<rfloor> \<le> 2 ^ 62" by simp_all
  with y(1) have "double_to_uint64 ?y = Inr (word_of_int \<lfloor>?y\<rfloor>)" by (simp add: double_to_uint64_def)
  with fl show ?thesis
    by (intro exI [of _ "\<lfloor>?y\<rfloor>"]) (simp add: dmul_def int_to_double_def AsTimestamp_word_of_int)
qed

definition clock_range :: "TimeDomainClock \<Rightarrow> bool" where
  "clock_range c \<longleftrightarrow> clock_ok c \<and> sensor_delta_mean c \<le> one_second \<and>
     0 \<le> tdc_max_offset c \<and> tdc_max_offset c < 2 ^ 62 \<and>
     0 < initial_timestamp_mean c \<and> initial_timestamp_mean c \<le> 2 ^ 62 \<and>
     0 \<le> current_timestamp c \<and> current_timestamp c \<le> 2 ^ 62 \<and>
     0 \<le> expected_next_timestamp c \<and> expected_next_timestamp c < 2 ^ 62 \<and>
     (\<forall>t \<in> set (received_next_timestamps c). 0 \<le> t \<and> t < 2 ^ 62)"

lemma isWithinRange64_ok:
  assumes "0 \<le> a" "a \<le> 2 ^ 62" "0 \<le> b" "b \<le> 2 ^ 62" "0 \<le> m" "m < 2 ^ 62"
  shows "isWithinRange64 a b m = Inr (isWithinRange a b m)"
  using assms by (simp add: isWithinRange64_def isWithinRange_def int64_def in_int64_def Let_def)

lemma newTimestamp64_ok:
  assumes c: "clock_range c" and t: "0 \<le> t" "t < 2 ^ 62"
  shows "\<exists>c'. newTimestamp64 t c = Inr c' \<and> clock_range c' \<and>
    expected_next_timestamp c' = expected_next_timestamp c \<and> sensor_delta_mean c' = sensor_delta_mean c \<and>
    length (received_next_timestamps c') \<le> Suc (length (received_next_timestamps c))"
proof -
  have w: "isWithinRange64 (initial_timestamp_mean c) t (tdc_max_offset c) =
      Inr (isWithinRange (initial_timestamp_mean c) t (tdc_max_offset c))"
    "isNextExpectedTimestamp64 c t = Inr (isNextExpectedTimestamp c t)"
    using c t unfolding isNextExpectedTimestamp64_def isNextExpectedTimestamp_def
    by (auto simp: clock_range_def intro!: isWithinRange64_ok)
  show ?thesis
  proof (cases "isWithinRange (initial_timestamp_mean c) t (tdc_max_offset c)")
    case False
    with w c t show ?thesis
      by (auto simp: newTimestamp64_def clock_range_def clock_ok_def kTimestampZero_def)
  next
    case True
    from initial_mean_ok [of "initial_timestamp_mean c"] c obtain m where m:
      "double_to_uint64 (dmul (int_to_double (initial_timestamp_mean c)) 1) = Inr (word_of_int m)"
      "0 < m" "m \<le> 2 ^ 62" "AsTimestamp (word_of_int m) = m" by (auto simp: clock_range_def)
    have "double_to_uint64 (dmul (int_to_double t) 0) = Inr 0" by (simp add: dmul_def double_to_uint64_def)
    with True w(1) m c have "newTimestamp64 t c = Inr (c\<lparr>initial_timestamp_mean := m, current_timestamp := m\<rparr>)"
      by (simp add: newTimestamp64_def clock_range_def clock_ok_def kTimestampZero_def Let_def)
    with m c show ?thesis by (simp add: clock_range_def clock_ok_def)
  qed
qed

text \<open>The mean of the reported timestamps is taken modulo \<open>2 ^ 64\<close>; it stays within \<open>int64_t\<close>.\<close>

lemma get_mean_timestamp_range:
  assumes "\<forall>t \<in> set ts. 0 \<le> t \<and> t < 2 ^ 62" and "length ts < 2 ^ 63"
  shows "0 \<le> get_mean_timestamp ts \<and> get_mean_timestamp ts < 2 ^ 63"
proof (cases ts)
  case Nil
  then show ?thesis by (simp add: get_mean_timestamp_def kTimestampZero_def)
next
  case (Cons t rest)
  let ?sum = "fold (\<lambda>ts mean_ts. mean_ts + word_of_int ts) ts (0 :: 64 word)"
  let ?mean = "?sum div word_of_nat (length ts)"
  have len: "unat (word_of_nat (length ts) :: 64 word) = length ts"
    using assms(2) by (simp add: unat_of_nat take_bit_nat_eq_self)
  have mean: "unat ?mean = unat ?sum div length ts" by (simp add: unat_div len)
  have "unat ?mean < 2 ^ 63"
  proof (cases rest)
    case Nil
    with Cons have "?sum = word_of_int t" by simp
    moreover have "unat (word_of_int t :: 64 word) = nat t"
    proof -
      from assms(1) Cons have "0 \<le> t" "t < 2 ^ 62" by auto
      then have "uint (word_of_int t :: 64 word) = t" by (simp add: uint_word_of_int_eq take_bit_int_eq_self)
      then show ?thesis by (metis nat_uint_eq)
    qed
    ultimately show ?thesis using assms(1) Cons Nil mean by (simp add: nat_less_iff)
  next
    case (Cons t' rest')
    with \<open>ts = t # rest\<close> have "2 \<le> length ts" by simp
    then have "unat ?sum div length ts \<le> unat ?sum div 2" by (rule div_le_mono2 [rotated]) simp
    moreover have "unat ?sum < 2 * 2 ^ 63" using unsigned_less [of ?sum] by simp
    ultimately show ?thesis using mean by linarith
  qed
  moreover from this have "AsTimestamp ?mean = int (unat ?mean)"
    using AsTimestamp_small [of "unat ?mean"] by simp
  moreover have "get_mean_timestamp ts = AsTimestamp ?mean" using Cons by (simp add: get_mean_timestamp_def)
  moreover from calculation have "int (unat ?mean) < int (2 ^ 63)" by (simp only: of_nat_less_iff)
  ultimately show ?thesis by simp
qed

lemma getNextExpectedTimestamp64_ok:
  assumes c: "clock_range c" and len: "length (received_next_timestamps c) < 2 ^ 63"
    and room: "expected_next_timestamp c + sensor_delta_mean c < 2 ^ 62"
  shows "getNextExpectedTimestamp64 c = Inr (expected_next_timestamp c, advance c) \<and> clock_range (advance c)"
proof -
  have ok: "clock_ok c" using c by (simp add: clock_range_def)
  have r: "to_double (of_int (sensor_delta_mean c)) = of_int (sensor_delta_mean c)"
    using ok by (intro to_double_of_int) (auto simp: clock_ok_def)
  have u: "double_to_uint64 (of_int (sensor_delta_mean c)) = Inr (word_of_int (sensor_delta_mean c))"
    using ok by (intro double_to_uint64_of_int) (auto simp: clock_ok_def)
  have t: "AsTimestamp (word_of_int (sensor_delta_mean c)) = sensor_delta_mean c"
    using ok by (intro AsTimestamp_word_of_int) (auto simp: clock_ok_def)
  have "0 \<le> get_mean_timestamp (received_next_timestamps c) \<and> get_mean_timestamp (received_next_timestamps c) < 2 ^ 63"
    using c len by (intro get_mean_timestamp_range) (auto simp: clock_range_def)
  then have diff: "in_int64 (get_mean_timestamp (received_next_timestamps c) - current_timestamp c)"
    using c by (simp add: in_int64_def clock_range_def)
  have next_frame: "in_int64 (expected_next_timestamp c + sensor_delta_mean c)"
    using c ok room by (simp add: in_int64_def clock_range_def clock_ok_def)
  have "advanceTimeStep64 c = Inr (advance c)"
    using ok diff next_frame
    by (simp add: advanceTimeStep64_def advance_def Let_def clock_ok_def dmul_def dadd_def int_to_double_def
        r u t int64_def)
  moreover have "clock_range (advance c)"
    using c ok room by (simp add: clock_range_def advance_def clock_ok_def)
  ultimately show ?thesis by (simp add: getNextExpectedTimestamp64_def)
qed

section \<open>Any number of reports and frames\<close>

fun in_range_call :: "clock_call \<Rightarrow> bool" where
  "in_range_call (Report t) = (0 \<le> t \<and> t < 2 ^ 62)"
| "in_range_call NextFrame = True"

definition frames_in :: "clock_call list \<Rightarrow> nat" where
  "frames_in calls = length (filter (\<lambda>c. c = NextFrame) calls)"

lemma clock_calls64_ok:
  assumes "clock_range c" and "list_all in_range_call calls"
    and "length (received_next_timestamps c) + length calls < 2 ^ 63"
    and "expected_next_timestamp c + int (frames_in calls) * sensor_delta_mean c < 2 ^ 62"
  shows "\<exists>c'. fold_res clock_call64 calls (frames, c) =
      Inr (frames @ map (\<lambda>i. expected_next_timestamp c + int i * sensor_delta_mean c) [0..<frames_in calls], c') \<and>
    expected_next_timestamp c' = expected_next_timestamp c + int (frames_in calls) * sensor_delta_mean c"
  using assms
proof (induction calls arbitrary: c frames)
  case Nil
  then show ?case by (simp add: frames_in_def)
next
  case (Cons call calls)
  show ?case
  proof (cases call)
    case (Report t)
    from newTimestamp64_ok [OF Cons.prems(1), of t] Cons.prems(2) Report obtain c1 where c1:
      "newTimestamp64 t c = Inr c1" "clock_range c1" "expected_next_timestamp c1 = expected_next_timestamp c"
      "sensor_delta_mean c1 = sensor_delta_mean c"
      "length (received_next_timestamps c1) \<le> Suc (length (received_next_timestamps c))" by auto
    have n: "frames_in (call # calls) = frames_in calls" using Report by (simp add: frames_in_def)
    from Cons.IH [OF c1(2), of frames] Cons.prems c1 show ?thesis by (simp add: n) (simp add: Report c1(1))
  next
    case NextFrame
    have n: "frames_in (call # calls) = Suc (frames_in calls)" using NextFrame by (simp add: frames_in_def)
    have d: "0 \<le> int (frames_in calls) * sensor_delta_mean c"
      using Cons.prems(1) by (simp add: clock_range_def clock_ok_def)
    have room: "expected_next_timestamp c + sensor_delta_mean c < 2 ^ 62"
      using Cons.prems(4) d by (simp add: n algebra_simps)
    from getNextExpectedTimestamp64_ok [OF Cons.prems(1) _ room] Cons.prems(3) have next_frame:
      "getNextExpectedTimestamp64 c = Inr (expected_next_timestamp c, advance c)" "clock_range (advance c)" by auto
    have "length (received_next_timestamps (advance c)) + length calls < 2 ^ 63"
      using Cons.prems(3) by (simp add: advance_def)
    from Cons.IH [OF next_frame(2) _ this, of "frames @ [expected_next_timestamp c]"] Cons.prems n show ?thesis
      by (simp add: NextFrame next_frame(1) algebra_simps map_upt_Suc del: upt_Suc)
  qed
qed

end
