(* ===== verification/Ring.thy ===== *)
theory Ring
  imports Prelude
begin

text \<open>
  The ring buffers of \<open>include/traact/util/CircularBuffer.h\<close>: \<open>CircularBuffer<T, N>\<close> over a
  \<open>std::array\<close> and \<open>CircularDynamicBuffer<T>\<close> over a \<open>std::vector\<close>. \<open>cb_data\<close> is the storage,
  \<open>cb_size\<close> and \<open>cb_index\<close> are \<open>current_size_\<close> and \<open>current_index_\<close>. Both classes promise the
  same thing, the last values pushed, oldest first: the locale \<open>bounded_history\<close>.
\<close>

section \<open>The contract\<close>

definition last_n :: "nat \<Rightarrow> 'a list \<Rightarrow> 'a list" where
  "last_n n xs = drop (length xs - n) xs"

lemma last_n_append_last_n: "last_n n (last_n n xs @ ys) = last_n n (xs @ ys)"
  by (simp add: last_n_def drop_append) (metis (no_types, lifting) add.commute diff_diff_left
      diff_le_self drop_drop le_add_diff_inverse2 diff_diff_cancel nat_le_linear diff_is_0_eq)

locale bounded_history =
  fixes push :: "'a \<Rightarrow> 'b \<Rightarrow> 'b"
    and contents :: "'b \<Rightarrow> 'a list"
    and ok :: "'b \<Rightarrow> bool"
    and cap :: "'b \<Rightarrow> nat"
  assumes contents_push: "ok b \<Longrightarrow> contents (push x b) = last_n (cap b) (contents b @ [x])"
    and ok_push: "ok b \<Longrightarrow> ok (push x b)"
    and cap_push: "cap (push x b) = cap b"
    and length_contents: "ok b \<Longrightarrow> length (contents b) \<le> cap b"
begin

lemma ok_fold: "ok b \<Longrightarrow> ok (fold push xs b)"
  by (induction xs arbitrary: b) (auto intro: ok_push)

lemma cap_fold: "cap (fold push xs b) = cap b"
  by (induction xs arbitrary: b) (auto simp: cap_push)

text \<open>Any number of pushes leaves exactly the last values pushed, in order.\<close>

lemma contents_fold: "ok b \<Longrightarrow> contents (fold push xs b) = last_n (cap b) (contents b @ xs)"
proof (induction xs arbitrary: b)
  case Nil
  then show ?case using length_contents [of b] by (simp add: last_n_def)
next
  case (Cons x xs)
  then show ?case
    using last_n_append_last_n [of "cap b" "contents b @ [x]" xs]
    by (simp add: ok_push contents_push cap_push)
qed

end

section \<open>CircularBuffer\<close>

record 'a CircularBuffer =
  cb_data :: "'a list"
  cb_size :: int
  cb_index :: int

text \<open>A fresh buffer over \<open>N\<close> default constructed elements.\<close>

definition CircularBuffer_init :: "nat \<Rightarrow> 'a \<Rightarrow> 'a CircularBuffer" where
  "CircularBuffer_init n d = \<lparr>cb_data = replicate n d, cb_size = 0, cb_index = -1\<rparr>"

definition cb_clear :: "'a CircularBuffer \<Rightarrow> 'a CircularBuffer" where
  "cb_clear b = b\<lparr>cb_index := -1, cb_size := 0\<rparr>"

definition cb_emplace_back :: "'a CircularBuffer \<Rightarrow> 'a CircularBuffer" where
  "cb_emplace_back b =
     (let n = int (length (cb_data b));
          b1 = b\<lparr>cb_index := (cb_index b + 1) mod n\<rparr>
      in b1\<lparr>cb_size := min (cb_size b + 1) n\<rparr>)"

definition cb_push_back :: "'a \<Rightarrow> 'a CircularBuffer \<Rightarrow> 'a CircularBuffer" where
  "cb_push_back v b =
     (let b1 = cb_emplace_back b
      in b1\<lparr>cb_data := (cb_data b1)[nat (cb_index b1) := v]\<rparr>)"

definition cb_emplace_back_value :: "'a \<Rightarrow> 'a CircularBuffer \<Rightarrow> 'a CircularBuffer" where
  "cb_emplace_back_value v b =
     (let b1 = cb_emplace_back b
      in b1\<lparr>cb_data := (cb_data b1)[nat (cb_index b1) := v]\<rparr>)"

definition cb_at :: "'a CircularBuffer \<Rightarrow> nat \<Rightarrow> 'a res" where
  "cb_at b i = (if i < length (cb_data b) then Inr (cb_data b ! i) else Inl UndefinedBehaviour)"

definition cb_front_index :: "'a CircularBuffer \<Rightarrow> int" where
  "cb_front_index b =
     (let index = cb_index b - (cb_size b - 1)
      in if index < 0 then index + cb_size b else index)"

definition cb_front :: "'a CircularBuffer \<Rightarrow> 'a res" where
  "cb_front b = raw_get (cb_data b) (cb_front_index b)"

definition cb_back :: "'a CircularBuffer \<Rightarrow> 'a res" where
  "cb_back b = raw_get (cb_data b) (cb_index b)"

text \<open>What a range-based \<open>for\<close> over the buffer visits: \<open>begin()\<close> is the start of the storage.\<close>

definition cb_iterate :: "'a CircularBuffer \<Rightarrow> 'a list" where
  "cb_iterate b = (if cb_size b = 0 then [] else take (nat (cb_size b)) (cb_data b))"

definition cb_ok :: "'a CircularBuffer \<Rightarrow> bool" where
  "cb_ok b \<longleftrightarrow>
     cb_data b \<noteq> [] \<and> 0 \<le> cb_size b \<and> cb_size b \<le> int (length (cb_data b)) \<and>
     (if cb_size b < int (length (cb_data b)) then cb_index b = cb_size b - 1
      else 0 \<le> cb_index b \<and> cb_index b < int (length (cb_data b)))"

definition cb_contents :: "'a CircularBuffer \<Rightarrow> 'a list" where
  "cb_contents b =
     (let nxt = nat (cb_index b + 1)
      in if cb_size b < int (length (cb_data b)) then take nxt (cb_data b)
         else drop nxt (cb_data b) @ take nxt (cb_data b))"

definition cb_cap :: "'a CircularBuffer \<Rightarrow> nat" where
  "cb_cap b = length (cb_data b)"

lemma cb_ok_init: "0 < n \<Longrightarrow> cb_ok (CircularBuffer_init n d)"
  by (auto simp: cb_ok_def CircularBuffer_init_def)

lemma cb_contents_init [simp]: "0 < n \<Longrightarrow> cb_contents (CircularBuffer_init n d) = []"
  by (simp add: cb_contents_def CircularBuffer_init_def)

lemma cb_push_back_fields:
  "cb_data (cb_push_back v b) =
     (cb_data b)[nat ((cb_index b + 1) mod int (length (cb_data b))) := v]"
  "cb_index (cb_push_back v b) = (cb_index b + 1) mod int (length (cb_data b))"
  "cb_size (cb_push_back v b) = min (cb_size b + 1) (int (length (cb_data b)))"
  by (simp_all add: cb_push_back_def cb_emplace_back_def Let_def)

lemma cb_emplace_back_value_eq: "cb_emplace_back_value v b = cb_push_back v b"
  by (simp add: cb_emplace_back_value_def cb_push_back_def)

lemma cb_ok_push: "cb_ok b \<Longrightarrow> cb_ok (cb_push_back v b)"
proof -
  assume ok: "cb_ok b"
  let ?n = "int (length (cb_data b))"
  from ok have n: "0 < ?n" by (simp add: cb_ok_def)
  show ?thesis
  proof (cases "cb_size b + 1 < ?n")
    case True
    with ok have "cb_index b + 1 = cb_size b" by (auto simp: cb_ok_def)
    with True ok show ?thesis by (simp add: cb_ok_def cb_push_back_fields)
  next
    case False
    with ok n show ?thesis by (simp add: cb_ok_def cb_push_back_fields)
  qed
qed

lemma cb_contents_push:
  assumes ok: "cb_ok b"
  shows "cb_contents (cb_push_back v b) = last_n (cb_cap b) (cb_contents b @ [v])"
proof -
  let ?d = "cb_data b" and ?n = "length (cb_data b)"
  define k where "k = nat (cb_index b + 1)"
  show ?thesis
  proof (cases "cb_size b < int ?n")
    case True
    with ok have k: "int k = cb_index b + 1" "cb_size b = int k" "k < ?n"
      by (auto simp: cb_ok_def k_def)
    have upd: "take (Suc k) (?d[k := v]) = take k ?d @ [v]"
      using k(3) by (simp add: take_Suc_conv_app_nth)
    from k have "cb_contents (cb_push_back v b) = take k ?d @ [v]"
      using upd by (auto simp: cb_contents_def cb_push_back_fields Let_def nat_add_distrib
          simp flip: k(1))
    moreover have "cb_contents b = take k ?d"
      using True by (simp add: cb_contents_def k_def Let_def)
    ultimately show ?thesis
      using k(3) by (simp add: last_n_def cb_cap_def)
  next
    case False
    with ok have k: "int k = cb_index b + 1" "cb_size b = int ?n" "1 \<le> k" "k \<le> ?n"
      by (auto simp: cb_ok_def k_def)
    have old: "cb_contents b = drop k ?d @ take k ?d"
      using False by (simp add: cb_contents_def k_def Let_def)
    show ?thesis
    proof (cases "k < ?n")
      case True
      have "take (Suc k) (?d[k := v]) = take k ?d @ [v]"
        using True by (simp add: take_Suc_conv_app_nth)
      moreover have "drop (Suc k) (?d[k := v]) = drop (Suc k) ?d" by simp
      ultimately have "cb_contents (cb_push_back v b) = drop (Suc k) ?d @ take k ?d @ [v]"
        using True k by (simp add: cb_contents_def cb_push_back_fields Let_def nat_add_distrib
            flip: k(1))
      moreover have "last_n ?n (drop k ?d @ take k ?d @ [v]) = drop (Suc k) ?d @ take k ?d @ [v]"
        using True by (simp add: last_n_def)
      ultimately show ?thesis by (simp add: old cb_cap_def)
    next
      case False
      with k have "k = ?n" by simp
      with k have idx: "(cb_index b + 1) mod int ?n = 0" by (simp flip: k(1))
      from ok have ne: "?d \<noteq> []" by (simp add: cb_ok_def)
      have fields: "cb_data (cb_push_back v b) = ?d[0 := v]" "cb_index (cb_push_back v b) = 0"
        "cb_size (cb_push_back v b) = int ?n"
        using k(2) by (simp_all only: cb_push_back_fields idx nat_zero_as_int)
      from ne obtain x xs where "?d = x # xs" by (cases ?d) auto
      then have "cb_contents (cb_push_back v b) = tl ?d @ [v]"
        by (simp add: cb_contents_def fields)
      with old \<open>k = ?n\<close> ne show ?thesis
        by (cases ?d) (auto simp: last_n_def cb_cap_def)
    qed
  qed
qed

lemma cb_length_contents: "cb_ok b \<Longrightarrow> length (cb_contents b) = nat (cb_size b)"
  by (auto simp: cb_contents_def cb_ok_def Let_def split: if_splits)

interpretation cb: bounded_history cb_push_back cb_contents cb_ok cb_cap
  by unfold_locales
    (auto simp: cb_contents_push cb_ok_push cb_cap_def cb_push_back_fields cb_length_contents
      cb_ok_def split: if_splits)

lemma cb_size_contents: "cb_ok b \<Longrightarrow> cb_size b = int (length (cb_contents b))"
  by (simp add: cb_length_contents cb_ok_def)

lemma cb_back_contents:
  assumes "cb_ok b" and "cb_contents b \<noteq> []"
  shows "cb_back b = Inr (last (cb_contents b))"
proof -
  from assms(1) have i: "cb_index b < int (length (cb_data b))"
    by (auto simp: cb_ok_def split: if_splits)
  from assms have i0: "0 \<le> cb_index b"
    by (auto simp: cb_ok_def cb_contents_def split: if_splits)
  have "nat (cb_index b + 1) = Suc (nat (cb_index b))" using i0 by simp
  then have "last (cb_contents b) = cb_data b ! nat (cb_index b)"
    using i i0 by (auto simp: cb_contents_def Let_def take_Suc_conv_app_nth)
  with i i0 show ?thesis by (simp add: cb_back_def raw_get_def nat_less_iff)
qed

lemma cb_front_contents:
  assumes ok: "cb_ok b" and ne: "cb_contents b \<noteq> []"
  shows "cb_front b = Inr (hd (cb_contents b))"
proof (cases "cb_size b < int (length (cb_data b))")
  case True
  with ok ne have "cb_front_index b = 0"
    by (auto simp: cb_front_index_def cb_ok_def cb_contents_def)
  moreover from True ok ne have "hd (cb_contents b) = cb_data b ! 0"
    by (auto simp: cb_contents_def hd_conv_nth)
  ultimately show ?thesis using ok by (simp add: cb_front_def raw_get_def cb_ok_def)
next
  case False
  define k where "k = nat (cb_index b + 1)"
  from False ok have k: "int k = cb_index b + 1" "k \<le> length (cb_data b)"
    and sz: "cb_size b = int (length (cb_data b))" by (auto simp: cb_ok_def k_def)
  from False have c: "cb_contents b = drop k (cb_data b) @ take k (cb_data b)"
    by (simp add: cb_contents_def k_def Let_def)
  show ?thesis
  proof (cases "k < length (cb_data b)")
    case True
    with sz k have "cb_front_index b = int k" by (simp add: cb_front_index_def)
    with True c show ?thesis by (simp add: cb_front_def raw_get_def hd_append hd_drop_conv_nth)
  next
    case False
    with sz k have "cb_front_index b = 0" by (simp add: cb_front_index_def)
    with False k c ok show ?thesis
      by (simp add: cb_front_def raw_get_def cb_ok_def hd_conv_nth)
  qed
qed

text \<open>
  Iterating visits the held values once each, in storage order: the same values as the contents,
  and in the same order until the ring wraps around.
\<close>

lemma cb_iterate_rotation:
  "cb_ok b \<Longrightarrow> \<exists>k. cb_contents b = drop k (cb_iterate b) @ take k (cb_iterate b)"
proof -
  assume ok: "cb_ok b"
  show ?thesis
  proof (cases "cb_size b < int (length (cb_data b))")
    case True
    with ok have "cb_contents b = cb_iterate b"
      by (auto simp: cb_contents_def cb_iterate_def cb_ok_def)
    then show ?thesis by (intro exI [of _ 0]) simp
  next
    case False
    with ok have "cb_iterate b = cb_data b" by (auto simp: cb_iterate_def cb_ok_def)
    with False show ?thesis
      by (intro exI [of _ "nat (cb_index b + 1)"]) (simp add: cb_contents_def Let_def)
  qed
qed

lemma cb_iterate_set: "cb_ok b \<Longrightarrow> set (cb_iterate b) = set (cb_contents b)"
  using cb_iterate_rotation [of b] by (metis Un_commute append_take_drop_id set_append)

section \<open>CircularDynamicBuffer\<close>

record 'a CircularDynamicBuffer =
  cdb_data :: "'a list"
  cdb_size :: int
  cdb_index :: int

definition cdb_reserve :: "nat \<Rightarrow> 'a \<Rightarrow> 'a CircularDynamicBuffer \<Rightarrow> 'a CircularDynamicBuffer" where
  "cdb_reserve n d b =
     b\<lparr>cdb_data := take n (cdb_data b) @ replicate (n - length (cdb_data b)) d\<rparr>"

definition CircularDynamicBuffer_init :: "nat \<Rightarrow> 'a \<Rightarrow> 'a CircularDynamicBuffer" where
  "CircularDynamicBuffer_init n d = cdb_reserve n d \<lparr>cdb_data = [], cdb_size = 0, cdb_index = -1\<rparr>"

definition cdb_clear :: "'a CircularDynamicBuffer \<Rightarrow> 'a CircularDynamicBuffer" where
  "cdb_clear b = b\<lparr>cdb_index := -1, cdb_size := 0\<rparr>"

text \<open>The index is reduced modulo the size of the vector: dividing by zero before \<open>reserve\<close>.\<close>

definition cdb_push_back :: "'a \<Rightarrow> 'a CircularDynamicBuffer \<Rightarrow> 'a CircularDynamicBuffer res" where
  "cdb_push_back v b =
     (if cdb_data b = [] then Inl UndefinedBehaviour
      else let n = int (length (cdb_data b));
               idx = (cdb_index b + 1) mod n
           in Inr (b\<lparr>cdb_index := idx,
                     cdb_size := min (cdb_size b + 1) n,
                     cdb_data := (cdb_data b)[nat idx := v]\<rparr>))"

definition cdb_emplace_back :: "'a \<Rightarrow> 'a CircularDynamicBuffer \<Rightarrow> 'a CircularDynamicBuffer res" where
  "cdb_emplace_back v b =
     (if cdb_data b = [] then Inl UndefinedBehaviour
      else let n = int (length (cdb_data b));
               idx = (cdb_index b + 1) mod n
           in Inr (b\<lparr>cdb_index := idx,
                     cdb_size := min (cdb_size b + 1) n,
                     cdb_data := (cdb_data b)[nat idx := v]\<rparr>))"

definition cdb_front_index :: "'a CircularDynamicBuffer \<Rightarrow> int" where
  "cdb_front_index b =
     (let index = cdb_index b - (cdb_size b - 1)
      in if index < 0 then index + cdb_size b else index)"

definition cdb_front :: "'a CircularDynamicBuffer \<Rightarrow> 'a res" where
  "cdb_front b = raw_get (cdb_data b) (cdb_front_index b)"

definition cdb_back :: "'a CircularDynamicBuffer \<Rightarrow> 'a res" where
  "cdb_back b = raw_get (cdb_data b) (cdb_index b)"

text \<open>
  Here \<open>begin()\<close> is the address of \<open>front()\<close> and \<open>end()\<close> the address behind \<open>back()\<close>. Incrementing
  the first until it equals the second stays inside the storage only if it does not lie behind it.
\<close>

definition cdb_iterate :: "'a CircularDynamicBuffer \<Rightarrow> 'a list res" where
  "cdb_iterate b =
     (if cdb_size b = 0 then Inr []
      else let f = cdb_front_index b; e = cdb_index b + 1
           in if 0 \<le> f \<and> f \<le> e \<and> e \<le> int (length (cdb_data b))
              then Inr (take (nat (e - f)) (drop (nat f) (cdb_data b)))
              else Inl UndefinedBehaviour)"

text \<open>The two classes keep the same fields, so the dynamic one is read through the static one.\<close>

definition cdb_view :: "'a CircularDynamicBuffer \<Rightarrow> 'a CircularBuffer" where
  "cdb_view b = \<lparr>cb_data = cdb_data b, cb_size = cdb_size b, cb_index = cdb_index b\<rparr>"

definition cdb_ok :: "'a CircularDynamicBuffer \<Rightarrow> bool" where
  "cdb_ok b \<longleftrightarrow> cb_ok (cdb_view b)"

definition cdb_contents :: "'a CircularDynamicBuffer \<Rightarrow> 'a list" where
  "cdb_contents b = cb_contents (cdb_view b)"

definition cdb_push :: "'a \<Rightarrow> 'a CircularDynamicBuffer \<Rightarrow> 'a CircularDynamicBuffer" where
  "cdb_push v b = (case cdb_push_back v b of Inr b' \<Rightarrow> b' | Inl _ \<Rightarrow> b)"

lemma cdb_ok_init: "0 < n \<Longrightarrow> cdb_ok (CircularDynamicBuffer_init n d)"
  by (simp add: cdb_ok_def cb_ok_def cdb_view_def CircularDynamicBuffer_init_def cdb_reserve_def)

lemma cdb_push_back_unreserved: "cdb_push_back v (CircularDynamicBuffer_init 0 d) = Inl UndefinedBehaviour"
  by (simp add: cdb_push_back_def CircularDynamicBuffer_init_def cdb_reserve_def)

lemma cdb_push_back_ok: "cdb_ok b \<Longrightarrow> \<exists>b'. cdb_push_back v b = Inr b'"
  by (auto simp: cdb_ok_def cb_ok_def cdb_view_def cdb_push_back_def Let_def)

lemma cdb_view_push: "cdb_ok b \<Longrightarrow> cdb_view (cdb_push v b) = cb_push_back v (cdb_view b)"
  by (auto simp: cdb_ok_def cb_ok_def cdb_view_def cdb_push_def cdb_push_back_def
      cb_push_back_def cb_emplace_back_def Let_def)

lemma cdb_data_push: "length (cdb_data (cdb_push v b)) = length (cdb_data b)"
  by (simp add: cdb_push_def cdb_push_back_def Let_def)

interpretation cdb: bounded_history cdb_push cdb_contents cdb_ok "\<lambda>b. cb_cap (cdb_view b)"
proof
  fix b :: "'a CircularDynamicBuffer" and x :: 'a
  show "cb_cap (cdb_view (cdb_push x b)) = cb_cap (cdb_view b)"
    by (simp add: cb_cap_def cdb_view_def cdb_data_push)
  assume ok: "cdb_ok b"
  then have ok': "cb_ok (cdb_view b)" by (simp add: cdb_ok_def)
  show "cdb_contents (cdb_push x b) = last_n (cb_cap (cdb_view b)) (cdb_contents b @ [x])"
    using cb.contents_push [OF ok'] cdb_view_push [OF ok] by (simp add: cdb_contents_def)
  show "cdb_ok (cdb_push x b)"
    using cb.ok_push [OF ok'] cdb_view_push [OF ok] by (simp add: cdb_ok_def)
  show "length (cdb_contents b) \<le> cb_cap (cdb_view b)"
    using cb.length_contents [OF ok'] by (simp add: cdb_contents_def)
qed

text \<open>
  Iterating visits the contents until the ring wraps around; from then on \<open>begin()\<close> and \<open>end()\<close> are
  the same address unless the newest value is the last one of the storage, and nothing is visited.
\<close>

lemma cdb_iterate_wrapped:
  assumes ok: "cdb_ok b" and full: "cdb_size b = int (length (cdb_data b))"
    and wrapped: "cdb_index b + 1 < int (length (cdb_data b))"
  shows "cdb_iterate b = Inr []"
  using assms
  by (auto simp: cdb_iterate_def cdb_front_index_def Let_def cdb_ok_def cb_ok_def cdb_view_def)

lemma cdb_iterate_unwrapped:
  assumes ok: "cdb_ok b"
    and unwrapped: "cdb_size b < int (length (cdb_data b)) \<or> cdb_index b + 1 = int (length (cdb_data b))"
  shows "cdb_iterate b = Inr (cdb_contents b)"
proof -
  have front: "cdb_front_index b = 0" and idx: "cdb_index b + 1 = cdb_size b"
    using assms by (auto simp: cdb_front_index_def cdb_ok_def cb_ok_def cdb_view_def split: if_splits)
  from ok have "0 \<le> cdb_size b" "cdb_size b \<le> int (length (cdb_data b))"
    by (auto simp: cdb_ok_def cb_ok_def cdb_view_def)
  moreover have "cdb_contents b = take (nat (cdb_size b)) (cdb_data b)"
    using idx by (auto simp: cdb_contents_def cb_contents_def cdb_view_def Let_def)
  ultimately show ?thesis
    using front idx by (simp add: cdb_iterate_def Let_def)
qed

end
