(* ===== verification/Sync.thy ===== *)
theory Sync
  imports Datatypes
begin

text \<open>
  The blocking primitives of \<open>include/traact/util/Semaphore.h\<close>.

  Every \<open>wait\<close> of the file is a loop that re-checks its condition each time the condition variable
  returns. While a thread is inside \<open>cv_.wait\<close> the mutex is free and other threads may change the
  guarded value, so a run of the loop is described by what it finds each time it holds the mutex
  again: the list of observed values. \<open>None\<close> means the thread is still blocked after them.
\<close>

section \<open>The wait loop of a condition variable\<close>

fun cv_wait :: "('v \<Rightarrow> bool) \<Rightarrow> 'v \<Rightarrow> 'v list \<Rightarrow> 'v option" where
  "cv_wait blocked v [] = (if blocked v then None else Some v)"
| "cv_wait blocked v (w # ws) = (if blocked v then cv_wait blocked w ws else Some v)"

lemma cv_wait_Some: "cv_wait blocked v ws = Some x \<Longrightarrow> \<not> blocked x \<and> x \<in> set (v # ws)"
  by (induction blocked v ws rule: cv_wait.induct) (auto split: if_splits)

lemma cv_wait_None: "cv_wait blocked v ws = None \<longleftrightarrow> (\<forall>x \<in> set (v # ws). blocked x)"
  by (induction blocked v ws rule: cv_wait.induct) auto

lemma cv_wait_returns: "w \<in> set (v # ws) \<Longrightarrow> \<not> blocked w \<Longrightarrow> \<exists>x. cv_wait blocked v ws = Some x"
  using cv_wait_None [of blocked v ws] by (cases "cv_wait blocked v ws") auto

section \<open>Semaphore\<close>

record Semaphore =
  sem_max_count :: int
  sem_count :: int

definition Semaphore_init :: "int \<Rightarrow> int \<Rightarrow> Semaphore" where
  "Semaphore_init m c = \<lparr>sem_max_count = m, sem_count = c\<rparr>"

definition sem_notify :: "Semaphore \<Rightarrow> Semaphore" where
  "sem_notify s = s\<lparr>sem_count := min (sem_count s + 1) (sem_max_count s)\<rparr>"

text \<open>\<open>wait_for\<close> returns with the mutex held again, either woken up or after the timeout.\<close>

datatype wait_outcome = Woken int | TimedOut int

fun sem_wait_loop :: "Semaphore \<Rightarrow> wait_outcome list \<Rightarrow> (bool \<times> Semaphore) option" where
  "sem_wait_loop s evs =
     (if sem_count s = 0 then
        (case evs of
           [] \<Rightarrow> None
         | TimedOut c # es \<Rightarrow> Some (False, s\<lparr>sem_count := c\<rparr>)
         | Woken c # es \<Rightarrow> sem_wait_loop (s\<lparr>sem_count := c\<rparr>) es)
      else Some (True, s\<lparr>sem_count := sem_count s - 1\<rparr>))"

declare sem_wait_loop.simps [simp del]

lemma sem_wait_loop_free [simp]:
  "sem_count s \<noteq> 0 \<Longrightarrow> sem_wait_loop s evs = Some (True, s\<lparr>sem_count := sem_count s - 1\<rparr>)"
  by (subst sem_wait_loop.simps) simp

lemma sem_wait_loop_empty [simp]:
  "sem_count s = 0 \<Longrightarrow> sem_wait_loop s [] = None"
  "sem_count s = 0 \<Longrightarrow> sem_wait_loop s (TimedOut c # es) = Some (False, s\<lparr>sem_count := c\<rparr>)"
  "sem_count s = 0 \<Longrightarrow> sem_wait_loop s (Woken c # es) = sem_wait_loop (s\<lparr>sem_count := c\<rparr>) es"
  by (subst sem_wait_loop.simps, simp)+

definition sem_wait :: "Semaphore \<Rightarrow> wait_outcome list \<Rightarrow> (bool \<times> Semaphore) option" where
  "sem_wait s evs = sem_wait_loop s evs"

definition sem_try_wait :: "Semaphore \<Rightarrow> wait_outcome list \<Rightarrow> (bool \<times> Semaphore) option" where
  "sem_try_wait s evs = sem_wait_loop s evs"

text \<open>
  \<open>try_wait()\<close> with its default timeout of zero, called while nobody else can notify: it takes the
  semaphore at once or gives up at once.
\<close>

definition sem_try_now :: "Semaphore \<Rightarrow> bool \<times> Semaphore" where
  "sem_try_now s = the (sem_try_wait s [TimedOut (sem_count s)])"

lemma sem_try_now_simp [simp]:
  "sem_try_now s =
     (if sem_count s = 0 then (False, s) else (True, s\<lparr>sem_count := sem_count s - 1\<rparr>))"
  by (simp add: sem_try_now_def sem_try_wait_def)

definition sem_ok :: "Semaphore \<Rightarrow> bool" where
  "sem_ok s \<longleftrightarrow> 0 \<le> sem_count s \<and> sem_count s \<le> sem_max_count s"

definition outcome_count :: "wait_outcome \<Rightarrow> int" where
  "outcome_count w = (case w of Woken c \<Rightarrow> c | TimedOut c \<Rightarrow> c)"

lemma sem_ok_notify [inv_intros]: "sem_ok s \<Longrightarrow> sem_ok (sem_notify s)"
  by (auto simp: sem_ok_def sem_notify_def)

lemma sem_ok_wait_loop:
  "sem_ok s \<Longrightarrow> \<forall>w \<in> set evs. 0 \<le> outcome_count w \<and> outcome_count w \<le> sem_max_count s \<Longrightarrow>
   sem_wait_loop s evs = Some (b, s') \<Longrightarrow>
   sem_ok s' \<and> sem_max_count s' = sem_max_count s"
proof (induction s evs rule: sem_wait_loop.induct)
  case (1 s evs)
  show ?case
  proof (cases "sem_count s = 0")
    case False
    with "1.prems"(1,3) show ?thesis
      by (auto simp: sem_ok_def)
  next
    case True
    with "1.prems"(3) obtain w es where evs: "evs = w # es"
      by (cases evs) auto
    show ?thesis
    proof (cases w)
      case (TimedOut c)
      with True evs "1.prems" show ?thesis
        by (auto simp: sem_ok_def outcome_count_def)
    next
      case (Woken c)
      with True evs "1.prems" have "sem_wait_loop (s\<lparr>sem_count := c\<rparr>) es = Some (b, s')"
        by simp
      moreover from Woken evs "1.prems"(2) have "sem_ok (s\<lparr>sem_count := c\<rparr>)"
        by (auto simp: sem_ok_def outcome_count_def)
      ultimately show ?thesis
        using "1.IH" [OF True evs Woken] "1.prems"(2) evs by auto
    qed
  qed
qed

text \<open>A wait that times out takes nothing; one that succeeds takes exactly one.\<close>

lemma sem_wait_loop_takes:
  "sem_wait_loop s evs = Some (True, s') \<Longrightarrow>
   \<exists>c. c \<noteq> 0 \<and> c \<in> insert (sem_count s) (outcome_count ` set evs) \<and> sem_count s' = c - 1"
proof (induction s evs rule: sem_wait_loop.induct)
  case (1 s evs)
  show ?case
  proof (cases "sem_count s = 0")
    case False
    with "1.prems" show ?thesis by auto
  next
    case True
    with "1.prems" obtain c es where evs: "evs = Woken c # es"
      and rec: "sem_wait_loop (s\<lparr>sem_count := c\<rparr>) es = Some (True, s')"
      by (auto simp: sem_wait_loop.simps [of s evs] split: list.splits wait_outcome.splits)
    from "1.IH" [OF True evs refl rec] show ?thesis
      by (auto simp: evs outcome_count_def)
  qed
qed

text \<open>
  The capacity law: from a full semaphore, whatever the order of \<open>notify\<close> and of successful
  \<open>try_wait\<close>, the count stays between zero and the capacity.
\<close>

datatype sem_op = Notify | TryWait

fun sem_step :: "sem_op \<Rightarrow> Semaphore \<Rightarrow> Semaphore" where
  "sem_step Notify s = sem_notify s"
| "sem_step TryWait s = snd (sem_try_now s)"

lemma sem_ok_step [inv_intros]: "sem_ok s \<Longrightarrow> sem_ok (sem_step op s)"
  by (cases op) (auto simp: sem_ok_def sem_notify_def)

lemma sem_ok_run: "sem_ok s \<Longrightarrow> sem_ok (fold sem_step ops s)"
  by (induction ops arbitrary: s) (auto intro: inv_intros)

lemma sem_max_run [simp]: "sem_max_count (fold sem_step ops s) = sem_max_count s"
proof (induction ops arbitrary: s)
  case (Cons op ops)
  then show ?case by (cases op) (auto simp: sem_notify_def)
qed simp

section \<open>Waiting for a value\<close>

record WaitForMasterTs =
  wfm_current_ts :: timestamp

definition wfm_notifyAll :: "timestamp \<Rightarrow> WaitForMasterTs \<Rightarrow> WaitForMasterTs" where
  "wfm_notifyAll ts w = w\<lparr>wfm_current_ts := ts\<rparr>"

definition wfm_wait :: "timestamp \<Rightarrow> WaitForMasterTs \<Rightarrow> timestamp list \<Rightarrow> timestamp option" where
  "wfm_wait ts w obs = cv_wait (\<lambda>current. current > ts) (wfm_current_ts w) obs"

record WaitForInit =
  wfi_is_init :: bool

definition WaitForInit_init :: WaitForInit where
  "WaitForInit_init = \<lparr>wfi_is_init = False\<rparr>"

definition wfi_SetInit :: "bool \<Rightarrow> WaitForInit \<Rightarrow> WaitForInit" where
  "wfi_SetInit b w = w\<lparr>wfi_is_init := b\<rparr>"

text \<open>An observation is the flag and whether \<open>wait_for\<close> reported the timeout.\<close>

fun wfi_tryWait_loop :: "bool \<Rightarrow> (bool \<times> bool) list \<Rightarrow> bool option" where
  "wfi_tryWait_loop is_init obs =
     (if \<not> is_init then
        (case obs of
           [] \<Rightarrow> None
         | (is_init', timed_out) # os \<Rightarrow>
             (if timed_out then Some is_init' else wfi_tryWait_loop is_init' os))
      else Some is_init)"

declare wfi_tryWait_loop.simps [simp del]

lemma wfi_tryWait_loop_set [simp]: "wfi_tryWait_loop True obs = Some True"
  by (subst wfi_tryWait_loop.simps) simp

lemma wfi_tryWait_loop_unset [simp]:
  "wfi_tryWait_loop False [] = None"
  "wfi_tryWait_loop False ((i, timed_out) # os) =
     (if timed_out then Some i else wfi_tryWait_loop i os)"
  by (subst wfi_tryWait_loop.simps, simp)+

definition wfi_tryWait :: "WaitForInit \<Rightarrow> (bool \<times> bool) list \<Rightarrow> bool option" where
  "wfi_tryWait w obs = wfi_tryWait_loop (wfi_is_init w) obs"

lemma wfi_tryWait_set: "wfi_is_init w \<Longrightarrow> wfi_tryWait w obs = Some True"
  by (simp add: wfi_tryWait_def)

lemma wfi_tryWait_loop_True:
  "wfi_tryWait_loop b obs = Some True \<Longrightarrow> b \<or> (True \<in> fst ` set obs)"
proof (induction obs arbitrary: b)
  case Nil
  then show ?case by (cases b) auto
next
  case (Cons o' os)
  then show ?case by (cases b; cases o') (force split: if_splits)+
qed

record 'v WaitForValue =
  wfv_current_value :: 'v

definition wfv_notifyAll :: "'v \<Rightarrow> 'v WaitForValue \<Rightarrow> 'v WaitForValue" where
  "wfv_notifyAll v w = w\<lparr>wfv_current_value := v\<rparr>"

definition wfv_waitValue :: "'v::linorder \<Rightarrow> 'v WaitForValue \<Rightarrow> 'v list \<Rightarrow> 'v option" where
  "wfv_waitValue v w obs = cv_wait (\<lambda>current. current < v) (wfv_current_value w) obs"

definition wfv_wait :: "'v::linorder \<Rightarrow> 'v WaitForValue \<Rightarrow> 'v list \<Rightarrow> unit option" where
  "wfv_wait v w obs = map_option (\<lambda>_. ()) (wfv_waitValue v w obs)"

record WaitForTimestamp =
  wft_current_value :: timestamp
  wft_max_offset :: time_duration

definition WaitForTimestamp_init :: "time_duration \<Rightarrow> WaitForTimestamp" where
  "WaitForTimestamp_init off = \<lparr>wft_current_value = kTimestampZero, wft_max_offset = off\<rparr>"

definition wft_notifyAll :: "timestamp \<Rightarrow> WaitForTimestamp \<Rightarrow> WaitForTimestamp" where
  "wft_notifyAll v w = w\<lparr>wft_current_value := v\<rparr>"

definition wft_wait :: "timestamp \<Rightarrow> WaitForTimestamp \<Rightarrow> timestamp list \<Rightarrow> timestamp option" where
  "wft_wait v w obs =
     (let min_val = v - wft_max_offset w * 2
      in cv_wait (\<lambda>current. current < min_val) (wft_current_value w) obs)"

text \<open>
  A source that waits for its timestamp is released as soon as a time step runs whose timestamp is
  the same within the tolerance, or is later; and it is released by no earlier time step.
\<close>

lemma wft_wait_released:
  assumes "t \<in> set obs" and "isWithinRange v t (wft_max_offset w) \<or> v \<le> t"
    and "0 \<le> wft_max_offset w"
  shows "\<exists>x. wft_wait v w obs = Some x"
  unfolding wft_wait_def Let_def
  by (rule cv_wait_returns [where w = t]) (use assms in \<open>auto simp: isWithinRange_iff\<close>)

lemma wft_wait_sound:
  assumes "wft_wait v w obs = Some x"
  shows "isWithinRange v x (wft_max_offset w) \<or> v < x"
  using cv_wait_Some [OF assms [unfolded wft_wait_def Let_def]]
  by (auto simp: isWithinRange_iff)

record 'v WaitForExactValue =
  wfe_current_value :: 'v

definition wfe_notifyAll :: "'v \<Rightarrow> 'v WaitForExactValue \<Rightarrow> 'v WaitForExactValue" where
  "wfe_notifyAll v w = w\<lparr>wfe_current_value := v\<rparr>"

definition wfe_wait :: "'v \<Rightarrow> 'v WaitForExactValue \<Rightarrow> 'v list \<Rightarrow> 'v option" where
  "wfe_wait v w obs = cv_wait (\<lambda>current. current \<noteq> v) (wfe_current_value w) obs"

fun wfe_try_wait_loop :: "'v \<Rightarrow> 'v \<Rightarrow> ('v \<times> bool) list \<Rightarrow> bool option" where
  "wfe_try_wait_loop v current obs =
     (if current \<noteq> v then
        (case obs of
           [] \<Rightarrow> None
         | (current', timed_out) # os \<Rightarrow>
             (if timed_out then Some False else wfe_try_wait_loop v current' os))
      else Some True)"

declare wfe_try_wait_loop.simps [simp del]

definition wfe_try_wait :: "'v \<Rightarrow> 'v WaitForExactValue \<Rightarrow> ('v \<times> bool) list \<Rightarrow> bool option" where
  "wfe_try_wait v w obs = wfe_try_wait_loop v (wfe_current_value w) obs"

lemma wfe_wait_exact: "wfe_wait v w obs = Some x \<Longrightarrow> x = v"
  using cv_wait_Some [of "\<lambda>current. current \<noteq> v"] by (fastforce simp: wfe_wait_def)

end
