(* ===== verification/Buffers.thy ===== *)
theory Buffers
  imports Datatypes
begin

text \<open>
  The buffers of one time step: \<open>DataBuffer\<close>, \<open>ComponentBuffer\<close>, \<open>SourceComponentBuffer\<close> and
  \<open>TimeStepBuffer\<close> of \<open>src/traact/buffer\<close> and \<open>include/traact/buffer\<close>.

  A \<open>void*\<close> is an address. The validity flags and the timestamps of the ports are owned by the
  \<open>TimeStepBuffer\<close>, and a \<open>ComponentBuffer\<close> holds pointers to them: such a pointer is the index of
  its target in the owner's vector, \<open>None\<close> a null pointer (the elements \<open>resize\<close> creates). Two
  components that point to the same index share the port, which is how data flows from a producer
  to its consumers. The methods of a \<open>ComponentBuffer\<close> are therefore functions of the
  \<open>TimeStepBuffer\<close> and of the component's own pointers.
\<close>

section \<open>DataBuffer\<close>

type_synonym addr = nat

text \<open>The objects the factories have created and not yet deleted.\<close>

record heap =
  heap_next :: addr
  heap_live :: "addr list"

definition heap_new :: "heap \<Rightarrow> addr \<times> heap" where
  "heap_new h = (heap_next h, h\<lparr>heap_next := heap_next h + 1, heap_live := heap_next h # heap_live h\<rparr>)"

definition heap_delete :: "addr \<Rightarrow> heap \<Rightarrow> heap res" where
  "heap_delete a h =
     (if a \<in> set (heap_live h) then Inr (h\<lparr>heap_live := removeAll a (heap_live h)\<rparr>)
      else Inl UndefinedBehaviour)"

record DataBuffer =
  type_name_to_factory :: "(string, string) omap"  \<comment> \<open>the factory is known by its type name\<close>
  data_buffer :: "addr list"
  header_buffer :: "addr list"
  data_name :: "string list"

definition DataBuffer_init :: "string list \<Rightarrow> DataBuffer" where
  "DataBuffer_init factories =
     \<lparr>type_name_to_factory = fold (\<lambda>f m. emplace f f m) factories [], data_buffer = [],
      header_buffer = [], data_name = []\<rparr>"

definition db_createObject ::
    "string \<Rightarrow> DataBuffer \<times> heap \<Rightarrow> addr option \<times> DataBuffer \<times> heap" where
  "db_createObject type_name = (\<lambda>(b, h).
     case map_of (type_name_to_factory b) type_name of
       Some factory \<Rightarrow>
         let (new_object, h1) = heap_new h;
             (new_header, h2) = heap_new h1
         in (Some new_object,
             b\<lparr>data_buffer := data_buffer b @ [new_object],
               header_buffer := header_buffer b @ [new_header],
               data_name := data_name b @ [type_name]\<rparr>, h2)
     | None \<Rightarrow> (None, b, h))"

definition db_createObjects :: "string list \<Rightarrow> DataBuffer \<times> heap \<Rightarrow> DataBuffer \<times> heap" where
  "db_createObjects type_names s = fold (\<lambda>n s. snd (db_createObject n s)) type_names s"

definition db_delete_index :: "nat \<Rightarrow> DataBuffer \<times> heap \<Rightarrow> (DataBuffer \<times> heap) res" where
  "db_delete_index i = (\<lambda>(b, h).
     bind_res (raw_get (data_name b) (int i)) (\<lambda>name.
     bind_res (map_at (type_name_to_factory b) name) (\<lambda>_.
     bind_res (raw_get (data_buffer b) (int i)) (\<lambda>object.
     bind_res (heap_delete object h) (\<lambda>h1.
     bind_res (raw_get (header_buffer b) (int i)) (\<lambda>header.
     bind_res (heap_delete header h1) (\<lambda>h2. Inr (b, h2))))))))"

definition db_deleteAll :: "DataBuffer \<times> heap \<Rightarrow> (DataBuffer \<times> heap) res" where
  "db_deleteAll s =
     (if length (data_buffer (fst s)) \<noteq> length (data_name (fst s)) then Inl AssertionFailed
      else bind_res (fold_res db_delete_index [0..<length (data_buffer (fst s))] s) (\<lambda>(b, h).
        Inr (b\<lparr>data_buffer := [], data_name := []\<rparr>, h)))"

definition db_ok :: "DataBuffer \<times> heap \<Rightarrow> bool" where
  "db_ok s \<longleftrightarrow> (case s of (b, h) \<Rightarrow>
     length (header_buffer b) = length (data_buffer b) \<and>
     length (data_name b) = length (data_buffer b) \<and>
     distinct (data_buffer b @ header_buffer b) \<and>
     set (data_buffer b @ header_buffer b) \<subseteq> set (heap_live h) \<and>
     (\<forall>a \<in> set (heap_live h). a < heap_next h) \<and>
     set (data_name b) \<subseteq> dom (map_of (type_name_to_factory b)))"

lemma factory_dom: "dom (map_of (type_name_to_factory (DataBuffer_init fs))) = set fs"
proof -
  have "fst ` set (fold (\<lambda>f m. emplace f f m) fs m) = set fs \<union> fst ` set m" for m :: "(string, string) omap"
    by (induction fs arbitrary: m) auto
  then show ?thesis by (simp add: DataBuffer_init_def dom_map_of_conv_image_fst)
qed

lemma db_ok_createObject: "db_ok s \<Longrightarrow> db_ok (snd (db_createObject n s))"
  by (cases s)
    (fastforce simp: db_ok_def db_createObject_def heap_new_def split: option.splits)

lemma db_ok_createObjects: "db_ok s \<Longrightarrow> db_ok (db_createObjects ns s)"
  unfolding db_createObjects_def by (induction ns arbitrary: s) (simp_all add: db_ok_createObject)

lemma db_createObject_types:
  "data_name (fst (snd (db_createObject n (b, h)))) =
     data_name b @ (if n \<in> dom (map_of (type_name_to_factory b)) then [n] else [])"
  "type_name_to_factory (fst (snd (db_createObject n (b, h)))) = type_name_to_factory b"
  by (auto simp: db_createObject_def heap_new_def split: option.splits)

text \<open>One object per requested type that has a factory, in the order of the request.\<close>

lemma db_createObjects_types:
  "data_name (fst (db_createObjects ns (b, h))) =
     data_name b @ filter (\<lambda>n. n \<in> dom (map_of (type_name_to_factory b))) ns"
proof (induction ns arbitrary: b h)
  case (Cons n ns)
  obtain b' h' where s: "snd (db_createObject n (b, h)) = (b', h')" by (cases "snd (db_createObject n (b, h))")
  have "db_createObjects (n # ns) (b, h) = db_createObjects ns (b', h')"
    by (simp add: db_createObjects_def s)
  with Cons.IH [of b' h'] db_createObject_types [of n b h] s show ?case by simp
qed (simp add: db_createObjects_def)

text \<open>
  Deleting returns every object to its factory exactly once: what is live afterwards is what the
  buffer never owned.
\<close>

lemma db_delete_fold:
  assumes "k \<le> length (data_buffer b)" and "length (header_buffer b) = length (data_buffer b)"
    and "length (data_name b) = length (data_buffer b)"
    and "distinct (data_buffer b @ header_buffer b)"
    and "set (data_buffer b @ header_buffer b) \<subseteq> set (heap_live h)"
    and "set (data_name b) \<subseteq> dom (map_of (type_name_to_factory b))"
  shows "\<exists>h'. fold_res db_delete_index [0..<k] (b, h) = Inr (b, h') \<and> heap_next h' = heap_next h \<and>
     set (heap_live h') = set (heap_live h) - set (take k (data_buffer b)) - set (take k (header_buffer b))"
  using assms(1)
proof (induction k)
  case 0
  show ?case by simp
next
  case (Suc k)
  let ?d = "data_buffer b" and ?hd = "header_buffer b"
  from Suc obtain h' where h': "fold_res db_delete_index [0..<k] (b, h) = Inr (b, h')"
      "heap_next h' = heap_next h"
      "set (heap_live h') = set (heap_live h) - set (take k ?d) - set (take k ?hd)"
    by auto
  from Suc.prems assms(2,3) have k: "k < length ?d" "k < length ?hd" "k < length (data_name b)" by auto
  have notin: "?d ! k \<notin> set (take k ?d)" "?d ! k \<notin> set (take k ?hd)" "?hd ! k \<notin> set (take k ?d)"
      "?hd ! k \<notin> set (take k ?hd)" "?hd ! k \<noteq> ?d ! k"
    using assms(4) k by (auto simp: in_set_conv_nth nth_eq_iff_index_eq)
      (metis (mono_tags) disjoint_iff nth_mem less_trans)+
  have live: "?d ! k \<in> set (heap_live h')" "?hd ! k \<in> set (heap_live h')"
    using notin k assms(5) by (auto simp: h'(3))
  from assms(6) k have "data_name b ! k \<in> dom (map_of (type_name_to_factory b))"
    by (meson nth_mem subsetD)
  then obtain f where f: "map_of (type_name_to_factory b) (data_name b ! k) = Some f" by auto
  let ?h2 = "h'\<lparr>heap_live := removeAll (?hd ! k) (removeAll (?d ! k) (heap_live h'))\<rparr>"
  have "db_delete_index k (b, h') = Inr (b, ?h2)"
    using k f live notin(5) by (simp add: db_delete_index_def raw_get_int heap_delete_def map_at_def)
  with h' have "fold_res db_delete_index [0..<Suc k] (b, h) = Inr (b, ?h2)"
    by (simp add: fold_res_append)
  moreover have "set (heap_live ?h2) =
      set (heap_live h) - set (take (Suc k) ?d) - set (take (Suc k) ?hd)"
    using k by (auto simp: h'(3) take_Suc_conv_app_nth)
  ultimately show ?case using h'(2) by (intro exI [of _ ?h2]) simp
qed

lemma db_deleteAll_ok:
  assumes "db_ok (b, h)"
  shows "\<exists>h'. db_deleteAll (b, h) = Inr (b\<lparr>data_buffer := [], data_name := []\<rparr>, h') \<and>
     set (heap_live h') = set (heap_live h) - set (data_buffer b) - set (header_buffer b)"
proof -
  from assms db_delete_fold [of "length (data_buffer b)" b h]
  obtain h' where "fold_res db_delete_index [0..<length (data_buffer b)] (b, h) = Inr (b, h')"
    "set (heap_live h') = set (heap_live h) - set (data_buffer b) - set (header_buffer b)"
    by (auto simp: db_ok_def)
  with assms show ?thesis by (auto simp: db_deleteAll_def db_ok_def)
qed

text \<open>
  \<open>deleteAll\<close> clears the data pointers but keeps the header pointers: after the next object is
  created, the headers are out of step with the objects and a second \<open>deleteAll\<close> deletes a header
  that is already gone.
\<close>

lemma db_delete_twice:
  assumes ok: "db_ok (b, h)" and some: "data_buffer b \<noteq> []"
    and del: "db_deleteAll (b, h) = Inr (b', h')"
    and known: "n \<in> dom (map_of (type_name_to_factory b))"
  shows "db_deleteAll (snd (db_createObject n (b', h'))) = Inl UndefinedBehaviour"
proof -
  from db_deleteAll_ok [OF ok] del
  have b': "b' = b\<lparr>data_buffer := [], data_name := []\<rparr>"
    and live: "set (heap_live h') = set (heap_live h) - set (data_buffer b) - set (header_buffer b)"
    by auto
  from known obtain f where f: "map_of (type_name_to_factory b) n = Some f" by auto
  from ok some obtain a as where hb: "header_buffer b = a # as"
    by (cases "header_buffer b") (auto simp: db_ok_def)
  let ?o = "heap_next h'"
  have a: "a \<notin> set (heap_live h')" by (simp add: live hb)
  obtain fold_h where fh: "fold_res db_delete_index [0..<length (data_buffer b)] (b, h) = Inr (b, fold_h)"
      "heap_next fold_h = heap_next h"
    using db_delete_fold [of "length (data_buffer b)" b h] ok by (auto simp: db_ok_def)
  then have "h' = fold_h" using del ok by (auto simp: db_deleteAll_def db_ok_def)
  with fh have "heap_next h' = heap_next h" by simp
  moreover from ok hb have "a < heap_next h" by (auto simp: db_ok_def)
  ultimately have "a \<noteq> ?o" "a \<noteq> Suc ?o" by auto
  with a f hb show ?thesis
    by (simp add: b' db_createObject_def heap_new_def db_deleteAll_def db_delete_index_def
        raw_get_def heap_delete_def map_at_def)
qed

section \<open>SourceComponentBuffer\<close>

text \<open>
  \<open>std::promise<bool>\<close>: a value can be set once and the future can be taken once. The future of a
  promise delivers the value as soon as it is set.
\<close>

record promise =
  pr_value :: "bool option"
  pr_retrieved :: bool

definition fresh_promise :: promise where
  "fresh_promise = \<lparr>pr_value = None, pr_retrieved = False\<rparr>"

definition set_value :: "bool \<Rightarrow> promise \<Rightarrow> promise res" where
  "set_value v p =
     (if pr_value p = None then Inr (p\<lparr>pr_value := Some v\<rparr>) else Inl PromiseSatisfied)"

definition get_future :: "promise \<Rightarrow> promise res" where
  "get_future p =
     (if pr_retrieved p then Inl FutureRetrieved else Inr (p\<lparr>pr_retrieved := True\<rparr>))"

record SourceComponentBuffer =
  local_output_buffer :: nat  \<comment> \<open>the component whose \<open>ComponentBuffer\<close> is referenced\<close>
  source_lock :: promise

definition SourceComponentBuffer_init :: "nat \<Rightarrow> SourceComponentBuffer" where
  "SourceComponentBuffer_init c = \<lparr>local_output_buffer = c, source_lock = fresh_promise\<rparr>"

definition scb_commit :: "bool \<Rightarrow> SourceComponentBuffer \<Rightarrow> SourceComponentBuffer res" where
  "scb_commit valid s =
     bind_res (set_value valid (source_lock s)) (\<lambda>p. Inr (s\<lparr>source_lock := p\<rparr>))"

definition scb_getSourceLock :: "SourceComponentBuffer \<Rightarrow> SourceComponentBuffer res" where
  "scb_getSourceLock s =
     bind_res (get_future (source_lock s)) (\<lambda>p. Inr (s\<lparr>source_lock := p\<rparr>))"

definition scb_resetLock :: "SourceComponentBuffer \<Rightarrow> SourceComponentBuffer" where
  "scb_resetLock s = s\<lparr>source_lock := fresh_promise\<rparr>"

text \<open>\<open>cancel\<close> swallows every exception; it reports the source as valid, as \<open>commit(true)\<close> does.\<close>

definition scb_cancel :: "SourceComponentBuffer \<Rightarrow> SourceComponentBuffer" where
  "scb_cancel s =
     (case set_value True (source_lock s) of
        Inr p \<Rightarrow> s\<lparr>source_lock := p\<rparr>
      | Inl e \<Rightarrow> s)"

definition scb_committed :: "SourceComponentBuffer \<Rightarrow> bool" where
  "scb_committed s \<longleftrightarrow> pr_value (source_lock s) \<noteq> None"

lemma scb_commit_iff: "is_ok (scb_commit v s) \<longleftrightarrow> \<not> scb_committed s"
  by (auto simp: scb_commit_def set_value_def is_ok_iff scb_committed_def)

lemma scb_commit_twice: "scb_committed s \<Longrightarrow> scb_commit v s = Inl PromiseSatisfied"
  by (simp add: scb_commit_def set_value_def scb_committed_def)

lemma scb_commit_committed: "scb_commit v s = Inr s' \<Longrightarrow> scb_committed s'"
  by (auto simp: scb_commit_def set_value_def scb_committed_def split: if_splits)

lemma scb_cancel_committed [simp]: "scb_committed (scb_cancel s)"
  by (auto simp: scb_cancel_def set_value_def scb_committed_def)

lemma scb_reset_uncommitted [simp]: "\<not> scb_committed (scb_resetLock s)"
  by (simp add: scb_committed_def scb_resetLock_def fresh_promise_def)

lemma scb_init_uncommitted [simp]: "\<not> scb_committed (SourceComponentBuffer_init c)"
  by (simp add: scb_committed_def SourceComponentBuffer_init_def fresh_promise_def)

lemma scb_getSourceLock_committed:
  "scb_getSourceLock s = Inr s' \<Longrightarrow> scb_committed s' = scb_committed s"
  by (auto simp: scb_getSourceLock_def get_future_def scb_committed_def split: if_splits)

section \<open>ComponentBuffer\<close>

datatype PortState = PS_INVALID | PS_VALID

record PortGroupConfig =
  group_offset :: int
  group_port_count :: int
  pgc_size :: int

record ComponentBuffer =
  component_index :: nat
  input_buffer :: "addr option list"
  input_header :: "addr option list"
  input_valid :: "nat option list"
  input_timestamp :: "nat option list"
  input_groups :: "PortGroupConfig list"
  output_buffer :: "addr option list"
  output_header :: "addr option list"
  output_valid :: "nat option list"
  output_timestamp :: "nat option list"
  output_groups :: "PortGroupConfig list"

record BufferConfig =
  component_type :: ComponentType
  bc_instance_id :: string
  buffer_to_port_input :: "(int \<times> int) list"
  port_group_config_input :: "PortGroupConfig list"
  buffer_to_port_output :: "(int \<times> int) list"
  port_group_config_output :: "PortGroupConfig list"

record TimeStepBuffer =
  tsb_time_step_index :: nat
  buffer_data :: "addr list"
  header_data :: "addr list"
  tsb_time_domain :: int
  current_ts :: timestamp
  current_message :: EventType
  component_buffer_to_index :: "(string, nat) omap"
  component_buffers_list :: "ComponentBuffer list"
  source_buffer_list :: "SourceComponentBuffer list"
  buffer_valid :: "PortState list"
  buffer_timestamp :: "timestamp list"
  changed_pattern_instance_id :: string

text \<open>Reading through a vector of pointers: \<open>*pointers[index]\<close>.\<close>

definition read_ptr :: "'a list \<Rightarrow> nat option list \<Rightarrow> int \<Rightarrow> 'a res" where
  "read_ptr target pointers index =
     bind_res (raw_get pointers index) (\<lambda>p. bind_res (deref p) (\<lambda>i. raw_get target (int i)))"

definition write_ptr :: "'a list \<Rightarrow> nat option list \<Rightarrow> int \<Rightarrow> 'a \<Rightarrow> 'a list res" where
  "write_ptr target pointers index v =
     bind_res (raw_get pointers index) (\<lambda>p. bind_res (deref p) (\<lambda>i. raw_set target (int i) v))"

definition group_index :: "PortGroupConfig list \<Rightarrow> int \<Rightarrow> int \<Rightarrow> int \<Rightarrow> int res" where
  "group_index groups port_group_index port_group_instance_index port_idx =
     bind_res (raw_get groups port_group_index) (\<lambda>g.
       Inr (group_offset g + group_port_count g * port_group_instance_index + port_idx))"

definition getInputCount :: "ComponentBuffer \<Rightarrow> nat" where
  "getInputCount c = length (input_buffer c)"

definition getOutputCount :: "ComponentBuffer \<Rightarrow> nat" where
  "getOutputCount c = length (output_buffer c)"

definition getInput :: "ComponentBuffer \<Rightarrow> int \<Rightarrow> addr res" where
  "getInput c index = bind_res (raw_get (input_buffer c) index) deref"

definition getInputGroup :: "ComponentBuffer \<Rightarrow> int \<Rightarrow> int \<Rightarrow> int \<Rightarrow> addr res" where
  "getInputGroup c grp inst port_idx =
     bind_res (group_index (input_groups c) grp inst port_idx) (getInput c)"

definition getInputHeader :: "ComponentBuffer \<Rightarrow> int \<Rightarrow> addr res" where
  "getInputHeader c index = bind_res (raw_get (input_header c) index) deref"

definition isInputValid :: "TimeStepBuffer \<Rightarrow> ComponentBuffer \<Rightarrow> int \<Rightarrow> bool res" where
  "isInputValid t c index =
     bind_res (read_ptr (buffer_valid t) (input_valid c) index) (\<lambda>s. Inr (s = PS_VALID))"

definition isInputValidGroup :: "TimeStepBuffer \<Rightarrow> ComponentBuffer \<Rightarrow> int \<Rightarrow> int \<Rightarrow> int \<Rightarrow> bool res" where
  "isInputValidGroup t c grp inst port_idx =
     bind_res (group_index (input_groups c) grp inst port_idx) (isInputValid t c)"

text \<open>The loop of \<open>isInputGroupValid\<close>: it runs over \<open>size\<close> and takes its offsets from the outputs.\<close>

definition isInputGroupValid :: "TimeStepBuffer \<Rightarrow> ComponentBuffer \<Rightarrow> int \<Rightarrow> int \<Rightarrow> bool res" where
  "isInputGroupValid t c grp inst =
     bind_res (raw_get (input_groups c) grp) (\<lambda>g.
       fold_res (\<lambda>port_index result.
          bind_res (group_index (output_groups c) grp inst port_index) (\<lambda>k.
            if result then isInputValid t c k else Inr False))
         [0..pgc_size g - 1] True)"

text \<open>\<open>isAllInputValid\<close> returns at the first pointer whose flag is not \<open>VALID\<close>.\<close>

fun all_valid :: "PortState list \<Rightarrow> nat option list \<Rightarrow> bool res" where
  "all_valid flags [] = Inr True"
| "all_valid flags (p # ps) =
     bind_res (deref p) (\<lambda>i.
     bind_res (raw_get flags (int i)) (\<lambda>s.
       if s \<noteq> PS_VALID then Inr False else all_valid flags ps))"

definition isAllInputValid :: "TimeStepBuffer \<Rightarrow> ComponentBuffer \<Rightarrow> bool res" where
  "isAllInputValid t c = all_valid (buffer_valid t) (input_valid c)"

definition getInputTimestamp :: "TimeStepBuffer \<Rightarrow> ComponentBuffer \<Rightarrow> int \<Rightarrow> timestamp res" where
  "getInputTimestamp t c index = read_ptr (buffer_timestamp t) (input_timestamp c) index"

definition getOutputTs ::
    "ComponentBuffer \<Rightarrow> int \<Rightarrow> timestamp \<Rightarrow> TimeStepBuffer \<Rightarrow> (addr \<times> TimeStepBuffer) res" where
  "getOutputTs c index ts t =
     bind_res (write_ptr (buffer_valid t) (output_valid c) index PS_VALID) (\<lambda>valid.
     bind_res (write_ptr (buffer_timestamp t) (output_timestamp c) index ts) (\<lambda>times.
     bind_res (raw_get (output_buffer c) index) (\<lambda>p.
     bind_res (deref p) (\<lambda>a.
       Inr (a, t\<lparr>buffer_valid := valid, buffer_timestamp := times\<rparr>)))))"

definition getOutput :: "ComponentBuffer \<Rightarrow> int \<Rightarrow> TimeStepBuffer \<Rightarrow> (addr \<times> TimeStepBuffer) res" where
  "getOutput c index t = getOutputTs c index (current_ts t) t"

definition getOutputGroup ::
    "ComponentBuffer \<Rightarrow> int \<Rightarrow> int \<Rightarrow> int \<Rightarrow> TimeStepBuffer \<Rightarrow> (addr \<times> TimeStepBuffer) res" where
  "getOutputGroup c grp inst port_idx t =
     bind_res (group_index (output_groups c) grp inst port_idx) (\<lambda>k. getOutputTs c k (current_ts t) t)"

definition getOutputHeader :: "ComponentBuffer \<Rightarrow> int \<Rightarrow> addr res" where
  "getOutputHeader c index = bind_res (raw_get (output_header c) index) deref"

definition getOutputTimestamp :: "TimeStepBuffer \<Rightarrow> ComponentBuffer \<Rightarrow> int \<Rightarrow> timestamp res" where
  "getOutputTimestamp t c index = read_ptr (buffer_timestamp t) (output_timestamp c) index"

definition isOutputValid :: "TimeStepBuffer \<Rightarrow> ComponentBuffer \<Rightarrow> int \<Rightarrow> bool res" where
  "isOutputValid t c index =
     bind_res (read_ptr (buffer_valid t) (output_valid c) index) (\<lambda>s. Inr (s = PS_VALID))"

definition setOutputInvalid :: "ComponentBuffer \<Rightarrow> int \<Rightarrow> TimeStepBuffer \<Rightarrow> TimeStepBuffer res" where
  "setOutputInvalid c index t =
     bind_res (write_ptr (buffer_valid t) (output_valid c) index PS_INVALID) (\<lambda>valid.
       Inr (t\<lparr>buffer_valid := valid\<rparr>))"

section \<open>TimeStepBuffer\<close>

type_synonym local_buffers =
  "addr option list \<times> addr option list \<times> nat option list \<times> nat option list"

definition local_port :: "TimeStepBuffer \<Rightarrow> int \<times> int \<Rightarrow> local_buffers \<Rightarrow> local_buffers res" where
  "local_port t = (\<lambda>(first, second) (data, header, valid, times).
     bind_res (raw_get (buffer_data t) first) (\<lambda>d.
     bind_res (raw_set data second (Some d)) (\<lambda>data'.
     bind_res (raw_get (header_data t) first) (\<lambda>h.
     bind_res (raw_set header second (Some h)) (\<lambda>header'.
     bind_res (raw_get (buffer_timestamp t) first) (\<lambda>_.
     bind_res (raw_set times second (Some (nat first))) (\<lambda>times'.
     bind_res (raw_get (buffer_valid t) first) (\<lambda>_.
     bind_res (raw_set valid second (Some (nat first))) (\<lambda>valid'.
       Inr (data', header', valid', times'))))))))))"

definition createLocalBuffer :: "TimeStepBuffer \<Rightarrow> (int \<times> int) list \<Rightarrow> local_buffers res" where
  "createLocalBuffer t port_inputs =
     (let n = length port_inputs
      in fold_res (local_port t) port_inputs
           (replicate n None, replicate n None, replicate n None, replicate n None))"

definition createComponentBuffer :: "TimeStepBuffer \<Rightarrow> BufferConfig \<Rightarrow> nat \<Rightarrow> ComponentBuffer res" where
  "createComponentBuffer t config index =
     bind_res (createLocalBuffer t (buffer_to_port_input config)) (\<lambda>(idata, iheader, ivalid, itimes).
     bind_res (createLocalBuffer t (buffer_to_port_output config)) (\<lambda>(odata, oheader, ovalid, otimes).
       Inr \<lparr>component_index = index, input_buffer = idata, input_header = iheader,
            input_valid = ivalid, input_timestamp = itimes,
            input_groups = port_group_config_input config,
            output_buffer = odata, output_header = oheader, output_valid = ovalid,
            output_timestamp = otimes, output_groups = port_group_config_output config\<rparr>))"

definition add_component_buffer ::
    "int \<times> BufferConfig \<Rightarrow> nat \<times> TimeStepBuffer \<Rightarrow> (nat \<times> TimeStepBuffer) res" where
  "add_component_buffer = (\<lambda>(index, config) (component_count, t).
     if int component_count \<noteq> index then Inl InvalidArgument
     else bind_res (createComponentBuffer t config component_count) (\<lambda>cb.
       let t1 = t\<lparr>component_buffers_list := component_buffers_list t @ [cb],
                 component_buffer_to_index :=
                   emplace (bc_instance_id config) component_count (component_buffer_to_index t)\<rparr>
       in Inr (component_count + 1,
            if is_source_type (component_type config)
            then t1\<lparr>source_buffer_list :=
                   source_buffer_list t1 @ [SourceComponentBuffer_init component_count]\<rparr>
            else t1)))"

definition TimeStepBuffer_init ::
    "nat \<Rightarrow> addr list \<Rightarrow> addr list \<Rightarrow> (int, BufferConfig) omap \<Rightarrow> int \<Rightarrow> TimeStepBuffer res" where
  "TimeStepBuffer_init index data header configs td =
     bind_res (fold_res add_component_buffer configs
       (0, \<lparr>tsb_time_step_index = index, buffer_data = data, header_data = header,
            tsb_time_domain = td, current_ts = kTimestampZero, current_message = EV_INVALID,
            component_buffer_to_index = [], component_buffers_list = [], source_buffer_list = [],
            buffer_valid = replicate (length data) PS_INVALID,
            buffer_timestamp = replicate (length data) kTimestampZero,
            changed_pattern_instance_id = []\<rparr>))
       (\<lambda>(n, t). Inr t)"

definition getComponentIndex :: "TimeStepBuffer \<Rightarrow> string \<Rightarrow> nat res" where
  "getComponentIndex t name =
     (case map_of (component_buffer_to_index t) name of
        Some i \<Rightarrow> Inr i
      | None \<Rightarrow> Inl InvalidArgument)"

definition hasComponentBuffer :: "TimeStepBuffer \<Rightarrow> string \<Rightarrow> bool" where
  "hasComponentBuffer t name \<longleftrightarrow> map_of (component_buffer_to_index t) name \<noteq> None"

definition getComponentBuffer :: "TimeStepBuffer \<Rightarrow> int \<Rightarrow> ComponentBuffer res" where
  "getComponentBuffer t i = raw_get (component_buffers_list t) i"

definition getComponentBufferByName :: "TimeStepBuffer \<Rightarrow> string \<Rightarrow> ComponentBuffer res" where
  "getComponentBufferByName t name =
     bind_res (getComponentIndex t name) (\<lambda>i. getComponentBuffer t (int i))"

definition getSourceComponentBuffer :: "TimeStepBuffer \<Rightarrow> int \<Rightarrow> SourceComponentBuffer res" where
  "getSourceComponentBuffer t i = raw_get (source_buffer_list t) i"

definition setEvent :: "timestamp \<Rightarrow> EventType \<Rightarrow> TimeStepBuffer \<Rightarrow> TimeStepBuffer" where
  "setEvent ts message_type t =
     t\<lparr>current_ts := ts, current_message := message_type, changed_pattern_instance_id := []\<rparr>"

definition setEventPattern ::
    "timestamp \<Rightarrow> EventType \<Rightarrow> string \<Rightarrow> TimeStepBuffer \<Rightarrow> TimeStepBuffer" where
  "setEventPattern ts message_type changed t =
     t\<lparr>current_ts := ts, current_message := message_type, changed_pattern_instance_id := changed\<rparr>"

definition resetNewEvent :: "TimeStepBuffer \<Rightarrow> TimeStepBuffer" where
  "resetNewEvent t =
     t\<lparr>source_buffer_list := map scb_resetLock (source_buffer_list t),
       buffer_valid := map (\<lambda>_. PS_INVALID) (buffer_valid t),
       changed_pattern_instance_id := []\<rparr>"

text \<open>Updating one source buffer in place, as calls through \<open>getSourceComponentBuffer\<close> do.\<close>

definition update_source ::
    "int \<Rightarrow> (SourceComponentBuffer \<Rightarrow> SourceComponentBuffer res) \<Rightarrow> TimeStepBuffer \<Rightarrow>
     TimeStepBuffer res" where
  "update_source i f t =
     bind_res (getSourceComponentBuffer t i) (\<lambda>s.
     bind_res (f s) (\<lambda>s'. Inr (t\<lparr>source_buffer_list := (source_buffer_list t)[nat i := s']\<rparr>)))"

definition tsb_getSourceLock :: "int \<Rightarrow> TimeStepBuffer \<Rightarrow> TimeStepBuffer res" where
  "tsb_getSourceLock i t = update_source i scb_getSourceLock t"

section \<open>The ports a component sees\<close>

definition tsb_ok :: "TimeStepBuffer \<Rightarrow> bool" where
  "tsb_ok t \<longleftrightarrow> length (header_data t) = length (buffer_data t) \<and>
     length (buffer_valid t) = length (buffer_data t) \<and>
     length (buffer_timestamp t) = length (buffer_data t)"

text \<open>A list of pairs (buffer index, local port index) that fits a time step buffer.\<close>

definition ports_ok :: "nat \<Rightarrow> (int \<times> int) list \<Rightarrow> bool" where
  "ports_ok buffers ports \<longleftrightarrow> distinct (map snd ports) \<and>
     (\<forall>(b, p) \<in> set ports. 0 \<le> b \<and> b < int buffers \<and> 0 \<le> p \<and> p < int (length ports))"

definition put_ports :: "(int \<times> int) list \<Rightarrow> (int \<Rightarrow> 'a) \<Rightarrow> 'a option list \<Rightarrow> 'a option list" where
  "put_ports ports g xs = fold (\<lambda>(b, p) xs. xs[nat p := Some (g b)]) ports xs"

lemma length_put_ports [simp]: "length (put_ports ports g xs) = length xs"
  unfolding put_ports_def by (induction ports arbitrary: xs) (auto split: prod.splits)

lemma put_ports_other:
  "\<forall>(b, p') \<in> set ports. 0 \<le> p' \<and> p' \<noteq> int i \<Longrightarrow> put_ports ports g xs ! i = xs ! i"
  unfolding put_ports_def
proof (induction ports arbitrary: xs)
  case (Cons bp ports)
  obtain b p where bp: "bp = (b, p)" by (cases bp)
  with Cons.prems have "nat p \<noteq> i" by auto
  with Cons bp show ?case by auto
qed simp

lemma put_ports_nth:
  "(b, p) \<in> set ports \<Longrightarrow> distinct (map snd ports) \<Longrightarrow> \<forall>(b, p) \<in> set ports. 0 \<le> p \<Longrightarrow>
   nat p < length xs \<Longrightarrow> put_ports ports g xs ! nat p = Some (g b)"
proof (induction ports arbitrary: xs)
  case (Cons bp ports)
  obtain b' p' where bp: "bp = (b', p')" by (cases bp)
  let ?xs = "xs[nat p' := Some (g b')]"
  have step: "put_ports (bp # ports) g xs = put_ports ports g ?xs" by (simp add: put_ports_def bp)
  show ?case
  proof (cases "(b, p) \<in> set ports")
    case True
    with Cons show ?thesis by (simp add: step)
  next
    case False
    with Cons.prems(1) bp have "b' = b" "p' = p" by auto
    moreover have "put_ports ports g ?xs ! nat p = ?xs ! nat p"
      using Cons.prems(2,3) bp \<open>p' = p\<close> by (intro put_ports_other) (force simp: image_iff)
    ultimately show ?thesis using Cons.prems(4) by (simp add: step)
  qed
qed simp

lemma local_port_fold:
  assumes "tsb_ok t" and "length d = n" "length h = n" "length v = n" "length ti = n"
    and "\<forall>(b, p) \<in> set ports. 0 \<le> b \<and> b < int (length (buffer_data t)) \<and> 0 \<le> p \<and> p < int n"
  shows "fold_res (local_port t) ports (d, h, v, ti) =
     Inr (put_ports ports (\<lambda>b. buffer_data t ! nat b) d, put_ports ports (\<lambda>b. header_data t ! nat b) h,
       put_ports ports nat v, put_ports ports nat ti)"
  using assms(2-)
proof (induction ports arbitrary: d h v ti)
  case (Cons bp ports)
  obtain b p where bp: "bp = (b, p)" by (cases bp)
  from Cons.prems assms(1) bp have b: "0 \<le> b" "nat b < length (buffer_data t)"
      "nat b < length (header_data t)" "nat b < length (buffer_valid t)"
      "nat b < length (buffer_timestamp t)" and p: "0 \<le> p" "nat p < n"
    by (auto simp: tsb_ok_def)
  from Cons.prems b p have "local_port t bp (d, h, v, ti) =
      Inr (d[nat p := Some (buffer_data t ! nat b)], h[nat p := Some (header_data t ! nat b)],
        v[nat p := Some (nat b)], ti[nat p := Some (nat b)])"
    by (simp add: bp local_port_def raw_get_def raw_set_def)
  then have "fold_res (local_port t) (bp # ports) (d, h, v, ti) = fold_res (local_port t) ports
      (d[nat p := Some (buffer_data t ! nat b)], h[nat p := Some (header_data t ! nat b)],
        v[nat p := Some (nat b)], ti[nat p := Some (nat b)])"
    by simp
  also have "\<dots> = Inr (put_ports (bp # ports) (\<lambda>b. buffer_data t ! nat b) d,
      put_ports (bp # ports) (\<lambda>b. header_data t ! nat b) h,
      put_ports (bp # ports) nat v, put_ports (bp # ports) nat ti)"
    by (subst Cons.IH) (use Cons.prems in \<open>auto simp: bp put_ports_def\<close>)
  finally show ?case .
qed (simp add: put_ports_def)

lemma createLocalBuffer_ok:
  assumes "tsb_ok t" and "ports_ok (length (buffer_data t)) ports"
  shows "\<exists>d h v ti. createLocalBuffer t ports = Inr (d, h, v, ti) \<and>
     length d = length ports \<and> length h = length ports \<and> length v = length ports \<and>
     length ti = length ports \<and>
     (\<forall>(b, p) \<in> set ports. d ! nat p = Some (buffer_data t ! nat b) \<and>
        h ! nat p = Some (header_data t ! nat b) \<and> v ! nat p = Some (nat b) \<and>
        ti ! nat p = Some (nat b))"
proof -
  let ?e = "replicate (length ports) None"
  have "createLocalBuffer t ports =
      Inr (put_ports ports (\<lambda>b. buffer_data t ! nat b) ?e, put_ports ports (\<lambda>b. header_data t ! nat b) ?e,
        put_ports ports nat ?e, put_ports ports nat ?e)"
    unfolding createLocalBuffer_def Let_def
    by (rule local_port_fold) (use assms in \<open>auto simp: ports_ok_def\<close>)
  moreover have "put_ports ports g (replicate (length ports) None) ! nat p = Some (g b)"
    if "(b, p) \<in> set ports" for b p and g :: "int \<Rightarrow> 'x"
    using that assms(2) by (intro put_ports_nth) (auto simp: ports_ok_def)
  ultimately show ?thesis by auto
qed

lemma createComponentBuffer_ok:
  assumes "tsb_ok t" and "ports_ok (length (buffer_data t)) (buffer_to_port_input config)"
    and "ports_ok (length (buffer_data t)) (buffer_to_port_output config)"
  shows "\<exists>c. createComponentBuffer t config i = Inr c \<and> component_index c = i \<and>
     length (input_valid c) = length (buffer_to_port_input config) \<and>
     length (input_timestamp c) = length (buffer_to_port_input config) \<and>
     length (input_buffer c) = length (buffer_to_port_input config) \<and>
     length (output_valid c) = length (buffer_to_port_output config) \<and>
     length (output_timestamp c) = length (buffer_to_port_output config) \<and>
     length (output_buffer c) = length (buffer_to_port_output config) \<and>
     (\<forall>(b, p) \<in> set (buffer_to_port_input config). input_valid c ! nat p = Some (nat b) \<and>
        input_timestamp c ! nat p = Some (nat b) \<and>
        input_buffer c ! nat p = Some (buffer_data t ! nat b)) \<and>
     (\<forall>(b, p) \<in> set (buffer_to_port_output config). output_valid c ! nat p = Some (nat b) \<and>
        output_timestamp c ! nat p = Some (nat b) \<and>
        output_buffer c ! nat p = Some (buffer_data t ! nat b))"
  using createLocalBuffer_ok [OF assms(1,2)] createLocalBuffer_ok [OF assms(1,3)]
  by (fastforce simp: createComponentBuffer_def)

text \<open>
  Data flow through a shared port: what a producer writes with \<open>getOutput\<close> is what every consumer
  of the same buffer reads, and no other port of the time step changes.
\<close>

lemma getOutput_input:
  assumes ok: "tsb_ok t"
    and prod: "ports_ok (length (buffer_data t)) (buffer_to_port_output pc)"
      "ports_ok (length (buffer_data t)) (buffer_to_port_input pc)"
      "createComponentBuffer t pc i = Inr p" "(b, po) \<in> set (buffer_to_port_output pc)"
    and cons: "ports_ok (length (buffer_data t)) (buffer_to_port_output cc)"
      "ports_ok (length (buffer_data t)) (buffer_to_port_input cc)"
      "createComponentBuffer t cc j = Inr c" "(b', ci) \<in> set (buffer_to_port_input cc)"
  shows "\<exists>t'. getOutput p po t = Inr (buffer_data t ! nat b, t') \<and>
     getInput c ci = Inr (buffer_data t ! nat b') \<and>
     isInputValid t' c ci =
       (if b' = b then Inr True else isInputValid t c ci) \<and>
     getInputTimestamp t' c ci =
       (if b' = b then Inr (current_ts t) else getInputTimestamp t c ci)"
proof -
  from createComponentBuffer_ok [OF ok prod(2,1), of i] prod(3,4)
  have p: "nat po < length (output_valid p)" "output_valid p ! nat po = Some (nat b)"
      "nat po < length (output_timestamp p)" "output_timestamp p ! nat po = Some (nat b)"
      "nat po < length (output_buffer p)" "output_buffer p ! nat po = Some (buffer_data t ! nat b)"
      "0 \<le> po"
    using prod(1) by (auto simp: ports_ok_def)
  from createComponentBuffer_ok [OF ok cons(2,1), of j] cons(3,4)
  have c: "nat ci < length (input_valid c)" "input_valid c ! nat ci = Some (nat b')"
      "nat ci < length (input_timestamp c)" "input_timestamp c ! nat ci = Some (nat b')"
      "nat ci < length (input_buffer c)" "input_buffer c ! nat ci = Some (buffer_data t ! nat b')"
      "0 \<le> ci"
    using cons(2) by (auto simp: ports_ok_def)
  from prod(1,4) cons(2,4) ok have b: "nat b < length (buffer_valid t)" "nat b < length (buffer_timestamp t)"
      "nat b' < length (buffer_valid t)" "nat b' < length (buffer_timestamp t)" "0 \<le> b" "0 \<le> b'"
    by (auto simp: ports_ok_def tsb_ok_def)
  let ?t' = "t\<lparr>buffer_valid := (buffer_valid t)[nat b := PS_VALID],
    buffer_timestamp := (buffer_timestamp t)[nat b := current_ts t]\<rparr>"
  have "getOutput p po t = Inr (buffer_data t ! nat b, ?t')"
    using p b by (simp add: getOutput_def getOutputTs_def write_ptr_def raw_get_def raw_set_def)
  moreover have "getInput c ci = Inr (buffer_data t ! nat b')"
    using c by (simp add: getInput_def raw_get_def)
  moreover have "nat b' = nat b \<longleftrightarrow> b' = b" using b by auto
  moreover have "isInputValid ?t' c ci = (if b' = b then Inr True else isInputValid t c ci)"
    using c b by (auto simp: isInputValid_def read_ptr_def raw_get_def nth_list_update)
  moreover have "getInputTimestamp ?t' c ci = (if b' = b then Inr (current_ts t) else getInputTimestamp t c ci)"
    using c b by (auto simp: getInputTimestamp_def read_ptr_def raw_get_def nth_list_update)
  ultimately show ?thesis by blast
qed

section \<open>Construction\<close>

definition same_arrays :: "TimeStepBuffer \<Rightarrow> TimeStepBuffer \<Rightarrow> bool" where
  "same_arrays t t' \<longleftrightarrow> buffer_data t' = buffer_data t \<and> header_data t' = header_data t \<and>
     buffer_valid t' = buffer_valid t \<and> buffer_timestamp t' = buffer_timestamp t"

lemma createComponentBuffer_cong:
  assumes "same_arrays t t'"
  shows "createComponentBuffer t' config i = createComponentBuffer t config i"
proof -
  from assms have "local_port t' = local_port t"
    by (simp add: local_port_def same_arrays_def fun_eq_iff)
  then have "createLocalBuffer t' ports = createLocalBuffer t ports" for ports
    by (simp only: createLocalBuffer_def)
  then show ?thesis by (simp add: createComponentBuffer_def)
qed

definition indexed :: "BufferConfig list \<Rightarrow> (int, BufferConfig) omap" where
  "indexed cs = map (\<lambda>i. (int i, cs ! i)) [0..<length cs]"

definition config_ok :: "nat \<Rightarrow> BufferConfig \<Rightarrow> bool" where
  "config_ok n c \<longleftrightarrow> ports_ok n (buffer_to_port_input c) \<and> ports_ok n (buffer_to_port_output c)"

lemma createComponentBuffer_config_ok:
  "tsb_ok t \<Longrightarrow> config_ok (length (buffer_data t)) c \<Longrightarrow> \<exists>cb. createComponentBuffer t c i = Inr cb"
  using createComponentBuffer_ok [of t c i] by (auto simp: config_ok_def)

definition source_indices :: "BufferConfig list \<Rightarrow> nat list" where
  "source_indices cs = filter (\<lambda>i. is_source_type (component_type (cs ! i))) [0..<length cs]"

lemma add_components_fold:
  assumes "tsb_ok t" and "\<forall>c \<in> set cs. config_ok (length (buffer_data t)) c" and "k \<le> length cs"
    and "component_buffers_list t = []" "source_buffer_list t = []" "component_buffer_to_index t = []"
  shows "\<exists>t'. fold_res add_component_buffer (map (\<lambda>i. (int i, cs ! i)) [0..<k]) (0, t) = Inr (k, t') \<and>
     same_arrays t t' \<and> length (component_buffers_list t') = k \<and>
     (\<forall>i < k. createComponentBuffer t (cs ! i) i = Inr (component_buffers_list t' ! i)) \<and>
     source_buffer_list t' = map SourceComponentBuffer_init
       (filter (\<lambda>i. is_source_type (component_type (cs ! i))) [0..<k]) \<and>
     current_ts t' = current_ts t \<and> current_message t' = current_message t \<and>
     tsb_time_step_index t' = tsb_time_step_index t \<and> omap_ok (component_buffer_to_index t') \<and>
     (distinct (map bc_instance_id cs) \<longrightarrow>
       (\<forall>i < length cs. map_of (component_buffer_to_index t') (bc_instance_id (cs ! i)) =
          (if i < k then Some i else None)))"
  using assms(3)
proof (induction k)
  case 0
  then show ?case using assms(4-6) by (simp add: same_arrays_def)
next
  case (Suc k)
  then obtain t' where t': "fold_res add_component_buffer (map (\<lambda>i. (int i, cs ! i)) [0..<k]) (0, t) = Inr (k, t')"
      "same_arrays t t'" "length (component_buffers_list t') = k"
      "\<forall>i < k. createComponentBuffer t (cs ! i) i = Inr (component_buffers_list t' ! i)"
      "source_buffer_list t' = map SourceComponentBuffer_init
         (filter (\<lambda>i. is_source_type (component_type (cs ! i))) [0..<k])"
      "current_ts t' = current_ts t" "current_message t' = current_message t"
      "tsb_time_step_index t' = tsb_time_step_index t" "omap_ok (component_buffer_to_index t')"
      "distinct (map bc_instance_id cs) \<longrightarrow>
       (\<forall>i < length cs. map_of (component_buffer_to_index t') (bc_instance_id (cs ! i)) =
          (if i < k then Some i else None))"
    by auto
  have "config_ok (length (buffer_data t)) (cs ! k)" using assms(2) Suc.prems by auto
  with createComponentBuffer_config_ok [OF assms(1)]
  obtain cb where cb: "createComponentBuffer t (cs ! k) k = Inr cb" by blast
  then have cb': "createComponentBuffer t' (cs ! k) k = Inr cb"
    using createComponentBuffer_cong [OF t'(2)] by simp
  have distinct_k: "bc_instance_id (cs ! i) \<noteq> bc_instance_id (cs ! k)"
    if "distinct (map bc_instance_id cs)" "i < length cs" "i \<noteq> k" for i
    using that Suc.prems by (metis Suc_le_eq distinct_conv_nth length_map nth_map)
  show ?case
    using t' cb cb' distinct_k Suc.prems
    by (auto simp: fold_res_append add_component_buffer_def Let_def same_arrays_def nth_append less_Suc_eq)
qed

lemma filter_prefix_upt:
  "(\<And>i j. i < j \<Longrightarrow> j < n \<Longrightarrow> P j \<Longrightarrow> P i) \<Longrightarrow> \<exists>k \<le> n. filter P [0..<n] = [0..<k]"
proof (induction n)
  case (Suc n)
  then obtain k where k: "k \<le> n" "filter P [0..<n] = [0..<k]" by (meson less_Suc_eq)
  show ?case
  proof (cases "P n")
    case True
    with Suc.prems have "\<forall>i < n. P i" by blast
    then have "filter P [0..<n] = [0..<n]" by (simp add: filter_id_conv)
    with True show ?thesis by (intro exI [of _ "Suc n"]) simp
  next
    case False
    with k show ?thesis by (intro exI [of _ k]) simp
  qed
qed simp

text \<open>
  The constructor requires the components in the order of their types, sources first: then the
  position of a source in \<open>source_buffer_list_\<close> is its component index.
\<close>

lemma sources_first_indices:
  assumes "sorted (map component_type cs)" and "CT_INVALID \<notin> component_type ` set cs"
  shows "source_indices cs = [0..<length (source_indices cs)]"
proof -
  have pre: "is_source_type (component_type (cs ! i))"
    if "i < j" "j < length cs" "is_source_type (component_type (cs ! j))" for i j
  proof (rule ccontr)
    assume no: "\<not> is_source_type (component_type (cs ! i))"
    from that have "cs ! i \<in> set cs" by simp
    with assms(2) have "component_type (cs ! i) \<noteq> CT_INVALID" by (metis image_eqI)
    from source_types_first [OF that(3) no this] sorted_nth_mono [OF assms(1), of i j] that
    show False by auto
  qed
  have "\<exists>k \<le> length cs. source_indices cs = [0..<k]"
    unfolding source_indices_def by (rule filter_prefix_upt) (rule pre)
  then show ?thesis by auto
qed

lemma TimeStepBuffer_init_ok:
  assumes "length header = length data" and "\<forall>c \<in> set cs. config_ok (length data) c"
  shows "\<exists>t. TimeStepBuffer_init index data header (indexed cs) td = Inr t \<and> tsb_ok t \<and>
     buffer_data t = data \<and> header_data t = header \<and>
     length (component_buffers_list t) = length cs \<and>
     (\<forall>i < length cs. createComponentBuffer t (cs ! i) i = Inr (component_buffers_list t ! i)) \<and>
     source_buffer_list t = map SourceComponentBuffer_init (source_indices cs) \<and>
     (\<forall>s \<in> set (buffer_valid t). s = PS_INVALID) \<and>
     (distinct (map bc_instance_id cs) \<longrightarrow>
       (\<forall>i < length cs. getComponentIndex t (bc_instance_id (cs ! i)) = Inr i))"
proof -
  let ?t = "\<lparr>tsb_time_step_index = index, buffer_data = data, header_data = header,
    tsb_time_domain = td, current_ts = kTimestampZero, current_message = EV_INVALID,
    component_buffer_to_index = [], component_buffers_list = [], source_buffer_list = [],
    buffer_valid = replicate (length data) PS_INVALID,
    buffer_timestamp = replicate (length data) kTimestampZero,
    changed_pattern_instance_id = []\<rparr>"
  have "tsb_ok ?t" using assms(1) by (simp add: tsb_ok_def)
  from add_components_fold [OF this, of cs "length cs"] assms(2)
  obtain t where t: "fold_res add_component_buffer (indexed cs) (0, ?t) = Inr (length cs, t)"
    "same_arrays ?t t" "length (component_buffers_list t) = length cs"
    "\<forall>i < length cs. createComponentBuffer ?t (cs ! i) i = Inr (component_buffers_list t ! i)"
    "source_buffer_list t = map SourceComponentBuffer_init (source_indices cs)"
    "distinct (map bc_instance_id cs) \<longrightarrow>
      (\<forall>i < length cs. map_of (component_buffer_to_index t) (bc_instance_id (cs ! i)) =
          (if i < length cs then Some i else None))"
    by (auto simp: indexed_def source_indices_def)
  have "createComponentBuffer t c i = createComponentBuffer ?t c i" for c i
    using t(2) by (rule createComponentBuffer_cong)
  moreover have "TimeStepBuffer_init index data header (indexed cs) td = Inr t"
    using t(1) by (simp add: TimeStepBuffer_init_def)
  ultimately show ?thesis
    using t(2-6) assms(1)
    by (intro exI [of _ t]) (simp add: same_arrays_def tsb_ok_def getComponentIndex_def)
qed

lemma TimeStepBuffer_init_gap:
  "i \<noteq> 0 \<Longrightarrow> TimeStepBuffer_init index data header ((i, c) # cs) td = Inl InvalidArgument"
  by (simp add: TimeStepBuffer_init_def add_component_buffer_def)

section \<open>Events of a time step\<close>

lemma tsb_ok_event [simp]:
  "tsb_ok (setEvent ts ev t) = tsb_ok t"
  "tsb_ok (setEventPattern ts ev s t) = tsb_ok t"
  "tsb_ok (resetNewEvent t) = tsb_ok t"
  by (simp_all add: tsb_ok_def setEvent_def setEventPattern_def resetNewEvent_def)

text \<open>After a reset every output has to be produced again and every source lock can be taken again.\<close>

lemma resetNewEvent_fresh:
  "\<forall>s \<in> set (buffer_valid (resetNewEvent t)). s = PS_INVALID"
  "\<forall>s \<in> set (source_buffer_list (resetNewEvent t)). source_lock s = fresh_promise"
  "length (source_buffer_list (resetNewEvent t)) = length (source_buffer_list t)"
  by (auto simp: resetNewEvent_def scb_resetLock_def)

lemma isInputValid_reset:
  "isInputValid (resetNewEvent t) c i = Inr True \<Longrightarrow> False"
  by (auto simp: isInputValid_def read_ptr_def resetNewEvent_def)

lemma update_source_Inr:
  "update_source i f t = Inr t' \<longleftrightarrow> 0 \<le> i \<and> nat i < length (source_buffer_list t) \<and>
     (\<exists>s'. f (source_buffer_list t ! nat i) = Inr s' \<and>
       t' = t\<lparr>source_buffer_list := (source_buffer_list t)[nat i := s']\<rparr>)"
  by (auto simp: update_source_def getSourceComponentBuffer_def)

section \<open>Validity of a port group\<close>

text \<open>
  \<open>isAllInputValid\<close> is the conjunction over all inputs. \<open>isInputGroupValid\<close> asks the inputs that the
  output groups describe, as many as the group has instances: a group with one instance of two
  ports is reported valid although its second port holds nothing.
\<close>

lemma all_valid_iff:
  "\<forall>p \<in> set ps. \<exists>i. p = Some i \<and> i < length flags \<Longrightarrow>
   all_valid flags ps = Inr (\<forall>p \<in> set ps. flags ! the p = PS_VALID)"
proof (induction ps)
  case (Cons p ps)
  then show ?case by (auto simp: raw_get_def)
qed simp

lemma isAllInputValid_iff:
  assumes "\<forall>p \<in> set (input_valid c). \<exists>i. p = Some i \<and> i < length (buffer_valid t)"
  shows "isAllInputValid t c = Inr (\<forall>k < length (input_valid c). isInputValid t c (int k) = Inr True)"
proof -
  have "isInputValid t c (int k) = Inr (buffer_valid t ! the (input_valid c ! k) = PS_VALID)"
    if "k < length (input_valid c)" for k
  proof -
    from that assms obtain i where "input_valid c ! k = Some i" "i < length (buffer_valid t)"
      by (meson nth_mem)
    with that show ?thesis by (simp add: isInputValid_def read_ptr_def raw_get_def)
  qed
  then show ?thesis
    unfolding isAllInputValid_def all_valid_iff [OF assms] by (simp add: all_set_conv_all_nth)
qed

definition group_example :: "TimeStepBuffer \<times> ComponentBuffer" where
  "group_example =
     (let g = \<lparr>group_offset = 0, group_port_count = 2, pgc_size = 1\<rparr>
      in (\<lparr>tsb_time_step_index = 0, buffer_data = [0, 1], header_data = [2, 3],
           tsb_time_domain = 0, current_ts = 0, current_message = DATA,
           component_buffer_to_index = [], component_buffers_list = [], source_buffer_list = [],
           buffer_valid = [PS_VALID, PS_INVALID], buffer_timestamp = [0, 0],
           changed_pattern_instance_id = []\<rparr>,
          \<lparr>component_index = 0, input_buffer = [Some 0, Some 1], input_header = [Some 2, Some 3],
           input_valid = [Some 0, Some 1], input_timestamp = [Some 0, Some 1], input_groups = [g],
           output_buffer = [], output_header = [], output_valid = [], output_timestamp = [],
           output_groups = [g]\<rparr>))"

lemma isInputGroupValid_incomplete:
  "(case group_example of (t, c) \<Rightarrow>
      isInputGroupValid t c 0 0 = Inr True \<and> isInputValidGroup t c 0 0 1 = Inr False)"
  by code_simp

end
