(* ===== verification/DomainBuffer.thy ===== *)
theory DomainBuffer
  imports Buffers
begin

text \<open>
  The state and the run-time operations of \<open>TimeDomainBuffer\<close>
  (\<open>src/traact/buffer/TimeDomainBuffer.cpp\<close>): one \<open>TimeStepBuffer\<close> per concurrent time step and
  the number of sources. Its construction from the graph, \<open>init\<close>, is in \<open>DomainInit\<close>.
\<close>

record TimeDomainBuffer =
  tdb_time_domain :: int
  count_async_sources :: nat
  count_internal_sync_sources :: nat
  tdb_config :: TimeDomainManagerConfig
  tdb_data_buffer :: "DataBuffer list"
  time_step_buffer :: "TimeStepBuffer list"
  buffer_config :: "(int, BufferConfig) omap"
  port_to_buffer_index :: "((string \<times> string), nat) omap"

definition TimeDomainBuffer_init :: "int \<Rightarrow> TimeDomainBuffer" where
  "TimeDomainBuffer_init td =
     \<lparr>tdb_time_domain = td, count_async_sources = 0, count_internal_sync_sources = 0,
      tdb_config = default_config, tdb_data_buffer = [], time_step_buffer = [],
      buffer_config = [], port_to_buffer_index = []\<rparr>"

definition getTimeStepBuffer :: "TimeDomainBuffer \<Rightarrow> int \<Rightarrow> TimeStepBuffer res" where
  "getTimeStepBuffer b i = raw_get (time_step_buffer b) i"

definition tdb_getComponentIndex :: "TimeDomainBuffer \<Rightarrow> string \<Rightarrow> int res" where
  "tdb_getComponentIndex b instance_id =
     (case List.find (\<lambda>(i, c). bc_instance_id c = instance_id) (buffer_config b) of
        Some (i, c) \<Rightarrow> Inr i
      | None \<Rightarrow> Inl AssertionFailed)"

definition getCountAsyncSources :: "TimeDomainBuffer \<Rightarrow> nat" where
  "getCountAsyncSources b = count_async_sources b"

definition getCountInternalSyncSources :: "TimeDomainBuffer \<Rightarrow> nat" where
  "getCountInternalSyncSources b = count_internal_sync_sources b"

definition getCountSources :: "TimeDomainBuffer \<Rightarrow> nat" where
  "getCountSources b = getCountAsyncSources b + getCountInternalSyncSources b"

text \<open>Calling a method of one time step buffer through the reference \<open>getTimeStepBuffer\<close> returns.\<close>

definition update_step ::
    "int \<Rightarrow> (TimeStepBuffer \<Rightarrow> TimeStepBuffer res) \<Rightarrow> TimeDomainBuffer \<Rightarrow> TimeDomainBuffer res" where
  "update_step i f b =
     bind_res (getTimeStepBuffer b i) (\<lambda>t.
     bind_res (f t) (\<lambda>t'. Inr (b\<lparr>time_step_buffer := (time_step_buffer b)[nat i := t']\<rparr>)))"

definition cancelAllSources :: "int \<Rightarrow> TimeDomainBuffer \<Rightarrow> TimeDomainBuffer res" where
  "cancelAllSources ringbuffer_index b =
     fold_res (\<lambda>source b. update_step ringbuffer_index
         (update_source (int source) (\<lambda>s. Inr (scb_cancel s))) b)
       [0..<getCountSources b] b"

definition cancelAll :: "TimeDomainBuffer \<Rightarrow> TimeDomainBuffer res" where
  "cancelAll b =
     fold_res (\<lambda>i b. cancelAllSources (int i) b) [0..<ringbuffer_size (tdb_config b)] b"

lemma getCountSources_steps [simp]:
  "getCountSources (b\<lparr>time_step_buffer := x\<rparr>) = getCountSources b"
  by (simp add: getCountSources_def getCountAsyncSources_def getCountInternalSyncSources_def)

lemma update_step_Inr:
  "update_step i f b = Inr b' \<longleftrightarrow> 0 \<le> i \<and> nat i < length (time_step_buffer b) \<and>
     (\<exists>t'. f (time_step_buffer b ! nat i) = Inr t' \<and>
       b' = b\<lparr>time_step_buffer := (time_step_buffer b)[nat i := t']\<rparr>)"
  by (auto simp: update_step_def getTimeStepBuffer_def)

text \<open>The state of the lock of source \<open>c\<close> in time step \<open>i\<close>.\<close>

definition committed :: "TimeDomainBuffer \<Rightarrow> nat \<Rightarrow> nat \<Rightarrow> bool" where
  "committed b c i \<longleftrightarrow> scb_committed (source_buffer_list (time_step_buffer b ! i) ! c)"

definition steps_ok :: "TimeDomainBuffer \<Rightarrow> bool" where
  "steps_ok b \<longleftrightarrow> (\<forall>t \<in> set (time_step_buffer b). length (source_buffer_list t) = getCountSources b)"

lemma steps_okD:
  "steps_ok b \<Longrightarrow> i < length (time_step_buffer b) \<Longrightarrow>
   length (source_buffer_list (time_step_buffer b ! i)) = getCountSources b"
  by (simp add: steps_ok_def)

text \<open>Everything that can happen to one lock, with the effect on all others.\<close>

lemma update_lock:
  assumes "steps_ok b" and "i < length (time_step_buffer b)" and "c < getCountSources b"
    and "f (source_buffer_list (time_step_buffer b ! i) ! c) = Inr s'"
  shows "\<exists>b'. update_step (int i) (update_source (int c) f) b = Inr b' \<and> steps_ok b' \<and>
     length (time_step_buffer b') = length (time_step_buffer b) \<and>
     getCountSources b' = getCountSources b \<and>
     (\<forall>j < length (time_step_buffer b).
        current_ts (time_step_buffer b' ! j) = current_ts (time_step_buffer b ! j) \<and>
        current_message (time_step_buffer b' ! j) = current_message (time_step_buffer b ! j)) \<and>
     (\<forall>j < length (time_step_buffer b). \<forall>d.
        committed b' d j = (if j = i \<and> d = c then scb_committed s' else committed b d j))"
proof -
  let ?t = "time_step_buffer b ! i"
  let ?t' = "?t\<lparr>source_buffer_list := (source_buffer_list ?t)[c := s']\<rparr>"
  let ?b' = "b\<lparr>time_step_buffer := (time_step_buffer b)[i := ?t']\<rparr>"
  have c: "c < length (source_buffer_list ?t)" using assms by (simp add: steps_okD)
  then have "update_source (int c) f ?t = Inr ?t'"
    using assms(4) by (simp add: update_source_Inr)
  then have upd: "update_step (int i) (update_source (int c) f) b = Inr ?b'"
    using assms(2) by (simp add: update_step_Inr)
  have "steps_ok ?b'"
    using assms(1-3) c by (auto simp: steps_ok_def dest!: in_set_conv_nth [THEN iffD1] simp: nth_list_update)
  with upd c assms(2) show ?thesis
    by (intro exI [of _ ?b'])
      (auto simp: committed_def nth_list_update)
qed

text \<open>\<open>cancelAll\<close> leaves no source lock open.\<close>

lemma cancelAllSources_fold:
  assumes "steps_ok b" and "i < length (time_step_buffer b)" and "k \<le> getCountSources b"
  shows "\<exists>b'. fold_res (\<lambda>source b. update_step (int i)
         (update_source (int source) (\<lambda>s. Inr (scb_cancel s))) b) [0..<k] b = Inr b' \<and>
     steps_ok b' \<and> length (time_step_buffer b') = length (time_step_buffer b) \<and>
     getCountSources b' = getCountSources b \<and> tdb_config b' = tdb_config b \<and>
     (\<forall>j < length (time_step_buffer b). \<forall>d.
        committed b' d j = (j = i \<and> d < k \<or> committed b d j))"
  using assms(3)
proof (induction k)
  case 0
  with assms(1) show ?case by simp
next
  case (Suc k)
  then obtain b1 where b1: "fold_res (\<lambda>source b. update_step (int i)
         (update_source (int source) (\<lambda>s. Inr (scb_cancel s))) b) [0..<k] b = Inr b1"
      "steps_ok b1" "length (time_step_buffer b1) = length (time_step_buffer b)"
      "getCountSources b1 = getCountSources b" "tdb_config b1 = tdb_config b"
      "\<forall>j < length (time_step_buffer b). \<forall>d. committed b1 d j = (j = i \<and> d < k \<or> committed b d j)"
    by auto
  from update_lock [OF b1(2), of i k "\<lambda>s. Inr (scb_cancel s)"] assms(2) b1(3,4) Suc.prems
  obtain b2 where b2: "update_step (int i) (update_source (int k) (\<lambda>s. Inr (scb_cancel s))) b1 = Inr b2"
      "steps_ok b2" "length (time_step_buffer b2) = length (time_step_buffer b)"
      "getCountSources b2 = getCountSources b"
      "\<forall>j < length (time_step_buffer b). \<forall>d. committed b2 d j = (if j = i \<and> d = k then True else committed b1 d j)"
    by auto
  from b2(1) have "tdb_config b2 = tdb_config b1" by (auto simp: update_step_Inr)
  with b1 b2 show ?case
    by (intro exI [of _ b2]) (auto simp: fold_res_append less_Suc_eq)
qed

lemma cancelAll_fold:
  assumes "steps_ok b" and "n \<le> length (time_step_buffer b)"
  shows "\<exists>b'. fold_res (\<lambda>i b. cancelAllSources (int i) b) [0..<n] b = Inr b' \<and> steps_ok b' \<and>
     length (time_step_buffer b') = length (time_step_buffer b) \<and>
     getCountSources b' = getCountSources b \<and>
     (\<forall>j < n. \<forall>d < getCountSources b. committed b' d j)"
  using assms(2)
proof (induction n)
  case 0
  with assms(1) show ?case by simp
next
  case (Suc n)
  then obtain b1 where b1: "fold_res (\<lambda>i b. cancelAllSources (int i) b) [0..<n] b = Inr b1"
      "steps_ok b1" "length (time_step_buffer b1) = length (time_step_buffer b)"
      "getCountSources b1 = getCountSources b" "\<forall>j < n. \<forall>d < getCountSources b. committed b1 d j"
    by auto
  from cancelAllSources_fold [OF b1(2), of n "getCountSources b1"] b1 Suc.prems
  obtain b2 where "cancelAllSources (int n) b1 = Inr b2" "steps_ok b2"
      "length (time_step_buffer b2) = length (time_step_buffer b)"
      "getCountSources b2 = getCountSources b"
      "\<forall>j < length (time_step_buffer b). \<forall>d.
        committed b2 d j = (j = n \<and> d < getCountSources b \<or> committed b1 d j)"
    by (auto simp: cancelAllSources_def)
  with b1 Suc.prems show ?case
    by (intro exI [of _ b2]) (auto simp: fold_res_append less_Suc_eq)
qed

end
