(* ===== verification/CoreProps.thy ===== *)
theory CoreProps
  imports Clock64 Ring Sync DomainBuffer
begin

text \<open>
  The properties of the data types, the blocking primitives, the circular buffers, the frame clock
  and the buffers. Each follows from the lemmas of the component's theory.
\<close>

section \<open>Task identifiers\<close>

lemma taskId_prefix:
  "takeWhile (\<lambda>c. c \<noteq> CHR ''_'') (getTaskId (taskTypeEnumToName t) name i) = taskTypeEnumToName t"
proof -
  have "takeWhile (\<lambda>c. c \<noteq> CHR ''_'') (taskTypeEnumToName t) = taskTypeEnumToName t"
    using taskTypeEnumToName_no_underscore [of t] by (intro takeWhile_eq_all_conv [THEN iffD2]) metis
  then show ?thesis by (simp add: getTaskId_def takeWhile_tail)
qed

text \<open>A task identifier can be read back: its first part names the task type, the conversion to
  the enumeration inverts the conversion to a name, and two identifiers are equal only if type name,
  instance name and time step are, whatever characters the instance name contains.\<close>

theorem getTaskId_roundtrip:
  "taskTypeNameToEnum (takeWhile (\<lambda>c. c \<noteq> CHR ''_'') (getTaskId (taskTypeEnumToName t) name i)) =
     (if t = TT_COUNT then TT_INVALID else t) \<and>
   (getTaskId (taskTypeEnumToName t) name i = getTaskId (taskTypeEnumToName t') name' i' \<longleftrightarrow>
     taskTypeEnumToName t = taskTypeEnumToName t' \<and> name = name' \<and> i = i')"
proof
  have "taskTypeNameToEnum (taskTypeEnumToName TT_COUNT) = TT_INVALID"
    by (simp add: taskTypeNameToEnum_def)
  then show "taskTypeNameToEnum (takeWhile (\<lambda>c. c \<noteq> CHR ''_'') (getTaskId (taskTypeEnumToName t) name i)) =
     (if t = TT_COUNT then TT_INVALID else t)"
    unfolding taskId_prefix using taskType_roundtrip [of t] by simp
  show "getTaskId (taskTypeEnumToName t) name i = getTaskId (taskTypeEnumToName t') name' i' \<longleftrightarrow>
     taskTypeEnumToName t = taskTypeEnumToName t' \<and> name = name' \<and> i = i'"
    by (metis getTaskId_inj [OF taskTypeEnumToName_no_underscore taskTypeEnumToName_no_underscore])
qed

section \<open>Blocking primitives\<close>

text \<open>C26: The count of a semaphore stays between zero and its capacity under any sequence of
  \<open>notify\<close> and \<open>try_wait\<close>; a \<open>try_wait\<close> succeeds exactly if the count is not zero and then takes
  one; and a blocking \<open>wait\<close> that succeeds leaves one less than a non-zero count it observed.\<close>

theorem semaphore_capacity:
  assumes "0 \<le> c" and "c \<le> m"
  shows "let s = fold sem_step ops (Semaphore_init m c)
     in 0 \<le> sem_count s \<and> sem_count s \<le> m \<and> sem_max_count s = m \<and>
        (fst (sem_try_now s) \<longleftrightarrow> 0 < sem_count s) \<and>
        sem_count (snd (sem_try_now s)) = max 0 (sem_count s - 1) \<and>
        (\<forall>evs s'. sem_wait s evs = Some (True, s') \<longrightarrow>
           (\<exists>k. k \<noteq> 0 \<and> k \<in> insert (sem_count s) (outcome_count ` set evs) \<and> sem_count s' = k - 1))"
proof -
  let ?s = "fold sem_step ops (Semaphore_init m c)"
  have "sem_ok (Semaphore_init m c)" using assms by (simp add: sem_ok_def Semaphore_init_def)
  then have "sem_ok ?s" by (rule sem_ok_run)
  moreover have max: "sem_max_count ?s = m" by (simp add: Semaphore_init_def)
  ultimately have "0 \<le> sem_count ?s" "sem_count ?s \<le> m" by (auto simp: sem_ok_def)
  with max sem_wait_loop_takes [of ?s] show ?thesis unfolding Let_def sem_wait_def by auto
qed

theorem semaphore_capacity_witness:
  "sem_count (fold sem_step [Notify, TryWait, TryWait, TryWait, Notify, Notify, Notify]
     (Semaphore_init 2 2)) \<le> 2"
  using semaphore_capacity [of 2 2 "[Notify, TryWait, TryWait, TryWait, Notify, Notify, Notify]"]
  unfolding Let_def by simp

lemma cv_wait_find: "cv_wait blocked v ws = List.find (\<lambda>t. \<not> blocked t) (v # ws)"
  by (induction blocked v ws rule: cv_wait.induct) auto

text \<open>A source that waits for its timestamp returns exactly if some time step that starts while
  it waits has the same timestamp within the tolerance or a later one; the timestamp it returns with
  is such a one, and the first of them.\<close>

theorem wait_for_timestamp_released:
  assumes "0 \<le> wft_max_offset w"
  shows "wft_wait v w obs = List.find (\<lambda>t. isWithinRange v t (wft_max_offset w) \<or> v \<le> t)
     (wft_current_value w # obs)"
proof -
  have "(\<lambda>t. isWithinRange v t (wft_max_offset w) \<or> v \<le> t) = (\<lambda>t. \<not> t < v - wft_max_offset w * 2)"
    using assms by (intro ext) (simp only: isWithinRange_iff, linarith)
  then show ?thesis unfolding wft_wait_def Let_def cv_wait_find by (simp only:)
qed

theorem wait_for_timestamp_released_witness:
  "wft_wait 100 (WaitForTimestamp_init 5) [80, 91, 100] = Some 91"
  using wait_for_timestamp_released [of "WaitForTimestamp_init 5" 100 "[80, 91, 100]"]
  by (simp add: WaitForTimestamp_init_def kTimestampZero_def isWithinRange_iff)

section \<open>Circular buffers\<close>

text \<open>C27: After any number of \<open>push_back\<close> calls a \<open>CircularBuffer\<close> of \<open>n\<close> elements holds the last
  \<open>n\<close> values pushed: \<open>size\<close> counts them, \<open>front\<close> is the oldest and \<open>back\<close> the newest of them, and
  iterating visits each of them once, in the order of the pushes up to a rotation.\<close>

theorem circular_buffer_holds_latest:
  assumes "0 < n"
  shows "let b = fold cb_push_back xs (CircularBuffer_init n d); held = last_n n xs
     in cb_size b = int (length held) \<and>
        (xs \<noteq> [] \<longrightarrow> cb_front b = Inr (hd held) \<and> cb_back b = Inr (last xs)) \<and>
        (\<exists>k. held = drop k (cb_iterate b) @ take k (cb_iterate b))"
proof -
  let ?b0 = "CircularBuffer_init n d" and ?b = "fold cb_push_back xs (CircularBuffer_init n d)"
  from assms have ok: "cb_ok ?b" by (intro cb.ok_fold cb_ok_init)
  have held: "cb_contents ?b = last_n n xs"
    using cb.contents_fold [OF cb_ok_init [OF assms], of xs d] assms
    by (simp add: cb_cap_def) (simp add: CircularBuffer_init_def)
  have ne: "last_n n xs \<noteq> []" "last (last_n n xs) = last xs" if "xs \<noteq> []"
    using that assms by (cases xs; simp add: last_n_def)+
  from cb_iterate_rotation [OF ok] cb_size_contents [OF ok] ne
    cb_front_contents [OF ok] cb_back_contents [OF ok]
  show ?thesis unfolding Let_def held by metis
qed

theorem circular_buffer_holds_latest_witness:
  "cb_front (fold cb_push_back [1, 2, 3, 4, 5] (CircularBuffer_init 3 (0 :: int))) = Inr 3"
  using circular_buffer_holds_latest [of 3 "[1, 2, 3, 4, 5]" "0 :: int"]
  unfolding Let_def by (simp add: last_n_def)

lemma cdb_pushes:
  assumes "0 < n"
  shows "\<exists>b. fold_res cdb_push_back xs (CircularDynamicBuffer_init n d) = Inr b \<and> cdb_ok b \<and>
     length (cdb_data b) = n \<and> cdb_contents b = last_n n xs \<and>
     cdb_size b = int (min (length xs) n) \<and>
     cdb_index b = (if xs = [] then -1 else (int (length xs) - 1) mod int n)"
proof (induction xs rule: rev_induct)
  case Nil
  show ?case using cdb_ok_init [OF assms, of d]
    by (simp add: CircularDynamicBuffer_init_def cdb_reserve_def cdb_contents_def cb_contents_def
        cdb_view_def last_n_def assms)
next
  case (snoc x xs)
  then obtain b where b: "fold_res cdb_push_back xs (CircularDynamicBuffer_init n d) = Inr b"
    "cdb_ok b" "length (cdb_data b) = n" "cdb_contents b = last_n n xs"
    "cdb_size b = int (min (length xs) n)"
    "cdb_index b = (if xs = [] then -1 else (int (length xs) - 1) mod int n)" by blast
  from cdb_push_back_ok [OF b(2), of x] obtain b' where b': "cdb_push_back x b = Inr b'" by blast
  then have p: "cdb_push x b = b'" by (simp add: cdb_push_def)
  have "cdb_contents b' = last_n n (last_n n xs @ [x])"
    using cdb.contents_push [OF b(2), of x] b(3,4) by (simp add: p cb_cap_def cdb_view_def)
  then have c: "cdb_contents b' = last_n n (xs @ [x])" by (simp only: last_n_append_last_n)
  from b' b(3) assms have i: "cdb_index b' = (cdb_index b + 1) mod int n"
    and s: "cdb_size b' = min (cdb_size b + 1) (int n)"
    by (auto simp: cdb_push_back_def Let_def split: if_splits)
  have "(cdb_index b + 1) mod int n = (int (length (xs @ [x])) - 1) mod int n"
    unfolding b(6) by (cases "xs = []") (simp_all add: mod_add_left_eq [of "int (length xs) - 1"])
  moreover have "cdb_size b' = int (min (length (xs @ [x])) n)" by (simp add: s b(5))
  moreover have "cdb_ok b'" "length (cdb_data b') = n"
    using cdb.ok_push [OF b(2), of x] cdb_data_push [of x b] b(3) by (simp_all add: p)
  moreover have "fold_res cdb_push_back (xs @ [x]) (CircularDynamicBuffer_init n d) = Inr b'"
    by (simp add: fold_res_append b(1) b')
  ultimately show ?case using c i by (intro exI [of _ b']) simp
qed

lemma predecessor_mod:
  assumes "0 < n"
  shows "(int k - 1) mod int n + 1 = (if k mod n = 0 then int n else int (k mod n))"
proof -
  have k: "int k = int n * int (k div n) + int (k mod n)"
    by (metis mult_div_mod_eq of_nat_add of_nat_mult)
  show ?thesis
  proof (cases "k mod n = 0")
    case True
    with k have "int k - 1 = (int n - 1) + int n * (int (k div n) - 1)" by (simp add: algebra_simps)
    then have "(int k - 1) mod int n = (int n - 1) mod int n" by (simp only: mod_mult_self2)
    moreover have "(int n - 1) mod int n = int n - 1" using assms by (intro mod_pos_pos_trivial) auto
    ultimately have "(int k - 1) mod int n = int n - 1" by (simp only:)
    then show ?thesis using True by (simp split: if_splits del: of_nat_mod)
  next
    case False
    from k have "int k - 1 = (int (k mod n) - 1) + int n * int (k div n)" by simp
    then have "(int k - 1) mod int n = (int (k mod n) - 1) mod int n" by (simp only: mod_mult_self2)
    moreover have "k mod n < n" using assms by simp
    ultimately show ?thesis using False by simp
  qed
qed

text \<open>A \<open>CircularDynamicBuffer\<close> of \<open>n\<close> elements never fails to take a value and holds the last
  \<open>n\<close> of them, but iterating visits them only until the ring wraps around: afterwards it visits
  nothing, except when the number of values pushed is a multiple of \<open>n\<close>.\<close>

theorem dynamic_buffer_iteration:
  assumes "0 < n"
  shows "\<exists>b. fold_res cdb_push_back xs (CircularDynamicBuffer_init n d) = Inr b \<and>
     cdb_size b = int (length (last_n n xs)) \<and>
     cdb_iterate b = Inr (if n < length xs \<and> length xs mod n \<noteq> 0 then [] else last_n n xs)"
proof -
  from cdb_pushes [OF assms, of xs d] obtain b where
    b: "fold_res cdb_push_back xs (CircularDynamicBuffer_init n d) = Inr b" "cdb_ok b"
      "length (cdb_data b) = n" "cdb_contents b = last_n n xs" "cdb_size b = int (min (length xs) n)"
      "cdb_index b = (if xs = [] then -1 else (int (length xs) - 1) mod int n)" by blast
  note last = predecessor_mod [OF assms, of "length xs"]
  have "cdb_iterate b = Inr (if n < length xs \<and> length xs mod n \<noteq> 0 then [] else last_n n xs)"
  proof (cases "n < length xs \<and> length xs mod n \<noteq> 0")
    case True
    then have "cdb_index b + 1 = int (length xs mod n)" using b(6) last by auto
    with True b(3,5) assms show ?thesis by (simp add: cdb_iterate_wrapped [OF b(2)])
  next
    case False
    then have "cdb_size b < int (length (cdb_data b)) \<or> cdb_index b + 1 = int (length (cdb_data b))"
      using b(3,5,6) last assms by (cases "xs = []"; cases "length xs < n") auto
    from cdb_iterate_unwrapped [OF b(2) this] False b(4) show ?thesis by auto
  qed
  with b(1,5) show ?thesis by (auto simp: last_n_def min_def)
qed

theorem dynamic_buffer_iteration_witness:
  "\<exists>b. fold_res cdb_push_back [1, 2, 3] (CircularDynamicBuffer_init 2 (0 :: int)) = Inr b \<and>
     cdb_size b = 2 \<and> cdb_iterate b = Inr []"
  using dynamic_buffer_iteration [of 2 "[1, 2, 3]" "0 :: int"] by (simp add: last_n_def)

section \<open>The frame clock\<close>

text \<open>C25: The clock that the scheduler constructs for a sensor of at least one frame per second, in the
  arithmetic of \<open>int64_t\<close>: however the sources' reports and the requests for the next frame alternate after
  a first report later than the epoch, no call overflows or fails and the expected timestamps are an arithmetic
  progression from the first report, without drift, whose distance is that of the frequency and at most one
  second. The conditions are that the allowed offset, the reported timestamps and the expected ones stay below
  \<open>2 ^ 62\<close> nanoseconds, that is before the year 2116, and that there are less than \<open>2 ^ 63\<close> calls.\<close>

theorem clock_progression:
  assumes "1 \<le> frequency" and "0 \<le> off" "off < 2 ^ 62" and "0 < first" "first < 2 ^ 62"
    and "list_all in_range_call calls" and "length calls < 2 ^ 63"
    and "first + int (frames_in calls) * one_second < 2 ^ 62"
  shows "\<exists>c d c'. TimeDomainClock_init frequency off 1 = Inr c \<and> d = \<lfloor>to_double (10 ^ 9 / frequency)\<rfloor> \<and>
     0 \<le> d \<and> d \<le> one_second \<and>
     fold_res clock_call64 (Report first # calls) ([], c) =
       Inr (map (\<lambda>i. first + int i * d) [0..<frames_in calls], c') \<and>
     expected_next_timestamp c' = first + int (frames_in calls) * d"
proof -
  from TimeDomainClock_init_ok [OF assms(1)] obtain c where
    c: "TimeDomainClock_init frequency off 1 = Inr c" "clock_ok c" "tdc_max_offset c = off"
      "sensor_delta_mean c \<le> one_second" "initial_timestamp_mean c = 0" "received_next_timestamps c = []"
      "sensor_delta_mean c = \<lfloor>to_double (10 ^ 9 / frequency)\<rfloor>" by blast
  let ?c = "c\<lparr>initial_timestamp_mean := first, expected_next_timestamp := first,
      current_timestamp := first, current_time_step := 0\<rparr>"
  have new: "newTimestamp64 first c = Inr ?c" using c(5) by (simp add: newTimestamp64_def kTimestampZero_def)
  have range: "clock_range ?c" using c assms by (simp add: clock_range_def clock_ok_def)
  have "int (frames_in calls) * sensor_delta_mean c \<le> int (frames_in calls) * one_second"
    using c(4) by (intro mult_left_mono) simp_all
  with assms(8) have "first + int (frames_in calls) * sensor_delta_mean c < 2 ^ 62" by linarith
  with clock_calls64_ok [OF range assms(6), of "[]"] assms(7) c(6) obtain c' where
    "fold_res clock_call64 calls ([], ?c) =
       Inr (map (\<lambda>i. first + int i * sensor_delta_mean c) [0..<frames_in calls], c')"
    "expected_next_timestamp c' = first + int (frames_in calls) * sensor_delta_mean c" by auto
  moreover from this new have "fold_res clock_call64 (Report first # calls) ([], c) =
       Inr (map (\<lambda>i. first + int i * sensor_delta_mean c) [0..<frames_in calls], c')" by simp
  ultimately show ?thesis using c by (intro exI conjI) (assumption | simp add: clock_ok_def)+
qed

theorem clock_progression_witness:
  "\<exists>c c' d. TimeDomainClock_init 30 5000000 1 = Inr c \<and>
     fold_res clock_call64 [Report 100, NextFrame, Report 110, NextFrame] ([], c) = Inr ([100, 100 + d], c')"
  using clock_progression [of 30 5000000 100 "[NextFrame, Report 110, NextFrame]"]
  by (auto simp: frames_in_def one_second_def upt_conv_Cons)

section \<open>Objects and ports\<close>

lemma factory_init: "db_ok (DataBuffer_init fs, h) \<longleftrightarrow> (\<forall>a \<in> set (heap_live h). a < heap_next h)"
  by (simp add: db_ok_def DataBuffer_init_def)

lemma createObjects_live:
  assumes "\<forall>a \<in> set (heap_live h0). a < heap_next h0"
  shows "\<exists>b h. db_createObjects ns (DataBuffer_init fs, h0) = (b, h) \<and>
     set (heap_live h) - set (data_buffer b) - set (header_buffer b) = set (heap_live h0) \<and>
     (\<forall>a \<in> set (heap_live h) \<union> set (data_buffer b) \<union> set (header_buffer b). a < heap_next h) \<and>
     heap_next h0 \<le> heap_next h"
proof (induction ns rule: rev_induct)
  case Nil
  with assms show ?case by (simp add: db_createObjects_def DataBuffer_init_def)
next
  case (snoc n ns)
  then obtain b h where b: "db_createObjects ns (DataBuffer_init fs, h0) = (b, h)"
    "set (heap_live h) - set (data_buffer b) - set (header_buffer b) = set (heap_live h0)"
    "\<forall>a \<in> set (heap_live h) \<union> set (data_buffer b) \<union> set (header_buffer b). a < heap_next h"
    "heap_next h0 \<le> heap_next h" by blast
  have fold: "db_createObjects (ns @ [n]) (DataBuffer_init fs, h0) = snd (db_createObject n (b, h))"
    using b(1) by (simp add: db_createObjects_def)
  have step: "set (heap_live h2) - set (data_buffer b2) - set (header_buffer b2) = set (heap_live h0) \<and>
      (\<forall>a \<in> set (heap_live h2) \<union> set (data_buffer b2) \<union> set (header_buffer b2). a < heap_next h2) \<and>
      heap_next h0 \<le> heap_next h2"
    if create: "snd (db_createObject n (b, h)) = (b2, h2)" for b2 h2
  proof (cases "map_of (type_name_to_factory b) n")
    case None
    with create b show ?thesis by (simp add: db_createObject_def)
  next
    case (Some f)
    with create have new: "set (heap_live h2) = insert (heap_next h) (insert (Suc (heap_next h)) (set (heap_live h)))"
      "set (data_buffer b2) = insert (heap_next h) (set (data_buffer b))"
      "set (header_buffer b2) = insert (Suc (heap_next h)) (set (header_buffer b))"
      "heap_next h2 = Suc (Suc (heap_next h))"
      by (auto simp: db_createObject_def heap_new_def)
    have old: "x \<noteq> heap_next h \<and> x \<noteq> Suc (heap_next h)" if "x \<in> set (heap_live h)" for x
    proof -
      from that b(3) have "x < heap_next h" by blast
      then show ?thesis by simp
    qed
    have "set (heap_live h2) - set (data_buffer b2) - set (header_buffer b2) =
        set (heap_live h) - set (data_buffer b) - set (header_buffer b)"
      unfolding new using old by blast
    also note b(2)
    finally have live: "set (heap_live h2) - set (data_buffer b2) - set (header_buffer b2) = set (heap_live h0)" .
    have bound: "\<forall>a \<in> set (heap_live h2) \<union> set (data_buffer b2) \<union> set (header_buffer b2). a < heap_next h2"
      unfolding new using b(3) by (auto intro: less_SucI)
    have "heap_next h0 \<le> heap_next h2" unfolding new(4) using b(4) by linarith
    with live bound show ?thesis by blast
  qed
  obtain b2 h2 where new: "snd (db_createObject n (b, h)) = (b2, h2)" by (cases "snd (db_createObject n (b, h))")
  show ?case unfolding fold new by (intro exI conjI) (rule refl | use step [OF new] in blast)+
qed

text \<open>Whatever types are requested, deleting the objects of a fresh \<open>DataBuffer\<close> succeeds and leaves
  exactly the objects that were live before it was filled: nothing leaks and nothing is deleted
  twice.\<close>

theorem create_delete_roundtrip:
  assumes "\<forall>a \<in> set (heap_live h). a < heap_next h"
  shows "\<exists>b' h'. db_deleteAll (db_createObjects ns (DataBuffer_init fs, h)) = Inr (b', h') \<and>
     set (heap_live h') = set (heap_live h) \<and> data_buffer b' = []"
proof -
  from createObjects_live [OF assms, of ns fs] obtain b h1 where
    b: "db_createObjects ns (DataBuffer_init fs, h) = (b, h1)"
      "set (heap_live h1) - set (data_buffer b) - set (header_buffer b) = set (heap_live h)" by blast
  have "db_ok (b, h1)"
    using db_ok_createObjects [of "(DataBuffer_init fs, h)" ns] assms b(1) by (simp add: factory_init)
  from db_deleteAll_ok [OF this] b show ?thesis by auto
qed

theorem create_delete_roundtrip_witness:
  "\<exists>b' h'. db_deleteAll (db_createObjects [''int'', ''pose'', ''int'']
       (DataBuffer_init [''int'', ''pose''], \<lparr>heap_next = 1, heap_live = [0]\<rparr>)) = Inr (b', h') \<and>
     set (heap_live h') = {0}"
  using create_delete_roundtrip [of "\<lparr>heap_next = 1, heap_live = [0]\<rparr>"
      "[''int'', ''pose'', ''int'']" "[''int'', ''pose'']"] by auto

text \<open>A \<open>DataBuffer\<close> cannot be used again after \<open>deleteAll\<close>: the header pointers are kept, so with
  one more object created the next \<open>deleteAll\<close> deletes a header that is gone already.\<close>

theorem delete_after_reuse_fails:
  assumes "\<forall>a \<in> set (heap_live h). a < heap_next h" and "n \<in> set fs" and "m \<in> set fs"
    and "db_deleteAll (db_createObjects (n # ns) (DataBuffer_init fs, h)) = Inr s"
  shows "db_deleteAll (db_createObjects [m] s) = Inl UndefinedBehaviour"
proof -
  obtain b h1 where b: "db_createObjects (n # ns) (DataBuffer_init fs, h) = (b, h1)" by fastforce
  have ok: "db_ok (b, h1)"
    using db_ok_createObjects [of "(DataBuffer_init fs, h)" "n # ns"] assms(1) b by (simp add: factory_init)
  have "data_name b \<noteq> []"
    using db_createObjects_types [of "n # ns" "DataBuffer_init fs" h] assms(2) b by (simp add: factory_dom)
  with ok have some: "data_buffer b \<noteq> []" by (auto simp: db_ok_def)
  have "type_name_to_factory (fst (db_createObjects xs s)) = type_name_to_factory (fst s)" for xs s
    unfolding db_createObjects_def
    by (induction xs arbitrary: s) (auto simp: db_createObject_types(2) split: prod.splits)
  from this [of "n # ns" "(DataBuffer_init fs, h)"] b factory_dom [of fs] assms(3)
  have "m \<in> dom (map_of (type_name_to_factory b))" by simp
  moreover obtain b' h' where "s = (b', h')" by (cases s)
  ultimately show ?thesis
    using db_delete_twice [OF ok some, of b' h' m] assms(4) b by (simp add: db_createObjects_def)
qed

theorem delete_after_reuse_fails_witness:
  "\<exists>s. db_deleteAll (db_createObjects [''int''] (DataBuffer_init [''int''], \<lparr>heap_next = 0, heap_live = []\<rparr>)) = Inr s \<and>
     db_deleteAll (db_createObjects [''int''] s) = Inl UndefinedBehaviour"
proof -
  let ?h = "\<lparr>heap_next = 0, heap_live = []\<rparr>"
  have "is_ok (db_deleteAll (db_createObjects [''int''] (DataBuffer_init [''int''], ?h)))" by code_simp
  then obtain s where "db_deleteAll (db_createObjects [''int''] (DataBuffer_init [''int''], ?h)) = Inr s"
    by (auto simp: is_ok_iff)
  with delete_after_reuse_fails [of ?h "''int''" "[''int'']" "''int''" "[]" s] show ?thesis by simp
qed

lemma getOutput_ok:
  assumes "tsb_ok t" and "config_ok (length (buffer_data t)) pc"
    and "createComponentBuffer t pc i = Inr p" and "(b, out) \<in> set (buffer_to_port_output pc)"
  shows "\<exists>t'. getOutput p out t = Inr (buffer_data t ! nat b, t')"
proof -
  from assms(2) have pc: "ports_ok (length (buffer_data t)) (buffer_to_port_output pc)"
      "ports_ok (length (buffer_data t)) (buffer_to_port_input pc)" by (simp_all add: config_ok_def)
  from createComponentBuffer_ok [OF assms(1) pc(2,1), of i] assms(3,4)
  have "nat out < length (output_valid p)" "output_valid p ! nat out = Some (nat b)"
      "nat out < length (output_timestamp p)" "output_timestamp p ! nat out = Some (nat b)"
      "nat out < length (output_buffer p)" "output_buffer p ! nat out = Some (buffer_data t ! nat b)"
      "0 \<le> out"
    using pc(1) by (auto simp: ports_ok_def)
  moreover from pc(1) assms(1,4) have "nat b < length (buffer_valid t)" "nat b < length (buffer_timestamp t)"
    by (auto simp: ports_ok_def tsb_ok_def)
  ultimately show ?thesis by (simp add: getOutput_def getOutputTs_def write_ptr_def raw_get_def raw_set_def)
qed

text \<open>C22: Data flows through shared ports: what a producer writes with \<open>getOutput\<close> is the object that
  every consumer of the same buffer reads, it is valid there and carries the timestamp of the event;
  every other input of the consumer keeps its validity and its timestamp.\<close>

theorem port_data_flow:
  assumes "tsb_ok t" and "config_ok (length (buffer_data t)) pc" and "config_ok (length (buffer_data t)) cc"
    and "createComponentBuffer t pc i = Inr p" and "createComponentBuffer t cc j = Inr c"
    and "(b, out) \<in> set (buffer_to_port_output pc)"
  shows "\<exists>t'. getOutput p out t = Inr (buffer_data t ! nat b, t') \<and>
     (\<forall>(b', inp) \<in> set (buffer_to_port_input cc).
        getInput c inp = Inr (buffer_data t ! nat b') \<and>
        isInputValid t' c inp = (if b' = b then Inr True else isInputValid t c inp) \<and>
        getInputTimestamp t' c inp = (if b' = b then Inr (current_ts t) else getInputTimestamp t c inp))"
proof -
  note flow = getOutput_input [OF assms(1) _ _ assms(4,6) _ _ assms(5)]
  from assms(2,3) have pc: "ports_ok (length (buffer_data t)) (buffer_to_port_output pc)"
      "ports_ok (length (buffer_data t)) (buffer_to_port_input pc)"
    and cc: "ports_ok (length (buffer_data t)) (buffer_to_port_output cc)"
      "ports_ok (length (buffer_data t)) (buffer_to_port_input cc)" by (simp_all add: config_ok_def)
  obtain t' where t': "getOutput p out t = Inr (buffer_data t ! nat b, t')"
    using getOutput_ok [OF assms(1,2,4,6)] by blast
  show ?thesis
  proof (intro exI [of _ t'] conjI ballI t', clarify)
    fix b' inp assume "(b', inp) \<in> set (buffer_to_port_input cc)"
    from flow [OF pc cc this] t' show "getInput c inp = Inr (buffer_data t ! nat b') \<and>
        isInputValid t' c inp = (if b' = b then Inr True else isInputValid t c inp) \<and>
        getInputTimestamp t' c inp = (if b' = b then Inr (current_ts t) else getInputTimestamp t c inp)"
      by auto
  qed
qed

definition two_ports :: TimeStepBuffer where
  "two_ports =
     \<lparr>tsb_time_step_index = 0, buffer_data = [10, 11], header_data = [12, 13], tsb_time_domain = 0,
      current_ts = 500, current_message = DATA, component_buffer_to_index = [],
      component_buffers_list = [], source_buffer_list = [],
      buffer_valid = [PS_INVALID, PS_INVALID], buffer_timestamp = [0, 0],
      changed_pattern_instance_id = []\<rparr>"

definition port_config :: "(int \<times> int) list \<Rightarrow> (int \<times> int) list \<Rightarrow> BufferConfig" where
  "port_config ins outs =
     \<lparr>component_type = SYNC_FUNCTIONAL, bc_instance_id = ''a'', buffer_to_port_input = ins,
      port_group_config_input = [], buffer_to_port_output = outs, port_group_config_output = []\<rparr>"

theorem port_data_flow_witness:
  "\<exists>p c t'. createComponentBuffer two_ports (port_config [] [(1, 0)]) 0 = Inr p \<and>
     createComponentBuffer two_ports (port_config [(0, 0), (1, 1)] []) 1 = Inr c \<and>
     getOutput p 0 two_ports = Inr (11, t') \<and> isInputValid t' c 1 = Inr True \<and>
     getInputTimestamp t' c 1 = Inr 500"
proof -
  let ?pc = "port_config [] [(1, 0)]" and ?cc = "port_config [(0, 0), (1, 1)] []"
  have ok: "tsb_ok two_ports" "config_ok (length (buffer_data two_ports)) ?pc"
    "config_ok (length (buffer_data two_ports)) ?cc"
    by (auto simp: tsb_ok_def two_ports_def config_ok_def ports_ok_def port_config_def)
  obtain p c where p: "createComponentBuffer two_ports ?pc 0 = Inr p"
    and c: "createComponentBuffer two_ports ?cc 1 = Inr c"
    using createComponentBuffer_config_ok [OF ok(1,2), of 0] createComponentBuffer_config_ok [OF ok(1,3), of 1]
    by blast
  from port_data_flow [OF ok p c, of 1 0] p c show ?thesis
    by (auto simp: port_config_def two_ports_def)
qed

text \<open>\<open>cancelAll\<close> releases every source lock of every time step, which is what lets a data flow
  stop that waits for sources which do not deliver any more.\<close>

theorem cancelAll_releases:
  assumes "steps_ok b" and "ringbuffer_size (tdb_config b) = length (time_step_buffer b)"
  shows "\<exists>b'. cancelAll b = Inr b' \<and> steps_ok b' \<and>
     (\<forall>i < length (time_step_buffer b). \<forall>c < getCountSources b. committed b' c i)"
  using cancelAll_fold [OF assms(1), of "length (time_step_buffer b)"] assms(2)
  by (auto simp: cancelAll_def)

definition two_steps :: TimeDomainBuffer where
  "two_steps = (TimeDomainBuffer_init 0)\<lparr>count_async_sources := 1,
     tdb_config := default_config\<lparr>ringbuffer_size := 2\<rparr>,
     time_step_buffer := [two_ports\<lparr>source_buffer_list := [SourceComponentBuffer_init 0]\<rparr>,
       two_ports\<lparr>source_buffer_list := [SourceComponentBuffer_init 0]\<rparr>]\<rparr>"

theorem cancelAll_releases_witness:
  "\<exists>b'. cancelAll two_steps = Inr b' \<and> committed b' 0 1 \<and> \<not> committed two_steps 0 1"
proof -
  have "steps_ok two_steps" "getCountSources two_steps = 1" "length (time_step_buffer two_steps) = 2"
    "ringbuffer_size (tdb_config two_steps) = 2" "\<not> committed two_steps 0 1"
    by (simp_all add: steps_ok_def two_steps_def getCountSources_def getCountAsyncSources_def
        getCountInternalSyncSources_def TimeDomainBuffer_init_def committed_def)
  with cancelAll_releases [of two_steps] show ?thesis by fastforce
qed

end
