(* ===== verification/Scheduler.thy ===== *)
theory Scheduler
  imports DomainBuffer Sync Clock "HOL-Library.Monad_Syntax"
begin

text \<open>
  \<open>src/traact/dataflow/taskflow/TaskFlowInFlowScheduler.{h,cpp}\<close>: the scheduler of one time domain.
  It keeps a ring of \<open>time_step_count\<close> time steps; a queued event is put into the next time step
  of the ring as soon as one is free, and asynchronous sources ask for the time step of a
  timestamp with \<open>requestSourceBuffer\<close>.

  Every method is a function of the scheduler's state. \<open>request_mutex_\<close> serialises
  \<open>requestSourceBuffer\<close>, \<open>timeStepEnded\<close> and the scheduling of events, so each of them is one
  step. What a method returns through a \<open>std::future\<close> whose value is computed when it is read
  (\<open>std::launch::deferred\<close>) is a value of \<open>source_future\<close>; \<open>source_future_get\<close> is the deferred
  function. Logging is left out.
\<close>

section \<open>State\<close>

record ScheduledEvent =
  ev_timestamp :: timestamp
  ev_event_type :: EventType
  ev_invalid_sources :: "int list"
  ev_changed_pattern_instance_id :: string

record Scheduler =
  config :: TimeDomainManagerConfig
  time_domain_buffer :: TimeDomainBuffer
  time_step_count :: nat
  configure_finished :: WaitForInit
  start_finished :: WaitForInit
  stop_finished :: WaitForInit
  teardown_finished :: WaitForInit
  taskflow_started :: Semaphore
  latest_scheduled_ts :: timestamp
  latest_running_ts :: WaitForTimestamp
  source_set_input :: "bool list list"
  running_taskflows :: "bool list"
  queued_messages :: "ScheduledEvent list"
  time_step_latest :: int
  running_timestamps :: "timestamp list"
  free_taskflows_semaphore :: Semaphore
  latest_scheduled_component_timestamp :: "timestamp list"
  time_domain_clock :: TimeDomainClock
  stop_scheduled :: bool

datatype source_future =
    SF_Invalid                          \<comment> \<open>holds \<open>nullptr\<close>\<close>
  | SF_Running timestamp int int        \<comment> \<open>timestamp, component, time step\<close>
  | SF_Scheduled timestamp int          \<comment> \<open>timestamp, component\<close>

definition Scheduler_init :: "TimeDomainManagerConfig \<Rightarrow> TimeDomainBuffer \<Rightarrow> Scheduler res" where
  "Scheduler_init cfg buffer =
     bind_res (TimeDomainClock_init (sensor_frequency cfg) (max_offset cfg) 1) (\<lambda>clock.
     let n = ringbuffer_size cfg; k = getCountSources buffer
     in Inr \<lparr>config = cfg, time_domain_buffer = buffer, time_step_count = n,
          configure_finished = WaitForInit_init, start_finished = WaitForInit_init,
          stop_finished = WaitForInit_init, teardown_finished = WaitForInit_init,
          taskflow_started = Semaphore_init 1 0, latest_scheduled_ts = kTimestampZero,
          latest_running_ts = WaitForTimestamp_init (max_offset cfg),
          source_set_input = replicate k (replicate n False),
          running_taskflows = replicate n False, queued_messages = [], time_step_latest = -1,
          running_timestamps = replicate n kTimestampZero,
          free_taskflows_semaphore = Semaphore_init (int n) (int n),
          latest_scheduled_component_timestamp = replicate k kTimestampZero,
          time_domain_clock = clock, stop_scheduled = False\<rparr>)"

section \<open>Calls on the time step buffers\<close>

definition sch_step ::
    "int \<Rightarrow> (TimeStepBuffer \<Rightarrow> TimeStepBuffer res) \<Rightarrow> Scheduler \<Rightarrow> Scheduler res" where
  "sch_step i f s =
     bind_res (update_step i f (time_domain_buffer s)) (\<lambda>b. Inr (s\<lparr>time_domain_buffer := b\<rparr>))"

definition set_source_input :: "int \<Rightarrow> int \<Rightarrow> bool \<Rightarrow> Scheduler \<Rightarrow> Scheduler res" where
  "set_source_input c i v s =
     bind_res (raw_get (source_set_input s) c) (\<lambda>row.
     bind_res (raw_set row i v) (\<lambda>row'.
       Inr (s\<lparr>source_set_input := (source_set_input s)[nat c := row']\<rparr>)))"

definition get_source_input :: "Scheduler \<Rightarrow> int \<Rightarrow> int \<Rightarrow> bool res" where
  "get_source_input s c i = bind_res (raw_get (source_set_input s) c) (\<lambda>row. raw_get row i)"

section \<open>Taking and freeing time steps\<close>

definition takeTaskflow :: "int \<Rightarrow> timestamp \<Rightarrow> Scheduler \<Rightarrow> Scheduler res" where
  "takeTaskflow taskflow_id next_ts s =
     bind_res (raw_set (running_taskflows s) taskflow_id True) (\<lambda>running.
     bind_res (raw_set (running_timestamps s) taskflow_id next_ts) (\<lambda>times.
       fold_res (\<lambda>source s. set_source_input (int source) (time_step_latest s) False s)
         [0..<getCountSources (time_domain_buffer s)]
         (s\<lparr>running_taskflows := running, running_timestamps := times\<rparr>)))"

definition setTaskflowFree :: "int \<Rightarrow> Scheduler \<Rightarrow> Scheduler res" where
  "setTaskflowFree i s =
     bind_res (raw_set (running_taskflows s) i False) (\<lambda>running.
     bind_res (raw_set (running_timestamps s) i kTimestampZero) (\<lambda>times.
       Inr (s\<lparr>running_taskflows := running, running_timestamps := times,
             free_taskflows_semaphore := sem_notify (free_taskflows_semaphore s)\<rparr>)))"

text \<open>\<open>++time_step_latest_\<close>, then reduced modulo the number of time steps.\<close>

definition next_time_step :: "Scheduler \<Rightarrow> Scheduler res" where
  "next_time_step s =
     (if time_step_count s = 0 then Inl UndefinedBehaviour
      else Inr (s\<lparr>time_step_latest := (time_step_latest s + 1) mod int (time_step_count s)\<rparr>))"

definition assert_latest_free :: "Scheduler \<Rightarrow> Scheduler res" where
  "assert_latest_free s =
     bind_res (raw_get (running_taskflows s) (time_step_latest s)) (\<lambda>running.
       if running then Inl AssertionFailed else Inr s)"

text \<open>\<open>source_set_input_[c][latest] = true; source_buffer->commit(true)\<close>.\<close>

definition commit_latest :: "int \<Rightarrow> Scheduler \<Rightarrow> Scheduler res" where
  "commit_latest c s =
     bind_res (set_source_input c (time_step_latest s) True s) (\<lambda>s1.
       sch_step (time_step_latest s1) (update_source c (scb_commit True)) s1)"

definition runTaskFlowFromQueue :: "Scheduler \<Rightarrow> Scheduler res" where
  "runTaskFlowFromQueue s =
     (case queued_messages s of
        [] \<Rightarrow> Inl UndefinedBehaviour
      | next_message # queue \<Rightarrow>
          bind_res (next_time_step (s\<lparr>queued_messages := queue\<rparr>)) (\<lambda>s1.
          bind_res (assert_latest_free s1) (\<lambda>s2.
          bind_res (takeTaskflow (time_step_latest s2) (ev_timestamp next_message) s2) (\<lambda>s3.
          bind_res (sch_step (time_step_latest s3)
             (\<lambda>t. Inr (if ev_event_type next_message = PARAMETER_CHANGE
                 then setEventPattern (ev_timestamp next_message) (ev_event_type next_message)
                        (ev_changed_pattern_instance_id next_message) t
                 else setEvent (ev_timestamp next_message) (ev_event_type next_message) t)) s3) (\<lambda>s4.
          if ev_event_type next_message = DATA then
            fold_res commit_latest (ev_invalid_sources next_message)
              (s4\<lparr>latest_running_ts := wft_notifyAll (ev_timestamp next_message) (latest_running_ts s4)\<rparr>)
          else
            fold_res commit_latest
              (map int [0..<getCountSources (time_domain_buffer s4)]) s4)))))"

definition freeTimeStep :: "int \<Rightarrow> Scheduler \<Rightarrow> Scheduler res" where
  "freeTimeStep time_step_index s =
     bind_res (sch_step time_step_index (\<lambda>t. Inr (resetNewEvent t)) s) (\<lambda>s1.
     bind_res (raw_set (running_taskflows s1) time_step_index False) (\<lambda>running.
       let s2 = s1\<lparr>running_taskflows := running\<rparr>
       in if queued_messages s2 = [] then setTaskflowFree time_step_index s2
          else runTaskFlowFromQueue s2))"

definition globalTaskFlowStart :: "Scheduler \<Rightarrow> Scheduler" where
  "globalTaskFlowStart s = s\<lparr>taskflow_started := sem_notify (taskflow_started s)\<rparr>"

definition timeStepStart :: "int \<Rightarrow> Scheduler \<Rightarrow> Scheduler" where
  "timeStepStart time_step_index s = s"

definition event_finished :: "EventType \<Rightarrow> Scheduler \<Rightarrow> Scheduler" where
  "event_finished ev s =
     (case ev of
        CONFIGURE \<Rightarrow> s\<lparr>configure_finished := wfi_SetInit True (configure_finished s)\<rparr>
      | START \<Rightarrow> s\<lparr>start_finished := wfi_SetInit True (start_finished s)\<rparr>
      | STOP \<Rightarrow> s\<lparr>stop_finished := wfi_SetInit True (stop_finished s)\<rparr>
      | TEARDOWN \<Rightarrow> s\<lparr>teardown_finished := wfi_SetInit True (teardown_finished s)\<rparr>
      | _ \<Rightarrow> s)"

definition timeStepEnded :: "int \<Rightarrow> Scheduler \<Rightarrow> Scheduler res" where
  "timeStepEnded time_step_index s =
     bind_res (freeTimeStep time_step_index s) (\<lambda>s1.
     bind_res (getTimeStepBuffer (time_domain_buffer s1) time_step_index) (\<lambda>t.
       Inr (event_finished (current_message t) s1)))"

section \<open>Scheduling events\<close>

text \<open>The semaphore is tried while the flow mutex is held.\<close>

definition try_wait_free :: "Scheduler \<Rightarrow> bool \<times> Scheduler" where
  "try_wait_free s =
     (let (b, sem) = sem_try_now (free_taskflows_semaphore s)
      in (b, s\<lparr>free_taskflows_semaphore := sem\<rparr>))"

definition run_if_free :: "Scheduler \<Rightarrow> Scheduler res" where
  "run_if_free s =
     (let (b, s1) = try_wait_free s in if b then runTaskFlowFromQueue s1 else Inr s1)"

definition scheduleEvent :: "EventType \<Rightarrow> timestamp \<Rightarrow> Scheduler \<Rightarrow> Scheduler res" where
  "scheduleEvent message_type ts s =
     run_if_free (s\<lparr>queued_messages := queued_messages s @
       [\<lparr>ev_timestamp = ts, ev_event_type = message_type, ev_invalid_sources = [],
         ev_changed_pattern_instance_id = []\<rparr>]\<rparr>)"

definition schedulePaddingEvent :: "EventType \<Rightarrow> timestamp \<Rightarrow> int \<Rightarrow> Scheduler \<Rightarrow> Scheduler res" where
  "schedulePaddingEvent message_type ts component s =
     run_if_free (s\<lparr>latest_scheduled_ts := ts, queued_messages := queued_messages s @
       [\<lparr>ev_timestamp = ts, ev_event_type = message_type, ev_invalid_sources = [component],
         ev_changed_pattern_instance_id = []\<rparr>]\<rparr>)"

definition scheduleParameterChangedEvent :: "string \<Rightarrow> Scheduler \<Rightarrow> Scheduler res" where
  "scheduleParameterChangedEvent instance_id s =
     run_if_free (s\<lparr>queued_messages := queued_messages s @
       [\<lparr>ev_timestamp = kTimestampZero, ev_event_type = PARAMETER_CHANGE, ev_invalid_sources = [],
         ev_changed_pattern_instance_id = instance_id\<rparr>]\<rparr>)"

definition parameterChanged :: "string \<Rightarrow> Scheduler \<Rightarrow> Scheduler res" where
  "parameterChanged instance_id s = scheduleParameterChangedEvent instance_id s"

definition scheduleDataEventImmediately ::
    "timestamp \<Rightarrow> int \<Rightarrow> Scheduler \<Rightarrow> (int \<times> Scheduler) res" where
  "scheduleDataEventImmediately ts component s =
     (let (b, s0) = try_wait_free s
      in if b then
           bind_res (next_time_step (s0\<lparr>latest_scheduled_ts := ts\<rparr>)) (\<lambda>s1.
           bind_res (assert_latest_free s1) (\<lambda>s2.
           bind_res (takeTaskflow (time_step_latest s2) ts s2) (\<lambda>s3.
           bind_res (sch_step (time_step_latest s3)
              (\<lambda>t. Inr (setEvent (latest_scheduled_ts s3) DATA t)) s3) (\<lambda>s4.
             Inr (time_step_latest s4,
                  s4\<lparr>latest_running_ts := wft_notifyAll ts (latest_running_ts s4)\<rparr>)))))
         else Inr (-1, s0))"

text \<open>The part of \<open>scheduleNonDataEventAndWait\<close> before it waits for its flag.\<close>

definition scheduleNonDataEvent :: "EventType \<Rightarrow> Scheduler \<Rightarrow> Scheduler res" where
  "scheduleNonDataEvent type s =
     bind_res (scheduleEvent type kTimestampZero s) (\<lambda>s1.
       Inr (if type = STOP then s1\<lparr>stop_scheduled := True\<rparr> else s1))"

section \<open>Cancelling older events\<close>

definition cancel_running :: "timestamp \<Rightarrow> int \<Rightarrow> nat \<Rightarrow> Scheduler \<Rightarrow> Scheduler res" where
  "cancel_running min_ts c i s =
     bind_res (get_source_input s c (int i)) (\<lambda>is_set.
     if is_set then Inr s else
     bind_res (raw_get (running_taskflows s) (int i)) (\<lambda>running.
     if \<not> running then Inr s else
     bind_res (raw_get (running_timestamps s) (int i)) (\<lambda>ts.
     if \<not> ts + max_offset (config s) < min_ts then Inr s else
     bind_res (set_source_input c (int i) True s) (\<lambda>s1.
       sch_step (int i) (update_source c (\<lambda>b. Inr (scb_cancel b))) s1))))"

definition cancel_queued :: "timestamp \<Rightarrow> int \<Rightarrow> Scheduler \<Rightarrow> Scheduler" where
  "cancel_queued min_ts c s =
     s\<lparr>queued_messages := map (\<lambda>m.
         if ev_event_type m = DATA \<and> ev_timestamp m + max_offset (config s) < min_ts
         then m\<lparr>ev_invalid_sources := ev_invalid_sources m @ [c]\<rparr> else m) (queued_messages s)\<rparr>"

definition cancelSourceWaitForEvent :: "timestamp \<Rightarrow> int \<Rightarrow> Scheduler \<Rightarrow> Scheduler res" where
  "cancelSourceWaitForEvent ts c s =
     (let min_ts = ts - max_offset (config s)
      in bind_res (fold_res (cancel_running min_ts c) [0..<time_step_count s] s) (\<lambda>s1.
           Inr (cancel_queued min_ts c s1)))"

definition cancelSourceCancelOldest :: "timestamp \<Rightarrow> Scheduler \<Rightarrow> Scheduler res" where
  "cancelSourceCancelOldest ts s =
     fold_res (\<lambda>c s. cancelSourceWaitForEvent ts (int c) s) [0..<length (source_set_input s)] s"

definition cancelOlderEvents :: "timestamp \<Rightarrow> int \<Rightarrow> Scheduler \<Rightarrow> Scheduler res" where
  "cancelOlderEvents ts component s =
     (case missing_source_event_mode (config s) of
        WAIT_FOR_EVENT \<Rightarrow> cancelSourceWaitForEvent ts component s
      | CANCEL_OLDEST \<Rightarrow> cancelSourceCancelOldest ts s)"

section \<open>Requests of the sources\<close>

definition isInvalidNextRequestedTimeStamp :: "timestamp \<Rightarrow> int \<Rightarrow> Scheduler \<Rightarrow> bool res" where
  "isInvalidNextRequestedTimeStamp ts c s =
     (let off = max_offset (config s)
      in if ts + off < getInitTimestamp (time_domain_clock s) - off then Inr True
         else if c < 0 then Inl OutOfRange
         else bind_res (vec_at (latest_scheduled_component_timestamp s) (nat c)) (\<lambda>latest.
           Inr (ts + off \<le> latest - off)))"

definition isTimestampRunning :: "Scheduler \<Rightarrow> timestamp \<Rightarrow> int" where
  "isTimestampRunning s ts =
     (case find_index (\<lambda>running. isWithinRange ts running (max_offset (config s)))
        (running_timestamps s) of
        Some index \<Rightarrow> int index
      | None \<Rightarrow> -1)"

definition isTimestampScheduled :: "Scheduler \<Rightarrow> timestamp \<Rightarrow> bool" where
  "isTimestampScheduled s ts \<longleftrightarrow>
     list_ex (\<lambda>m. isWithinRange (ev_timestamp m) ts (max_offset (config s))) (queued_messages s)"

definition requestSourceBufferInvalid :: source_future where
  "requestSourceBufferInvalid = SF_Invalid"

definition requestSourceBufferRunning ::
    "timestamp \<Rightarrow> int \<Rightarrow> int \<Rightarrow> Scheduler \<Rightarrow> (source_future \<times> Scheduler) res" where
  "requestSourceBufferRunning ts component time_step_index s =
     bind_res (set_source_input component time_step_index True s) (\<lambda>s1.
       Inr (SF_Running ts component time_step_index, s1))"

definition requestSourceBufferScheduled :: "timestamp \<Rightarrow> int \<Rightarrow> source_future" where
  "requestSourceBufferScheduled ts component = SF_Scheduled ts component"

text \<open>
  Reading the future: the buffer is the pair of its time step and source; \<open>obs\<close> is what the waiting
  thread sees of \<open>latest_running_ts_\<close> after the first look, \<open>None\<close> that it waits still. The state is
  the one in which the wait ends.
\<close>

definition source_future_get ::
    "source_future \<Rightarrow> timestamp list \<Rightarrow> Scheduler \<Rightarrow> ((int \<times> int) option \<times> Scheduler) res option" where
  "source_future_get f obs s =
     (case f of
        SF_Invalid \<Rightarrow> Some (Inr (None, s))
      | SF_Running ts c i \<Rightarrow>
          Some (bind_res (getTimeStepBuffer (time_domain_buffer s) i) (\<lambda>t.
                bind_res (getSourceComponentBuffer t c) (\<lambda>_. Inr (Some (i, c), s))))
      | SF_Scheduled ts c \<Rightarrow>
          map_option (\<lambda>_.
            let i = isTimestampRunning s ts
            in if i < 0 then Inr (None, s)
               else bind_res (get_source_input s c i) (\<lambda>is_set.
                 if is_set then Inr (None, s)
                 else bind_res (set_source_input c i True s) (\<lambda>s1.
                      bind_res (getTimeStepBuffer (time_domain_buffer s1) i) (\<lambda>t.
                      bind_res (getSourceComponentBuffer t c) (\<lambda>_. Inr (Some (i, c), s1))))))
          (wft_wait ts (latest_running_ts s) obs))"

text \<open>One round of the padding loop of \<open>requestSourceBufferNewTimestampWait\<close>.\<close>

definition padding_step :: "int \<Rightarrow> Scheduler \<Rightarrow> Scheduler res" where
  "padding_step c s =
     bind_res (getNextExpectedTimestamp (time_domain_clock s)) (\<lambda>(queue_timestamp, clock).
       schedulePaddingEvent DATA queue_timestamp c (s\<lparr>time_domain_clock := clock\<rparr>))"

partial_function (option) padding_loop :: "timestamp \<Rightarrow> int \<Rightarrow> Scheduler \<Rightarrow> Scheduler res option" where
  "padding_loop ts c s =
     (case padding_step c s of
        Inl e \<Rightarrow> Some (Inl e)
      | Inr s1 \<Rightarrow>
          if isNextExpectedTimestampOrBigger (time_domain_clock s1) ts then Some (Inr s1)
          else padding_loop ts c s1)"

definition schedule_expected :: "Scheduler \<Rightarrow> Scheduler res" where
  "schedule_expected s =
     bind_res (getNextExpectedTimestamp (time_domain_clock s)) (\<lambda>(expected_timestamp, clock).
       scheduleEvent DATA expected_timestamp (s\<lparr>time_domain_clock := clock\<rparr>))"

definition requestSourceBufferNewTimestampWait ::
    "timestamp \<Rightarrow> int \<Rightarrow> Scheduler \<Rightarrow> (source_future \<times> Scheduler) res option" where
  "requestSourceBufferNewTimestampWait ts c s =
     (if isNextExpectedTimestamp (time_domain_clock s) ts then
        Some (bind_res (schedule_expected s) (\<lambda>s1. Inr (requestSourceBufferScheduled ts c, s1)))
      else if isFurtherAheadThenNextExpectedTimestamp (time_domain_clock s) ts then
        map_option (\<lambda>r. bind_res r (\<lambda>s1. bind_res (schedule_expected s1) (\<lambda>s2.
            Inr (requestSourceBufferScheduled ts c, s2))))
          (padding_loop ts c s)
      else Some (Inr (requestSourceBufferInvalid, s)))"

definition requestSourceBufferNewTimestampImmediate ::
    "timestamp \<Rightarrow> int \<Rightarrow> Scheduler \<Rightarrow> (source_future \<times> Scheduler) res" where
  "requestSourceBufferNewTimestampImmediate ts c s =
     bind_res (scheduleDataEventImmediately ts c s) (\<lambda>(new_time_step, s1).
       if new_time_step \<ge> 0 then requestSourceBufferRunning ts c new_time_step s1
       else Inr (requestSourceBufferInvalid, s1))"

definition requestSourceBufferNewTimestamp ::
    "timestamp \<Rightarrow> int \<Rightarrow> Scheduler \<Rightarrow> (source_future \<times> Scheduler) res option" where
  "requestSourceBufferNewTimestamp ts c s =
     (if stop_scheduled s then Some (Inr (requestSourceBufferInvalid, s))
      else case source_mode (config s) of
          WAIT_FOR_BUFFER \<Rightarrow> requestSourceBufferNewTimestampWait ts c s
        | IMMEDIATE_RETURN \<Rightarrow> Some (requestSourceBufferNewTimestampImmediate ts c s))"

text \<open>The part of \<open>requestSourceBuffer\<close> after the request passed its first check.\<close>

definition requestSourceBuffer_valid ::
    "timestamp \<Rightarrow> int \<Rightarrow> Scheduler \<Rightarrow> (source_future \<times> Scheduler) res option" where
  "requestSourceBuffer_valid ts c s =
     (case bind_res (newTimestamp ts (time_domain_clock s)) (\<lambda>clock.
             cancelOlderEvents ts c (s\<lparr>time_domain_clock := clock\<rparr>)) of
        Inl e \<Rightarrow> Some (Inl e)
      | Inr s1 \<Rightarrow>
          let running_time_step_index = isTimestampRunning s1 ts
          in if running_time_step_index \<ge> 0
             then Some (requestSourceBufferRunning ts c running_time_step_index s1)
             else if source_mode (config s1) = WAIT_FOR_BUFFER \<and> isTimestampScheduled s1 ts
             then Some (Inr (requestSourceBufferScheduled ts c, s1))
             else if c < 0 \<or> length (latest_scheduled_component_timestamp s1) \<le> nat c
             then Some (Inl OutOfRange)
             else requestSourceBufferNewTimestamp ts c (s1\<lparr>latest_scheduled_component_timestamp :=
               (latest_scheduled_component_timestamp s1)[nat c := ts]\<rparr>))"

definition requestSourceBuffer ::
    "timestamp \<Rightarrow> int \<Rightarrow> Scheduler \<Rightarrow> (source_future \<times> Scheduler) res option" where
  "requestSourceBuffer ts c s =
     (case isInvalidNextRequestedTimeStamp ts c s of
        Inl e \<Rightarrow> Some (Inl e)
      | Inr True \<Rightarrow> Some (Inr (requestSourceBufferInvalid, s))
      | Inr False \<Rightarrow> requestSourceBuffer_valid ts c s)"

section \<open>Starting and stopping\<close>

text \<open>
  \<open>start\<close> and \<open>stop\<close> block between their actions. They are programs of the scheduler's client: the
  list of actions that are left. An action that waits for a flag is repeated until the flag is set.
\<close>

datatype control_action =
    ResetAllTimeSteps
  | RunTaskflow
  | WaitTaskflowStarted
  | ScheduleAction EventType
  | AwaitAction EventType
  | CancelAllSources

definition finished_flag :: "EventType \<Rightarrow> Scheduler \<Rightarrow> bool" where
  "finished_flag ev s =
     (case ev of
        CONFIGURE \<Rightarrow> wfi_is_init (configure_finished s)
      | START \<Rightarrow> wfi_is_init (start_finished s)
      | STOP \<Rightarrow> wfi_is_init (stop_finished s)
      | TEARDOWN \<Rightarrow> wfi_is_init (teardown_finished s)
      | _ \<Rightarrow> False)"

definition start_program :: "control_action list" where
  "start_program =
     [ResetAllTimeSteps, RunTaskflow, WaitTaskflowStarted,
      ScheduleAction CONFIGURE, AwaitAction CONFIGURE, ScheduleAction START, AwaitAction START]"

text \<open>
  \<open>stop\<close> schedules the stop event in its own thread and waits for it with a timeout; \<open>timed_out\<close>
  tells whether the timeout passed. One \<open>DATAFLOW_STOP\<close> is scheduled for every time step. The
  destructor of the future of that thread waits for it at the end of the block.
\<close>

definition stop_program :: "nat \<Rightarrow> bool \<Rightarrow> control_action list" where
  "stop_program n timed_out =
     [ScheduleAction STOP] @
     (if timed_out then [CancelAllSources] else [AwaitAction STOP]) @
     [ScheduleAction TEARDOWN, AwaitAction TEARDOWN] @
     replicate n (ScheduleAction DATAFLOW_STOP) @
     (if timed_out then [AwaitAction STOP] else [])"

definition resetAllTimeSteps :: "Scheduler \<Rightarrow> Scheduler res" where
  "resetAllTimeSteps s =
     fold_res (\<lambda>i s. sch_step (int i) (\<lambda>t. Inr (resetNewEvent t)) s) [0..<time_step_count s] s"

definition cancelAllSourcesNow :: "timestamp \<Rightarrow> Scheduler \<Rightarrow> Scheduler res" where
  "cancelAllSourcesNow now s =
     fold_res (\<lambda>c s. cancelSourceWaitForEvent now (int c) s)
       [0..<getCountSources (time_domain_buffer s)] s"

text \<open>One step of the client: the state and the program that is left, with the clock at \<open>now\<close>.\<close>

fun control_step ::
    "timestamp \<Rightarrow> control_action list \<times> Scheduler \<Rightarrow> (control_action list \<times> Scheduler) res" where
  "control_step now ([], s) = Inr ([], s)"
| "control_step now (a # as, s) =
     (case a of
        ResetAllTimeSteps \<Rightarrow> bind_res (resetAllTimeSteps s) (\<lambda>s1. Inr (as, s1))
      | RunTaskflow \<Rightarrow> Inr (as, s)
      | WaitTaskflowStarted \<Rightarrow>
          (let (b, sem) = sem_try_now (taskflow_started s)
           in if b then Inr (as, s\<lparr>taskflow_started := sem\<rparr>) else Inr (a # as, s))
      | ScheduleAction ev \<Rightarrow> bind_res (scheduleNonDataEvent ev s) (\<lambda>s1. Inr (as, s1))
      | AwaitAction ev \<Rightarrow> Inr (if finished_flag ev s then as else a # as, s)
      | CancelAllSources \<Rightarrow> bind_res (cancelAllSourcesNow now s) (\<lambda>s1. Inr (as, s1)))"

end
