(* ===== verification/SchedulerSlots.thy ===== *)
theory SchedulerSlots
  imports Scheduler
begin

text \<open>
  How the operations of the scheduler move its ring of time steps: the effect of every private
  method on a well-formed state, as an equation that names the fields that change.
\<close>

section \<open>The shape of the state\<close>

abbreviation slots :: "Scheduler \<Rightarrow> nat" where
  "slots s \<equiv> time_step_count s"

abbreviation sources :: "Scheduler \<Rightarrow> nat" where
  "sources s \<equiv> getCountSources (time_domain_buffer s)"

definition matrix_ok :: "nat \<Rightarrow> nat \<Rightarrow> bool list list \<Rightarrow> bool" where
  "matrix_ok k n X \<longleftrightarrow> length X = k \<and> (\<forall>row \<in> set X. length row = n)"

definition buffers_ok :: "nat \<Rightarrow> nat \<Rightarrow> TimeDomainBuffer \<Rightarrow> bool" where
  "buffers_ok k n b \<longleftrightarrow> steps_ok b \<and> length (time_step_buffer b) = n \<and> getCountSources b = k"

definition shape :: "Scheduler \<Rightarrow> bool" where
  "shape s \<longleftrightarrow> 0 < slots s \<and> length (running_taskflows s) = slots s \<and>
     length (running_timestamps s) = slots s \<and>
     buffers_ok (sources s) (slots s) (time_domain_buffer s) \<and>
     matrix_ok (sources s) (slots s) (source_set_input s) \<and>
     length (latest_scheduled_component_timestamp s) = sources s \<and>
     -1 \<le> time_step_latest s \<and> time_step_latest s < int (slots s)"

text \<open>Which slots run: the last \<open>r\<close> ones of the ring, counted back from the latest.\<close>

definition window :: "Scheduler \<Rightarrow> nat \<Rightarrow> bool" where
  "window s r \<longleftrightarrow> (\<forall>i < slots s. running_taskflows s ! i \<longleftrightarrow>
     (time_step_latest s - int i) mod int (slots s) < int r)"

definition locks :: "Scheduler \<Rightarrow> bool" where
  "locks s \<longleftrightarrow> (\<forall>i < slots s. \<forall>c < sources s. committed (time_domain_buffer s) c i \<longrightarrow>
     running_taskflows s ! i \<and> source_set_input s ! c ! i)"

definition message_ok :: "nat \<Rightarrow> ScheduledEvent \<Rightarrow> bool" where
  "message_ok k m \<longleftrightarrow> distinct (ev_invalid_sources m) \<and>
     set (ev_invalid_sources m) \<subseteq> int ` {0..<k}"

text \<open>The arithmetic of the ring.\<close>

lemma mod_int_unique:
  assumes "0 < n" and "i < n" and "j < n" and "(l - int i) mod int n = (l - int j) mod int n"
  shows "i = j"
proof -
  from assms(4) have "(l - (l - int i)) mod int n = (l - (l - int j)) mod int n"
    by (metis mod_diff_right_eq)
  with assms show ?thesis by simp
qed

lemma mod_add_one: "0 < n \<Longrightarrow> (x + 1) mod n = (if x mod n = n - 1 then 0 else x mod n + (1::int))"
proof -
  assume n: "0 < n"
  have eq: "(x + 1) mod n = (x mod n + 1) mod n" by (simp add: mod_add_left_eq)
  from n have "0 \<le> x mod n" "x mod n < n" by simp_all
  then show ?thesis
    unfolding eq by (cases "x mod n = n - 1") (simp_all add: mod_pos_pos_trivial)
qed

lemma mod_diff_zero:
  assumes "i < n"
  shows "(y - int i) mod int n = 0 \<longleftrightarrow> y mod int n = int i"
proof -
  have "(y - int i) mod int n = 0 \<longleftrightarrow> y mod int n = int i mod int n"
    by (metis dvd_eq_mod_eq_0 mod_eq_dvd_iff)
  with assms show ?thesis by simp
qed

text \<open>The distance of a slot from the latest one is the largest exactly for the slot that is next.\<close>

lemma dist_last:
  assumes "i < n"
  shows "(l - int i) mod int n = int n - 1 \<longleftrightarrow> (l + 1) mod int n = int i"
proof -
  from assms have n: "0 < int n" by simp
  have "(l + 1 - int i) mod int n = (l - int i + 1) mod int n" by (simp add: algebra_simps)
  also have "\<dots> = (if (l - int i) mod int n = int n - 1 then 0 else (l - int i) mod int n + 1)"
    by (rule mod_add_one [OF n])
  finally have "(l + 1 - int i) mod int n = 0 \<longleftrightarrow> (l - int i) mod int n = int n - 1"
    using pos_mod_sign [OF n, of "l - int i"] by (auto split: if_splits)
  with mod_diff_zero [OF assms, of "l + 1"] show ?thesis by simp
qed

lemma dist_succ:
  assumes "i < n"
  shows "((l + 1) mod int n - int i) mod int n =
     (if (l + 1) mod int n = int i then 0 else (l - int i) mod int n + 1)"
proof -
  from assms have n: "0 < int n" by simp
  have "((l + 1) mod int n - int i) mod int n = (l - int i + 1) mod int n"
    by (simp add: mod_diff_left_eq algebra_simps)
  also have "\<dots> = (if (l - int i) mod int n = int n - 1 then 0 else (l - int i) mod int n + 1)"
    by (rule mod_add_one [OF n])
  finally show ?thesis using dist_last [OF assms, of l] by simp
qed

lemma window_take:
  assumes "shape s" and w: "window s r" and "r < slots s"
  defines "l \<equiv> nat ((time_step_latest s + 1) mod int (slots s))"
  shows "l < slots s \<and> \<not> running_taskflows s ! l \<and>
     window (s\<lparr>time_step_latest := (time_step_latest s + 1) mod int (slots s),
       running_taskflows := (running_taskflows s)[l := True]\<rparr>) (Suc r)"
proof -
  let ?n = "int (slots s)" and ?l = "(time_step_latest s + 1) mod int (slots s)"
  from assms(1) have n: "0 < slots s" by (simp add: shape_def)
  then have l: "0 \<le> ?l" "?l < ?n" by simp_all
  then have li: "int l = ?l" and ln: "l < slots s" by (auto simp: l_def)
  have step: "(?l - int i) mod ?n = (if i = l then 0 else (time_step_latest s - int i) mod ?n + 1)"
    if "i < slots s" for i
    using dist_succ [OF that, of "time_step_latest s"] li by auto
  have "(time_step_latest s - int l) mod ?n = ?n - 1"
    using dist_last [OF ln, of "time_step_latest s"] li by simp
  with w ln assms(3) have free: "\<not> running_taskflows s ! l" by (auto simp: window_def)
  have "window (s\<lparr>time_step_latest := ?l, running_taskflows := (running_taskflows s)[l := True]\<rparr>) (Suc r)"
    using w step assms(1) ln by (auto simp: window_def shape_def nth_list_update)
  with free ln show ?thesis by simp
qed

lemma window_release:
  assumes "shape s" and w: "window s (Suc r)" and "old < slots s"
    and "(time_step_latest s - int old) mod int (slots s) = int r"
  shows "window (s\<lparr>running_taskflows := (running_taskflows s)[old := False]\<rparr>) r"
proof -
  from assms(1) have n: "0 < slots s" by (simp add: shape_def)
  have "(time_step_latest s - int i) mod int (slots s) \<noteq> int r" if "i < slots s" "i \<noteq> old" for i
    using mod_int_unique [OF n that(1) assms(3), of "time_step_latest s"] assms(4) that(2) by auto
  with w assms(1,3,4) show ?thesis by (force simp: window_def shape_def nth_list_update)
qed

text \<open>With every slot running, the slot behind the latest is the oldest one.\<close>

lemma oldest_next:
  assumes "old < n" and "(l - int old) mod int n = int n - 1"
  shows "nat ((l + 1) mod int n) = old"
  using dist_last [OF assms(1), of l] assms(2) by simp

section \<open>The primitive operations\<close>

lemma set_source_input_ok:
  assumes "matrix_ok k n (source_set_input s)" and "c < k" and "i < n"
  shows "\<exists>X. set_source_input (int c) (int i) v s = Inr (s\<lparr>source_set_input := X\<rparr>) \<and> matrix_ok k n X \<and>
     (\<forall>d < k. \<forall>j < n. X ! d ! j = (if d = c \<and> j = i then v else source_set_input s ! d ! j))"
proof -
  let ?X = "(source_set_input s)[c := (source_set_input s ! c)[i := v]]"
  from assms have "length (source_set_input s ! c) = n" by (simp add: matrix_ok_def)
  with assms have "set_source_input (int c) (int i) v s = Inr (s\<lparr>source_set_input := ?X\<rparr>)"
    by (simp add: set_source_input_def matrix_ok_def raw_get_int raw_set_int)
  moreover have "matrix_ok k n ?X"
    using assms by (auto simp: matrix_ok_def dest!: set_update_subset_insert [THEN subsetD])
  moreover have "?X ! d ! j = (if d = c \<and> j = i then v else source_set_input s ! d ! j)"
    if "d < k" "j < n" for d j
    using assms that by (auto simp: matrix_ok_def nth_list_update)
  ultimately show ?thesis by blast
qed

lemma set_source_input_True:
  assumes "matrix_ok k n (source_set_input s)" and "c < k" and "i < n"
  shows "\<exists>X. set_source_input (int c) (int i) True s = Inr (s\<lparr>source_set_input := X\<rparr>) \<and> matrix_ok k n X \<and>
     (\<forall>d < k. \<forall>j < n. X ! d ! j = (d = c \<and> j = i \<or> source_set_input s ! d ! j))"
proof -
  have "(if p then True else b) = (p \<or> b)" for p b by simp
  then show ?thesis using set_source_input_ok [OF assms, of True] by (simp only:)
qed

lemma get_source_input_ok:
  "matrix_ok k n (source_set_input s) \<Longrightarrow> c < k \<Longrightarrow> i < n \<Longrightarrow>
   get_source_input s (int c) (int i) = Inr (source_set_input s ! c ! i)"
  by (simp add: get_source_input_def matrix_ok_def raw_get_int)

lemma clear_inputs_fold:
  assumes "matrix_ok k n (source_set_input s)" and "time_step_latest s = int l" and "l < n" and "m \<le> k"
  shows "\<exists>X. fold_res (\<lambda>source s. set_source_input (int source) (time_step_latest s) False s) [0..<m] s =
      Inr (s\<lparr>source_set_input := X\<rparr>) \<and> matrix_ok k n X \<and>
      (\<forall>d < k. \<forall>j < n. X ! d ! j = (\<not> (d < m \<and> j = l) \<and> source_set_input s ! d ! j))"
  using assms(4)
proof (induction m)
  case 0
  with assms(1) show ?case by (intro exI [of _ "source_set_input s"]) simp
next
  case (Suc m)
  then obtain X where X: "fold_res (\<lambda>source s. set_source_input (int source) (time_step_latest s) False s)
      [0..<m] s = Inr (s\<lparr>source_set_input := X\<rparr>)" "matrix_ok k n X"
      "\<forall>d < k. \<forall>j < n. X ! d ! j = (\<not> (d < m \<and> j = l) \<and> source_set_input s ! d ! j)"
    by auto
  from set_source_input_ok [of k n "s\<lparr>source_set_input := X\<rparr>" m l False] X(2) Suc.prems assms(2,3)
  obtain Y where Y: "set_source_input (int m) (int l) False (s\<lparr>source_set_input := X\<rparr>) =
      Inr (s\<lparr>source_set_input := Y\<rparr>)" "matrix_ok k n Y"
      "\<forall>d < k. \<forall>j < n. Y ! d ! j = (if d = m \<and> j = l then False else X ! d ! j)"
    by auto
  with X assms(2) show ?case
    by (intro exI [of _ Y]) (auto simp: fold_res_append less_Suc_eq)
qed

lemma takeTaskflow_ok:
  assumes "length (running_taskflows s) = n" and "length (running_timestamps s) = n"
    and "matrix_ok (sources s) n (source_set_input s)" and "time_step_latest s = int l" and "l < n"
  shows "\<exists>X. takeTaskflow (int l) ts s = Inr (s\<lparr>running_taskflows := (running_taskflows s)[l := True],
       running_timestamps := (running_timestamps s)[l := ts], source_set_input := X\<rparr>) \<and>
     matrix_ok (sources s) n X \<and>
     (\<forall>d < sources s. \<forall>j < n. X ! d ! j = (j \<noteq> l \<and> source_set_input s ! d ! j))"
proof -
  let ?s = "s\<lparr>running_taskflows := (running_taskflows s)[l := True],
       running_timestamps := (running_timestamps s)[l := ts]\<rparr>"
  from clear_inputs_fold [of "sources s" n ?s l "sources s"] assms
  obtain X where "fold_res (\<lambda>source s. set_source_input (int source) (time_step_latest s) False s)
      [0..<sources s] ?s = Inr (?s\<lparr>source_set_input := X\<rparr>)" "matrix_ok (sources s) n X"
      "\<forall>d < sources s. \<forall>j < n. X ! d ! j = (j \<noteq> l \<and> source_set_input s ! d ! j)"
    by auto
  with assms show ?thesis
    by (intro exI [of _ X]) (simp add: takeTaskflow_def raw_set_int)
qed

lemma sch_step_total:
  assumes "i < length (time_step_buffer (time_domain_buffer s))"
  shows "sch_step (int i) (\<lambda>t. Inr (f t)) s = Inr (s\<lparr>time_domain_buffer :=
     (time_domain_buffer s)\<lparr>time_step_buffer := (time_step_buffer (time_domain_buffer s))
       [i := f (time_step_buffer (time_domain_buffer s) ! i)]\<rparr>\<rparr>)"
  using assms by (simp add: sch_step_def update_step_def getTimeStepBuffer_def raw_get_int)

text \<open>The events recorded in the time steps, which commits do not change.\<close>

definition same_events :: "TimeDomainBuffer \<Rightarrow> TimeDomainBuffer \<Rightarrow> bool" where
  "same_events b b' \<longleftrightarrow> (\<forall>j < length (time_step_buffer b).
     current_ts (time_step_buffer b' ! j) = current_ts (time_step_buffer b ! j) \<and>
     current_message (time_step_buffer b' ! j) = current_message (time_step_buffer b ! j))"

lemma sch_step_lock:
  assumes "buffers_ok k n (time_domain_buffer s)" and "i < n" and "c < k"
    and "f (source_buffer_list (time_step_buffer (time_domain_buffer s) ! i) ! c) = Inr x"
  shows "\<exists>B. sch_step (int i) (update_source (int c) f) s = Inr (s\<lparr>time_domain_buffer := B\<rparr>) \<and>
     buffers_ok k n B \<and> same_events (time_domain_buffer s) B \<and>
     (\<forall>j < n. \<forall>d. committed B d j =
        (if j = i \<and> d = c then scb_committed x else committed (time_domain_buffer s) d j))"
proof -
  from assms have "steps_ok (time_domain_buffer s)" "length (time_step_buffer (time_domain_buffer s)) = n"
    "getCountSources (time_domain_buffer s) = k" by (simp_all add: buffers_ok_def)
  with update_lock [of "time_domain_buffer s" i c f x] assms(2-4) obtain B where
    "update_step (int i) (update_source (int c) f) (time_domain_buffer s) = Inr B" "steps_ok B"
    "length (time_step_buffer B) = n" "getCountSources B = k" "same_events (time_domain_buffer s) B"
    "\<forall>j < n. \<forall>d. committed B d j =
        (if j = i \<and> d = c then scb_committed x else committed (time_domain_buffer s) d j)"
    by (auto simp: same_events_def)
  then show ?thesis by (intro exI [of _ B]) (simp add: sch_step_def buffers_ok_def)
qed

lemma sch_step_lock_set:
  assumes "buffers_ok k n (time_domain_buffer s)" and "i < n" and "c < k"
    and "f (source_buffer_list (time_step_buffer (time_domain_buffer s) ! i) ! c) = Inr x"
    and "scb_committed x"
  shows "\<exists>B. sch_step (int i) (update_source (int c) f) s = Inr (s\<lparr>time_domain_buffer := B\<rparr>) \<and>
     buffers_ok k n B \<and> same_events (time_domain_buffer s) B \<and>
     (\<forall>j < n. \<forall>d. committed B d j = (j = i \<and> d = c \<or> committed (time_domain_buffer s) d j))"
proof -
  have "(if p then scb_committed x else b) = (p \<or> b)" for p b using assms(5) by simp
  then show ?thesis using sch_step_lock [OF assms(1-3), of f x, OF assms(4)] by (simp only:)
qed

lemma commit_latest_ok:
  assumes "buffers_ok k n (time_domain_buffer s)" and "matrix_ok k n (source_set_input s)"
    and "time_step_latest s = int l" and "l < n" and "c < k"
    and "\<not> committed (time_domain_buffer s) c l"
  shows "\<exists>X B. commit_latest (int c) s = Inr (s\<lparr>source_set_input := X, time_domain_buffer := B\<rparr>) \<and>
     matrix_ok k n X \<and> buffers_ok k n B \<and> same_events (time_domain_buffer s) B \<and>
     (\<forall>d < k. \<forall>j < n. X ! d ! j = (d = c \<and> j = l \<or> source_set_input s ! d ! j)) \<and>
     (\<forall>j < n. \<forall>d. committed B d j = (j = l \<and> d = c \<or> committed (time_domain_buffer s) d j))"
proof -
  from set_source_input_True [OF assms(2,5,4)] obtain X where
    X: "set_source_input (int c) (int l) True s = Inr (s\<lparr>source_set_input := X\<rparr>)" "matrix_ok k n X"
      "\<forall>d < k. \<forall>j < n. X ! d ! j = (d = c \<and> j = l \<or> source_set_input s ! d ! j)"
    by auto
  let ?s = "s\<lparr>source_set_input := X\<rparr>"
  let ?src = "source_buffer_list (time_step_buffer (time_domain_buffer s) ! l) ! c"
  from assms(6) have "is_ok (scb_commit True ?src)" by (simp add: scb_commit_iff committed_def)
  then obtain x where x: "scb_commit True ?src = Inr x" by (auto simp: is_ok_iff)
  then have "scb_committed x" by (rule scb_commit_committed)
  with sch_step_lock_set [of k n ?s l c "scb_commit True" x] assms x obtain B where
    B: "sch_step (int l) (update_source (int c) (scb_commit True)) ?s = Inr (?s\<lparr>time_domain_buffer := B\<rparr>)"
      "buffers_ok k n B" "same_events (time_domain_buffer s) B"
      "\<forall>j < n. \<forall>d. committed B d j = (j = l \<and> d = c \<or> committed (time_domain_buffer s) d j)"
    by auto
  have "commit_latest (int c) s = Inr (s\<lparr>source_set_input := X, time_domain_buffer := B\<rparr>)"
    using X B assms(3) by (simp add: commit_latest_def)
  with X B show ?thesis by (intro exI [of _ X] exI [of _ B]) simp
qed

lemma same_events_trans:
  "same_events a b \<Longrightarrow> same_events b c \<Longrightarrow> length (time_step_buffer b) = length (time_step_buffer a) \<Longrightarrow>
   same_events a c"
  by (auto simp: same_events_def)

lemma commit_fold:
  assumes "buffers_ok k n (time_domain_buffer s)" and "matrix_ok k n (source_set_input s)"
    and "time_step_latest s = int l" and "l < n"
    and "distinct cs" and "set cs \<subseteq> int ` {0..<k}"
    and "\<And>c. int c \<in> set cs \<Longrightarrow> \<not> committed (time_domain_buffer s) c l"
  shows "\<exists>X B. fold_res commit_latest cs s = Inr (s\<lparr>source_set_input := X, time_domain_buffer := B\<rparr>) \<and>
     matrix_ok k n X \<and> buffers_ok k n B \<and> same_events (time_domain_buffer s) B \<and>
     (\<forall>d < k. \<forall>j < n. X ! d ! j = (int d \<in> set cs \<and> j = l \<or> source_set_input s ! d ! j)) \<and>
     (\<forall>j < n. \<forall>d. committed B d j = (j = l \<and> int d \<in> set cs \<or> committed (time_domain_buffer s) d j))"
  using assms
proof (induction cs arbitrary: s)
  case Nil
  then show ?case
    by (intro exI [of _ "source_set_input s"] exI [of _ "time_domain_buffer s"])
      (simp add: same_events_def)
next
  case (Cons ci cs)
  from Cons.prems(6) obtain c where c: "ci = int c" "c < k" by auto
  from commit_latest_ok [OF Cons.prems(1-4) c(2)] Cons.prems(7) c(1)
  obtain X B where XB: "commit_latest ci s = Inr (s\<lparr>source_set_input := X, time_domain_buffer := B\<rparr>)"
     "matrix_ok k n X" "buffers_ok k n B" "same_events (time_domain_buffer s) B"
     "\<forall>d < k. \<forall>j < n. X ! d ! j = (d = c \<and> j = l \<or> source_set_input s ! d ! j)"
     "\<forall>j < n. \<forall>d. committed B d j = (j = l \<and> d = c \<or> committed (time_domain_buffer s) d j)"
    by auto
  let ?s = "s\<lparr>source_set_input := X, time_domain_buffer := B\<rparr>"
  have "\<not> committed B d l" if "int d \<in> set cs" for d
    using that XB(6) Cons.prems(4,5,7) c by auto
  with Cons.IH [of ?s] XB(2,3) Cons.prems(3-6)
  obtain Y C where YC: "fold_res commit_latest cs ?s = Inr (?s\<lparr>source_set_input := Y, time_domain_buffer := C\<rparr>)"
     "matrix_ok k n Y" "buffers_ok k n C" "same_events B C"
     "\<forall>d < k. \<forall>j < n. Y ! d ! j = (int d \<in> set cs \<and> j = l \<or> X ! d ! j)"
     "\<forall>j < n. \<forall>d. committed C d j = (j = l \<and> int d \<in> set cs \<or> committed B d j)"
    by auto
  have "same_events (time_domain_buffer s) C"
    using same_events_trans [OF XB(4) YC(4)] XB(3) Cons.prems(1) by (simp add: buffers_ok_def)
  with XB YC c(1) show ?case
    by (intro exI [of _ Y] exI [of _ C]) auto
qed

section \<open>Running the next event of the queue\<close>

lemma shape_step_buffers: "shape s \<Longrightarrow> length (time_step_buffer (time_domain_buffer s)) = slots s"
  by (simp add: shape_def buffers_ok_def)

lemma set_step_ok:
  assumes "buffers_ok k n b" and "l < n"
    and "length (source_buffer_list t) = k"
  shows "buffers_ok k n (b\<lparr>time_step_buffer := (time_step_buffer b)[l := t]\<rparr>)"
  using assms set_update_subset_insert [of "time_step_buffer b" l t]
  by (auto simp: buffers_ok_def steps_ok_def)

lemma set_step_committed:
  assumes "buffers_ok k n b" and "l < n" and "j < n"
  shows "committed (b\<lparr>time_step_buffer := (time_step_buffer b)[l := t]\<rparr>) d j =
     (if j = l then scb_committed (source_buffer_list t ! d) else committed b d j)"
  using assms by (simp add: committed_def buffers_ok_def nth_list_update)

definition committed_by_event :: "ScheduledEvent \<Rightarrow> nat \<Rightarrow> bool" where
  "committed_by_event m c \<longleftrightarrow> ev_event_type m \<noteq> DATA \<or> int c \<in> set (ev_invalid_sources m)"

text \<open>The locks an event sets at once: of its invalid sources, or of all sources.\<close>

definition event_commits :: "nat \<Rightarrow> ScheduledEvent \<Rightarrow> int list" where
  "event_commits k m = (if ev_event_type m = DATA then ev_invalid_sources m else map int [0..<k])"

lemma runTaskFlowFromQueue_prefix:
  assumes sh: "shape s" and w: "window s r" and r: "r < slots s" and lk: "locks s"
    and q: "queued_messages s = m # q"
  defines "l \<equiv> nat ((time_step_latest s + 1) mod int (slots s))"
  shows "\<exists>X B. runTaskFlowFromQueue s = fold_res commit_latest (event_commits (sources s) m)
       (s\<lparr>queued_messages := q, time_step_latest := int l,
       running_taskflows := (running_taskflows s)[l := True],
       running_timestamps := (running_timestamps s)[l := ev_timestamp m],
       source_set_input := X, time_domain_buffer := B,
       latest_running_ts := (if ev_event_type m = DATA
          then wft_notifyAll (ev_timestamp m) (latest_running_ts s) else latest_running_ts s)\<rparr>) \<and>
     l < slots s \<and> matrix_ok (sources s) (slots s) X \<and> buffers_ok (sources s) (slots s) B \<and>
     (\<forall>d < sources s. \<forall>j < slots s. X ! d ! j = (j \<noteq> l \<and> source_set_input s ! d ! j)) \<and>
     (\<forall>j < slots s. \<forall>d < sources s. committed B d j = (j \<noteq> l \<and> committed (time_domain_buffer s) d j)) \<and>
     (\<forall>j < slots s. j \<noteq> l \<longrightarrow>
        current_message (time_step_buffer B ! j) =
          current_message (time_step_buffer (time_domain_buffer s) ! j)) \<and>
     current_ts (time_step_buffer B ! l) = ev_timestamp m \<and>
     current_message (time_step_buffer B ! l) = ev_event_type m"
proof -
  let ?k = "sources s" and ?n = "slots s" and ?b = "time_domain_buffer s"
  from window_take [OF sh w r] have l: "l < ?n" and free: "\<not> running_taskflows s ! l"
    by (auto simp: l_def)
  from sh have n: "0 < ?n" by (simp add: shape_def)
  then have li: "int l = (time_step_latest s + 1) mod int ?n" by (simp add: l_def)
  let ?s1 = "s\<lparr>queued_messages := q, time_step_latest := int l\<rparr>"
  have s1: "next_time_step (s\<lparr>queued_messages := q\<rparr>) = Inr ?s1"
    using n by (simp add: next_time_step_def li)
  have s2: "assert_latest_free ?s1 = Inr ?s1"
    using free l sh by (simp add: assert_latest_free_def raw_get_int shape_def)
  have "\<exists>X. takeTaskflow (int l) (ev_timestamp m) ?s1 = Inr (?s1\<lparr>running_taskflows := (running_taskflows s)[l := True],
       running_timestamps := (running_timestamps s)[l := ev_timestamp m], source_set_input := X\<rparr>) \<and>
     matrix_ok ?k ?n X \<and>
     (\<forall>d < ?k. \<forall>j < ?n. X ! d ! j = (j \<noteq> l \<and> source_set_input s ! d ! j))"
    using takeTaskflow_ok [of ?s1 ?n l "ev_timestamp m"] sh l by (simp add: shape_def)
  then obtain X where X: "takeTaskflow (int l) (ev_timestamp m) ?s1 = Inr (?s1\<lparr>running_taskflows := (running_taskflows s)[l := True],
       running_timestamps := (running_timestamps s)[l := ev_timestamp m], source_set_input := X\<rparr>)"
     "matrix_ok ?k ?n X"
     "\<forall>d < ?k. \<forall>j < ?n. X ! d ! j = (j \<noteq> l \<and> source_set_input s ! d ! j)"
    by blast
  let ?s3 = "?s1\<lparr>running_taskflows := (running_taskflows s)[l := True],
       running_timestamps := (running_timestamps s)[l := ev_timestamp m], source_set_input := X\<rparr>"
  let ?ev = "\<lambda>t. if ev_event_type m = PARAMETER_CHANGE
                 then setEventPattern (ev_timestamp m) (ev_event_type m)
                        (ev_changed_pattern_instance_id m) t
                 else setEvent (ev_timestamp m) (ev_event_type m) t"
  let ?t = "?ev (time_step_buffer ?b ! l)"
  let ?b4 = "?b\<lparr>time_step_buffer := (time_step_buffer ?b)[l := ?t]\<rparr>"
  let ?s4 = "?s3\<lparr>time_domain_buffer := ?b4\<rparr>"
  have len: "l < length (time_step_buffer ?b)" using l sh by (simp add: shape_step_buffers)
  have s4: "sch_step (int l) (\<lambda>t. Inr (?ev t)) ?s3 = Inr ?s4"
    using len by (simp add: sch_step_total)
  have src: "source_buffer_list ?t = source_buffer_list (time_step_buffer ?b ! l)"
    by (simp add: setEvent_def setEventPattern_def)
  from sh have b: "buffers_ok ?k ?n ?b" by (simp add: shape_def)
  have "length (source_buffer_list (time_step_buffer ?b ! l)) = ?k"
    using b l by (simp add: buffers_ok_def steps_okD)
  then have b4: "buffers_ok ?k ?n ?b4" using set_step_ok [OF b l, of ?t] src by simp
  have "committed ?b4 d j = committed ?b d j" if "j < ?n" for d j
    using set_step_committed [OF b l that, of ?t d] src by (auto simp: committed_def)
  moreover have "\<not> committed ?b d l" if "d < ?k" for d
    using lk free l that by (auto simp: locks_def)
  ultimately have c4: "committed ?b4 d j = (j \<noteq> l \<and> committed ?b d j)" if "j < ?n" "d < ?k" for d j
    using that by auto
  have ev4: "current_message (time_step_buffer ?b4 ! l) = ev_event_type m"
      "current_ts (time_step_buffer ?b4 ! l) = ev_timestamp m"
    using len by (simp_all add: setEvent_def setEventPattern_def)
  have k4: "getCountSources ?b4 = ?k" using b4 by (simp add: buffers_ok_def)
  have "runTaskFlowFromQueue s = fold_res commit_latest (event_commits ?k m)
      (?s4\<lparr>latest_running_ts := (if ev_event_type m = DATA
          then wft_notifyAll (ev_timestamp m) (latest_running_ts s) else latest_running_ts s)\<rparr>)"
    using s1 s2 X(1) s4 k4 by (simp add: runTaskFlowFromQueue_def q event_commits_def)
  then show ?thesis
    using l X(2,3) b4 c4 ev4 by (intro exI [of _ X] exI [of _ ?b4]) simp
qed

lemma runTaskFlowFromQueue_ok:
  assumes sh: "shape s" and w: "window s r" and r: "r < slots s" and lk: "locks s"
    and q: "queued_messages s = m # q" and m: "message_ok (sources s) m"
  defines "l \<equiv> nat ((time_step_latest s + 1) mod int (slots s))"
  shows "\<exists>X B. runTaskFlowFromQueue s = Inr (s\<lparr>queued_messages := q, time_step_latest := int l,
       running_taskflows := (running_taskflows s)[l := True],
       running_timestamps := (running_timestamps s)[l := ev_timestamp m],
       source_set_input := X, time_domain_buffer := B,
       latest_running_ts := (if ev_event_type m = DATA
          then wft_notifyAll (ev_timestamp m) (latest_running_ts s) else latest_running_ts s)\<rparr>) \<and>
     matrix_ok (sources s) (slots s) X \<and> buffers_ok (sources s) (slots s) B \<and>
     (\<forall>c < sources s. \<forall>j < slots s. X ! c ! j =
        (if j = l then committed_by_event m c else source_set_input s ! c ! j)) \<and>
     (\<forall>j < slots s. \<forall>c < sources s. committed B c j =
        (if j = l then committed_by_event m c else committed (time_domain_buffer s) c j)) \<and>
     (\<forall>j < slots s. j \<noteq> l \<longrightarrow>
        current_message (time_step_buffer B ! j) =
          current_message (time_step_buffer (time_domain_buffer s) ! j)) \<and>
     current_ts (time_step_buffer B ! l) = ev_timestamp m \<and>
     current_message (time_step_buffer B ! l) = ev_event_type m"
proof -
  let ?k = "sources s" and ?n = "slots s" and ?cs = "event_commits (sources s) m"
  from runTaskFlowFromQueue_prefix [OF sh w r lk q, folded l_def] obtain X b4 where
    pre: "runTaskFlowFromQueue s = fold_res commit_latest ?cs
       (s\<lparr>queued_messages := q, time_step_latest := int l,
       running_taskflows := (running_taskflows s)[l := True],
       running_timestamps := (running_timestamps s)[l := ev_timestamp m],
       source_set_input := X, time_domain_buffer := b4,
       latest_running_ts := (if ev_event_type m = DATA
          then wft_notifyAll (ev_timestamp m) (latest_running_ts s) else latest_running_ts s)\<rparr>)"
      (is "_ = fold_res _ _ ?s5")
    and l: "l < ?n" and X: "matrix_ok ?k ?n X" and b4: "buffers_ok ?k ?n b4"
    and XX: "\<forall>d < ?k. \<forall>j < ?n. X ! d ! j = (j \<noteq> l \<and> source_set_input s ! d ! j)"
    and c4: "\<forall>j < ?n. \<forall>d < ?k. committed b4 d j = (j \<noteq> l \<and> committed (time_domain_buffer s) d j)"
    and msg: "\<forall>j < ?n. j \<noteq> l \<longrightarrow> current_message (time_step_buffer b4 ! j) =
          current_message (time_step_buffer (time_domain_buffer s) ! j)"
      "current_ts (time_step_buffer b4 ! l) = ev_timestamp m"
      "current_message (time_step_buffer b4 ! l) = ev_event_type m"
    by blast
  have cs: "distinct ?cs" "set ?cs \<subseteq> int ` {0..<?k}"
    using m by (auto simp: message_ok_def distinct_map inj_on_def event_commits_def)
  have "\<not> committed b4 c l" if "int c \<in> set ?cs" for c
    using that cs(2) c4 l by fastforce
  then have "\<exists>Y B. fold_res commit_latest ?cs ?s5 = Inr (?s5\<lparr>source_set_input := Y, time_domain_buffer := B\<rparr>) \<and>
     matrix_ok ?k ?n Y \<and> buffers_ok ?k ?n B \<and> same_events b4 B \<and>
     (\<forall>d < ?k. \<forall>j < ?n. Y ! d ! j = (int d \<in> set ?cs \<and> j = l \<or> X ! d ! j)) \<and>
     (\<forall>j < ?n. \<forall>d. committed B d j = (j = l \<and> int d \<in> set ?cs \<or> committed b4 d j))"
    using commit_fold [of ?k ?n ?s5 l ?cs] b4 X l cs by simp
  then obtain Y B where YB: "fold_res commit_latest ?cs ?s5 = Inr (?s5\<lparr>source_set_input := Y, time_domain_buffer := B\<rparr>)"
     "matrix_ok ?k ?n Y" "buffers_ok ?k ?n B" "same_events b4 B"
     "\<forall>d < ?k. \<forall>j < ?n. Y ! d ! j = (int d \<in> set ?cs \<and> j = l \<or> X ! d ! j)"
     "\<forall>j < ?n. \<forall>d. committed B d j = (j = l \<and> int d \<in> set ?cs \<or> committed b4 d j)"
    by blast
  have cs_iff: "int c \<in> set ?cs \<longleftrightarrow> committed_by_event m c" if "c < ?k" for c
    using that by (auto simp: committed_by_event_def event_commits_def)
  have len4: "length (time_step_buffer b4) = ?n" using b4 by (simp add: buffers_ok_def)
  then have "current_message (time_step_buffer B ! l) = ev_event_type m"
      "current_ts (time_step_buffer B ! l) = ev_timestamp m"
    using YB(4) msg l by (auto simp: same_events_def)
  moreover have "current_message (time_step_buffer B ! j) =
      current_message (time_step_buffer (time_domain_buffer s) ! j)"
    if "j < ?n" "j \<noteq> l" for j
    using YB(4) that msg(1) len4 by (auto simp: same_events_def)
  ultimately show ?thesis
    using pre YB XX c4 cs_iff by (intro exI [of _ Y] exI [of _ B]) auto
qed

text \<open>A source that a message names twice is committed twice, which throws.\<close>

lemma commit_latest_again:
  assumes "buffers_ok k n (time_domain_buffer s)" and "matrix_ok k n (source_set_input s)"
    and "time_step_latest s = int l" and "l < n" and "c < k"
    and "committed (time_domain_buffer s) c l"
  shows "commit_latest (int c) s = Inl PromiseSatisfied"
proof -
  from set_source_input_True [OF assms(2,5,4)] obtain X where
    X: "set_source_input (int c) (int l) True s = Inr (s\<lparr>source_set_input := X\<rparr>)" by blast
  from assms(1,4) have len: "l < length (time_step_buffer (time_domain_buffer s))"
    "length (source_buffer_list (time_step_buffer (time_domain_buffer s) ! l)) = k"
    by (auto simp: buffers_ok_def steps_okD)
  with assms(5,6) have "update_source (int c) (scb_commit True)
      (time_step_buffer (time_domain_buffer s) ! l) = Inl PromiseSatisfied"
    by (simp add: update_source_def getSourceComponentBuffer_def raw_get_int committed_def
        scb_commit_twice)
  with len X assms(3) show ?thesis
    by (simp add: commit_latest_def sch_step_def update_step_def getTimeStepBuffer_def raw_get_int)
qed

lemma commit_twice_fails:
  assumes "buffers_ok k n (time_domain_buffer s)" and "matrix_ok k n (source_set_input s)"
    and "time_step_latest s = int l" and "l < n" and "c < k"
    and "\<not> committed (time_domain_buffer s) c l"
  shows "fold_res commit_latest [int c, int c] s = Inl PromiseSatisfied"
proof -
  from commit_latest_ok [OF assms] obtain X B where
    XB: "commit_latest (int c) s = Inr (s\<lparr>source_set_input := X, time_domain_buffer := B\<rparr>)"
      "matrix_ok k n X" "buffers_ok k n B"
      "\<forall>j < n. \<forall>d. committed B d j = (j = l \<and> d = c \<or> committed (time_domain_buffer s) d j)"
    by blast
  have "commit_latest (int c) (s\<lparr>source_set_input := X, time_domain_buffer := B\<rparr>) = Inl PromiseSatisfied"
    by (rule commit_latest_again [of k n _ l]) (use XB assms in simp_all)
  with XB(1) show ?thesis by simp
qed

lemma run_duplicate_fails:
  assumes sh: "shape s" and w: "window s r" and r: "r < slots s" and lk: "locks s"
    and q: "queued_messages s = m # q" and m: "ev_event_type m = DATA"
      "ev_invalid_sources m = [int c, int c]" "c < sources s"
  shows "runTaskFlowFromQueue s = Inl PromiseSatisfied"
proof -
  let ?k = "sources s" and ?n = "slots s"
  define l where "l = nat ((time_step_latest s + 1) mod int (slots s))"
  from runTaskFlowFromQueue_prefix [OF sh w r lk q, folded l_def] obtain X B where
    pre: "runTaskFlowFromQueue s = fold_res commit_latest (event_commits ?k m)
       (s\<lparr>queued_messages := q, time_step_latest := int l,
       running_taskflows := (running_taskflows s)[l := True],
       running_timestamps := (running_timestamps s)[l := ev_timestamp m],
       source_set_input := X, time_domain_buffer := B,
       latest_running_ts := (if ev_event_type m = DATA
          then wft_notifyAll (ev_timestamp m) (latest_running_ts s) else latest_running_ts s)\<rparr>)"
      (is "_ = fold_res _ _ ?s5")
    and l: "l < ?n" and X: "matrix_ok ?k ?n X" and B: "buffers_ok ?k ?n B"
    and cB: "\<forall>j < ?n. \<forall>d < ?k. committed B d j = (j \<noteq> l \<and> committed (time_domain_buffer s) d j)"
    by blast
  have "fold_res commit_latest [int c, int c] ?s5 = Inl PromiseSatisfied"
    by (rule commit_twice_fails [of ?k ?n _ l c]) (use X B l cB m(3) in simp_all)
  with pre m show ?thesis by (simp add: event_commits_def)
qed

end
