(* ===== verification/SchedulerInv.thy ===== *)
theory SchedulerInv
  imports SchedulerSlots
begin

text \<open>
  The invariant of the scheduler and its preservation by every public operation, together with the
  fact that the operation returns normally: no assertion fails, no vector is accessed out of range
  and no source lock is set twice.
\<close>

section \<open>The invariant\<close>

definition idle_times :: "Scheduler \<Rightarrow> bool" where
  "idle_times s \<longleftrightarrow> (\<forall>i < slots s. \<not> running_taskflows s ! i \<longrightarrow> running_timestamps s ! i = kTimestampZero)"

lemma idle_take:
  assumes "\<forall>i < n. \<not> xs ! i \<longrightarrow> ys ! i = z" and "length xs = n"
  shows "\<forall>i < n. \<not> xs[l := True] ! i \<longrightarrow> ys[l := t] ! i = z"
proof (intro allI impI)
  fix i
  assume "i < n" "\<not> xs[l := True] ! i"
  with assms show "ys[l := t] ! i = z" by (cases "i = l") auto
qed

text \<open>What holds whenever \<open>r\<close> slots run, also between taking the semaphore and taking the slot.\<close>

definition core :: "Scheduler \<Rightarrow> nat \<Rightarrow> bool" where
  "core s r \<longleftrightarrow> shape s \<and> locks s \<and> window s r \<and> r \<le> slots s \<and>
     (\<forall>m \<in> set (queued_messages s). message_ok (sources s) m) \<and> clock_ok (time_domain_clock s)"

definition sem_free :: "Scheduler \<Rightarrow> nat \<Rightarrow> bool" where
  "sem_free s f \<longleftrightarrow> free_taskflows_semaphore s = \<lparr>sem_max_count = int (slots s), sem_count = int f\<rparr>"

definition busy :: "Scheduler \<Rightarrow> nat" where
  "busy s = slots s - nat (sem_count (free_taskflows_semaphore s))"

definition sched_inv :: "Scheduler \<Rightarrow> bool" where
  "sched_inv s \<longleftrightarrow> (\<exists>r. core s r \<and> idle_times s \<and> sem_free s (slots s - r) \<and>
     (queued_messages s \<noteq> [] \<longrightarrow> r = slots s))"

text \<open>What scheduling and running events leave alone.\<close>

definition same_setup :: "Scheduler \<Rightarrow> Scheduler \<Rightarrow> bool" where
  "same_setup s s' \<longleftrightarrow> config s' = config s \<and> slots s' = slots s \<and> sources s' = sources s \<and>
     time_domain_clock s' = time_domain_clock s \<and>
     latest_scheduled_component_timestamp s' = latest_scheduled_component_timestamp s \<and>
     stop_scheduled s' = stop_scheduled s"

lemma same_setup_refl [simp]: "same_setup s s"
  by (simp add: same_setup_def)

lemma same_setup_trans: "same_setup a b \<Longrightarrow> same_setup b c \<Longrightarrow> same_setup a c"
  by (simp add: same_setup_def)

lemma busy_eq: "core s r \<Longrightarrow> sem_free s (slots s - r) \<Longrightarrow> busy s = r"
  by (simp add: busy_def sem_free_def core_def nat_diff_distrib)

lemma sched_inv_busy:
  "sched_inv s \<longleftrightarrow> core s (busy s) \<and> idle_times s \<and> sem_free s (slots s - busy s) \<and>
     (queued_messages s \<noteq> [] \<longrightarrow> busy s = slots s)"
  using busy_eq by (auto simp: sched_inv_def)

text \<open>The invariant does not read the client's flags and bookkeeping.\<close>

lemma core_cong:
  assumes "slots s' = slots s" "running_taskflows s' = running_taskflows s"
    "running_timestamps s' = running_timestamps s" "time_domain_buffer s' = time_domain_buffer s"
    "source_set_input s' = source_set_input s" "time_step_latest s' = time_step_latest s"
    "queued_messages s' = queued_messages s"
    "length (latest_scheduled_component_timestamp s') = length (latest_scheduled_component_timestamp s)"
    "clock_ok (time_domain_clock s') = clock_ok (time_domain_clock s)"
  shows "core s' r = core s r"
  using assms by (simp add: core_def shape_def locks_def window_def)

lemma sched_inv_cong:
  assumes "slots s' = slots s" "running_taskflows s' = running_taskflows s"
    "running_timestamps s' = running_timestamps s" "time_domain_buffer s' = time_domain_buffer s"
    "source_set_input s' = source_set_input s" "time_step_latest s' = time_step_latest s"
    "queued_messages s' = queued_messages s"
    "length (latest_scheduled_component_timestamp s') = length (latest_scheduled_component_timestamp s)"
    "clock_ok (time_domain_clock s') = clock_ok (time_domain_clock s)"
    "free_taskflows_semaphore s' = free_taskflows_semaphore s"
  shows "sched_inv s' = sched_inv s"
  using core_cong [OF assms(1-9)] assms by (simp add: sched_inv_def sem_free_def idle_times_def)

section \<open>Running the queue\<close>

lemma run_core:
  assumes c: "core s r" and r: "r < slots s" and q: "queued_messages s = m # q"
  defines "l \<equiv> nat ((time_step_latest s + 1) mod int (slots s))"
  shows "\<exists>s'. runTaskFlowFromQueue s = Inr s' \<and> core s' (Suc r) \<and> queued_messages s' = q \<and>
     free_taskflows_semaphore s' = free_taskflows_semaphore s \<and> same_setup s s' \<and> l < slots s \<and>
     time_step_latest s' = int l \<and>
     running_taskflows s' = (running_taskflows s)[l := True] \<and>
     running_timestamps s' = (running_timestamps s)[l := ev_timestamp m] \<and>
     (\<forall>j < slots s. j \<noteq> l \<longrightarrow> current_message (time_step_buffer (time_domain_buffer s') ! j) =
        current_message (time_step_buffer (time_domain_buffer s) ! j)) \<and>
     current_ts (time_step_buffer (time_domain_buffer s') ! l) = ev_timestamp m \<and>
     current_message (time_step_buffer (time_domain_buffer s') ! l) = ev_event_type m \<and>
     latest_running_ts s' = (if ev_event_type m = DATA
        then wft_notifyAll (ev_timestamp m) (latest_running_ts s) else latest_running_ts s) \<and>
     (\<forall>j < slots s. \<forall>d < sources s. committed (time_domain_buffer s') d j =
        (if j = l then committed_by_event m d else committed (time_domain_buffer s) d j)) \<and>
     (\<forall>d < sources s. \<forall>j < slots s. source_set_input s' ! d ! j =
        (if j = l then committed_by_event m d else source_set_input s ! d ! j))"
proof -
  let ?k = "sources s" and ?n = "slots s"
  from c q have sh: "shape s" and w: "window s r" and lk: "locks s" and m: "message_ok ?k m"
    by (auto simp: core_def)
  from window_take [OF sh w r] have l: "l < ?n"
    and w': "window (s\<lparr>time_step_latest := (time_step_latest s + 1) mod int ?n,
       running_taskflows := (running_taskflows s)[l := True]\<rparr>) (Suc r)"
    by (auto simp: l_def)
  have li: "int l = (time_step_latest s + 1) mod int ?n" using sh by (simp add: l_def shape_def)
  from runTaskFlowFromQueue_ok [OF sh w r lk q m, folded l_def] obtain X B where XB:
    "runTaskFlowFromQueue s = Inr (s\<lparr>queued_messages := q, time_step_latest := int l,
       running_taskflows := (running_taskflows s)[l := True],
       running_timestamps := (running_timestamps s)[l := ev_timestamp m],
       source_set_input := X, time_domain_buffer := B,
       latest_running_ts := (if ev_event_type m = DATA
          then wft_notifyAll (ev_timestamp m) (latest_running_ts s) else latest_running_ts s)\<rparr>)"
    (is "_ = Inr ?s'")
    "matrix_ok ?k ?n X" "buffers_ok ?k ?n B"
    "\<forall>c < ?k. \<forall>j < ?n. X ! c ! j = (if j = l then committed_by_event m c else source_set_input s ! c ! j)"
    "\<forall>j < ?n. \<forall>c < ?k. committed B c j =
        (if j = l then committed_by_event m c else committed (time_domain_buffer s) c j)"
    "\<forall>j < ?n. j \<noteq> l \<longrightarrow> current_message (time_step_buffer B ! j) =
          current_message (time_step_buffer (time_domain_buffer s) ! j)"
    "current_ts (time_step_buffer B ! l) = ev_timestamp m"
    "current_message (time_step_buffer B ! l) = ev_event_type m"
    by blast
  have kB: "getCountSources B = ?k" using XB(3) by (simp add: buffers_ok_def)
  have sh': "shape ?s'" using sh l XB(2,3) kB by (simp add: shape_def)
  have lk': "locks ?s'"
    unfolding locks_def
  proof (intro allI impI)
    fix i d
    assume i: "i < slots ?s'" "d < sources ?s'" and com: "committed (time_domain_buffer ?s') d i"
    from i kB have i': "i < ?n" "d < ?k" by simp_all
    show "running_taskflows ?s' ! i \<and> source_set_input ?s' ! d ! i"
    proof (cases "i = l")
      case True
      with com XB(4,5) i' sh l show ?thesis by (auto simp: shape_def)
    next
      case False
      with com XB(5) i' have "committed (time_domain_buffer s) d i" by auto
      with lk i' have "running_taskflows s ! i" "source_set_input s ! d ! i" by (auto simp: locks_def)
      with False XB(4) i' show ?thesis by simp
    qed
  qed
  have w'': "window ?s' (Suc r)" using w' li by (simp add: window_def)
  have "core ?s' (Suc r)"
    using c r q sh' lk' w'' kB by (simp add: core_def)
  moreover have "same_setup s ?s'" using kB by (simp add: same_setup_def)
  ultimately show ?thesis
    using XB l by (intro exI [of _ ?s'] conjI) simp_all
qed

text \<open>A message appended to the queue of a state that satisfies the invariant.\<close>

lemma run_if_free_ok:
  assumes inv: "sched_inv s" and m: "message_ok (sources s) m"
  shows "\<exists>s'. run_if_free (s\<lparr>queued_messages := queued_messages s @ [m]\<rparr>) = Inr s' \<and> sched_inv s' \<and>
     same_setup s s' \<and>
     (if busy s < slots s
      then busy s' = Suc (busy s) \<and> queued_messages s' = [] \<and>
        time_step_latest s' = (time_step_latest s + 1) mod int (slots s) \<and>
        running_timestamps s' =
          (running_timestamps s)[nat ((time_step_latest s + 1) mod int (slots s)) := ev_timestamp m] \<and>
        latest_running_ts s' = (if ev_event_type m = DATA
          then wft_notifyAll (ev_timestamp m) (latest_running_ts s) else latest_running_ts s) \<and>
        current_message (time_step_buffer (time_domain_buffer s') ! nat (time_step_latest s')) = ev_event_type m \<and>
        (\<forall>j < slots s. int j \<noteq> time_step_latest s' \<longrightarrow>
          current_message (time_step_buffer (time_domain_buffer s') ! j) =
          current_message (time_step_buffer (time_domain_buffer s) ! j))
      else s' = s\<lparr>queued_messages := queued_messages s @ [m]\<rparr>)"
proof -
  let ?q = "s\<lparr>queued_messages := queued_messages s @ [m]\<rparr>"
  from inv have c: "core s (busy s)" and f: "sem_free s (slots s - busy s)" and it: "idle_times s"
    and qe: "queued_messages s \<noteq> [] \<longrightarrow> busy s = slots s"
    by (simp_all add: sched_inv_busy)
  have cq: "core ?q (busy s)"
    using c m by (simp add: core_def shape_def locks_def window_def)
  show ?thesis
  proof (cases "busy s < slots s")
    case True
    with qe have q: "queued_messages s = []" by auto
    let ?f = "slots s - busy s"
    let ?q1 = "?q\<lparr>free_taskflows_semaphore := \<lparr>sem_max_count = int (slots s), sem_count = int ?f - 1\<rparr>\<rparr>"
    have "core ?q1 (busy s)" using cq by (subst core_cong [of _ ?q]) simp_all
    from run_core [OF this, of m "[]"] True q
    obtain s' where s': "runTaskFlowFromQueue ?q1 = Inr s'" "core s' (Suc (busy s))"
      "queued_messages s' = []" "free_taskflows_semaphore s' = free_taskflows_semaphore ?q1"
      "same_setup ?q1 s'" "time_step_latest s' = (time_step_latest s + 1) mod int (slots s)"
      "running_taskflows s' =
        (running_taskflows s)[nat ((time_step_latest s + 1) mod int (slots s)) := True]"
      "running_timestamps s' =
        (running_timestamps s)[nat ((time_step_latest s + 1) mod int (slots s)) := ev_timestamp m]"
      "latest_running_ts s' = (if ev_event_type m = DATA
          then wft_notifyAll (ev_timestamp m) (latest_running_ts s) else latest_running_ts s)"
      "current_message (time_step_buffer (time_domain_buffer s') !
        nat ((time_step_latest s + 1) mod int (slots s))) = ev_event_type m"
      "\<forall>j < slots s. j \<noteq> nat ((time_step_latest s + 1) mod int (slots s)) \<longrightarrow>
        current_message (time_step_buffer (time_domain_buffer s') ! j) =
        current_message (time_step_buffer (time_domain_buffer s) ! j)"
      by (auto simp: shape_def core_def)
    have run: "run_if_free ?q = Inr s'"
      using f True s'(1) by (simp add: run_if_free_def try_wait_free_def sem_free_def Let_def)
    have sl: "slots s' = slots s" using s'(5) by (simp add: same_setup_def)
    have sf: "sem_free s' (slots s' - Suc (busy s))"
      using s'(4) True sl by (simp add: sem_free_def of_nat_diff)
    moreover have "idle_times s'"
      using idle_take [of "slots s" "running_taskflows s"] it c sl s'(7,8)
      by (simp add: idle_times_def core_def shape_def)
    ultimately have "sched_inv s'" using s'(2,3) by (auto simp: sched_inv_def)
    moreover from busy_eq [OF s'(2) sf] have "busy s' = Suc (busy s)" .
    moreover have "same_setup s s'" using s'(5) by (simp add: same_setup_def)
    moreover have "\<forall>j < slots s. int j \<noteq> time_step_latest s' \<longrightarrow>
        current_message (time_step_buffer (time_domain_buffer s') ! j) =
        current_message (time_step_buffer (time_domain_buffer s) ! j)" using s'(6,11) by force
    ultimately show ?thesis using run s'(3,6,8-10) True by auto
  next
    case False
    with c have full: "busy s = slots s" by (auto simp: core_def)
    with f have "run_if_free ?q = Inr ?q"
      by (simp add: run_if_free_def try_wait_free_def sem_free_def Let_def)
    moreover have "sched_inv ?q"
      using cq f full it by (auto simp: sched_inv_def sem_free_def idle_times_def)
    ultimately show ?thesis using False by (simp add: same_setup_def)
  qed
qed

lemma message_ok_Nil: "ev_invalid_sources m = [] \<Longrightarrow> message_ok k m"
  by (simp add: message_ok_def)

lemma message_ok_single: "ev_invalid_sources m = [int c] \<Longrightarrow> c < k \<Longrightarrow> message_ok k m"
  by (auto simp: message_ok_def)

lemma scheduleEvent_inv:
  "sched_inv s \<Longrightarrow> \<exists>s'. scheduleEvent ev ts s = Inr s' \<and> sched_inv s' \<and> same_setup s s'"
  using run_if_free_ok [of s "\<lparr>ev_timestamp = ts, ev_event_type = ev, ev_invalid_sources = [],
         ev_changed_pattern_instance_id = []\<rparr>"]
  by (auto simp: scheduleEvent_def message_ok_Nil)

lemma scheduleParameterChangedEvent_inv:
  "sched_inv s \<Longrightarrow> \<exists>s'. parameterChanged i s = Inr s' \<and> sched_inv s' \<and> same_setup s s'"
  using run_if_free_ok [of s "\<lparr>ev_timestamp = kTimestampZero, ev_event_type = PARAMETER_CHANGE,
         ev_invalid_sources = [], ev_changed_pattern_instance_id = i\<rparr>"]
  by (auto simp: parameterChanged_def scheduleParameterChangedEvent_def message_ok_Nil)

lemma schedulePaddingEvent_inv:
  assumes "sched_inv s" and "c < sources s"
  shows "\<exists>s'. schedulePaddingEvent ev ts (int c) s = Inr s' \<and> sched_inv s' \<and> same_setup s s'"
proof -
  let ?s = "s\<lparr>latest_scheduled_ts := ts\<rparr>"
  let ?m = "\<lparr>ev_timestamp = ts, ev_event_type = ev, ev_invalid_sources = [int c],
         ev_changed_pattern_instance_id = []\<rparr>"
  have "sched_inv ?s" using assms(1) by (subst sched_inv_cong [of _ s]) simp_all
  from run_if_free_ok [OF this, of ?m] message_ok_single [of ?m c "sources s"] assms(2)
  obtain s' where "run_if_free (?s\<lparr>queued_messages := queued_messages s @ [?m]\<rparr>) = Inr s'"
    "sched_inv s'" "same_setup ?s s'"
    by auto
  then show ?thesis by (auto simp: schedulePaddingEvent_def same_setup_def)
qed

lemma scheduleNonDataEvent_inv:
  assumes "sched_inv s"
  shows "\<exists>s'. scheduleNonDataEvent ev s = Inr s' \<and> sched_inv s'"
proof -
  from scheduleEvent_inv [OF assms, of ev kTimestampZero] obtain s' where
    s': "scheduleEvent ev kTimestampZero s = Inr s'" "sched_inv s'" by blast
  then have "sched_inv (s'\<lparr>stop_scheduled := True\<rparr>)" by (subst sched_inv_cong [of _ s']) simp_all
  with s' show ?thesis by (simp add: scheduleNonDataEvent_def)
qed

section \<open>The end of a time step\<close>

definition oldest_slot :: "Scheduler \<Rightarrow> nat \<Rightarrow> bool" where
  "oldest_slot s i \<longleftrightarrow> i < slots s \<and> 0 < busy s \<and>
     (time_step_latest s - int i) mod int (slots s) = int (busy s) - 1"

lemma oldest_running: "sched_inv s \<Longrightarrow> oldest_slot s i \<Longrightarrow> running_taskflows s ! i"
  by (auto simp: sched_inv_busy oldest_slot_def core_def window_def)

lemma oldest_unique: "oldest_slot s i \<Longrightarrow> oldest_slot s j \<Longrightarrow> i = j"
  using mod_int_unique [of "slots s" i j "time_step_latest s"] by (auto simp: oldest_slot_def)

lemma oldest_exists:
  assumes "sched_inv s" and "0 < busy s"
  shows "\<exists>i. oldest_slot s i"
proof -
  let ?n = "int (slots s)"
  let ?i = "nat ((time_step_latest s - (int (busy s) - 1)) mod ?n)"
  from assms have n: "0 < ?n" and b: "int (busy s) - 1 < ?n"
    by (auto simp: sched_inv_busy core_def shape_def)
  then have i: "int ?i = (time_step_latest s - (int (busy s) - 1)) mod ?n" by simp
  have "(time_step_latest s - int ?i) mod ?n = (time_step_latest s - (time_step_latest s - (int (busy s) - 1))) mod ?n"
    unfolding i by (rule mod_diff_right_eq)
  also have "\<dots> = int (busy s) - 1" using b assms(2) by simp
  finally have "(time_step_latest s - int ?i) mod ?n = int (busy s) - 1" .
  moreover have "?i < slots s" using n by (simp add: nat_less_iff)
  ultimately show ?thesis using assms(2) by (auto simp: oldest_slot_def)
qed

text \<open>Releasing a slot keeps the shape of the state; the locks of the slot are fresh.\<close>

definition release_slot :: "nat \<Rightarrow> Scheduler \<Rightarrow> Scheduler" where
  "release_slot i s = s\<lparr>time_domain_buffer := (time_domain_buffer s)\<lparr>time_step_buffer :=
       (time_step_buffer (time_domain_buffer s))[i := resetNewEvent (time_step_buffer (time_domain_buffer s) ! i)]\<rparr>,
     running_taskflows := (running_taskflows s)[i := False]\<rparr>"

lemma release_slot_ok:
  assumes sh: "shape s" and lk: "locks s" and i: "i < slots s"
  shows "shape (release_slot i s)" and "locks (release_slot i s)"
proof -
  let ?k = "sources s" and ?n = "slots s" and ?b = "time_domain_buffer s"
  let ?t = "resetNewEvent (time_step_buffer ?b ! i)"
  let ?B = "?b\<lparr>time_step_buffer := (time_step_buffer ?b)[i := ?t]\<rparr>"
  have s2: "release_slot i s = s\<lparr>time_domain_buffer := ?B, running_taskflows := (running_taskflows s)[i := False]\<rparr>"
    (is "_ = ?s2") by (simp add: release_slot_def)
  from sh have b: "buffers_ok ?k ?n ?b" by (simp add: shape_def)
  then have len: "i < length (time_step_buffer ?b)" using i by (simp add: buffers_ok_def)
  have "length (source_buffer_list (time_step_buffer ?b ! i)) = ?k"
    using b i by (simp add: buffers_ok_def steps_okD)
  then have lt: "length (source_buffer_list ?t) = ?k" by (simp add: resetNewEvent_def)
  from set_step_ok [OF b i lt] have B: "buffers_ok ?k ?n ?B" .
  have comB: "committed ?B d j = (j \<noteq> i \<and> committed ?b d j)" if "j < ?n" "d < ?k" for d j
  proof -
    have "\<not> scb_committed (source_buffer_list ?t ! d)"
      using lt that(2) by (simp add: resetNewEvent_def)
    then show ?thesis using set_step_committed [OF b i that(1), of ?t d] by auto
  qed
  show "shape (release_slot i s)" unfolding s2 using sh B by (simp add: shape_def)
  show "locks (release_slot i s)"
    unfolding s2 locks_def
  proof (intro allI impI)
    fix j d
    assume "j < slots ?s2" "d < sources ?s2" "committed (time_domain_buffer ?s2) d j"
    then have "j < ?n" "d < ?k" "j \<noteq> i" "committed ?b d j" using comB by auto
    with lk show "running_taskflows ?s2 ! j \<and> source_set_input ?s2 ! d ! j" by (simp add: locks_def)
  qed
qed

lemma freeTimeStep_inv:
  assumes inv: "sched_inv s" and old: "oldest_slot s i"
  shows "\<exists>s'. freeTimeStep (int i) s = Inr s' \<and> sched_inv s' \<and> same_setup s s' \<and>
     (\<forall>j < slots s. j \<noteq> i \<longrightarrow> current_message (time_step_buffer (time_domain_buffer s') ! j) =
        current_message (time_step_buffer (time_domain_buffer s) ! j)) \<and>
     (case queued_messages s of
        [] \<Rightarrow> busy s = Suc (busy s') \<and> queued_messages s' = [] \<and>
          \<not> running_taskflows s' ! i \<and> running_timestamps s' ! i = kTimestampZero \<and>
          current_message (time_step_buffer (time_domain_buffer s') ! i) =
          current_message (time_step_buffer (time_domain_buffer s) ! i)
      | m # q \<Rightarrow> busy s' = busy s \<and> queued_messages s' = q \<and>
          running_taskflows s' ! i \<and> running_timestamps s' ! i = ev_timestamp m \<and>
          current_message (time_step_buffer (time_domain_buffer s') ! i) = ev_event_type m)"
proof -
  let ?k = "sources s" and ?n = "slots s" and ?b = "time_domain_buffer s"
  from inv have c: "core s (busy s)" and f: "sem_free s (?n - busy s)" and it: "idle_times s"
    and qe: "queued_messages s \<noteq> [] \<longrightarrow> busy s = ?n"
    by (simp_all add: sched_inv_busy)
  from c have sh: "shape s" and w: "window s (busy s)" and lk: "locks s" and bn: "busy s \<le> ?n"
    by (simp_all add: core_def)
  from old have i: "i < ?n" and b0: "0 < busy s"
    and dist: "(time_step_latest s - int i) mod int ?n = int (busy s) - 1"
    by (simp_all add: oldest_slot_def)
  from b0 obtain r where r: "busy s = Suc r" by (cases "busy s") auto
  let ?t = "resetNewEvent (time_step_buffer ?b ! i)"
  let ?B = "?b\<lparr>time_step_buffer := (time_step_buffer ?b)[i := ?t]\<rparr>"
  let ?s2 = "s\<lparr>time_domain_buffer := ?B, running_taskflows := (running_taskflows s)[i := False]\<rparr>"
  have len: "i < length (time_step_buffer ?b)" using sh i by (simp add: shape_def buffers_ok_def)
  have kB: "sources ?s2 = ?k" by simp
  note sh2 = release_slot_ok(1) [OF sh lk i, unfolded release_slot_def]
    and lk2 = release_slot_ok(2) [OF sh lk i, unfolded release_slot_def]
  have w2: "window ?s2 r"
    using window_release [OF sh w [unfolded r] i] dist r by (simp add: window_def)
  have pre: "freeTimeStep (int i) s = (if queued_messages s = [] then setTaskflowFree (int i) ?s2
      else runTaskFlowFromQueue ?s2)"
    using sch_step_total [OF len, of resetNewEvent] sh i
    by (simp add: freeTimeStep_def raw_set_int shape_def Let_def)
  have msgB: "current_message (time_step_buffer ?B ! j) = current_message (time_step_buffer ?b ! j)" for j
    using len by (cases "j = i") (simp_all add: resetNewEvent_def)
  show ?thesis
  proof (cases "queued_messages s")
    case Nil
    let ?s3 = "?s2\<lparr>running_timestamps := (running_timestamps s)[i := kTimestampZero],
      free_taskflows_semaphore := sem_notify (free_taskflows_semaphore s)\<rparr>"
    have "setTaskflowFree (int i) ?s2 = Inr ?s3"
      using sh i by (simp add: setTaskflowFree_def shape_def raw_set_int)
    with pre Nil have run: "freeTimeStep (int i) s = Inr ?s3" by simp
    have "core ?s3 r"
      using c sh2 lk2 w2 r bn sh i kB
      by (auto simp: core_def shape_def locks_def window_def)
    moreover have "idle_times ?s3"
      using it sh i by (auto simp: idle_times_def shape_def nth_list_update)
    moreover have sf: "sem_free ?s3 (slots ?s3 - r)"
      using f r bn by (simp add: sem_free_def sem_notify_def of_nat_diff min_def)
    ultimately have "sched_inv ?s3" "busy ?s3 = r"
      using Nil by (auto simp: sched_inv_def intro: busy_eq)
    with run r Nil msgB sh i show ?thesis
      by (intro exI [of _ ?s3]) (simp add: same_setup_def shape_def)
  next
    case (Cons m q)
    with qe have full: "busy s = ?n" by simp
    have c2: "core ?s2 r"
      using c sh2 lk2 w2 r bn kB by (simp add: core_def)
    have l: "nat ((time_step_latest ?s2 + 1) mod int (slots ?s2)) = i"
      using oldest_next [OF i] dist full by simp
    from run_core [OF c2, of m q] r bn Cons l
    obtain s' where s': "runTaskFlowFromQueue ?s2 = Inr s'" "core s' (Suc r)" "queued_messages s' = q"
      "free_taskflows_semaphore s' = free_taskflows_semaphore s" "same_setup ?s2 s'"
      "running_taskflows s' = (running_taskflows s)[i := True]"
      "running_timestamps s' = (running_timestamps s)[i := ev_timestamp m]"
      "\<forall>j < ?n. j \<noteq> i \<longrightarrow> current_message (time_step_buffer (time_domain_buffer s') ! j) =
        current_message (time_step_buffer ?B ! j)"
      "current_message (time_step_buffer (time_domain_buffer s') ! i) = ev_event_type m"
      by auto
    have sl: "slots s' = ?n" using s'(5) by (simp add: same_setup_def)
    have all: "running_taskflows s' ! j" if "j < ?n" for j
      using w full that sh i by (auto simp: s'(6) window_def shape_def nth_list_update)
    have sf: "sem_free s' (slots s' - Suc r)" using f s'(4) sl r by (simp add: sem_free_def)
    have "idle_times s'" using all sl by (simp add: idle_times_def)
    with s'(2) sf full sl r have inv': "sched_inv s'" by (auto simp: sched_inv_def)
    have "busy s' = busy s" using busy_eq [OF s'(2) sf] r by simp
    moreover have "same_setup s s'" using s'(5) kB by (simp add: same_setup_def)
    ultimately show ?thesis
      using pre Cons s'(1,3,7-9) inv' all i sh msgB
      by (intro exI [of _ s']) (simp add: shape_def)
  qed
qed

text \<open>
  \<open>timeStepEnded\<close> looks at the event of the time step only after \<open>freeTimeStep\<close> may have put the
  next event into it.
\<close>

definition ended_event :: "Scheduler \<Rightarrow> nat \<Rightarrow> EventType" where
  "ended_event s i = (case queued_messages s of
     [] \<Rightarrow> current_message (time_step_buffer (time_domain_buffer s) ! i)
   | m # q \<Rightarrow> ev_event_type m)"

lemma event_finished_inv: "sched_inv (event_finished ev s) = sched_inv s"
  by (rule sched_inv_cong) (simp_all add: event_finished_def split: EventType.splits)

lemma event_finished_frame [simp]:
  "slots (event_finished ev s) = slots s" "busy (event_finished ev s) = busy s"
  "queued_messages (event_finished ev s) = queued_messages s"
  "same_setup s (event_finished ev s)"
  by (simp_all add: event_finished_def busy_def same_setup_def split: EventType.splits)

lemma timeStepEnded_inv:
  assumes inv: "sched_inv s" and old: "oldest_slot s i"
  shows "\<exists>s1. freeTimeStep (int i) s = Inr s1 \<and>
     timeStepEnded (int i) s = Inr (event_finished (ended_event s i) s1) \<and>
     sched_inv (event_finished (ended_event s i) s1) \<and>
     busy s1 = (if queued_messages s = [] then busy s - 1 else busy s) \<and>
     queued_messages s1 = tl (queued_messages s) \<and> same_setup s s1"
proof -
  from freeTimeStep_inv [OF inv old] obtain s1 where
    s1: "freeTimeStep (int i) s = Inr s1" "sched_inv s1" "same_setup s s1"
    and cases: "(case queued_messages s of
        [] \<Rightarrow> busy s = Suc (busy s1) \<and> queued_messages s1 = [] \<and>
          \<not> running_taskflows s1 ! i \<and> running_timestamps s1 ! i = kTimestampZero \<and>
          current_message (time_step_buffer (time_domain_buffer s1) ! i) =
          current_message (time_step_buffer (time_domain_buffer s) ! i)
      | m # q \<Rightarrow> busy s1 = busy s \<and> queued_messages s1 = q \<and>
          running_taskflows s1 ! i \<and> running_timestamps s1 ! i = ev_timestamp m \<and>
          current_message (time_step_buffer (time_domain_buffer s1) ! i) = ev_event_type m)"
    by blast
  have "i < slots s1" using old s1(3) by (simp add: oldest_slot_def same_setup_def)
  then have "getTimeStepBuffer (time_domain_buffer s1) (int i) =
      Inr (time_step_buffer (time_domain_buffer s1) ! i)"
    using s1(2) by (simp add: getTimeStepBuffer_def raw_get_int sched_inv_busy core_def
        shape_step_buffers)
  moreover have "current_message (time_step_buffer (time_domain_buffer s1) ! i) = ended_event s i"
    using cases by (auto simp: ended_event_def split: list.splits)
  ultimately have "timeStepEnded (int i) s = Inr (event_finished (ended_event s i) s1)"
    using s1(1) by (simp add: timeStepEnded_def)
  then show ?thesis
    using s1 cases by (auto simp: event_finished_inv split: list.splits)
qed

section \<open>Cancelling\<close>

definition older :: "Scheduler \<Rightarrow> timestamp \<Rightarrow> timestamp \<Rightarrow> bool" where
  "older s min_ts t \<longleftrightarrow> t + max_offset (config s) < min_ts"

definition cancels :: "Scheduler \<Rightarrow> timestamp \<Rightarrow> nat \<Rightarrow> nat \<Rightarrow> bool" where
  "cancels s min_ts c j \<longleftrightarrow> \<not> source_set_input s ! c ! j \<and> running_taskflows s ! j \<and>
     older s min_ts (running_timestamps s ! j)"

lemma cancel_running_ok:
  assumes sh: "shape s" and c: "c < sources s" and i: "i < slots s"
  shows "\<exists>X B. cancel_running min_ts (int c) i s = Inr (s\<lparr>source_set_input := X, time_domain_buffer := B\<rparr>) \<and>
     matrix_ok (sources s) (slots s) X \<and> buffers_ok (sources s) (slots s) B \<and>
     same_events (time_domain_buffer s) B \<and>
     (\<forall>d < sources s. \<forall>j < slots s. X ! d ! j =
        (d = c \<and> j = i \<and> cancels s min_ts c i \<or> source_set_input s ! d ! j)) \<and>
     (\<forall>j < slots s. \<forall>d. committed B d j =
        (j = i \<and> d = c \<and> cancels s min_ts c i \<or> committed (time_domain_buffer s) d j))"
proof -
  let ?k = "sources s" and ?n = "slots s"
  from sh have mx: "matrix_ok ?k ?n (source_set_input s)" and b: "buffers_ok ?k ?n (time_domain_buffer s)"
    by (simp_all add: shape_def)
  have get: "get_source_input s (int c) (int i) = Inr (source_set_input s ! c ! i)"
    by (rule get_source_input_ok [OF mx c i])
  have run: "raw_get (running_taskflows s) (int i) = Inr (running_taskflows s ! i)"
      "raw_get (running_timestamps s) (int i) = Inr (running_timestamps s ! i)"
    using sh i by (simp_all add: shape_def raw_get_int)
  show ?thesis
  proof (cases "cancels s min_ts c i")
    case False
    then have "cancel_running min_ts (int c) i s = Inr s"
      using get run by (auto simp: cancel_running_def cancels_def older_def)
    with False mx b show ?thesis
      by (intro exI [of _ "source_set_input s"] exI [of _ "time_domain_buffer s"])
        (simp add: same_events_def)
  next
    case True
    from set_source_input_True [OF mx c i] obtain X where
      X: "set_source_input (int c) (int i) True s = Inr (s\<lparr>source_set_input := X\<rparr>)" "matrix_ok ?k ?n X"
      "\<forall>d < ?k. \<forall>j < ?n. X ! d ! j = (d = c \<and> j = i \<or> source_set_input s ! d ! j)" by blast
    let ?s = "s\<lparr>source_set_input := X\<rparr>"
    from sch_step_lock_set [of ?k ?n ?s i c "\<lambda>b. Inr (scb_cancel b)"] b c i obtain B where
      B: "sch_step (int i) (update_source (int c) (\<lambda>b. Inr (scb_cancel b))) ?s =
          Inr (?s\<lparr>time_domain_buffer := B\<rparr>)"
      "buffers_ok ?k ?n B" "same_events (time_domain_buffer s) B"
      "\<forall>j < ?n. \<forall>d. committed B d j = (j = i \<and> d = c \<or> committed (time_domain_buffer s) d j)"
      by auto
    have "cancel_running min_ts (int c) i s = Inr (?s\<lparr>time_domain_buffer := B\<rparr>)"
      using get run X(1) B(1) True by (auto simp: cancel_running_def cancels_def older_def)
    with True X B show ?thesis
      by (intro exI [of _ X] exI [of _ B]) simp
  qed
qed

lemma cancel_running_fold:
  assumes sh: "shape s" and c: "c < sources s" and m: "m \<le> slots s"
  shows "\<exists>X B. fold_res (cancel_running min_ts (int c)) [0..<m] s =
       Inr (s\<lparr>source_set_input := X, time_domain_buffer := B\<rparr>) \<and>
     matrix_ok (sources s) (slots s) X \<and> buffers_ok (sources s) (slots s) B \<and>
     same_events (time_domain_buffer s) B \<and>
     (\<forall>d < sources s. \<forall>j < slots s. X ! d ! j =
        (d = c \<and> j < m \<and> cancels s min_ts c j \<or> source_set_input s ! d ! j)) \<and>
     (\<forall>j < slots s. \<forall>d. committed B d j =
        (j < m \<and> d = c \<and> cancels s min_ts c j \<or> committed (time_domain_buffer s) d j))"
  using m
proof (induction m)
  case 0
  with sh show ?case
    by (intro exI [of _ "source_set_input s"] exI [of _ "time_domain_buffer s"])
      (simp add: same_events_def shape_def)
next
  case (Suc m)
  then obtain X B where XB: "fold_res (cancel_running min_ts (int c)) [0..<m] s =
       Inr (s\<lparr>source_set_input := X, time_domain_buffer := B\<rparr>)"
     "matrix_ok (sources s) (slots s) X" "buffers_ok (sources s) (slots s) B"
     "same_events (time_domain_buffer s) B"
     "\<forall>d < sources s. \<forall>j < slots s. X ! d ! j =
        (d = c \<and> j < m \<and> cancels s min_ts c j \<or> source_set_input s ! d ! j)"
     "\<forall>j < slots s. \<forall>d. committed B d j =
        (j < m \<and> d = c \<and> cancels s min_ts c j \<or> committed (time_domain_buffer s) d j)"
    by auto
  let ?s = "s\<lparr>source_set_input := X, time_domain_buffer := B\<rparr>"
  have kB: "getCountSources B = sources s" using XB(3) by (simp add: buffers_ok_def)
  have sh': "shape ?s" using sh XB(2,3) kB by (simp add: shape_def)
  have same: "cancels ?s min_ts c m = cancels s min_ts c m"
    using XB(5) c Suc.prems by (auto simp: cancels_def older_def)
  from cancel_running_ok [OF sh', of c m min_ts] c Suc.prems kB obtain Y C where YC:
     "cancel_running min_ts (int c) m ?s = Inr (?s\<lparr>source_set_input := Y, time_domain_buffer := C\<rparr>)"
     "matrix_ok (sources s) (slots s) Y" "buffers_ok (sources s) (slots s) C" "same_events B C"
     "\<forall>d < sources s. \<forall>j < slots s. Y ! d ! j = (d = c \<and> j = m \<and> cancels ?s min_ts c m \<or> X ! d ! j)"
     "\<forall>j < slots s. \<forall>d. committed C d j = (j = m \<and> d = c \<and> cancels ?s min_ts c m \<or> committed B d j)"
    by auto
  have ev: "same_events (time_domain_buffer s) C"
    using same_events_trans [OF XB(4) YC(4)] XB(3) sh by (simp add: buffers_ok_def shape_def)
  have "Y ! d ! j = (d = c \<and> j < Suc m \<and> cancels s min_ts c j \<or> source_set_input s ! d ! j)"
    if "d < sources s" "j < slots s" for d j
    using YC(5) XB(5) that by (auto simp: same less_Suc_eq)
  moreover have "committed C d j =
      (j < Suc m \<and> d = c \<and> cancels s min_ts c j \<or> committed (time_domain_buffer s) d j)"
    if "j < slots s" for d j
    using YC(6) XB(6) that by (auto simp: same less_Suc_eq)
  ultimately show ?case
    using XB(1) YC(1-3) ev by (intro exI [of _ Y] exI [of _ C]) (simp add: fold_res_append)
qed

text \<open>What cancelling leaves alone.\<close>

definition cancel_frame :: "Scheduler \<Rightarrow> Scheduler \<Rightarrow> bool" where
  "cancel_frame s s' \<longleftrightarrow> running_taskflows s' = running_taskflows s \<and>
     running_timestamps s' = running_timestamps s \<and> time_step_latest s' = time_step_latest s \<and>
     map (\<lambda>m. (ev_timestamp m, ev_event_type m)) (queued_messages s') =
       map (\<lambda>m. (ev_timestamp m, ev_event_type m)) (queued_messages s) \<and>
     free_taskflows_semaphore s' = free_taskflows_semaphore s \<and>
     same_setup s s'"

lemma cancel_frame_refl [simp]: "cancel_frame s s"
  by (simp add: cancel_frame_def)

lemma cancel_frame_trans: "cancel_frame a b \<Longrightarrow> cancel_frame b c \<Longrightarrow> cancel_frame a c"
  by (simp add: cancel_frame_def same_setup_def)

text \<open>A queued message that already holds the source as invalid gets it a second time.\<close>

definition not_marked :: "timestamp \<Rightarrow> nat \<Rightarrow> Scheduler \<Rightarrow> bool" where
  "not_marked ts c s \<longleftrightarrow> (\<forall>m \<in> set (queued_messages s).
     ev_event_type m = DATA \<longrightarrow> older s (ts - max_offset (config s)) (ev_timestamp m) \<longrightarrow>
     int c \<notin> set (ev_invalid_sources m))"

lemma cancelSourceWaitForEvent_full:
  fixes ts :: timestamp
  assumes sh: "shape s" and c: "c < sources s"
  defines "min_ts \<equiv> ts - max_offset (config s)"
  shows "\<exists>X B. cancelSourceWaitForEvent ts (int c) s =
       Inr (cancel_queued min_ts (int c) (s\<lparr>source_set_input := X, time_domain_buffer := B\<rparr>)) \<and>
     matrix_ok (sources s) (slots s) X \<and> buffers_ok (sources s) (slots s) B \<and>
     same_events (time_domain_buffer s) B \<and>
     (\<forall>d < sources s. \<forall>j < slots s. X ! d ! j =
        (d = c \<and> cancels s min_ts c j \<or> source_set_input s ! d ! j)) \<and>
     (\<forall>j < slots s. \<forall>d. committed B d j =
        (d = c \<and> cancels s min_ts c j \<or> committed (time_domain_buffer s) d j))"
proof -
  from cancel_running_fold [OF sh c order_refl, of min_ts] obtain X B where
    "fold_res (cancel_running min_ts (int c)) [0..<slots s] s =
       Inr (s\<lparr>source_set_input := X, time_domain_buffer := B\<rparr>)"
     "matrix_ok (sources s) (slots s) X" "buffers_ok (sources s) (slots s) B"
     "same_events (time_domain_buffer s) B"
     "\<forall>d < sources s. \<forall>j < slots s. X ! d ! j =
        (d = c \<and> j < slots s \<and> cancels s min_ts c j \<or> source_set_input s ! d ! j)"
     "\<forall>j < slots s. \<forall>d. committed B d j =
        (j < slots s \<and> d = c \<and> cancels s min_ts c j \<or> committed (time_domain_buffer s) d j)"
    by blast
  then show ?thesis
    by (intro exI [of _ X] exI [of _ B])
      (simp add: cancelSourceWaitForEvent_def min_ts_def)
qed

lemma cancelSourceWaitForEvent_inv:
  assumes inv: "sched_inv s" and c: "c < sources s" and nm: "not_marked ts c s"
  shows "\<exists>s'. cancelSourceWaitForEvent ts (int c) s = Inr s' \<and> sched_inv s' \<and> cancel_frame s s' \<and>
     busy s' = busy s \<and> (\<forall>d. d \<noteq> c \<longrightarrow> not_marked ts d s \<longrightarrow> not_marked ts d s')"
proof -
  let ?k = "sources s" and ?n = "slots s" and ?min = "ts - max_offset (config s)"
  from inv have c0: "core s (busy s)" and f: "sem_free s (?n - busy s)" and it: "idle_times s"
    and qe: "queued_messages s \<noteq> [] \<longrightarrow> busy s = ?n"
    by (simp_all add: sched_inv_busy)
  from c0 have sh: "shape s" and lk: "locks s" by (simp_all add: core_def)
  from cancelSourceWaitForEvent_full [OF sh c, of ts] obtain X B where XB:
    "cancelSourceWaitForEvent ts (int c) s =
       Inr (cancel_queued ?min (int c) (s\<lparr>source_set_input := X, time_domain_buffer := B\<rparr>))"
    (is "_ = Inr ?s'")
    "matrix_ok ?k ?n X" "buffers_ok ?k ?n B"
    "\<forall>d < ?k. \<forall>j < ?n. X ! d ! j = (d = c \<and> cancels s ?min c j \<or> source_set_input s ! d ! j)"
    "\<forall>j < ?n. \<forall>d. committed B d j = (d = c \<and> cancels s ?min c j \<or> committed (time_domain_buffer s) d j)"
    by blast
  have kB: "getCountSources B = ?k" using XB(3) by (simp add: buffers_ok_def)
  have sh': "shape ?s'" using sh XB(2,3) kB by (simp add: shape_def cancel_queued_def)
  have lk': "locks ?s'"
    using lk XB(4,5) kB by (auto simp: locks_def cancel_queued_def cancels_def)
  have msgs: "\<forall>m \<in> set (queued_messages ?s'). message_ok ?k m"
  proof
    fix m'
    assume "m' \<in> set (queued_messages ?s')"
    then obtain m where m: "m \<in> set (queued_messages s)" and m':
      "m' = (if ev_event_type m = DATA \<and> older s ?min (ev_timestamp m)
         then m\<lparr>ev_invalid_sources := ev_invalid_sources m @ [int c]\<rparr> else m)"
      by (auto simp: cancel_queued_def older_def)
    from c0 m have "message_ok ?k m" by (simp add: core_def)
    with nm m c show "message_ok ?k m'" by (auto simp: message_ok_def not_marked_def m')
  qed
  have "core ?s' (busy s)"
    using c0 sh' lk' msgs kB by (simp add: core_def window_def cancel_queued_def)
  moreover have "sem_free ?s' (slots ?s' - busy s)" "idle_times ?s'"
    using f it by (simp_all add: sem_free_def idle_times_def cancel_queued_def)
  ultimately have "sched_inv ?s'" "busy ?s' = busy s"
    using qe by (auto simp: sched_inv_def cancel_queued_def busy_def)
  moreover have "not_marked ts d ?s'" if "d \<noteq> c" "not_marked ts d s" for d
    using that by (auto simp: not_marked_def cancel_queued_def older_def split: if_splits)
  moreover have "cancel_frame s ?s'"
    using kB by (auto simp: cancel_frame_def same_setup_def cancel_queued_def)
  ultimately show ?thesis using XB(1) by blast
qed

lemma cancel_fold_inv:
  assumes "sched_inv s" and "m \<le> sources s" and "\<And>c. c < sources s \<Longrightarrow> not_marked ts c s"
  shows "\<exists>s'. fold_res (\<lambda>c s. cancelSourceWaitForEvent ts (int c) s) [0..<m] s = Inr s' \<and>
     sched_inv s' \<and> cancel_frame s s' \<and> busy s' = busy s \<and>
     (\<forall>c < sources s. m \<le> c \<longrightarrow> not_marked ts c s')"
  using assms(2)
proof (induction m)
  case 0
  with assms show ?case by simp
next
  case (Suc m)
  then obtain s1 where s1: "fold_res (\<lambda>c s. cancelSourceWaitForEvent ts (int c) s) [0..<m] s = Inr s1"
     "sched_inv s1" "cancel_frame s s1" "busy s1 = busy s" "\<forall>c < sources s. m \<le> c \<longrightarrow> not_marked ts c s1"
    by auto
  from s1(3) have k1: "sources s1 = sources s" by (simp add: cancel_frame_def same_setup_def)
  have nm1: "not_marked ts m s1" using s1(5) Suc.prems by simp
  from cancelSourceWaitForEvent_inv [OF s1(2) _ nm1] Suc.prems k1 obtain s2 where
    s2: "cancelSourceWaitForEvent ts (int m) s1 = Inr s2" "sched_inv s2" "cancel_frame s1 s2"
      "busy s2 = busy s1" "\<forall>d. d \<noteq> m \<longrightarrow> not_marked ts d s1 \<longrightarrow> not_marked ts d s2"
    by auto
  have "cancel_frame s s2" using cancel_frame_trans s1(3) s2(3) by blast
  moreover have "not_marked ts c s2" if "c < sources s" "Suc m \<le> c" for c
    using s1(5) s2(5) that by auto
  ultimately show ?case using s1 s2 by (intro exI [of _ s2]) (simp add: fold_res_append)
qed

text \<open>The sources a request of \<open>c\<close> may cancel.\<close>

definition may_cancel :: "Scheduler \<Rightarrow> nat \<Rightarrow> nat set" where
  "may_cancel s c =
     (if missing_source_event_mode (config s) = WAIT_FOR_EVENT then {c} else {0..<sources s})"

lemma cancelOlderEvents_inv:
  assumes inv: "sched_inv s" and c: "c < sources s" and nm: "\<forall>d \<in> may_cancel s c. not_marked ts d s"
  shows "\<exists>s'. cancelOlderEvents ts (int c) s = Inr s' \<and> sched_inv s' \<and> cancel_frame s s' \<and> busy s' = busy s"
proof (cases "missing_source_event_mode (config s)")
  case WAIT_FOR_EVENT
  with nm have "not_marked ts c s" by (simp add: may_cancel_def)
  from cancelSourceWaitForEvent_inv [OF inv c this] WAIT_FOR_EVENT show ?thesis
    by (auto simp: cancelOlderEvents_def)
next
  case CANCEL_OLDEST
  with nm have nm': "\<And>d. d < sources s \<Longrightarrow> not_marked ts d s" by (simp add: may_cancel_def)
  have "length (source_set_input s) = sources s"
    using inv by (simp add: sched_inv_busy core_def shape_def matrix_ok_def)
  with cancel_fold_inv [OF inv order_refl nm'] CANCEL_OLDEST show ?thesis
    by (auto simp: cancelOlderEvents_def cancelSourceCancelOldest_def)
qed

end
