(* ===== verification/SchedulerRequests.thy ===== *)
theory SchedulerRequests
  imports SchedulerInv
begin

text \<open>
  The requests of the sources: when they return, that they keep the invariant, and which time step
  they hand out. Over these the step relation of the scheduler and its environment is defined, and
  its reachable states satisfy the invariant.
\<close>

section \<open>The padding loop\<close>

lemma sched_inv_clock: "sched_inv s \<Longrightarrow> clock_ok (time_domain_clock s)"
  by (simp add: sched_inv_busy core_def)

lemma padding_step_inv:
  assumes "sched_inv s" and "c < sources s"
  shows "\<exists>s'. padding_step (int c) s = Inr s' \<and> sched_inv s' \<and> config s' = config s \<and>
     slots s' = slots s \<and> sources s' = sources s \<and>
     time_domain_clock s' = advance (time_domain_clock s) \<and>
     stop_scheduled s' = stop_scheduled s"
proof -
  let ?s = "s\<lparr>time_domain_clock := advance (time_domain_clock s)\<rparr>"
  have "sched_inv ?s" using assms(1) by (subst sched_inv_cong [of _ s]) simp_all
  from schedulePaddingEvent_inv [OF this, of c DATA "expected_next_timestamp (time_domain_clock s)"]
  show ?thesis
    using assms getNextExpectedTimestamp_ok [OF sched_inv_clock [OF assms(1)]]
    by (auto simp: padding_step_def same_setup_def)
qed

lemma schedule_expected_inv:
  assumes "sched_inv s"
  shows "\<exists>s'. schedule_expected s = Inr s' \<and> sched_inv s' \<and> config s' = config s \<and>
     slots s' = slots s \<and> sources s' = sources s \<and>
     time_domain_clock s' = advance (time_domain_clock s)"
proof -
  let ?s = "s\<lparr>time_domain_clock := advance (time_domain_clock s)\<rparr>"
  have "sched_inv ?s" using assms by (subst sched_inv_cong [of _ s]) simp_all
  from scheduleEvent_inv [OF this, of DATA "expected_next_timestamp (time_domain_clock s)"]
  show ?thesis
    using getNextExpectedTimestamp_ok [OF sched_inv_clock [OF assms]]
    by (auto simp: schedule_expected_def same_setup_def)
qed

text \<open>The tolerance of the clock is the tolerance of the scheduler.\<close>

definition offsets_ok :: "Scheduler \<Rightarrow> bool" where
  "offsets_ok s \<longleftrightarrow> tdc_max_offset (time_domain_clock s) = max_offset (config s) \<and> 0 \<le> max_offset (config s)"

abbreviation expected :: "Scheduler \<Rightarrow> timestamp" where
  "expected s \<equiv> expected_next_timestamp (time_domain_clock s)"

abbreviation frame :: "Scheduler \<Rightarrow> time_duration" where
  "frame s \<equiv> sensor_delta_mean (time_domain_clock s)"

text \<open>Once the clock has passed a timestamp the loop never comes back.\<close>

definition passed :: "timestamp \<Rightarrow> int \<Rightarrow> Scheduler \<Rightarrow> bool" where
  "passed ts c s \<longleftrightarrow> (\<exists>d. c = int d \<and> d < sources s) \<and> sched_inv s \<and> offsets_ok s \<and>
     ts + 2 * max_offset (config s) < expected s + frame s"

lemma passed_step:
  assumes "passed ts c s"
  shows "\<exists>s1. padding_step c s = Inr s1 \<and> passed ts c s1 \<and>
     \<not> isNextExpectedTimestampOrBigger (time_domain_clock s1) ts"
proof -
  from assms obtain d where d: "c = int d" "d < sources s" and inv: "sched_inv s" and off: "offsets_ok s"
    and p: "ts + 2 * max_offset (config s) < expected s + frame s" by (auto simp: passed_def)
  from padding_step_inv [OF inv d(2)] d(1) obtain s1 where s1: "padding_step c s = Inr s1" "sched_inv s1"
    "config s1 = config s" "sources s1 = sources s"
    "time_domain_clock s1 = advance (time_domain_clock s)" by auto
  have off1: "offsets_ok s1" using off s1(3,5) by (simp add: offsets_ok_def)
  have "\<not> isNextExpectedTimestampOrBigger (time_domain_clock s1) ts"
    using p off s1(3,5) by (simp add: orBigger_iff offsets_ok_def)
  moreover have "0 \<le> frame s" using sched_inv_clock [OF inv] by (simp add: clock_ok_def)
  then have "ts + 2 * max_offset (config s1) < expected s1 + frame s1"
    using p s1(3,5) by simp
  ultimately show ?thesis using s1 d off1 by (auto simp: passed_def)
qed

lemma padding_loop_passed: "padding_loop ts c s = Some r \<Longrightarrow> \<not> passed ts c s"
proof (rule padding_loop.raw_induct [where P = "\<lambda>ts c s r. \<not> passed ts c s"])
  fix f ts c s r
  assume IH: "\<And>ts c s r. f ts c s = Some r \<Longrightarrow> \<not> passed ts c s"
    and body: "(case padding_step c s of Inl e \<Rightarrow> Some (Inl e)
       | Inr s1 \<Rightarrow> if isNextExpectedTimestampOrBigger (time_domain_clock s1) ts then Some (Inr s1)
          else f ts c s1) = Some (r :: Scheduler res)"
  show "\<not> passed ts c s"
  proof
    assume "passed ts c s"
    from passed_step [OF this] body IH show False by auto
  qed
qed

lemma padding_loop_unfold:
  assumes "sched_inv s" and "c < sources s" and "offsets_ok s"
  shows "padding_loop ts (int c) s =
     (if expected s + frame s \<le> ts + 2 * max_offset (config s)
      then Some (padding_step (int c) s) else None)"
proof (cases "expected s + frame s \<le> ts + 2 * max_offset (config s)")
  case True
  from padding_step_inv [OF assms(1,2)] obtain s1 where s1: "padding_step (int c) s = Inr s1"
    "config s1 = config s" "time_domain_clock s1 = advance (time_domain_clock s)" by blast
  have "isNextExpectedTimestampOrBigger (time_domain_clock s1) ts"
    using True assms(3) s1(2,3) by (simp add: orBigger_iff offsets_ok_def)
  then show ?thesis using True s1(1) by (simp add: padding_loop.simps)
next
  case False
  then have "padding_loop ts (int c) s \<noteq> Some r" for r
    using padding_loop_passed [of ts "int c" s r] assms by (auto simp: passed_def)
  with False show ?thesis by (cases "padding_loop ts (int c) s") auto
qed

section \<open>New timestamps\<close>

definition between_frames :: "Scheduler \<Rightarrow> timestamp \<Rightarrow> bool" where
  "between_frames s ts \<longleftrightarrow> expected s + 2 * max_offset (config s) < ts \<and>
     ts + 2 * max_offset (config s) < expected s + frame s"

lemma requestWait_inv:
  assumes inv: "sched_inv s" and c: "c < sources s" and off: "offsets_ok s"
    and nb: "\<not> between_frames s ts"
  shows "\<exists>f s'. requestSourceBufferNewTimestampWait ts (int c) s = Some (Inr (f, s')) \<and> sched_inv s' \<and>
     config s' = config s \<and> slots s' = slots s \<and> sources s' = sources s \<and> offsets_ok s'"
proof -
  have advance_off: "offsets_ok s'"
    if "config s' = config s" "time_domain_clock s' = advance x" "tdc_max_offset x = tdc_max_offset (time_domain_clock s)"
    for s' x
    using that off by (simp add: offsets_ok_def)
  consider "isNextExpectedTimestamp (time_domain_clock s) ts"
    | "\<not> isNextExpectedTimestamp (time_domain_clock s) ts"
      "isFurtherAheadThenNextExpectedTimestamp (time_domain_clock s) ts"
    | "\<not> isNextExpectedTimestamp (time_domain_clock s) ts"
      "\<not> isFurtherAheadThenNextExpectedTimestamp (time_domain_clock s) ts"
    by blast
  then show ?thesis
  proof cases
    case 1
    with schedule_expected_inv [OF inv] advance_off show ?thesis
      by (fastforce simp: requestSourceBufferNewTimestampWait_def)
  next
    case 2
    with nb off have exit: "expected s + frame s \<le> ts + 2 * max_offset (config s)"
      by (auto simp: between_frames_def ahead_iff offsets_ok_def)
    from padding_step_inv [OF inv c] obtain s1 where s1: "padding_step (int c) s = Inr s1" "sched_inv s1"
      "config s1 = config s" "slots s1 = slots s" "sources s1 = sources s"
      "time_domain_clock s1 = advance (time_domain_clock s)" by blast
    from schedule_expected_inv [OF s1(2)] obtain s2 where s2: "schedule_expected s1 = Inr s2" "sched_inv s2"
      "config s2 = config s1" "slots s2 = slots s1" "sources s2 = sources s1"
      "time_domain_clock s2 = advance (time_domain_clock s1)" by blast
    have "offsets_ok s2" using advance_off [of s2 "time_domain_clock s1"] s1 s2 by simp
    with 2 exit padding_loop_unfold [OF inv c off, of ts] s1 s2 show ?thesis
      by (simp add: requestSourceBufferNewTimestampWait_def)
  next
    case 3
    with inv off show ?thesis by (simp add: requestSourceBufferNewTimestampWait_def)
  qed
qed

lemma requestRunning_inv:
  assumes inv: "sched_inv s" and "c < sources s" and "i < slots s"
  shows "\<exists>s'. requestSourceBufferRunning ts (int c) (int i) s = Inr (SF_Running ts (int c) (int i), s') \<and>
     sched_inv s' \<and> same_setup s s' \<and> source_set_input s' ! c ! i \<and>
     time_domain_buffer s' = time_domain_buffer s \<and> running_taskflows s' = running_taskflows s"
proof -
  from inv have sh: "shape s" and lk: "locks s" by (simp_all add: sched_inv_busy core_def)
  then have mx: "matrix_ok (sources s) (slots s) (source_set_input s)" by (simp add: shape_def)
  from set_source_input_True [OF mx assms(2,3)] obtain X where
    X: "set_source_input (int c) (int i) True s = Inr (s\<lparr>source_set_input := X\<rparr>)"
      "matrix_ok (sources s) (slots s) X"
      "\<forall>d < sources s. \<forall>j < slots s. X ! d ! j = (d = c \<and> j = i \<or> source_set_input s ! d ! j)" by blast
  let ?s = "s\<lparr>source_set_input := X\<rparr>"
  have "shape ?s" using sh X(2) by (simp add: shape_def)
  moreover have "locks ?s" using lk X(3) by (auto simp: locks_def)
  ultimately have "core ?s (busy s)" using inv by (simp add: sched_inv_busy core_def window_def)
  then have "sched_inv ?s"
    using inv unfolding sched_inv_busy [of s] by (auto simp: sched_inv_def sem_free_def idle_times_def)
  with X assms show ?thesis
    by (intro exI [of _ ?s]) (simp add: requestSourceBufferRunning_def same_setup_def)
qed

lemma set_source_input_latest:
  "set_source_input c i v s = Inr s' \<Longrightarrow> latest_scheduled_ts s' = latest_scheduled_ts s"
  by (auto simp: set_source_input_def)

lemma takeTaskflow_latest:
  "takeTaskflow i t s = Inr s' \<Longrightarrow> latest_scheduled_ts s' = latest_scheduled_ts s"
  by (fastforce simp: takeTaskflow_def dest: fold_res_invariant
      [where P = "\<lambda>x. latest_scheduled_ts x = latest_scheduled_ts s"] set_source_input_latest)

lemma next_assert_latest:
  "next_time_step s = Inr s' \<Longrightarrow> latest_scheduled_ts s' = latest_scheduled_ts s"
  "assert_latest_free s = Inr s' \<Longrightarrow> latest_scheduled_ts s' = latest_scheduled_ts s"
  by (auto simp: next_time_step_def assert_latest_free_def split: if_splits)

text \<open>Putting the event directly into a free time step is what the queue would do with it.\<close>

lemma scheduleImmediately_eq:
  assumes "sched_inv s"
  shows "scheduleDataEventImmediately ts c s =
     (if busy s < slots s
      then bind_res (run_if_free ((s\<lparr>latest_scheduled_ts := ts\<rparr>)\<lparr>queued_messages := queued_messages s @
          [\<lparr>ev_timestamp = ts, ev_event_type = DATA, ev_invalid_sources = [],
            ev_changed_pattern_instance_id = []\<rparr>]\<rparr>)) (\<lambda>s'. Inr (time_step_latest s', s'))
      else Inr (-1, s))"
proof -
  from assms have f: "sem_free s (slots s - busy s)" and r: "busy s \<le> slots s"
    and q: "queued_messages s \<noteq> [] \<longrightarrow> busy s = slots s"
    by (simp_all add: sched_inv_busy core_def)
  show ?thesis
  proof (cases "busy s < slots s")
    case False
    with f r show ?thesis
      by (simp add: scheduleDataEventImmediately_def try_wait_free_def sem_free_def Let_def)
  next
    case True
    with q have q0: "queued_messages s = []" by auto
    have sem: "free_taskflows_semaphore s = \<lparr>sem_max_count = int (slots s), sem_count = int (slots s - busy s)\<rparr>"
      using f by (simp add: sem_free_def)
    let ?sem = "\<lparr>sem_max_count = int (slots s), sem_count = int (slots s) - int (busy s) - 1\<rparr>"
    let ?A = "s\<lparr>free_taskflows_semaphore := ?sem, latest_scheduled_ts := ts\<rparr>"
    let ?B = "s\<lparr>latest_scheduled_ts := ts, free_taskflows_semaphore := ?sem, queued_messages := []\<rparr>"
    have eq: "?B = ?A" using q0 by (intro Scheduler.equality) simp_all
    have bind: "bind_res (bind_res a g) h = bind_res a (\<lambda>x. bind_res (g x) h)"
      for a :: "Scheduler res" and g :: "Scheduler \<Rightarrow> Scheduler res" and h :: "Scheduler \<Rightarrow> (int \<times> Scheduler) res"
      by (cases a) simp_all
    have "bind_res (next_time_step ?A) (\<lambda>s1. bind_res (assert_latest_free s1)
        (\<lambda>s2. bind_res (takeTaskflow (time_step_latest s2) ts s2)
        (\<lambda>s3. bind_res (sch_step (time_step_latest s3) (\<lambda>t. Inr (setEvent (latest_scheduled_ts s3) DATA t)) s3)
        (\<lambda>s4. Inr (time_step_latest s4, s4\<lparr>latest_running_ts := wft_notifyAll ts (latest_running_ts s4)\<rparr>))))) =
      bind_res (next_time_step ?A) (\<lambda>s1. bind_res (assert_latest_free s1)
        (\<lambda>s2. bind_res (takeTaskflow (time_step_latest s2) ts s2)
        (\<lambda>s3. bind_res (sch_step (time_step_latest s3) (\<lambda>t. Inr (setEvent ts DATA t)) s3)
        (\<lambda>s4. Inr (time_step_latest s4, s4\<lparr>latest_running_ts := wft_notifyAll ts (latest_running_ts s4)\<rparr>)))))"
      by (intro bind_res_cong refl) (simp add: next_assert_latest takeTaskflow_latest)
    with True q0 sem show ?thesis
      by (simp add: eq scheduleDataEventImmediately_def run_if_free_def try_wait_free_def Let_def
          runTaskFlowFromQueue_def bind of_nat_diff)
  qed
qed

lemma requestImmediate_inv:
  assumes inv: "sched_inv s" and c: "c < sources s"
  shows "\<exists>f s'. requestSourceBufferNewTimestampImmediate ts (int c) s = Inr (f, s') \<and> sched_inv s' \<and>
     same_setup s s' \<and> (f = SF_Invalid \<longleftrightarrow> busy s = slots s)"
proof (cases "busy s < slots s")
  case False
  with inv have "busy s = slots s" by (simp add: sched_inv_busy core_def)
  with inv show ?thesis
    by (simp add: requestSourceBufferNewTimestampImmediate_def scheduleImmediately_eq
        requestSourceBufferInvalid_def)
next
  case True
  let ?m = "\<lparr>ev_timestamp = ts, ev_event_type = DATA, ev_invalid_sources = [],
            ev_changed_pattern_instance_id = []\<rparr>"
  let ?s = "s\<lparr>latest_scheduled_ts := ts\<rparr>"
  have inv': "sched_inv ?s" using inv by (subst sched_inv_cong [of _ s]) simp_all
  from run_if_free_ok [OF this message_ok_Nil [of ?m]] True obtain s1 where s1:
    "run_if_free (?s\<lparr>queued_messages := queued_messages s @ [?m]\<rparr>) = Inr s1" "sched_inv s1"
    "same_setup ?s s1" "time_step_latest s1 = (time_step_latest s + 1) mod int (slots s)"
    by (auto simp: busy_def split: if_splits)
  let ?l = "nat (time_step_latest s1)"
  have n: "0 < int (slots s)" using inv by (simp add: sched_inv_busy core_def shape_def)
  then have l: "int ?l = time_step_latest s1" "?l < slots s" by (simp_all add: s1(4) nat_less_iff)
  have imm: "scheduleDataEventImmediately ts (int c) s = Inr (int ?l, s1)"
    using scheduleImmediately_eq [OF inv, of ts "int c"] True s1(1) l by simp
  from requestRunning_inv [OF s1(2), of c ?l ts] c l s1(3) obtain s2 where
    "requestSourceBufferRunning ts (int c) (int ?l) s1 = Inr (SF_Running ts (int c) (int ?l), s2)"
    "sched_inv s2" "same_setup s1 s2" by (auto simp: same_setup_def)
  moreover have "same_setup s s2" using s1(3) calculation(3) by (simp add: same_setup_def)
  ultimately show ?thesis
    using imm True by (simp add: requestSourceBufferNewTimestampImmediate_def del: of_nat_nat)
qed

section \<open>Requests\<close>

definition request_ok :: "Scheduler \<Rightarrow> timestamp \<Rightarrow> nat \<Rightarrow> bool" where
  "request_ok s ts c \<longleftrightarrow> c < sources s \<and> is_ok (newTimestamp ts (time_domain_clock s)) \<and>
     (\<forall>d \<in> may_cancel s c. not_marked ts d s) \<and>
     (source_mode (config s) = WAIT_FOR_BUFFER \<longrightarrow> \<not> between_frames s ts)"

lemma newTimestamp_expected:
  "newTimestamp ts c = Inr c' \<Longrightarrow> expected_next_timestamp c' \<in> {ts, expected_next_timestamp c}"
  by (auto simp: newTimestamp_def Let_def split: if_splits)

lemma isInvalid_eq:
  "c < length (latest_scheduled_component_timestamp s) \<Longrightarrow>
   isInvalidNextRequestedTimeStamp ts (int c) s = Inr
     (ts + 2 * max_offset (config s) < initial_timestamp_mean (time_domain_clock s) \<or>
      ts + 2 * max_offset (config s) \<le> latest_scheduled_component_timestamp s ! c)"
  by (auto simp: isInvalidNextRequestedTimeStamp_def Let_def vec_at_def getInitTimestamp_def)

lemma isTimestampRunning_range:
  assumes "0 \<le> isTimestampRunning s ts"
  shows "\<exists>i. isTimestampRunning s ts = int i \<and> i < length (running_timestamps s) \<and>
     isWithinRange ts (running_timestamps s ! i) (max_offset (config s))"
  using assms find_index_Some
  by (fastforce simp: isTimestampRunning_def split: option.splits)

lemma isTimestampRunning_none:
  "isTimestampRunning s ts < 0 \<longleftrightarrow>
   (\<forall>t \<in> set (running_timestamps s). \<not> isWithinRange ts t (max_offset (config s)))"
  using find_index_None [of "\<lambda>running. isWithinRange ts running (max_offset (config s))" "running_timestamps s"]
  by (auto simp: isTimestampRunning_def split: option.splits)

text \<open>A timestamp that is neither running nor waiting.\<close>

lemma requestNewTimestamp_inv:
  assumes inv: "sched_inv s" and off: "offsets_ok s" and c: "c < sources s"
    and between: "source_mode (config s) = WAIT_FOR_BUFFER \<longrightarrow> \<not> between_frames s ts"
  shows "\<exists>f s'. requestSourceBufferNewTimestamp ts (int c) s = Some (Inr (f, s')) \<and> sched_inv s' \<and> offsets_ok s' \<and>
     config s' = config s \<and> slots s' = slots s \<and> sources s' = sources s"
proof (cases "stop_scheduled s")
  case True
  with inv off show ?thesis by (simp add: requestSourceBufferNewTimestamp_def)
next
  case go: False
  show ?thesis
  proof (cases "source_mode (config s)")
    case WAIT_FOR_BUFFER
    with between have "\<not> between_frames s ts" by simp
    from requestWait_inv [OF inv c off this] go WAIT_FOR_BUFFER show ?thesis
      by (auto simp: requestSourceBufferNewTimestamp_def)
  next
    case IMMEDIATE_RETURN
    from requestImmediate_inv [OF inv c, of ts] go IMMEDIATE_RETURN off show ?thesis
      by (auto simp: requestSourceBufferNewTimestamp_def same_setup_def offsets_ok_def)
  qed
qed

lemma requestSourceBuffer_inv:
  assumes inv: "sched_inv s" and off: "offsets_ok s" and rq: "request_ok s ts c"
  shows "\<exists>f s'. requestSourceBuffer ts (int c) s = Some (Inr (f, s')) \<and> sched_inv s' \<and> offsets_ok s' \<and>
     config s' = config s \<and> slots s' = slots s \<and> sources s' = sources s"
proof -
  from rq have c: "c < sources s" by (simp add: request_ok_def)
  have len: "length (latest_scheduled_component_timestamp s) = sources s"
    using inv by (simp add: sched_inv_busy core_def shape_def)
  obtain b where b: "isInvalidNextRequestedTimeStamp ts (int c) s = Inr b"
    using isInvalid_eq [of c s ts] c len by simp
  show ?thesis
  proof (cases b)
    case True
    with b inv off show ?thesis by (simp add: requestSourceBuffer_def)
  next
    case False
    from rq obtain clock where clock: "newTimestamp ts (time_domain_clock s) = Inr clock"
      by (auto simp: request_ok_def is_ok_iff)
    let ?s = "s\<lparr>time_domain_clock := clock\<rparr>"
    from newTimestamp_ok [OF sched_inv_clock [OF inv] clock]
    have cl: "clock_ok clock" "tdc_max_offset clock = tdc_max_offset (time_domain_clock s)"
      "sensor_delta_mean clock = frame s" by auto
    have invs: "sched_inv ?s" using inv cl(1) sched_inv_clock [OF inv]
      by (subst sched_inv_cong [of _ s]) simp_all
    have nm: "\<forall>d \<in> may_cancel ?s c. not_marked ts d ?s"
      using rq by (auto simp: request_ok_def may_cancel_def not_marked_def older_def)
    from cancelOlderEvents_inv [OF invs _ nm] c obtain s1 where
      s1: "cancelOlderEvents ts (int c) ?s = Inr s1" "sched_inv s1" "cancel_frame ?s s1" by auto
    then have s1s: "config s1 = config s" "slots s1 = slots s" "sources s1 = sources s"
      "time_domain_clock s1 = clock" by (simp_all add: cancel_frame_def same_setup_def)
    have off1: "offsets_ok s1" using off cl(2) s1s by (simp add: offsets_ok_def)
    have valid: "requestSourceBuffer ts (int c) s = requestSourceBuffer_valid ts (int c) s"
      using b False by (simp add: requestSourceBuffer_def)
    have len1: "length (latest_scheduled_component_timestamp s1) = sources s"
      using s1(2) s1s by (simp add: sched_inv_busy core_def shape_def)
    consider (running) "0 \<le> isTimestampRunning s1 ts"
      | (scheduled) "isTimestampRunning s1 ts < 0" "source_mode (config s1) = WAIT_FOR_BUFFER"
          "isTimestampScheduled s1 ts"
      | (new) "isTimestampRunning s1 ts < 0"
          "\<not> (source_mode (config s1) = WAIT_FOR_BUFFER \<and> isTimestampScheduled s1 ts)"
      by fastforce
    then show ?thesis
    proof cases
      case running
      from isTimestampRunning_range [OF running] s1(2) s1s obtain i where
        i: "isTimestampRunning s1 ts = int i" "i < slots s1"
        by (auto simp: sched_inv_busy core_def shape_def)
      from requestRunning_inv [OF s1(2) _ i(2), of c ts] c s1s i(1) clock s1(1) off1
      show ?thesis by (auto simp: valid requestSourceBuffer_valid_def same_setup_def offsets_ok_def)
    next
      case scheduled
      with clock s1 off1 s1s show ?thesis
        by (auto simp: valid requestSourceBuffer_valid_def)
    next
      case new
      let ?s2 = "s1\<lparr>latest_scheduled_component_timestamp :=
               (latest_scheduled_component_timestamp s1)[c := ts]\<rparr>"
      have inv2: "sched_inv ?s2" using s1(2) by (subst sched_inv_cong [of _ s1]) simp_all
      have off2: "offsets_ok ?s2" using off1 by (simp add: offsets_ok_def)
      have eq: "requestSourceBuffer ts (int c) s = requestSourceBufferNewTimestamp ts (int c) ?s2"
        using new clock s1(1) len1 c s1s by (auto simp: valid requestSourceBuffer_valid_def)
      have c2: "c < sources ?s2" using c s1s by simp
      have "\<not> between_frames ?s2 ts" if "source_mode (config ?s2) = WAIT_FOR_BUFFER"
        using newTimestamp_expected [OF clock] off s1s cl(3) rq that
        by (auto simp: between_frames_def offsets_ok_def request_ok_def)
      with requestNewTimestamp_inv [OF inv2 off2 c2] eq s1s show ?thesis by auto
    qed
  qed
qed

lemma source_future_get_inv:
  assumes inv: "sched_inv s" and get: "source_future_get f obs s = Some (Inr (r, s'))"
  shows "sched_inv s' \<and> same_setup s s'"
proof (cases f)
  case (SF_Scheduled ts c)
  show ?thesis
  proof (cases "s' = s")
    case False
    with get SF_Scheduled have i: "0 \<le> isTimestampRunning s ts"
      and si: "set_source_input c (isTimestampRunning s ts) True s = Inr s'"
      by (auto simp: source_future_get_def Let_def split: if_splits)
    from si obtain d where d: "c = int d" "d < length (source_set_input s)"
      by (metis (no_types, lifting) bind_res_eq_Inr_iff raw_get_Inr set_source_input_def nat_0_le)
    from isTimestampRunning_range [OF i] inv obtain j where
      j: "isTimestampRunning s ts = int j" "j < slots s"
      by (auto simp: sched_inv_busy core_def shape_def)
    have "d < sources s" using d(2) inv by (simp add: sched_inv_busy core_def shape_def matrix_ok_def)
    from requestRunning_inv [OF inv this j(2), of ts] si d(1) j(1) show ?thesis
      by (auto simp: requestSourceBufferRunning_def)
  qed (use inv in simp)
qed (use assms in \<open>auto simp: source_future_get_def\<close>)

section \<open>Sources and tasks as the environment\<close>

text \<open>
  A source commits the buffer of a time step that was handed to it and has not been committed;
  a time step ends when it is the oldest one that runs and all its sources are committed.
\<close>

inductive sched_step :: "Scheduler \<Rightarrow> Scheduler \<Rightarrow> bool" where
  step_request: "request_ok s ts c \<Longrightarrow> requestSourceBuffer ts (int c) s = Some (Inr (f, s')) \<Longrightarrow>
    sched_step s s'"
| step_get: "source_future_get f obs s = Some (Inr (r, s')) \<Longrightarrow> sched_step s s'"
| step_commit: "c < sources s \<Longrightarrow> i < slots s \<Longrightarrow> running_taskflows s ! i \<Longrightarrow>
    source_set_input s ! c ! i \<Longrightarrow> \<not> committed (time_domain_buffer s) c i \<Longrightarrow>
    sch_step (int i) (update_source (int c) (scb_commit v)) s = Inr s' \<Longrightarrow> sched_step s s'"
| step_end: "oldest_slot s i \<Longrightarrow> \<forall>c < sources s. committed (time_domain_buffer s) c i \<Longrightarrow>
    timeStepEnded (int i) s = Inr s' \<Longrightarrow> sched_step s s'"
| step_parameter: "parameterChanged p s = Inr s' \<Longrightarrow> sched_step s s'"
| step_event: "scheduleNonDataEvent ev s = Inr s' \<Longrightarrow> sched_step s s'"

definition sched_ok :: "Scheduler \<Rightarrow> bool" where
  "sched_ok s \<longleftrightarrow> sched_inv s \<and> offsets_ok s"

lemma offsets_ok_setup: "same_setup s s' \<Longrightarrow> offsets_ok s' = offsets_ok s"
  by (simp add: offsets_ok_def same_setup_def)

lemma commit_inv:
  assumes inv: "sched_inv s" and c: "c < sources s" and i: "i < slots s"
    and run: "running_taskflows s ! i" "source_set_input s ! c ! i"
    and nc: "\<not> committed (time_domain_buffer s) c i"
  shows "\<exists>s'. sch_step (int i) (update_source (int c) (scb_commit v)) s = Inr s' \<and> sched_inv s' \<and>
     same_setup s s' \<and> committed (time_domain_buffer s') c i"
proof -
  from inv have sh: "shape s" and lk: "locks s" by (simp_all add: sched_inv_busy core_def)
  let ?src = "source_buffer_list (time_step_buffer (time_domain_buffer s) ! i) ! c"
  from nc have "is_ok (scb_commit v ?src)" by (simp add: scb_commit_iff committed_def)
  then obtain x where x: "scb_commit v ?src = Inr x" by (auto simp: is_ok_iff)
  then have xc: "scb_committed x" by (rule scb_commit_committed)
  from sch_step_lock_set [of "sources s" "slots s" s i c "scb_commit v" x, OF _ i c x xc] sh obtain B where
    B: "sch_step (int i) (update_source (int c) (scb_commit v)) s = Inr (s\<lparr>time_domain_buffer := B\<rparr>)"
      "buffers_ok (sources s) (slots s) B"
      "\<forall>j < slots s. \<forall>d. committed B d j = (j = i \<and> d = c \<or> committed (time_domain_buffer s) d j)"
    by (auto simp: shape_def)
  let ?s = "s\<lparr>time_domain_buffer := B\<rparr>"
  have kB: "getCountSources B = sources s" using B(2) by (simp add: buffers_ok_def)
  have "shape ?s" using sh B(2) kB by (simp add: shape_def)
  moreover have "locks ?s" using lk B(3) run kB by (auto simp: locks_def)
  ultimately have "core ?s (busy s)" using inv kB by (simp add: sched_inv_busy core_def window_def)
  then have "sched_inv ?s"
    using inv unfolding sched_inv_busy [of s] by (auto simp: sched_inv_def sem_free_def idle_times_def)
  with B kB i show ?thesis by (intro exI [of _ ?s]) (simp add: same_setup_def)
qed

lemma sched_step_ok: "sched_step s s' \<Longrightarrow> sched_ok s \<Longrightarrow> sched_ok s'"
proof (induction rule: sched_step.induct)
  case (step_request s ts c f s')
  then show ?case using requestSourceBuffer_inv [of s ts c] by (auto simp: sched_ok_def)
next
  case (step_get f obs s r s')
  then show ?case using source_future_get_inv [of s f obs r s'] offsets_ok_setup
    by (auto simp: sched_ok_def)
next
  case (step_commit c s i v s')
  then show ?case using commit_inv [of s c i v] offsets_ok_setup by (auto simp: sched_ok_def)
next
  case (step_end s i s')
  then have "sched_inv s" by (simp add: sched_ok_def)
  from timeStepEnded_inv [OF this step_end.hyps(1)] step_end obtain s1 where
    "sched_inv s'" "same_setup s s1" "s' = event_finished (ended_event s i) s1" by auto
  moreover have "same_setup s s'"
    using same_setup_trans [OF \<open>same_setup s s1\<close>] event_finished_frame(4) calculation(3) by simp
  ultimately show ?case using step_end offsets_ok_setup [of s s'] by (simp add: sched_ok_def)
next
  case (step_parameter p s s')
  then show ?case using scheduleParameterChangedEvent_inv [of s p] offsets_ok_setup
    by (auto simp: sched_ok_def)
next
  case (step_event ev s s')
  then have "sched_inv s" by (simp add: sched_ok_def)
  from scheduleEvent_inv [OF this, of ev kTimestampZero] scheduleNonDataEvent_inv [OF this, of ev] step_event
  show ?case by (auto simp: sched_ok_def scheduleNonDataEvent_def offsets_ok_def same_setup_def)
qed

text \<open>The state the constructor makes, over time step buffers whose locks are fresh.\<close>

definition sched_start :: "Scheduler \<Rightarrow> bool" where
  "sched_start s \<longleftrightarrow> (\<exists>cfg buffer. Scheduler_init cfg buffer = Inr s \<and>
     1 \<le> sensor_frequency cfg \<and> 0 \<le> max_offset cfg \<and> 0 < ringbuffer_size cfg \<and>
     buffers_ok (getCountSources buffer) (ringbuffer_size cfg) buffer \<and>
     (\<forall>i < ringbuffer_size cfg. \<forall>c < getCountSources buffer. \<not> committed buffer c i))"

lemma sched_start_ok: "sched_start s \<Longrightarrow> sched_ok s"
proof -
  assume "sched_start s"
  then obtain cfg buffer where i: "Scheduler_init cfg buffer = Inr s" "1 \<le> sensor_frequency cfg"
     "0 \<le> max_offset cfg" "0 < ringbuffer_size cfg"
     "buffers_ok (getCountSources buffer) (ringbuffer_size cfg) buffer"
     "\<forall>i < ringbuffer_size cfg. \<forall>c < getCountSources buffer. \<not> committed buffer c i"
    by (auto simp: sched_start_def)
  from TimeDomainClock_init_ok [OF i(2), of "max_offset cfg"] obtain clock where
    clock: "TimeDomainClock_init (sensor_frequency cfg) (max_offset cfg) 1 = Inr clock" "clock_ok clock"
      "tdc_max_offset clock = max_offset cfg" by blast
  have s: "s = \<lparr>config = cfg, time_domain_buffer = buffer, time_step_count = ringbuffer_size cfg,
          configure_finished = WaitForInit_init, start_finished = WaitForInit_init,
          stop_finished = WaitForInit_init, teardown_finished = WaitForInit_init,
          taskflow_started = Semaphore_init 1 0, latest_scheduled_ts = kTimestampZero,
          latest_running_ts = WaitForTimestamp_init (max_offset cfg),
          source_set_input = replicate (getCountSources buffer) (replicate (ringbuffer_size cfg) False),
          running_taskflows = replicate (ringbuffer_size cfg) False, queued_messages = [],
          time_step_latest = -1,
          running_timestamps = replicate (ringbuffer_size cfg) kTimestampZero,
          free_taskflows_semaphore = Semaphore_init (int (ringbuffer_size cfg)) (int (ringbuffer_size cfg)),
          latest_scheduled_component_timestamp = replicate (getCountSources buffer) kTimestampZero,
          time_domain_clock = clock, stop_scheduled = False\<rparr>"
    using i(1) clock(1) by (simp add: Scheduler_init_def Let_def)
  have "core s 0"
    using i(4-6) clock(2)
    by (auto simp: s core_def shape_def matrix_ok_def locks_def window_def not_less)
  then have "sched_inv s"
    using i(4) by (auto simp: sched_inv_def s sem_free_def Semaphore_init_def idle_times_def)
  moreover have "offsets_ok s" using clock(3) i(3) by (simp add: s offsets_ok_def)
  ultimately show ?thesis by (simp add: sched_ok_def)
qed

interpretation sched: step_system sched_start sched_step sched_ok
  by unfold_locales (auto intro: sched_start_ok sched_step_ok)

end
