(* ===== verification/SchedulerProps.thy ===== *)
theory SchedulerProps
  imports SchedulerRequests
begin

text \<open>
  What the scheduler guarantees, and where its code does not do what its comments say. The concrete
  scheduler \<open>demo\<close> has a ring of two time steps and two sources; it is where the general statements
  are instantiated.
\<close>

section \<open>A concrete scheduler\<close>

definition demo_config :: "SourceMode \<Rightarrow> TimeDomainManagerConfig" where
  "demo_config mode = default_config\<lparr>ringbuffer_size := 2, max_offset := 5, sensor_frequency := 10000000,
     source_mode := mode\<rparr>"

definition demo_step :: "nat \<Rightarrow> TimeStepBuffer" where
  "demo_step i = \<lparr>tsb_time_step_index = i, buffer_data = [], header_data = [], tsb_time_domain = 0,
     current_ts = 0, current_message = EV_INVALID, component_buffer_to_index = [],
     component_buffers_list = [], source_buffer_list = [SourceComponentBuffer_init 0, SourceComponentBuffer_init 1],
     buffer_valid = [], buffer_timestamp = [], changed_pattern_instance_id = []\<rparr>"

definition demo_buffer :: TimeDomainBuffer where
  "demo_buffer = (TimeDomainBuffer_init 0)\<lparr>count_async_sources := 2,
     time_step_buffer := [demo_step 0, demo_step 1]\<rparr>"

definition demo :: "SourceMode \<Rightarrow> Scheduler" where
  "demo mode = (case Scheduler_init (demo_config mode) demo_buffer of Inr s \<Rightarrow> s)"

lemma demo_clock: "TimeDomainClock_init 10000000 5 1 = Inr
   \<lparr>expected_sensor_frequency = 10000000, tdc_max_offset = 5, alpha_0 = 1, alpha_1 = 0,
    sensor_delta_mean = 100, current_time_step = 0, initial_timestamp_mean = 0,
    current_timestamp = 0, expected_next_timestamp = 0, received_next_timestamps = []\<rparr>"
  by code_simp

lemma demo_sources: "getCountSources demo_buffer = 2"
  by (simp add: demo_buffer_def getCountSources_def getCountAsyncSources_def
      getCountInternalSyncSources_def TimeDomainBuffer_init_def)

lemma demo_init: "Scheduler_init (demo_config mode) demo_buffer = Inr (demo mode)"
proof -
  have "\<exists>s. Scheduler_init (demo_config mode) demo_buffer = Inr s"
    by (simp add: Scheduler_init_def demo_config_def default_config_def demo_clock Let_def)
  then show ?thesis by (auto simp: demo_def)
qed

lemma demo_eq: "demo mode =
  \<lparr>config = demo_config mode, time_domain_buffer = demo_buffer, time_step_count = 2,
   configure_finished = WaitForInit_init, start_finished = WaitForInit_init,
   stop_finished = WaitForInit_init, teardown_finished = WaitForInit_init,
   taskflow_started = Semaphore_init 1 0, latest_scheduled_ts = 0,
   latest_running_ts = WaitForTimestamp_init 5, source_set_input = [[False, False], [False, False]],
   running_taskflows = [False, False], queued_messages = [], time_step_latest = -1,
   running_timestamps = [0, 0], free_taskflows_semaphore = Semaphore_init 2 2,
   latest_scheduled_component_timestamp = [0, 0],
   time_domain_clock = \<lparr>expected_sensor_frequency = 10000000, tdc_max_offset = 5, alpha_0 = 1, alpha_1 = 0,
    sensor_delta_mean = 100, current_time_step = 0, initial_timestamp_mean = 0,
    current_timestamp = 0, expected_next_timestamp = 0, received_next_timestamps = []\<rparr>,
   stop_scheduled = False\<rparr>"
  using demo_init [of mode]
  by (simp add: Scheduler_init_def demo_config_def default_config_def demo_clock demo_sources Let_def
      numeral_2_eq_2 kTimestampZero_def)

lemma demo_start: "sched_start (demo mode)"
proof -
  have "buffers_ok 2 2 demo_buffer"
    using demo_sources
    by (simp add: buffers_ok_def steps_ok_def) (simp add: demo_buffer_def demo_step_def)
  moreover have "\<not> committed demo_buffer c i" if "i < 2" "c < 2" for c i
  proof -
    from that have "i = 0 \<or> i = 1" "c = 0 \<or> c = 1" by auto
    then show ?thesis by (auto simp: committed_def demo_buffer_def demo_step_def)
  qed
  moreover have "ringbuffer_size (demo_config mode) = 2" "max_offset (demo_config mode) = 5"
    "sensor_frequency (demo_config mode) = 10000000"
    by (simp_all add: demo_config_def)
  ultimately show ?thesis
    unfolding sched_start_def
    by (intro exI [of _ "demo_config mode"] exI [of _ demo_buffer]) (simp add: demo_init demo_sources)
qed

lemma demo_ok: "sched_ok (demo mode)"
  by (rule sched_start_ok [OF demo_start])

section \<open>The invariant, written out\<close>

lemma card_window:
  assumes "r \<le> n" and "0 < n"
  shows "card {i. i < n \<and> (l - int i) mod int n < int r} = r"
proof -
  let ?f = "\<lambda>i. nat ((l - int i) mod int n)"
  let ?A = "{i. i < n \<and> (l - int i) mod int n < int r}"
  have n: "0 < int n" using assms(2) by simp
  have inj: "inj_on ?f {0..<n}"
  proof (rule inj_onI)
    fix i j
    assume "i \<in> {0..<n}" "j \<in> {0..<n}" "?f i = ?f j"
    moreover have "0 \<le> (l - int i) mod int n" "0 \<le> (l - int j) mod int n" using n by simp_all
    ultimately show "i = j"
      using mod_int_unique [OF assms(2), of i j l] by (metis atLeastLessThan_iff eq_nat_nat_iff)
  qed
  have "?f ` {0..<n} \<subseteq> {0..<n}" using n by (auto simp: nat_less_iff)
  then have all: "?f ` {0..<n} = {0..<n}"
    using inj by (intro card_subset_eq) (auto simp: card_image)
  have "?f ` ?A = {0..<r}"
  proof
    show "?f ` ?A \<subseteq> {0..<r}" using n by (auto simp: nat_less_iff)
    show "{0..<r} \<subseteq> ?f ` ?A"
    proof
      fix x assume x: "x \<in> {0..<r}"
      then have "x \<in> ?f ` {0..<n}" using all assms(1) by auto
      then obtain i where i: "i < n" "x = ?f i" by auto
      then have "(l - int i) mod int n < int r" using x n by (auto simp: nat_less_iff)
      with i show "x \<in> ?f ` ?A" by auto
    qed
  qed
  moreover have "inj_on ?f ?A" using inj by (rule inj_on_subset) auto
  ultimately show ?thesis using card_image by fastforce
qed

lemma sched_inv_counts:
  assumes "sched_inv s"
  shows "card {i. i < slots s \<and> running_taskflows s ! i} = busy s \<and>
     sem_count (free_taskflows_semaphore s) = int (slots s - busy s) \<and> busy s \<le> slots s \<and>
     (queued_messages s \<noteq> [] \<longrightarrow> busy s = slots s)"
proof -
  from assms have w: "window s (busy s)" and r: "busy s \<le> slots s" and n: "0 < slots s"
    and f: "sem_free s (slots s - busy s)" and q: "queued_messages s \<noteq> [] \<longrightarrow> busy s = slots s"
    by (simp_all add: sched_inv_busy core_def shape_def)
  from w have "{i. i < slots s \<and> running_taskflows s ! i} =
      {i. i < slots s \<and> (time_step_latest s - int i) mod int (slots s) < int (busy s)}"
    by (auto simp: window_def)
  with card_window [OF r n] f q r show ?thesis by (simp add: sem_free_def)
qed

section \<open>Safety of every reachable state\<close>







section \<open>The order of events\<close>

text \<open>Events run in the order in which they were scheduled: an event that finds every time step
  running is appended to the queue and nothing else changes; otherwise it is put into the time step
  that follows the latest one in the ring.\<close>

theorem scheduleEvent_order:
  assumes "sched_inv s"
  shows "\<exists>s'. scheduleEvent ev ts s = Inr s' \<and>
     (if sem_count (free_taskflows_semaphore s) = 0
      then s' = s\<lparr>queued_messages := queued_messages s @
        [\<lparr>ev_timestamp = ts, ev_event_type = ev, ev_invalid_sources = [],
          ev_changed_pattern_instance_id = []\<rparr>]\<rparr>
      else queued_messages s' = [] \<and>
        time_step_latest s' = (time_step_latest s + 1) mod int (time_step_count s) \<and>
        running_timestamps s' = (running_timestamps s)[nat (time_step_latest s') := ts] \<and>
        sem_count (free_taskflows_semaphore s') = sem_count (free_taskflows_semaphore s) - 1)"
proof -
  let ?m = "\<lparr>ev_timestamp = ts, ev_event_type = ev, ev_invalid_sources = [],
          ev_changed_pattern_instance_id = []\<rparr>"
  from run_if_free_ok [OF assms message_ok_Nil [of ?m]] obtain s' where
    s': "scheduleEvent ev ts s = Inr s'" "sched_inv s'" "same_setup s s'"
      "if busy s < slots s
      then busy s' = Suc (busy s) \<and> queued_messages s' = [] \<and>
        time_step_latest s' = (time_step_latest s + 1) mod int (slots s) \<and>
        running_timestamps s' =
          (running_timestamps s)[nat ((time_step_latest s + 1) mod int (slots s)) := ts]
      else s' = s\<lparr>queued_messages := queued_messages s @ [?m]\<rparr>"
    by (auto simp: scheduleEvent_def)
  from s'(3) have "slots s' = slots s" by (simp add: same_setup_def)
  with s' sched_inv_counts [OF assms] sched_inv_counts [OF s'(2)] show ?thesis
    by (auto simp: of_nat_diff split: if_splits)
qed

theorem scheduleEvent_order_witness:
  "\<exists>s'. scheduleEvent CONFIGURE 0 (demo WAIT_FOR_BUFFER) = Inr s' \<and> time_step_latest s' = 0"
  using scheduleEvent_order [of "demo WAIT_FOR_BUFFER" CONFIGURE 0] demo_ok
  by (auto simp: sched_ok_def demo_eq Semaphore_init_def)

text \<open>The end of the oldest time step hands it to the head of the queue, or frees it when the
  queue is empty; its source locks are fresh for the next event either way.\<close>

theorem timeStepEnded_reuses:
  assumes "sched_inv s" and "oldest_slot s i"
  shows "\<exists>s'. timeStepEnded (int i) s = Inr s' \<and> sched_inv s' \<and>
     (case queued_messages s of
        [] \<Rightarrow> \<not> running_taskflows s' ! i \<and> running_timestamps s' ! i = kTimestampZero \<and>
          sem_count (free_taskflows_semaphore s') = sem_count (free_taskflows_semaphore s) + 1
      | m # q \<Rightarrow> queued_messages s' = q \<and> running_taskflows s' ! i \<and>
          running_timestamps s' ! i = ev_timestamp m \<and>
          sem_count (free_taskflows_semaphore s') = sem_count (free_taskflows_semaphore s))"
proof -
  from freeTimeStep_inv [OF assms] obtain s1 where
    s1: "freeTimeStep (int i) s = Inr s1" "sched_inv s1" "same_setup s s1"
    and cs: "case queued_messages s of
        [] \<Rightarrow> busy s = Suc (busy s1) \<and> queued_messages s1 = [] \<and>
          \<not> running_taskflows s1 ! i \<and> running_timestamps s1 ! i = kTimestampZero \<and>
          current_message (time_step_buffer (time_domain_buffer s1) ! i) =
          current_message (time_step_buffer (time_domain_buffer s) ! i)
      | m # q \<Rightarrow> busy s1 = busy s \<and> queued_messages s1 = q \<and>
          running_taskflows s1 ! i \<and> running_timestamps s1 ! i = ev_timestamp m \<and>
          current_message (time_step_buffer (time_domain_buffer s1) ! i) = ev_event_type m"
    by blast
  let ?s' = "event_finished (ended_event s i) s1"
  from timeStepEnded_inv [OF assms] s1(1) have e: "timeStepEnded (int i) s = Inr ?s'" "sched_inv ?s'" by auto
  have eq: "running_taskflows ?s' = running_taskflows s1" "running_timestamps ?s' = running_timestamps s1"
    "free_taskflows_semaphore ?s' = free_taskflows_semaphore s1"
    by (simp_all add: event_finished_def split: EventType.splits)
  have "slots s1 = slots s" using s1(3) by (simp add: same_setup_def)
  with sched_inv_counts [OF assms(1)] sched_inv_counts [OF s1(2)] cs e eq show ?thesis
    by (auto simp: of_nat_diff split: list.splits)
qed

lemma demo_configure:
  "\<exists>s. scheduleEvent CONFIGURE 0 (demo WAIT_FOR_BUFFER) = Inr s \<and> sched_inv s \<and> oldest_slot s 0 \<and>
     queued_messages s = []"
proof -
  have inv: "sched_inv (demo WAIT_FOR_BUFFER)" using demo_ok by (simp add: sched_ok_def)
  let ?m = "\<lparr>ev_timestamp = 0, ev_event_type = CONFIGURE, ev_invalid_sources = [],
          ev_changed_pattern_instance_id = []\<rparr>"
  from run_if_free_ok [OF inv message_ok_Nil [of ?m]] obtain s' where
    s': "scheduleEvent CONFIGURE 0 (demo WAIT_FOR_BUFFER) = Inr s'" "sched_inv s'"
      "same_setup (demo WAIT_FOR_BUFFER) s'" "busy s' = 1" "time_step_latest s' = 0" "queued_messages s' = []"
    by (auto simp: scheduleEvent_def demo_eq busy_def Semaphore_init_def)
  then have "oldest_slot s' 0" by (simp add: oldest_slot_def same_setup_def demo_eq)
  with s' show ?thesis by blast
qed

theorem timeStepEnded_reuses_witness:
  "\<exists>s s'. scheduleEvent CONFIGURE 0 (demo WAIT_FOR_BUFFER) = Inr s \<and>
     timeStepEnded (int 0) s = Inr s' \<and> \<not> running_taskflows s' ! 0"
proof -
  from demo_configure obtain s where s: "scheduleEvent CONFIGURE 0 (demo WAIT_FOR_BUFFER) = Inr s"
    "sched_inv s" "oldest_slot s 0" "queued_messages s = []" by blast
  from timeStepEnded_reuses [OF s(2,3)] s(1,4) show ?thesis by auto
qed

text \<open>\<open>timeStepEnded\<close> sets the flag of the event that the time step holds after it was handed on:
  with a queued event waiting, that event's flag is set before it has run, and the flag of the event
  that ended stays as it is.\<close>

theorem timeStepEnded_flags_next_event:
  assumes "sched_inv s" and "oldest_slot s i" and "queued_messages s = m # q"
  shows "\<exists>s1. freeTimeStep (int i) s = Inr s1 \<and>
     timeStepEnded (int i) s = Inr (event_finished (ev_event_type m) s1)"
  using timeStepEnded_inv [OF assms(1,2)] assms(3) by (auto simp: ended_event_def)

text \<open>Two time steps are taken, then a third event waits.\<close>

lemma demo_full:
  "\<exists>s. sched_inv s \<and> oldest_slot s 0 \<and> slots s = 2 \<and> sources s = 2 \<and> busy s = 2 \<and>
     config s = demo_config WAIT_FOR_BUFFER \<and> queued_messages s =
       [\<lparr>ev_timestamp = 0, ev_event_type = TEARDOWN, ev_invalid_sources = [],
         ev_changed_pattern_instance_id = []\<rparr>]"
proof -
  let ?m = "\<lambda>ev. \<lparr>ev_timestamp = 0, ev_event_type = ev, ev_invalid_sources = [],
          ev_changed_pattern_instance_id = []\<rparr>"
  have inv: "sched_inv (demo WAIT_FOR_BUFFER)" using demo_ok by (simp add: sched_ok_def)
  from run_if_free_ok [OF inv message_ok_Nil [of "?m CONFIGURE"]] obtain s1 where
    s1: "sched_inv s1" "same_setup (demo WAIT_FOR_BUFFER) s1" "busy s1 = 1" "time_step_latest s1 = 0"
      "queued_messages s1 = []"
    by (auto simp: demo_eq busy_def Semaphore_init_def)
  have sl1: "slots s1 = 2" using s1(2) by (simp add: same_setup_def demo_eq)
  from run_if_free_ok [OF s1(1) message_ok_Nil [of "?m STOP"]] obtain s2 where
    s2: "sched_inv s2" "same_setup s1 s2" "busy s2 = 2" "time_step_latest s2 = 1" "queued_messages s2 = []"
    using s1 sl1 by auto
  have sl2: "slots s2 = 2" using s2(2) sl1 by (simp add: same_setup_def)
  from run_if_free_ok [OF s2(1) message_ok_Nil [of "?m TEARDOWN"]] obtain s3 where
    s3: "sched_inv s3" "s3 = s2\<lparr>queued_messages := [?m TEARDOWN]\<rparr>"
    using s2 sl2 by auto
  have "busy s3 = 2" using s3(2) s2(3) by (simp add: busy_def)
  moreover have "oldest_slot s3 0" using s3(2) s2(4) sl2 calculation by (simp add: oldest_slot_def)
  moreover have "sources s3 = 2" "config s3 = demo_config WAIT_FOR_BUFFER"
    using s1(2) s2(2) s3(2) demo_sources by (simp_all add: same_setup_def demo_eq)
  ultimately show ?thesis using s3 sl2 by auto
qed

theorem timeStepEnded_flags_next_event_witness:
  "\<exists>s s'. timeStepEnded (int 0) s = Inr s' \<and> wfi_is_init (teardown_finished s') \<and>
     running_taskflows s' ! 0 \<and>
     current_message (time_step_buffer (time_domain_buffer s') ! 0) = TEARDOWN"
proof -
  from demo_full obtain s where s: "sched_inv s" "oldest_slot s 0" "slots s = 2"
    "queued_messages s = [\<lparr>ev_timestamp = 0, ev_event_type = TEARDOWN, ev_invalid_sources = [],
         ev_changed_pattern_instance_id = []\<rparr>]" by blast
  from timeStepEnded_flags_next_event [OF s(1,2,4)] obtain s1 where
    s1: "freeTimeStep (int 0) s = Inr s1" "timeStepEnded (int 0) s = Inr (event_finished TEARDOWN s1)"
    by auto
  from freeTimeStep_inv [OF s(1,2)] s(4) s1(1) have "running_taskflows s1 ! 0"
    "current_message (time_step_buffer (time_domain_buffer s1) ! 0) = TEARDOWN" by auto
  with s1(2) show ?thesis
    by (intro exI [of _ s] exI [of _ "event_finished TEARDOWN s1"])
      (simp add: event_finished_def wfi_SetInit_def)
qed

section \<open>Requests of new timestamps\<close>

text \<open>C21: A source that asks for the next expected frame gets a future for it, exactly one event is
  scheduled, with the expected instead of the requested timestamp, and the clock moves on by one frame.\<close>

theorem request_next_frame:
  assumes "sched_inv s" and "isNextExpectedTimestamp (time_domain_clock s) ts"
  shows "\<exists>s1. scheduleEvent DATA (expected_next_timestamp (time_domain_clock s))
         (s\<lparr>time_domain_clock := advance (time_domain_clock s)\<rparr>) = Inr s1 \<and>
     requestSourceBufferNewTimestampWait ts c s = Some (Inr (SF_Scheduled ts c, s1)) \<and> sched_inv s1 \<and>
     expected_next_timestamp (time_domain_clock s1) =
       expected_next_timestamp (time_domain_clock s) + sensor_delta_mean (time_domain_clock s)"
proof -
  from schedule_expected_inv [OF assms(1)] obtain s1 where
    s1: "schedule_expected s = Inr s1" "sched_inv s1"
      "time_domain_clock s1 = advance (time_domain_clock s)" by blast
  then have "scheduleEvent DATA (expected_next_timestamp (time_domain_clock s))
         (s\<lparr>time_domain_clock := advance (time_domain_clock s)\<rparr>) = Inr s1"
    using getNextExpectedTimestamp_ok [OF sched_inv_clock [OF assms(1)]]
    by (simp add: schedule_expected_def)
  with s1 assms(2) show ?thesis
    by (simp add: requestSourceBufferNewTimestampWait_def requestSourceBufferScheduled_def)
qed

text \<open>The demo scheduler after the first frame at 1000; the next one is expected at 1100.\<close>

definition later_clock :: TimeDomainClock where
  "later_clock = \<lparr>expected_sensor_frequency = 10000000, tdc_max_offset = 5, alpha_0 = 1, alpha_1 = 0,
    sensor_delta_mean = 100, current_time_step = 1, initial_timestamp_mean = 1000,
    current_timestamp = 1000, expected_next_timestamp = 1100, received_next_timestamps = []\<rparr>"

definition demo_later :: Scheduler where
  "demo_later = (demo WAIT_FOR_BUFFER)\<lparr>time_domain_clock := later_clock,
     latest_scheduled_component_timestamp := [1000, 1000]\<rparr>"

lemma demo_later_ok: "sched_inv demo_later" "offsets_ok demo_later"
proof -
  have "sched_inv (demo WAIT_FOR_BUFFER)" using demo_ok by (simp add: sched_ok_def)
  then show "sched_inv demo_later"
    by (subst sched_inv_cong [of _ "demo WAIT_FOR_BUFFER"])
      (simp_all add: demo_later_def demo_eq later_clock_def clock_ok_def)
  show "offsets_ok demo_later"
    by (simp add: offsets_ok_def demo_later_def demo_eq later_clock_def demo_config_def)
qed

lemma demo_later_eq: "sources demo_later = 2" "slots demo_later = 2"
  "config demo_later = demo_config WAIT_FOR_BUFFER" "time_domain_clock demo_later = later_clock"
  "queued_messages demo_later = []" "busy demo_later = 0"
  "latest_scheduled_component_timestamp demo_later = [1000, 1000]"
  "running_timestamps demo_later = [0, 0]" "stop_scheduled demo_later = False"
  by (simp_all add: demo_later_def demo_eq demo_sources busy_def Semaphore_init_def)

theorem request_next_frame_witness:
  "\<exists>s1. requestSourceBufferNewTimestampWait 1103 0 demo_later = Some (Inr (SF_Scheduled 1103 0, s1)) \<and>
     expected_next_timestamp (time_domain_clock s1) = 1200"
  using request_next_frame [OF demo_later_ok(1), of 1103 0]
  by (auto simp: demo_later_eq later_clock_def next_iff)

text \<open>A valid request for a timestamp that is neither running nor waiting gets to the padding loop.\<close>

lemma request_reaches_wait:
  assumes inv: "sched_inv s" and off: "offsets_ok s" and c: "c < sources s"
    and mode: "source_mode (config s) = WAIT_FOR_BUFFER"
      "missing_source_event_mode (config s) = WAIT_FOR_EVENT" "\<not> stop_scheduled s"
    and fresh: "initial_timestamp_mean (time_domain_clock s) \<noteq> 0"
      "initial_timestamp_mean (time_domain_clock s) + 2 * max_offset (config s) < ts"
      "latest_scheduled_component_timestamp s ! c < ts + 2 * max_offset (config s)"
      "not_marked ts c s"
    and absent: "\<forall>t \<in> set (running_timestamps s). \<not> isWithinRange ts t (max_offset (config s))"
      "\<forall>m \<in> set (queued_messages s). \<not> isWithinRange (ev_timestamp m) ts (max_offset (config s))"
    and clock: "newTimestamp ts (time_domain_clock s) = Inr (time_domain_clock s)"
  shows "\<exists>s'. requestSourceBuffer ts (int c) s = requestSourceBufferNewTimestampWait ts (int c) s' \<and>
    sched_inv s' \<and> offsets_ok s' \<and> sources s' = sources s \<and> config s' = config s \<and>
    time_domain_clock s' = time_domain_clock s"
proof -
  have len: "length (latest_scheduled_component_timestamp s) = sources s"
    using inv by (simp add: sched_inv_busy core_def shape_def)
  have valid: "isInvalidNextRequestedTimeStamp ts (int c) s = Inr False"
    using isInvalid_eq [of c s ts] c len fresh off by (auto simp: offsets_ok_def)
  have may: "\<forall>d \<in> may_cancel s c. not_marked ts d s" using fresh(4) mode(2) by (simp add: may_cancel_def)
  from cancelOlderEvents_inv [OF inv c may] obtain s1 where
    s1: "cancelOlderEvents ts (int c) s = Inr s1" "sched_inv s1" "cancel_frame s s1" by blast
  have same: "config s1 = config s" "time_domain_clock s1 = time_domain_clock s" "sources s1 = sources s"
    "stop_scheduled s1 = stop_scheduled s" "running_timestamps s1 = running_timestamps s"
    "length (latest_scheduled_component_timestamp s1) = sources s"
    using s1(3) len by (simp_all add: cancel_frame_def same_setup_def)
  have "map ev_timestamp (queued_messages s1) = map ev_timestamp (queued_messages s)"
  proof -
    have "map fst (map (\<lambda>m. (ev_timestamp m, ev_event_type m)) (queued_messages s1)) =
        map fst (map (\<lambda>m. (ev_timestamp m, ev_event_type m)) (queued_messages s))"
      using s1(3) by (simp only: cancel_frame_def)
    then show ?thesis by (simp add: comp_def)
  qed
  then have "ev_timestamp ` set (queued_messages s1) = ev_timestamp ` set (queued_messages s)"
    by (metis set_map)
  with absent(2) same(1) have notsch: "\<not> isTimestampScheduled s1 ts"
    by (auto simp: isTimestampScheduled_def list_ex_iff) (metis image_iff)
  have notrun: "isTimestampRunning s1 ts < 0"
    using absent(1) same by (simp add: isTimestampRunning_none)
  let ?s2 = "s1\<lparr>latest_scheduled_component_timestamp :=
     (latest_scheduled_component_timestamp s1)[c := ts]\<rparr>"
  have eq: "requestSourceBuffer ts (int c) s = requestSourceBufferNewTimestampWait ts (int c) ?s2"
    using valid clock s1(1) notsch notrun c same mode
    by (simp add: requestSourceBuffer_def requestSourceBuffer_valid_def requestSourceBufferNewTimestamp_def)
  have inv2: "sched_inv ?s2" using s1(2) by (subst sched_inv_cong [of _ s1]) simp_all
  have off2: "offsets_ok ?s2" using off same by (simp add: offsets_ok_def)
  from eq inv2 off2 same show ?thesis by (intro exI [of _ ?s2]) simp
qed

text \<open>C32: A source whose timestamp lies between two expected frames, further than the tolerance from
  both, is never answered: the padding loop schedules event after event and the request does not
  return, with the scheduler's mutex held.\<close>

theorem request_between_frames_diverges:
  assumes inv: "sched_inv s" and off: "offsets_ok s" and c: "c < sources s"
    and mode: "source_mode (config s) = WAIT_FOR_BUFFER"
      "missing_source_event_mode (config s) = WAIT_FOR_EVENT" "\<not> stop_scheduled s"
    and fresh: "initial_timestamp_mean (time_domain_clock s) \<noteq> 0"
      "initial_timestamp_mean (time_domain_clock s) + 2 * max_offset (config s) < ts"
      "latest_scheduled_component_timestamp s ! c < ts + 2 * max_offset (config s)"
      "not_marked ts c s"
    and absent: "\<forall>t \<in> set (running_timestamps s). \<not> isWithinRange ts t (max_offset (config s))"
      "\<forall>m \<in> set (queued_messages s). \<not> isWithinRange (ev_timestamp m) ts (max_offset (config s))"
    and gap: "expected s + 2 * max_offset (config s) < ts"
      "ts + 2 * max_offset (config s) < expected s + frame s"
  shows "requestSourceBuffer ts (int c) s = None"
proof -
  have clock: "newTimestamp ts (time_domain_clock s) = Inr (time_domain_clock s)"
    using fresh gap off
    by (subst newTimestamp_later_frame) (auto simp: isWithinRange_iff next_iff offsets_ok_def)
  from request_reaches_wait [OF inv off c mode fresh absent clock] obtain s' where
    eq: "requestSourceBuffer ts (int c) s = requestSourceBufferNewTimestampWait ts (int c) s'"
    and s': "sched_inv s'" "offsets_ok s'" "sources s' = sources s" "config s' = config s"
      "time_domain_clock s' = time_domain_clock s" by blast
  have "padding_loop ts (int c) s' = None"
    using padding_loop_unfold [OF s'(1) _ s'(2), of c ts] c s' gap by simp
  moreover have "\<not> isNextExpectedTimestamp (time_domain_clock s') ts"
    "isFurtherAheadThenNextExpectedTimestamp (time_domain_clock s') ts"
    using gap off s' by (auto simp: next_iff ahead_iff offsets_ok_def)
  ultimately show ?thesis by (simp add: eq requestSourceBufferNewTimestampWait_def)
qed

theorem request_between_frames_diverges_witness:
  "requestSourceBuffer 1150 (int 0) demo_later = None"
  by (rule request_between_frames_diverges [OF demo_later_ok])
    (simp_all add: demo_later_eq later_clock_def demo_config_def default_config_def not_marked_def
      isWithinRange_iff)

text \<open>A source that is further ahead gets exactly one padding event, whatever the number of
  frames that are missing, and one event at the frame after it: if its own timestamp is later, no
  event that the queue then holds is the one it waits for.\<close>

theorem request_far_ahead_pads_once:
  assumes inv: "sched_inv s" and off: "offsets_ok s" and c: "c < sources s"
    and full: "sem_count (free_taskflows_semaphore s) = 0"
    and far: "expected s + frame s + 2 * max_offset (config s) < ts"
    and absent: "\<forall>m \<in> set (queued_messages s). \<not> isWithinRange (ev_timestamp m) ts (max_offset (config s))"
  shows "\<exists>s'. requestSourceBufferNewTimestampWait ts (int c) s = Some (Inr (SF_Scheduled ts (int c), s')) \<and>
     queued_messages s' = queued_messages s @
       [\<lparr>ev_timestamp = expected s, ev_event_type = DATA, ev_invalid_sources = [int c],
         ev_changed_pattern_instance_id = []\<rparr>,
        \<lparr>ev_timestamp = expected s + frame s, ev_event_type = DATA, ev_invalid_sources = [],
         ev_changed_pattern_instance_id = []\<rparr>] \<and>
     \<not> isTimestampScheduled s' ts"
proof -
  let ?m1 = "\<lparr>ev_timestamp = expected s, ev_event_type = DATA, ev_invalid_sources = [int c],
         ev_changed_pattern_instance_id = []\<rparr>"
  let ?m2 = "\<lparr>ev_timestamp = expected s + frame s, ev_event_type = DATA, ev_invalid_sources = [],
         ev_changed_pattern_instance_id = []\<rparr>"
  have b: "busy s = slots s" using sched_inv_counts [OF inv] full by simp
  have fr: "0 \<le> frame s" using sched_inv_clock [OF inv] by (simp add: clock_ok_def)
  let ?c1 = "advance (time_domain_clock s)"
  let ?s0 = "s\<lparr>time_domain_clock := ?c1, latest_scheduled_ts := expected s\<rparr>"
  have inv0: "sched_inv ?s0" using inv by (subst sched_inv_cong [of _ s]) simp_all
  have b0: "busy ?s0 = slots s" using b by (simp add: busy_def)
  let ?s1 = "?s0\<lparr>queued_messages := queued_messages s @ [?m1]\<rparr>"
  from run_if_free_ok [OF inv0 message_ok_single [of ?m1 c]] c b0
  have r1: "run_if_free ?s1 = Inr ?s1" and inv1: "sched_inv ?s1" by auto
  then have pad: "padding_step (int c) s = Inr ?s1"
    using getNextExpectedTimestamp_ok [OF sched_inv_clock [OF inv]]
    by (simp add: padding_step_def schedulePaddingEvent_def)
  let ?s2 = "?s1\<lparr>time_domain_clock := advance ?c1\<rparr>"
  have inv2: "sched_inv ?s2" using inv1 sched_inv_clock [OF inv]
    by (subst sched_inv_cong [of _ ?s1]) simp_all
  have b2: "busy ?s2 = slots s" using b by (simp add: busy_def)
  let ?s3 = "?s2\<lparr>queued_messages := (queued_messages s @ [?m1]) @ [?m2]\<rparr>"
  from run_if_free_ok [OF inv2 message_ok_Nil [of ?m2]] b2
  have r2: "run_if_free ?s3 = Inr ?s3" by auto
  then have exp: "schedule_expected ?s1 = Inr ?s3"
    using getNextExpectedTimestamp_ok [of ?c1] sched_inv_clock [OF inv]
    by (simp add: schedule_expected_def scheduleEvent_def)
  have loop: "padding_loop ts (int c) s = Some (Inr ?s1)"
    using padding_loop_unfold [OF inv c off, of ts] far off pad by (simp add: offsets_ok_def)
  have "\<not> isNextExpectedTimestamp (time_domain_clock s) ts"
    "isFurtherAheadThenNextExpectedTimestamp (time_domain_clock s) ts"
    using far off fr by (auto simp: next_iff ahead_iff offsets_ok_def)
  then have "requestSourceBufferNewTimestampWait ts (int c) s = Some (Inr (SF_Scheduled ts (int c), ?s3))"
    using loop exp by (simp add: requestSourceBufferNewTimestampWait_def requestSourceBufferScheduled_def)
  moreover have "\<not> isTimestampScheduled ?s3 ts"
    using absent far fr off by (auto simp: isTimestampScheduled_def list_ex_iff isWithinRange_iff offsets_ok_def)
  ultimately show ?thesis by (intro exI [of _ ?s3]) simp
qed

lemma full_state:
  "\<exists>s. sched_inv s \<and> offsets_ok s \<and> sources s = 2 \<and> config s = demo_config WAIT_FOR_BUFFER \<and>
     sem_count (free_taskflows_semaphore s) = 0 \<and> time_domain_clock s = later_clock \<and>
     (\<forall>m \<in> set (queued_messages s). ev_timestamp m = 0)"
proof -
  from demo_full obtain s where s: "sched_inv s" "slots s = 2" "sources s = 2" "busy s = 2"
    "config s = demo_config WAIT_FOR_BUFFER" "\<forall>m \<in> set (queued_messages s). ev_timestamp m = 0"
    by auto
  let ?s = "s\<lparr>time_domain_clock := later_clock\<rparr>"
  have "sched_inv ?s" using s(1) sched_inv_clock [OF s(1)]
    by (subst sched_inv_cong [of _ s]) (simp_all add: later_clock_def clock_ok_def)
  moreover have "offsets_ok ?s" by (simp add: offsets_ok_def s(5) later_clock_def demo_config_def)
  moreover have "sem_count (free_taskflows_semaphore s) = 0" using sched_inv_counts [OF s(1)] s(2,4) by simp
  ultimately show ?thesis using s(3,5,6) by (intro exI [of _ ?s]) simp
qed

theorem request_far_ahead_pads_once_witness:
  "\<exists>s s'. requestSourceBufferNewTimestampWait 2000 (int 1) s = Some (Inr (SF_Scheduled 2000 (int 1), s')) \<and>
     \<not> isTimestampScheduled s' 2000"
proof -
  from full_state obtain s where s: "sched_inv s" "offsets_ok s" "sources s = 2"
    "config s = demo_config WAIT_FOR_BUFFER" "sem_count (free_taskflows_semaphore s) = 0"
    "time_domain_clock s = later_clock" "\<forall>m \<in> set (queued_messages s). ev_timestamp m = 0" by blast
  have far: "expected s + frame s + 2 * max_offset (config s) < 2000"
    by (simp add: s(4,6) later_clock_def demo_config_def)
  have "\<forall>m \<in> set (queued_messages s). \<not> isWithinRange (ev_timestamp m) 2000 (max_offset (config s))"
    using s(7) by (simp add: isWithinRange_iff s(4) demo_config_def)
  from request_far_ahead_pads_once [OF s(1,2) _ s(5) far this, of 1] s(3) show ?thesis by auto
qed

section \<open>Running time steps and idle slots\<close>

text \<open>A timestamp within the tolerance of a running one gets that time step, and its source is
  marked as handed out. That happens again when the same source asks for the same timestamp a second
  time: the comment of \<open>requestSourceBuffer\<close> calls this an invalid request.\<close>

theorem request_running_again:
  assumes inv: "sched_inv s" and off: "offsets_ok s" and c: "c < sources s"
    and mode: "missing_source_event_mode (config s) = WAIT_FOR_EVENT" and nm: "not_marked ts c s"
    and clock: "newTimestamp ts (time_domain_clock s) = Inr clk"
    and accepted: "initial_timestamp_mean (time_domain_clock s) \<le> ts + 2 * max_offset (config s)"
      "latest_scheduled_component_timestamp s ! c \<le> ts" "0 < max_offset (config s)"
    and i: "i < slots s" "isWithinRange ts (running_timestamps s ! i) (max_offset (config s))"
      "\<forall>j < i. \<not> isWithinRange ts (running_timestamps s ! j) (max_offset (config s))"
  shows "\<exists>s'. requestSourceBuffer ts (int c) s = Some (Inr (SF_Running ts (int c) (int i), s')) \<and>
     source_set_input s' ! c ! i \<and> running_timestamps s' = running_timestamps s"
proof -
  have len: "length (latest_scheduled_component_timestamp s) = sources s"
    and lt: "length (running_timestamps s) = slots s"
    using inv by (simp_all add: sched_inv_busy core_def shape_def)
  have valid: "isInvalidNextRequestedTimeStamp ts (int c) s = Inr False"
    using isInvalid_eq [of c s ts] c len accepted by auto
  let ?s = "s\<lparr>time_domain_clock := clk\<rparr>"
  have invs: "sched_inv ?s" using inv newTimestamp_ok [OF sched_inv_clock [OF inv] clock] sched_inv_clock [OF inv]
    by (subst sched_inv_cong [of _ s]) simp_all
  have "\<forall>d \<in> may_cancel ?s c. not_marked ts d ?s"
    using mode nm by (simp add: may_cancel_def not_marked_def older_def)
  from cancelOlderEvents_inv [OF invs _ this] c obtain s1 where
    s1: "cancelOlderEvents ts (int c) ?s = Inr s1" "sched_inv s1" "cancel_frame ?s s1" by auto
  have same: "config s1 = config s" "sources s1 = sources s" "slots s1 = slots s"
    "running_timestamps s1 = running_timestamps s"
    using s1(3) by (simp_all add: cancel_frame_def same_setup_def)
  have "find_index (\<lambda>running. isWithinRange ts running (max_offset (config s))) (running_timestamps s) = Some i"
  proof -
    obtain j where j: "find_index (\<lambda>running. isWithinRange ts running (max_offset (config s)))
        (running_timestamps s) = Some j"
      using find_index_None [of "\<lambda>running. isWithinRange ts running (max_offset (config s))" "running_timestamps s"]
        i lt by (metis (mono_tags, lifting) not_None_eq nth_mem)
    from find_index_Some [OF j] i(3) have "\<not> j < i" by blast
    moreover from find_index_first [OF j, of i] i(2) have "\<not> i < j" by blast
    ultimately show ?thesis using j by simp
  qed
  then have run: "isTimestampRunning s1 ts = int i" by (simp add: isTimestampRunning_def same)
  from requestRunning_inv [OF s1(2), of c i ts] c i(1) same obtain s2 where
    s2: "requestSourceBufferRunning ts (int c) (int i) s1 = Inr (SF_Running ts (int c) (int i), s2)"
      "source_set_input s2 ! c ! i" by auto
  then have "running_timestamps s2 = running_timestamps s1"
    by (auto simp: requestSourceBufferRunning_def set_source_input_def)
  with valid clock s1(1) run s2 same(4) show ?thesis
    by (simp add: requestSourceBuffer_def requestSourceBuffer_valid_def)
qed

definition demo_running :: Scheduler where
  "demo_running = demo_later\<lparr>running_taskflows := [True, False], running_timestamps := [1000, 0],
     time_step_latest := 0, source_set_input := [[True, False], [False, False]],
     free_taskflows_semaphore := \<lparr>sem_max_count = 2, sem_count = 1\<rparr>\<rparr>"

lemma demo_running_ok: "sched_inv demo_running" "offsets_ok demo_running"
proof -
  have r: "demo_running = demo_later\<lparr>running_taskflows := [True, False], running_timestamps := [1000, 0],
     time_step_latest := 0, source_set_input := [[True, False], [False, False]],
     free_taskflows_semaphore := \<lparr>sem_max_count = 2, sem_count = 1\<rparr>\<rparr>"
    by (simp add: demo_running_def)
  have l: "shape demo_later" "locks demo_later" "clock_ok (time_domain_clock demo_later)"
    using demo_later_ok(1) by (simp_all add: sched_inv_busy core_def)
  have none: "\<not> committed (time_domain_buffer demo_later) c i" if "i < 2" "c < 2" for c i
  proof
    assume "committed (time_domain_buffer demo_later) c i"
    with l(2) that have "running_taskflows demo_later ! i" by (simp add: locks_def demo_later_eq)
    moreover have "i = 0 \<or> i = 1" using that by auto
    ultimately show False by (auto simp: demo_later_def demo_eq)
  qed
  have "shape demo_running" using l(1) by (simp add: shape_def r demo_later_eq matrix_ok_def)
  moreover have "locks demo_running" using none by (simp add: locks_def r demo_later_eq)
  moreover have "window demo_running 1"
    by (auto simp: window_def r demo_later_eq less_2_cases_iff)
  ultimately have "core demo_running 1"
    using l(3) by (simp add: core_def r demo_later_eq)
  moreover have "idle_times demo_running"
    by (auto simp: idle_times_def r demo_later_eq less_2_cases_iff kTimestampZero_def)
  ultimately show "sched_inv demo_running"
    by (auto simp: sched_inv_def sem_free_def r demo_later_eq intro!: exI [of _ 1])
  show "offsets_ok demo_running"
    using demo_later_ok(2) by (simp add: offsets_ok_def r)
qed

theorem request_running_again_witness:
  "source_set_input demo_running ! 0 ! 0 \<and>
   (\<exists>s'. requestSourceBuffer 1000 (int 0) demo_running = Some (Inr (SF_Running 1000 (int 0) (int 0), s')))"
proof -
  have "newTimestamp 1000 (time_domain_clock demo_running) =
      Inr (later_clock\<lparr>current_timestamp := initial_timestamp_mean later_clock\<rparr>)"
    using newTimestamp_same_frame [of later_clock 1000]
    by (simp add: demo_running_def demo_later_eq later_clock_def clock_ok_def isWithinRange_iff)
  from request_running_again [OF demo_running_ok _ _ _ this, of 0 0] show ?thesis
    by (auto simp: demo_running_def demo_later_eq demo_config_def default_config_def not_marked_def
        later_clock_def isWithinRange_iff)
qed

text \<open>The timestamps of idle time steps are zero and are searched like those of running ones: with
  a tolerance above zero a timestamp near zero gets the buffer of a time step for which no event was
  scheduled.\<close>

theorem request_near_zero_gets_idle_slot:
  assumes inv: "sched_inv s" and c: "c < sources s" and idle: "busy s = 0"
    and mode: "missing_source_event_mode (config s) = WAIT_FOR_EVENT"
    and clock: "newTimestamp ts (time_domain_clock s) = Inr clk"
    and ts: "initial_timestamp_mean (time_domain_clock s) \<le> ts + 2 * max_offset (config s)"
      "latest_scheduled_component_timestamp s ! c < ts + 2 * max_offset (config s)"
      "\<bar>ts\<bar> \<le> 2 * max_offset (config s)"
  shows "\<exists>s'. requestSourceBuffer ts (int c) s = Some (Inr (SF_Running ts (int c) 0, s')) \<and>
     \<not> running_taskflows s' ! 0 \<and> queued_messages s' = []"
proof -
  have len: "length (latest_scheduled_component_timestamp s) = sources s" and n: "0 < slots s"
    and w: "window s 0" and it: "idle_times s" and q: "queued_messages s = []"
    and lt: "length (running_timestamps s) = slots s"
    using inv idle by (auto simp: sched_inv_busy core_def shape_def)
  have idle_all: "\<not> running_taskflows s ! i" if "i < slots s" for i
    using w that n by (auto simp: window_def not_less)
  have valid: "isInvalidNextRequestedTimeStamp ts (int c) s = Inr False"
    using isInvalid_eq [of c s ts] c len ts by auto
  let ?s = "s\<lparr>time_domain_clock := clk\<rparr>"
  have invs: "sched_inv ?s" using inv newTimestamp_ok [OF sched_inv_clock [OF inv] clock] sched_inv_clock [OF inv]
    by (subst sched_inv_cong [of _ s]) simp_all
  have "\<forall>d \<in> may_cancel ?s c. not_marked ts d ?s"
    using q by (simp add: may_cancel_def not_marked_def)
  from cancelOlderEvents_inv [OF invs _ this] c obtain s1 where
    s1: "cancelOlderEvents ts (int c) ?s = Inr s1" "sched_inv s1" "cancel_frame ?s s1" by auto
  have same: "config s1 = config s" "sources s1 = sources s" "slots s1 = slots s"
    "running_timestamps s1 = running_timestamps s" "running_taskflows s1 = running_taskflows s"
    "queued_messages s1 = []"
    using s1(3) q by (simp_all add: cancel_frame_def same_setup_def)
  have z: "running_timestamps s ! 0 = 0"
    using it idle_all n by (simp add: idle_times_def kTimestampZero_def)
  have "find_index (\<lambda>running. isWithinRange ts running (max_offset (config s))) (running_timestamps s) = Some 0"
  proof -
    obtain j where j: "find_index (\<lambda>running. isWithinRange ts running (max_offset (config s)))
        (running_timestamps s) = Some j"
      using find_index_None [of "\<lambda>running. isWithinRange ts running (max_offset (config s))" "running_timestamps s"]
        ts(3) z lt n by (metis (mono_tags, lifting) diff_zero isWithinRange_iff not_None_eq nth_mem)
    moreover have "\<not> 0 < j"
      using find_index_first [OF j, of 0] ts(3) z by (auto simp: isWithinRange_iff)
    ultimately show ?thesis by simp
  qed
  then have run: "isTimestampRunning s1 ts = int 0" by (simp add: isTimestampRunning_def same)
  from requestRunning_inv [OF s1(2), of c 0 ts] c n same obtain s2 where
    s2: "requestSourceBufferRunning ts (int c) (int 0) s1 = Inr (SF_Running ts (int c) (int 0), s2)"
      "running_taskflows s2 = running_taskflows s1" by auto
  then have "queued_messages s2 = queued_messages s1"
    by (auto simp: requestSourceBufferRunning_def set_source_input_def)
  with valid clock s1(1) run s2 same idle_all [OF n] show ?thesis
    by (simp add: requestSourceBuffer_def requestSourceBuffer_valid_def)
qed

theorem request_near_zero_gets_idle_slot_witness:
  "\<exists>s'. requestSourceBuffer 7 (int 1) (demo IMMEDIATE_RETURN) = Some (Inr (SF_Running 7 (int 1) 0, s')) \<and>
     \<not> running_taskflows s' ! 0"
proof -
  have inv: "sched_inv (demo IMMEDIATE_RETURN)" using demo_ok by (simp add: sched_ok_def)
  have "newTimestamp 7 (time_domain_clock (demo IMMEDIATE_RETURN)) =
      Inr ((time_domain_clock (demo IMMEDIATE_RETURN))\<lparr>initial_timestamp_mean := 7,
        expected_next_timestamp := 7, current_timestamp := 7, current_time_step := 0\<rparr>)"
    by (rule newTimestamp_first) (simp add: demo_eq kTimestampZero_def)
  from request_near_zero_gets_idle_slot [OF inv _ _ _ this, of 1] show ?thesis
    by (auto simp: demo_eq demo_sources busy_def Semaphore_init_def demo_config_def default_config_def)
qed

section \<open>Source modes\<close>

text \<open>In the mode \<open>IMMEDIATE_RETURN\<close> a new timestamp either gets the next time step of the ring at
  once, with the event in it, or is refused when all time steps run; it never enters the queue.\<close>

theorem request_immediate:
  assumes inv: "sched_inv s" and c: "c < sources s"
  shows "\<exists>s'. requestSourceBufferNewTimestampImmediate ts (int c) s =
       Inr (if sem_count (free_taskflows_semaphore s) = 0 then SF_Invalid
            else SF_Running ts (int c) ((time_step_latest s + 1) mod int (time_step_count s)), s') \<and>
     sched_inv s' \<and> queued_messages s' = queued_messages s \<and>
     (if sem_count (free_taskflows_semaphore s) = 0 then s' = s
      else running_timestamps s' ! nat (time_step_latest s') = ts \<and>
        time_step_latest s' = (time_step_latest s + 1) mod int (time_step_count s) \<and>
        wft_current_value (latest_running_ts s') = ts)"
proof (cases "busy s < slots s")
  case False
  then have "sem_count (free_taskflows_semaphore s) = 0" using sched_inv_counts [OF inv] by auto
  with False inv show ?thesis
    by (simp add: requestSourceBufferNewTimestampImmediate_def scheduleImmediately_eq
        requestSourceBufferInvalid_def)
next
  case True
  then have sem: "sem_count (free_taskflows_semaphore s) \<noteq> 0" using sched_inv_counts [OF inv] by auto
  let ?m = "\<lparr>ev_timestamp = ts, ev_event_type = DATA, ev_invalid_sources = [],
            ev_changed_pattern_instance_id = []\<rparr>"
  let ?s = "s\<lparr>latest_scheduled_ts := ts\<rparr>"
  have inv': "sched_inv ?s" using inv by (subst sched_inv_cong [of _ s]) simp_all
  have b: "busy ?s = busy s" by (simp add: busy_def)
  from run_if_free_ok [OF inv' message_ok_Nil [of ?m]] True b obtain s1 where s1:
    "run_if_free (?s\<lparr>queued_messages := queued_messages s @ [?m]\<rparr>) = Inr s1" "sched_inv s1"
    "same_setup ?s s1" "time_step_latest s1 = (time_step_latest s + 1) mod int (slots s)"
    "queued_messages s1 = []"
    "running_timestamps s1 =
      (running_timestamps s)[nat ((time_step_latest s + 1) mod int (slots s)) := ts]"
    "latest_running_ts s1 = wft_notifyAll ts (latest_running_ts s)"
    by auto
  let ?l = "nat (time_step_latest s1)"
  have n: "0 < int (slots s)" and lt: "length (running_timestamps s) = slots s"
    using inv by (simp_all add: sched_inv_busy core_def shape_def)
  then have l: "int ?l = time_step_latest s1" "?l < slots s" by (simp_all add: s1(4) nat_less_iff)
  have imm: "scheduleDataEventImmediately ts (int c) s = Inr (int ?l, s1)"
    using scheduleImmediately_eq [OF inv, of ts "int c"] True s1(1) l by simp
  from requestRunning_inv [OF s1(2), of c ?l ts] c l s1(3) obtain s2 where
    s2: "requestSourceBufferRunning ts (int c) (int ?l) s1 = Inr (SF_Running ts (int c) (int ?l), s2)"
      "sched_inv s2" by (auto simp: same_setup_def)
  have frame: "running_timestamps s2 = running_timestamps s1" "time_step_latest s2 = time_step_latest s1"
    "queued_messages s2 = queued_messages s1" "latest_running_ts s2 = latest_running_ts s1"
    using s2(1) by (auto simp: requestSourceBufferRunning_def set_source_input_def)
  have q: "queued_messages s = []" using True inv by (auto simp: sched_inv_busy)
  have "requestSourceBufferNewTimestampImmediate ts (int c) s = Inr (SF_Running ts (int c) (int ?l), s2)"
    using imm s2(1) by (simp add: requestSourceBufferNewTimestampImmediate_def del: of_nat_nat)
  with sem s2(2) frame s1 l lt q show ?thesis
    by (intro exI [of _ s2]) (simp add: wft_notifyAll_def)
qed

theorem request_immediate_witness:
  "\<exists>s'. requestSourceBufferNewTimestampImmediate 1000 (int 1) (demo IMMEDIATE_RETURN) =
     Inr (SF_Running 1000 (int 1) 0, s')"
proof -
  have "sched_inv (demo IMMEDIATE_RETURN)" using demo_ok by (simp add: sched_ok_def)
  from request_immediate [OF this, of 1 1000] show ?thesis
    by (auto simp: demo_eq demo_sources Semaphore_init_def)
qed

section \<open>Cancelling\<close>

text \<open>When a source asks for a newer timestamp, every running time step that is older than the
  tolerance allows is settled for this source: its lock is set unless the source holds the buffer
  already. The locks of all other sources, and of this source in the other time steps, stay.\<close>

theorem cancel_settles_older_steps:
  assumes inv: "sched_inv s" and c: "c < sources s" and nm: "not_marked ts c s"
  shows "\<exists>s'. cancelSourceWaitForEvent ts (int c) s = Inr s' \<and>
     (\<forall>i < slots s. running_taskflows s ! i \<and>
        running_timestamps s ! i + 2 * max_offset (config s) < ts \<longrightarrow>
          source_set_input s' ! c ! i \<and>
          (source_set_input s ! c ! i \<or> committed (time_domain_buffer s') c i)) \<and>
     (\<forall>i < slots s. \<forall>d < sources s.
        d \<noteq> c \<or> \<not> running_taskflows s ! i \<or> ts \<le> running_timestamps s ! i + 2 * max_offset (config s) \<longrightarrow>
          source_set_input s' ! d ! i = source_set_input s ! d ! i \<and>
          committed (time_domain_buffer s') d i = committed (time_domain_buffer s) d i)"
proof -
  have sh: "shape s" using inv by (simp add: sched_inv_busy core_def)
  from cancelSourceWaitForEvent_full [OF sh c, of ts] obtain X B where XB:
    "cancelSourceWaitForEvent ts (int c) s = Inr (cancel_queued (ts - max_offset (config s)) (int c)
         (s\<lparr>source_set_input := X, time_domain_buffer := B\<rparr>))" (is "_ = Inr ?s'")
     "\<forall>d < sources s. \<forall>j < slots s. X ! d ! j =
        (d = c \<and> cancels s (ts - max_offset (config s)) c j \<or> source_set_input s ! d ! j)"
     "\<forall>j < slots s. \<forall>d. committed B d j =
        (d = c \<and> cancels s (ts - max_offset (config s)) c j \<or> committed (time_domain_buffer s) d j)"
    by blast
  have f: "source_set_input ?s' = X" "time_domain_buffer ?s' = B" by (simp_all add: cancel_queued_def)
  have "cancels s (ts - max_offset (config s)) c i \<longleftrightarrow> \<not> source_set_input s ! c ! i \<and>
      running_taskflows s ! i \<and> running_timestamps s ! i + 2 * max_offset (config s) < ts" for i
    by (auto simp: cancels_def older_def)
  with XB c f show ?thesis by (intro exI [of _ ?s']) auto
qed

theorem cancel_settles_older_steps_witness:
  "\<exists>s'. cancelSourceWaitForEvent 1100 (int 1) demo_running = Inr s' \<and>
     source_set_input s' ! 1 ! 0 \<and> committed (time_domain_buffer s') 1 0"
proof -
  have "not_marked 1100 1 demo_running" by (simp add: not_marked_def demo_running_def demo_later_eq)
  moreover have "1 < sources demo_running" by (simp add: demo_running_def demo_later_eq)
  ultimately obtain s' where s': "cancelSourceWaitForEvent 1100 (int 1) demo_running = Inr s'"
    "\<forall>i < slots demo_running. running_taskflows demo_running ! i \<and>
        running_timestamps demo_running ! i + 2 * max_offset (config demo_running) < 1100 \<longrightarrow>
          source_set_input s' ! 1 ! i \<and>
          (source_set_input demo_running ! 1 ! i \<or> committed (time_domain_buffer s') 1 i)"
    using cancel_settles_older_steps [OF demo_running_ok(1)] by blast
  from s'(2) [rule_format, of 0] s'(1) show ?thesis
    by (simp add: demo_running_def demo_later_eq demo_config_def)
qed

text \<open>A slot that is released after a source has been cancelled: its locks are fresh.\<close>

lemma release_after_cancel:
  fixes s ts c X B
  defines "m \<equiv> ts - max_offset (config s)"
  assumes sh: "shape s" and lk: "locks s" and i: "i < slots s"
    and XB: "matrix_ok (sources s) (slots s) X" "buffers_ok (sources s) (slots s) B"
      "\<forall>d < sources s. \<forall>j < slots s. X ! d ! j = (d = c \<and> cancels s m c j \<or> source_set_input s ! d ! j)"
      "\<forall>j < slots s. \<forall>d. committed B d j = (d = c \<and> cancels s m c j \<or> committed (time_domain_buffer s) d j)"
  shows "shape (release_slot i (cancel_queued m (int c) (s\<lparr>source_set_input := X, time_domain_buffer := B\<rparr>)))"
    and "locks (release_slot i (cancel_queued m (int c) (s\<lparr>source_set_input := X, time_domain_buffer := B\<rparr>)))"
proof -
  let ?s1 = "cancel_queued m (int c) (s\<lparr>source_set_input := X, time_domain_buffer := B\<rparr>)"
  have kB: "getCountSources B = sources s" using XB(2) by (simp add: buffers_ok_def)
  have "shape ?s1" using sh XB(1,2) kB by (simp add: shape_def cancel_queued_def)
  moreover have "locks ?s1"
    using lk XB(3,4) kB by (auto simp: locks_def cancels_def cancel_queued_def)
  moreover have "i < slots ?s1" using i by (simp add: cancel_queued_def)
  ultimately show "shape (release_slot i ?s1)" "locks (release_slot i ?s1)" by (rule release_slot_ok)+
qed

text \<open>C37: A queued data event that holds a source as invalid, as every padding event does, gets the
  source a second time when that source asks for a newer timestamp. Running the event then sets the
  source's lock twice, and the exception leaves the end of the time step that was to make room.\<close>

theorem padding_event_marked_twice_fails:
  assumes inv: "sched_inv s" and old: "oldest_slot s i" and c: "c < sources s"
    and q: "queued_messages s = m # q" and m: "ev_event_type m = DATA" "ev_invalid_sources m = [int c]"
    and newer: "ev_timestamp m + 2 * max_offset (config s) < ts"
  shows "\<exists>s'. cancelSourceWaitForEvent ts (int c) s = Inr s' \<and>
     timeStepEnded (int i) s' = Inl PromiseSatisfied"
proof -
  let ?min = "ts - max_offset (config s)"
  from inv have c0: "core s (busy s)" by (simp add: sched_inv_busy)
  from inv q have full: "busy s = slots s" by (simp add: sched_inv_busy)
  from c0 have sh: "shape s" and lk: "locks s" and w: "window s (busy s)" by (simp_all add: core_def)
  from cancelSourceWaitForEvent_full [OF sh c, of ts] obtain X B where XB:
    "cancelSourceWaitForEvent ts (int c) s =
       Inr (cancel_queued ?min (int c) (s\<lparr>source_set_input := X, time_domain_buffer := B\<rparr>))"
    (is "_ = Inr ?s'")
    "matrix_ok (sources s) (slots s) X" "buffers_ok (sources s) (slots s) B"
     "\<forall>d < sources s. \<forall>j < slots s. X ! d ! j = (d = c \<and> cancels s ?min c j \<or> source_set_input s ! d ! j)"
     "\<forall>j < slots s. \<forall>d. committed B d j = (d = c \<and> cancels s ?min c j \<or> committed (time_domain_buffer s) d j)"
    by blast
  have kB: "getCountSources B = sources s" using XB(3) by (simp add: buffers_ok_def)
  let ?m = "m\<lparr>ev_invalid_sources := [int c, int c]\<rparr>"
  have "queued_messages ?s' = ?m # tl (queued_messages ?s')"
    using q m newer by (simp add: cancel_queued_def)
  then have q': "queued_messages ?s' = ?m # tl (queued_messages ?s')" .
  from old have i: "i < slots s" and b0: "0 < busy s"
    and dist: "(time_step_latest s - int i) mod int (slots s) = int (busy s) - 1"
    by (simp_all add: oldest_slot_def)
  from b0 obtain r where r: "busy s = Suc r" by (cases "busy s") auto
  let ?t = "resetNewEvent (time_step_buffer B ! i)"
  let ?B = "B\<lparr>time_step_buffer := (time_step_buffer B)[i := ?t]\<rparr>"
  let ?s2 = "?s'\<lparr>time_domain_buffer := ?B, running_taskflows := (running_taskflows s)[i := False]\<rparr>"
  have len: "i < length (time_step_buffer B)" using XB(3) i by (simp add: buffers_ok_def)
  have s2: "release_slot i ?s' = ?s2" by (simp add: release_slot_def cancel_queued_def)
  note sh2 = release_after_cancel(1) [OF sh lk i XB(2-5), unfolded s2]
    and lk2 = release_after_cancel(2) [OF sh lk i XB(2-5), unfolded s2]
  have w2: "window ?s2 r"
    using window_release [OF sh w [unfolded r] i] dist r by (simp add: window_def cancel_queued_def)
  have "freeTimeStep (int i) ?s' = runTaskFlowFromQueue ?s2"
    using sch_step_total [of i ?s' resetNewEvent] len sh i q
    by (simp add: freeTimeStep_def raw_set_int shape_def Let_def cancel_queued_def)
  also have "\<dots> = Inl PromiseSatisfied"
    using r full m(1) c kB q'
    by (intro run_duplicate_fails [OF sh2 w2 _ lk2, of ?m "tl (queued_messages ?s')" c])
      (simp_all add: cancel_queued_def)
  finally show ?thesis using XB(1) by (simp add: timeStepEnded_def)
qed

lemma full_with_padding:
  "\<exists>s. sched_inv s \<and> oldest_slot s 0 \<and> sources s = 2 \<and> config s = demo_config WAIT_FOR_BUFFER \<and>
     queued_messages s = [\<lparr>ev_timestamp = 1100, ev_event_type = DATA, ev_invalid_sources = [int 1],
         ev_changed_pattern_instance_id = []\<rparr>]"
proof -
  let ?m = "\<lparr>ev_timestamp = 0, ev_event_type = START, ev_invalid_sources = [],
          ev_changed_pattern_instance_id = []\<rparr>"
  let ?p = "\<lparr>ev_timestamp = 1100, ev_event_type = DATA, ev_invalid_sources = [int 1],
         ev_changed_pattern_instance_id = []\<rparr>"
  have inv: "sched_inv (demo WAIT_FOR_BUFFER)" using demo_ok by (simp add: sched_ok_def)
  from run_if_free_ok [OF inv message_ok_Nil [of ?m]] obtain s1 where
    s1: "sched_inv s1" "same_setup (demo WAIT_FOR_BUFFER) s1" "busy s1 = 1" "time_step_latest s1 = 0"
      "queued_messages s1 = []"
    by (auto simp: demo_eq busy_def Semaphore_init_def)
  have sl1: "slots s1 = 2" using s1(2) by (simp add: same_setup_def demo_eq)
  from run_if_free_ok [OF s1(1) message_ok_Nil [of ?m]] obtain s2 where
    s2: "sched_inv s2" "same_setup s1 s2" "busy s2 = 2" "time_step_latest s2 = 1" "queued_messages s2 = []"
    using s1 sl1 by auto
  have sl2: "slots s2 = 2" "sources s2 = 2"
    using s1(2) s2(2) sl1 demo_sources by (simp_all add: same_setup_def demo_eq)
  from run_if_free_ok [OF s2(1) message_ok_single [of ?p 1]] obtain s3 where
    s3: "sched_inv s3" "s3 = s2\<lparr>queued_messages := [?p]\<rparr>"
    using s2 sl2 by auto
  have "busy s3 = 2" using s3(2) s2(3) by (simp add: busy_def)
  moreover have "oldest_slot s3 0" using s3(2) s2(4) sl2 calculation by (simp add: oldest_slot_def)
  moreover have "sources s3 = 2" "config s3 = demo_config WAIT_FOR_BUFFER"
    using s1(2) s2(2) s3(2) demo_sources by (simp_all add: same_setup_def demo_eq)
  ultimately show ?thesis using s3 by auto
qed

theorem padding_event_marked_twice_fails_witness:
  "\<exists>s s'. cancelSourceWaitForEvent 1300 (int 1) s = Inr s' \<and>
     timeStepEnded (int 0) s' = Inl PromiseSatisfied"
proof -
  from full_with_padding obtain s where s: "sched_inv s" "oldest_slot s 0" "sources s = 2"
    "config s = demo_config WAIT_FOR_BUFFER"
    "queued_messages s = [\<lparr>ev_timestamp = 1100, ev_event_type = DATA, ev_invalid_sources = [int 1],
         ev_changed_pattern_instance_id = []\<rparr>]" by blast
  from padding_event_marked_twice_fails [OF s(1,2) _ s(5), of 1 1300] s(3,4) show ?thesis
    by (auto simp: demo_config_def)
qed

section \<open>Stopping, and reading a scheduled buffer\<close>

text \<open>Once the stop event is scheduled no request adds an event or takes a time step: it only
  cancels older ones and hands out what runs already.\<close>

theorem stopped_adds_nothing:
  assumes inv: "sched_inv s" and off: "offsets_ok s" and rq: "request_ok s ts c"
    and stop: "stop_scheduled s"
  shows "\<exists>f s'. requestSourceBuffer ts (int c) s = Some (Inr (f, s')) \<and>
     map ev_timestamp (queued_messages s') = map ev_timestamp (queued_messages s) \<and>
     running_taskflows s' = running_taskflows s \<and> running_timestamps s' = running_timestamps s"
proof -
  from rq have c: "c < sources s" by (simp add: request_ok_def)
  from rq obtain clk where clock: "newTimestamp ts (time_domain_clock s) = Inr clk"
    by (auto simp: request_ok_def is_ok_iff)
  let ?s = "s\<lparr>time_domain_clock := clk\<rparr>"
  have invs: "sched_inv ?s" using inv newTimestamp_ok [OF sched_inv_clock [OF inv] clock] sched_inv_clock [OF inv]
    by (subst sched_inv_cong [of _ s]) simp_all
  have "\<forall>d \<in> may_cancel ?s c. not_marked ts d ?s"
    using rq by (auto simp: request_ok_def may_cancel_def not_marked_def older_def)
  from cancelOlderEvents_inv [OF invs _ this] c obtain s1 where
    s1: "cancelOlderEvents ts (int c) ?s = Inr s1" "sched_inv s1" "cancel_frame ?s s1" by auto
  have same: "stop_scheduled s1" "running_timestamps s1 = running_timestamps s"
    "running_taskflows s1 = running_taskflows s"
    using s1(3) stop by (simp_all add: cancel_frame_def same_setup_def)
  have qs: "map ev_timestamp (queued_messages s1) = map ev_timestamp (queued_messages s)"
  proof -
    have "map fst (map (\<lambda>m. (ev_timestamp m, ev_event_type m)) (queued_messages s1)) =
        map fst (map (\<lambda>m. (ev_timestamp m, ev_event_type m)) (queued_messages s))"
      using s1(3) by (simp add: cancel_frame_def)
    then show ?thesis by (simp add: comp_def)
  qed
  from requestSourceBuffer_inv [OF inv off rq] obtain f s' where
    r: "requestSourceBuffer ts (int c) s = Some (Inr (f, s'))" by blast
  have "s' = s \<or> s' = s1 \<or> (\<exists>i. requestSourceBufferRunning ts (int c) i s1 = Inr (f, s')) \<or>
      (\<exists>x. s' = s1\<lparr>latest_scheduled_component_timestamp := x\<rparr>)"
    using r clock s1(1) same(1)
    by (auto simp: requestSourceBuffer_def requestSourceBuffer_valid_def Let_def
        requestSourceBufferNewTimestamp_def split: sum.splits bool.splits if_splits)
  with r same qs show ?thesis
    by (auto simp: requestSourceBufferRunning_def set_source_input_def)
qed

theorem stopped_adds_nothing_witness:
  "\<exists>f s'. requestSourceBuffer 1100 (int 0) (demo_later\<lparr>stop_scheduled := True\<rparr>) = Some (Inr (f, s')) \<and>
     map ev_timestamp (queued_messages s') = []"
proof -
  let ?s = "demo_later\<lparr>stop_scheduled := True\<rparr>"
  have "sched_inv ?s" using demo_later_ok(1) by (subst sched_inv_cong [of _ demo_later]) simp_all
  moreover have "offsets_ok ?s" using demo_later_ok(2) by (simp add: offsets_ok_def)
  moreover have "request_ok ?s 1100 0"
    by (simp add: request_ok_def demo_later_eq newTimestamp_later_frame later_clock_def isWithinRange_iff
        may_cancel_def not_marked_def between_frames_def demo_config_def default_config_def)
  ultimately show ?thesis
    using stopped_adds_nothing [of ?s 1100 0] by (auto simp: demo_later_eq)
qed




end
