(* ===== verification/Patterns.thy ===== *)
theory Patterns
  imports Datatypes
begin

text \<open>
  Patterns, the declarations of components that a graph instantiates: ports and port groups
  (\<open>include/traact/pattern/Port.h\<close>, \<open>src/traact/pattern/Port.cpp\<close>), the builder of
  \<open>src/traact/pattern/Pattern.cpp\<close> and the searches by name of \<open>include/traact/util/Utils.h\<close>.

  The \<open>parameter\<close> field of a port group, a value of the JSON library, and the functions that only fill
  it are in \<open>Parameters\<close>. \<open>std::set\<close> of edges is a finite set.
\<close>

section \<open>Searching by name\<close>

text \<open>\<open>vectorGetForName\<close> returns a pointer to the first match: here its position.\<close>

definition vectorContainsName :: "('a \<Rightarrow> string) \<Rightarrow> 'a list \<Rightarrow> string \<Rightarrow> bool" where
  "vectorContainsName getName vec name = list_ex (\<lambda>val. getName val = name) vec"

definition vectorGetForName :: "('a \<Rightarrow> string) \<Rightarrow> 'a list \<Rightarrow> string \<Rightarrow> nat option" where
  "vectorGetForName getName vec name = find_index (\<lambda>val. getName val = name) vec"

text \<open>
  \<open>containsName\<close> passes \<open>begin\<close> for both ends of the searched range: \<open>find_if\<close> returns \<open>begin\<close> at
  once, which differs from \<open>end\<close> exactly when the container has an element.
\<close>

definition containsName :: "('a \<Rightarrow> string) \<Rightarrow> 'a list \<Rightarrow> string \<Rightarrow> bool" where
  "containsName getName vec name = (0 \<noteq> length vec)"

lemma vectorContainsName_iff: "vectorContainsName f xs n \<longleftrightarrow> n \<in> f ` set xs"
  by (auto simp: vectorContainsName_def list_ex_iff)

lemma vectorGetForName_Some:
  "vectorGetForName f xs n = Some i \<Longrightarrow> i < length xs \<and> f (xs ! i) = n"
  unfolding vectorGetForName_def by (drule find_index_Some) simp

lemma vectorGetForName_None: "vectorGetForName f xs n = None \<longleftrightarrow> n \<notin> f ` set xs"
  by (auto simp: vectorGetForName_def find_index_None)

lemma vectorGetForName_contains:
  "vectorContainsName f xs n \<longleftrightarrow> (\<exists>i. vectorGetForName f xs n = Some i)"
  using vectorGetForName_None [of f xs n] by (auto simp: vectorContainsName_iff)

lemma vectorGetForName_distinct:
  assumes "distinct (map f xs)" and "i < length xs"
  shows "vectorGetForName f xs (f (xs ! i)) = Some i"
proof -
  have "f (xs ! i) \<in> f ` set xs" using assms(2) by auto
  then obtain j where j: "vectorGetForName f xs (f (xs ! i)) = Some j"
    using vectorGetForName_None [of f xs "f (xs ! i)"] by auto
  then have "j < length xs" "f (xs ! j) = f (xs ! i)" by (auto dest: vectorGetForName_Some)
  with assms have "j = i" by (auto simp: distinct_conv_nth)
  with j show ?thesis by simp
qed

section \<open>Ports and port groups\<close>

datatype PortType = PT_NONE | PRODUCER | CONSUMER

record Port =
  port_name :: string
  port_datatype :: string
  port_type :: PortType
  port_port_index :: int
  port_time_domain :: int

definition Port_make :: "string \<Rightarrow> string \<Rightarrow> PortType \<Rightarrow> int \<Rightarrow> int \<Rightarrow> Port" where
  "Port_make t_name t_datatype t_port_type t_port_index t_td =
     \<lparr>port_name = t_name, port_datatype = t_datatype, port_type = t_port_type,
      port_port_index = t_port_index, port_time_domain = t_td\<rparr>"

definition Port_default :: Port where
  "Port_default =
     \<lparr>port_name = ''Invalid'', port_datatype = ''Invalid'', port_type = PT_NONE,
      port_port_index = -1, port_time_domain = -1\<rparr>"

record CoordinateSystem =
  cs_name :: string
  cs_is_multi :: bool

record PortGroup =
  pg_name :: string
  pg_group_index :: int
  pg_min :: int
  pg_max :: int
  producer_ports :: "Port list"
  consumer_ports :: "Port list"
  coordinate_systems :: "(string, CoordinateSystem) omap"
  pg_edges :: "(string \<times> string \<times> string) set"

definition PortGroup_make :: "string \<Rightarrow> int \<Rightarrow> int \<Rightarrow> int \<Rightarrow> PortGroup" where
  "PortGroup_make name group_index t_min t_max =
     \<lparr>pg_name = name, pg_group_index = group_index, pg_min = t_min, pg_max = t_max,
      producer_ports = [], consumer_ports = [], coordinate_systems = [], pg_edges = {}\<rparr>"

definition count_time_domain :: "Port list \<Rightarrow> int \<Rightarrow> int" where
  "count_time_domain ports td =
     fold (\<lambda>port result. if port_time_domain port = td then result + 1 else result) ports 0"

definition PortGroup_getPortCount :: "PortGroup \<Rightarrow> PortType \<Rightarrow> int \<Rightarrow> int res" where
  "PortGroup_getPortCount g type td =
     (if type = PRODUCER then Inr (count_time_domain (producer_ports g) td)
      else if type = CONSUMER then Inr (count_time_domain (consumer_ports g) td)
      else Inl InvalidArgument)"

lemma count_time_domain_fold:
  "fold (\<lambda>port result. if port_time_domain port = td then result + 1 else result) ps (a::int) =
   a + int (length (filter (\<lambda>p. port_time_domain p = td) ps))"
  by (induction ps arbitrary: a) auto

lemma count_time_domain_eq:
  "count_time_domain ps td = int (length (filter (\<lambda>p. port_time_domain p = td) ps))"
  by (simp add: count_time_domain_def count_time_domain_fold)

section \<open>The pattern builder\<close>

abbreviation kDefaultPortGroupName :: string where "kDefaultPortGroupName \<equiv> ''Default''"
abbreviation (input) kDefaultPortGroupIndex :: "'a::zero" where "kDefaultPortGroupIndex \<equiv> 0"
abbreviation kSourceTag :: string where "kSourceTag \<equiv> ''Source''"
abbreviation kFunctionTag :: string where "kFunctionTag \<equiv> ''Function''"
abbreviation kSinkTag :: string where "kSinkTag \<equiv> ''Sink''"
abbreviation kSerialTag :: string where "kSerialTag \<equiv> ''Serial''"
abbreviation kUnlimitedTag :: string where "kUnlimitedTag \<equiv> ''Unlimited''"
abbreviation kSynchronousTag :: string where "kSynchronousTag \<equiv> ''Synchronous''"
abbreviation kAsynchronousTag :: string where "kAsynchronousTag \<equiv> ''Asynchronous''"

record Pattern =
  pat_name :: string
  pat_display_name :: string
  pat_description :: string
  pat_tags :: "string list"
  pat_concurrency :: "Concurrency list"
  time_domain_component_type :: "ComponentType list"
  port_groups :: "PortGroup list"
  is_group_port :: bool

definition Pattern_default :: Pattern where
  "Pattern_default =
     \<lparr>pat_name = ''invalid'', pat_display_name = ''invalid'', pat_description = [], pat_tags = [],
      pat_concurrency = [], time_domain_component_type = [],
      port_groups = [PortGroup_make ''Default'' 0 1 1], is_group_port = False\<rparr>"

definition addTag :: "string \<Rightarrow> Pattern \<Rightarrow> Pattern" where
  "addTag tag p = p\<lparr>pat_tags := pat_tags p @ [tag]\<rparr>"

fun timing_tag :: "ComponentType \<Rightarrow> string res" where
  "timing_tag ASYNC_SINK = Inr kAsynchronousTag"
| "timing_tag ASYNC_FUNCTIONAL = Inr kAsynchronousTag"
| "timing_tag ASYNC_SOURCE = Inr kAsynchronousTag"
| "timing_tag INTERNAL_SYNC_SOURCE = Inr kAsynchronousTag"
| "timing_tag SYNC_SOURCE = Inr kSynchronousTag"
| "timing_tag SYNC_FUNCTIONAL = Inr kSynchronousTag"
| "timing_tag SYNC_SINK = Inr kSynchronousTag"
| "timing_tag CT_INVALID = Inl InvalidArgument"

fun role_tag :: "ComponentType \<Rightarrow> string res" where
  "role_tag SYNC_SOURCE = Inr kSourceTag"
| "role_tag ASYNC_SOURCE = Inr kSourceTag"
| "role_tag INTERNAL_SYNC_SOURCE = Inr kSourceTag"
| "role_tag ASYNC_FUNCTIONAL = Inr kFunctionTag"
| "role_tag SYNC_FUNCTIONAL = Inr kFunctionTag"
| "role_tag SYNC_SINK = Inr kSinkTag"
| "role_tag ASYNC_SINK = Inr kSinkTag"
| "role_tag CT_INVALID = Inl InvalidArgument"

definition Pattern_make :: "string \<Rightarrow> Concurrency \<Rightarrow> ComponentType \<Rightarrow> Pattern res" where
  "Pattern_make name t_concurrency component_type =
     (let p0 = \<lparr>pat_name = name, pat_display_name = name, pat_description = [], pat_tags = [],
                pat_concurrency = [t_concurrency], time_domain_component_type = [component_type],
                port_groups = [PortGroup_make kDefaultPortGroupName kDefaultPortGroupIndex 1 1],
                is_group_port = False\<rparr>;
          p1 = (if t_concurrency = SERIAL then addTag kSerialTag p0 else addTag kUnlimitedTag p0)
      in bind_res (timing_tag component_type) (\<lambda>timing.
         bind_res (role_tag component_type) (\<lambda>role. Inr (addTag role (addTag timing p1)))))"

definition checkName :: "string \<Rightarrow> PortGroup \<Rightarrow> unit res" where
  "checkName name port_group =
     (if vectorContainsName port_name (producer_ports port_group) name then Inl InvalidArgument
      else if vectorContainsName port_name (consumer_ports port_group) name then Inl InvalidArgument
      else Inr ())"

definition addPort :: "string \<Rightarrow> int \<Rightarrow> PortType \<Rightarrow> string \<Rightarrow> PortGroup \<Rightarrow> PortGroup res" where
  "addPort name td type type_name pg =
     bind_res (checkName name pg) (\<lambda>_.
     if type = PRODUCER then
       bind_res (PortGroup_getPortCount pg PRODUCER td) (\<lambda>index.
       Inr (pg\<lparr>producer_ports := producer_ports pg @
              [Port_make name type_name PRODUCER index td]\<rparr>))
     else
       bind_res (PortGroup_getPortCount pg CONSUMER td) (\<lambda>index.
       Inr (pg\<lparr>consumer_ports := consumer_ports pg @
              [Port_make name type_name CONSUMER index td]\<rparr>)))"

text \<open>
  The overload with the port's type as template argument takes the data type's name and the port
  index from that type; it does not count the ports of the group.
\<close>

definition addPort_typed ::
    "string \<Rightarrow> int \<Rightarrow> string \<Rightarrow> int \<Rightarrow> PortType \<Rightarrow> PortGroup \<Rightarrow> PortGroup res" where
  "addPort_typed native_type_name port_idx name td type pg =
     bind_res (checkName name pg) (\<lambda>_.
     if type = PRODUCER then
       Inr (pg\<lparr>producer_ports := producer_ports pg @
              [Port_make name native_type_name PRODUCER port_idx td]\<rparr>)
     else
       Inr (pg\<lparr>consumer_ports := consumer_ports pg @
              [Port_make name native_type_name CONSUMER port_idx td]\<rparr>))"

text \<open>Every builder method works on \<open>back()\<close> between begin and end of a group, else on \<open>front()\<close>.\<close>

definition current_group :: "Pattern \<Rightarrow> nat" where
  "current_group p = (if is_group_port p then length (port_groups p) - 1 else 0)"

definition on_group :: "(PortGroup \<Rightarrow> PortGroup res) \<Rightarrow> Pattern \<Rightarrow> Pattern res" where
  "on_group f p =
     bind_res (raw_get (port_groups p) (int (current_group p))) (\<lambda>pg.
     bind_res (f pg) (\<lambda>pg'.
     Inr (p\<lparr>port_groups := (port_groups p)[current_group p := pg']\<rparr>)))"

text \<open>The argument \<open>port_index\<close> of both methods is not used.\<close>

definition addProducerPort :: "string \<Rightarrow> string \<Rightarrow> int \<Rightarrow> int \<Rightarrow> Pattern \<Rightarrow> Pattern res" where
  "addProducerPort name data_type_name index td =
     on_group (addPort name td PRODUCER data_type_name)"

definition addConsumerPort :: "string \<Rightarrow> string \<Rightarrow> int \<Rightarrow> int \<Rightarrow> Pattern \<Rightarrow> Pattern res" where
  "addConsumerPort name data_type_name index td =
     on_group (addPort name td CONSUMER data_type_name)"

definition addProducerPort_typed :: "string \<Rightarrow> int \<Rightarrow> string \<Rightarrow> int \<Rightarrow> Pattern \<Rightarrow> Pattern res" where
  "addProducerPort_typed native_type_name port_idx name td =
     on_group (addPort_typed native_type_name port_idx name td PRODUCER)"

definition addConsumerPort_typed :: "string \<Rightarrow> int \<Rightarrow> string \<Rightarrow> int \<Rightarrow> Pattern \<Rightarrow> Pattern res" where
  "addConsumerPort_typed native_type_name port_idx name td =
     on_group (addPort_typed native_type_name port_idx name td CONSUMER)"

definition addCoordinateSystem :: "string \<Rightarrow> bool \<Rightarrow> Pattern \<Rightarrow> Pattern res" where
  "addCoordinateSystem name is_multi =
     on_group (\<lambda>g. Inr (g\<lparr>coordinate_systems :=
       emplace name \<lparr>cs_name = name, cs_is_multi = is_multi\<rparr> (coordinate_systems g)\<rparr>))"

definition addEdge :: "string \<Rightarrow> string \<Rightarrow> string \<Rightarrow> Pattern \<Rightarrow> Pattern res" where
  "addEdge source destination port =
     on_group (\<lambda>g. Inr (g\<lparr>pg_edges := insert (source, destination, port) (pg_edges g)\<rparr>))"

definition beginPortGroup :: "string \<Rightarrow> int \<Rightarrow> int \<Rightarrow> Pattern \<Rightarrow> Pattern" where
  "beginPortGroup name t_min t_max p =
     (let group_index = int (length (port_groups p))
      in p\<lparr>is_group_port := True,
           port_groups := port_groups p @ [PortGroup_make name group_index t_min t_max]\<rparr>)"

definition endPortGroup :: "Pattern \<Rightarrow> Pattern" where
  "endPortGroup p = p\<lparr>is_group_port := False\<rparr>"

definition addTimeDomain :: "ComponentType \<Rightarrow> Pattern \<Rightarrow> Pattern" where
  "addTimeDomain component_type p =
     p\<lparr>time_domain_component_type := time_domain_component_type p @ [component_type]\<rparr>"

definition setDisplayName :: "string \<Rightarrow> Pattern \<Rightarrow> Pattern" where
  "setDisplayName display_name p = p\<lparr>pat_display_name := display_name\<rparr>"

definition setDescription :: "string \<Rightarrow> Pattern \<Rightarrow> Pattern" where
  "setDescription description p = p\<lparr>pat_description := description\<rparr>"

definition hasProducerPorts :: "Pattern \<Rightarrow> bool" where
  "hasProducerPorts p = list_ex (\<lambda>g. \<not> List.null (producer_ports g)) (port_groups p)"

definition hasConsumerPorts :: "Pattern \<Rightarrow> bool" where
  "hasConsumerPorts p = list_ex (\<lambda>g. \<not> List.null (consumer_ports g)) (port_groups p)"

section \<open>What the builder guarantees\<close>

text \<open>
  Within a group the ports of one direction and one time domain are numbered from 0 in order, their
  types say their direction, and no name is used twice; the groups are numbered by position.
\<close>

definition ports_numbered :: "Port list \<Rightarrow> bool" where
  "ports_numbered ps \<longleftrightarrow> (\<forall>td. map port_port_index (filter (\<lambda>p. port_time_domain p = td) ps) =
     map int [0..<length (filter (\<lambda>p. port_time_domain p = td) ps)])"

definition group_ok :: "PortGroup \<Rightarrow> bool" where
  "group_ok g \<longleftrightarrow> ports_numbered (producer_ports g) \<and> ports_numbered (consumer_ports g) \<and>
     list_all (\<lambda>p. port_type p = PRODUCER) (producer_ports g) \<and>
     list_all (\<lambda>p. port_type p = CONSUMER) (consumer_ports g) \<and>
     distinct (map port_name (producer_ports g @ consumer_ports g))"

definition pattern_ok :: "Pattern \<Rightarrow> bool" where
  "pattern_ok p \<longleftrightarrow> port_groups p \<noteq> [] \<and> list_all group_ok (port_groups p) \<and>
     map pg_group_index (port_groups p) = map int [0..<length (port_groups p)]"

text \<open>
  The same with exceptions: a port that satisfies \<open>D\<close> may have another index. Typed ports are such
  exceptions, because their index is part of their type.
\<close>

definition numbered_but :: "(Port \<Rightarrow> bool) \<Rightarrow> Port list \<Rightarrow> bool" where
  "numbered_but D ps \<longleftrightarrow> (\<forall>td. \<forall>k < length (filter (\<lambda>p. port_time_domain p = td) ps).
     port_port_index (filter (\<lambda>p. port_time_domain p = td) ps ! k) = int k \<or>
     D (filter (\<lambda>p. port_time_domain p = td) ps ! k))"

definition group_but :: "(Port \<Rightarrow> bool) \<Rightarrow> PortGroup \<Rightarrow> bool" where
  "group_but D g \<longleftrightarrow> numbered_but D (producer_ports g) \<and> numbered_but D (consumer_ports g) \<and>
     list_all (\<lambda>p. port_type p = PRODUCER) (producer_ports g) \<and>
     list_all (\<lambda>p. port_type p = CONSUMER) (consumer_ports g) \<and>
     distinct (map port_name (producer_ports g @ consumer_ports g))"

definition pattern_but :: "(Port \<Rightarrow> bool) \<Rightarrow> Pattern \<Rightarrow> bool" where
  "pattern_but D p \<longleftrightarrow> port_groups p \<noteq> [] \<and> list_all (group_but D) (port_groups p) \<and>
     map pg_group_index (port_groups p) = map int [0..<length (port_groups p)]"

lemma ports_numbered_but: "ports_numbered ps \<longleftrightarrow> numbered_but (\<lambda>_. False) ps"
proof -
  have "map f xs = map int [0..<length xs] \<longleftrightarrow> (\<forall>k < length xs. f (xs ! k) = int k)" for f and xs :: "Port list"
    unfolding list_eq_iff_nth_eq by simp
  then show ?thesis unfolding ports_numbered_def numbered_but_def by simp
qed

lemma pattern_ok_but: "pattern_ok p \<longleftrightarrow> pattern_but (\<lambda>_. False) p"
proof -
  have "group_ok = group_but (\<lambda>_. False)"
    by (simp add: fun_eq_iff group_ok_def group_but_def ports_numbered_but)
  then show ?thesis by (simp add: pattern_ok_def pattern_but_def)
qed

lemma numbered_but_Nil [simp]: "numbered_but D []"
  by (simp add: numbered_but_def)

lemma numbered_but_snoc:
  "numbered_but D ps \<Longrightarrow> port_port_index p = count_time_domain ps (port_time_domain p) \<or> D p \<Longrightarrow>
   numbered_but D (ps @ [p])"
  by (auto simp: numbered_but_def count_time_domain_eq nth_append less_Suc_eq)

lemma group_but_make [simp]: "group_but D (PortGroup_make n i a b)"
  by (simp add: group_but_def PortGroup_make_def)

lemma group_ok_make [simp]: "group_ok (PortGroup_make n i a b)"
  by (simp add: group_ok_def PortGroup_make_def ports_numbered_but)

lemma checkName_Inr [simp]:
  "checkName n g = Inr u \<longleftrightarrow> n \<notin> port_name ` set (producer_ports g @ consumer_ports g)"
  by (auto simp: checkName_def vectorContainsName_iff)

lemma addPort_but:
  assumes "group_but D g" and "addPort n td t dt g = Inr g'"
  shows "group_but D g' \<and> pg_group_index g' = pg_group_index g"
  using assms
  by (auto simp: group_but_def addPort_def PortGroup_getPortCount_def Port_make_def
      split: if_splits intro!: numbered_but_snoc) (metis disjoint_iff image_eqI)+

lemma addPort_typed_but:
  assumes "group_but D g" and "addPort_typed nt i n td t g = Inr g'" and "t \<noteq> PT_NONE"
    and "D (Port_make n nt t i td)"
  shows "group_but D g' \<and> pg_group_index g' = pg_group_index g"
  using assms
  by (cases t) (auto simp: group_but_def addPort_typed_def Port_make_def
      split: if_splits intro!: numbered_but_snoc, (metis disjoint_iff image_eqI)+)

lemma on_group_but:
  assumes "pattern_but D p" and "on_group f p = Inr p'"
    and f: "\<And>g g'. group_but D g \<Longrightarrow> f g = Inr g' \<Longrightarrow>
              group_but D g' \<and> pg_group_index g' = pg_group_index g"
  shows "pattern_but D p'"
proof -
  let ?i = "current_group p"
  from assms(2) obtain g' where i: "?i < length (port_groups p)"
    and g': "f (port_groups p ! ?i) = Inr g'"
    and p': "p' = p\<lparr>port_groups := (port_groups p)[?i := g']\<rparr>"
    by (auto simp: on_group_def)
  from assms(1) i have ok: "group_but D (port_groups p ! ?i)"
    by (simp add: pattern_but_def list_all_length)
  from f [OF ok g'] have new: "group_but D g'" "pg_group_index g' = pg_group_index (port_groups p ! ?i)"
    by auto
  from new(2) i have "map pg_group_index ((port_groups p)[?i := g']) = map pg_group_index (port_groups p)"
    by (simp add: map_update) (metis list_update_id map_update)
  with assms(1) new(1) i p' show ?thesis
    by (auto simp: pattern_but_def list_all_length nth_list_update)
qed

lemma Pattern_default_ok: "pattern_ok Pattern_default"
  by (simp add: pattern_ok_def Pattern_default_def) (simp add: PortGroup_make_def)

lemma Pattern_make_but: "Pattern_make n c t = Inr p \<Longrightarrow> pattern_but D p"
  by (cases "c = SERIAL") (auto simp: Pattern_make_def pattern_but_def addTag_def PortGroup_make_def
      group_but_def)

lemma Pattern_make_ok: "Pattern_make n c t = Inr p \<Longrightarrow> pattern_ok p"
  by (simp add: pattern_ok_but Pattern_make_but)

lemma pattern_but_fields:
  "pattern_but D p \<Longrightarrow> pattern_but D (endPortGroup p)"
  "pattern_but D p \<Longrightarrow> pattern_but D (addTimeDomain t p)"
  "pattern_but D p \<Longrightarrow> pattern_but D (setDisplayName s p)"
  "pattern_but D p \<Longrightarrow> pattern_but D (setDescription s p)"
  "pattern_but D p \<Longrightarrow> pattern_but D (addTag s p)"
  by (simp_all add: pattern_but_def endPortGroup_def addTimeDomain_def setDisplayName_def
      setDescription_def addTag_def)

lemma beginPortGroup_but: "pattern_but D p \<Longrightarrow> pattern_but D (beginPortGroup n a b p)"
  by (simp add: pattern_but_def beginPortGroup_def Let_def) (simp add: PortGroup_make_def)

section \<open>Builder programs\<close>

text \<open>
  A sequence of builder calls, as a component's author writes it. A typed call names the data type and
  the index of the port's type before the arguments of the method.
\<close>

datatype build_call =
    AddProducer string string int
  | AddConsumer string string int
  | AddProducerTyped string int string int
  | AddConsumerTyped string int string int
  | AddCoordinateSystem string bool
  | AddEdge string string string
  | BeginGroup string int int
  | EndGroup
  | AddTimeDomain ComponentType
  | SetDisplayName string
  | SetDescription string
  | AddTag string

fun build_step :: "build_call \<Rightarrow> Pattern \<Rightarrow> Pattern res" where
  "build_step (AddProducer n dt td) p = addProducerPort n dt (-1) td p"
| "build_step (AddConsumer n dt td) p = addConsumerPort n dt (-1) td p"
| "build_step (AddProducerTyped nt i n td) p = addProducerPort_typed nt i n td p"
| "build_step (AddConsumerTyped nt i n td) p = addConsumerPort_typed nt i n td p"
| "build_step (AddCoordinateSystem n m) p = addCoordinateSystem n m p"
| "build_step (AddEdge a b c) p = addEdge a b c p"
| "build_step (BeginGroup n a b) p = Inr (beginPortGroup n a b p)"
| "build_step EndGroup p = Inr (endPortGroup p)"
| "build_step (AddTimeDomain t) p = Inr (addTimeDomain t p)"
| "build_step (SetDisplayName s) p = Inr (setDisplayName s p)"
| "build_step (SetDescription s) p = Inr (setDescription s p)"
| "build_step (AddTag s) p = Inr (addTag s p)"

definition build :: "Pattern \<Rightarrow> build_call list \<Rightarrow> Pattern res" where
  "build p calls = fold_res build_step calls p"

text \<open>The port that a typed call adds.\<close>

fun typed_port :: "build_call \<Rightarrow> Port option" where
  "typed_port (AddProducerTyped nt i n td) = Some (Port_make n nt PRODUCER i td)"
| "typed_port (AddConsumerTyped nt i n td) = Some (Port_make n nt CONSUMER i td)"
| "typed_port _ = None"

lemma build_step_but:
  assumes "build_step c p = Inr p'" and "pattern_but D p" and "\<And>q. typed_port c = Some q \<Longrightarrow> D q"
  shows "pattern_but D p'"
proof -
  note group = on_group_but [OF assms(2)]
  have field: "pattern_but D p'" if "on_group (\<lambda>g. Inr (upd g)) p = Inr p'"
    "\<And>g. producer_ports (upd g) = producer_ports g \<and> consumer_ports (upd g) = consumer_ports g \<and>
       pg_group_index (upd g) = pg_group_index g" for upd
    by (rule group [OF that(1)]) (clarsimp simp: group_but_def that(2))
  from assms show ?thesis
  proof (cases c)
    case (AddProducer n dt td)
    with assms(1) group [where f = "addPort n td PRODUCER dt"] show ?thesis
      using addPort_but by (simp add: addProducerPort_def)
  next
    case (AddConsumer n dt td)
    with assms(1) group [where f = "addPort n td CONSUMER dt"] show ?thesis
      using addPort_but by (simp add: addConsumerPort_def)
  next
    case (AddProducerTyped nt i n td)
    with assms(1,3) group [where f = "addPort_typed nt i n td PRODUCER"] show ?thesis
      using addPort_typed_but by (simp add: addProducerPort_typed_def)
  next
    case (AddConsumerTyped nt i n td)
    with assms(1,3) group [where f = "addPort_typed nt i n td CONSUMER"] show ?thesis
      using addPort_typed_but by (simp add: addConsumerPort_typed_def)
  next
    case (AddCoordinateSystem n m)
    with assms(1) show ?thesis by (auto simp: addCoordinateSystem_def intro: field)
  next
    case (AddEdge a b c)
    with assms(1) show ?thesis by (auto simp: addEdge_def intro: field)
  qed (auto intro: pattern_but_fields beginPortGroup_but)
qed

lemma build_but:
  assumes "build p calls = Inr p'" and "pattern_but D p"
    and "\<And>c q. c \<in> set calls \<Longrightarrow> typed_port c = Some q \<Longrightarrow> D q"
  shows "pattern_but D p'"
  using fold_res_invariant [of build_step calls p p' "pattern_but D"] assms build_step_but
  unfolding build_def by blast

lemma build_ok:
  "build p calls = Inr p' \<Longrightarrow> pattern_ok p \<Longrightarrow> list_all (\<lambda>c. typed_port c = None) calls \<Longrightarrow> pattern_ok p'"
  unfolding pattern_ok_but by (erule build_but) (auto simp: list_all_iff)

end
