(* ===== verification/Instances.thy ===== *)
theory Instances
  imports Patterns
begin

text \<open>
  Instances of patterns in a graph (\<open>src/traact/pattern/instance/PortInstance.cpp\<close> and
  \<open>PatternInstance.cpp\<close>): the instances of each port group, the ports they own and the position of
  each port among the ports of its component.

  The objects point back to their owners (\<open>port_group_instance\<close>, \<open>pattern_instance\<close>,
  \<open>parent_graph\<close>); \<open>initializeGraphConnections\<close> restores these pointers after loading. The model
  passes the owner as an argument instead. A pointer to a port is its location: the index of the
  group, the index of the instance in the group and the index of the port in the instance.
\<close>

type_synonym port_id = "string \<times> string"
type_synonym port_loc = "nat \<times> nat \<times> nat"

record PortInstance =
  inst_port :: Port
  connected_to :: port_id

record PortGroupInstance =
  gi_port_group :: PortGroup
  gi_index :: int
  gi_producer_ports :: "PortInstance list"
  gi_consumer_ports :: "PortInstance list"

record PatternInstance =
  instance_id :: string
  display_name :: string
  local_pattern :: Pattern
  inst_port_groups :: "PortGroupInstance list list"
  port_group_name_to_index :: "(string, int) omap"
  local_to_global_time_domain :: "int list"

section \<open>Port group instances\<close>

definition PortInstance_make :: "Port \<Rightarrow> PortInstance" where
  "PortInstance_make port = \<lparr>inst_port = port, connected_to = ([], [])\<rparr>"

definition PortGroupInstance_make :: "PortGroup \<Rightarrow> int \<Rightarrow> PortGroupInstance" where
  "PortGroupInstance_make pg index =
     \<lparr>gi_port_group = pg, gi_index = index,
      gi_producer_ports = map PortInstance_make (producer_ports pg),
      gi_consumer_ports = map PortInstance_make (consumer_ports pg)\<rparr>"

definition getPortList :: "PortGroupInstance \<Rightarrow> PortType \<Rightarrow> PortInstance list res" where
  "getPortList gi type =
     (if type = CONSUMER then Inr (gi_consumer_ports gi)
      else if type = PRODUCER then Inr (gi_producer_ports gi)
      else Inl InvalidArgument)"

definition getPortCount :: "PortGroupInstance \<Rightarrow> int \<Rightarrow> PortType \<Rightarrow> int res" where
  "getPortCount gi local_td type =
     bind_res (getPortList gi type) (\<lambda>ports.
     Inr (fold (\<lambda>port result.
       if port_time_domain (inst_port port) = local_td then result + 1 else result) ports 0))"

definition port_full_name :: "PortGroupInstance \<Rightarrow> string \<Rightarrow> string" where
  "port_full_name gi name = pg_name (gi_port_group gi) @ ''_'' @ fmt_int (gi_index gi) @ ''_'' @ name"

definition getProducerPortName :: "PortGroupInstance \<Rightarrow> string \<Rightarrow> string" where
  "getProducerPortName gi internal_port_name = port_full_name gi internal_port_name"

definition getConsumerPortName :: "PortGroupInstance \<Rightarrow> string \<Rightarrow> string" where
  "getConsumerPortName gi internal_port_name = port_full_name gi internal_port_name"

text \<open>
  The ports before an instance: the loops run over the groups and their instances until they reach
  the instance with the same group name and the same index.
\<close>

fun start_in_list ::
    "string \<Rightarrow> PortGroupInstance \<Rightarrow> int \<Rightarrow> PortType \<Rightarrow> PortGroupInstance list \<Rightarrow> int \<Rightarrow> (bool \<times> int) res"
  where
  "start_in_list group_name this local_td type [] result = Inr (False, result)"
| "start_in_list group_name this local_td type (gi # gis) result =
     (if group_name = pg_name (gi_port_group this) \<and> gi_index gi = gi_index this
      then Inr (True, result)
      else bind_res (getPortCount gi local_td type) (\<lambda>count.
           start_in_list group_name this local_td type gis (result + count)))"

fun start_in_groups ::
    "PatternInstance \<Rightarrow> PortGroupInstance \<Rightarrow> int \<Rightarrow> PortType \<Rightarrow> nat list \<Rightarrow> int \<Rightarrow> int res" where
  "start_in_groups p this local_td type [] result = Inr result"
| "start_in_groups p this local_td type (group_index # rest) result =
     bind_res (raw_get (port_groups (local_pattern p)) (int group_index)) (\<lambda>pg.
     bind_res (raw_get (inst_port_groups p) (int group_index)) (\<lambda>port_group_list.
     bind_res (start_in_list (pg_name pg) this local_td type port_group_list result)
       (\<lambda>(found, result').
       if found then Inr result' else start_in_groups p this local_td type rest result')))"

definition getPortGroupStartIndex ::
    "PatternInstance \<Rightarrow> PortGroupInstance \<Rightarrow> int \<Rightarrow> PortType \<Rightarrow> int res" where
  "getPortGroupStartIndex p this local_td type =
     start_in_groups p this local_td type [0..<length (port_group_name_to_index p)] 0"

section \<open>Port instances\<close>

definition port_getName :: "PortGroupInstance \<Rightarrow> PortInstance \<Rightarrow> string" where
  "port_getName gi port = port_full_name gi (port_name (inst_port port))"

definition port_getId :: "PatternInstance \<Rightarrow> PortGroupInstance \<Rightarrow> PortInstance \<Rightarrow> port_id" where
  "port_getId p gi port = (instance_id p, port_getName gi port)"

definition getDataType :: "PortInstance \<Rightarrow> string" where
  "getDataType port = port_datatype (inst_port port)"

definition getPortType :: "PortInstance \<Rightarrow> PortType" where
  "getPortType port = port_type (inst_port port)"

definition port_getPortIndex :: "PatternInstance \<Rightarrow> PortGroupInstance \<Rightarrow> PortInstance \<Rightarrow> int res" where
  "port_getPortIndex p gi port =
     bind_res (getPortGroupStartIndex p gi (port_time_domain (inst_port port)) (port_type (inst_port port)))
       (\<lambda>start_index. Inr (start_index + port_port_index (inst_port port)))"

definition port_getTimeDomain :: "PatternInstance \<Rightarrow> PortInstance \<Rightarrow> int res" where
  "port_getTimeDomain p port =
     vec_at_int (local_to_global_time_domain p) (port_time_domain (inst_port port))"

section \<open>Pattern instances\<close>

definition PatternInstance_make :: "string \<Rightarrow> Pattern \<Rightarrow> PatternInstance res" where
  "PatternInstance_make t_instance_id pattern =
     bind_res (vec_at (port_groups pattern) 0) (\<lambda>default_group.
     let default_group_instance = PortGroupInstance_make default_group 0;
         groups = replicate (length (port_groups pattern)) []
     in Inr \<lparr>instance_id = t_instance_id, display_name = t_instance_id, local_pattern = pattern,
             inst_port_groups =
               groups[kDefaultPortGroupIndex := groups ! kDefaultPortGroupIndex @ [default_group_instance]],
             port_group_name_to_index =
               fold (\<lambda>pg m. emplace (pg_name pg) (pg_group_index pg) m) (port_groups pattern) [],
             local_to_global_time_domain = []\<rparr>)"

text \<open>The nested loops over groups, instances and ports visit the locations in this order.\<close>

definition port_locs :: "(PortGroupInstance \<Rightarrow> PortInstance list) \<Rightarrow> PatternInstance \<Rightarrow> port_loc list" where
  "port_locs ports p =
     concat (map (\<lambda>g.
       concat (map (\<lambda>i.
         map (\<lambda>k. (g, i, k)) [0..<length (ports (inst_port_groups p ! g ! i))])
       [0..<length (inst_port_groups p ! g)]))
     [0..<length (inst_port_groups p)])"

fun group_inst_at :: "PatternInstance \<Rightarrow> port_loc \<Rightarrow> PortGroupInstance" where
  "group_inst_at p (g, i, k) = inst_port_groups p ! g ! i"

fun port_inst_at ::
    "(PortGroupInstance \<Rightarrow> PortInstance list) \<Rightarrow> PatternInstance \<Rightarrow> port_loc \<Rightarrow> PortInstance" where
  "port_inst_at ports p (g, i, k) = ports (inst_port_groups p ! g ! i) ! k"

text \<open>Ports of the default group are found by their short name, then all ports by their full name.\<close>

definition find_port ::
    "(PortGroupInstance \<Rightarrow> PortInstance list) \<Rightarrow> PatternInstance \<Rightarrow> string \<Rightarrow> port_loc option res" where
  "find_port ports p name =
     bind_res (vec_at (inst_port_groups p) kDefaultPortGroupIndex) (\<lambda>default_list.
     bind_res (raw_get default_list 0) (\<lambda>default_group.
     case find_index (\<lambda>port. port_name (inst_port port) = name) (ports default_group) of
       Some k \<Rightarrow> Inr (Some (kDefaultPortGroupIndex, 0, k))
     | None \<Rightarrow>
         Inr (List.find (\<lambda>l. port_getName (group_inst_at p l) (port_inst_at ports p l) = name)
                (port_locs ports p))))"

definition getProducerPort :: "PatternInstance \<Rightarrow> string \<Rightarrow> port_loc option res" where
  "getProducerPort p name = find_port gi_producer_ports p name"

definition getConsumerPort :: "PatternInstance \<Rightarrow> string \<Rightarrow> port_loc option res" where
  "getConsumerPort p name = find_port gi_consumer_ports p name"

definition getPort :: "PatternInstance \<Rightarrow> string \<Rightarrow> (PortType \<times> port_loc) option res" where
  "getPort p name =
     bind_res (getProducerPort p name) (\<lambda>result.
     case result of
       Some l \<Rightarrow> Inr (Some (PRODUCER, l))
     | None \<Rightarrow> bind_res (getConsumerPort p name) (\<lambda>result. Inr (map_option (Pair CONSUMER) result)))"

definition ports_of_time_domain ::
    "(PortGroupInstance \<Rightarrow> PortInstance list) \<Rightarrow> PatternInstance \<Rightarrow> int \<Rightarrow> port_loc list res" where
  "ports_of_time_domain ports p global_td =
     filter_res (\<lambda>l. bind_res (port_getTimeDomain p (port_inst_at ports p l)) (\<lambda>td.
       Inr (td = global_td))) (port_locs ports p)"

definition getProducerPorts :: "PatternInstance \<Rightarrow> int \<Rightarrow> port_loc list res" where
  "getProducerPorts p global_td = ports_of_time_domain gi_producer_ports p global_td"

definition getConsumerPorts :: "PatternInstance \<Rightarrow> int \<Rightarrow> port_loc list res" where
  "getConsumerPorts p global_td = ports_of_time_domain gi_consumer_ports p global_td"

definition getConcurrency :: "PatternInstance \<Rightarrow> int \<Rightarrow> Concurrency res" where
  "getConcurrency p td = vec_at_int (pat_concurrency (local_pattern p)) td"

definition getPatternName :: "PatternInstance \<Rightarrow> string" where
  "getPatternName p = pat_name (local_pattern p)"

definition getComponentType :: "PatternInstance \<Rightarrow> int \<Rightarrow> ComponentType res" where
  "getComponentType p td = vec_at_int (time_domain_component_type (local_pattern p)) td"

definition getPortGroupIndex :: "PatternInstance \<Rightarrow> string \<Rightarrow> int res" where
  "getPortGroupIndex p group_name =
     (case map_of (port_group_name_to_index p) group_name of
        None \<Rightarrow> Inl InvalidArgument
      | Some index \<Rightarrow> Inr index)"

definition getPortGroupCount :: "PatternInstance \<Rightarrow> string \<Rightarrow> int res" where
  "getPortGroupCount p port_group_name =
     bind_res (getPortGroupIndex p port_group_name) (\<lambda>port_group_index.
     bind_res (vec_at_int (inst_port_groups p) port_group_index) (\<lambda>l. Inr (int (length l))))"

definition getPortGroupInfo :: "PatternInstance \<Rightarrow> string \<Rightarrow> PortGroupInfo res" where
  "getPortGroupInfo p port_group_name =
     bind_res (getPortGroupIndex p port_group_name) (\<lambda>port_group_index.
     bind_res (getPortGroupCount p port_group_name) (\<lambda>size.
     Inr \<lparr>pgi_port_group_index = port_group_index, pgi_size = size\<rparr>))"

text \<open>The reference returned is the location of the new instance.\<close>

definition instantiatePortGroup ::
    "string \<Rightarrow> PatternInstance \<Rightarrow> ((nat \<times> nat) \<times> PatternInstance) res" where
  "instantiatePortGroup port_group_name p =
     (case vectorGetForName pg_name (port_groups (local_pattern p)) port_group_name of
        None \<Rightarrow> Inl InvalidArgument
      | Some b \<Rightarrow>
          bind_res (getPortGroupIndex p port_group_name) (\<lambda>port_group_index.
          bind_res (raw_get (inst_port_groups p) port_group_index) (\<lambda>group_list.
          let new_port_group =
                PortGroupInstance_make (port_groups (local_pattern p) ! b) (int (length group_list))
          in Inr ((nat port_group_index, length group_list),
                  p\<lparr>inst_port_groups :=
                    (inst_port_groups p)[nat port_group_index := group_list @ [new_port_group]]\<rparr>))))"

definition getTimeDomainCount :: "PatternInstance \<Rightarrow> int" where
  "getTimeDomainCount p = int (length (time_domain_component_type (local_pattern p)))"

definition isInTimeDomain :: "PatternInstance \<Rightarrow> int \<Rightarrow> bool" where
  "isInTimeDomain p global_td = list_ex (\<lambda>td. td = global_td) (local_to_global_time_domain p)"

definition getPortGroupOffset :: "PatternInstance \<Rightarrow> int \<Rightarrow> PortType \<Rightarrow> int \<Rightarrow> (int \<times> int \<times> int) res" where
  "getPortGroupOffset p port_group_index type local_td =
     bind_res (raw_get (inst_port_groups p) port_group_index) (\<lambda>port_group_list.
     case port_group_list of
       [] \<Rightarrow> Inr (-1, 0, 0)
     | gi # _ \<Rightarrow>
         bind_res (getPortGroupStartIndex p gi local_td type) (\<lambda>offset.
         bind_res (getPortCount gi local_td type) (\<lambda>port_count.
         Inr (offset, port_count, int (length port_group_list)))))"

section \<open>Well-formed instances\<close>

definition inst_matches :: "PortGroup \<Rightarrow> nat \<Rightarrow> PortGroupInstance \<Rightarrow> bool" where
  "inst_matches pg i gi \<longleftrightarrow> gi_port_group gi = pg \<and> gi_index gi = int i \<and>
     map inst_port (gi_producer_ports gi) = producer_ports pg \<and>
     map inst_port (gi_consumer_ports gi) = consumer_ports pg"

definition name_index :: "PortGroup list \<Rightarrow> (string, int) omap" where
  "name_index pgs = fold (\<lambda>pg m. emplace (pg_name pg) (pg_group_index pg) m) pgs []"

definition pattern_instance_ok :: "PatternInstance \<Rightarrow> bool" where
  "pattern_instance_ok p \<longleftrightarrow>
     pattern_ok (local_pattern p) \<and>
     distinct (map pg_name (port_groups (local_pattern p))) \<and>
     length (inst_port_groups p) = length (port_groups (local_pattern p)) \<and>
     port_group_name_to_index p = name_index (port_groups (local_pattern p)) \<and>
     (\<forall>g < length (inst_port_groups p). \<forall>i < length (inst_port_groups p ! g).
        inst_matches (port_groups (local_pattern p) ! g) i (inst_port_groups p ! g ! i)) \<and>
     inst_port_groups p ! 0 \<noteq> []"

lemma pattern_instance_okD:
  assumes "pattern_instance_ok p"
  shows "pattern_ok (local_pattern p)" "distinct (map pg_name (port_groups (local_pattern p)))"
    "length (inst_port_groups p) = length (port_groups (local_pattern p))"
    "port_group_name_to_index p = name_index (port_groups (local_pattern p))"
    "g < length (inst_port_groups p) \<Longrightarrow> i < length (inst_port_groups p ! g) \<Longrightarrow>
       inst_matches (port_groups (local_pattern p) ! g) i (inst_port_groups p ! g ! i)"
    "inst_port_groups p ! 0 \<noteq> []"
  using assms by (auto simp: pattern_instance_ok_def)

lemma name_index_keys:
  "omap_ok m \<Longrightarrow> omap_ok (fold (\<lambda>pg m. emplace (pg_name pg) (pg_group_index pg) m) pgs m) \<and>
   fst ` set (fold (\<lambda>pg m. emplace (pg_name pg) (pg_group_index pg) m) pgs m) =
   pg_name ` set pgs \<union> fst ` set m"
  by (induction pgs arbitrary: m) auto

lemma name_index_length:
  assumes "distinct (map pg_name pgs)"
  shows "length (name_index pgs) = length pgs"
proof -
  from name_index_keys [of "[]" pgs] have ok: "omap_ok (name_index pgs)"
    and keys: "fst ` set (name_index pgs) = pg_name ` set pgs"
    by (auto simp: name_index_def)
  from ok have "distinct (map fst (name_index pgs))" by (simp add: omap_ok_def strict_sorted_iff)
  then have "length (name_index pgs) = card (fst ` set (name_index pgs))"
    by (metis distinct_card length_map list.set_map)
  also have "\<dots> = card (set (map pg_name pgs))" by (simp add: keys)
  also have "\<dots> = length pgs" using assms by (metis distinct_card length_map)
  finally show ?thesis .
qed

lemma name_index_lookup:
  assumes "distinct (map pg_name pgs)" and "g < length pgs"
  shows "map_of (name_index pgs) (pg_name (pgs ! g)) = Some (pg_group_index (pgs ! g))"
proof -
  have "map_of (fold (\<lambda>(k, v). emplace k v) (map (\<lambda>pg. (pg_name pg, pg_group_index pg)) pgs) []) =
    map_of (map (\<lambda>pg. (pg_name pg, pg_group_index pg)) pgs) ++ map_of []"
    by (rule om.lookup_fold_ins) simp
  then have "map_of (name_index pgs) = map_of (map (\<lambda>pg. (pg_name pg, pg_group_index pg)) pgs)"
    by (simp add: name_index_def fold_map comp_def)
  moreover have "map_of (map (\<lambda>pg. (pg_name pg, pg_group_index pg)) pgs) (pg_name (pgs ! g)) =
    Some (pg_group_index (pgs ! g))"
    using assms by (intro map_of_is_SomeI) (auto simp: comp_def intro!: image_eqI [where x = "pgs ! g"])
  ultimately show ?thesis by simp
qed

lemma group_index_at:
  "pattern_ok q \<Longrightarrow> g < length (port_groups q) \<Longrightarrow> pg_group_index (port_groups q ! g) = int g"
proof -
  assume "pattern_ok q" and g: "g < length (port_groups q)"
  then have "map pg_group_index (port_groups q) ! g = map int [0..<length (port_groups q)] ! g"
    by (simp only: pattern_ok_def)
  with g show ?thesis by simp
qed

lemma getPortGroupIndex_ok:
  assumes "pattern_instance_ok p" and "g < length (inst_port_groups p)"
  shows "getPortGroupIndex p (pg_name (port_groups (local_pattern p) ! g)) = Inr (int g)"
proof -
  note ok = pattern_instance_okD [OF assms(1)]
  from assms(2) ok(3) have g: "g < length (port_groups (local_pattern p))" by simp
  from name_index_lookup [OF ok(2) g] ok(4) group_index_at [OF ok(1) g] show ?thesis
    by (simp add: getPortGroupIndex_def)
qed

lemma inst_matches_make [simp]: "inst_matches pg i (PortGroupInstance_make pg (int i))"
  by (simp add: inst_matches_def PortGroupInstance_make_def PortInstance_make_def comp_def)

lemma PatternInstance_make_ok:
  assumes "pattern_ok q" and "distinct (map pg_name (port_groups q))"
    and "PatternInstance_make n q = Inr p"
  shows "pattern_instance_ok p"
  using assms inst_matches_make [of "port_groups q ! 0" 0]
  by (auto simp: PatternInstance_make_def pattern_instance_ok_def name_index_def Let_def
      nth_list_update split: if_splits)

lemma instantiatePortGroup_ok:
  assumes ok: "pattern_instance_ok p" and inst: "instantiatePortGroup n p = Inr ((g, i), p')"
  shows "pattern_instance_ok p'" and "g < length (inst_port_groups p)"
    and "i = length (inst_port_groups p ! g)" and "pg_name (port_groups (local_pattern p) ! g) = n"
    and "inst_port_groups p' = (inst_port_groups p)[g := inst_port_groups p ! g @
           [PortGroupInstance_make (port_groups (local_pattern p) ! g) (int i)]]"
    and "local_pattern p' = local_pattern p"
proof -
  note okD = pattern_instance_okD [OF ok]
  from inst obtain b where b: "vectorGetForName pg_name (port_groups (local_pattern p)) n = Some b"
    by (auto simp: instantiatePortGroup_def split: option.splits)
  from vectorGetForName_Some [OF b] okD(3) have bl: "b < length (inst_port_groups p)"
    and bn: "pg_name (port_groups (local_pattern p) ! b) = n" by auto
  from getPortGroupIndex_ok [OF ok bl] bn have idx: "getPortGroupIndex p n = Inr (int b)" by simp
  from inst b idx bl have res: "g = b" "i = length (inst_port_groups p ! b)"
    "p' = p\<lparr>inst_port_groups := (inst_port_groups p)[b := inst_port_groups p ! b @
       [PortGroupInstance_make (port_groups (local_pattern p) ! b) (int (length (inst_port_groups p ! b)))]]\<rparr>"
    by (auto simp: instantiatePortGroup_def Let_def raw_get_int)
  from res bl bn show "g < length (inst_port_groups p)" "i = length (inst_port_groups p ! g)"
    "pg_name (port_groups (local_pattern p) ! g) = n" "local_pattern p' = local_pattern p"
    "inst_port_groups p' = (inst_port_groups p)[g := inst_port_groups p ! g @
           [PortGroupInstance_make (port_groups (local_pattern p) ! g) (int i)]]"
    by simp_all
  show "pattern_instance_ok p'"
    using ok bl by (auto simp: res(3) pattern_instance_ok_def nth_list_update nth_append less_Suc_eq)
qed

section \<open>The index of a port\<close>

text \<open>
  A component's buffer has one slot per port of a time domain and direction. The index of a port is
  the number of ports before it in the order of \<open>port_locs\<close>; the instances of a group follow each
  other with the group's port count as stride.
\<close>

definition ports_of :: "PortType \<Rightarrow> PortGroupInstance \<Rightarrow> PortInstance list" where
  "ports_of t gi = (if t = CONSUMER then gi_consumer_ports gi else gi_producer_ports gi)"

definition td_count :: "PortType \<Rightarrow> int \<Rightarrow> PortGroupInstance \<Rightarrow> nat" where
  "td_count t td gi = length (filter (\<lambda>p. port_time_domain (inst_port p) = td) (ports_of t gi))"

lemma getPortList_eq: "t \<noteq> PT_NONE \<Longrightarrow> getPortList gi t = Inr (ports_of t gi)"
  by (cases t) (auto simp: getPortList_def ports_of_def)

lemma fold_count_td:
  "fold (\<lambda>port result. if port_time_domain (inst_port port) = td then result + 1 else result) ps (a::int)
   = a + int (length (filter (\<lambda>p. port_time_domain (inst_port p) = td) ps))"
  by (induction ps arbitrary: a) auto

lemma getPortCount_eq: "t \<noteq> PT_NONE \<Longrightarrow> getPortCount gi td t = Inr (int (td_count t td gi))"
  by (simp add: getPortCount_def getPortList_eq fold_count_td td_count_def)

lemma inst_matches_ports:
  "inst_matches pg i gi \<Longrightarrow>
   map inst_port (ports_of t gi) = (if t = CONSUMER then consumer_ports pg else producer_ports pg)"
  by (simp add: inst_matches_def ports_of_def)

lemma inst_matches_td_count:
  assumes "inst_matches pg i gi" and "inst_matches pg j gj"
  shows "td_count t td gi = td_count t td gj"
proof -
  have eq: "td_count t td x =
      length (filter (\<lambda>p. port_time_domain p = td) (map inst_port (ports_of t x)))" for x
    by (simp add: td_count_def filter_map comp_def)
  show ?thesis by (simp only: eq inst_matches_ports [OF assms(1)] inst_matches_ports [OF assms(2)])
qed

lemma start_in_list_miss:
  assumes "t \<noteq> PT_NONE"
    and "\<forall>x \<in> set gis. \<not> (n = pg_name (gi_port_group this) \<and> gi_index x = gi_index this)"
  shows "start_in_list n this td t gis r = Inr (False, r + int (sum_list (map (td_count t td) gis)))"
  using assms by (induction gis arbitrary: r) (auto simp: getPortCount_eq)

lemma start_in_list_hit:
  assumes "t \<noteq> PT_NONE" and "i < length gis" and "n = pg_name (gi_port_group this)"
    and "gi_index (gis ! i) = gi_index this" and "\<forall>j < i. gi_index (gis ! j) \<noteq> gi_index this"
  shows "start_in_list n this td t gis r =
    Inr (True, r + int (sum_list (map (td_count t td) (take i gis))))"
  using assms
proof (induction gis arbitrary: r i)
  case (Cons x gis)
  show ?case
  proof (cases i)
    case 0
    with Cons.prems show ?thesis by simp
  next
    case (Suc j)
    from Cons.prems Suc have "gi_index x \<noteq> gi_index this" by force
    moreover from Cons.prems Suc have "start_in_list n this td t gis r' =
      Inr (True, r' + int (sum_list (map (td_count t td) (take j gis))))" for r'
      by (intro Cons.IH) auto
    ultimately show ?thesis using Suc Cons.prems(1) by (simp add: getPortCount_eq)
  qed
qed simp

definition insts_before :: "PatternInstance \<Rightarrow> nat \<Rightarrow> nat \<Rightarrow> PortGroupInstance list" where
  "insts_before p g i = concat (take g (inst_port_groups p)) @ take i (inst_port_groups p ! g)"

definition start_index :: "PatternInstance \<Rightarrow> PortType \<Rightarrow> int \<Rightarrow> nat \<Rightarrow> nat \<Rightarrow> nat" where
  "start_index p t td g i = sum_list (map (td_count t td) (insts_before p g i))"

lemma start_in_groups_eq:
  assumes ok: "pattern_instance_ok p" and t: "t \<noteq> PT_NONE"
    and g: "g < length (inst_port_groups p)" and i: "i < length (inst_port_groups p ! g)"
    and d: "a + d = g"
  shows "start_in_groups p (inst_port_groups p ! g ! i) td t [a..<length (inst_port_groups p)] r =
    Inr (r + int (sum_list (map (td_count t td)
      (concat (drop a (take g (inst_port_groups p))) @ take i (inst_port_groups p ! g)))))"
  using d
proof (induction d arbitrary: a r)
  let ?ig = "inst_port_groups p" and ?pgs = "port_groups (local_pattern p)"
  note okD = pattern_instance_okD [OF ok]
  from okD(5) [OF g i] have this_name: "gi_port_group (?ig ! g ! i) = ?pgs ! g"
    and this_index: "gi_index (?ig ! g ! i) = int i" by (auto simp: inst_matches_def)
  {
    case 0
    then have "[a..<length ?ig] = g # [Suc g..<length ?ig]" using g upt_conv_Cons by simp
    moreover have "\<forall>j < i. gi_index (?ig ! g ! j) \<noteq> int i"
      using okD(5) [OF g] i by (auto simp: inst_matches_def)
    ultimately show ?case
      using 0 g i t okD(3) this_name this_index
      by (simp add: raw_get_int start_in_list_hit [where i = i])
  next
    case (Suc d)
    then have a: "a < g" by simp
    with g have upt: "[a..<length ?ig] = a # [Suc a..<length ?ig]" by (simp add: upt_conv_Cons)
    from okD(2,3) a g have "pg_name (?pgs ! a) \<noteq> pg_name (?pgs ! g)"
      by (auto simp: distinct_conv_nth)
    then have "start_in_list (pg_name (?pgs ! a)) (?ig ! g ! i) td t (?ig ! a) r =
        Inr (False, r + int (sum_list (map (td_count t td) (?ig ! a))))"
      using t this_name by (intro start_in_list_miss) auto
    moreover have "drop a (take g ?ig) = ?ig ! a # drop (Suc a) (take g ?ig)"
      using a g by (simp flip: Cons_nth_drop_Suc)
    moreover have "a < length ?pgs" "a < length ?ig" using a g okD(3) by auto
    ultimately show ?case
      unfolding upt using Suc.IH [of "Suc a"] Suc.prems by (simp add: raw_get_int algebra_simps)
  }
qed

lemma getPortGroupStartIndex_eq:
  assumes ok: "pattern_instance_ok p" and t: "t \<noteq> PT_NONE"
    and g: "g < length (inst_port_groups p)" and i: "i < length (inst_port_groups p ! g)"
  shows "getPortGroupStartIndex p (inst_port_groups p ! g ! i) td t = Inr (int (start_index p t td g i))"
proof -
  have "length (port_group_name_to_index p) = length (inst_port_groups p)"
    using pattern_instance_okD [OF ok] by (simp add: name_index_length)
  with start_in_groups_eq [OF ok t g i, of 0 g td 0] show ?thesis
    by (simp add: getPortGroupStartIndex_def start_index_def insts_before_def)
qed

lemma start_index_Suc:
  "i < length (inst_port_groups p ! g) \<Longrightarrow>
   start_index p t td g (Suc i) = start_index p t td g i + td_count t td (inst_port_groups p ! g ! i)"
  by (simp add: start_index_def insts_before_def take_Suc_conv_app_nth)

lemma start_index_group:
  "g < length (inst_port_groups p) \<Longrightarrow>
   start_index p t td g (length (inst_port_groups p ! g)) = start_index p t td (Suc g) 0"
  by (simp add: start_index_def insts_before_def take_Suc_conv_app_nth)

lemma start_index_0 [simp]: "start_index p t td 0 0 = 0"
  by (simp add: start_index_def insts_before_def)

lemma concat_ranges:
  assumes "\<And>i. i < n \<Longrightarrow> f i = map h [S i..<S (Suc i)] \<and> S i \<le> S (Suc i)"
  shows "concat (map f [0..<n]) = map h [S 0..<S n] \<and> S 0 \<le> S n"
  using assms
proof (induction n)
  case (Suc n)
  from Suc.IH Suc.prems have IH: "concat (map f [0..<n]) = map h [S 0..<S n]" "S 0 \<le> S n" by auto
  from Suc.prems [of n] have n: "f n = map h [S n..<S (Suc n)]" "S n \<le> S (Suc n)" by auto
  from IH(2) n(2) have "[S 0..<S (Suc n)] = [S 0..<S n] @ [S n..<S (Suc n)]"
    by (metis le_Suc_ex upt_add_eq_append)
  with IH n show ?case by simp
qed simp

lemma filter_positions:
  "map (\<lambda>k. h (xs ! k)) (filter (\<lambda>k. Q (xs ! k)) [0..<length xs]) = map h (filter Q xs)"
proof -
  have "filter Q (map ((!) xs) [0..<length xs]) = map ((!) xs) (filter (Q \<circ> (!) xs) [0..<length xs])"
    by (rule filter_map)
  then show ?thesis by (simp add: map_nth comp_def)
qed

abbreviation local_domain :: "PortType \<Rightarrow> PatternInstance \<Rightarrow> port_loc \<Rightarrow> int" where
  "local_domain t p l \<equiv> port_time_domain (inst_port (port_inst_at (ports_of t) p l))"

definition loc_index :: "PortType \<Rightarrow> PatternInstance \<Rightarrow> port_loc \<Rightarrow> int res" where
  "loc_index t p l = port_getPortIndex p (group_inst_at p l) (port_inst_at (ports_of t) p l)"

lemma instance_indices:
  assumes ok: "pattern_instance_ok p" and t: "t \<noteq> PT_NONE"
    and g: "g < length (inst_port_groups p)" and i: "i < length (inst_port_groups p ! g)"
  shows "map (loc_index t p) (filter (\<lambda>l. local_domain t p l = td)
      (map (\<lambda>k. (g, i, k)) [0..<length (ports_of t (inst_port_groups p ! g ! i))])) =
    map (Inr \<circ> int) [start_index p t td g i..<start_index p t td g (Suc i)]"
proof -
  let ?gi = "inst_port_groups p ! g ! i" and ?pg = "port_groups (local_pattern p) ! g"
  let ?S = "start_index p t td g i" and ?ps = "ports_of t (inst_port_groups p ! g ! i)"
  let ?Q = "\<lambda>q. port_time_domain (inst_port q) = td"
  note okD = pattern_instance_okD [OF ok]
  have m: "inst_matches ?pg i ?gi" by (rule okD(5) [OF g i])
  from okD(1,3) g have "group_ok ?pg" by (simp add: pattern_ok_def list_all_length)
  then have num: "ports_numbered (map inst_port ?ps)"
    and ty: "\<forall>q \<in> set (map inst_port ?ps). port_type q = t"
    using inst_matches_ports [OF m, of t] t by (cases t; simp add: group_ok_def list_all_iff)+
  have "map (\<lambda>k. loc_index t p (g, i, k)) (filter (\<lambda>k. ?Q (?ps ! k)) [0..<length ?ps]) =
      map (port_getPortIndex p ?gi) (filter ?Q ?ps)"
    using filter_positions [of "port_getPortIndex p ?gi" ?ps ?Q] by (simp add: loc_index_def)
  also have "\<dots> = map (\<lambda>q. Inr (int ?S + port_port_index (inst_port q))) (filter ?Q ?ps)"
    using ty getPortGroupStartIndex_eq [OF ok t g i, of td]
    by (auto simp: port_getPortIndex_def)
  also have "\<dots> = map (\<lambda>x. Inr (int ?S + x)) (map port_port_index (filter (\<lambda>q. port_time_domain q = td)
      (map inst_port ?ps)))"
    by (simp add: filter_map comp_def)
  also have "\<dots> = map (\<lambda>x. Inr (int ?S + x)) (map int [0..<td_count t td ?gi])"
    using num by (simp add: ports_numbered_def td_count_def filter_map comp_def)
  also have "\<dots> = map (Inr \<circ> int) [?S..<?S + td_count t td ?gi]"
    by (rule nth_equalityI) auto
  finally show ?thesis using start_index_Suc [OF i] by (simp add: filter_map comp_def)
qed

lemma group_indices:
  assumes ok: "pattern_instance_ok p" and t: "t \<noteq> PT_NONE" and g: "g < length (inst_port_groups p)"
  shows "map (loc_index t p) (filter (\<lambda>l. local_domain t p l = td)
      (concat (map (\<lambda>i. map (\<lambda>k. (g, i, k)) [0..<length (ports_of t (inst_port_groups p ! g ! i))])
        [0..<length (inst_port_groups p ! g)]))) =
    map (Inr \<circ> int) [start_index p t td g 0..<start_index p t td (Suc g) 0] \<and>
    start_index p t td g 0 \<le> start_index p t td (Suc g) 0"
proof -
  let ?n = "length (inst_port_groups p ! g)"
  have "concat (map (\<lambda>i. map (loc_index t p) (filter (\<lambda>l. local_domain t p l = td)
        (map (\<lambda>k. (g, i, k)) [0..<length (ports_of t (inst_port_groups p ! g ! i))]))) [0..<?n]) =
      map (Inr \<circ> int) [start_index p t td g 0..<start_index p t td g ?n] \<and>
      start_index p t td g 0 \<le> start_index p t td g ?n"
    by (rule concat_ranges) (simp only: instance_indices [OF ok t g] start_index_Suc le_add1 simp_thms)
  then show ?thesis by (simp add: filter_concat map_concat start_index_group [OF g] comp_def)
qed

lemma indices_of_domain:
  assumes ok: "pattern_instance_ok p" and t: "t \<noteq> PT_NONE"
  shows "map (loc_index t p) (filter (\<lambda>l. local_domain t p l = td) (port_locs (ports_of t) p)) =
    map (Inr \<circ> int) [0..<start_index p t td (length (inst_port_groups p)) 0]"
proof -
  let ?n = "length (inst_port_groups p)"
  have "concat (map (\<lambda>g. map (loc_index t p) (filter (\<lambda>l. local_domain t p l = td)
        (concat (map (\<lambda>i. map (\<lambda>k. (g, i, k)) [0..<length (ports_of t (inst_port_groups p ! g ! i))])
          [0..<length (inst_port_groups p ! g)])))) [0..<?n]) =
      map (Inr \<circ> int) [start_index p t td 0 0..<start_index p t td ?n 0] \<and>
      start_index p t td 0 0 \<le> start_index p t td ?n 0"
    by (rule concat_ranges) (rule group_indices [OF ok t])
  then show ?thesis by (simp add: port_locs_def filter_concat map_concat comp_def)
qed

lemma ports_of_time_domain_indices:
  assumes ok: "pattern_instance_ok p" and t: "t \<noteq> PT_NONE"
    and one: "\<And>i j. i < length (local_to_global_time_domain p) \<Longrightarrow>
      j < length (local_to_global_time_domain p) \<Longrightarrow> local_to_global_time_domain p ! i = td \<Longrightarrow>
      local_to_global_time_domain p ! j = td \<Longrightarrow> i = j"
    and ls: "ports_of_time_domain (ports_of t) p td = Inr ls"
  shows "map (loc_index t p) ls = map (Inr \<circ> int) [0..<length ls]"
proof -
  let ?m = "local_to_global_time_domain p"
  let ?P = "\<lambda>l. bind_res (port_getTimeDomain p (port_inst_at (ports_of t) p l)) (\<lambda>g. Inr (g = td))"
  from filter_res_Inr [OF ls [unfolded ports_of_time_domain_def]]
  have ls_eq: "ls = filter (\<lambda>l. ?P l = Inr True) (port_locs (ports_of t) p)" by blast
  have P: "?P l = Inr True \<longleftrightarrow> 0 \<le> local_domain t p l \<and> nat (local_domain t p l) < length ?m \<and>
      ?m ! nat (local_domain t p l) = td" for l
    by (auto simp: port_getTimeDomain_def)
  show ?thesis
  proof (cases "\<exists>j < length ?m. ?m ! j = td")
    case False
    then have "ls = []" by (auto simp: ls_eq filter_empty_conv port_getTimeDomain_def)
    then show ?thesis by simp
  next
    case True
    then obtain j where j: "j < length ?m" "?m ! j = td" by blast
    have "?P l = Inr True \<longleftrightarrow> local_domain t p l = int j" for l
      unfolding P using j one by (metis nat_int of_nat_0_le_iff zero_le_imp_eq_int)
    then have "ls = filter (\<lambda>l. local_domain t p l = int j) (port_locs (ports_of t) p)"
      by (simp add: ls_eq)
    with indices_of_domain [OF ok t, of "int j"]
    have eq: "map (loc_index t p) ls =
        map (Inr \<circ> int) [0..<start_index p t (int j) (length (inst_port_groups p)) 0]" by simp
    from arg_cong [OF eq, of length]
    have "start_index p t (int j) (length (inst_port_groups p)) 0 = length ls" by simp
    with eq show ?thesis by metis
  qed
qed

lemma start_index_stride:
  assumes ok: "pattern_instance_ok p" and g: "g < length (inst_port_groups p)"
    and i: "i \<le> length (inst_port_groups p ! g)" and ne: "inst_port_groups p ! g \<noteq> []"
  shows "start_index p t td g i =
    start_index p t td g 0 + i * td_count t td (inst_port_groups p ! g ! 0)"
  using i
proof (induction i)
  case (Suc i)
  from Suc.prems have i: "i < length (inst_port_groups p ! g)" by simp
  have "td_count t td (inst_port_groups p ! g ! i) = td_count t td (inst_port_groups p ! g ! 0)"
    by (rule inst_matches_td_count; rule pattern_instance_okD(5) [OF ok g]) (use i ne in auto)
  with Suc.IH i start_index_Suc [OF i, of t td] show ?case by simp
qed simp

lemma getPortGroupOffset_eq:
  assumes ok: "pattern_instance_ok p" and t: "t \<noteq> PT_NONE" and g: "g < length (inst_port_groups p)"
    and ne: "inst_port_groups p ! g \<noteq> []"
  shows "getPortGroupOffset p (int g) t td =
    Inr (int (start_index p t td g 0), int (td_count t td (inst_port_groups p ! g ! 0)),
         int (length (inst_port_groups p ! g)))"
proof -
  obtain gi gis where gl: "inst_port_groups p ! g = gi # gis" using ne by (cases "inst_port_groups p ! g") auto
  from getPortGroupStartIndex_eq [OF ok t g, of 0 td] gl
  have "getPortGroupStartIndex p gi td t = Inr (int (start_index p t td g 0))" by simp
  with gl g show ?thesis by (simp add: getPortGroupOffset_def raw_get_int getPortCount_eq [OF t])
qed

lemma loc_index_eq:
  assumes ok: "pattern_instance_ok p" and t: "t \<noteq> PT_NONE" and g: "g < length (inst_port_groups p)"
    and i: "i < length (inst_port_groups p ! g)"
    and k: "k < length (ports_of t (inst_port_groups p ! g ! i))"
  shows "loc_index t p (g, i, k) = Inr (int (start_index p t (local_domain t p (g, i, k)) g i) +
    port_port_index (inst_port (port_inst_at (ports_of t) p (g, i, k))))"
proof -
  let ?gi = "inst_port_groups p ! g ! i" and ?pg = "port_groups (local_pattern p) ! g"
  note okD = pattern_instance_okD [OF ok]
  have m: "inst_matches ?pg i ?gi" by (rule okD(5) [OF g i])
  from okD(1,3) g have "group_ok ?pg" by (simp add: pattern_ok_def list_all_length)
  then have "\<forall>q \<in> set (map inst_port (ports_of t ?gi)). port_type q = t"
    using inst_matches_ports [OF m, of t] t by (cases t; simp add: group_ok_def list_all_iff)
  with k have "port_type (inst_port (ports_of t ?gi ! k)) = t" by simp
  with getPortGroupStartIndex_eq [OF ok t g i] show ?thesis
    by (simp add: loc_index_def port_getPortIndex_def)
qed

end
