(* ===== verification/Graph.thy ===== *)
theory Graph
  imports Instances
begin

text \<open>
  The dataflow graph (\<open>src/traact/pattern/instance/GraphInstance.cpp\<close>): its pattern instances by
  identifier, connecting a consumer port to a producer port and the checks that keep the dataflow
  typed and free of loops.

  A pointer to a port is the identifier of its pattern, the list it is in and its location there.
  The sets of pointers \<open>connectedToPtr\<close> returns are ordered by address; the model lists them in the
  order of the loops. \<open>would_connect_to_self_recursive\<close> recurses along connections; it gets a
  recursion bound and returns \<open>None\<close> when the bound is reached. \<open>initializeGraphConnections\<close> only
  restores back pointers, which the model does not store.
\<close>

type_synonym port_ref = "string \<times> PortType \<times> port_loc"

record GraphInstance =
  graph_name :: string
  pattern_instances :: "(string, PatternInstance) omap"
  timedomain_configs :: "(nat, TimeDomainManagerConfig) omap"

definition GraphInstance_make :: "string \<Rightarrow> GraphInstance" where
  "GraphInstance_make name = \<lparr>graph_name = name, pattern_instances = [], timedomain_configs = []\<rparr>"

definition addPattern :: "string \<Rightarrow> Pattern \<Rightarrow> int \<Rightarrow> GraphInstance \<Rightarrow> GraphInstance res" where
  "addPattern pattern_id pattern td g =
     (case map_of (pattern_instances g) pattern_id of
        Some _ \<Rightarrow> Inl InvalidArgument
      | None \<Rightarrow>
          bind_res (PatternInstance_make pattern_id pattern) (\<lambda>newPattern.
          let domains = replicate (length (pat_concurrency pattern)) (-1)
          in bind_res (raw_set domains 0 td) (\<lambda>domains.
          let newPattern = newPattern\<lparr>local_to_global_time_domain := domains\<rparr>
          in Inr (g\<lparr>pattern_instances := emplace pattern_id newPattern (pattern_instances g)\<rparr>))))"

definition getPattern :: "GraphInstance \<Rightarrow> string \<Rightarrow> PatternInstance res" where
  "getPattern g pattern_id = map_at (pattern_instances g) pattern_id"

definition getAll :: "GraphInstance \<Rightarrow> PatternInstance list" where
  "getAll g = map snd (pattern_instances g)"

definition graph_getPort :: "GraphInstance \<Rightarrow> port_id \<Rightarrow> (PortType \<times> port_loc) option res" where
  "graph_getPort g cid = bind_res (map_at (pattern_instances g) (fst cid)) (\<lambda>p. getPort p (snd cid))"

text \<open>\<open>forAllPatternInstances\<close> with the loop over \<open>getPortList(search_type)\<close>.\<close>

definition port_refs :: "GraphInstance \<Rightarrow> PortType \<Rightarrow> (port_ref \<times> PatternInstance) list" where
  "port_refs g t =
     concat (map (\<lambda>(pid, p). map (\<lambda>l. ((pid, t, l), p)) (port_locs (ports_of t) p)) (pattern_instances g))"

definition loc_id :: "PortType \<Rightarrow> PatternInstance \<Rightarrow> port_loc \<Rightarrow> port_id" where
  "loc_id t p l = port_getId p (group_inst_at p l) (port_inst_at (ports_of t) p l)"

fun is_peer :: "PortType \<Rightarrow> port_id \<Rightarrow> port_id \<Rightarrow> port_ref \<times> PatternInstance \<Rightarrow> bool" where
  "is_peer type cid target ((pid, t, l), other) =
     (if type = PRODUCER then connected_to (port_inst_at (ports_of t) other l) = cid
      else loc_id t other l = target)"

definition connectedToPtr :: "GraphInstance \<Rightarrow> port_id \<Rightarrow> port_ref list res" where
  "connectedToPtr g cid =
     bind_res (map_at (pattern_instances g) (fst cid)) (\<lambda>p.
     bind_res (getPort p (snd cid)) (\<lambda>result.
     case result of
       None \<Rightarrow> Inl InvalidArgument
     | Some (t, l) \<Rightarrow>
         let port = port_inst_at (ports_of t) p l;
             search_type = (if getPortType port = PRODUCER then CONSUMER else PRODUCER)
         in Inr (map fst (filter (is_peer (getPortType port) (loc_id t p l) (connected_to port))
              (port_refs g search_type)))))"

definition isConnected :: "GraphInstance \<Rightarrow> PatternInstance \<Rightarrow> PortType \<Rightarrow> port_loc \<Rightarrow> bool res" where
  "isConnected g p t l =
     bind_res (connectedToPtr g (loc_id t p l)) (\<lambda>ptrs. Inr (\<not> List.null ptrs))"

section \<open>The search for loops\<close>

text \<open>A loop that returns \<open>true\<close> at the first element for which its body does.\<close>

fun first_true :: "('a \<Rightarrow> bool res option) \<Rightarrow> 'a list \<Rightarrow> bool res option" where
  "first_true f [] = Some (Inr False)"
| "first_true f (x # xs) =
     (case f x of
        None \<Rightarrow> None
      | Some (Inl e) \<Rightarrow> Some (Inl e)
      | Some (Inr True) \<Rightarrow> Some (Inr True)
      | Some (Inr False) \<Rightarrow> first_true f xs)"

fun would_connect_to_self_recursive ::
    "nat \<Rightarrow> GraphInstance \<Rightarrow> string \<Rightarrow> string \<Rightarrow> bool res option" where
  "would_connect_to_self_recursive 0 g prod_comp test_comp = None"
| "would_connect_to_self_recursive (Suc bound) g prod_comp test_comp =
     (if test_comp = prod_comp then Some (Inr True)
      else
        case map_of (pattern_instances g) test_comp of
          None \<Rightarrow> Some (Inl UndefinedBehaviour)
        | Some p \<Rightarrow>
            first_true (\<lambda>tmp.
              case connectedToPtr g (loc_id PRODUCER p tmp) of
                Inl e \<Rightarrow> Some (Inl e)
              | Inr peers \<Rightarrow>
                  if List.null peers then Some (Inr False)
                  else first_true (\<lambda>connected_port.
                    would_connect_to_self_recursive bound g prod_comp (fst connected_port)) peers)
            (port_locs (ports_of PRODUCER) p))"

section \<open>Connecting ports\<close>

definition when_trying :: "string \<Rightarrow> string \<Rightarrow> string \<Rightarrow> string \<Rightarrow> string" where
  "when_trying source_component producer_port sink_component consumer_port =
     '' when trying to connect '' @ source_component @ '':'' @ producer_port @ '' to '' @
     sink_component @ '':'' @ consumer_port"

text \<open>The checks on the two ports once they are found, and the search for a loop.\<close>

definition check_found ::
    "nat \<Rightarrow> GraphInstance \<Rightarrow> string \<Rightarrow> string \<Rightarrow> string \<Rightarrow>
     PatternInstance \<Rightarrow> port_loc \<Rightarrow> PatternInstance \<Rightarrow> port_loc \<Rightarrow> string option res option" where
  "check_found bound g source_component sink_component tail prod_comp prod_port cons_comp cons_port =
     (let prod_inst = port_inst_at (ports_of PRODUCER) prod_comp prod_port;
          cons_inst = port_inst_at (ports_of CONSUMER) cons_comp cons_port
      in (case bind_res (port_getTimeDomain prod_comp prod_inst) (\<lambda>prod_td.
               bind_res (port_getTimeDomain cons_comp cons_inst) (\<lambda>cons_td. Inr (prod_td, cons_td))) of
        Inl e \<Rightarrow> Some (Inl e)
      | Inr (prod_td, cons_td) \<Rightarrow>
          (if prod_td \<noteq> cons_td
           then Some (Inr (Some (''Different time domains'' @ tail @ '', '' @ fmt_int prod_td @
                  '' -> '' @ fmt_int cons_td)))
           else if getDataType prod_inst \<noteq> getDataType cons_inst
           then Some (Inr (Some (''Incompatible port datatype '' @ source_component @ '':'' @
                  getDataType prod_inst @ '' -> '' @ sink_component @ '':'' @ getDataType cons_inst)))
           else (case would_connect_to_self_recursive bound g source_component sink_component of
                   None \<Rightarrow> None
                 | Some (Inl e) \<Rightarrow> Some (Inl e)
                 | Some (Inr loop) \<Rightarrow>
                     Some (Inr (if loop then Some ''Connection would create loop in dataflow''
                                else None))))))"

definition check_sink ::
    "nat \<Rightarrow> GraphInstance \<Rightarrow> string \<Rightarrow> string \<Rightarrow> string \<Rightarrow> string \<Rightarrow>
     PatternInstance \<Rightarrow> port_loc \<Rightarrow> string option res option" where
  "check_sink bound g source_component sink_component consumer_port tail prod_comp prod_port =
     (case map_of (pattern_instances g) sink_component of
        None \<Rightarrow> Some (Inr (Some (''Unknown Sink '' @ sink_component @ tail)))
      | Some cons_comp \<Rightarrow>
          (case getConsumerPort cons_comp consumer_port of
             Inl e \<Rightarrow> Some (Inl e)
           | Inr cons_port \<Rightarrow>
               (case cons_port of
                  None \<Rightarrow> Some (Inr (Some (''Unknown Port '' @ consumer_port @ '' in Sink '' @
                            sink_component @ tail)))
                | Some cons_port \<Rightarrow>
                    check_found bound g source_component sink_component tail
                      prod_comp prod_port cons_comp cons_port)))"

definition checkSourceAndSinkConnectionError ::
    "nat \<Rightarrow> GraphInstance \<Rightarrow> string \<Rightarrow> string \<Rightarrow> string \<Rightarrow> string \<Rightarrow> string option res option" where
  "checkSourceAndSinkConnectionError bound g source_component producer_port sink_component consumer_port =
     (let tail = when_trying source_component producer_port sink_component consumer_port
      in
      if source_component = sink_component
      then Some (Inr (Some (''Cannot connect component to itself '' @ source_component)))
      else (case map_of (pattern_instances g) source_component of
        None \<Rightarrow> Some (Inr (Some (''Unknown Source '' @ source_component @ tail)))
      | Some prod_comp \<Rightarrow>
          (case getProducerPort prod_comp producer_port of
             Inl e \<Rightarrow> Some (Inl e)
           | Inr prod_port \<Rightarrow>
               (case prod_port of
                  None \<Rightarrow> Some (Inr (Some (''Unknown Port '' @ producer_port @ '' in Source '' @
                            source_component @ tail)))
                | Some prod_port \<Rightarrow>
                    check_sink bound g source_component sink_component consumer_port tail
                      prod_comp prod_port))))"

fun set_connected_to :: "port_loc \<Rightarrow> port_id \<Rightarrow> PatternInstance \<Rightarrow> PatternInstance" where
  "set_connected_to (i, j, k) cid p =
     (let gi = inst_port_groups p ! i ! j;
          port = gi_consumer_ports gi ! k;
          gi' = gi\<lparr>gi_consumer_ports := (gi_consumer_ports gi)[k := port\<lparr>connected_to := cid\<rparr>]\<rparr>
      in p\<lparr>inst_port_groups := (inst_port_groups p)[i := (inst_port_groups p ! i)[j := gi']]\<rparr>)"

definition connect ::
    "nat \<Rightarrow> string \<Rightarrow> string \<Rightarrow> string \<Rightarrow> string \<Rightarrow> GraphInstance \<Rightarrow> GraphInstance res option" where
  "connect bound source_component producer_port sink_component consumer_port g =
     (case checkSourceAndSinkConnectionError bound g source_component producer_port
             sink_component consumer_port of
        None \<Rightarrow> None
      | Some (Inl e) \<Rightarrow> Some (Inl e)
      | Some (Inr (Some error)) \<Rightarrow> Some (Inl InvalidArgument)
      | Some (Inr None) \<Rightarrow> Some (
          bind_res (deref (map_of (pattern_instances g) source_component)) (\<lambda>prod_comp.
          bind_res (getProducerPort prod_comp producer_port) (\<lambda>source.
          bind_res (deref (map_of (pattern_instances g) sink_component)) (\<lambda>cons_comp.
          bind_res (getConsumerPort cons_comp consumer_port) (\<lambda>sink.
          bind_res (deref source) (\<lambda>source.
          bind_res (deref sink) (\<lambda>sink.
          Inr (g\<lparr>pattern_instances :=
            assign sink_component (set_connected_to sink (loc_id PRODUCER prod_comp source) cons_comp)
              (pattern_instances g)\<rparr>)))))))))"

definition disconnect :: "string \<Rightarrow> string \<Rightarrow> GraphInstance \<Rightarrow> (bool \<times> GraphInstance) res" where
  "disconnect sink_component consumer_port g = Inl LogicError"

definition input_port_error :: "port_id \<Rightarrow> string" where
  "input_port_error cid =
     ''Input Port '' @ fst cid @ '':'' @ snd cid @ '' is not connected'' @ [CHR 0x0A]"

definition checkRunnable :: "GraphInstance \<Rightarrow> string option res" where
  "checkRunnable g =
     bind_res (fold_res (\<lambda>((pid, t, l), p) error_stream.
         bind_res (isConnected g p CONSUMER l) (\<lambda>c.
         Inr (if \<not> c then error_stream @ input_port_error (loc_id CONSUMER p l) else error_stream)))
       (port_refs g CONSUMER) [])
     (\<lambda>error_string. Inr (if List.null error_string then None else Some error_string))"

definition getOutputPortsConnected :: "GraphInstance \<Rightarrow> PatternInstance \<Rightarrow> int \<Rightarrow> bool list res" where
  "getOutputPortsConnected g p td =
     bind_res (getProducerPorts p td) (map_res (isConnected g p PRODUCER))"

end
