(* ===== verification/GraphInv.thy ===== *)
theory GraphInv
  imports Graph
begin

text \<open>
  What the graph guarantees: names resolve to their ports, connections join ports of the same type
  and time domain, the search for loops answers reachability along connections and \<open>connect\<close> keeps
  the dataflow free of loops. \<open>graph_step\<close> are the calls an application makes; the invariant holds
  in every state they reach.
\<close>

section \<open>Locations and names do not depend on connections\<close>

lemma in_port_locs:
  "(g, i, k) \<in> set (port_locs f p) \<longleftrightarrow>
   g < length (inst_port_groups p) \<and> i < length (inst_port_groups p ! g) \<and>
   k < length (f (inst_port_groups p ! g ! i))"
  by (fastforce simp: port_locs_def image_iff)

lemma ports_of_simps:
  "ports_of PRODUCER = gi_producer_ports" "ports_of CONSUMER = gi_consumer_ports"
  by (auto simp: ports_of_def fun_eq_iff)

definition erase_port :: "PortInstance \<Rightarrow> PortInstance" where
  "erase_port port = port\<lparr>connected_to := ([], [])\<rparr>"

definition erase_group :: "PortGroupInstance \<Rightarrow> PortGroupInstance" where
  "erase_group gi = gi\<lparr>gi_producer_ports := map erase_port (gi_producer_ports gi),
     gi_consumer_ports := map erase_port (gi_consumer_ports gi)\<rparr>"

definition erase :: "PatternInstance \<Rightarrow> PatternInstance" where
  "erase p = p\<lparr>inst_port_groups := map (map erase_group) (inst_port_groups p)\<rparr>"

lemma erase_port_simps [simp]: "inst_port (erase_port port) = inst_port port"
  by (simp add: erase_port_def)

lemma erase_group_simps [simp]:
  "gi_port_group (erase_group gi) = gi_port_group gi" "gi_index (erase_group gi) = gi_index gi"
  "ports_of t (erase_group gi) = map erase_port (ports_of t gi)"
  "port_full_name (erase_group gi) n = port_full_name gi n"
  by (simp_all add: erase_group_def ports_of_def port_full_name_def)

lemma erase_simps [simp]:
  "instance_id (erase p) = instance_id p" "local_pattern (erase p) = local_pattern p"
  "port_group_name_to_index (erase p) = port_group_name_to_index p"
  "local_to_global_time_domain (erase p) = local_to_global_time_domain p"
  "inst_port_groups (erase p) = map (map erase_group) (inst_port_groups p)"
  by (simp_all add: erase_def)

text \<open>
  The locations and the names of ports do not depend on what a map of port instances and port groups
  changes, if it keeps the ports and the names of their groups.
\<close>

locale relabelling =
  fixes h_port :: "PortInstance \<Rightarrow> PortInstance"
    and h_group :: "PortGroupInstance \<Rightarrow> PortGroupInstance"
    and h :: "PatternInstance \<Rightarrow> PatternInstance"
  assumes groups: "inst_port_groups (h p) = map (map h_group) (inst_port_groups p)"
    and ports: "ports_of t (h_group gi) = map h_port (ports_of t gi)"
    and port_kept: "inst_port (h_port port) = inst_port port"
    and full_name_kept: "port_full_name (h_group gi) n = port_full_name gi n"
    and id_kept: "instance_id (h p) = instance_id p"
    and domains_kept: "local_to_global_time_domain (h p) = local_to_global_time_domain p"
begin

lemma locs: "port_locs (ports_of t) (h p) = port_locs (ports_of t) p"
  unfolding port_locs_def
  by (rule arg_cong [where f = concat], rule map_cong, simp add: groups, rule arg_cong [where f = concat],
      rule map_cong) (auto simp: groups ports)

lemma at:
  assumes "l \<in> set (port_locs (ports_of t) p)"
  shows "group_inst_at (h p) l = h_group (group_inst_at p l)"
    and "port_inst_at (ports_of t) (h p) l = h_port (port_inst_at (ports_of t) p l)"
proof -
  obtain g i k where l: "l = (g, i, k)" by (cases l) auto
  with assms have "g < length (inst_port_groups p)" "i < length (inst_port_groups p ! g)"
    "k < length (ports_of t (inst_port_groups p ! g ! i))" by (simp_all only: in_port_locs)
  with l show "group_inst_at (h p) l = h_group (group_inst_at p l)"
    "port_inst_at (ports_of t) (h p) l = h_port (port_inst_at (ports_of t) p l)"
    by (simp_all add: groups ports)
qed

lemma same_id: "l \<in> set (port_locs (ports_of t) p) \<Longrightarrow> loc_id t (h p) l = loc_id t p l"
  by (simp add: loc_id_def port_getId_def port_getName_def at port_kept full_name_kept id_kept)

lemma same_search: "find_port (ports_of t) (h p) n = find_port (ports_of t) p n"
proof -
  have "List.find (\<lambda>l. port_getName (group_inst_at (h p) l) (port_inst_at (ports_of t) (h p) l) = n)
      (port_locs (ports_of t) p) =
    List.find (\<lambda>l. port_getName (group_inst_at p l) (port_inst_at (ports_of t) p l) = n)
      (port_locs (ports_of t) p)"
    by (intro find_cong) (auto simp: port_getName_def at port_kept full_name_kept)
  moreover have "find_index (\<lambda>port. port_name (inst_port port) = n) (map h_port ps) =
    find_index (\<lambda>port. port_name (inst_port port) = n) ps" for ps
    by (auto simp: find_index_def port_kept intro!: find_cong)
  ultimately show ?thesis
    by (cases "inst_port_groups p"; cases "hd (inst_port_groups p)")
       (auto simp: find_port_def vec_at_def raw_get_def groups ports locs split: option.split)
qed

lemma same_port: "getPort (h p) n = getPort p n"
  unfolding getPort_def getProducerPort_def getConsumerPort_def
    same_search [of PRODUCER, unfolded ports_of_simps]
    same_search [of CONSUMER, unfolded ports_of_simps] ..

lemma same_time_domain: "port_getTimeDomain (h p) (h_port port) = port_getTimeDomain p port"
  by (simp add: port_getTimeDomain_def port_kept domains_kept)

end

interpretation erasing: relabelling erase_port erase_group erase
  by unfold_locales simp_all

lemmas port_locs_erase [simp] = erasing.locs
lemmas erase_at = erasing.at
lemmas loc_id_erase = erasing.same_id
lemmas find_port_erase = erasing.same_search
lemmas getPort_erase = erasing.same_port
lemmas port_getTimeDomain_erase = erasing.same_time_domain

lemma erase_set_connected_to:
  "l \<in> set (port_locs (ports_of CONSUMER) p) \<Longrightarrow> erase (set_connected_to l cid p) = erase p"
proof -
  assume l: "l \<in> set (port_locs (ports_of CONSUMER) p)"
  obtain g i k where lk: "l = (g, i, k)" by (cases l) auto
  let ?gs = "inst_port_groups p" and ?gi = "inst_port_groups p ! g ! i"
  from l lk have g: "g < length ?gs" and i: "i < length (?gs ! g)"
    and k: "k < length (gi_consumer_ports ?gi)" by (auto simp: in_port_locs ports_of_simps)
  define gi' where "gi' = ?gi\<lparr>gi_consumer_ports := (gi_consumer_ports ?gi)
      [k := (gi_consumer_ports ?gi ! k)\<lparr>connected_to := cid\<rparr>]\<rparr>"
  have "erase_port (gi_consumer_ports ?gi ! k) = map erase_port (gi_consumer_ports ?gi) ! k"
    using k by simp
  then have "map erase_port ((gi_consumer_ports ?gi)[k := (gi_consumer_ports ?gi ! k)\<lparr>connected_to := cid\<rparr>]) =
      map erase_port (gi_consumer_ports ?gi)"
    by (simp add: map_update erase_port_def)
  then have gi': "erase_group gi' = erase_group ?gi"
    by (simp add: gi'_def erase_group_def)
  have "map erase_group ((?gs ! g)[i := gi']) = map erase_group (?gs ! g)"
    using i by (simp add: map_update gi') (metis list_update_id map_update)
  then have "map (map erase_group) (?gs[g := (?gs ! g)[i := gi']]) = map (map erase_group) ?gs"
    using g by (simp add: map_update) (metis list_update_id map_update)
  moreover have "set_connected_to l cid p = p\<lparr>inst_port_groups := ?gs[g := (?gs ! g)[i := gi']]\<rparr>"
    by (simp add: lk gi'_def Let_def)
  ultimately show ?thesis by (simp add: erase_def)
qed

lemma erase_pattern_instance_ok: "pattern_instance_ok (erase p) \<longleftrightarrow> pattern_instance_ok p"
proof -
  have "inst_matches pg i (erase_group gi) = inst_matches pg i gi" for pg i gi
    by (simp add: inst_matches_def erase_group_def comp_def)
  moreover have "map (map erase_group) (inst_port_groups p) ! 0 \<noteq> [] \<longleftrightarrow> inst_port_groups p ! 0 \<noteq> []"
    if "length (inst_port_groups p) = length (port_groups (local_pattern p))"
      "port_groups (local_pattern p) \<noteq> []"
    using that by (cases "inst_port_groups p") auto
  ultimately show ?thesis by (auto simp: pattern_instance_ok_def pattern_ok_def)
qed

section \<open>Connections as a relation\<close>

definition resolves :: "PatternInstance \<Rightarrow> bool" where
  "resolves p \<longleftrightarrow> (\<forall>t \<in> {PRODUCER, CONSUMER}. \<forall>l \<in> set (port_locs (ports_of t) p).
     getPort p (snd (loc_id t p l)) = Inr (Some (t, l)))"

definition graph_ok :: "GraphInstance \<Rightarrow> bool" where
  "graph_ok g \<longleftrightarrow> omap_ok (pattern_instances g) \<and>
     (\<forall>(k, p) \<in> set (pattern_instances g). instance_id p = k \<and> pattern_instance_ok p \<and> resolves p)"

text \<open>Pattern \<open>a\<close> feeds pattern \<open>b\<close>: a consumer port of \<open>b\<close> names a producer port of \<open>a\<close>.\<close>

definition edges :: "GraphInstance \<Rightarrow> (string \<times> string) set" where
  "edges g = {(a, b). \<exists>p q l m. map_of (pattern_instances g) a = Some p \<and>
     map_of (pattern_instances g) b = Some q \<and> l \<in> set (port_locs (ports_of PRODUCER) p) \<and>
     m \<in> set (port_locs (ports_of CONSUMER) q) \<and>
     connected_to (port_inst_at (ports_of CONSUMER) q m) = loc_id PRODUCER p l}"

text \<open>Every connected consumer port names a producer port of its own data type and time domain.\<close>

definition well_typed :: "GraphInstance \<Rightarrow> bool" where
  "well_typed g \<longleftrightarrow> (\<forall>b q m. map_of (pattern_instances g) b = Some q \<longrightarrow>
     m \<in> set (port_locs (ports_of CONSUMER) q) \<longrightarrow>
     (let port = port_inst_at (ports_of CONSUMER) q m
      in connected_to port = ([], []) \<or>
         (\<exists>a p l. map_of (pattern_instances g) a = Some p \<and> l \<in> set (port_locs (ports_of PRODUCER) p) \<and>
            connected_to port = loc_id PRODUCER p l \<and>
            getDataType (port_inst_at (ports_of PRODUCER) p l) = getDataType port \<and>
            port_getTimeDomain p (port_inst_at (ports_of PRODUCER) p l) = port_getTimeDomain q port \<and>
            is_ok (port_getTimeDomain q port))))"

lemma graph_okD:
  assumes "graph_ok g" and "map_of (pattern_instances g) a = Some p"
  shows "instance_id p = a" "pattern_instance_ok p" "resolves p"
  using assms by (auto simp: graph_ok_def dest: map_of_SomeD)

lemma graph_ok_mem: "graph_ok g \<Longrightarrow> (a, p) \<in> set (pattern_instances g) \<longleftrightarrow> map_of (pattern_instances g) a = Some p"
  by (simp add: graph_ok_def omap_mem_iff)

lemma fst_loc_id [simp]: "fst (loc_id t p l) = instance_id p"
  by (simp add: loc_id_def port_getId_def)

lemma loc_id_nonempty [simp]: "loc_id t p l \<noteq> ([], [])" "([], []) \<noteq> loc_id t p l"
  by (auto simp: loc_id_def port_getId_def port_getName_def port_full_name_def)

lemma port_type_at:
  assumes ok: "pattern_instance_ok p" and t: "t \<noteq> PT_NONE" and l: "l \<in> set (port_locs (ports_of t) p)"
  shows "getPortType (port_inst_at (ports_of t) p l) = t"
proof -
  obtain g i k where lk: "l = (g, i, k)" by (cases l) auto
  from l lk have g: "g < length (inst_port_groups p)" and i: "i < length (inst_port_groups p ! g)"
    and k: "k < length (ports_of t (inst_port_groups p ! g ! i))" by (simp_all only: in_port_locs)
  note okD = pattern_instance_okD [OF ok]
  have m: "inst_matches (port_groups (local_pattern p) ! g) i (inst_port_groups p ! g ! i)"
    by (rule okD(5) [OF g i])
  from okD(1,3) g have "group_ok (port_groups (local_pattern p) ! g)"
    by (simp add: pattern_ok_def list_all_length)
  then have "\<forall>q \<in> set (map inst_port (ports_of t (inst_port_groups p ! g ! i))). port_type q = t"
    unfolding inst_matches_ports [OF m, of t] using t by (cases t) (simp_all add: group_ok_def list_all_iff)
  with k lk show ?thesis by (simp add: getPortType_def)
qed

lemma in_port_refs:
  "graph_ok g \<Longrightarrow> ((a, t', l), p) \<in> set (port_refs g t) \<longleftrightarrow>
   t' = t \<and> map_of (pattern_instances g) a = Some p \<and> l \<in> set (port_locs (ports_of t) p)"
proof -
  assume "graph_ok g"
  moreover have "((a, t', l), p) \<in> set (port_refs g t) \<longleftrightarrow>
      t' = t \<and> (a, p) \<in> set (pattern_instances g) \<and> l \<in> set (port_locs (ports_of t) p)"
    by (auto simp: port_refs_def intro!: bexI [of _ "(a, p)"])
  ultimately show ?thesis by (simp add: graph_ok_mem)
qed

definition peers_of_producer :: "GraphInstance \<Rightarrow> PatternInstance \<Rightarrow> port_loc \<Rightarrow> port_ref list" where
  "peers_of_producer g p l = map fst (filter (\<lambda>((pid, t, m), q).
     connected_to (port_inst_at (ports_of t) q m) = loc_id PRODUCER p l) (port_refs g CONSUMER))"

lemma connectedToPtr_producer:
  assumes ok: "graph_ok g" and p: "map_of (pattern_instances g) a = Some p"
    and l: "l \<in> set (port_locs (ports_of PRODUCER) p)"
  shows "connectedToPtr g (loc_id PRODUCER p l) = Inr (peers_of_producer g p l)"
proof -
  note okD = graph_okD [OF ok p]
  from okD(3) l have res: "getPort p (snd (loc_id PRODUCER p l)) = Inr (Some (PRODUCER, l))"
    by (simp add: resolves_def)
  have ty: "getPortType (port_inst_at (ports_of PRODUCER) p l) = PRODUCER"
    using port_type_at [OF okD(2) _ l] by simp
  have "is_peer PRODUCER cid tg = (\<lambda>((pid, t, m), q). connected_to (port_inst_at (ports_of t) q m) = cid)"
    for cid tg by (auto simp: fun_eq_iff)
  then show ?thesis
    using p res ty okD(1) by (simp add: connectedToPtr_def peers_of_producer_def map_at_def Let_def)
qed

lemma in_map_fst_filter: "x \<in> set (map fst (filter P xs)) \<longleftrightarrow> (\<exists>q. (x, q) \<in> set xs \<and> P (x, q))"
  by force

lemma in_peers_of_producer:
  "graph_ok g \<Longrightarrow> (b, t, m) \<in> set (peers_of_producer g p l) \<longleftrightarrow>
   t = CONSUMER \<and> (\<exists>q. map_of (pattern_instances g) b = Some q \<and>
     m \<in> set (port_locs (ports_of CONSUMER) q) \<and>
     connected_to (port_inst_at (ports_of CONSUMER) q m) = loc_id PRODUCER p l)"
proof -
  assume ok: "graph_ok g"
  have "(b, t, m) \<in> set (peers_of_producer g p l) \<longleftrightarrow>
      (\<exists>q. ((b, t, m), q) \<in> set (port_refs g CONSUMER) \<and>
        connected_to (port_inst_at (ports_of t) q m) = loc_id PRODUCER p l)"
    unfolding peers_of_producer_def in_map_fst_filter by simp
  then show ?thesis by (auto simp: in_port_refs [OF ok])
qed

lemma edges_iff:
  assumes ok: "graph_ok g" and p: "map_of (pattern_instances g) a = Some p"
  shows "(a, b) \<in> edges g \<longleftrightarrow>
    (\<exists>l \<in> set (port_locs (ports_of PRODUCER) p). \<exists>r \<in> set (peers_of_producer g p l). fst r = b)"
proof -
  have "(\<exists>r \<in> set (peers_of_producer g p l). fst r = b) \<longleftrightarrow> (\<exists>q m. map_of (pattern_instances g) b = Some q \<and>
      m \<in> set (port_locs (ports_of CONSUMER) q) \<and>
      connected_to (port_inst_at (ports_of CONSUMER) q m) = loc_id PRODUCER p l)" for l
  proof -
    have "(\<exists>r \<in> set (peers_of_producer g p l). fst r = b) \<longleftrightarrow>
        (\<exists>t m. (b, t, m) \<in> set (peers_of_producer g p l))" by force
    then show ?thesis by (simp add: in_peers_of_producer [OF ok], blast)
  qed
  then show ?thesis
    using p by (simp add: edges_def del: split_paired_All split_paired_Ex) blast
qed

lemma edges_dom: "(a, b) \<in> edges g \<Longrightarrow>
   a \<in> fst ` set (pattern_instances g) \<and> b \<in> fst ` set (pattern_instances g)"
  by (auto simp: edges_def dest!: map_of_SomeD intro: image_eqI [rotated])

lemma edges_subset: "edges g \<subseteq> fst ` set (pattern_instances g) \<times> fst ` set (pattern_instances g)"
  by (auto dest: edges_dom)

lemma finite_edges: "finite (edges g)"
  by (rule finite_subset [OF edges_subset]) simp

section \<open>The search for loops\<close>

lemma first_true_decides:
  "(\<And>x. x \<in> set xs \<Longrightarrow> f x = Some (Inr (P x))) \<Longrightarrow> first_true f xs = Some (Inr (\<exists>x \<in> set xs. P x))"
proof (induction xs)
  case (Cons x xs)
  then show ?case by (cases "P x") auto
qed simp

lemma first_true_False:
  "first_true f xs = Some (Inr False) \<longleftrightarrow> (\<forall>x \<in> set xs. f x = Some (Inr False))"
proof (induction xs)
  case (Cons x xs)
  then show ?case by (auto split: option.split sum.split bool.split)
qed simp

text \<open>The body of the search at a pattern that is not the one searched for.\<close>

lemma would_connect_Suc:
  assumes ok: "graph_ok g" and p: "map_of (pattern_instances g) test = Some p" and ne: "test \<noteq> target"
  shows "would_connect_to_self_recursive (Suc n) g target test =
    first_true (\<lambda>l. first_true (\<lambda>r. would_connect_to_self_recursive n g target (fst r))
      (peers_of_producer g p l)) (port_locs (ports_of PRODUCER) p)"
proof -
  have cong: "first_true f xs = first_true h xs" if "\<And>x. x \<in> set xs \<Longrightarrow> f x = h x"
    for f h :: "port_loc \<Rightarrow> bool res option" and xs
    using that by (induction xs) (auto split: option.split sum.split bool.split)
  have body: "first_true f [] = Some (Inr False)" for f :: "port_ref \<Rightarrow> bool res option" by simp
  from p ne show ?thesis
    unfolding would_connect_to_self_recursive.simps
    by (auto intro!: cong simp: connectedToPtr_producer [OF ok p] List.null_iff)
qed

lemma would_connect_False:
  assumes ok: "graph_ok g"
  shows "would_connect_to_self_recursive n g target test = Some (Inr False) \<Longrightarrow> (test, target) \<notin> (edges g)\<^sup>*"
proof (induction n arbitrary: test)
  case (Suc n)
  from Suc.prems have ne: "test \<noteq> target" by auto
  with Suc.prems obtain p where p: "map_of (pattern_instances g) test = Some p"
    by (auto split: option.splits)
  from Suc.prems have next_False: "would_connect_to_self_recursive n g target b = Some (Inr False)"
    if "(test, b) \<in> edges g" for b
    using that unfolding would_connect_Suc [OF ok p ne] first_true_False edges_iff [OF ok p] by blast
  show ?case
  proof
    assume "(test, target) \<in> (edges g)\<^sup>*"
    with ne obtain b where "(test, b) \<in> edges g" "(b, target) \<in> (edges g)\<^sup>*" by (metis converse_rtranclE)
    with next_False Suc.IH show False by blast
  qed
qed simp

lemma would_connect_decides:
  assumes ok: "graph_ok g" and ac: "acyclic (edges g)"
  shows "test \<in> fst ` set (pattern_instances g) \<Longrightarrow> card ((edges g)\<^sup>+ `` {test}) < n \<Longrightarrow>
    would_connect_to_self_recursive n g target test = Some (Inr ((test, target) \<in> (edges g)\<^sup>*))"
proof (induction n arbitrary: test)
  case (Suc n)
  show ?case
  proof (cases "test = target")
    case False
    from Suc.prems(1) obtain p where p: "map_of (pattern_instances g) test = Some p"
      by (auto simp: graph_ok_mem [OF ok])
    have step: "would_connect_to_self_recursive n g target b = Some (Inr ((b, target) \<in> (edges g)\<^sup>*))"
      if b: "(test, b) \<in> edges g" for b
    proof (rule Suc.IH)
      show "b \<in> fst ` set (pattern_instances g)" using edges_dom [OF b] by simp
      have fin: "finite ((edges g)\<^sup>+ `` {test})"
        by (rule finite_Image [OF iffD2 [OF finite_trancl finite_edges]])
      have "b \<notin> (edges g)\<^sup>+ `` {b}" using ac by (simp add: acyclic_def)
      moreover have "b \<in> (edges g)\<^sup>+ `` {test}" using b by auto
      moreover have "(edges g)\<^sup>+ `` {b} \<subseteq> (edges g)\<^sup>+ `` {test}" using b by auto
      ultimately have "card ((edges g)\<^sup>+ `` {b}) < card ((edges g)\<^sup>+ `` {test})"
        by (intro psubset_card_mono [OF fin]) blast
      with Suc.prems(2) show "card ((edges g)\<^sup>+ `` {b}) < n" by simp
    qed
    have inner: "first_true (\<lambda>r. would_connect_to_self_recursive n g target (fst r)) (peers_of_producer g p l) =
        Some (Inr (\<exists>r \<in> set (peers_of_producer g p l). (fst r, target) \<in> (edges g)\<^sup>*))"
      if "l \<in> set (port_locs (ports_of PRODUCER) p)" for l
      by (rule first_true_decides) (use that edges_iff [OF ok p] in \<open>auto intro!: step\<close>)
    have "would_connect_to_self_recursive (Suc n) g target test =
        Some (Inr (\<exists>l \<in> set (port_locs (ports_of PRODUCER) p).
          \<exists>r \<in> set (peers_of_producer g p l). (fst r, target) \<in> (edges g)\<^sup>*))"
      unfolding would_connect_Suc [OF ok p False] by (rule first_true_decides) (rule inner)
    also have "(\<exists>l \<in> set (port_locs (ports_of PRODUCER) p).
          \<exists>r \<in> set (peers_of_producer g p l). (fst r, target) \<in> (edges g)\<^sup>*) \<longleftrightarrow>
        (\<exists>b. (test, b) \<in> edges g \<and> (b, target) \<in> (edges g)\<^sup>*)"
      unfolding edges_iff [OF ok p] by blast
    also have "\<dots> \<longleftrightarrow> (test, target) \<in> (edges g)\<^sup>*"
      using False by (metis converse_rtranclE converse_rtrancl_into_rtrancl)
    finally show ?thesis .
  qed simp
qed simp

text \<open>The number of patterns bounds the recursion.\<close>

lemma would_connect_enough:
  assumes ok: "graph_ok g" and ac: "acyclic (edges g)" and t: "test \<in> fst ` set (pattern_instances g)"
    and n: "length (pattern_instances g) \<le> n"
  shows "would_connect_to_self_recursive n g target test = Some (Inr ((test, target) \<in> (edges g)\<^sup>*))"
proof (rule would_connect_decides [OF ok ac t])
  let ?K = "fst ` set (pattern_instances g)"
  have sub: "(edges g)\<^sup>+ `` {test} \<subseteq> ?K - {test}"
  proof
    fix b assume "b \<in> (edges g)\<^sup>+ `` {test}"
    then have b: "(test, b) \<in> (edges g)\<^sup>+" by simp
    then have "b \<in> ?K" using trancl_subset_Sigma [OF edges_subset] by blast
    with b ac show "b \<in> ?K - {test}" by (auto simp: acyclic_def)
  qed
  have "card ((edges g)\<^sup>+ `` {test}) \<le> card (?K - {test})" by (rule card_mono [OF _ sub]) simp
  also have "\<dots> < card ?K" using t by (intro card_Diff1_less) auto
  also have "\<dots> \<le> length (pattern_instances g)"
    by (metis card_image_le card_length finite_set le_trans)
  finally show "card ((edges g)\<^sup>+ `` {test}) < n" using n by simp
qed

section \<open>Connecting\<close>

lemma find_port_total: "pattern_instance_ok p \<Longrightarrow> \<exists>r. find_port f p n = Inr r"
  using pattern_instance_okD(1,3,6) [of p]
  by (cases "inst_port_groups p"; cases "hd (inst_port_groups p)")
     (auto simp: find_port_def vec_at_def raw_get_def pattern_ok_def split: option.split)

lemma find_port_loc:
  assumes "find_port f p n = Inr (Some l)"
  shows "l \<in> set (port_locs f p)"
proof -
  from assms obtain gs g0 where gs: "inst_port_groups p \<noteq> []" "inst_port_groups p ! 0 = gs" "gs \<noteq> []"
    "gs ! 0 = g0" and cs: "(case find_index (\<lambda>port. port_name (inst_port port) = n) (f g0) of
       Some k \<Rightarrow> Inr (Some (0, 0, k))
     | None \<Rightarrow> Inr (List.find (\<lambda>l. port_getName (group_inst_at p l) (port_inst_at f p l) = n) (port_locs f p)))
     = (Inr (Some l) :: port_loc option res)"
    by (auto simp: find_port_def)
  show ?thesis
  proof (cases "find_index (\<lambda>port. port_name (inst_port port) = n) (f g0)")
    case None
    with cs have "List.find (\<lambda>l. port_getName (group_inst_at p l) (port_inst_at f p l) = n) (port_locs f p) =
      Some l" by simp
    then show ?thesis by (auto simp: find_Some_iff in_set_conv_nth)
  next
    case (Some k)
    with cs gs find_index_Some [OF Some] show ?thesis by (auto simp: in_port_locs)
  qed
qed

lemma getProducerPort_loc: "getProducerPort p n = Inr (Some l) \<Longrightarrow> l \<in> set (port_locs (ports_of PRODUCER) p)"
  by (simp add: getProducerPort_def find_port_loc ports_of_simps)

lemma getConsumerPort_loc: "getConsumerPort p n = Inr (Some l) \<Longrightarrow> l \<in> set (port_locs (ports_of CONSUMER) p)"
  by (simp add: getConsumerPort_def find_port_loc ports_of_simps)

lemma same_erase:
  assumes "erase q' = erase q"
  shows "instance_id q' = instance_id q" "port_locs (ports_of t) q' = port_locs (ports_of t) q"
    "getPort q' n = getPort q n" "pattern_instance_ok q' = pattern_instance_ok q"
    "local_to_global_time_domain q' = local_to_global_time_domain q"
proof -
  show "instance_id q' = instance_id q" using arg_cong [OF assms, of instance_id] by simp
  show "port_locs (ports_of t) q' = port_locs (ports_of t) q"
    using arg_cong [OF assms, of "port_locs (ports_of t)"] by simp
  show "getPort q' n = getPort q n" using arg_cong [OF assms, of "\<lambda>p. getPort p n"] by (simp add: getPort_erase)
  show "pattern_instance_ok q' = pattern_instance_ok q"
    using arg_cong [OF assms, of pattern_instance_ok] by (simp add: erase_pattern_instance_ok)
  show "local_to_global_time_domain q' = local_to_global_time_domain q"
    using arg_cong [OF assms, of local_to_global_time_domain] by simp
qed

lemma same_erase_at:
  assumes "erase q' = erase q" and "l \<in> set (port_locs (ports_of t) q)"
  shows "loc_id t q' l = loc_id t q l"
    and "inst_port (port_inst_at (ports_of t) q' l) = inst_port (port_inst_at (ports_of t) q l)"
proof -
  have l': "l \<in> set (port_locs (ports_of t) q')" using assms(2) by (simp only: same_erase(2) [OF assms(1)])
  show "loc_id t q' l = loc_id t q l" 
    using loc_id_erase [OF assms(2)] loc_id_erase [OF l'] assms(1) by simp
  show "inst_port (port_inst_at (ports_of t) q' l) = inst_port (port_inst_at (ports_of t) q l)"
    using arg_cong [OF erase_at(2) [OF assms(2)], of inst_port]
      arg_cong [OF erase_at(2) [OF l'], of inst_port] assms(1) by simp
qed

lemma same_erase_resolves:
  assumes "erase q' = erase q"
  shows "resolves q' = resolves q"
  unfolding resolves_def
  by (simp only: same_erase [OF assms] same_erase_at(1) [OF assms] cong: ball_cong)

lemma connected_to_set:
  assumes "m \<in> set (port_locs (ports_of CONSUMER) q)" and "m' \<in> set (port_locs (ports_of CONSUMER) q)"
  shows "connected_to (port_inst_at (ports_of CONSUMER) (set_connected_to m cid q) m') =
    (if m' = m then cid else connected_to (port_inst_at (ports_of CONSUMER) q m'))"
proof -
  obtain g i k where m: "m = (g, i, k)" by (cases m) auto
  obtain g' i' k' where m': "m' = (g', i', k')" by (cases m') auto
  from assms m m' show ?thesis
    by (auto simp: in_port_locs Let_def nth_list_update ports_of_simps)
qed

lemma connect_okE:
  assumes "connect n src pp snk cp g = Some (Inr g')"
  obtains p q l m where "src \<noteq> snk"
    "map_of (pattern_instances g) src = Some p" "getProducerPort p pp = Inr (Some l)"
    "map_of (pattern_instances g) snk = Some q" "getConsumerPort q cp = Inr (Some m)"
    "is_ok (port_getTimeDomain p (port_inst_at (ports_of PRODUCER) p l))"
    "port_getTimeDomain q (port_inst_at (ports_of CONSUMER) q m) =
      port_getTimeDomain p (port_inst_at (ports_of PRODUCER) p l)"
    "getDataType (port_inst_at (ports_of PRODUCER) p l) = getDataType (port_inst_at (ports_of CONSUMER) q m)"
    "would_connect_to_self_recursive n g src snk = Some (Inr False)"
    "g' = g\<lparr>pattern_instances :=
       assign snk (set_connected_to m (loc_id PRODUCER p l) q) (pattern_instances g)\<rparr>"
  using assms
  by (auto simp: connect_def checkSourceAndSinkConnectionError_def check_sink_def check_found_def Let_def
      is_ok_iff split: if_splits option.splits sum.splits prod.splits bool.splits)

text \<open>
  What a successful \<open>connect\<close> changes: the graphs have the same patterns up to connections, and
  exactly the consumer port \<open>m\<close> of \<open>snk\<close> now names the port \<open>cid\<close>.
\<close>

definition redirected ::
    "GraphInstance \<Rightarrow> GraphInstance \<Rightarrow> string \<Rightarrow> port_loc \<Rightarrow> port_id \<Rightarrow> bool" where
  "redirected g g' snk m cid \<longleftrightarrow>
     (\<forall>a. rel_option (\<lambda>p' p. erase p' = erase p \<and> (\<forall>m' \<in> set (port_locs (ports_of CONSUMER) p).
        connected_to (port_inst_at (ports_of CONSUMER) p' m') =
        (if a = snk \<and> m' = m then cid else connected_to (port_inst_at (ports_of CONSUMER) p m'))))
      (map_of (pattern_instances g') a) (map_of (pattern_instances g) a))"

lemma redirected_old:
  assumes "redirected g g' snk m cid" and "map_of (pattern_instances g') a = Some p'"
  obtains p where "map_of (pattern_instances g) a = Some p" "erase p' = erase p"
    "\<And>m'. m' \<in> set (port_locs (ports_of CONSUMER) p) \<Longrightarrow>
       connected_to (port_inst_at (ports_of CONSUMER) p' m') =
       (if a = snk \<and> m' = m then cid else connected_to (port_inst_at (ports_of CONSUMER) p m'))"
proof -
  from assms(1) have "rel_option (\<lambda>p' p. erase p' = erase p \<and> (\<forall>m' \<in> set (port_locs (ports_of CONSUMER) p).
        connected_to (port_inst_at (ports_of CONSUMER) p' m') =
        (if a = snk \<and> m' = m then cid else connected_to (port_inst_at (ports_of CONSUMER) p m'))))
      (map_of (pattern_instances g') a) (map_of (pattern_instances g) a)"
    unfolding redirected_def by blast
  with assms(2) that show ?thesis by (auto simp: option_rel_Some1 simp del: split_paired_All)
qed

lemma redirected_new:
  assumes "redirected g g' snk m cid" and "map_of (pattern_instances g) a = Some p"
  obtains p' where "map_of (pattern_instances g') a = Some p'" "erase p' = erase p"
proof -
  from assms(1) have "rel_option (\<lambda>p' p. erase p' = erase p) (map_of (pattern_instances g') a)
      (map_of (pattern_instances g) a)"
    unfolding redirected_def by (auto elim: option.rel_mono_strong)
  with assms(2) that show ?thesis by (auto simp: option_rel_Some2)
qed

lemma redirected_graph_ok:
  assumes ok: "graph_ok g" and r: "redirected g g' snk m cid" and om: "omap_ok (pattern_instances g')"
  shows "graph_ok g'"
  unfolding graph_ok_def
proof (intro conjI om ballI)
  fix x assume x: "x \<in> set (pattern_instances g')"
  obtain a p' where xp: "x = (a, p')" by (cases x)
  with x om have "map_of (pattern_instances g') a = Some p'" by (simp add: omap_mem_iff)
  from redirected_old [OF r this] obtain p where p: "map_of (pattern_instances g) a = Some p"
    "erase p' = erase p" by blast
  from graph_okD [OF ok p(1)] same_erase(1,4) [OF p(2)] same_erase_resolves [OF p(2)]
  show "case x of (k, p) \<Rightarrow> instance_id p = k \<and> pattern_instance_ok p \<and> resolves p"
    by (simp add: xp)
qed

lemma redirected_edges:
  assumes ok: "graph_ok g" and r: "redirected g g' snk m (loc_id PRODUCER p l)"
    and p: "map_of (pattern_instances g) src = Some p"
  shows "edges g' \<subseteq> insert (src, snk) (edges g)"
proof (rule subrelI)
  fix a b assume "(a, b) \<in> edges g'"
  then obtain p' q' l' m' where e: "map_of (pattern_instances g') a = Some p'"
    "map_of (pattern_instances g') b = Some q'" "l' \<in> set (port_locs (ports_of PRODUCER) p')"
    "m' \<in> set (port_locs (ports_of CONSUMER) q')"
    "connected_to (port_inst_at (ports_of CONSUMER) q' m') = loc_id PRODUCER p' l'"
    unfolding edges_def by blast
  from redirected_old [OF r e(1)] obtain p0 where p0: "map_of (pattern_instances g) a = Some p0"
    "erase p' = erase p0" by blast
  from redirected_old [OF r e(2)] obtain q0 where q0: "map_of (pattern_instances g) b = Some q0"
    "erase q' = erase q0" "m' \<in> set (port_locs (ports_of CONSUMER) q0) \<Longrightarrow>
      connected_to (port_inst_at (ports_of CONSUMER) q' m') = (if b = snk \<and> m' = m
       then loc_id PRODUCER p l else connected_to (port_inst_at (ports_of CONSUMER) q0 m'))" by blast
  have l0: "l' \<in> set (port_locs (ports_of PRODUCER) p0)" using e(3) same_erase(2) [OF p0(2)] by simp
  have m0: "m' \<in> set (port_locs (ports_of CONSUMER) q0)" using e(4) same_erase(2) [OF q0(2)] by simp
  note con = q0(3) [OF m0, unfolded e(5)]
  show "(a, b) \<in> insert (src, snk) (edges g)"
  proof (cases "b = snk \<and> m' = m")
    case True
    with con have "instance_id p' = instance_id p" by (metis fst_loc_id)
    with graph_okD(1) [OF ok p] graph_okD(1) [OF ok p0(1)] same_erase(1) [OF p0(2)]
    have "a = src" by simp
    with True show ?thesis by simp
  next
    case False
    with con same_erase_at(1) [OF p0(2) l0]
    have "connected_to (port_inst_at (ports_of CONSUMER) q0 m') = loc_id PRODUCER p0 l'" by auto
    with p0(1) q0(1) l0 m0 show ?thesis unfolding edges_def by blast
  qed
qed

text \<open>A producer port of the right kind for a consumer port, in a graph.\<close>

definition feeds :: "GraphInstance \<Rightarrow> port_id \<Rightarrow> string \<Rightarrow> int res \<Rightarrow> bool" where
  "feeds g cid dt td \<longleftrightarrow> (\<exists>a p l. map_of (pattern_instances g) a = Some p \<and>
     l \<in> set (port_locs (ports_of PRODUCER) p) \<and> cid = loc_id PRODUCER p l \<and>
     getDataType (port_inst_at (ports_of PRODUCER) p l) = dt \<and>
     port_getTimeDomain p (port_inst_at (ports_of PRODUCER) p l) = td \<and> is_ok td)"

lemma well_typed_alt:
  "well_typed g \<longleftrightarrow> (\<forall>b q m. map_of (pattern_instances g) b = Some q \<longrightarrow>
     m \<in> set (port_locs (ports_of CONSUMER) q) \<longrightarrow>
     connected_to (port_inst_at (ports_of CONSUMER) q m) = ([], []) \<or>
     feeds g (connected_to (port_inst_at (ports_of CONSUMER) q m))
       (getDataType (port_inst_at (ports_of CONSUMER) q m))
       (port_getTimeDomain q (port_inst_at (ports_of CONSUMER) q m)))"
  by (simp only: well_typed_def feeds_def Let_def ex_simps simp_thms conj_assoc cong: conj_cong)

lemma redirected_feeds:
  assumes r: "redirected g g' snk m cid'" and f: "feeds g cid dt td"
  shows "feeds g' cid dt td"
proof -
  from f obtain a p l where p: "map_of (pattern_instances g) a = Some p"
    "l \<in> set (port_locs (ports_of PRODUCER) p)" "cid = loc_id PRODUCER p l"
    "getDataType (port_inst_at (ports_of PRODUCER) p l) = dt"
    "port_getTimeDomain p (port_inst_at (ports_of PRODUCER) p l) = td" "is_ok td"
    unfolding feeds_def by blast
  from redirected_new [OF r p(1)] obtain p' where p': "map_of (pattern_instances g') a = Some p'"
    "erase p' = erase p" by blast
  from same_erase_at [OF p'(2) p(2)] same_erase(2,5) [OF p'(2)] p p'(1) show ?thesis
    unfolding feeds_def by (intro exI [of _ a] exI [of _ p'] exI [of _ l])
      (simp add: getDataType_def port_getTimeDomain_def)
qed

lemma redirected_well_typed:
  assumes wt: "well_typed g" and r: "redirected g g' snk m cid"
    and q: "map_of (pattern_instances g) snk = Some q"
    and f: "feeds g cid (getDataType (port_inst_at (ports_of CONSUMER) q m))
       (port_getTimeDomain q (port_inst_at (ports_of CONSUMER) q m))"
  shows "well_typed g'"
  unfolding well_typed_alt
proof (intro allI impI)
  fix b q' m' assume b: "map_of (pattern_instances g') b = Some q'"
    and m': "m' \<in> set (port_locs (ports_of CONSUMER) q')"
  let ?port = "port_inst_at (ports_of CONSUMER) q' m'"
  from redirected_old [OF r b] obtain q0 where q0: "map_of (pattern_instances g) b = Some q0"
    "erase q' = erase q0" "m' \<in> set (port_locs (ports_of CONSUMER) q0) \<Longrightarrow>
      connected_to ?port = (if b = snk \<and> m' = m
       then cid else connected_to (port_inst_at (ports_of CONSUMER) q0 m'))" by blast
  have m0: "m' \<in> set (port_locs (ports_of CONSUMER) q0)" using m' same_erase(2) [OF q0(2)] by simp
  let ?old = "port_inst_at (ports_of CONSUMER) q0 m'"
  note same = same_erase_at(2) [OF q0(2) m0]
  have td': "port_getTimeDomain q' ?port = port_getTimeDomain q0 ?old"
    using same same_erase(5) [OF q0(2)] by (simp add: port_getTimeDomain_def)
  have dt': "getDataType ?port = getDataType ?old" using same by (simp add: getDataType_def)
  from wt q0(1) m0 have old: "connected_to ?old = ([], []) \<or>
      feeds g (connected_to ?old) (getDataType ?old) (port_getTimeDomain q0 ?old)"
    unfolding well_typed_alt by blast
  show "connected_to ?port = ([], []) \<or>
      feeds g' (connected_to ?port) (getDataType ?port) (port_getTimeDomain q' ?port)"
  proof (cases "b = snk \<and> m' = m")
    case True
    with q q0(1,3) m0 have "q0 = q" "connected_to ?port = cid" by simp_all
    then have "feeds g' (connected_to ?port) (getDataType ?old) (port_getTimeDomain q0 ?old)"
      using True redirected_feeds [OF r f] by simp
    then show ?thesis unfolding td' dt' by blast
  next
    case False
    with q0(3) [OF m0] have "connected_to ?port = connected_to ?old" by simp
    with old redirected_feeds [OF r] show ?thesis by (simp only: td' dt') blast
  qed
qed

lemma connect_redirects:
  assumes ok: "graph_ok g" and con: "connect n src pp snk cp g = Some (Inr g')"
  obtains p q l m where
    "map_of (pattern_instances g) src = Some p" "map_of (pattern_instances g) snk = Some q"
    "redirected g g' snk m (loc_id PRODUCER p l)" "omap_ok (pattern_instances g')"
    "feeds g (loc_id PRODUCER p l) (getDataType (port_inst_at (ports_of CONSUMER) q m))
       (port_getTimeDomain q (port_inst_at (ports_of CONSUMER) q m))"
    "(snk, src) \<notin> (edges g)\<^sup>*"
proof -
  from con obtain p q l m where
    p: "map_of (pattern_instances g) src = Some p" "getProducerPort p pp = Inr (Some l)" and
    q: "map_of (pattern_instances g) snk = Some q" "getConsumerPort q cp = Inr (Some m)" and
    td: "is_ok (port_getTimeDomain p (port_inst_at (ports_of PRODUCER) p l))"
      "port_getTimeDomain q (port_inst_at (ports_of CONSUMER) q m) =
      port_getTimeDomain p (port_inst_at (ports_of PRODUCER) p l)" and
    ty: "getDataType (port_inst_at (ports_of PRODUCER) p l) = getDataType (port_inst_at (ports_of CONSUMER) q m)" and
    wc: "would_connect_to_self_recursive n g src snk = Some (Inr False)" and
    g': "g' = g\<lparr>pattern_instances :=
       assign snk (set_connected_to m (loc_id PRODUCER p l) q) (pattern_instances g)\<rparr>"
    by (rule connect_okE)
  have om: "omap_ok (pattern_instances g)" using ok by (simp add: graph_ok_def)
  note l = getProducerPort_loc [OF p(2)] and m = getConsumerPort_loc [OF q(2)]
  have "redirected g g' snk m (loc_id PRODUCER p l)"
    unfolding redirected_def
  proof
    fix a
    have same: "rel_option (\<lambda>p' p. erase p' = erase p \<and> (\<forall>m' \<in> set (port_locs (ports_of CONSUMER) p).
        connected_to (port_inst_at (ports_of CONSUMER) p' m') =
        (if a = snk \<and> m' = m then cid else connected_to (port_inst_at (ports_of CONSUMER) p m')))) x x"
      if "a \<noteq> snk" for x cid using that by (intro option.rel_refl_strong) simp
    show "rel_option (\<lambda>p1 p0. erase p1 = erase p0 \<and> (\<forall>m' \<in> set (port_locs (ports_of CONSUMER) p0).
        connected_to (port_inst_at (ports_of CONSUMER) p1 m') = (if a = snk \<and> m' = m
         then loc_id PRODUCER p l else connected_to (port_inst_at (ports_of CONSUMER) p0 m'))))
      (map_of (pattern_instances g') a) (map_of (pattern_instances g) a)"
      using om q(1) erase_set_connected_to [OF m] connected_to_set [OF m] same
      by (cases "a = snk") (simp_all add: g' del: split_paired_All set_connected_to.simps)
  qed
  moreover have "feeds g (loc_id PRODUCER p l) (getDataType (port_inst_at (ports_of CONSUMER) q m))
       (port_getTimeDomain q (port_inst_at (ports_of CONSUMER) q m))"
    unfolding feeds_def using p(1) l td ty by metis
  moreover have "omap_ok (pattern_instances g')" using om by (simp add: g')
  ultimately show ?thesis using that p(1) q(1) would_connect_False [OF ok wc] by blast
qed

lemma connect_keeps:
  assumes ok: "graph_ok g" and wt: "well_typed g" and ac: "acyclic (edges g)"
    and con: "connect n src pp snk cp g = Some (Inr g')"
  shows "graph_ok g' \<and> well_typed g' \<and> acyclic (edges g')"
proof -
  from connect_redirects [OF ok con] obtain p q l m where
    c: "map_of (pattern_instances g) src = Some p" "map_of (pattern_instances g) snk = Some q"
    "redirected g g' snk m (loc_id PRODUCER p l)" "omap_ok (pattern_instances g')"
    "feeds g (loc_id PRODUCER p l) (getDataType (port_inst_at (ports_of CONSUMER) q m))
       (port_getTimeDomain q (port_inst_at (ports_of CONSUMER) q m))"
    "(snk, src) \<notin> (edges g)\<^sup>*" by metis
  from c(6) ac have "acyclic (insert (src, snk) (edges g))" by simp
  then have "acyclic (edges g')" by (rule acyclic_subset) (rule redirected_edges [OF ok c(3,1)])
  with redirected_graph_ok [OF ok c(3,4)] redirected_well_typed [OF wt c(3,2,5)] show ?thesis by simp
qed

lemma connect_decides:
  assumes ok: "graph_ok g" and ac: "acyclic (edges g)" and n: "length (pattern_instances g) \<le> n"
    and ne: "src \<noteq> snk"
    and p: "map_of (pattern_instances g) src = Some p" "getProducerPort p pp = Inr (Some l)"
    and q: "map_of (pattern_instances g) snk = Some q" "getConsumerPort q cp = Inr (Some m)"
    and td: "port_getTimeDomain p (port_inst_at (ports_of PRODUCER) p l) = Inr d"
      "port_getTimeDomain q (port_inst_at (ports_of CONSUMER) q m) = Inr d"
    and ty: "getDataType (port_inst_at (ports_of PRODUCER) p l) = getDataType (port_inst_at (ports_of CONSUMER) q m)"
  shows "connect n src pp snk cp g =
    Some (if (snk, src) \<in> (edges g)\<^sup>* then Inl InvalidArgument
      else Inr (g\<lparr>pattern_instances :=
        assign snk (set_connected_to m (loc_id PRODUCER p l) q) (pattern_instances g)\<rparr>))"
proof -
  have "snk \<in> fst ` set (pattern_instances g)" using q(1) by (metis domI dom_map_of_conv_image_fst)
  from would_connect_enough [OF ok ac this n, of src]
  have wc: "would_connect_to_self_recursive n g src snk = Some (Inr ((snk, src) \<in> (edges g)\<^sup>*))" .
  have "checkSourceAndSinkConnectionError n g src pp snk cp =
      Some (Inr (if (snk, src) \<in> (edges g)\<^sup>* then Some ''Connection would create loop in dataflow'' else None))"
    using ne p q td ty
    by (simp add: checkSourceAndSinkConnectionError_def check_sink_def check_found_def Let_def wc)
  then show ?thesis
    by (cases "(snk, src) \<in> (edges g)\<^sup>*") (simp_all add: connect_def p q)
qed

section \<open>When names resolve\<close>

lemma find_unique:
  assumes "x \<in> set xs" and "P x" and unique: "\<And>y. y \<in> set xs \<Longrightarrow> P y \<Longrightarrow> y = x"
  shows "List.find P xs = Some x"
proof (cases "List.find P xs")
  case None
  with assms(1,2) show ?thesis by (simp add: find_None_iff)
next
  case (Some y)
  then have "y \<in> set xs" "P y" by (auto simp: find_Some_iff)
  with unique Some show ?thesis by blast
qed

lemma full_name_inj:
  assumes "CHR ''_'' \<notin> set (pg_name (gi_port_group gi))" "CHR ''_'' \<notin> set (pg_name (gi_port_group gi'))"
    and "port_full_name gi n = port_full_name gi' n'"
  shows "pg_name (gi_port_group gi) = pg_name (gi_port_group gi') \<and> gi_index gi = gi_index gi' \<and> n = n'"
  using getTaskId_inj [OF assms(1,2), of n "gi_index gi" n' "gi_index gi'"] assms(3)
  by (simp add: getTaskId_def port_full_name_def)

definition plain_names :: "PatternInstance \<Rightarrow> bool" where
  "plain_names p \<longleftrightarrow>
     (\<forall>pg \<in> set (port_groups (local_pattern p)). CHR ''_'' \<notin> set (pg_name pg)) \<and>
     (\<forall>t \<in> {PRODUCER, CONSUMER}. \<forall>l \<in> set (port_locs (ports_of t) p).
        snd (loc_id t p l) \<notin> port_name ` set (producer_ports (port_groups (local_pattern p) ! 0)) \<and>
        snd (loc_id t p l) \<notin> port_name ` set (consumer_ports (port_groups (local_pattern p) ! 0)))"

lemma loc_id_inj:
  assumes ok: "pattern_instance_ok p" and pl: "plain_names p"
    and t: "t \<in> {PRODUCER, CONSUMER}" "t' \<in> {PRODUCER, CONSUMER}"
    and l: "l \<in> set (port_locs (ports_of t) p)" and l': "l' \<in> set (port_locs (ports_of t') p)"
    and eq: "loc_id t p l = loc_id t' p l'"
  shows "t = t' \<and> l = l'"
proof -
  obtain g i k where lk: "l = (g, i, k)" by (cases l) auto
  obtain g' i' k' where lk': "l' = (g', i', k')" by (cases l') auto
  let ?ig = "inst_port_groups p" and ?pgs = "port_groups (local_pattern p)"
  note okD = pattern_instance_okD [OF ok]
  from l lk have b: "g < length ?ig" "i < length (?ig ! g)" "k < length (ports_of t (?ig ! g ! i))"
    by (simp_all only: in_port_locs)
  from l' lk' have b': "g' < length ?ig" "i' < length (?ig ! g')" "k' < length (ports_of t' (?ig ! g' ! i'))"
    by (simp_all only: in_port_locs)
  have m: "inst_matches (?pgs ! g) i (?ig ! g ! i)" by (rule okD(5) [OF b(1,2)])
  have m': "inst_matches (?pgs ! g') i' (?ig ! g' ! i')" by (rule okD(5) [OF b'(1,2)])
  have gr: "gi_port_group (?ig ! g ! i) = ?pgs ! g" "gi_port_group (?ig ! g' ! i') = ?pgs ! g'"
    and ix: "gi_index (?ig ! g ! i) = int i" "gi_index (?ig ! g' ! i') = int i'"
    using m m' by (simp_all add: inst_matches_def)
  from pl b(1) b'(1) okD(3) gr have us: "CHR ''_'' \<notin> set (pg_name (gi_port_group (?ig ! g ! i)))"
    "CHR ''_'' \<notin> set (pg_name (gi_port_group (?ig ! g' ! i')))"
    by (simp_all add: plain_names_def)
  let ?n = "port_name (inst_port (ports_of t (?ig ! g ! i) ! k))"
  let ?n' = "port_name (inst_port (ports_of t' (?ig ! g' ! i') ! k'))"
  from eq lk lk' have "port_full_name (?ig ! g ! i) ?n = port_full_name (?ig ! g' ! i') ?n'"
    by (simp add: loc_id_def port_getId_def port_getName_def)
  from full_name_inj [OF us this] gr ix have "pg_name (?pgs ! g) = pg_name (?pgs ! g')"
    and i: "i = i'" and n: "?n = ?n'" by auto
  with okD(2,3) b(1) b'(1) have g: "g = g'" by (auto simp: distinct_conv_nth)
  from okD(1,3) b(1) have "group_ok (?pgs ! g)" by (simp add: pattern_ok_def list_all_length)
  then have dist: "distinct (map port_name (map inst_port (gi_producer_ports (?ig ! g ! i)) @
      map inst_port (gi_consumer_ports (?ig ! g ! i))))"
    using m by (simp only: group_ok_def inst_matches_def)
  from n g i have n: "port_name (inst_port (ports_of t (?ig ! g ! i) ! k)) =
      port_name (inst_port (ports_of t' (?ig ! g ! i) ! k'))" by simp
  from b(3) b'(3) g i have bk: "k < length (ports_of t (?ig ! g ! i))" "k' < length (ports_of t' (?ig ! g ! i))"
    by simp_all
  have "t = t' \<and> k = k'"
  proof (cases "t = t'")
    case True
    have "distinct (map (\<lambda>q. port_name (inst_port q)) (ports_of t (?ig ! g ! i)))"
      using dist t(1) by (auto simp: ports_of_simps comp_def)
    with n bk True show ?thesis by (auto simp: distinct_conv_nth)
  next
    case False
    with t n bk have "\<exists>a \<in> set (gi_producer_ports (?ig ! g ! i)). \<exists>b \<in> set (gi_consumer_ports (?ig ! g ! i)).
        port_name (inst_port a) = port_name (inst_port b)"
      by (auto simp: ports_of_simps) (metis nth_mem)+
    with dist show ?thesis by (auto simp: image_image disjoint_iff)
  qed
  with lk lk' g i show ?thesis by simp
qed

lemma find_port_full_name:
  assumes ok: "pattern_instance_ok p" and pl: "plain_names p"
    and t: "t \<in> {PRODUCER, CONSUMER}" "t' \<in> {PRODUCER, CONSUMER}"
    and l: "l \<in> set (port_locs (ports_of t) p)"
  shows "find_port (ports_of t') p (snd (loc_id t p l)) = Inr (if t' = t then Some l else None)"
proof -
  let ?n = "snd (loc_id t p l)"
  note okD = pattern_instance_okD [OF ok]
  have len: "inst_port_groups p \<noteq> []" using okD(1,3) by (auto simp: pattern_ok_def)
  obtain d ds where d: "inst_port_groups p ! 0 = d # ds" using okD(6) by (cases "inst_port_groups p ! 0") auto
  have m: "inst_matches (port_groups (local_pattern p) ! 0) 0 d" using okD(5) [of 0 0] len d by simp
  have "?n \<notin> port_name ` set (map inst_port (ports_of t' d))"
    using pl t l inst_matches_ports [OF m, of t'] by (auto simp: plain_names_def)
  then have default: "find_index (\<lambda>port. port_name (inst_port port) = ?n) (ports_of t' d) = None"
    by (force simp: find_index_None)
  have name: "port_getName (group_inst_at p l') (port_inst_at (ports_of t') p l') = snd (loc_id t' p l')" for l'
    by (simp add: loc_id_def port_getId_def)
  have same: "t' = t \<and> l' = l" if "l' \<in> set (port_locs (ports_of t') p)" "snd (loc_id t' p l') = ?n" for l'
    using loc_id_inj [OF ok pl t(2,1) that(1) l] that(2) by (simp add: prod_eq_iff)
  have "List.find (\<lambda>l'. snd (loc_id t' p l') = ?n) (port_locs (ports_of t') p) = (if t' = t then Some l else None)"
    using same l by (auto intro: find_unique simp: find_None_iff)
  with default len d show ?thesis by (simp add: find_port_def name vec_at_def raw_get_def)
qed

lemma resolves_plain: "pattern_instance_ok p \<Longrightarrow> plain_names p \<Longrightarrow> resolves p"
  unfolding resolves_def getPort_def getProducerPort_def getConsumerPort_def
  by (auto simp: find_port_full_name [where t' = PRODUCER, unfolded ports_of_simps(1)]
      find_port_full_name [where t' = CONSUMER, unfolded ports_of_simps(2)])

section \<open>Growing the graph\<close>

text \<open>
  Adding a pattern or instantiating a port group keeps every existing port with its connection and
  adds only unconnected consumer ports.
\<close>

definition extends :: "GraphInstance \<Rightarrow> GraphInstance \<Rightarrow> bool" where
  "extends g g' \<longleftrightarrow>
     (\<forall>a p. map_of (pattern_instances g) a = Some p \<longrightarrow>
       (\<exists>p'. map_of (pattern_instances g') a = Some p' \<and>
          local_to_global_time_domain p' = local_to_global_time_domain p \<and>
          (\<forall>t l. l \<in> set (port_locs (ports_of t) p) \<longrightarrow> l \<in> set (port_locs (ports_of t) p') \<and>
             port_inst_at (ports_of t) p' l = port_inst_at (ports_of t) p l \<and>
             loc_id t p' l = loc_id t p l))) \<and>
     (\<forall>a p' m. map_of (pattern_instances g') a = Some p' \<longrightarrow>
        m \<in> set (port_locs (ports_of CONSUMER) p') \<longrightarrow>
        connected_to (port_inst_at (ports_of CONSUMER) p' m) \<noteq> ([], []) \<longrightarrow>
        (\<exists>p. map_of (pattern_instances g) a = Some p \<and> m \<in> set (port_locs (ports_of CONSUMER) p)))"

lemma extends_new:
  assumes "extends g g'" and "map_of (pattern_instances g) a = Some p" and "l \<in> set (port_locs (ports_of t) p)"
  obtains p' where "map_of (pattern_instances g') a = Some p'"
    "local_to_global_time_domain p' = local_to_global_time_domain p"
    "l \<in> set (port_locs (ports_of t) p')" "port_inst_at (ports_of t) p' l = port_inst_at (ports_of t) p l"
    "loc_id t p' l = loc_id t p l"
proof -
  from assms(1,2) obtain p' where "map_of (pattern_instances g') a = Some p'"
    "local_to_global_time_domain p' = local_to_global_time_domain p"
    "\<forall>t l. l \<in> set (port_locs (ports_of t) p) \<longrightarrow> l \<in> set (port_locs (ports_of t) p') \<and>
             port_inst_at (ports_of t) p' l = port_inst_at (ports_of t) p l \<and>
             loc_id t p' l = loc_id t p l"
    unfolding extends_def by blast
  with assms(3) that show ?thesis by blast
qed

lemma extends_old:
  assumes "extends g g'" and "map_of (pattern_instances g') a = Some p'"
    and "m \<in> set (port_locs (ports_of CONSUMER) p')"
    and "connected_to (port_inst_at (ports_of CONSUMER) p' m) \<noteq> ([], [])"
  obtains p where "map_of (pattern_instances g) a = Some p" "m \<in> set (port_locs (ports_of CONSUMER) p)"
    "port_inst_at (ports_of CONSUMER) p' m = port_inst_at (ports_of CONSUMER) p m"
    "local_to_global_time_domain p' = local_to_global_time_domain p"
proof -
  from assms obtain p where p: "map_of (pattern_instances g) a = Some p"
    "m \<in> set (port_locs (ports_of CONSUMER) p)" unfolding extends_def by blast
  from extends_new [OF assms(1) p] obtain p2 where p2: "map_of (pattern_instances g') a = Some p2"
    "local_to_global_time_domain p2 = local_to_global_time_domain p"
    "port_inst_at (ports_of CONSUMER) p2 m = port_inst_at (ports_of CONSUMER) p m"
    by blast
  moreover have "p2 = p'" using p2(1) assms(2) by simp
  ultimately show ?thesis using that p by simp
qed

lemma extends_feeds:
  assumes "extends g g'" and "feeds g cid dt td"
  shows "feeds g' cid dt td"
proof -
  from assms(2) obtain a p l where p: "map_of (pattern_instances g) a = Some p"
    "l \<in> set (port_locs (ports_of PRODUCER) p)" "cid = loc_id PRODUCER p l"
    "getDataType (port_inst_at (ports_of PRODUCER) p l) = dt"
    "port_getTimeDomain p (port_inst_at (ports_of PRODUCER) p l) = td" "is_ok td"
    unfolding feeds_def by blast
  from extends_new [OF assms(1) p(1,2)] obtain p' where p': "map_of (pattern_instances g') a = Some p'"
    "local_to_global_time_domain p' = local_to_global_time_domain p"
    "l \<in> set (port_locs (ports_of PRODUCER) p')"
    "port_inst_at (ports_of PRODUCER) p' l = port_inst_at (ports_of PRODUCER) p l"
    "loc_id PRODUCER p' l = loc_id PRODUCER p l" by blast
  with p show ?thesis unfolding feeds_def
    by (intro exI [of _ a] exI [of _ p'] exI [of _ l]) (simp add: port_getTimeDomain_def)
qed

lemma extends_well_typed:
  assumes e: "extends g g'" and wt: "well_typed g"
  shows "well_typed g'"
  unfolding well_typed_alt
proof (intro allI impI)
  fix b q' m assume b: "map_of (pattern_instances g') b = Some q'"
    "m \<in> set (port_locs (ports_of CONSUMER) q')"
  let ?port = "port_inst_at (ports_of CONSUMER) q' m"
  show "connected_to ?port = ([], []) \<or>
      feeds g' (connected_to ?port) (getDataType ?port) (port_getTimeDomain q' ?port)"
  proof (cases "connected_to ?port = ([], [])")
    case False
    from extends_old [OF e b False] obtain q where q: "map_of (pattern_instances g) b = Some q"
      "m \<in> set (port_locs (ports_of CONSUMER) q)"
      "?port = port_inst_at (ports_of CONSUMER) q m"
      "local_to_global_time_domain q' = local_to_global_time_domain q" by blast
    with wt False have "feeds g (connected_to ?port) (getDataType ?port) (port_getTimeDomain q ?port)"
      unfolding well_typed_alt by metis
    with extends_feeds [OF e] q(4) show ?thesis by (simp add: port_getTimeDomain_def)
  qed simp
qed

lemma extends_edges:
  assumes e: "extends g g'" and wt: "well_typed g" and ok: "graph_ok g" and ok': "graph_ok g'"
  shows "edges g' \<subseteq> edges g"
proof (rule subrelI)
  fix a b assume "(a, b) \<in> edges g'"
  then obtain p' q' l m where c: "map_of (pattern_instances g') a = Some p'"
    "map_of (pattern_instances g') b = Some q'" "m \<in> set (port_locs (ports_of CONSUMER) q')"
    "connected_to (port_inst_at (ports_of CONSUMER) q' m) = loc_id PRODUCER p' l"
    unfolding edges_def by blast
  then have ne: "connected_to (port_inst_at (ports_of CONSUMER) q' m) \<noteq> ([], [])" by simp
  from extends_old [OF e c(2,3) ne] obtain q where q: "map_of (pattern_instances g) b = Some q"
    "m \<in> set (port_locs (ports_of CONSUMER) q)"
    "connected_to (port_inst_at (ports_of CONSUMER) q m) = loc_id PRODUCER p' l" using c(4) by metis
  with wt ne c(4) obtain a0 p0 l0 where p0: "map_of (pattern_instances g) a0 = Some p0"
    "l0 \<in> set (port_locs (ports_of PRODUCER) p0)" "loc_id PRODUCER p' l = loc_id PRODUCER p0 l0"
    unfolding well_typed_alt feeds_def by metis
  from p0(3) have "instance_id p' = instance_id p0" by (metis fst_loc_id)
  with graph_okD(1) [OF ok p0(1)] graph_okD(1) [OF ok' c(1)] have "a0 = a" by simp
  with p0 q have "map_of (pattern_instances g) a = Some p0"
    "connected_to (port_inst_at (ports_of CONSUMER) q m) = loc_id PRODUCER p0 l0" by simp_all
  with p0(2) q(1,2) show "(a, b) \<in> edges g" unfolding edges_def by blast
qed

lemma make_unconnected:
  "PatternInstance_make n pat = Inr p \<Longrightarrow> m \<in> set (port_locs (ports_of t) p) \<Longrightarrow>
   connected_to (port_inst_at (ports_of t) p m) = ([], [])"
  by (cases m) (auto simp: PatternInstance_make_def in_port_locs Let_def nth_list_update ports_of_def
      PortGroupInstance_make_def PortInstance_make_def split: if_splits)

lemma addPattern_keeps:
  assumes ok: "graph_ok g" and wt: "well_typed g" and pat: "pattern_ok pat"
    and dist: "distinct (map pg_name (port_groups pat))" and add: "addPattern a pat td g = Inr g'"
    and res: "\<And>p. map_of (pattern_instances g') a = Some p \<Longrightarrow> resolves p"
  shows "graph_ok g' \<and> extends g g'"
proof -
  from add obtain p d where none: "map_of (pattern_instances g) a = None"
    and p: "PatternInstance_make a pat = Inr p"
    and g': "g' = g\<lparr>pattern_instances := emplace a (p\<lparr>local_to_global_time_domain := d\<rparr>) (pattern_instances g)\<rparr>"
    by (auto simp: addPattern_def Let_def split: option.splits)
  let ?p = "p\<lparr>local_to_global_time_domain := d\<rparr>"
  have om: "omap_ok (pattern_instances g)" using ok by (simp add: graph_ok_def)
  have look: "map_of (pattern_instances g') = (map_of (pattern_instances g))(a \<mapsto> ?p)"
    using om none by (simp add: g')
  have om': "omap_ok (pattern_instances g')" using om by (simp add: g')
  have "pattern_instance_ok p" by (rule PatternInstance_make_ok [OF pat dist p])
  then have "pattern_instance_ok ?p" by (simp add: pattern_instance_ok_def)
  moreover have "instance_id ?p = a" using p by (auto simp: PatternInstance_make_def Let_def)
  moreover have "resolves ?p" by (rule res) (simp add: look)
  ultimately have "graph_ok g'"
    using om' graph_okD [OF ok] by (auto simp: graph_ok_def omap_mem_iff look split: if_splits)
  moreover have locs: "port_locs f ?p = port_locs f p" "port_inst_at f ?p l = port_inst_at f p l" for f l
    by (cases l; simp add: port_locs_def)+
  have "extends g g'"
    unfolding extends_def look
    using none make_unconnected [OF p, of _ CONSUMER] by (auto simp: locs)
  ultimately show ?thesis by blast
qed

definition graph_instantiate :: "string \<Rightarrow> string \<Rightarrow> GraphInstance \<Rightarrow> GraphInstance res" where
  "graph_instantiate pattern_id port_group_name g =
     bind_res (getPattern g pattern_id) (\<lambda>p.
     bind_res (instantiatePortGroup port_group_name p) (\<lambda>(_, p').
     Inr (g\<lparr>pattern_instances := assign pattern_id p' (pattern_instances g)\<rparr>)))"

lemma instantiate_locs:
  assumes ok: "pattern_instance_ok p" and inst: "instantiatePortGroup n p = Inr ((gi, ii), p')"
    and l: "l \<in> set (port_locs (ports_of t) p)"
  shows "l \<in> set (port_locs (ports_of t) p')"
    and "port_inst_at (ports_of t) p' l = port_inst_at (ports_of t) p l"
    and "loc_id t p' l = loc_id t p l"
proof -
  obtain g i k where lk: "l = (g, i, k)" by (cases l) auto
  note inst_ok = instantiatePortGroup_ok [OF ok inst]
  from inst have id: "instance_id p' = instance_id p"
    by (auto simp: instantiatePortGroup_def Let_def split: option.splits)
  from l lk have b: "g < length (inst_port_groups p)" "i < length (inst_port_groups p ! g)"
    "k < length (ports_of t (inst_port_groups p ! g ! i))" by (simp_all only: in_port_locs)
  then have same: "inst_port_groups p' ! g ! i = inst_port_groups p ! g ! i"
    and len: "g < length (inst_port_groups p')" "i < length (inst_port_groups p' ! g)"
    using inst_ok(2) by (auto simp: inst_ok(5) nth_list_update nth_append)
  show "l \<in> set (port_locs (ports_of t) p')" using len b(3) by (simp add: lk in_port_locs same)
  show "port_inst_at (ports_of t) p' l = port_inst_at (ports_of t) p l" by (simp add: lk same)
  show "loc_id t p' l = loc_id t p l"
    by (simp add: lk same id loc_id_def port_getId_def)
qed

lemma instantiate_new_locs:
  assumes ok: "pattern_instance_ok p" and inst: "instantiatePortGroup n p = Inr ((gi, ii), p')"
    and l: "l \<in> set (port_locs (ports_of t) p')" and old: "l \<notin> set (port_locs (ports_of t) p)"
  shows "connected_to (port_inst_at (ports_of t) p' l) = ([], [])"
proof -
  obtain g i k where lk: "l = (g, i, k)" by (cases l) auto
  note inst_ok = instantiatePortGroup_ok [OF ok inst]
  from l lk have b: "g < length (inst_port_groups p')" "i < length (inst_port_groups p' ! g)"
    "k < length (ports_of t (inst_port_groups p' ! g ! i))" by (simp_all only: in_port_locs)
  from old lk have "\<not> (g < length (inst_port_groups p) \<and> i < length (inst_port_groups p ! g) \<and>
      k < length (ports_of t (inst_port_groups p ! g ! i)))" by (simp only: in_port_locs) simp
  with b inst_ok(2,3) have "g = gi" "i = ii"
    by (auto simp: inst_ok(5) nth_list_update nth_append less_Suc_eq split: if_splits)
  with b inst_ok(2,3) show ?thesis
    by (auto simp: lk inst_ok(5) nth_append PortGroupInstance_make_def PortInstance_make_def ports_of_def)
qed

lemma graph_instantiate_keeps:
  assumes ok: "graph_ok g" and inst: "graph_instantiate a n g = Inr g'"
    and res: "\<And>p. map_of (pattern_instances g') a = Some p \<Longrightarrow> resolves p"
  shows "graph_ok g' \<and> extends g g'"
proof -
  from inst obtain p gi ii p' where p: "map_of (pattern_instances g) a = Some p"
    and i: "instantiatePortGroup n p = Inr ((gi, ii), p')"
    and g': "g' = g\<lparr>pattern_instances := assign a p' (pattern_instances g)\<rparr>"
    by (auto simp: graph_instantiate_def getPattern_def)
  have om: "omap_ok (pattern_instances g)" using ok by (simp add: graph_ok_def)
  have look: "map_of (pattern_instances g') = (map_of (pattern_instances g))(a \<mapsto> p')"
    using om by (simp add: g')
  have om': "omap_ok (pattern_instances g')" using om by (simp add: g')
  note pok = graph_okD [OF ok p]
  have "pattern_instance_ok p'" by (rule instantiatePortGroup_ok(1) [OF pok(2) i])
  moreover have id: "instance_id p' = a" "local_to_global_time_domain p' = local_to_global_time_domain p"
    using i pok(1) by (auto simp: instantiatePortGroup_def Let_def split: option.splits)
  moreover have "resolves p'" by (rule res) (simp add: look)
  ultimately have "graph_ok g'"
    using om' graph_okD [OF ok] by (auto simp: graph_ok_def omap_mem_iff look split: if_splits)
  moreover have "extends g g'"
    unfolding extends_def
  proof (rule conjI; intro allI impI)
    fix b q assume q: "map_of (pattern_instances g) b = Some q"
    show "\<exists>q'. map_of (pattern_instances g') b = Some q' \<and>
        local_to_global_time_domain q' = local_to_global_time_domain q \<and>
        (\<forall>t l. l \<in> set (port_locs (ports_of t) q) \<longrightarrow> l \<in> set (port_locs (ports_of t) q') \<and>
          port_inst_at (ports_of t) q' l = port_inst_at (ports_of t) q l \<and> loc_id t q' l = loc_id t q l)"
      using q p id(2) instantiate_locs [OF pok(2) i] by (cases "b = a") (auto simp: look)
  next
    fix b q' m assume q: "map_of (pattern_instances g') b = Some q'"
      "m \<in> set (port_locs (ports_of CONSUMER) q')"
      "connected_to (port_inst_at (ports_of CONSUMER) q' m) \<noteq> ([], [])"
    show "\<exists>p. map_of (pattern_instances g) b = Some p \<and> m \<in> set (port_locs (ports_of CONSUMER) p)"
    proof (cases "b = a")
      case True
      with q look have "q' = p'" by simp
      with q instantiate_new_locs [OF pok(2) i, of m CONSUMER] have "m \<in> set (port_locs (ports_of CONSUMER) p)"
        by blast
      with p True show ?thesis by blast
    qed (use q look in simp)
  qed
  ultimately show ?thesis by blast
qed

section \<open>Graphs an application can build\<close>

text \<open>The calls that return; \<open>disconnect\<close> always throws.\<close>

inductive graph_step :: "GraphInstance \<Rightarrow> GraphInstance \<Rightarrow> bool" where
  step_add: "addPattern a pat td g = Inr g' \<Longrightarrow> graph_step g g'"
| step_instantiate: "graph_instantiate a n g = Inr g' \<Longrightarrow> graph_step g g'"
| step_connect: "connect n src pp snk cp g = Some (Inr g') \<Longrightarrow> graph_step g g'"

definition graph_start :: "GraphInstance \<Rightarrow> bool" where
  "graph_start g \<longleftrightarrow> pattern_instances g = []"

definition graph_inv :: "GraphInstance \<Rightarrow> bool" where
  "graph_inv g \<longleftrightarrow> graph_ok g \<and> well_typed g \<and> acyclic (edges g)"

text \<open>
  None of this holds whatever the names are: a port is looked up by its full name, first among the
  plain names of the default group. \<open>well_named\<close> graphs are those in which the patterns are numbered
  as their builder numbers them, no two port groups of a pattern share a name and every port is found
  under its own full name.
\<close>

definition pattern_named :: "Pattern \<Rightarrow> bool" where
  "pattern_named pat \<longleftrightarrow> pattern_ok pat \<and> distinct (map pg_name (port_groups pat))"

definition well_named :: "GraphInstance \<Rightarrow> bool" where
  "well_named g \<longleftrightarrow> (\<forall>(a, p) \<in> set (pattern_instances g). pattern_named (local_pattern p) \<and> resolves p)"

text \<open>The steps between well named graphs keep the invariant.\<close>

lemma graph_step_inv:
  assumes inv: "graph_inv g" and step: "graph_step g g'" and named: "well_named g'"
  shows "graph_inv g'"
proof -
  have grow: "graph_inv g'" if "graph_ok g' \<and> extends g g'"
    using that inv extends_well_typed [of g g'] extends_edges [of g g']
    by (auto simp: graph_inv_def intro: acyclic_subset)
  have res: "pattern_named (local_pattern p) \<and> resolves p" if "map_of (pattern_instances g') a = Some p" for a p
    using named map_of_SomeD [OF that] by (auto simp: well_named_def)
  from step show ?thesis
  proof (cases rule: graph_step.cases)
    case (step_add a pat td)
    from step_add inv obtain p d where p: "PatternInstance_make a pat = Inr p"
      and g': "g' = g\<lparr>pattern_instances := emplace a (p\<lparr>local_to_global_time_domain := d\<rparr>) (pattern_instances g)\<rparr>"
      and none: "map_of (pattern_instances g) a = None"
      by (auto simp: addPattern_def Let_def split: option.splits)
    have "map_of (pattern_instances g') a = Some (p\<lparr>local_to_global_time_domain := d\<rparr>)"
      using inv none by (simp add: g' graph_inv_def graph_ok_def)
    from res [OF this] p have "pattern_named pat"
      by (auto simp: PatternInstance_make_def Let_def)
    with step_add inv addPattern_keeps [of g pat a td g'] grow res show ?thesis
      by (simp add: graph_inv_def pattern_named_def)
  next
    case (step_instantiate a n)
    with inv graph_instantiate_keeps [of g a n g'] grow res show ?thesis by (simp add: graph_inv_def)
  next
    case (step_connect n src pp snk cp)
    with inv connect_keeps [of g n src pp snk cp g'] show ?thesis by (simp add: graph_inv_def)
  qed
qed

text \<open>
  A step never makes the names of a graph better: a graph that is well named was so all the time. The
  instances of named patterns are well formed whatever else the graph holds.
\<close>

definition graph_shape :: "GraphInstance \<Rightarrow> bool" where
  "graph_shape g \<longleftrightarrow> omap_ok (pattern_instances g) \<and>
     (\<forall>a p. map_of (pattern_instances g) a = Some p \<longrightarrow> pattern_named (local_pattern p) \<longrightarrow> pattern_instance_ok p)"

lemma well_namedD:
  "graph_shape g \<Longrightarrow> well_named g \<longleftrightarrow> (\<forall>a p. map_of (pattern_instances g) a = Some p \<longrightarrow>
     pattern_named (local_pattern p) \<and> resolves p)"
  by (auto simp: graph_shape_def well_named_def omap_mem_iff)

text \<open>What each step changes: one entry, in which the pattern is the same if it was there before.\<close>

lemma graph_step_entry:
  assumes shape: "graph_shape g" and step: "graph_step g g'"
  obtains a p' where "omap_ok (pattern_instances g')"
    "map_of (pattern_instances g') = (map_of (pattern_instances g))(a \<mapsto> p')"
    "pattern_named (local_pattern p') \<longrightarrow> pattern_instance_ok p'"
    "\<And>p. map_of (pattern_instances g) a = Some p \<Longrightarrow> local_pattern p' = local_pattern p \<and>
       (erase p' = erase p \<or> (\<exists>n gi ii. instantiatePortGroup n p = Inr ((gi, ii), p')))"
proof -
  have om: "omap_ok (pattern_instances g)" using shape by (simp add: graph_shape_def)
  have ok: "pattern_instance_ok p" if "map_of (pattern_instances g) a = Some p" "pattern_named (local_pattern p)" for a p
    using shape that unfolding graph_shape_def by blast
  from step show ?thesis
  proof (cases rule: graph_step.cases)
    case (step_add a pat td)
    then obtain p d where p: "PatternInstance_make a pat = Inr p" and none: "map_of (pattern_instances g) a = None"
      and g': "g' = g\<lparr>pattern_instances := emplace a (p\<lparr>local_to_global_time_domain := d\<rparr>) (pattern_instances g)\<rparr>"
      by (auto simp: addPattern_def Let_def split: option.splits)
    have "local_pattern p = pat" using p by (auto simp: PatternInstance_make_def Let_def)
    moreover have "pattern_instance_ok (p\<lparr>local_to_global_time_domain := d\<rparr>)" if "pattern_named pat"
      using PatternInstance_make_ok [OF _ _ p] that by (simp add: pattern_named_def pattern_instance_ok_def)
    ultimately show ?thesis
      using om none by (intro that [of a "p\<lparr>local_to_global_time_domain := d\<rparr>"]) (simp_all add: g')
  next
    case (step_instantiate a n)
    then obtain p gi ii p' where p: "map_of (pattern_instances g) a = Some p"
      and i: "instantiatePortGroup n p = Inr ((gi, ii), p')"
      and g': "g' = g\<lparr>pattern_instances := assign a p' (pattern_instances g)\<rparr>"
      by (auto simp: graph_instantiate_def getPattern_def)
    have same: "local_pattern p' = local_pattern p"
      using i by (auto simp: instantiatePortGroup_def Let_def split: option.splits)
    show ?thesis
      using om p i same ok [OF p] instantiatePortGroup_ok(1) [OF _ i]
      by (intro that [of a p']) (auto simp: g')
  next
    case (step_connect n src pp snk cp)
    then obtain p q l m where q: "map_of (pattern_instances g) snk = Some q"
      and m: "getConsumerPort q cp = Inr (Some m)"
      and g': "g' = g\<lparr>pattern_instances :=
        assign snk (set_connected_to m (loc_id PRODUCER p l) q) (pattern_instances g)\<rparr>"
      by (elim connect_okE)
    define q' where "q' = set_connected_to m (loc_id PRODUCER p l) q"
    have e: "erase q' = erase q" unfolding q'_def by (rule erase_set_connected_to [OF getConsumerPort_loc [OF m]])
    then have "local_pattern q' = local_pattern q" by (metis erase_simps(2))
    with om q e ok [OF q] same_erase(4) [OF e] show ?thesis
      by (intro that [of snk q']) (auto simp: g' q'_def [symmetric])
  qed
qed

interpretation shaped: step_system graph_start graph_step graph_shape
proof
  show "graph_shape g" if "graph_start g" for g
    using that by (simp add: graph_start_def graph_shape_def)
  show "graph_shape g'" if "graph_shape g" "graph_step g g'" for g g'
  proof -
    from that(1) have "omap_ok (pattern_instances g)" "\<forall>b p. map_of (pattern_instances g) b = Some p \<longrightarrow>
        pattern_named (local_pattern p) \<longrightarrow> pattern_instance_ok p"
      by (simp_all add: graph_shape_def)
    with graph_step_entry [OF that] show ?thesis
      unfolding graph_shape_def by (metis fun_upd_apply option.inject)
  qed
qed

lemma resolves_inj:
  assumes "resolves p" and "t \<in> {PRODUCER, CONSUMER}" "t' \<in> {PRODUCER, CONSUMER}"
    and "l \<in> set (port_locs (ports_of t) p)" "l' \<in> set (port_locs (ports_of t') p)"
    and "loc_id t p l = loc_id t' p l'"
  shows "t = t' \<and> l = l'"
proof -
  have get: "getPort p (snd (loc_id s p k)) = Inr (Some (s, k))"
    if "s \<in> {PRODUCER, CONSUMER}" "k \<in> set (port_locs (ports_of s) p)" for s k
    by (rule bspec [OF bspec [OF assms(1) [unfolded resolves_def] that(1)] that(2)])
  have "Inr (Some (t, l)) = (Inr (Some (t', l')) :: (PortType \<times> port_loc) option res)"
    using get [OF assms(2,4)] get [OF assms(3,5)] assms(6) by (simp only:)
  then show ?thesis by simp
qed

text \<open>A new instance of a port group hides no port that is found with it.\<close>

lemma instantiate_find:
  assumes ok: "pattern_instance_ok p" and inst: "instantiatePortGroup n p = Inr ((gi, ii), p')"
    and res: "resolves p'" and t: "t \<in> {PRODUCER, CONSUMER}" "s \<in> {PRODUCER, CONSUMER}"
    and l: "l \<in> set (port_locs (ports_of t) p)"
  shows "find_port (ports_of s) p (snd (loc_id t p l)) = find_port (ports_of s) p' (snd (loc_id t p l))"
proof -
  let ?n = "snd (loc_id t p l)"
  note okD = pattern_instance_okD [OF ok] and inst_ok = instantiatePortGroup_ok [OF ok inst]
  note locs = instantiate_locs [OF ok inst]
  have len: "inst_port_groups p \<noteq> []" using okD(1,3) by (auto simp: pattern_ok_def)
  obtain d ds where d: "inst_port_groups p ! 0 = d # ds" using okD(6) by (cases "inst_port_groups p ! 0") auto
  have len': "inst_port_groups p' \<noteq> []" using len by (simp add: inst_ok(5))
  obtain ds' where d': "inst_port_groups p' ! 0 = d # ds'"
    using len d inst_ok(2) by (cases "gi = 0") (simp_all add: inst_ok(5))
  have name: "port_getName (group_inst_at q l') (port_inst_at (ports_of s) q l') = snd (loc_id s q l')" for q l'
    by (simp add: loc_id_def port_getId_def)
  have same': "s = t \<and> l' = l" if "l' \<in> set (port_locs (ports_of s) p')" "snd (loc_id s p' l') = ?n" for l'
    using resolves_inj [OF res t(2,1) that(1) locs(1) [OF l]] that(2) locs(3) [OF l] by (simp add: prod_eq_iff)
  have same: "s = t \<and> l' = l" if "l' \<in> set (port_locs (ports_of s) p)" "snd (loc_id s p l') = ?n" for l'
    using same' [OF locs(1) [OF that(1)]] locs(3) [OF that(1)] that(2) by simp
  have "List.find (\<lambda>l'. snd (loc_id s p l') = ?n) (port_locs (ports_of s) p) = (if s = t then Some l else None)"
    using same l by (auto intro: find_unique simp: find_None_iff)
  moreover have "List.find (\<lambda>l'. snd (loc_id s p' l') = ?n) (port_locs (ports_of s) p') = (if s = t then Some l else None)"
    using same' locs(1,3) [OF l] by (auto intro: find_unique simp: find_None_iff)
  ultimately show ?thesis using len d len' d' by (simp add: find_port_def name vec_at_def raw_get_def split: option.split)
qed

lemma instantiate_resolves:
  assumes ok: "pattern_instance_ok p" and inst: "instantiatePortGroup n p = Inr ((gi, ii), p')"
    and res: "resolves p'"
  shows "resolves p"
  unfolding resolves_def
proof (intro ballI)
  fix t l assume t: "t \<in> {PRODUCER, CONSUMER}" and l: "l \<in> set (port_locs (ports_of t) p)"
  note find = instantiate_find [OF ok inst res t _ l]
  have "getPort p (snd (loc_id t p l)) = getPort p' (snd (loc_id t p l))"
    using find [of PRODUCER] find [of CONSUMER]
    unfolding getPort_def getProducerPort_def getConsumerPort_def by (simp add: ports_of_simps)
  also have "\<dots> = Inr (Some (t, l))"
    using res t instantiate_locs(1,3) [OF ok inst l] unfolding resolves_def by metis
  finally show "getPort p (snd (loc_id t p l)) = Inr (Some (t, l))" .
qed

lemma well_named_before:
  assumes shape: "graph_shape g" and step: "graph_step g g'" and named: "well_named g'"
  shows "well_named g"
proof -
  from graph_step_entry [OF shape step] obtain a p' where e: "omap_ok (pattern_instances g')"
    "map_of (pattern_instances g') = (map_of (pattern_instances g))(a \<mapsto> p')"
    "\<And>p. map_of (pattern_instances g) a = Some p \<Longrightarrow> local_pattern p' = local_pattern p \<and>
       (erase p' = erase p \<or> (\<exists>n gi ii. instantiatePortGroup n p = Inr ((gi, ii), p')))" by metis
  have after: "pattern_named (local_pattern q) \<and> resolves q" if "map_of (pattern_instances g') b = Some q" for b q
    using named map_of_SomeD [OF that] by (auto simp: well_named_def)
  have "pattern_named (local_pattern p) \<and> resolves p" if p: "map_of (pattern_instances g) b = Some p" for b p
  proof (cases "b = a")
    case True
    from after [of a p'] e(2) have p': "pattern_named (local_pattern p')" "resolves p'" by simp_all
    from e(3) [of p] p True have s: "local_pattern p' = local_pattern p"
      "erase p' = erase p \<or> (\<exists>n gi ii. instantiatePortGroup n p = Inr ((gi, ii), p'))" by simp_all
    with p' shape p have "pattern_instance_ok p" unfolding graph_shape_def by metis
    with s p' same_erase_resolves [of p' p] instantiate_resolves [of p] show ?thesis by metis
  qed (use after [of b p] e(2) p in simp)
  then show ?thesis by (simp add: well_namedD [OF shape])
qed

lemma graph_reached:
  assumes "graph_start g0" and "run graph_step g0 g" and "well_named g"
  shows "graph_inv g"
  using assms(2,1,3)
proof (induction rule: run.induct)
  case (run_refl g)
  then show ?case by (auto simp: graph_start_def graph_inv_def graph_ok_def well_typed_def edges_def acyclic_def)
next
  case (run_step g0 g g')
  from shaped.reach_inv [OF run_step.prems(1) run_step.hyps(1)] have "graph_shape g" .
  from well_named_before [OF this run_step.hyps(2) run_step.prems(2)]
  show ?case using run_step graph_step_inv by blast
qed

section \<open>Runnable graphs\<close>

lemma connectedToPtr_consumer:
  assumes ok: "graph_ok g" and q: "map_of (pattern_instances g) b = Some q"
    and m: "m \<in> set (port_locs (ports_of CONSUMER) q)"
  shows "connectedToPtr g (loc_id CONSUMER q m) = Inr (map fst (filter (\<lambda>((pid, t, l), p).
     loc_id t p l = connected_to (port_inst_at (ports_of CONSUMER) q m)) (port_refs g PRODUCER)))"
proof -
  note okD = graph_okD [OF ok q]
  from okD(3) m have res: "getPort q (snd (loc_id CONSUMER q m)) = Inr (Some (CONSUMER, m))"
    by (simp add: resolves_def)
  have ty: "getPortType (port_inst_at (ports_of CONSUMER) q m) = CONSUMER"
    using port_type_at [OF okD(2) _ m] by simp
  have "is_peer CONSUMER cid tg = (\<lambda>((pid, t, l), p). loc_id t p l = tg)" for cid tg
    by (auto simp: fun_eq_iff)
  then show ?thesis using q res ty okD(1) by (simp add: connectedToPtr_def map_at_def Let_def)
qed

lemma isConnected_consumer:
  assumes ok: "graph_ok g" and q: "map_of (pattern_instances g) b = Some q"
    and m: "m \<in> set (port_locs (ports_of CONSUMER) q)"
  shows "isConnected g q CONSUMER m = Inr (\<exists>a p l. map_of (pattern_instances g) a = Some p \<and>
    l \<in> set (port_locs (ports_of PRODUCER) p) \<and>
    connected_to (port_inst_at (ports_of CONSUMER) q m) = loc_id PRODUCER p l)"
proof -
  have "map fst (filter (\<lambda>((pid, t, l), p). loc_id t p l = cid) (port_refs g PRODUCER)) \<noteq> [] \<longleftrightarrow>
      (\<exists>a p l. map_of (pattern_instances g) a = Some p \<and> l \<in> set (port_locs (ports_of PRODUCER) p) \<and>
        cid = loc_id PRODUCER p l)" for cid
  proof -
    have "map fst (filter (\<lambda>((pid, t, l), p). loc_id t p l = cid) (port_refs g PRODUCER)) \<noteq> [] \<longleftrightarrow>
        (\<exists>a t l p. ((a, t, l), p) \<in> set (port_refs g PRODUCER) \<and> cid = loc_id t p l)"
      by (auto simp: filter_empty_conv intro: rev_bexI) blast
    then show ?thesis by (simp only: in_port_refs [OF ok]) blast
  qed
  then show ?thesis by (simp add: isConnected_def connectedToPtr_consumer [OF ok q m])
qed

lemma fold_errors:
  assumes "\<And>x. x \<in> set xs \<Longrightarrow> c x = Inr (b x)"
  shows "fold_res (\<lambda>x es. bind_res (c x) (\<lambda>k. Inr (if \<not> k then es @ err x else es))) xs s =
    Inr (s @ concat (map err (filter (\<lambda>x. \<not> b x) xs)))"
  using assms by (induction xs arbitrary: s) auto

lemma input_port_error_nonempty [simp]: "input_port_error cid \<noteq> []"
  by (simp add: input_port_error_def)

text \<open>\<open>checkRunnable\<close> never fails; its report names exactly the unconnected consumer ports.\<close>

definition fed :: "GraphInstance \<Rightarrow> port_id \<Rightarrow> bool" where
  "fed g cid \<longleftrightarrow> (\<exists>a p l. map_of (pattern_instances g) a = Some p \<and>
     l \<in> set (port_locs (ports_of PRODUCER) p) \<and> cid = loc_id PRODUCER p l)"

lemma checkRunnable_eq:
  assumes ok: "graph_ok g"
  shows "checkRunnable g = Inr (let report = concat (map (\<lambda>((b, t, m), q). input_port_error (loc_id CONSUMER q m))
      (filter (\<lambda>((b, t, m), q). \<not> fed g (connected_to (port_inst_at (ports_of CONSUMER) q m)))
        (port_refs g CONSUMER)))
    in if report = [] then None else Some report)"
proof -
  have con: "isConnected g q CONSUMER m = Inr (fed g (connected_to (port_inst_at (ports_of CONSUMER) q m)))"
    if "((b, t, m), q) \<in> set (port_refs g CONSUMER)" for b t m q
    using that isConnected_consumer [OF ok, of b q m] in_port_refs [OF ok] by (simp add: fed_def)
  let ?c = "\<lambda>((b, t, m), q). isConnected g q CONSUMER m"
  let ?b = "\<lambda>((b, t, m), q). fed g (connected_to (port_inst_at (ports_of CONSUMER) q m))"
  let ?err = "\<lambda>((b, t, m), q). input_port_error (loc_id CONSUMER q m)"
  have "fold_res (\<lambda>x es. bind_res (?c x) (\<lambda>k. Inr (if \<not> k then es @ ?err x else es)))
      (port_refs g CONSUMER) [] = Inr ([] @ concat (map ?err (filter (\<lambda>x. \<not> ?b x) (port_refs g CONSUMER))))"
    by (rule fold_errors) (auto simp: con)
  moreover have "(\<lambda>x es. bind_res (?c x) (\<lambda>k. Inr (if \<not> k then es @ ?err x else es))) =
      (\<lambda>((pid, t, l), p) error_stream. bind_res (isConnected g p CONSUMER l) (\<lambda>c. Inr (if \<not> c
        then error_stream @ input_port_error (loc_id CONSUMER p l) else error_stream)))"
    by (auto simp: fun_eq_iff)
  moreover have "(\<lambda>x. \<not> ?b x) =
      (\<lambda>((b, t, m), q). \<not> fed g (connected_to (port_inst_at (ports_of CONSUMER) q m)))"
    by (auto simp: fun_eq_iff)
  ultimately have "checkRunnable g = bind_res (Inr ([] @ concat (map ?err (filter
      (\<lambda>((b, t, m), q). \<not> fed g (connected_to (port_inst_at (ports_of CONSUMER) q m))) (port_refs g CONSUMER)))))
      (\<lambda>error_string. Inr (if List.null error_string then None else Some error_string))"
    unfolding checkRunnable_def by metis
  then show ?thesis by (simp only: bind_res.simps List.null_iff append_Nil Let_def)
qed

lemma checkRunnable_None:
  assumes ok: "graph_ok g"
  shows "checkRunnable g = Inr None \<longleftrightarrow> (\<forall>b q m. map_of (pattern_instances g) b = Some q \<longrightarrow>
    m \<in> set (port_locs (ports_of CONSUMER) q) \<longrightarrow> fed g (connected_to (port_inst_at (ports_of CONSUMER) q m)))"
proof -
  have "checkRunnable g = Inr None \<longleftrightarrow> (\<forall>b t q m. ((b, t, m), q) \<in> set (port_refs g CONSUMER) \<longrightarrow>
      fed g (connected_to (port_inst_at (ports_of CONSUMER) q m)))"
    by (auto simp: checkRunnable_eq [OF ok] Let_def filter_empty_conv) blast
  then show ?thesis by (simp only: in_port_refs [OF ok]) blast
qed

end
