(* ===== verification/DomainInit.thy ===== *)
theory DomainInit
  imports GraphInv DomainBuffer "HOL-Library.Product_Lexorder"
begin

text \<open>
  Building a time domain's buffers from the graph: \<open>ComponentGraph\<close>
  (\<open>src/traact/component/ComponentGraph.cpp\<close>) and \<open>TimeDomainBuffer::init\<close>
  (\<open>src/traact/buffer/TimeDomainBuffer.cpp\<close>).

  A component object is known by its address. The set of pattern and component pairs is ordered by
  addresses: the model keeps it as a list in that unspecified order, and the statements hold for
  every order. \<open>std::sort\<close> may order components of equal type in any way; the model sorts stably,
  so that the different results of \<open>std::sort\<close> are those of different orders of the list.
\<close>

section \<open>ComponentGraph\<close>

type_synonym component_ptr = nat

record ComponentGraph =
  graph_instance :: GraphInstance
  patterns :: "(string \<times> component_ptr) list"

definition ComponentGraph_make :: "GraphInstance \<Rightarrow> ComponentGraph" where
  "ComponentGraph_make g = \<lparr>graph_instance = g, patterns = []\<rparr>"

definition cg_getName :: "ComponentGraph \<Rightarrow> string" where
  "cg_getName cg = graph_name (graph_instance cg)"

definition cg_addPattern :: "string \<Rightarrow> component_ptr \<Rightarrow> ComponentGraph \<Rightarrow> ComponentGraph res" where
  "cg_addPattern pattern_id comp_ptr cg =
     bind_res (getPattern (graph_instance cg) pattern_id) (\<lambda>_.
     Inr (cg\<lparr>patterns := List.insert (pattern_id, comp_ptr) (patterns cg)\<rparr>))"

definition getPatterns :: "ComponentGraph \<Rightarrow> (string \<times> component_ptr) list" where
  "getPatterns cg = patterns cg"

definition getComponent :: "ComponentGraph \<Rightarrow> string \<Rightarrow> component_ptr option" where
  "getComponent cg id0 = map_option snd (List.find (\<lambda>item. fst item = id0) (patterns cg))"

text \<open>The pattern instance behind a pair's pointer.\<close>

definition inst_of :: "ComponentGraph \<Rightarrow> string \<Rightarrow> PatternInstance res" where
  "inst_of cg a = deref (map_of (pattern_instances (graph_instance cg)) a)"

definition getPatternsForTimeDomain :: "ComponentGraph \<Rightarrow> int \<Rightarrow> (string \<times> component_ptr) list res" where
  "getPatternsForTimeDomain cg td =
     filter_res (\<lambda>pattern.
       bind_res (inst_of cg (fst pattern)) (\<lambda>p.
       bind_res (getComponentType p td) (\<lambda>type.
       if type = CT_INVALID then Inl RuntimeError else Inr (isInTimeDomain p td)))) (patterns cg)"

definition getTimeDomains :: "ComponentGraph \<Rightarrow> int set res" where
  "getTimeDomains cg =
     fold_res (\<lambda>pattern all_domains.
       bind_res (inst_of cg (fst pattern)) (\<lambda>p.
       Inr (all_domains \<union> set (local_to_global_time_domain p)))) (patterns cg) {}"

definition getTimeDomainConfig :: "ComponentGraph \<Rightarrow> nat \<Rightarrow> TimeDomainManagerConfig" where
  "getTimeDomainConfig cg td =
     (case map_of (timedomain_configs (graph_instance cg)) td of
        None \<Rightarrow> default_config
      | Some config \<Rightarrow> config)"

section \<open>Assigning buffer indices\<close>

text \<open>The components of the domain, ordered by their type: sources first, sinks last.\<close>

definition ordered_components :: "ComponentGraph \<Rightarrow> int \<Rightarrow> (ComponentType \<times> string) list res" where
  "ordered_components cg td =
     bind_res (getPatternsForTimeDomain cg td) (\<lambda>components.
     bind_res (map_res (\<lambda>pattern.
         bind_res (inst_of cg (fst pattern)) (\<lambda>p.
         bind_res (getComponentType p td) (\<lambda>type. Inr (type, fst pattern)))) components) (\<lambda>typed.
     Inr (sort_key fst typed)))"

record gathered =
  ga_datatype :: "string list"
  ga_index :: "(port_id, nat) omap"
  ga_async :: nat
  ga_internal :: nat

text \<open>
  One output port gets the next buffer, which its consumers share: one iteration of the loop over
  the producer ports.
\<close>

definition gather_port ::
    "GraphInstance \<Rightarrow> PatternInstance \<Rightarrow> port_loc \<Rightarrow> gathered \<Rightarrow> gathered res" where
  "gather_port g p port s =
     (let buffer_datatype = ga_datatype s @ [getDataType (port_inst_at (ports_of PRODUCER) p port)];
          buffer_index = length buffer_datatype - 1;
          index1 = assign (loc_id PRODUCER p port) buffer_index (ga_index s)
      in bind_res (connectedToPtr g (loc_id PRODUCER p port)) (\<lambda>input_ports.
         bind_res (fold_res (\<lambda>(b, t, m) index.
             bind_res (deref (map_of (pattern_instances g) b)) (\<lambda>q.
             Inr (assign (loc_id t q m) buffer_index index))) input_ports index1) (\<lambda>index2.
         Inr (s\<lparr>ga_datatype := buffer_datatype, ga_index := index2\<rparr>))))"

definition gather_component ::
    "ComponentGraph \<Rightarrow> int \<Rightarrow> ComponentType \<times> string \<Rightarrow> gathered \<Rightarrow> gathered res" where
  "gather_component cg td = (\<lambda>(type, a) s.
     bind_res (inst_of cg a) (\<lambda>data_comp.
     let s1 = (if type = ASYNC_SOURCE then s\<lparr>ga_async := ga_async s + 1\<rparr> else s);
         s2 = (if type = INTERNAL_SYNC_SOURCE then s1\<lparr>ga_internal := ga_internal s1 + 1\<rparr> else s1)
     in bind_res (getProducerPorts data_comp td) (\<lambda>ports.
        fold_res (gather_port (graph_instance cg) data_comp) ports s2)))"

definition gather ::
    "ComponentGraph \<Rightarrow> int \<Rightarrow> (ComponentType \<times> string) list \<Rightarrow> TimeDomainBuffer \<Rightarrow> gathered res" where
  "gather cg td ordered b =
     fold_res (gather_component cg td) ordered
       \<lparr>ga_datatype = [], ga_index = port_to_buffer_index b, ga_async = count_async_sources b,
        ga_internal = count_internal_sync_sources b\<rparr>"

section \<open>The buffer configuration of a component\<close>

text \<open>\<open>port_to_buffer_index_[id]\<close> inserts index 0 for an unknown port.\<close>

definition index_of :: "port_id \<Rightarrow> (port_id, nat) omap \<Rightarrow> nat \<times> (port_id, nat) omap" where
  "index_of cid m =
     (case map_of m cid of
        Some i \<Rightarrow> (i, m)
      | None \<Rightarrow> (0, assign cid 0 m))"

definition port_entry ::
    "PortType \<Rightarrow> PatternInstance \<Rightarrow> port_loc \<Rightarrow> (int \<times> int) list \<times> (port_id, nat) omap \<Rightarrow>
     ((int \<times> int) list \<times> (port_id, nat) omap) res" where
  "port_entry t p port = (\<lambda>(entries, index).
     let (global_buffer_index, index') = index_of (loc_id t p port) index
     in bind_res (loc_index t p port) (\<lambda>port_index.
        Inr (entries @ [(int global_buffer_index, port_index)], index')))"

definition group_config :: "PatternInstance \<Rightarrow> int \<Rightarrow> PortType \<Rightarrow> int \<Rightarrow> PortGroupConfig res" where
  "group_config p group_idx t td =
     bind_res (getPortGroupOffset p group_idx t td) (\<lambda>(offset, port_count, size).
     Inr \<lparr>group_offset = offset, group_port_count = port_count, pgc_size = size\<rparr>)"

definition default_group_config :: PortGroupConfig where
  "default_group_config = \<lparr>group_offset = 0, group_port_count = 0, pgc_size = 0\<rparr>"

definition group_configs :: "PatternInstance \<Rightarrow> PortType \<Rightarrow> int \<Rightarrow> PortGroupConfig list res" where
  "group_configs p t td =
     fold_res (\<lambda>pg configs.
         bind_res (group_config p (pg_group_index pg) t td) (\<lambda>c.
         raw_set configs (pg_group_index pg) c))
       (port_groups (local_pattern p))
       (replicate (length (port_groups (local_pattern p))) default_group_config)"

definition component_config ::
    "PatternInstance \<Rightarrow> int \<Rightarrow> (port_id, nat) omap \<Rightarrow> (BufferConfig \<times> (port_id, nat) omap) res" where
  "component_config p td index0 =
     bind_res (getProducerPorts p td) (\<lambda>producer_ports.
     bind_res (fold_res (port_entry PRODUCER p) producer_ports ([], index0)) (\<lambda>(outputs, index1).
     bind_res (getConsumerPorts p td) (\<lambda>consumer_ports.
     bind_res (fold_res (port_entry CONSUMER p) consumer_ports ([], index1)) (\<lambda>(inputs, index2).
     bind_res (group_configs p CONSUMER td) (\<lambda>group_inputs.
     bind_res (group_configs p PRODUCER td) (\<lambda>group_outputs.
     bind_res (getComponentType p td) (\<lambda>type.
     Inr (\<lparr>component_type = type, bc_instance_id = instance_id p,
           buffer_to_port_input = inputs, port_group_config_input = group_inputs,
           buffer_to_port_output = outputs, port_group_config_output = group_outputs\<rparr>, index2))))))))"

text \<open>\<open>emplace(component_index, config)\<close> for \<open>component_index\<close> 0, 1, \<dots>.\<close>

definition create_configs ::
    "ComponentGraph \<Rightarrow> int \<Rightarrow> (ComponentType \<times> string) list \<Rightarrow> (int, BufferConfig) omap \<Rightarrow>
     (port_id, nat) omap \<Rightarrow> ((int, BufferConfig) omap \<times> (port_id, nat) omap) res" where
  "create_configs cg td ordered configs index0 =
     bind_res (fold_res (\<lambda>(type, a) (component_idx, configs, index).
         bind_res (inst_of cg a) (\<lambda>p.
         bind_res (component_config p td index) (\<lambda>(config, index').
         Inr (component_idx + 1, emplace component_idx config configs, index'))))
       ordered (0::int, configs, index0))
     (\<lambda>(component_idx, configs, index). Inr (configs, index))"

section \<open>init\<close>

text \<open>The loop that creates one set of objects per time step; the buffer factory knows the types.\<close>

definition create_data ::
    "string list \<Rightarrow> string list \<Rightarrow> nat \<Rightarrow> DataBuffer list \<times> heap \<Rightarrow> DataBuffer list \<times> heap" where
  "create_data factories buffer_datatype n s =
     fold (\<lambda>_ (data, h).
       let (time_step_data, h') = db_createObjects buffer_datatype (DataBuffer_init factories, h)
       in (data @ [time_step_data], h')) [0..<n] s"

definition create_time_steps ::
    "int \<Rightarrow> nat \<Rightarrow> DataBuffer list \<Rightarrow> (int, BufferConfig) omap \<Rightarrow> TimeStepBuffer list \<Rightarrow>
     TimeStepBuffer list res" where
  "create_time_steps td n data configs steps =
     fold_res (\<lambda>i steps.
       bind_res (raw_get data (int i)) (\<lambda>d.
       bind_res (TimeStepBuffer_init i (data_buffer d) (header_buffer d) configs td) (\<lambda>t.
       Inr (steps @ [t])))) [0..<n] steps"

definition tdb_init ::
    "string list \<Rightarrow> ComponentGraph \<Rightarrow> TimeDomainBuffer \<times> heap \<Rightarrow> (TimeDomainBuffer \<times> heap) res" where
  "tdb_init factories cg = (\<lambda>(b, h).
     let td = tdb_time_domain b;
         config = getTimeDomainConfig cg (unat (word_of_int td :: 64 word))
     in
     bind_res (ordered_components cg td) (\<lambda>ordered.
     bind_res (gather cg td ordered b) (\<lambda>s.
     let (data, h') = create_data factories (ga_datatype s) (ringbuffer_size config) (tdb_data_buffer b, h)
     in
     bind_res (create_configs cg td ordered (buffer_config b) (ga_index s)) (\<lambda>(configs, index).
     bind_res (create_time_steps td (ringbuffer_size config) data configs (time_step_buffer b)) (\<lambda>steps.
     Inr (b\<lparr>tdb_config := config, count_async_sources := ga_async s,
            count_internal_sync_sources := ga_internal s, tdb_data_buffer := data,
            buffer_config := configs, port_to_buffer_index := index, time_step_buffer := steps\<rparr>, h'))))))"

end
