(* ===== verification/Tasks.thy ===== *)
theory Tasks
  imports DomainInit
begin

text \<open>
  The task graph of one time domain (\<open>src/traact/dataflow/graph\<close>): task objects and their
  dependencies (\<open>task/TraactTask.cpp\<close> and its subclasses), the builder that turns components and
  connections into tasks (\<open>builder/ComponentGraphBuilder.cpp\<close>), the one that adds the tasks of shared
  modules (\<open>builder/ModuleGraphBuilder.cpp\<close>), the one that adds CUDA graphs
  (\<open>cuda/CudaGraphBuilder.cpp\<close>) and their composition (\<open>TraactGraphBuilder.cpp\<close>).

  Task objects are shared and mutated through pointers, so they live in a store: a \<open>task_ptr\<close> is a
  position in it. The sets of pointers a task holds are ordered by address; the model keeps them as
  lists without duplicates in an unspecified order. The dynamic class of a component object, the key
  of its module, whether the module it instantiates uses constraints, and the name of its CUDA graph
  come from the plugin that created it: they are the parameter \<open>cls\<close> of the definitions.
\<close>

section \<open>Tasks\<close>

type_synonym task_ptr = nat
type_synonym module_ptr = nat

datatype component_class =
    PlainComponent
  | ModuleComponent string bool
  | CudaComponent string

datatype task_kind =
    ComponentTask string component_ptr
  | SourceTask string component_ptr
  | ModuleTask string module_ptr
  | ControlFlowTask string
  | TraactCudaTask string "(string, component_ptr) omap" "(string, string list) omap"

fun getId :: "task_kind \<Rightarrow> string" where
  "getId (ComponentTask pattern _) = pattern"
| "getId (SourceTask pattern _) = pattern"
| "getId (ModuleTask name _) = name"
| "getId (ControlFlowTask name) = name"
| "getId (TraactCudaTask cuda_graph_name _ _) = cuda_graph_name"

fun isSource :: "task_kind \<Rightarrow> bool" where
  "isSource (SourceTask _ _) = True"
| "isSource _ = False"

record TraactTask =
  kind :: task_kind
  predecessors :: "task_ptr list"
  successors :: "task_ptr list"
  predecessorsInterTimeStep :: "task_ptr list"
  successorsInterTimeStep :: "task_ptr list"

type_synonym task_store = "TraactTask list"

definition make_task :: "task_kind \<Rightarrow> TraactTask" where
  "make_task k = \<lparr>kind = k, predecessors = [], successors = [],
     predecessorsInterTimeStep = [], successorsInterTimeStep = []\<rparr>"

definition on_task :: "task_ptr \<Rightarrow> (TraactTask \<Rightarrow> TraactTask) \<Rightarrow> task_store \<Rightarrow> task_store" where
  "on_task t f s = s[t := f (s ! t)]"

definition task_succeed :: "task_ptr \<Rightarrow> task_ptr \<Rightarrow> task_store \<Rightarrow> task_store" where
  "task_succeed this predecessor s =
     (let s1 = on_task predecessor (\<lambda>x. x\<lparr>successors := List.insert this (successors x)\<rparr>) s
      in on_task this (\<lambda>x. x\<lparr>predecessors := List.insert predecessor (predecessors x)\<rparr>) s1)"

definition task_precede :: "task_ptr \<Rightarrow> task_ptr \<Rightarrow> task_store \<Rightarrow> task_store" where
  "task_precede this successor s =
     (let s1 = on_task successor (\<lambda>x. x\<lparr>predecessors := List.insert this (predecessors x)\<rparr>) s
      in on_task this (\<lambda>x. x\<lparr>successors := List.insert successor (successors x)\<rparr>) s1)"

definition succeedInterTimeStep :: "task_ptr \<Rightarrow> task_ptr \<Rightarrow> task_store \<Rightarrow> task_store" where
  "succeedInterTimeStep this predecessor s =
     (let s1 = on_task predecessor (\<lambda>x. x\<lparr>successorsInterTimeStep :=
                  List.insert this (successorsInterTimeStep x)\<rparr>) s
      in on_task this (\<lambda>x. x\<lparr>predecessorsInterTimeStep :=
                  List.insert predecessor (predecessorsInterTimeStep x)\<rparr>) s1)"

definition precedeInterTimeStep :: "task_ptr \<Rightarrow> task_ptr \<Rightarrow> task_store \<Rightarrow> task_store" where
  "precedeInterTimeStep this successor s =
     (let s1 = on_task successor (\<lambda>x. x\<lparr>predecessorsInterTimeStep :=
                  List.insert this (predecessorsInterTimeStep x)\<rparr>) s
      in on_task this (\<lambda>x. x\<lparr>successorsInterTimeStep :=
                  List.insert successor (successorsInterTimeStep x)\<rparr>) s1)"

definition task_clear :: "task_ptr \<Rightarrow> task_store \<Rightarrow> task_store" where
  "task_clear this s = on_task this (\<lambda>x. x\<lparr>successors := [], predecessors := [],
     successorsInterTimeStep := [], predecessorsInterTimeStep := []\<rparr>) s"

definition isStartPoint :: "TraactTask \<Rightarrow> bool" where
  "isStartPoint t \<longleftrightarrow> List.null (predecessors t)"

definition isEndPoint :: "TraactTask \<Rightarrow> bool" where
  "isEndPoint t \<longleftrightarrow> List.null (successors t)"

section \<open>The graph of a time domain\<close>

record TraactTaskData =
  data_time_step :: nat
  data_component_index :: nat
  valid_component_call :: bool

record TraactGraph =
  task_store :: task_store
  tasks :: "(string, task_ptr) omap"
  task_data :: "(string, TraactTaskData option) omap list"

definition TraactGraph_empty :: TraactGraph where
  "TraactGraph_empty = \<lparr>task_store = [], tasks = [], task_data = []\<rparr>"

definition getTimeStepCount :: "TraactGraph \<Rightarrow> nat" where
  "getTimeStepCount g = length (task_data g)"

definition task_at :: "TraactGraph \<Rightarrow> task_ptr \<Rightarrow> TraactTask" where
  "task_at g t = task_store g ! t"

text \<open>\<open>std::make_shared\<close> of a task, then \<open>tasks.emplace\<close>: a taken name keeps its old task.\<close>

definition new_task :: "task_kind \<Rightarrow> TraactGraph \<Rightarrow> task_ptr \<times> TraactGraph" where
  "new_task k g = (length (task_store g), g\<lparr>task_store := task_store g @ [make_task k]\<rparr>)"

definition emplace_task :: "string \<Rightarrow> task_kind \<Rightarrow> TraactGraph \<Rightarrow> task_ptr \<times> TraactGraph" where
  "emplace_task name k g =
     (let (t, g1) = new_task k g in (t, g1\<lparr>tasks := emplace name t (tasks g1)\<rparr>))"

definition on_store :: "(task_store \<Rightarrow> task_store) \<Rightarrow> TraactGraph \<Rightarrow> TraactGraph" where
  "on_store f g = g\<lparr>task_store := f (task_store g)\<rparr>"

section \<open>ComponentGraphBuilder\<close>

record Callbacks =
  request_exit_callback :: "component_ptr list"
  request_callback :: "(component_ptr, int) omap"

definition setRequestCallback ::
    "TimeDomainBuffer \<Rightarrow> component_ptr \<Rightarrow> string \<Rightarrow> Callbacks \<Rightarrow> Callbacks res" where
  "setRequestCallback b c a cb =
     bind_res (tdb_getComponentIndex b a) (\<lambda>component_index.
     Inr (cb\<lparr>request_callback := assign c component_index (request_callback cb)\<rparr>))"

definition prepareComponents ::
    "ComponentGraph \<Rightarrow> int \<Rightarrow> TimeDomainBuffer \<Rightarrow> (string \<times> component_ptr) list \<Rightarrow> Callbacks \<Rightarrow>
     Callbacks res" where
  "prepareComponents cg td b components =
     fold_res (\<lambda>(a, c) cb.
       let cb1 = cb\<lparr>request_exit_callback := List.insert c (request_exit_callback cb)\<rparr>
       in bind_res (inst_of cg a) (\<lambda>p.
          bind_res (getComponentType p td) (\<lambda>type.
          if type = CT_INVALID then Inl InvalidArgument
          else if type = ASYNC_SOURCE \<or> type = INTERNAL_SYNC_SOURCE then setRequestCallback b c (instance_id p) cb1
          else Inr cb1))) components"

definition createTask :: "PatternInstance \<Rightarrow> component_ptr \<Rightarrow> int \<Rightarrow> task_kind res" where
  "createTask p c td =
     bind_res (getComponentType p td) (\<lambda>type.
     if type = CT_INVALID then Inl InvalidArgument
     else if type = ASYNC_SOURCE \<or> type = INTERNAL_SYNC_SOURCE then Inr (SourceTask (instance_id p) c)
     else Inr (ComponentTask (instance_id p) c))"

definition createTasks ::
    "ComponentGraph \<Rightarrow> int \<Rightarrow> (string \<times> component_ptr) list \<Rightarrow> TraactGraph \<Rightarrow> TraactGraph res" where
  "createTasks cg td components =
     fold_res (\<lambda>(a, c) g.
       bind_res (inst_of cg a) (\<lambda>p.
       bind_res (createTask p c td) (\<lambda>task.
       Inr (snd (emplace_task (instance_id p) task g))))) components"

text \<open>Edges to the consumers of every output port: the two nested loops of \<open>createDependencies\<close>.\<close>

definition connect_consumers ::
    "GraphInstance \<Rightarrow> int \<Rightarrow> PatternInstance \<Rightarrow> task_ptr \<Rightarrow> TraactGraph \<Rightarrow> TraactGraph res" where
  "connect_consumers gi td p current_task g =
     bind_res (getProducerPorts p td) (\<lambda>ports.
     fold_res (\<lambda>port g.
       bind_res (connectedToPtr gi (loc_id PRODUCER p port)) (\<lambda>input_ports.
       fold_res (\<lambda>(b, _) g.
         bind_res (map_at (tasks g) b) (\<lambda>consumer_task.
         Inr (on_store (task_precede current_task consumer_task) g))) input_ports g)) ports g)"

fun findSyncSourceStartPoint ::
    "ComponentGraph \<Rightarrow> int \<Rightarrow> TraactGraph \<Rightarrow> (string \<times> component_ptr) list \<Rightarrow> task_ptr res" where
  "findSyncSourceStartPoint cg td g [] = Inl InvalidArgument"
| "findSyncSourceStartPoint cg td g ((a, c) # components) =
     bind_res (inst_of cg a) (\<lambda>p.
     bind_res (getComponentType p td) (\<lambda>type.
     if type = ASYNC_SOURCE then map_at (tasks g) (instance_id p)
     else findSyncSourceStartPoint cg td g components))"

definition component_dependencies ::
    "ComponentGraph \<Rightarrow> int \<Rightarrow> (string \<times> component_ptr) list \<Rightarrow> string \<times> component_ptr \<Rightarrow> TraactGraph \<Rightarrow>
     TraactGraph res" where
  "component_dependencies cg td components = (\<lambda>(a, c) g.
     bind_res (inst_of cg a) (\<lambda>p.
     bind_res (map_at (tasks g) (instance_id p)) (\<lambda>current_task.
     bind_res (connect_consumers (graph_instance cg) td p current_task g) (\<lambda>g1.
     bind_res (getComponentType p td) (\<lambda>type.
     bind_res (if type = SYNC_SOURCE
               then bind_res (findSyncSourceStartPoint cg td g1 components) (\<lambda>sync_source_start.
                    Inr (on_store (task_succeed current_task sync_source_start) g1))
               else Inr g1) (\<lambda>g2.
     bind_res (getConcurrency p td) (\<lambda>concurrency.
     Inr (if concurrency = SERIAL then on_store (succeedInterTimeStep current_task current_task) g2
          else g2))))))))"

definition createDependencies ::
    "ComponentGraph \<Rightarrow> int \<Rightarrow> (string \<times> component_ptr) list \<Rightarrow> TraactGraph \<Rightarrow> TraactGraph res" where
  "createDependencies cg td components = fold_res (component_dependencies cg td components) components"

definition ComponentGraphBuilder_buildGraph ::
    "ComponentGraph \<Rightarrow> int \<Rightarrow> TimeDomainBuffer \<Rightarrow> (string \<times> component_ptr) list \<Rightarrow>
     Callbacks \<times> TraactGraph \<Rightarrow> (Callbacks \<times> TraactGraph) res" where
  "ComponentGraphBuilder_buildGraph cg td b components = (\<lambda>(cb, g).
     bind_res (prepareComponents cg td b components cb) (\<lambda>cb'.
     bind_res (createTasks cg td components g) (\<lambda>g1.
     bind_res (createDependencies cg td components g1) (\<lambda>g2. Inr (cb', g2)))))"

section \<open>ModuleGraphBuilder\<close>

text \<open>
  \<open>modules\<close> is the store of the module objects that were instantiated; an entry tells what the
  module's \<open>useConstraints()\<close> returns.
\<close>

record ModuleTaskData =
  begin_components :: "task_ptr list"
  end_components :: "task_ptr list"

record ModuleTables =
  modules :: "bool list"
  module_map :: "(string, module_ptr) omap"
  component_modules :: "(string, ModuleTaskData) omap"
  module_of_component :: "(component_ptr, module_ptr) omap"

definition ModuleTables_empty :: ModuleTables where
  "ModuleTables_empty =
     \<lparr>modules = [], module_map = [], component_modules = [], module_of_component = []\<rparr>"

definition module_entry :: "ModuleTables \<Rightarrow> string \<Rightarrow> ModuleTaskData" where
  "module_entry m key =
     (case map_of (component_modules m) key of
        Some d \<Rightarrow> d
      | None \<Rightarrow> \<lparr>begin_components = [], end_components = []\<rparr>)"

text \<open>The switch over the component type: which end of the module the component's task is at.\<close>

definition add_module_task ::
    "ComponentType \<Rightarrow> string \<Rightarrow> task_ptr \<Rightarrow> ModuleTables \<Rightarrow> ModuleTables res" where
  "add_module_task type key t m =
     (let d = module_entry m key
      in if type \<in> {ASYNC_SINK, SYNC_SINK, ASYNC_SOURCE, INTERNAL_SYNC_SOURCE, SYNC_FUNCTIONAL}
         then Inr (m\<lparr>component_modules :=
           assign key (d\<lparr>begin_components := begin_components d @ [t]\<rparr>) (component_modules m)\<rparr>)
         else if type = SYNC_SOURCE
         then Inr (m\<lparr>component_modules :=
           assign key (d\<lparr>end_components := end_components d @ [t]\<rparr>) (component_modules m)\<rparr>)
         else Inl InvalidArgument)"

definition module_instance :: "string \<Rightarrow> bool \<Rightarrow> ModuleTables \<Rightarrow> module_ptr \<times> ModuleTables" where
  "module_instance key constraints m =
     (case map_of (module_map m) key of
        Some md \<Rightarrow> (md, m)
      | None \<Rightarrow> (length (modules m), m\<lparr>modules := modules m @ [constraints],
           module_map := assign key (length (modules m)) (module_map m)\<rparr>))"

definition extract_module ::
    "(component_ptr \<Rightarrow> component_class) \<Rightarrow> ComponentGraph \<Rightarrow> int \<Rightarrow> TraactGraph \<Rightarrow>
     string \<times> component_ptr \<Rightarrow> ModuleTables \<Rightarrow> ModuleTables res" where
  "extract_module cls cg td g = (\<lambda>(a, c) m.
     (case cls c of
        ModuleComponent key constraints \<Rightarrow>
          bind_res (inst_of cg a) (\<lambda>p.
          bind_res (map_at (tasks g) (instance_id p)) (\<lambda>task.
          bind_res (getComponentType p td) (\<lambda>type.
          bind_res (add_module_task type key task m) (\<lambda>m1.
          let (md, m2) = module_instance key constraints m1
          in Inr (m2\<lparr>module_of_component := assign c md (module_of_component m2)\<rparr>)))))
      | _ \<Rightarrow> Inr m))"

definition extractModules ::
    "(component_ptr \<Rightarrow> component_class) \<Rightarrow> ComponentGraph \<Rightarrow> int \<Rightarrow> TraactGraph \<Rightarrow>
     (string \<times> component_ptr) list \<Rightarrow> ModuleTables \<Rightarrow> ModuleTables res" where
  "extractModules cls cg td g components = fold_res (extract_module cls cg td g) components"

text \<open>
  The loops over \<open>begin_components\<close> and \<open>end_components\<close>: the sub task follows the opening task, the
  closing task follows it, and then precedes whatever the sub task precedes by now.
\<close>

definition enclose_task :: "task_ptr \<Rightarrow> task_ptr \<Rightarrow> task_ptr \<Rightarrow> TraactGraph \<Rightarrow> TraactGraph" where
  "enclose_task opening closing sub_task g =
     (let g1 = on_store (task_precede opening sub_task) g;
          g2 = on_store (task_succeed closing sub_task) g1
      in fold (\<lambda>successor. on_store (task_precede closing successor))
           (successors (task_at g2 sub_task)) g2)"

definition module_tasks :: "string \<Rightarrow> module_ptr \<Rightarrow> ModuleTaskData \<Rightarrow> TraactGraph \<Rightarrow> TraactGraph" where
  "module_tasks key md comps g =
     (let use_middle = \<not> List.null (begin_components comps) \<and> \<not> List.null (end_components comps);
          start_task_name = ''MODULE_START_'' @ key;
          middle_task_name = ''MODULE_MIDDLE_'' @ key;
          end_task_name = ''MODULE_END_'' @ key;
          (start_task, g1) = emplace_task start_task_name (ControlFlowTask start_task_name) g;
          (end_task, begin_components_end_task, end_components_start_task, g2) =
            (if use_middle then
               let (end_task, g1') = emplace_task end_task_name (ControlFlowTask end_task_name) g1;
                   (middle_task, g2') = emplace_task middle_task_name (ModuleTask middle_task_name md) g1'
               in (end_task, middle_task, middle_task, g2')
             else
               let (end_task, g2') = emplace_task end_task_name (ModuleTask end_task_name md) g1
               in (end_task, end_task, start_task, g2'));
          g3 = on_store (succeedInterTimeStep start_task end_task) g2;
          g4 = fold (enclose_task start_task begin_components_end_task) (begin_components comps) g3
      in fold (enclose_task end_components_start_task end_task) (end_components comps) g4)"

definition createTasksAndDependencies :: "ModuleTables \<Rightarrow> TraactGraph \<Rightarrow> TraactGraph res" where
  "createTasksAndDependencies m =
     fold_res (\<lambda>(module_key, comps) g.
       bind_res (map_at (module_map m) module_key) (\<lambda>md.
       bind_res (vec_at (modules m) md) (\<lambda>constraints.
       if \<not> constraints then Inr g else Inr (module_tasks module_key md comps g))))
     (component_modules m)"

definition ModuleGraphBuilder_buildGraph ::
    "(component_ptr \<Rightarrow> component_class) \<Rightarrow> ComponentGraph \<Rightarrow> int \<Rightarrow> (string \<times> component_ptr) list \<Rightarrow>
     TraactGraph \<Rightarrow> (ModuleTables \<times> TraactGraph) res" where
  "ModuleGraphBuilder_buildGraph cls cg td components g =
     bind_res (extractModules cls cg td g components ModuleTables_empty) (\<lambda>m.
     bind_res (createTasksAndDependencies m g) (\<lambda>g'. Inr (m, g')))"

section \<open>CudaGraphBuilder\<close>

definition cuda_components ::
    "(component_ptr \<Rightarrow> component_class) \<Rightarrow> ComponentGraph \<Rightarrow> (string \<times> component_ptr) list \<Rightarrow>
     (string, (string, component_ptr) omap) omap res" where
  "cuda_components cls cg components =
     fold_res (\<lambda>(a, c) table.
       (case cls c of
          CudaComponent cuda_graph \<Rightarrow>
            bind_res (inst_of cg a) (\<lambda>p.
            let entry = (case map_of table cuda_graph of Some e \<Rightarrow> e | None \<Rightarrow> [])
            in Inr (assign cuda_graph (emplace (instance_id p) c entry) table))
        | _ \<Rightarrow> Inr table)) components []"

definition Cuda_createTasks ::
    "(component_ptr \<Rightarrow> component_class) \<Rightarrow> ComponentGraph \<Rightarrow> (string \<times> component_ptr) list \<Rightarrow>
     TraactGraph \<Rightarrow> TraactGraph res" where
  "Cuda_createTasks cls cg components g =
     bind_res (cuda_components cls cg components) (\<lambda>cuda_graph_to_component.
     Inr (fold (\<lambda>(graph_name, comps) g. snd (emplace_task graph_name (TraactCudaTask graph_name comps []) g))
            cuda_graph_to_component g))"

definition isCudaGraph :: "TraactGraph \<Rightarrow> string \<Rightarrow> bool" where
  "isCudaGraph g a =
     (case map_of (tasks g) a of
        None \<Rightarrow> False
      | Some t \<Rightarrow> (case kind (task_at g t) of TraactCudaTask _ _ _ \<Rightarrow> True | _ \<Rightarrow> False))"

definition find_component ::
    "ComponentGraph \<Rightarrow> (string \<times> component_ptr) list \<Rightarrow> string \<Rightarrow> (string \<times> component_ptr) option" where
  "find_component cg components a =
     List.find (\<lambda>(k, c). case inst_of cg k of Inr p \<Rightarrow> instance_id p = a | Inl _ \<Rightarrow> False) components"

definition getCudaGraph ::
    "(component_ptr \<Rightarrow> component_class) \<Rightarrow> ComponentGraph \<Rightarrow> (string \<times> component_ptr) list \<Rightarrow>
     TraactGraph \<Rightarrow> string \<Rightarrow> string option res" where
  "getCudaGraph cls cg components g a =
     (case find_component cg components a of
        Some (k, c) \<Rightarrow> Inr (case cls c of CudaComponent name \<Rightarrow> Some name | _ \<Rightarrow> None)
      | None \<Rightarrow> if isCudaGraph g a then Inr (Some a) else Inl InvalidArgument)"

definition isCudaComponent ::
    "(component_ptr \<Rightarrow> component_class) \<Rightarrow> ComponentGraph \<Rightarrow> (string \<times> component_ptr) list \<Rightarrow>
     TraactGraph \<Rightarrow> string \<Rightarrow> bool res" where
  "isCudaComponent cls cg components g a =
     (case find_component cg components a of
        Some (k, c) \<Rightarrow> Inr (case cls c of CudaComponent name \<Rightarrow> True | _ \<Rightarrow> False)
      | None \<Rightarrow> if isCudaGraph g a then Inr False else Inl InvalidArgument)"

text \<open>\<open>component_to_successors_[predecessor].emplace(successor)\<close>\<close>

fun add_internal :: "string \<Rightarrow> string \<Rightarrow> task_kind \<Rightarrow> task_kind" where
  "add_internal predecessor successor (TraactCudaTask name comps to_successors) =
     (let entry = (case map_of to_successors predecessor of Some e \<Rightarrow> e | None \<Rightarrow> [])
      in TraactCudaTask name comps
           (assign predecessor (if successor \<in> set entry then entry else insort successor entry) to_successors))"
| "add_internal predecessor successor k = k"

definition addInternalSuccessor :: "task_ptr \<Rightarrow> string \<Rightarrow> string \<Rightarrow> TraactGraph \<Rightarrow> TraactGraph" where
  "addInternalSuccessor t predecessor successor =
     on_store (on_task t (\<lambda>x. x\<lparr>kind := add_internal predecessor successor (kind x)\<rparr>))"

definition cuda_successor ::
    "(component_ptr \<Rightarrow> component_class) \<Rightarrow> ComponentGraph \<Rightarrow> (string \<times> component_ptr) list \<Rightarrow>
     string \<Rightarrow> task_ptr \<Rightarrow> string \<Rightarrow> task_ptr \<Rightarrow> TraactGraph \<Rightarrow> TraactGraph res" where
  "cuda_successor cls cg components name cuda_task a successor g =
     (let successor_id = getId (kind (task_at g successor))
      in bind_res (getCudaGraph cls cg components g successor_id) (\<lambda>successor_cuda_graph.
         if \<not> isCudaGraph g name then Inl UndefinedBehaviour
         else if successor_cuda_graph = Some name then Inr (addInternalSuccessor cuda_task a successor_id g)
         else Inr (on_store (task_precede cuda_task successor) g)))"

definition updateComponentSuccessorsForGpu ::
    "(component_ptr \<Rightarrow> component_class) \<Rightarrow> ComponentGraph \<Rightarrow> (string \<times> component_ptr) list \<Rightarrow>
     string \<Rightarrow> TraactGraph \<Rightarrow> TraactGraph res" where
  "updateComponentSuccessorsForGpu cls cg components a g =
     bind_res (getCudaGraph cls cg components g a) (\<lambda>self_graph.
     (case self_graph of
        None \<Rightarrow> Inr g
      | Some name \<Rightarrow>
          bind_res (map_at (tasks g) name) (\<lambda>cuda_task.
          bind_res (map_at (tasks g) a) (\<lambda>component_task.
          bind_res (fold_res (cuda_successor cls cg components name cuda_task a)
              (successors (task_at g component_task)) g) (\<lambda>g1.
          if \<not> isCudaGraph g1 name then Inl UndefinedBehaviour
          else Inr (on_store (task_succeed cuda_task component_task) g1))))))"

definition Cuda_createDependencies ::
    "(component_ptr \<Rightarrow> component_class) \<Rightarrow> ComponentGraph \<Rightarrow> (string \<times> component_ptr) list \<Rightarrow>
     TraactGraph \<Rightarrow> TraactGraph res" where
  "Cuda_createDependencies cls cg components =
     fold_res (\<lambda>(a, c) g.
       bind_res (inst_of cg a) (\<lambda>p. updateComponentSuccessorsForGpu cls cg components (instance_id p) g))
       components"

definition CudaGraphBuilder_buildGraph ::
    "(component_ptr \<Rightarrow> component_class) \<Rightarrow> ComponentGraph \<Rightarrow> (string \<times> component_ptr) list \<Rightarrow>
     TraactGraph \<Rightarrow> TraactGraph res" where
  "CudaGraphBuilder_buildGraph cls cg components g =
     bind_res (Cuda_createTasks cls cg components g) (Cuda_createDependencies cls cg components)"

section \<open>TraactGraphBuilder\<close>

text \<open>The data of one task in one time step: none for a task without a component buffer.\<close>

definition task_data_of :: "TimeStepBuffer \<Rightarrow> nat \<Rightarrow> string \<Rightarrow> TraactTaskData option res" where
  "task_data_of b i name =
     (if hasComponentBuffer b name then
        bind_res (getComponentIndex b name) (\<lambda>component_idx.
        bind_res (getComponentBuffer b (int component_idx)) (\<lambda>_.
        Inr (Some \<lparr>data_time_step = i, data_component_index = component_idx,
                   valid_component_call = False\<rparr>)))
      else Inr None)"

definition createTimeStepTraactTaskData ::
    "nat \<Rightarrow> TimeDomainBuffer \<Rightarrow> TraactGraph \<Rightarrow> TraactGraph res" where
  "createTimeStepTraactTaskData time_step_count b g =
     bind_res (map_res (\<lambda>i.
         bind_res (getTimeStepBuffer b (int i)) (\<lambda>time_step_buffer.
         fold_res (\<lambda>(name, task) time_step_data.
           bind_res (task_data_of time_step_buffer i name) (\<lambda>d.
           Inr (emplace name d time_step_data))) (tasks g) [])) [0..<time_step_count]) (\<lambda>data.
     Inr (g\<lparr>task_data := data\<rparr>))"

text \<open>
  The builders read the components of the time domain when they are constructed; \<open>build\<close> runs them in
  order on a new graph. \<open>td\<close> is the time domain the configuration names.
\<close>

definition TraactGraphBuilder_build ::
    "(component_ptr \<Rightarrow> component_class) \<Rightarrow> ComponentGraph \<Rightarrow> TimeDomainManagerConfig \<Rightarrow>
     TimeDomainBuffer \<Rightarrow> Callbacks \<Rightarrow> (Callbacks \<times> ModuleTables \<times> TraactGraph) res" where
  "TraactGraphBuilder_build cls cg config b cb =
     (let td = time_domain config
      in bind_res (getPatternsForTimeDomain cg td) (\<lambda>components.
         bind_res (ComponentGraphBuilder_buildGraph cg td b components (cb, TraactGraph_empty)) (\<lambda>(cb', g1).
         bind_res (ModuleGraphBuilder_buildGraph cls cg td components g1) (\<lambda>(m, g2).
         bind_res (CudaGraphBuilder_buildGraph cls cg components g2) (\<lambda>g3.
         bind_res (createTimeStepTraactTaskData (ringbuffer_size config) b g3) (\<lambda>g4.
         Inr (cb', m, g4)))))))"

end
