(* ===== verification/Flow.thy ===== *)
theory Flow
  imports Tasks
begin

text \<open>
  The executable task flow of a time domain (\<open>src/traact/dataflow/taskflow/builder\<close>):
  \<open>TaskFlowStandardTasks\<close> and \<open>TaskFlowCudaGraphBuilder\<close> create one node per task and time step,
  \<open>TaskFlowTimeStep\<close> the nodes that open and close a time step, and \<open>TaskFlowConnections\<close> connects
  them within and between the time steps.

  \<open>tf::Taskflow\<close> belongs to a library outside the repository. The model records what the code asks of
  it and gives it no meaning of its own: the nodes created by \<open>emplace\<close>, each with its name and what
  its callable does, and the pairs of nodes passed to \<open>precede\<close>, in call order. The order matters: a
  callable that returns an integer chooses among its successors by their position.
\<close>

section \<open>The recorded task flow\<close>

type_synonym node = nat

datatype flow_body =
    ComponentBody string nat
  | SourceBody string nat
  | ModuleBody module_ptr nat
  | CudaBody string nat "(string \<times> component_ptr) list" "nat list list"
  | EmptyBody
  | TimeStepStartBody nat
  | TimeStepEndBody nat
  | SeamEntryBody nat
  | StartEntryBody
  | GlobalStartBody
  | GlobalEndBody

record flow_node =
  node_name :: string
  node_body :: flow_body

record TraactTaskFlowGraph =
  flow_nodes :: "flow_node list"
  flow_precedes :: "(node \<times> node) list"
  task_flow_tasks :: "(string, node) omap list"
  start_entries :: "int list"

definition TraactTaskFlowGraph_empty :: TraactTaskFlowGraph where
  "TraactTaskFlowGraph_empty =
     \<lparr>flow_nodes = [], flow_precedes = [], task_flow_tasks = [], start_entries = []\<rparr>"

definition flow_emplace :: "string \<Rightarrow> flow_body \<Rightarrow> TraactTaskFlowGraph \<Rightarrow> node \<times> TraactTaskFlowGraph" where
  "flow_emplace name body f =
     (length (flow_nodes f), f\<lparr>flow_nodes := flow_nodes f @ [\<lparr>node_name = name, node_body = body\<rparr>]\<rparr>)"

definition node_precede :: "node \<Rightarrow> node \<Rightarrow> TraactTaskFlowGraph \<Rightarrow> TraactTaskFlowGraph" where
  "node_precede p q f = f\<lparr>flow_precedes := flow_precedes f @ [(p, q)]\<rparr>"

text \<open>The successors of a node in the order they were added.\<close>

definition node_successors :: "TraactTaskFlowGraph \<Rightarrow> node \<Rightarrow> node list" where
  "node_successors f p = map snd (filter (\<lambda>e. fst e = p) (flow_precedes f))"

definition flow_task_at :: "TraactTaskFlowGraph \<Rightarrow> nat \<Rightarrow> string \<Rightarrow> node res" where
  "flow_task_at f i name = bind_res (raw_get (task_flow_tasks f) (int i)) (\<lambda>m. map_at m name)"

section \<open>TaskFlowStandardTasks\<close>

text \<open>
  The node of one task, if its class has one. Each \<open>createTask\<close> passes a callable to \<open>emplace\<close>; the
  name is set afterwards.
\<close>

fun standard_body :: "task_kind \<Rightarrow> nat \<Rightarrow> (string \<times> flow_body) option" where
  "standard_body (ComponentTask pattern _) i = Some (kComponent, ComponentBody pattern i)"
| "standard_body (SourceTask pattern _) i = Some (kSource, SourceBody pattern i)"
| "standard_body (ModuleTask _ md) i = Some (kModule, ModuleBody md i)"
| "standard_body (ControlFlowTask _) i = Some (kControlFlow, EmptyBody)"
| "standard_body (TraactCudaTask _ _ _) i = None"

definition createTimeStep :: "TraactGraph \<Rightarrow> nat \<Rightarrow> TraactTaskFlowGraph \<Rightarrow> TraactTaskFlowGraph res" where
  "createTimeStep g i f =
     bind_res (vec_at (task_data g) i) (\<lambda>data.
     bind_res (vec_at (task_flow_tasks f) i) (\<lambda>_.
     fold_res (\<lambda>(name, t) f.
       bind_res (map_at data name) (\<lambda>data_pointer.
       (case standard_body (kind (task_at g t)) i of
          None \<Rightarrow> Inr f
        | Some (type, body) \<Rightarrow>
            let (task, f1) = flow_emplace (getTaskId type name (int i)) body f
            in Inr (f1\<lparr>task_flow_tasks :=
                 (task_flow_tasks f1)[i := emplace name task (task_flow_tasks f1 ! i)]\<rparr>)))) (tasks g) f))"

definition StandardTasks_buildGraph :: "TraactGraph \<Rightarrow> TraactTaskFlowGraph \<Rightarrow> TraactTaskFlowGraph res" where
  "StandardTasks_buildGraph g f =
     (let n = getTimeStepCount g;
          f1 = f\<lparr>task_flow_tasks := take n (task_flow_tasks f) @
                   replicate (n - length (task_flow_tasks f)) []\<rparr>
      in fold_res (createTimeStep g) [0..<n] f1)"

section \<open>TaskFlowCudaGraphBuilder\<close>

text \<open>The components of a CUDA graph in key order, and their successors as positions in that order.\<close>

definition createCudaFlow ::
    "TraactGraph \<Rightarrow> nat \<Rightarrow> string \<Rightarrow> (string, component_ptr) omap \<Rightarrow> (string, string list) omap \<Rightarrow>
     TraactTaskFlowGraph \<Rightarrow> (node \<times> TraactTaskFlowGraph) res" where
  "createCudaFlow g i name comps to_successors f =
     bind_res (vec_at (task_data g) i) (\<lambda>data.
     bind_res (map_res (\<lambda>(a, c). bind_res (deref (map_of data a)) (\<lambda>d. bind_res (deref d) (\<lambda>d. Inr ()))) comps) (\<lambda>_.
     let id_to_index = zip (map fst comps) [0..<length comps] in
     bind_res (fold_res (\<lambda>(a, succs) component_to_successors.
         bind_res (map_at id_to_index a) (\<lambda>k.
         bind_res (map_res (map_at id_to_index) succs) (\<lambda>ks.
         Inr (component_to_successors[k := ks])))) to_successors (replicate (length comps) []))
       (\<lambda>component_to_successors.
     Inr (flow_emplace (getTaskId kCudaFlow name (int i))
            (CudaBody name i comps component_to_successors) f))))"

definition createGpuTimeStepTasks :: "TraactGraph \<Rightarrow> nat \<Rightarrow> TraactTaskFlowGraph \<Rightarrow> TraactTaskFlowGraph res" where
  "createGpuTimeStepTasks g i f =
     bind_res (vec_at (task_flow_tasks f) i) (\<lambda>_.
     fold_res (\<lambda>(a, t) f.
       (case kind (task_at g t) of
          TraactCudaTask name comps to_successors \<Rightarrow>
            bind_res (createCudaFlow g i name comps to_successors f) (\<lambda>(cuda_flow, f1).
            Inr (f1\<lparr>task_flow_tasks :=
              (task_flow_tasks f1)[i := emplace a cuda_flow (task_flow_tasks f1 ! i)]\<rparr>))
        | _ \<Rightarrow> Inr f)) (tasks g) f)"

definition TaskFlowCuda_buildGraph :: "TraactGraph \<Rightarrow> TraactTaskFlowGraph \<Rightarrow> TraactTaskFlowGraph res" where
  "TaskFlowCuda_buildGraph g = fold_res (createGpuTimeStepTasks g) [0..<getTimeStepCount g]"

section \<open>TaskFlowTimeStep\<close>

definition createStartStopTasks :: "TraactGraph \<Rightarrow> nat \<Rightarrow> TraactTaskFlowGraph \<Rightarrow> TraactTaskFlowGraph res" where
  "createStartStopTasks g i f =
     bind_res (vec_at (task_flow_tasks f) i) (\<lambda>_.
     let (start_task, f1) = flow_emplace (getTaskId kControlFlow kTimeStepStart (int i)) (TimeStepStartBody i) f
     in
     bind_res (fold_res (\<lambda>(a, t) f.
         if isStartPoint (task_at g t) then
           bind_res (map_at (task_flow_tasks f ! i) a) (\<lambda>task. Inr (node_precede start_task task f))
         else Inr f) (tasks g) f1) (\<lambda>f2.
     let f3 = f2\<lparr>task_flow_tasks :=
           (task_flow_tasks f2)[i := emplace kTimeStepStart start_task (task_flow_tasks f2 ! i)]\<rparr>;
         (end_task, f4) = flow_emplace (getTaskId kControlFlow kTimeStepEnd (int i)) (TimeStepEndBody i) f3
     in
     bind_res (fold_res (\<lambda>(a, t) f.
         if isEndPoint (task_at g t) then
           bind_res (map_at (task_flow_tasks f ! i) a) (\<lambda>task. Inr (node_precede task end_task f))
         else Inr f) (tasks g) f4) (\<lambda>f5.
     Inr (f5\<lparr>task_flow_tasks :=
           (task_flow_tasks f5)[i := emplace kTimeStepEnd end_task (task_flow_tasks f5 ! i)]\<rparr>))))"

definition TimeStep_buildGraph :: "TraactGraph \<Rightarrow> TraactTaskFlowGraph \<Rightarrow> TraactTaskFlowGraph res" where
  "TimeStep_buildGraph g = fold_res (createStartStopTasks g) [0..<getTimeStepCount g]"

section \<open>TaskFlowConnections\<close>

definition connectTimeStepComponents ::
    "TraactGraph \<Rightarrow> nat \<Rightarrow> TraactTaskFlowGraph \<Rightarrow> TraactTaskFlowGraph res" where
  "connectTimeStepComponents g i f =
     bind_res (vec_at (task_flow_tasks f) i) (\<lambda>m.
     fold_res (\<lambda>(a, t) f.
       bind_res (map_at m a) (\<lambda>current_task.
       fold_res (\<lambda>successor f.
         (case map_of m (getId (kind (task_at g successor))) of
            Some successor_task \<Rightarrow> Inr (node_precede current_task successor_task f)
          | None \<Rightarrow> Inl LogicError)) (successors (task_at g t)) f)) (tasks g) f)"

text \<open>
  A seam joins the end of one pass through the time steps to the next: a condition node
  (\<open>createSeamEntryTask\<close>) that picks \<open>seam_start\<close>, or \<open>seam_end\<close> once the data flow stops. The three
  lambdas of \<open>createInterTimeStepDependencies\<close> create one each, after \<open>getTimeStepBuffer\<close>.
\<close>

definition create_seam ::
    "TimeDomainBuffer \<Rightarrow> string \<Rightarrow> nat \<Rightarrow> TraactTaskFlowGraph \<Rightarrow> (node \<times> node \<times> node \<times> TraactTaskFlowGraph) res" where
  "create_seam b name i f =
     bind_res (getTimeStepBuffer b (int i)) (\<lambda>_.
     let (seam_entry, f1) = flow_emplace (getTaskId kSeamEntry name (int i)) (SeamEntryBody i) f;
         (seam_start, f2) = flow_emplace (getTaskId kSeamStart name (int i)) EmptyBody f1;
         (seam_end, f3) = flow_emplace (getTaskId kSeamEnd name (int i)) EmptyBody f2
     in Inr (seam_entry, seam_start, seam_end, f3))"

definition push_start_entry :: "node \<Rightarrow> node \<Rightarrow> TraactTaskFlowGraph \<Rightarrow> TraactTaskFlowGraph" where
  "push_start_entry start_entry seam_entry f =
     (let f1 = node_precede start_entry seam_entry f
      in f1\<lparr>start_entries := start_entries f1 @ [int (length (start_entries f1)) + 1]\<rparr>)"

definition connect_time_step_end_to_start ::
    "TimeDomainBuffer \<Rightarrow> node \<Rightarrow> nat \<Rightarrow> TraactTaskFlowGraph \<Rightarrow> TraactTaskFlowGraph res" where
  "connect_time_step_end_to_start b start_entry i f =
     bind_res (create_seam b kTimeStepSelf i f) (\<lambda>(seam_entry, seam_start, seam_end, f1).
     bind_res (flow_task_at f1 i kTimeStepStart) (\<lambda>time_step_start.
     bind_res (flow_task_at f1 i kTimeStepEnd) (\<lambda>time_step_end.
     let f2 = node_precede time_step_end seam_entry f1;
         f3 = node_precede seam_entry seam_end (node_precede seam_entry seam_start f2);
         f4 = node_precede seam_start time_step_start f3
     in Inr (push_start_entry start_entry seam_entry f4))))"

definition connect_end_to_next_start ::
    "TimeDomainBuffer \<Rightarrow> nat \<Rightarrow> node \<Rightarrow> string \<Rightarrow> string \<Rightarrow> TraactTaskFlowGraph \<Rightarrow> TraactTaskFlowGraph res" where
  "connect_end_to_next_start b n start_entry start_name end_name f =
     bind_res (create_seam b start_name 0 f) (\<lambda>(seam_entry, seam_start, seam_end, f1).
     bind_res (fold_res (\<lambda>i f.
         bind_res (flow_task_at f i end_name) (\<lambda>current_end_tasks.
         bind_res (flow_task_at f i start_name) (\<lambda>next_start_tasks.
         let f' = node_precede current_end_tasks next_start_tasks f
         in bind_res (flow_task_at f' i kTimeStepEnd) (\<lambda>time_step_end_task.
            Inr (node_precede current_end_tasks time_step_end_task f'))))) [0..<n - 1] f1) (\<lambda>f2.
     bind_res (flow_task_at f2 (n - 1) end_name) (\<lambda>last_end_task.
     bind_res (flow_task_at f2 0 start_name) (\<lambda>first_start_task.
     bind_res (flow_task_at f2 (n - 1) kTimeStepEnd) (\<lambda>last_time_step_end_task.
     let f3 = node_precede last_end_task seam_entry f2;
         f4 = node_precede seam_entry seam_end (node_precede seam_entry seam_start f3);
         f5 = node_precede seam_start first_start_task f4;
         f6 = node_precede last_end_task last_time_step_end_task f5
     in Inr (push_start_entry start_entry seam_entry f6))))))"

definition inter_connect_time_steps ::
    "TimeDomainBuffer \<Rightarrow> nat \<Rightarrow> node \<Rightarrow> string \<Rightarrow> TraactTaskFlowGraph \<Rightarrow> TraactTaskFlowGraph res" where
  "inter_connect_time_steps b n start_entry name f =
     bind_res (create_seam b name 0 f) (\<lambda>(seam_entry, seam_start, seam_end, f1).
     bind_res (fold_res (\<lambda>i f.
         bind_res (flow_task_at f i name) (\<lambda>task.
         bind_res (flow_task_at f (i + 1) name) (\<lambda>next_task.
         Inr (node_precede task next_task f)))) [0..<n - 1] f1) (\<lambda>f2.
     bind_res (flow_task_at f2 0 name) (\<lambda>first_time_step.
     bind_res (flow_task_at f2 (n - 1) name) (\<lambda>last_time_step.
     let f3 = node_precede last_time_step seam_entry f2;
         f4 = node_precede seam_entry seam_end (node_precede seam_entry seam_start f3);
         f5 = node_precede seam_start first_time_step f4
     in Inr (push_start_entry start_entry seam_entry f5)))))"

text \<open>
  The dependencies between time steps. The loops compare an \<open>int\<close> with \<open>getTimeStepCount() - 1\<close>, a
  \<open>size_t\<close>: with no time step at all they would run through the memory behind an empty vector.
\<close>

definition later_dependency ::
    "TimeDomainBuffer \<Rightarrow> nat \<Rightarrow> node \<Rightarrow> string \<Rightarrow> string \<Rightarrow> TraactTaskFlowGraph \<Rightarrow> TraactTaskFlowGraph res" where
  "later_dependency b n start_entry current_id successor_id f =
     (if current_id = successor_id then inter_connect_time_steps b n start_entry current_id f
      else connect_end_to_next_start b n start_entry current_id successor_id f)"

definition createInterTimeStepDependencies ::
    "TimeDomainBuffer \<Rightarrow> TraactGraph \<Rightarrow> TraactTaskFlowGraph \<Rightarrow> TraactTaskFlowGraph res" where
  "createInterTimeStepDependencies b g f =
     (let n = getTimeStepCount g;
          (start_task, f1) = flow_emplace (getTaskId kSeamEntry kGlobalStart 0) GlobalStartBody f;
          (end_task, f2) = flow_emplace (getTaskId kSeamEnd kGlobalStart 0) GlobalEndBody f1;
          (start_entry, f3) = flow_emplace (getTaskId kSeamStart kGlobalStart 0) StartEntryBody f2;
          f4 = node_precede start_entry end_task (node_precede start_task start_entry f3)
      in bind_res (fold_res (connect_time_step_end_to_start b start_entry) [0..<n] f4) (\<lambda>f5.
         if n = 0 then Inl UndefinedBehaviour else
         bind_res (inter_connect_time_steps b n start_entry kTimeStepStart f5) (\<lambda>f6.
         bind_res (inter_connect_time_steps b n start_entry kTimeStepEnd f6) (\<lambda>f7.
         fold_res (\<lambda>(a, current_task) f.
           fold_res (\<lambda>successor_task f.
             later_dependency b n start_entry (getId (kind (task_at g current_task)))
               (getId (kind (task_at g successor_task))) f)
             (successorsInterTimeStep (task_at g current_task)) f) (tasks g) f7))))"

definition Connections_buildGraph ::
    "TimeDomainBuffer \<Rightarrow> TraactGraph \<Rightarrow> TraactTaskFlowGraph \<Rightarrow> TraactTaskFlowGraph res" where
  "Connections_buildGraph b g f =
     bind_res (fold_res (connectTimeStepComponents g) [0..<getTimeStepCount g] f)
       (createInterTimeStepDependencies b g)"

section \<open>TraactTaskFlowBuilder\<close>

definition TraactTaskFlowBuilder_build ::
    "TimeDomainBuffer \<Rightarrow> TraactGraph \<Rightarrow> TraactTaskFlowGraph \<Rightarrow> TraactTaskFlowGraph res" where
  "TraactTaskFlowBuilder_build b g f =
     bind_res (StandardTasks_buildGraph g f) (\<lambda>f1.
     bind_res (TaskFlowCuda_buildGraph g f1) (\<lambda>f2.
     bind_res (TimeStep_buildGraph g f2) (Connections_buildGraph b g)))"

end
