(* ===== verification/DomainInitOk.thy ===== *)
theory DomainInitOk
  imports DomainInit "HOL-Library.Multiset"
begin

text \<open>
  \<open>TimeDomainBuffer::init\<close> is correct: on a graph whose consumer ports are all connected it returns,
  every producer port has its own buffer of its data type, every consumer port reads the buffer of
  the producer port it is connected to, and every time step has one source lock per source.
\<close>

section \<open>Ports own buffer slots\<close>

text \<open>The ports that share the buffer of a producer port: the port itself and its consumers.\<close>

definition owned :: "GraphInstance \<Rightarrow> PatternInstance \<times> port_loc \<Rightarrow> port_id set" where
  "owned g = (\<lambda>(p, l). insert (loc_id PRODUCER p l)
     {cid. \<exists>b q m. map_of (pattern_instances g) b = Some q \<and> m \<in> set (port_locs (ports_of CONSUMER) q) \<and>
        connected_to (port_inst_at (ports_of CONSUMER) q m) = loc_id PRODUCER p l \<and>
        cid = loc_id CONSUMER q m})"

lemma loc_id_same:
  assumes ok: "graph_ok g" and p: "map_of (pattern_instances g) a = Some p"
    and q: "map_of (pattern_instances g) b = Some q"
    and t: "t \<in> {PRODUCER, CONSUMER}" "t' \<in> {PRODUCER, CONSUMER}"
    and l: "l \<in> set (port_locs (ports_of t) p)" "m \<in> set (port_locs (ports_of t') q)"
    and eq: "loc_id t p l = loc_id t' q m"
  shows "a = b \<and> p = q \<and> t = t' \<and> l = m"
proof -
  from eq have "instance_id p = instance_id q" by (metis fst_loc_id)
  with graph_okD(1) [OF ok p] graph_okD(1) [OF ok q] have ab: "a = b" by simp
  with p q have "p = q" by simp
  with ab resolves_inj [OF graph_okD(3) [OF ok p] t l(1)] l(2) eq show ?thesis by blast
qed

definition producer_of :: "GraphInstance \<Rightarrow> PatternInstance \<times> port_loc \<Rightarrow> bool" where
  "producer_of g = (\<lambda>(p, l). (\<exists>a. map_of (pattern_instances g) a = Some p) \<and>
     l \<in> set (port_locs (ports_of PRODUCER) p))"

definition producer_at :: "GraphInstance \<Rightarrow> port_id \<Rightarrow> port_id \<Rightarrow> bool" where
  "producer_at g cid pid \<longleftrightarrow> pid = cid \<and> (\<exists>a p l. map_of (pattern_instances g) a = Some p \<and>
     l \<in> set (port_locs (ports_of PRODUCER) p) \<and> cid = loc_id PRODUCER p l)"

definition consumer_at :: "GraphInstance \<Rightarrow> port_id \<Rightarrow> port_id \<Rightarrow> bool" where
  "consumer_at g cid pid \<longleftrightarrow> (\<exists>b q m. map_of (pattern_instances g) b = Some q \<and>
     m \<in> set (port_locs (ports_of CONSUMER) q) \<and> cid = loc_id CONSUMER q m \<and>
     pid = connected_to (port_inst_at (ports_of CONSUMER) q m))"

lemma consumer_at_fun:
  assumes ok: "graph_ok g" and "consumer_at g cid x" and "consumer_at g cid y"
  shows "x = y"
proof -
  from assms(2) obtain b q m where q: "map_of (pattern_instances g) b = Some q"
    "m \<in> set (port_locs (ports_of CONSUMER) q)" "cid = loc_id CONSUMER q m"
    "x = connected_to (port_inst_at (ports_of CONSUMER) q m)" unfolding consumer_at_def by blast
  from assms(3) obtain b' q' m' where q': "map_of (pattern_instances g) b' = Some q'"
    "m' \<in> set (port_locs (ports_of CONSUMER) q')" "cid = loc_id CONSUMER q' m'"
    "y = connected_to (port_inst_at (ports_of CONSUMER) q' m')" unfolding consumer_at_def by blast
  from loc_id_same [OF ok q(1) q'(1) _ _ q(2) q'(2)] q(3) q'(3) have "q = q' \<and> m = m'" by simp
  with q q' show ?thesis by simp
qed

lemma producer_not_consumer:
  assumes ok: "graph_ok g" and "producer_at g cid x" and "consumer_at g cid y"
  shows False
proof -
  from assms(2) obtain a p l where p: "map_of (pattern_instances g) a = Some p"
    "l \<in> set (port_locs (ports_of PRODUCER) p)" "cid = loc_id PRODUCER p l"
    unfolding producer_at_def by blast
  from assms(3) obtain b q m where q: "map_of (pattern_instances g) b = Some q"
    "m \<in> set (port_locs (ports_of CONSUMER) q)" "cid = loc_id CONSUMER q m" unfolding consumer_at_def by blast
  from loc_id_same [OF ok p(1) q(1) _ _ p(2) q(2)] p(3) q(3) show False by simp
qed

lemma owned_root:
  assumes "producer_of g (p, l)" and "cid \<in> owned g (p, l)"
  shows "producer_at g cid (loc_id PRODUCER p l) \<or> consumer_at g cid (loc_id PRODUCER p l)"
  using assms unfolding producer_of_def owned_def producer_at_def consumer_at_def
  by (simp del: split_paired_Ex) (elim exE conjE disjE; simp del: split_paired_Ex; metis)

lemma owned_disjoint:
  assumes ok: "graph_ok g" and x: "producer_of g (p, l)" and y: "producer_of g (p', l')"
    and c: "cid \<in> owned g (p, l)" "cid \<in> owned g (p', l')"
  shows "(p, l) = (p', l')"
proof -
  from owned_root [OF x c(1)] owned_root [OF y c(2)]
  have "loc_id PRODUCER p l = loc_id PRODUCER p' l'"
    using consumer_at_fun [OF ok] producer_not_consumer [OF ok] unfolding producer_at_def by metis
  moreover from x obtain a where a: "map_of (pattern_instances g) a = Some p"
    "l \<in> set (port_locs (ports_of PRODUCER) p)" unfolding producer_of_def by auto
  moreover from y obtain a' where a': "map_of (pattern_instances g) a' = Some p'"
    "l' \<in> set (port_locs (ports_of PRODUCER) p')" unfolding producer_of_def by auto
  ultimately show ?thesis using loc_id_same [OF ok a(1) a'(1) _ _ a(2) a'(2)] by simp
qed

section \<open>Gathering the output ports\<close>

lemma map_of_assign_if: "map_of (assign k v m) k' = (if k' = k then Some v else map_of m k')"
  by (simp add: map_of_assign_same map_of_assign_other)

definition ref_id :: "GraphInstance \<Rightarrow> port_ref \<Rightarrow> port_id" where
  "ref_id g = (\<lambda>(b, t, m). loc_id t (the (map_of (pattern_instances g) b)) m)"

lemma assign_refs:
  assumes "\<forall>r \<in> set refs. map_of (pattern_instances g) (fst r) \<noteq> None"
  shows "\<exists>idx'. fold_res (\<lambda>(b, t, m) index.
      bind_res (deref (map_of (pattern_instances g) b)) (\<lambda>q. Inr (assign (loc_id t q m) k index))) refs idx
      = Inr idx' \<and>
    (\<forall>cid. map_of idx' cid = (if cid \<in> ref_id g ` set refs then Some k else map_of idx cid))"
  using assms
proof (induction refs arbitrary: idx)
  case (Cons r refs)
  obtain b t m where r: "r = (b, t, m)" by (cases r) auto
  from Cons.prems r obtain q where q: "map_of (pattern_instances g) b = Some q" by auto
  from Cons.IH [of "assign (loc_id t q m) k idx"] Cons.prems obtain idx' where
    "fold_res (\<lambda>(b, t, m) index. bind_res (deref (map_of (pattern_instances g) b))
      (\<lambda>q. Inr (assign (loc_id t q m) k index))) refs (assign (loc_id t q m) k idx) = Inr idx'"
    "\<forall>cid. map_of idx' cid = (if cid \<in> ref_id g ` set refs then Some k
      else map_of (assign (loc_id t q m) k idx) cid)" by auto
  with r q show ?case by (auto simp: map_of_assign_if ref_id_def)
qed simp

lemma owned_eq:
  assumes ok: "graph_ok g"
  shows "owned g (p, l) = insert (loc_id PRODUCER p l) (ref_id g ` set (peers_of_producer g p l))"
proof -
  have "ref_id g ` set (peers_of_producer g p l) =
      {cid. \<exists>b q m. map_of (pattern_instances g) b = Some q \<and> m \<in> set (port_locs (ports_of CONSUMER) q) \<and>
        connected_to (port_inst_at (ports_of CONSUMER) q m) = loc_id PRODUCER p l \<and>
        cid = loc_id CONSUMER q m}" (is "?L = ?R")
  proof (intro set_eqI iffI)
    fix cid assume "cid \<in> ?L"
    then obtain b t m where "(b, t, m) \<in> set (peers_of_producer g p l)" "cid = ref_id g (b, t, m)"
      by auto
    then obtain q where "map_of (pattern_instances g) b = Some q" "m \<in> set (port_locs (ports_of CONSUMER) q)"
      "connected_to (port_inst_at (ports_of CONSUMER) q m) = loc_id PRODUCER p l"
      "cid = loc_id CONSUMER q m"
      unfolding in_peers_of_producer [OF ok] by (auto simp: ref_id_def)
    then show "cid \<in> ?R" by blast
  next
    fix cid assume "cid \<in> ?R"
    then obtain b q m where "map_of (pattern_instances g) b = Some q" "m \<in> set (port_locs (ports_of CONSUMER) q)"
      "connected_to (port_inst_at (ports_of CONSUMER) q m) = loc_id PRODUCER p l"
      "cid = loc_id CONSUMER q m" by blast
    then have "(b, CONSUMER, m) \<in> set (peers_of_producer g p l)" "cid = ref_id g (b, CONSUMER, m)"
      by (simp_all add: in_peers_of_producer [OF ok] ref_id_def)
    then show "cid \<in> ?L" by blast
  qed
  then show ?thesis by (simp add: owned_def)
qed

lemma gather_port_eq:
  assumes ok: "graph_ok g" and x: "producer_of g (p, l)"
  shows "\<exists>idx'. gather_port g p l s = Inr (s\<lparr>ga_datatype := ga_datatype s @
      [getDataType (port_inst_at (ports_of PRODUCER) p l)], ga_index := idx'\<rparr>) \<and>
    (\<forall>cid. map_of idx' cid =
      (if cid \<in> owned g (p, l) then Some (length (ga_datatype s)) else map_of (ga_index s) cid))"
proof -
  from x obtain a where a: "map_of (pattern_instances g) a = Some p" "l \<in> set (port_locs (ports_of PRODUCER) p)"
    by (auto simp: producer_of_def)
  have "\<forall>r \<in> set (peers_of_producer g p l). map_of (pattern_instances g) (fst r) \<noteq> None"
    by (auto simp: in_peers_of_producer [OF ok])
  from assign_refs [OF this, of "length (ga_datatype s)"
      "assign (loc_id PRODUCER p l) (length (ga_datatype s)) (ga_index s)"]
  obtain idx' where idx': "fold_res (\<lambda>(b, t, m) index. bind_res (deref (map_of (pattern_instances g) b))
      (\<lambda>q. Inr (assign (loc_id t q m) (length (ga_datatype s)) index))) (peers_of_producer g p l)
      (assign (loc_id PRODUCER p l) (length (ga_datatype s)) (ga_index s)) = Inr idx'"
    "\<forall>cid. map_of idx' cid = (if cid \<in> ref_id g ` set (peers_of_producer g p l)
       then Some (length (ga_datatype s))
       else map_of (assign (loc_id PRODUCER p l) (length (ga_datatype s)) (ga_index s)) cid)" by blast
  show ?thesis
  proof (intro exI [of _ idx'] conjI allI)
    show "gather_port g p l s = Inr (s\<lparr>ga_datatype := ga_datatype s @
        [getDataType (port_inst_at (ports_of PRODUCER) p l)], ga_index := idx'\<rparr>)"
      using idx'(1) by (simp add: gather_port_def Let_def connectedToPtr_producer [OF ok a])
    show "map_of idx' cid =
        (if cid \<in> owned g (p, l) then Some (length (ga_datatype s)) else map_of (ga_index s) cid)" for cid
      using idx'(2) [rule_format, of cid] by (simp add: owned_eq [OF ok] map_of_assign_if)
  qed
qed

lemma gather_ports:
  assumes ok: "graph_ok g" and xs: "\<forall>x \<in> set xs. producer_of g x" and dist: "distinct xs"
  shows "\<exists>idx'. fold_res (\<lambda>(p, l). gather_port g p l) xs s = Inr (s\<lparr>ga_datatype := ga_datatype s @
      map (\<lambda>(p, l). getDataType (port_inst_at (ports_of PRODUCER) p l)) xs, ga_index := idx'\<rparr>) \<and>
    (\<forall>j < length xs. \<forall>cid \<in> owned g (xs ! j). map_of idx' cid = Some (length (ga_datatype s) + j)) \<and>
    (\<forall>cid. cid \<notin> \<Union> (owned g ` set xs) \<longrightarrow> map_of idx' cid = map_of (ga_index s) cid)"
  using xs dist
proof (induction xs rule: rev_induct)
  case Nil
  show ?case by (intro exI [of _ "ga_index s"]) simp
next
  case (snoc x xs)
  obtain p l where xp: "x = (p, l)" by (cases x)
  from snoc obtain idx1 where i1: "fold_res (\<lambda>(p, l). gather_port g p l) xs s = Inr (s\<lparr>ga_datatype :=
      ga_datatype s @ map (\<lambda>(p, l). getDataType (port_inst_at (ports_of PRODUCER) p l)) xs, ga_index := idx1\<rparr>)"
    "\<forall>j < length xs. \<forall>cid \<in> owned g (xs ! j). map_of idx1 cid = Some (length (ga_datatype s) + j)"
    "\<forall>cid. cid \<notin> \<Union> (owned g ` set xs) \<longrightarrow> map_of idx1 cid = map_of (ga_index s) cid" by auto
  let ?s1 = "s\<lparr>ga_datatype := ga_datatype s @
      map (\<lambda>(p, l). getDataType (port_inst_at (ports_of PRODUCER) p l)) xs, ga_index := idx1\<rparr>"
  from snoc.prems(1) xp have x: "producer_of g (p, l)" by simp
  from gather_port_eq [OF ok x, of ?s1] obtain idx2 where i2:
    "gather_port g p l ?s1 = Inr (?s1\<lparr>ga_datatype := ga_datatype ?s1 @
      [getDataType (port_inst_at (ports_of PRODUCER) p l)], ga_index := idx2\<rparr>)"
    "\<forall>cid. map_of idx2 cid =
      (if cid \<in> owned g (p, l) then Some (length (ga_datatype ?s1)) else map_of (ga_index ?s1) cid)" by blast
  have other: "cid \<notin> owned g (p, l)" if "j < length xs" "cid \<in> owned g (xs ! j)" for j cid
  proof
    assume c: "cid \<in> owned g (p, l)"
    obtain p' l' where y: "xs ! j = (p', l')" by (cases "xs ! j")
    from snoc.prems(1) that(1) y have "producer_of g (p', l')" by (metis UnI1 nth_mem set_append)
    from owned_disjoint [OF ok x this c] that(2) y have "(p, l) = xs ! j" by simp
    with snoc.prems(2) that(1) xp show False by simp
  qed
  show ?case
  proof (intro exI [of _ idx2] conjI)
    show "\<forall>j < length (xs @ [x]). \<forall>cid \<in> owned g ((xs @ [x]) ! j).
        map_of idx2 cid = Some (length (ga_datatype s) + j)"
      using i1(2) i2(2) other by (auto simp: nth_append less_Suc_eq xp)
    show "\<forall>cid. cid \<notin> \<Union> (owned g ` set (xs @ [x])) \<longrightarrow> map_of idx2 cid = map_of (ga_index s) cid"
      using i1(3) i2(2) by (auto simp: xp)
  qed (simp add: fold_res_append i1(1) i2(1) xp)
qed

section \<open>Domains that can be initialised\<close>

definition unique_domain :: "PatternInstance \<Rightarrow> int \<Rightarrow> bool" where
  "unique_domain p td \<longleftrightarrow>
     (\<forall>i < length (local_to_global_time_domain p). \<forall>j < length (local_to_global_time_domain p).
        local_to_global_time_domain p ! i = td \<longrightarrow> local_to_global_time_domain p ! j = td \<longrightarrow> i = j)"

definition pattern_ready :: "PatternInstance \<Rightarrow> int \<Rightarrow> bool" where
  "pattern_ready p td \<longleftrightarrow>
     (case getComponentType p td of Inl e \<Rightarrow> False | Inr ty \<Rightarrow> ty \<noteq> CT_INVALID) \<and> unique_domain p td \<and>
     (\<forall>t \<in> {PRODUCER, CONSUMER}. \<forall>l \<in> set (port_locs (ports_of t) p).
        is_ok (port_getTimeDomain p (port_inst_at (ports_of t) p l)))"

text \<open>Every pattern of the graph has a component, and every port a global time domain.\<close>

definition domain_ready :: "ComponentGraph \<Rightarrow> int \<Rightarrow> bool" where
  "domain_ready cg td \<longleftrightarrow>
     distinct (map fst (patterns cg)) \<and>
     fst ` set (patterns cg) = fst ` set (pattern_instances (graph_instance cg)) \<and>
     (\<forall>(a, p) \<in> set (pattern_instances (graph_instance cg)). pattern_ready p td)"

definition comp_type :: "PatternInstance \<Rightarrow> int \<Rightarrow> ComponentType" where
  "comp_type p td = (case getComponentType p td of Inl e \<Rightarrow> CT_INVALID | Inr ty \<Rightarrow> ty)"

definition the_inst :: "ComponentGraph \<Rightarrow> string \<Rightarrow> PatternInstance" where
  "the_inst cg a = the (map_of (pattern_instances (graph_instance cg)) a)"

definition td_ports :: "PortType \<Rightarrow> PatternInstance \<Rightarrow> int \<Rightarrow> port_loc list" where
  "td_ports t p td = filter (\<lambda>l. port_getTimeDomain p (port_inst_at (ports_of t) p l) = Inr td)
     (port_locs (ports_of t) p)"

definition domain_components :: "ComponentGraph \<Rightarrow> int \<Rightarrow> (ComponentType \<times> string) list" where
  "domain_components cg td = sort_key fst (map (\<lambda>x. (comp_type (the_inst cg (fst x)) td, fst x))
     (filter (\<lambda>x. isInTimeDomain (the_inst cg (fst x)) td) (patterns cg)))"

lemma pattern_readyD:
  assumes "pattern_ready p td"
  shows "getComponentType p td = Inr (comp_type p td)" "comp_type p td \<noteq> CT_INVALID" "unique_domain p td"
    "t \<in> {PRODUCER, CONSUMER} \<Longrightarrow> l \<in> set (port_locs (ports_of t) p) \<Longrightarrow>
      is_ok (port_getTimeDomain p (port_inst_at (ports_of t) p l))"
  using assms by (auto simp: pattern_ready_def comp_type_def split: sum.splits)

lemma domain_ready_inst:
  assumes ok: "graph_ok (graph_instance cg)" and ready: "domain_ready cg td" and a: "a \<in> fst ` set (patterns cg)"
  shows "map_of (pattern_instances (graph_instance cg)) a = Some (the_inst cg a)"
    "inst_of cg a = Inr (the_inst cg a)" "pattern_ready (the_inst cg a) td"
proof -
  from a ready have "a \<in> fst ` set (pattern_instances (graph_instance cg))" by (simp add: domain_ready_def)
  then obtain p where p: "map_of (pattern_instances (graph_instance cg)) a = Some p"
    by (auto simp: graph_ok_mem [OF ok])
  then show "map_of (pattern_instances (graph_instance cg)) a = Some (the_inst cg a)"
    "inst_of cg a = Inr (the_inst cg a)" by (simp_all add: the_inst_def inst_of_def)
  from p have "(a, p) \<in> set (pattern_instances (graph_instance cg))" by (rule map_of_SomeD)
  with ready have "pattern_ready p td" by (auto simp: domain_ready_def)
  with p show "pattern_ready (the_inst cg a) td" by (simp add: the_inst_def)
qed

lemma ports_of_time_domain_eq:
  assumes "pattern_ready p td" and "t \<in> {PRODUCER, CONSUMER}"
  shows "ports_of_time_domain (ports_of t) p td = Inr (td_ports t p td)"
proof -
  have "bind_res (port_getTimeDomain p (port_inst_at (ports_of t) p l)) (\<lambda>d. Inr (d = td)) =
      Inr (port_getTimeDomain p (port_inst_at (ports_of t) p l) = Inr td)"
    if "l \<in> set (port_locs (ports_of t) p)" for l
    using pattern_readyD(4) [OF assms that] by (auto simp: is_ok_iff)
  then show ?thesis unfolding ports_of_time_domain_def td_ports_def by (rule filter_res_total)
qed

lemma getProducerPorts_eq: "pattern_ready p td \<Longrightarrow> getProducerPorts p td = Inr (td_ports PRODUCER p td)"
  using ports_of_time_domain_eq [of p td PRODUCER] by (simp add: getProducerPorts_def ports_of_simps)

lemma getConsumerPorts_eq: "pattern_ready p td \<Longrightarrow> getConsumerPorts p td = Inr (td_ports CONSUMER p td)"
  using ports_of_time_domain_eq [of p td CONSUMER] by (simp add: getConsumerPorts_def ports_of_simps)

lemma in_td_ports: "l \<in> set (td_ports t p td) \<Longrightarrow> l \<in> set (port_locs (ports_of t) p)"
  by (simp add: td_ports_def)

lemma distinct_concat_upt:
  assumes "\<And>i. i < n \<Longrightarrow> distinct (f i)"
    and "\<And>i j. i < j \<Longrightarrow> j < n \<Longrightarrow> set (f i) \<inter> set (f j) = {}"
  shows "distinct (concat (map f [0..<n]))"
  using assms
proof (induction n)
  case (Suc n)
  then have "distinct (concat (map f [0..<n]))" by simp
  moreover have "set (concat (map f [0..<n])) \<inter> set (f n) = {}"
    using Suc.prems(2) [of _ n] by fastforce
  ultimately show ?case using Suc.prems(1) by simp
qed simp

lemma port_locs_distinct: "distinct (port_locs f p)"
  unfolding port_locs_def
  by (intro distinct_concat_upt) (auto simp: distinct_map inj_on_def)

lemma td_ports_distinct: "distinct (td_ports t p td)"
  by (simp add: td_ports_def port_locs_distinct)

text \<open>The index of a port is its position among the component's ports of the domain.\<close>

lemma td_ports_index:
  assumes "pattern_instance_ok p" and ready: "pattern_ready p td" and t: "t \<in> {PRODUCER, CONSUMER}"
  shows "map (loc_index t p) (td_ports t p td) = map (Inr \<circ> int) [0..<length (td_ports t p td)]"
proof (rule ports_of_time_domain_indices [OF assms(1) _ _ ports_of_time_domain_eq [OF ready t]])
  show "t \<noteq> PT_NONE" using t by auto
qed (use pattern_readyD(3) [OF ready] in \<open>auto simp: unique_domain_def\<close>)

definition td_components :: "ComponentGraph \<Rightarrow> int \<Rightarrow> (string \<times> component_ptr) list" where
  "td_components cg td = filter (\<lambda>x. isInTimeDomain (the_inst cg (fst x)) td) (patterns cg)"

lemma getPatternsForTimeDomain_eq:
  assumes ok: "graph_ok (graph_instance cg)" and ready: "domain_ready cg td"
  shows "getPatternsForTimeDomain cg td = Inr (td_components cg td)"
  unfolding getPatternsForTimeDomain_def td_components_def
proof (rule filter_res_total)
  note inst = domain_ready_inst [OF ok ready]
  fix x assume "x \<in> set (patterns cg)"
  then have "fst x \<in> fst ` set (patterns cg)" by simp
  from inst(2,3) [OF this] pattern_readyD(1,2)
  show "bind_res (inst_of cg (fst x)) (\<lambda>p. bind_res (getComponentType p td) (\<lambda>type.
      if type = CT_INVALID then Inl RuntimeError else Inr (isInTimeDomain p td))) =
    Inr (isInTimeDomain (the_inst cg (fst x)) td)" by simp
qed

lemma ordered_components_eq:
  assumes ok: "graph_ok (graph_instance cg)" and ready: "domain_ready cg td"
  shows "ordered_components cg td = Inr (domain_components cg td)"
proof -
  note inst = domain_ready_inst [OF ok ready]
  have "getPatternsForTimeDomain cg td =
      Inr (filter (\<lambda>x. isInTimeDomain (the_inst cg (fst x)) td) (patterns cg))"
    using getPatternsForTimeDomain_eq [OF ok ready] by (simp add: td_components_def)
  moreover have "map_res (\<lambda>x. bind_res (inst_of cg (fst x)) (\<lambda>p. bind_res (getComponentType p td)
        (\<lambda>type. Inr (type, fst x)))) (filter (\<lambda>x. isInTimeDomain (the_inst cg (fst x)) td) (patterns cg)) =
      Inr (map (\<lambda>x. (comp_type (the_inst cg (fst x)) td, fst x))
        (filter (\<lambda>x. isInTimeDomain (the_inst cg (fst x)) td) (patterns cg)))"
  proof (rule map_res_total)
    fix x assume "x \<in> set (filter (\<lambda>x. isInTimeDomain (the_inst cg (fst x)) td) (patterns cg))"
    then have "fst x \<in> fst ` set (patterns cg)" by simp
    from inst(2,3) [OF this] pattern_readyD(1)
    show "bind_res (inst_of cg (fst x)) (\<lambda>p. bind_res (getComponentType p td) (\<lambda>type. Inr (type, fst x))) =
      Inr (comp_type (the_inst cg (fst x)) td, fst x)" by simp
  qed
  ultimately show ?thesis by (simp add: ordered_components_def domain_components_def)
qed

lemma in_domain_components:
  "(ty, a) \<in> set (domain_components cg td) \<longleftrightarrow>
   a \<in> fst ` set (patterns cg) \<and> isInTimeDomain (the_inst cg a) td \<and> ty = comp_type (the_inst cg a) td"
  by (force simp: domain_components_def)

lemma domain_components_distinct:
  assumes "distinct (map fst (patterns cg))"
  shows "distinct (map snd (domain_components cg td))"
proof -
  have "distinct (map fst (filter P (patterns cg)))" for P
    using assms by (auto simp: distinct_map inj_on_def)
  moreover have "mset (map snd (domain_components cg td)) =
      mset (map fst (filter (\<lambda>x. isInTimeDomain (the_inst cg (fst x)) td) (patterns cg)))"
    by (simp add: domain_components_def comp_def image_mset.compositionality)
  ultimately show ?thesis using mset_eq_imp_distinct_iff by blast
qed

lemma domain_components_sorted: "sorted (map fst (domain_components cg td))"
  by (simp add: domain_components_def)


section \<open>The buffers of a domain\<close>

text \<open>The output ports of the domain, in the order of the components: slot \<open>k\<close> is buffer \<open>k\<close>.\<close>

definition component_slots :: "ComponentGraph \<Rightarrow> int \<Rightarrow> ComponentType \<times> string \<Rightarrow> (PatternInstance \<times> port_loc) list" where
  "component_slots cg td x = map (Pair (the_inst cg (snd x))) (td_ports PRODUCER (the_inst cg (snd x)) td)"

definition slots :: "ComponentGraph \<Rightarrow> int \<Rightarrow> (PatternInstance \<times> port_loc) list" where
  "slots cg td = concat (map (component_slots cg td) (domain_components cg td))"

definition slot_types :: "ComponentGraph \<Rightarrow> int \<Rightarrow> string list" where
  "slot_types cg td = map (\<lambda>(p, l). getDataType (port_inst_at (ports_of PRODUCER) p l)) (slots cg td)"

definition set_counts :: "nat \<Rightarrow> nat \<Rightarrow> gathered \<Rightarrow> gathered" where
  "set_counts x y s = s\<lparr>ga_async := x, ga_internal := y\<rparr>"

lemma gather_port_counts:
  "gather_port g p l (set_counts x y s) = bind_res (gather_port g p l s) (\<lambda>s'. Inr (set_counts x y s'))"
  by (cases s) (simp add: gather_port_def Let_def set_counts_def bind_res_assoc)

lemma gather_ports_counts:
  "fold_res (\<lambda>(p, l). gather_port g p l) xs (set_counts x y s) =
   bind_res (fold_res (\<lambda>(p, l). gather_port g p l) xs s) (\<lambda>s'. Inr (set_counts x y s'))"
proof (induction xs arbitrary: s)
  case (Cons z xs)
  have eq: "fold_res (\<lambda>(p, l). gather_port g p l) xs =
      (\<lambda>t. fold_res (\<lambda>(p, l). gather_port g p l) xs t)" by simp
  show ?case by (cases z) (simp add: gather_port_counts bind_res_assoc Cons.IH)
qed simp

definition count_type :: "ComponentType \<Rightarrow> (ComponentType \<times> string) list \<Rightarrow> nat" where
  "count_type ty L = length (filter (\<lambda>x. fst x = ty) L)"

lemma gather_components:
  assumes inst: "\<forall>x \<in> set L. inst_of cg (snd x) = Inr (the_inst cg (snd x)) \<and>
      pattern_ready (the_inst cg (snd x)) td"
  shows "fold_res (gather_component cg td) L s =
    bind_res (fold_res (\<lambda>(p, l). gather_port (graph_instance cg) p l)
      (concat (map (component_slots cg td) L)) s)
    (\<lambda>s'. Inr (set_counts (ga_async s + count_type ASYNC_SOURCE L)
      (ga_internal s + count_type INTERNAL_SYNC_SOURCE L) s'))"
  using inst
proof (induction L arbitrary: s)
  case Nil
  show ?case by (simp add: set_counts_def count_type_def)
next
  case (Cons x L)
  obtain ty a where x: "x = (ty, a)" by (cases x)
  let ?p = "the_inst cg a" and ?g = "graph_instance cg"
  from Cons.prems x have inst: "inst_of cg a = Inr ?p" "pattern_ready ?p td" by auto
  let ?s = "set_counts (ga_async s + (if ty = ASYNC_SOURCE then 1 else 0))
    (ga_internal s + (if ty = INTERNAL_SYNC_SOURCE then 1 else 0)) s"
  have map_pair: "fold_res (gather_port ?g p) ls t =
      fold_res (\<lambda>(p, l). gather_port ?g p l) (map (Pair p) ls) t" for p ls t
  proof (induction ls arbitrary: t)
    case (Cons l ls)
    then have "fold_res (gather_port ?g p) ls = fold_res (\<lambda>(p, l). gather_port ?g p l) (map (Pair p) ls)"
      by (rule ext)
    then show ?case by simp
  qed simp
  have comp: "gather_component cg td x s =
      fold_res (\<lambda>(p, l). gather_port ?g p l) (component_slots cg td x) ?s"
    by (simp add: x gather_component_def inst getProducerPorts_eq map_pair component_slots_def set_counts_def
        Let_def)
  have counts: "ga_async s' = ga_async t" "ga_internal s' = ga_internal t"
    if "fold_res (\<lambda>(p, l). gather_port ?g p l) ys t = Inr s'" for ys t s'
  proof -
    from that have "fold_res (\<lambda>(p, l). gather_port ?g p l) ys (set_counts (ga_async t) (ga_internal t) t) =
        Inr s'" by (simp add: set_counts_def)
    then show "ga_async s' = ga_async t" "ga_internal s' = ga_internal t"
      unfolding gather_ports_counts by (auto simp: set_counts_def)
  qed
  show ?case
  proof (cases "fold_res (\<lambda>(p, l). gather_port ?g p l) (component_slots cg td x) s")
    case (Inl e)
    then show ?thesis by (simp add: comp gather_ports_counts fold_res_append)
  next
    case (Inr s1)
    with counts have "ga_async s1 = ga_async s" "ga_internal s1 = ga_internal s" by blast+
    moreover have "set_counts x' y' (set_counts x y t) = set_counts x' y' t" for x' y' x y t
      by (simp add: set_counts_def)
    ultimately show ?thesis
      using Cons.IH [of "set_counts (ga_async s + (if ty = ASYNC_SOURCE then 1 else 0))
        (ga_internal s + (if ty = INTERNAL_SYNC_SOURCE then 1 else 0)) s1"] Cons.prems Inr
      by (simp add: comp gather_ports_counts fold_res_append bind_res_assoc)
        (simp add: set_counts_def count_type_def x)
  qed
qed

text \<open>What \<open>init\<close> relies on: a checked, runnable graph.\<close>

definition domain_graph_ok :: "ComponentGraph \<Rightarrow> int \<Rightarrow> bool" where
  "domain_graph_ok cg td \<longleftrightarrow> graph_inv (graph_instance cg) \<and> domain_ready cg td \<and>
     checkRunnable (graph_instance cg) = Inr None"

lemma domain_graph_okD:
  assumes "domain_graph_ok cg td"
  shows "graph_ok (graph_instance cg)" "well_typed (graph_instance cg)" "domain_ready cg td"
    "map_of (pattern_instances (graph_instance cg)) b = Some q \<Longrightarrow>
     m \<in> set (port_locs (ports_of CONSUMER) q) \<Longrightarrow>
     fed (graph_instance cg) (connected_to (port_inst_at (ports_of CONSUMER) q m))"
proof -
  from assms show g: "graph_ok (graph_instance cg)" "well_typed (graph_instance cg)" "domain_ready cg td"
    by (simp_all add: domain_graph_ok_def graph_inv_def)
  from assms checkRunnable_None [OF g(1)]
  show "map_of (pattern_instances (graph_instance cg)) b = Some q \<Longrightarrow>
     m \<in> set (port_locs (ports_of CONSUMER) q) \<Longrightarrow>
     fed (graph_instance cg) (connected_to (port_inst_at (ports_of CONSUMER) q m))"
    unfolding domain_graph_ok_def by blast
qed

lemma domain_component_inst:
  assumes ok: "domain_graph_ok cg td" and x: "x \<in> set (domain_components cg td)"
  shows "map_of (pattern_instances (graph_instance cg)) (snd x) = Some (the_inst cg (snd x))"
    "inst_of cg (snd x) = Inr (the_inst cg (snd x))" "pattern_ready (the_inst cg (snd x)) td"
    "fst x = comp_type (the_inst cg (snd x)) td" "isInTimeDomain (the_inst cg (snd x)) td"
    "pattern_instance_ok (the_inst cg (snd x))" "instance_id (the_inst cg (snd x)) = snd x"
proof -
  obtain ty a where xa: "x = (ty, a)" by (cases x)
  with x have a: "a \<in> fst ` set (patterns cg)" "isInTimeDomain (the_inst cg a) td"
    "ty = comp_type (the_inst cg a) td" by (auto simp: in_domain_components)
  note inst = domain_ready_inst [OF domain_graph_okD(1,3) [OF ok] a(1)]
  from inst a graph_okD(1,2) [OF domain_graph_okD(1) [OF ok] inst(1)] xa
  show "map_of (pattern_instances (graph_instance cg)) (snd x) = Some (the_inst cg (snd x))"
    "inst_of cg (snd x) = Inr (the_inst cg (snd x))" "pattern_ready (the_inst cg (snd x)) td"
    "fst x = comp_type (the_inst cg (snd x)) td" "isInTimeDomain (the_inst cg (snd x)) td"
    "pattern_instance_ok (the_inst cg (snd x))" "instance_id (the_inst cg (snd x)) = snd x" by simp_all
qed

lemma in_component_slots:
  "(p, l) \<in> set (component_slots cg td x) \<longleftrightarrow>
   p = the_inst cg (snd x) \<and> l \<in> set (td_ports PRODUCER p td)"
  by (auto simp: component_slots_def)

lemma slots_producers:
  assumes ok: "domain_graph_ok cg td" and y: "y \<in> set (slots cg td)"
  shows "producer_of (graph_instance cg) y"
proof -
  obtain p l where yp: "y = (p, l)" by (cases y)
  from y yp obtain x where x: "x \<in> set (domain_components cg td)" "(p, l) \<in> set (component_slots cg td x)"
    by (auto simp: slots_def)
  from domain_component_inst(1) [OF ok x(1)] x(2) yp show ?thesis
    unfolding in_component_slots by (auto simp: producer_of_def dest: in_td_ports)
qed

lemma slots_distinct:
  assumes ok: "domain_graph_ok cg td"
  shows "distinct (slots cg td)"
proof -
  have "distinct (concat (map (component_slots cg td) L))"
    if "distinct (map snd L)" "set L \<subseteq> set (domain_components cg td)" for L
    using that
  proof (induction L)
    case (Cons x L)
    have "distinct (component_slots cg td x)"
      by (simp add: component_slots_def distinct_map td_ports_distinct inj_on_def)
    moreover have "set (component_slots cg td x) \<inter> set (component_slots cg td y) = {}"
      if "y \<in> set L" for y
    proof -
      have "the_inst cg (snd x) \<noteq> the_inst cg (snd y)"
        using Cons.prems that domain_component_inst(7) [OF ok, of x] domain_component_inst(7) [OF ok, of y]
        by (metis distinct.simps(2) image_eqI list.set_intros(1) list.simps(9) list.set_map
            set_subset_Cons subsetD)
      then show ?thesis by (auto simp: component_slots_def)
    qed
    ultimately show ?case using Cons by fastforce
  qed simp
  with domain_components_distinct domain_graph_okD(3) [OF ok] show ?thesis
    by (simp add: slots_def domain_ready_def)
qed

lemma gather_eq:
  assumes ok: "domain_graph_ok cg td"
  shows "\<exists>idx. gather cg td (domain_components cg td) b =
      Inr \<lparr>ga_datatype = slot_types cg td, ga_index = idx,
           ga_async = count_async_sources b + count_type ASYNC_SOURCE (domain_components cg td),
           ga_internal = count_internal_sync_sources b +
             count_type INTERNAL_SYNC_SOURCE (domain_components cg td)\<rparr> \<and>
    (\<forall>j < length (slots cg td). \<forall>cid \<in> owned (graph_instance cg) (slots cg td ! j). map_of idx cid = Some j)"
proof -
  let ?s = "\<lparr>ga_datatype = [], ga_index = port_to_buffer_index b, ga_async = count_async_sources b,
        ga_internal = count_internal_sync_sources b\<rparr>"
  have "\<forall>y \<in> set (slots cg td). producer_of (graph_instance cg) y" using slots_producers [OF ok] by blast
  from gather_ports [OF domain_graph_okD(1) [OF ok] this slots_distinct [OF ok], of ?s]
  obtain idx where idx: "fold_res (\<lambda>(p, l). gather_port (graph_instance cg) p l) (slots cg td) ?s =
      Inr (?s\<lparr>ga_datatype := slot_types cg td, ga_index := idx\<rparr>)"
    "\<forall>j < length (slots cg td). \<forall>cid \<in> owned (graph_instance cg) (slots cg td ! j). map_of idx cid = Some j"
    by (auto simp: slot_types_def)
  have "\<forall>x \<in> set (domain_components cg td). inst_of cg (snd x) = Inr (the_inst cg (snd x)) \<and>
      pattern_ready (the_inst cg (snd x)) td" using domain_component_inst(2,3) [OF ok] by blast
  from gather_components [OF this, of ?s] idx(1)
  have "gather cg td (domain_components cg td) b =
      Inr (set_counts (count_async_sources b + count_type ASYNC_SOURCE (domain_components cg td))
        (count_internal_sync_sources b + count_type INTERNAL_SYNC_SOURCE (domain_components cg td))
        (?s\<lparr>ga_datatype := slot_types cg td, ga_index := idx\<rparr>))"
    by (simp add: gather_def slots_def)
  with idx(2) show ?thesis by (auto simp: set_counts_def)
qed

section \<open>Every port has its buffer\<close>

lemma producer_slot:
  assumes x: "x \<in> set (domain_components cg td)" and l: "l \<in> set (td_ports PRODUCER (the_inst cg (snd x)) td)"
  shows "\<exists>j < length (slots cg td). slots cg td ! j = (the_inst cg (snd x), l)"
proof -
  have "(the_inst cg (snd x), l) \<in> set (slots cg td)"
    using x l unfolding slots_def by (auto simp: component_slots_def)
  then show ?thesis by (auto simp: in_set_conv_nth)
qed

text \<open>The producer port a consumer port of the domain is connected to is in the domain.\<close>

lemma consumer_slot:
  assumes ok: "domain_graph_ok cg td" and x: "x \<in> set (domain_components cg td)"
    and m: "m \<in> set (td_ports CONSUMER (the_inst cg (snd x)) td)"
  shows "\<exists>j p l. j < length (slots cg td) \<and> slots cg td ! j = (p, l) \<and>
      connected_to (port_inst_at (ports_of CONSUMER) (the_inst cg (snd x)) m) = loc_id PRODUCER p l \<and>
      getDataType (port_inst_at (ports_of PRODUCER) p l) =
        getDataType (port_inst_at (ports_of CONSUMER) (the_inst cg (snd x)) m) \<and>
      loc_id CONSUMER (the_inst cg (snd x)) m \<in> owned (graph_instance cg) (p, l)"
proof -
  let ?q = "the_inst cg (snd x)" and ?g = "graph_instance cg"
  let ?port = "port_inst_at (ports_of CONSUMER) ?q m"
  note inst = domain_component_inst [OF ok x]
  have m': "m \<in> set (port_locs (ports_of CONSUMER) ?q)" using m by (rule in_td_ports)
  from domain_graph_okD(4) [OF ok inst(1) m'] have "connected_to ?port \<noteq> ([], [])"
    unfolding fed_def by (metis loc_id_nonempty(1))
  with domain_graph_okD(2) [OF ok] inst(1) m'
  have "feeds ?g (connected_to ?port) (getDataType ?port) (port_getTimeDomain ?q ?port)"
    unfolding well_typed_alt by blast
  then obtain a p l where p: "map_of (pattern_instances ?g) a = Some p"
    "l \<in> set (port_locs (ports_of PRODUCER) p)" "connected_to ?port = loc_id PRODUCER p l"
    "getDataType (port_inst_at (ports_of PRODUCER) p l) = getDataType ?port"
    "port_getTimeDomain p (port_inst_at (ports_of PRODUCER) p l) = port_getTimeDomain ?q ?port"
    unfolding feeds_def by blast
  have td: "port_getTimeDomain ?q ?port = Inr td" using m by (simp add: td_ports_def)
  with p have l: "l \<in> set (td_ports PRODUCER p td)" by (simp add: td_ports_def)
  from p(5) td have "port_getTimeDomain p (port_inst_at (ports_of PRODUCER) p l) = Inr td" by simp
  then have "td \<in> set (local_to_global_time_domain p)" by (auto simp: port_getTimeDomain_def)
  then have "isInTimeDomain p td" by (auto simp: isInTimeDomain_def list_ex_iff)
  moreover have "a \<in> fst ` set (patterns cg)"
    using domain_graph_okD(3) [OF ok] map_of_SomeD [OF p(1)] by (force simp: domain_ready_def)
  moreover have pa: "the_inst cg a = p" using p(1) by (simp add: the_inst_def)
  ultimately have "(comp_type p td, a) \<in> set (domain_components cg td)" by (simp add: in_domain_components)
  from producer_slot [OF this, of l] l pa obtain j where "j < length (slots cg td)" "slots cg td ! j = (p, l)"
    by auto
  moreover have "loc_id CONSUMER ?q m \<in> owned ?g (p, l)"
    unfolding owned_def using inst(1) m' p(3) by blast
  ultimately show ?thesis using p by (intro exI [of _ j] exI [of _ p] exI [of _ l]) simp
qed

section \<open>The configuration of a component\<close>

definition routed :: "ComponentGraph \<Rightarrow> int \<Rightarrow> (port_id, nat) omap \<Rightarrow> bool" where
  "routed cg td idx \<longleftrightarrow> (\<forall>j < length (slots cg td).
     \<forall>cid \<in> owned (graph_instance cg) (slots cg td ! j). map_of idx cid = Some j)"

definition entries :: "PortType \<Rightarrow> PatternInstance \<Rightarrow> int \<Rightarrow> (port_id, nat) omap \<Rightarrow> (int \<times> int) list" where
  "entries t p td idx = map (\<lambda>k. (int (the (map_of idx (loc_id t p (td_ports t p td ! k)))), int k))
     [0..<length (td_ports t p td)]"

lemma port_entries_fold:
  assumes "\<forall>l \<in> set ls. map_of idx (loc_id t p l) \<noteq> None \<and> loc_index t p l = Inr (i l)"
  shows "fold_res (port_entry t p) ls (es, idx) =
    Inr (es @ map (\<lambda>l. (int (the (map_of idx (loc_id t p l))), i l)) ls, idx)"
  using assms by (induction ls arbitrary: es) (auto simp: port_entry_def index_of_def)

lemma slot_indexed:
  assumes ok: "domain_graph_ok cg td" and r: "routed cg td idx" and x: "x \<in> set (domain_components cg td)"
    and t: "t \<in> {PRODUCER, CONSUMER}" and l: "l \<in> set (td_ports t (the_inst cg (snd x)) td)"
  shows "\<exists>j < length (slots cg td). map_of idx (loc_id t (the_inst cg (snd x)) l) = Some j"
proof (cases "t = PRODUCER")
  case True
  from producer_slot [OF x l [unfolded True]] obtain j where j: "j < length (slots cg td)"
    "slots cg td ! j = (the_inst cg (snd x), l)" by blast
  moreover have "loc_id PRODUCER (the_inst cg (snd x)) l \<in> owned (graph_instance cg) (slots cg td ! j)"
    by (simp add: j(2) owned_def)
  ultimately show ?thesis using r True unfolding routed_def by blast
next
  case False
  with t have "t = CONSUMER" by auto
  with consumer_slot [OF ok x, of l] l obtain j where "j < length (slots cg td)"
    "loc_id CONSUMER (the_inst cg (snd x)) l \<in> owned (graph_instance cg) (slots cg td ! j)"
    by (metis (no_types))
  with r \<open>t = CONSUMER\<close> show ?thesis unfolding routed_def by blast
qed

lemma entries_eq:
  assumes ok: "domain_graph_ok cg td" and r: "routed cg td idx" and x: "x \<in> set (domain_components cg td)"
    and t: "t \<in> {PRODUCER, CONSUMER}"
  shows "fold_res (port_entry t (the_inst cg (snd x))) (td_ports t (the_inst cg (snd x)) td) ([], idx) =
    Inr (entries t (the_inst cg (snd x)) td idx, idx)"
proof -
  let ?p = "the_inst cg (snd x)" and ?ls = "td_ports t (the_inst cg (snd x)) td"
  note inst = domain_component_inst [OF ok x]
  let ?i = "\<lambda>l. case loc_index t ?p l of Inr i \<Rightarrow> i | Inl e \<Rightarrow> 0"
  have index: "loc_index t ?p (?ls ! k) = Inr (int k)" if "k < length ?ls" for k
    using arg_cong [OF td_ports_index [OF inst(6,3) t], of "\<lambda>xs. xs ! k"] that by simp
  have "map_of idx (loc_id t ?p l) \<noteq> None \<and> loc_index t ?p l = Inr (?i l)" if "l \<in> set ?ls" for l
    using slot_indexed [OF ok r x t that] index that by (auto simp: in_set_conv_nth)
  then have "fold_res (port_entry t ?p) ?ls ([], idx) =
      Inr (map (\<lambda>l. (int (the (map_of idx (loc_id t ?p l))), ?i l)) ?ls, idx)"
    using port_entries_fold [of ?ls idx t ?p ?i "[]"] by simp
  also have "map (\<lambda>l. (int (the (map_of idx (loc_id t ?p l))), ?i l)) ?ls = entries t ?p td idx"
    by (rule nth_equalityI) (auto simp: entries_def index)
  finally show ?thesis .
qed

lemma entries_ports_ok:
  assumes ok: "domain_graph_ok cg td" and r: "routed cg td idx" and x: "x \<in> set (domain_components cg td)"
    and t: "t \<in> {PRODUCER, CONSUMER}"
  shows "ports_ok (length (slots cg td)) (entries t (the_inst cg (snd x)) td idx)"
proof -
  let ?ls = "td_ports t (the_inst cg (snd x)) td"
  have "the (map_of idx (loc_id t (the_inst cg (snd x)) (?ls ! k))) < length (slots cg td)"
    if "k < length ?ls" for k
    using slot_indexed [OF ok r x t, of "?ls ! k"] that by auto
  moreover have "distinct (map int [0..<length ?ls])" by (simp add: distinct_map)
  ultimately show ?thesis by (auto simp: ports_ok_def entries_def comp_def)
qed

section \<open>Group configurations\<close>

lemma getPortGroupOffset_total:
  assumes "pattern_instance_ok p" and "t \<noteq> PT_NONE" and "g < length (inst_port_groups p)"
  shows "\<exists>r. getPortGroupOffset p (int g) t td = Inr r"
proof (cases "inst_port_groups p ! g")
  case Nil
  with assms(3) show ?thesis by (simp add: getPortGroupOffset_def raw_get_int)
next
  case (Cons gi gis)
  then have "inst_port_groups p ! g \<noteq> []" by simp
  from getPortGroupOffset_eq [OF assms this] show ?thesis by blast
qed

lemma group_configs_prefix:
  assumes pok: "pattern_instance_ok p" and t: "t \<noteq> PT_NONE"
    and n: "n \<le> length (port_groups (local_pattern p))"
  shows "\<exists>cs. fold_res (\<lambda>pg configs. bind_res (group_config p (pg_group_index pg) t td) (\<lambda>c.
         raw_set configs (pg_group_index pg) c)) (take n (port_groups (local_pattern p)))
       (replicate (length (port_groups (local_pattern p))) default_group_config) = Inr cs \<and>
     length cs = length (port_groups (local_pattern p)) \<and>
     (\<forall>g < n. group_config p (int g) t td = Inr (cs ! g))"
  using n
proof (induction n)
  case (Suc n)
  note okD = pattern_instance_okD [OF pok]
  from Suc obtain cs where cs: "fold_res (\<lambda>pg configs. bind_res (group_config p (pg_group_index pg) t td)
      (\<lambda>c. raw_set configs (pg_group_index pg) c)) (take n (port_groups (local_pattern p)))
       (replicate (length (port_groups (local_pattern p))) default_group_config) = Inr cs"
     "length cs = length (port_groups (local_pattern p))"
     "\<forall>g < n. group_config p (int g) t td = Inr (cs ! g)" by auto
  from Suc.prems okD(3) have n: "n < length (inst_port_groups p)" "n < length (port_groups (local_pattern p))"
    by simp_all
  have idx: "pg_group_index (port_groups (local_pattern p) ! n) = int n"
    by (rule group_index_at [OF okD(1) n(2)])
  from getPortGroupOffset_total [OF pok t n(1), of td] obtain r where
    "getPortGroupOffset p (int n) t td = Inr r" by blast
  then obtain c where c: "group_config p (int n) t td = Inr c"
    by (cases r) (simp add: group_config_def)
  show ?case
    by (rule exI [of _ "cs[n := c]"])
      (use cs c n idx in \<open>auto simp: take_Suc_conv_app_nth fold_res_append raw_set_int less_Suc_eq nth_list_update\<close>)
qed simp

lemma group_configs_ok:
  assumes "pattern_instance_ok p" and "t \<noteq> PT_NONE"
  shows "\<exists>cs. group_configs p t td = Inr cs \<and> length cs = length (port_groups (local_pattern p)) \<and>
     (\<forall>g < length cs. group_config p (int g) t td = Inr (cs ! g))"
  using group_configs_prefix [OF assms, of "length (port_groups (local_pattern p))" td]
  by (auto simp: group_configs_def)

definition the_group_configs :: "PatternInstance \<Rightarrow> PortType \<Rightarrow> int \<Rightarrow> PortGroupConfig list" where
  "the_group_configs p t td = (case group_configs p t td of Inl e \<Rightarrow> [] | Inr cs \<Rightarrow> cs)"

definition the_config :: "ComponentGraph \<Rightarrow> int \<Rightarrow> (port_id, nat) omap \<Rightarrow> ComponentType \<times> string \<Rightarrow> BufferConfig" where
  "the_config cg td idx x =
     (let p = the_inst cg (snd x)
      in \<lparr>component_type = fst x, bc_instance_id = snd x,
          buffer_to_port_input = entries CONSUMER p td idx,
          port_group_config_input = the_group_configs p CONSUMER td,
          buffer_to_port_output = entries PRODUCER p td idx,
          port_group_config_output = the_group_configs p PRODUCER td\<rparr>)"

lemma component_config_eq:
  assumes ok: "domain_graph_ok cg td" and r: "routed cg td idx" and x: "x \<in> set (domain_components cg td)"
  shows "component_config (the_inst cg (snd x)) td idx = Inr (the_config cg td idx x, idx)"
proof -
  note inst = domain_component_inst [OF ok x]
  have groups: "group_configs (the_inst cg (snd x)) t td = Inr (the_group_configs (the_inst cg (snd x)) t td)"
    if "t \<noteq> PT_NONE" for t
    using group_configs_ok [OF inst(6) that, of td] by (auto simp: the_group_configs_def)
  show ?thesis
    using entries_eq [OF ok r x, of PRODUCER] entries_eq [OF ok r x, of CONSUMER]
      getProducerPorts_eq [OF inst(3)] getConsumerPorts_eq [OF inst(3)] pattern_readyD(1) [OF inst(3)]
    by (simp add: component_config_def groups the_config_def Let_def inst(4,7))
qed

lemma emplace_end: "(\<forall>x \<in> fst ` set m. x < k) \<Longrightarrow> emplace k v m = m @ [(k, v)]"
  by (induction k v m rule: emplace.induct) auto

lemma indexed_snoc: "indexed (cs @ [c]) = indexed cs @ [(int (length cs), c)]"
  by (auto simp: indexed_def nth_append intro: map_cong)

lemma create_configs_eq:
  assumes ok: "domain_graph_ok cg td" and r: "routed cg td idx"
  shows "create_configs cg td (domain_components cg td) [] idx =
    Inr (indexed (map (the_config cg td idx) (domain_components cg td)), idx)"
proof -
  have "fold_res (\<lambda>(type, a) (component_idx, configs, index).
         bind_res (inst_of cg a) (\<lambda>p.
         bind_res (component_config p td index) (\<lambda>(config, index').
         Inr (component_idx + 1, emplace component_idx config configs, index')))) L (0::int, [], idx) =
      Inr (int (length L), indexed (map (the_config cg td idx) L), idx)"
    if "set L \<subseteq> set (domain_components cg td)" for L
    using that
  proof (induction L rule: rev_induct)
    case Nil
    show ?case by (simp add: indexed_def)
  next
    case (snoc x L)
    obtain ty a where xa: "x = (ty, a)" by (cases x)
    from snoc.prems have x: "x \<in> set (domain_components cg td)" by simp
    from component_config_eq [OF ok r x] domain_component_inst(2) [OF ok x] xa
    have "inst_of cg a = Inr (the_inst cg a)"
      "component_config (the_inst cg a) td idx = Inr (the_config cg td idx x, idx)" by simp_all
    moreover have "emplace (int (length L)) c (indexed (map (the_config cg td idx) L)) =
        indexed (map (the_config cg td idx) L) @ [(int (length L), c)]" for c
      by (rule emplace_end) (auto simp: indexed_def)
    ultimately show ?case using snoc xa by (simp add: fold_res_append indexed_snoc)
  qed
  then show ?thesis by (simp add: create_configs_def)
qed

section \<open>Objects and time steps\<close>

lemma createObject_lengths:
  assumes "length (data_buffer b) = length (data_name b)" "length (header_buffer b) = length (data_name b)"
  shows "length (data_buffer (fst (snd (db_createObject n (b, h))))) =
      length (data_name (fst (snd (db_createObject n (b, h))))) \<and>
    length (header_buffer (fst (snd (db_createObject n (b, h))))) =
      length (data_name (fst (snd (db_createObject n (b, h)))))"
  using assms by (auto simp: db_createObject_def heap_new_def split: option.splits)

lemma createObjects_lengths:
  assumes "length (data_buffer b) = length (data_name b)" "length (header_buffer b) = length (data_name b)"
  shows "length (data_buffer (fst (db_createObjects ns (b, h)))) = length (data_name (fst (db_createObjects ns (b, h)))) \<and>
    length (header_buffer (fst (db_createObjects ns (b, h)))) = length (data_name (fst (db_createObjects ns (b, h))))"
  using assms
proof (induction ns arbitrary: b h)
  case (Cons n ns)
  obtain b' h' where s: "snd (db_createObject n (b, h)) = (b', h')" by (cases "snd (db_createObject n (b, h))")
  have "db_createObjects (n # ns) (b, h) = db_createObjects ns (b', h')" by (simp add: db_createObjects_def s)
  with Cons.IH [of b' h'] createObject_lengths [OF Cons.prems, of n h] s show ?case by simp
qed (simp add: db_createObjects_def)

definition holds_types :: "string list \<Rightarrow> DataBuffer \<Rightarrow> bool" where
  "holds_types types d \<longleftrightarrow> data_name d = types \<and> length (data_buffer d) = length types \<and>
     length (header_buffer d) = length types"

lemma createObjects_holds:
  assumes "set types \<subseteq> set fs"
  shows "holds_types types (fst (db_createObjects types (DataBuffer_init fs, h)))"
proof -
  have "filter (\<lambda>n. n \<in> dom (map_of (type_name_to_factory (DataBuffer_init fs)))) types = types"
    using assms by (auto simp: factory_dom intro: filter_True)
  then have "data_name (fst (db_createObjects types (DataBuffer_init fs, h))) = types"
    by (simp add: db_createObjects_types) (simp add: DataBuffer_init_def)
  moreover have "length (data_buffer (DataBuffer_init fs)) = length (data_name (DataBuffer_init fs))"
    "length (header_buffer (DataBuffer_init fs)) = length (data_name (DataBuffer_init fs))"
    by (simp_all add: DataBuffer_init_def)
  ultimately show ?thesis using createObjects_lengths [of "DataBuffer_init fs" types h]
    by (simp add: holds_types_def)
qed

lemma create_data_holds:
  assumes "set types \<subseteq> set fs"
  shows "length (fst (create_data fs types n ([], h))) = n \<and>
    (\<forall>d \<in> set (fst (create_data fs types n ([], h))). holds_types types d)"
proof (induction n)
  case (Suc n)
  obtain data h' where s: "create_data fs types n ([], h) = (data, h')"
    by (cases "create_data fs types n ([], h)")
  then have "fst (create_data fs types (Suc n) ([], h)) =
      data @ [fst (db_createObjects types (DataBuffer_init fs, h'))]"
    by (simp add: create_data_def split: prod.splits)
  with Suc s createObjects_holds [OF assms, of h'] show ?case by auto
qed (simp add: create_data_def)

definition step_built :: "int \<Rightarrow> BufferConfig list \<Rightarrow> DataBuffer \<Rightarrow> TimeStepBuffer \<Rightarrow> bool" where
  "step_built td cs d t \<longleftrightarrow> tsb_ok t \<and> buffer_data t = data_buffer d \<and> header_data t = header_buffer d \<and>
     length (component_buffers_list t) = length cs \<and>
     (\<forall>k < length cs. createComponentBuffer t (cs ! k) k = Inr (component_buffers_list t ! k)) \<and>
     source_buffer_list t = map SourceComponentBuffer_init (source_indices cs) \<and>
     (\<forall>s \<in> set (buffer_valid t). s = PS_INVALID) \<and>
     (distinct (map bc_instance_id cs) \<longrightarrow>
       (\<forall>k < length cs. getComponentIndex t (bc_instance_id (cs ! k)) = Inr k))"

lemma create_time_steps_ok:
  assumes cs: "\<forall>c \<in> set cs. config_ok (length types) c" and data: "\<forall>d \<in> set data. holds_types types d"
    and n: "n \<le> length data"
  shows "\<exists>steps. create_time_steps td n data (indexed cs) [] = Inr steps \<and> length steps = n \<and>
    (\<forall>i < n. step_built td cs (data ! i) (steps ! i))"
  using n
proof (induction n)
  case (Suc n)
  then obtain steps where steps: "create_time_steps td n data (indexed cs) [] = Inr steps" "length steps = n"
    "\<forall>i < n. step_built td cs (data ! i) (steps ! i)" by auto
  from Suc.prems data have h: "holds_types types (data ! n)" by simp
  then have len: "length (header_buffer (data ! n)) = length (data_buffer (data ! n))"
    and dl: "length (data_buffer (data ! n)) = length types" by (simp_all add: holds_types_def)
  have "\<forall>c \<in> set cs. config_ok (length (data_buffer (data ! n))) c" using cs by (simp only: dl)
  from TimeStepBuffer_init_ok [OF len this, of n td] obtain t where
    t: "TimeStepBuffer_init n (data_buffer (data ! n)) (header_buffer (data ! n)) (indexed cs) td = Inr t"
    "step_built td cs (data ! n) t" unfolding step_built_def by blast
  have "create_time_steps td (Suc n) data (indexed cs) [] = Inr (steps @ [t])"
    using steps(1) t(1) Suc.prems by (simp add: create_time_steps_def fold_res_append raw_get_int)
  with steps(2,3) t(2) show ?case
    by (intro exI [of _ "steps @ [t]"]) (auto simp: nth_append less_Suc_eq)
qed (simp add: create_time_steps_def)

lemma source_indices_length:
  "length (source_indices cs) = length (filter (\<lambda>c. is_source_type (component_type c)) cs)"
proof -
  have "length (filter (\<lambda>i. is_source_type (component_type (cs ! i))) [0..<length cs]) =
      length (map (\<lambda>i. cs ! i) (filter (\<lambda>i. is_source_type (component_type (cs ! i))) [0..<length cs]))"
    by simp
  also have "\<dots> = length (filter (\<lambda>c. is_source_type (component_type c)) cs)"
    using filter_positions [of "\<lambda>c. c" cs "\<lambda>c. is_source_type (component_type c)"] by simp
  finally show ?thesis by (simp add: source_indices_def)
qed

lemma sources_counted:
  "length (filter (\<lambda>c. is_source_type (component_type c)) (map (the_config cg td idx) L)) =
   count_type ASYNC_SOURCE L + count_type INTERNAL_SYNC_SOURCE L"
  by (induction L) (auto simp: count_type_def the_config_def Let_def is_source_type_def)

section \<open>init\<close>

lemma entries_nth:
  "k < length (td_ports t p td) \<Longrightarrow>
   (int (the (map_of idx (loc_id t p (td_ports t p td ! k)))), int k) \<in> set (entries t p td idx)"
  by (auto simp: entries_def)

definition domain_config :: "ComponentGraph \<Rightarrow> int \<Rightarrow> TimeDomainManagerConfig" where
  "domain_config cg td = getTimeDomainConfig cg (unat (word_of_int td :: 64 word))"

lemma tdb_init_ok:
  assumes ok: "domain_graph_ok cg td" and types: "set (slot_types cg td) \<subseteq> set factories"
  shows "\<exists>b h' idx. tdb_init factories cg (TimeDomainBuffer_init td, h) = Inr (b, h') \<and>
    routed cg td idx \<and> tdb_config b = domain_config cg td \<and> tdb_time_domain b = td \<and>
    buffer_config b = indexed (map (the_config cg td idx) (domain_components cg td)) \<and>
    length (time_step_buffer b) = ringbuffer_size (domain_config cg td) \<and>
    length (tdb_data_buffer b) = ringbuffer_size (domain_config cg td) \<and>
    getCountSources b = count_type ASYNC_SOURCE (domain_components cg td) +
      count_type INTERNAL_SYNC_SOURCE (domain_components cg td) \<and> steps_ok b \<and>
    (\<forall>i < ringbuffer_size (domain_config cg td). holds_types (slot_types cg td) (tdb_data_buffer b ! i) \<and>
       step_built td (map (the_config cg td idx) (domain_components cg td))
         (tdb_data_buffer b ! i) (time_step_buffer b ! i))"
proof -
  let ?b = "TimeDomainBuffer_init td" and ?L = "domain_components cg td" and ?c = "domain_config cg td"
  let ?n = "ringbuffer_size ?c"
  from gather_eq [OF ok, of ?b] obtain idx where g: "gather cg td ?L ?b =
      Inr \<lparr>ga_datatype = slot_types cg td, ga_index = idx, ga_async = count_type ASYNC_SOURCE ?L,
           ga_internal = count_type INTERNAL_SYNC_SOURCE ?L\<rparr>" and r: "routed cg td idx"
    by (auto simp: TimeDomainBuffer_init_def routed_def)
  let ?cs = "map (the_config cg td idx) ?L"
  obtain data h' where d: "create_data factories (slot_types cg td) ?n ([], h) = (data, h')"
    by (cases "create_data factories (slot_types cg td) ?n ([], h)")
  with create_data_holds [OF types, of ?n h] have data: "length data = ?n"
    "\<forall>d \<in> set data. holds_types (slot_types cg td) d" by auto
  have cs: "\<forall>c \<in> set ?cs. config_ok (length (slot_types cg td)) c"
    using entries_ports_ok [OF ok r] by (auto simp: config_ok_def the_config_def Let_def slot_types_def)
  from create_time_steps_ok [OF cs data(2), of ?n td] data(1) obtain steps where
    steps: "create_time_steps td ?n data (indexed ?cs) [] = Inr steps" "length steps = ?n"
    "\<forall>i < ?n. step_built td ?cs (data ! i) (steps ! i)" by auto
  let ?b' = "?b\<lparr>tdb_config := ?c, count_async_sources := count_type ASYNC_SOURCE ?L,
    count_internal_sync_sources := count_type INTERNAL_SYNC_SOURCE ?L, tdb_data_buffer := data,
    buffer_config := indexed ?cs, port_to_buffer_index := idx, time_step_buffer := steps\<rparr>"
  have "tdb_init factories cg (?b, h) = Inr (?b', h')"
    using ordered_components_eq [OF domain_graph_okD(1,3) [OF ok]] g d steps(1) create_configs_eq [OF ok r]
    by (simp add: tdb_init_def Let_def TimeDomainBuffer_init_def domain_config_def)
  moreover have count: "getCountSources ?b' = count_type ASYNC_SOURCE ?L + count_type INTERNAL_SYNC_SOURCE ?L"
    by (simp add: getCountSources_def getCountAsyncSources_def getCountInternalSyncSources_def)
  moreover have "length (source_indices ?cs) = count_type ASYNC_SOURCE ?L + count_type INTERNAL_SYNC_SOURCE ?L"
    by (simp only: source_indices_length sources_counted)
  then have "steps_ok ?b'"
    using steps(2,3) count by (auto simp: steps_ok_def step_built_def dest!: in_set_conv_nth [THEN iffD1])
  moreover have "\<forall>i < ?n. holds_types (slot_types cg td) (data ! i)" using data by simp
  ultimately show ?thesis using r steps data
    by (intro exI [of _ ?b'] exI [of _ h'] exI [of _ idx]) (simp add: TimeDomainBuffer_init_def)
qed

text \<open>A component type that no factory of the plugins knows shifts the buffers after it.\<close>

lemma createObjects_unknown:
  assumes "n \<notin> set fs"
  shows "data_name (fst (db_createObjects (n # ns) (DataBuffer_init fs, h))) = filter (\<lambda>n. n \<in> set fs) ns"
  using assms by (simp add: db_createObjects_types factory_dom) (simp add: DataBuffer_init_def)

end
