(* ===== verification/TaskGraphOk.thy ===== *)
theory TaskGraphOk
  imports Tasks DomainInitOk
begin

text \<open>
  What the builders of \<open>Tasks\<close> construct. The dependencies of a store of tasks are a relation between
  task pointers, kept in both directions: \<open>links\<close> from the successor sets, \<open>back_links\<close> from the
  predecessor sets, and the same for dependencies between time steps. \<open>grows\<close> states what a building
  step adds. The result for \<open>ComponentGraphBuilder\<close> is \<open>component_graph_built\<close>.
\<close>

section \<open>The dependency relation\<close>

definition links :: "task_store \<Rightarrow> (task_ptr \<times> task_ptr) set" where
  "links s = {(p, q). p < length s \<and> q \<in> set (successors (s ! p))}"

definition back_links :: "task_store \<Rightarrow> (task_ptr \<times> task_ptr) set" where
  "back_links s = {(p, q). q < length s \<and> p \<in> set (predecessors (s ! q))}"

definition later_links :: "task_store \<Rightarrow> (task_ptr \<times> task_ptr) set" where
  "later_links s = {(p, q). p < length s \<and> q \<in> set (successorsInterTimeStep (s ! p))}"

definition later_back_links :: "task_store \<Rightarrow> (task_ptr \<times> task_ptr) set" where
  "later_back_links s = {(p, q). q < length s \<and> p \<in> set (predecessorsInterTimeStep (s ! q))}"

lemmas links_defs = links_def back_links_def later_links_def later_back_links_def

lemma on_task_length [simp]: "length (on_task t f s) = length s"
  by (simp add: on_task_def)

lemma on_task_nth: "i < length s \<Longrightarrow> on_task t f s ! i = (if i = t then f (s ! i) else s ! i)"
  by (simp add: on_task_def nth_list_update)

lemma task_ops_length [simp]:
  "length (task_precede p q s) = length s" "length (task_succeed p q s) = length s"
  "length (precedeInterTimeStep p q s) = length s" "length (succeedInterTimeStep p q s) = length s"
  by (simp_all add: task_precede_def task_succeed_def precedeInterTimeStep_def
      succeedInterTimeStep_def Let_def)

text \<open>The two directions of an edge are the same operation.\<close>

lemma on_task_swap:
  assumes "\<And>x. f (g x) = g (f x)"
  shows "on_task p f (on_task q g s) = on_task q g (on_task p f s)"
  using assms by (intro nth_equalityI) (auto simp: on_task_nth)

lemma task_succeed_eq: "task_succeed p q = task_precede q p"
  unfolding fun_eq_iff task_succeed_def task_precede_def Let_def by (intro allI on_task_swap) simp

lemma succeedInterTimeStep_eq: "succeedInterTimeStep p q = precedeInterTimeStep q p"
  unfolding fun_eq_iff succeedInterTimeStep_def precedeInterTimeStep_def Let_def
  by (intro allI on_task_swap) simp

text \<open>
  Both kinds of dependency follow the same laws: adding an edge adds it to the relation read forwards
  and to the one read backwards, so the two directions never disagree.
\<close>

locale wiring =
  fixes add :: "'p \<Rightarrow> 'p \<Rightarrow> 's \<Rightarrow> 's" and fwd :: "'s \<Rightarrow> ('p \<times> 'p) set" and bwd :: "'s \<Rightarrow> ('p \<times> 'p) set"
    and ptr :: "'s \<Rightarrow> 'p set"
  assumes fwd_add: "p \<in> ptr s \<Longrightarrow> q \<in> ptr s \<Longrightarrow> fwd (add p q s) = insert (p, q) (fwd s)"
    and bwd_add: "p \<in> ptr s \<Longrightarrow> q \<in> ptr s \<Longrightarrow> bwd (add p q s) = insert (p, q) (bwd s)"
    and ptr_add: "ptr (add p q s) = ptr s"
begin

definition wired :: "'s \<Rightarrow> bool" where
  "wired s \<longleftrightarrow> fwd s = bwd s \<and> fwd s \<subseteq> ptr s \<times> ptr s"

lemma ptr_fold: "ptr (fold (\<lambda>(p, q). add p q) es s) = ptr s"
  by (induction es arbitrary: s) (auto simp: ptr_add)

lemma fwd_fold:
  "set es \<subseteq> ptr s \<times> ptr s \<Longrightarrow> fwd (fold (\<lambda>(p, q). add p q) es s) = fwd s \<union> set es"
  by (induction es arbitrary: s) (auto simp: ptr_add fwd_add)

lemma wired_add: "wired s \<Longrightarrow> p \<in> ptr s \<Longrightarrow> q \<in> ptr s \<Longrightarrow> wired (add p q s)"
  by (auto simp: wired_def fwd_add bwd_add ptr_add)

lemma wired_fold: "wired s \<Longrightarrow> set es \<subseteq> ptr s \<times> ptr s \<Longrightarrow> wired (fold (\<lambda>(p, q). add p q) es s)"
  by (induction es arbitrary: s) (auto simp: ptr_add wired_add)

end

definition pointers :: "task_store \<Rightarrow> task_ptr set" where
  "pointers s = {..<length s}"

lemma links_precede:
  assumes "p < length s" and "q < length s"
  shows "links (task_precede p q s) = insert (p, q) (links s)"
    and "back_links (task_precede p q s) = insert (p, q) (back_links s)"
    and "later_links (task_precede p q s) = later_links s"
    and "later_back_links (task_precede p q s) = later_back_links s"
  using assms by (auto simp: links_defs task_precede_def Let_def on_task_nth split: if_splits)

lemma links_precedeInter:
  assumes "p < length s" and "q < length s"
  shows "links (precedeInterTimeStep p q s) = links s"
    and "back_links (precedeInterTimeStep p q s) = back_links s"
    and "later_links (precedeInterTimeStep p q s) = insert (p, q) (later_links s)"
    and "later_back_links (precedeInterTimeStep p q s) = insert (p, q) (later_back_links s)"
  using assms by (auto simp: links_defs precedeInterTimeStep_def Let_def on_task_nth split: if_splits)

interpretation strong: wiring task_precede links back_links pointers
  by unfold_locales (auto simp: pointers_def links_precede)

interpretation later: wiring precedeInterTimeStep later_links later_back_links pointers
  by unfold_locales (auto simp: pointers_def links_precedeInter)

lemma kinds_precede:
  "map kind (task_precede p q s) = map kind s" "map kind (precedeInterTimeStep p q s) = map kind s"
  by (auto intro!: nth_equalityI simp: task_precede_def precedeInterTimeStep_def Let_def on_task_nth)

section \<open>What a building step adds\<close>

definition grows ::
    "TraactGraph \<Rightarrow> TraactGraph \<Rightarrow> (task_ptr \<times> task_ptr) set \<Rightarrow> (task_ptr \<times> task_ptr) set \<Rightarrow> bool" where
  "grows g g' E I \<longleftrightarrow>
     tasks g' = tasks g \<and> task_data g' = task_data g \<and>
     map kind (task_store g') = map kind (task_store g) \<and>
     links (task_store g') = links (task_store g) \<union> E \<and>
     back_links (task_store g') = back_links (task_store g) \<union> E \<and>
     later_links (task_store g') = later_links (task_store g) \<union> I \<and>
     later_back_links (task_store g') = later_back_links (task_store g) \<union> I"

lemma grows_refl: "grows g g {} {}"
  by (simp add: grows_def)

lemma grows_trans: "grows g g' E I \<Longrightarrow> grows g' g'' E' I' \<Longrightarrow> grows g g'' (E \<union> E') (I \<union> I')"
  by (auto simp: grows_def)

lemma grows_length: "grows g g' E I \<Longrightarrow> length (task_store g') = length (task_store g)"
  by (metis grows_def length_map)

lemma grows_precede:
  "p < length (task_store g) \<Longrightarrow> q < length (task_store g) \<Longrightarrow>
   grows g (on_store (task_precede p q) g) {(p, q)} {}"
  by (simp add: grows_def on_store_def links_precede kinds_precede)

lemma grows_precedeInter:
  "p < length (task_store g) \<Longrightarrow> q < length (task_store g) \<Longrightarrow>
   grows g (on_store (precedeInterTimeStep p q) g) {} {(p, q)}"
  by (simp add: grows_def on_store_def links_precedeInter kinds_precede)

text \<open>A loop of building steps adds what its iterations add.\<close>

lemma grows_fold:
  assumes step: "\<And>x h. x \<in> set xs \<Longrightarrow> tasks h = tasks g \<Longrightarrow>
      length (task_store h) = length (task_store g) \<Longrightarrow>
      map kind (task_store h) = map kind (task_store g) \<Longrightarrow> \<exists>h'. f x h = Inr h' \<and> grows h h' (E x) (I x)"
  shows "\<exists>g'. fold_res f xs g = Inr g' \<and> grows g g' (\<Union>x \<in> set xs. E x) (\<Union>x \<in> set xs. I x)"
  using assms
proof (induction xs arbitrary: g)
  case Nil
  then show ?case by (simp add: grows_refl)
next
  case (Cons x xs)
  from Cons.prems [of x g] obtain h where h: "f x g = Inr h" "grows g h (E x) (I x)" by auto
  then have same: "tasks h = tasks g" "length (task_store h) = length (task_store g)"
    "map kind (task_store h) = map kind (task_store g)"
    by (auto simp: grows_def grows_length [OF h(2)])
  have "\<exists>g'. fold_res f xs h = Inr g' \<and> grows h g' (\<Union>x \<in> set xs. E x) (\<Union>x \<in> set xs. I x)"
    by (rule Cons.IH) (use Cons.prems same in auto)
  then obtain g' where g': "fold_res f xs h = Inr g'"
    "grows h g' (\<Union>x \<in> set xs. E x) (\<Union>x \<in> set xs. I x)" by blast
  from grows_trans [OF h(2) g'(2)] h(1) g'(1) show ?case by auto
qed

section \<open>ComponentGraphBuilder\<close>

text \<open>
  The tasks of the domain are numbered as the set of components is iterated. A component precedes
  every component that reads one of its outputs, and the first asynchronous source precedes every
  synchronous one.
\<close>

definition task_kind_of :: "ComponentGraph \<Rightarrow> int \<Rightarrow> string \<times> component_ptr \<Rightarrow> task_kind" where
  "task_kind_of cg td x =
     (if is_source_type (comp_type (the_inst cg (fst x)) td) then SourceTask (fst x) (snd x)
      else ComponentTask (fst x) (snd x))"

definition flow_edges :: "ComponentGraph \<Rightarrow> int \<Rightarrow> (string \<times> string) set" where
  "flow_edges cg td = {(a, b). a \<in> fst ` set (td_components cg td) \<and> b \<in> fst ` set (td_components cg td) \<and>
     (\<exists>l \<in> set (td_ports PRODUCER (the_inst cg a) td). \<exists>m \<in> set (td_ports CONSUMER (the_inst cg b) td).
        connected_to (port_inst_at (ports_of CONSUMER) (the_inst cg b) m) =
        loc_id PRODUCER (the_inst cg a) l)}"

definition first_async :: "ComponentGraph \<Rightarrow> int \<Rightarrow> string option" where
  "first_async cg td = map_option fst
     (List.find (\<lambda>x. comp_type (the_inst cg (fst x)) td = ASYNC_SOURCE) (td_components cg td))"

definition sync_edges :: "ComponentGraph \<Rightarrow> int \<Rightarrow> (string \<times> string) set" where
  "sync_edges cg td = {(s, b). first_async cg td = Some s \<and> b \<in> fst ` set (td_components cg td) \<and>
     comp_type (the_inst cg b) td = SYNC_SOURCE}"

definition serial_components :: "ComponentGraph \<Rightarrow> int \<Rightarrow> string set" where
  "serial_components cg td = {a \<in> fst ` set (td_components cg td).
     getConcurrency (the_inst cg a) td = Inr SERIAL}"

text \<open>
  What the builder needs of the domain: a runnable graph, a concurrency for every component of the
  domain, a buffer for its sources, and an asynchronous source if there is a synchronous one.
\<close>

definition builder_ready :: "ComponentGraph \<Rightarrow> int \<Rightarrow> TimeDomainBuffer \<Rightarrow> bool" where
  "builder_ready cg td b \<longleftrightarrow> domain_graph_ok cg td \<and>
     (\<forall>x \<in> set (td_components cg td). is_ok (getConcurrency (the_inst cg (fst x)) td) \<and>
        (is_source_type (comp_type (the_inst cg (fst x)) td) \<longrightarrow> is_ok (tdb_getComponentIndex b (fst x)))) \<and>
     ((\<exists>x \<in> set (td_components cg td). comp_type (the_inst cg (fst x)) td = SYNC_SOURCE) \<longrightarrow>
      first_async cg td \<noteq> None)"

lemma builder_readyD:
  assumes "builder_ready cg td b"
  shows "domain_graph_ok cg td"
    and "x \<in> set (td_components cg td) \<Longrightarrow> is_ok (getConcurrency (the_inst cg (fst x)) td)"
    and "x \<in> set (td_components cg td) \<Longrightarrow> is_source_type (comp_type (the_inst cg (fst x)) td) \<Longrightarrow>
      is_ok (tdb_getComponentIndex b (fst x))"
    and "x \<in> set (td_components cg td) \<Longrightarrow> comp_type (the_inst cg (fst x)) td = SYNC_SOURCE \<Longrightarrow>
      first_async cg td \<noteq> None"
  using assms by (auto simp: builder_ready_def)

lemma td_component_inst:
  assumes ok: "domain_graph_ok cg td" and x: "x \<in> set (td_components cg td)"
  shows "map_of (pattern_instances (graph_instance cg)) (fst x) = Some (the_inst cg (fst x))"
    "inst_of cg (fst x) = Inr (the_inst cg (fst x))" "pattern_ready (the_inst cg (fst x)) td"
    "instance_id (the_inst cg (fst x)) = fst x"
    "getComponentType (the_inst cg (fst x)) td = Inr (comp_type (the_inst cg (fst x)) td)"
    "comp_type (the_inst cg (fst x)) td \<noteq> CT_INVALID"
proof -
  note g = domain_graph_okD(1,3) [OF ok]
  from x have a: "fst x \<in> fst ` set (patterns cg)" by (auto simp: td_components_def)
  show i: "map_of (pattern_instances (graph_instance cg)) (fst x) = Some (the_inst cg (fst x))"
    "inst_of cg (fst x) = Inr (the_inst cg (fst x))" "pattern_ready (the_inst cg (fst x)) td"
    using domain_ready_inst [OF g a] by auto
  from graph_okD(1) [OF g(1) i(1)] show "instance_id (the_inst cg (fst x)) = fst x" .
  from pattern_readyD(1,2) [OF i(3)]
  show "getComponentType (the_inst cg (fst x)) td = Inr (comp_type (the_inst cg (fst x)) td)"
    "comp_type (the_inst cg (fst x)) td \<noteq> CT_INVALID" by auto
qed

lemma td_components_distinct:
  "domain_graph_ok cg td \<Longrightarrow> distinct (map fst (td_components cg td))"
proof -
  assume "domain_graph_ok cg td"
  then have "distinct (map fst (patterns cg))" by (simp add: domain_graph_ok_def domain_ready_def)
  then show ?thesis by (simp add: td_components_def distinct_map_filter)
qed

lemma prepareComponents_ok:
  assumes ready: "builder_ready cg td b" and sub: "set xs \<subseteq> set (td_components cg td)"
  shows "\<exists>cb'. prepareComponents cg td b xs cb = Inr cb'"
  using sub
proof (induction xs arbitrary: cb)
  case Nil
  then show ?case by (simp add: prepareComponents_def)
next
  case (Cons x xs)
  obtain a c where x: "x = (a, c)" by (cases x)
  note inst = td_component_inst [OF builder_readyD(1) [OF ready], of x]
  from Cons.prems builder_readyD(3) [OF ready, of x] inst
  have "\<exists>cb1. fold_res (\<lambda>(a, c) cb.
       let cb1 = cb\<lparr>request_exit_callback := List.insert c (request_exit_callback cb)\<rparr>
       in bind_res (inst_of cg a) (\<lambda>p. bind_res (getComponentType p td) (\<lambda>type.
          if type = CT_INVALID then Inl InvalidArgument
          else if type = ASYNC_SOURCE \<or> type = INTERNAL_SYNC_SOURCE
          then setRequestCallback b c (instance_id p) cb1 else Inr cb1))) [x] cb = Inr cb1"
    by (auto simp: x Let_def setRequestCallback_def is_source_type_def is_ok_iff)
  with Cons.IH Cons.prems show ?case by (auto simp: prepareComponents_def)
qed

text \<open>The pointers the domain's tasks get, and what the finished graph looks like.\<close>

definition numbered :: "ComponentGraph \<Rightarrow> int \<Rightarrow> TraactGraph \<Rightarrow> bool" where
  "numbered cg td g \<longleftrightarrow> omap_ok (tasks g) \<and> fst ` set (tasks g) = fst ` set (td_components cg td) \<and>
     map kind (task_store g) = map (task_kind_of cg td) (td_components cg td) \<and>
     (\<forall>i < length (td_components cg td). map_of (tasks g) (fst (td_components cg td ! i)) = Some i)"

lemma map_of_emplace_new:
  "omap_ok m \<Longrightarrow> k \<notin> fst ` set m \<Longrightarrow> map_of (emplace k v m) = (map_of m)(k \<mapsto> v)"
  by (simp add: map_of_eq_None_iff)

lemma createTasks_prefix:
  assumes ok: "domain_graph_ok cg td" and cs: "cs = td_components cg td" and k: "k \<le> length cs"
  shows "\<exists>g. createTasks cg td (take k cs) TraactGraph_empty = Inr g \<and> task_data g = [] \<and>
    task_store g = map (\<lambda>x. make_task (task_kind_of cg td x)) (take k cs) \<and> omap_ok (tasks g) \<and>
    fst ` set (tasks g) = fst ` set (take k cs) \<and> (\<forall>i < k. map_of (tasks g) (fst (cs ! i)) = Some i)"
  using k
proof (induction k)
  case 0
  then show ?case by (simp add: createTasks_def TraactGraph_empty_def)
next
  case (Suc k)
  then obtain g where g: "createTasks cg td (take k cs) TraactGraph_empty = Inr g" "task_data g = []"
    "task_store g = map (\<lambda>x. make_task (task_kind_of cg td x)) (take k cs)" "omap_ok (tasks g)"
    "fst ` set (tasks g) = fst ` set (take k cs)" "\<forall>i < k. map_of (tasks g) (fst (cs ! i)) = Some i"
    by auto
  from Suc.prems have k: "k < length cs" by simp
  obtain a c where x: "cs ! k = (a, c)" by (cases "cs ! k")
  have mem: "(a, c) \<in> set (td_components cg td)" using k x cs by (metis nth_mem)
  note inst = td_component_inst [OF ok mem, simplified]
  have dist: "i = j" if "i < length cs" "j < length cs" "fst (cs ! i) = fst (cs ! j)" for i j
    using td_components_distinct [OF ok] cs that by (auto simp: distinct_conv_nth)
  have new: "a \<notin> fst ` set (take k cs)"
  proof
    assume "a \<in> fst ` set (take k cs)"
    then obtain j where "j < k" "fst (cs ! j) = a" using k by (auto simp: in_set_conv_nth)
    with dist [of j k] k x show False by simp
  qed
  let ?g = "snd (emplace_task a (task_kind_of cg td (a, c)) g)"
  have "createTask (the_inst cg a) c td = Inr (task_kind_of cg td (a, c))"
    using inst by (simp add: createTask_def task_kind_of_def is_source_type_def)
  with g(1) inst have run: "createTasks cg td (take (Suc k) cs) TraactGraph_empty = Inr ?g"
    using k x by (simp add: take_Suc_conv_app_nth createTasks_def fold_res_append)
  have st: "task_store ?g = task_store g @ [make_task (task_kind_of cg td (a, c))]"
    "tasks ?g = emplace a (length (task_store g)) (tasks g)" "task_data ?g = []"
    using g(2) by (simp_all add: emplace_task_def new_task_def)
  have len: "length (task_store g) = k" using g(3) k by simp
  have look: "map_of (tasks ?g) = (map_of (tasks g))(a \<mapsto> k)"
    unfolding st(2) len by (rule map_of_emplace_new) (use g(4,5) new in simp_all)
  have "\<forall>i < Suc k. map_of (tasks ?g) (fst (cs ! i)) = Some i"
  proof (intro allI impI)
    fix i assume i: "i < Suc k"
    show "map_of (tasks ?g) (fst (cs ! i)) = Some i"
    proof (cases "i = k")
      case True
      with x look show ?thesis by simp
    next
      case False
      with i have "i < k" by simp
      moreover then have "fst (cs ! i) \<noteq> a" using dist [of i k] k x by auto
      ultimately show ?thesis using g(6) look by simp
    qed
  qed
  moreover have "task_store ?g = map (\<lambda>x. make_task (task_kind_of cg td x)) (take (Suc k) cs)"
    using st(1) g(3) k x by (simp add: take_Suc_conv_app_nth)
  moreover have "fst ` set (tasks ?g) = fst ` set (take (Suc k) cs)"
    using st(2) g(5) k x by (simp add: take_Suc_conv_app_nth)
  ultimately show ?case using run st(2,3) g(4) by (intro exI [of _ ?g]) simp
qed

lemma make_task_no_links:
  "links (map (\<lambda>x. make_task (f x)) cs) = {}" "back_links (map (\<lambda>x. make_task (f x)) cs) = {}"
  "later_links (map (\<lambda>x. make_task (f x)) cs) = {}" "later_back_links (map (\<lambda>x. make_task (f x)) cs) = {}"
  by (auto simp: links_defs make_task_def)

lemma createTasks_ok:
  assumes ok: "domain_graph_ok cg td"
  shows "\<exists>g. createTasks cg td (td_components cg td) TraactGraph_empty = Inr g \<and> numbered cg td g \<and>
    task_data g = [] \<and> links (task_store g) = {} \<and> back_links (task_store g) = {} \<and>
    later_links (task_store g) = {} \<and> later_back_links (task_store g) = {}"
proof -
  from createTasks_prefix [OF ok refl order_refl]
  obtain g where g: "createTasks cg td (td_components cg td) TraactGraph_empty = Inr g" "task_data g = []"
    "task_store g = map (\<lambda>x. make_task (task_kind_of cg td x)) (td_components cg td)" "omap_ok (tasks g)"
    "fst ` set (tasks g) = fst ` set (td_components cg td)"
    "\<forall>i < length (td_components cg td). map_of (tasks g) (fst (td_components cg td ! i)) = Some i"
    by auto
  have "map kind (task_store g) = map (task_kind_of cg td) (td_components cg td)"
    by (simp add: g(3) make_task_def)
  with g show ?thesis
    by (intro exI [of _ g]) (simp add: numbered_def g(3) make_task_no_links)
qed

lemma numbered_grows: "numbered cg td g \<Longrightarrow> grows g g' E I \<Longrightarrow> numbered cg td g'"
  by (simp add: numbered_def grows_def)

lemma numbered_lookup:
  assumes ok: "domain_graph_ok cg td" and num: "numbered cg td g"
  shows "map_of (tasks g) a = Some i \<longleftrightarrow>
      i < length (td_components cg td) \<and> fst (td_components cg td ! i) = a"
    and "length (task_store g) = length (td_components cg td)"
proof -
  from num have num': "fst ` set (tasks g) = fst ` set (td_components cg td)"
    "\<forall>i < length (td_components cg td). map_of (tasks g) (fst (td_components cg td ! i)) = Some i"
    by (simp_all add: numbered_def)
  show "length (task_store g) = length (td_components cg td)"
    using num by (metis numbered_def length_map)
  show "map_of (tasks g) a = Some i \<longleftrightarrow>
      i < length (td_components cg td) \<and> fst (td_components cg td ! i) = a"
  proof
    assume a: "map_of (tasks g) a = Some i"
    then have "a \<in> fst ` set (td_components cg td)" using num'(1) by (force dest: map_of_SomeD)
    then obtain j where "j < length (td_components cg td)" "fst (td_components cg td ! j) = a"
      by (auto simp: in_set_conv_nth)
    with num'(2) a show "i < length (td_components cg td) \<and> fst (td_components cg td ! i) = a" by auto
  qed (use num'(2) in auto)
qed

section \<open>The dependencies between components\<close>

text \<open>The consumers of an output port of the domain are components of the domain.\<close>

lemma consumer_in_domain:
  assumes ok: "domain_graph_ok cg td" and a: "x \<in> set (td_components cg td)"
    and l: "l \<in> set (td_ports PRODUCER (the_inst cg (fst x)) td)"
    and r: "(b, t, m) \<in> set (peers_of_producer (graph_instance cg) (the_inst cg (fst x)) l)"
  shows "b \<in> fst ` set (td_components cg td) \<and> m \<in> set (td_ports CONSUMER (the_inst cg b) td) \<and>
    connected_to (port_inst_at (ports_of CONSUMER) (the_inst cg b) m) =
      loc_id PRODUCER (the_inst cg (fst x)) l"
proof -
  let ?g = "graph_instance cg" and ?p = "the_inst cg (fst x)"
  note g = domain_graph_okD(1-3) [OF ok]
  from r in_peers_of_producer [OF g(1)] obtain q where q: "map_of (pattern_instances ?g) b = Some q"
    "m \<in> set (port_locs (ports_of CONSUMER) q)"
    "connected_to (port_inst_at (ports_of CONSUMER) q m) = loc_id PRODUCER ?p l" by auto
  then have the: "the_inst cg b = q" by (simp add: the_inst_def)
  let ?port = "port_inst_at (ports_of CONSUMER) q m"
  from g(2) q obtain a' p' l' where p': "map_of (pattern_instances ?g) a' = Some p'"
    "l' \<in> set (port_locs (ports_of PRODUCER) p')" "connected_to ?port = loc_id PRODUCER p' l'"
    "port_getTimeDomain p' (port_inst_at (ports_of PRODUCER) p' l') = port_getTimeDomain q ?port"
    unfolding well_typed_def by (metis loc_id_nonempty(1))
  note inst = td_component_inst [OF ok a]
  from q(3) p'(3) have same: "loc_id PRODUCER p' l' = loc_id PRODUCER ?p l" by simp
  then have "instance_id p' = instance_id ?p" by (metis fst_loc_id)
  then have "a' = fst x" using graph_okD(1) [OF g(1) p'(1)] inst(4) by simp
  with p'(1) inst(1) have peq: "p' = ?p" by simp
  have "resolves ?p" using graph_okD(3) [OF g(1) inst(1)] .
  then have "l' = l"
    using same p'(2) in_td_ports [OF l] unfolding peq resolves_def by (metis Pair_inject insertI1 option.inject sum.inject(2))
  with p'(4) peq l have td: "port_getTimeDomain q ?port = Inr td" by (simp add: td_ports_def)
  then have "td \<in> set (local_to_global_time_domain q)" by (auto simp: port_getTimeDomain_def)
  then have "isInTimeDomain q td" by (auto simp: isInTimeDomain_def list_ex_iff)
  moreover have "b \<in> fst ` set (patterns cg)"
    using g(3) q(1) by (force simp: domain_ready_def dest: map_of_SomeD)
  ultimately have "b \<in> fst ` set (td_components cg td)"
    using the by (force simp: td_components_def)
  with the q td show ?thesis by (simp add: td_ports_def)
qed

definition positions :: "ComponentGraph \<Rightarrow> int \<Rightarrow> (string \<times> string) set \<Rightarrow> (task_ptr \<times> task_ptr) set" where
  "positions cg td E = {(i, j). i < length (td_components cg td) \<and> j < length (td_components cg td) \<and>
     (fst (td_components cg td ! i), fst (td_components cg td ! j)) \<in> E}"

text \<open>The consumers that are found for the producer ports of a component are those of its edges.\<close>

lemma consumer_positions:
  assumes ok: "domain_graph_ok cg td" and num: "numbered cg td g" and i: "i < length (td_components cg td)"
    and a: "fst (td_components cg td ! i) = a"
  shows "(\<Union>l \<in> set (td_ports PRODUCER (the_inst cg a) td).
      {(i, j) | j. \<exists>r \<in> set (peers_of_producer (graph_instance cg) (the_inst cg a) l). map_of (tasks g) (fst r) = Some j}) =
    {(i, j) | j. (i, j) \<in> positions cg td (flow_edges cg td)}"
  (is "(\<Union>l \<in> set ?ls. ?EP l) = ?R")
proof -
  let ?gi = "graph_instance cg" and ?p = "the_inst cg a" and ?cs = "td_components cg td"
  have mem: "?cs ! i \<in> set ?cs" using i by simp
  note g = domain_graph_okD(1-3) [OF ok]
  show ?thesis
  proof (intro equalityI subsetI)
    fix e assume "e \<in> (\<Union>l \<in> set ?ls. ?EP l)"
    then obtain l r j where l: "l \<in> set (td_ports PRODUCER ?p td)"
      and r: "r \<in> set (peers_of_producer ?gi ?p l)" "map_of (tasks g) (fst r) = Some j" and e: "e = (i, j)"
      by auto
    obtain b t m where r': "r = (b, t, m)" by (cases r)
    from consumer_in_domain [OF ok mem, unfolded a, OF l r(1) [unfolded r']]
    have "(a, b) \<in> flow_edges cg td" using l mem a by (auto simp: flow_edges_def)
    moreover from r(2) r' have "j < length ?cs" "fst (?cs ! j) = b"
      by (simp_all add: numbered_lookup [OF ok num])
    ultimately show "e \<in> ?R"
      using i a e by (simp add: positions_def)
  next
    fix e assume "e \<in> ?R"
    then obtain j where e: "e = (i, j)" "j < length ?cs" "(a, fst (?cs ! j)) \<in> flow_edges cg td"
      using a by (auto simp: positions_def)
    let ?b = "fst (?cs ! j)"
    from e(3) obtain l m where lm: "l \<in> set (td_ports PRODUCER ?p td)"
      "m \<in> set (td_ports CONSUMER (the_inst cg ?b) td)"
      "connected_to (port_inst_at (ports_of CONSUMER) (the_inst cg ?b) m) = loc_id PRODUCER ?p l"
      by (auto simp: flow_edges_def)
    have "map_of (pattern_instances ?gi) ?b = Some (the_inst cg ?b)"
      using td_component_inst(1) [OF ok, of "?cs ! j"] e(2) by simp
    then have "(?b, CONSUMER, m) \<in> set (peers_of_producer ?gi ?p l)"
      using in_peers_of_producer [OF g(1)] in_td_ports [OF lm(2)] lm(3) by simp
    moreover have "map_of (tasks g) ?b = Some j" using e(2) by (simp add: numbered_lookup [OF ok num])
    ultimately show "e \<in> (\<Union>l \<in> set ?ls. ?EP l)"
      using lm(1) e(1) by force
  qed
qed

lemma connect_consumers_grows:
  assumes ok: "domain_graph_ok cg td" and num: "numbered cg td g" and i: "i < length (td_components cg td)"
    and a: "fst (td_components cg td ! i) = a"
  shows "\<exists>g'. connect_consumers (graph_instance cg) td (the_inst cg a) i g = Inr g' \<and>
    grows g g' {(i, j) | j. (i, j) \<in> positions cg td (flow_edges cg td)} {}"
proof -
  let ?gi = "graph_instance cg" and ?p = "the_inst cg a" and ?cs = "td_components cg td"
  have mem: "?cs ! i \<in> set ?cs" using i by simp
  note inst = td_component_inst [OF ok mem, unfolded a]
  note g = domain_graph_okD(1-3) [OF ok]
  define EP where "EP l = {(i, j) | j. \<exists>r \<in> set (peers_of_producer ?gi ?p l). map_of (tasks g) (fst r) = Some j}" for l
  let ?body = "\<lambda>port g. bind_res (connectedToPtr ?gi (loc_id PRODUCER ?p port)) (\<lambda>input_ports.
       fold_res (\<lambda>(b, _) g. bind_res (map_at (tasks g) b) (\<lambda>consumer_task.
         Inr (on_store (task_precede i consumer_task) g))) input_ports g)"
  have "\<exists>g'. fold_res ?body (td_ports PRODUCER ?p td) g = Inr g' \<and>
      grows g g' (\<Union>l \<in> set (td_ports PRODUCER ?p td). EP l) (\<Union>l \<in> set (td_ports PRODUCER ?p td). {})"
  proof (rule grows_fold)
    fix l and h :: TraactGraph
    assume l: "l \<in> set (td_ports PRODUCER ?p td)" and h: "tasks h = tasks g"
      "length (task_store h) = length (task_store g)"
    have peers: "connectedToPtr ?gi (loc_id PRODUCER ?p l) = Inr (peers_of_producer ?gi ?p l)"
      using connectedToPtr_producer [OF g(1) inst(1) in_td_ports [OF l]] .
    have "\<exists>h'. fold_res (\<lambda>(b, _) g. bind_res (map_at (tasks g) b) (\<lambda>consumer_task.
         Inr (on_store (task_precede i consumer_task) g))) (peers_of_producer ?gi ?p l) h = Inr h' \<and>
       grows h h' (\<Union>r \<in> set (peers_of_producer ?gi ?p l). {(i, j) | j. map_of (tasks g) (fst r) = Some j})
         (\<Union>r \<in> set (peers_of_producer ?gi ?p l). {})"
    proof (rule grows_fold)
      fix r and h1 :: TraactGraph
      assume r: "r \<in> set (peers_of_producer ?gi ?p l)" and h1: "tasks h1 = tasks h"
        "length (task_store h1) = length (task_store h)"
      obtain b t m where r': "r = (b, t, m)" by (cases r)
      from consumer_in_domain [OF ok mem, unfolded a, OF l r [unfolded r']]
      obtain j where j: "j < length ?cs" "fst (?cs ! j) = b" by (auto simp: in_set_conv_nth)
      then have look: "map_of (tasks g) b = Some j" by (simp add: numbered_lookup [OF ok num])
      have "grows h1 (on_store (task_precede i j) h1) {(i, j)} {}"
        by (rule grows_precede) (use i j(1) h h1 numbered_lookup(2) [OF ok num] in simp_all)
      with look h h1 show "\<exists>h'. (case r of (b, _) \<Rightarrow> \<lambda>g. bind_res (map_at (tasks g) b) (\<lambda>consumer_task.
           Inr (on_store (task_precede i consumer_task) g))) h1 = Inr h' \<and>
         grows h1 h' {(i, j) | j. map_of (tasks g) (fst r) = Some j} {}"
        by (simp add: r' map_at_def)
    qed
    moreover have "(\<Union>r \<in> set (peers_of_producer ?gi ?p l). {(i, j) | j. map_of (tasks g) (fst r) = Some j}) = EP l"
      by (auto simp: EP_def)
    ultimately show "\<exists>h'. ?body l h = Inr h' \<and> grows h h' (EP l) {}" by (simp add: peers)
  qed
  then show ?thesis
    using getProducerPorts_eq [OF inst(3)] consumer_positions [OF ok num i a, folded EP_def]
    by (simp add: connect_consumers_def)
qed

lemma findSyncSourceStartPoint_eq:
  assumes ok: "domain_graph_ok cg td" and sub: "set xs \<subseteq> set (td_components cg td)"
  shows "findSyncSourceStartPoint cg td g xs =
    (case List.find (\<lambda>x. comp_type (the_inst cg (fst x)) td = ASYNC_SOURCE) xs of
       Some x \<Rightarrow> map_at (tasks g) (fst x) | None \<Rightarrow> Inl InvalidArgument)"
  using sub
proof (induction xs)
  case (Cons x xs)
  obtain a c where x: "x = (a, c)" by (cases x)
  from Cons.prems td_component_inst [OF ok, of x] Cons.IH show ?case by (simp add: x)
qed simp

lemma component_dependencies_grows:
  assumes ready: "builder_ready cg td b" and num: "numbered cg td g" and i: "i < length (td_components cg td)"
  shows "\<exists>g'. component_dependencies cg td (td_components cg td) (td_components cg td ! i) g = Inr g' \<and>
    grows g g' ({(i, j) | j. (i, j) \<in> positions cg td (flow_edges cg td)} \<union>
        {(j, i) | j. (j, i) \<in> positions cg td (sync_edges cg td)})
      {(i, i) | x. fst (td_components cg td ! i) \<in> serial_components cg td}"
proof -
  let ?cs = "td_components cg td"
  note ok = builder_readyD(1) [OF ready]
  obtain a c where x: "?cs ! i = (a, c)" by (cases "?cs ! i")
  have mem: "(a, c) \<in> set ?cs" using i x by (metis nth_mem)
  note inst = td_component_inst [OF ok mem, simplified]
  have look: "map_of (tasks g) a = Some i" using i x by (simp add: numbered_lookup [OF ok num])
  from connect_consumers_grows [OF ok num i, of a] x
  obtain g1 where g1: "connect_consumers (graph_instance cg) td (the_inst cg a) i g = Inr g1"
    "grows g g1 {(i, j) | j. (i, j) \<in> positions cg td (flow_edges cg td)} {}" by auto
  note num1 = numbered_grows [OF num g1(2)]
  let ?type = "comp_type (the_inst cg a) td"
  have "\<exists>g2. (if ?type = SYNC_SOURCE
        then bind_res (findSyncSourceStartPoint cg td g1 ?cs) (\<lambda>s. Inr (on_store (task_succeed i s) g1))
        else Inr g1) = Inr g2 \<and>
      grows g1 g2 {(j, i) | j. (j, i) \<in> positions cg td (sync_edges cg td)} {}"
  proof (cases "?type = SYNC_SOURCE")
    case False
    then have "{(j, i) | j. (j, i) \<in> positions cg td (sync_edges cg td)} = {}"
      using x by (auto simp: positions_def sync_edges_def)
    with False grows_refl show ?thesis by simp
  next
    case True
    with builder_readyD(4) [OF ready mem] obtain s where s: "first_async cg td = Some s" by auto
    then obtain y where y: "List.find (\<lambda>x. comp_type (the_inst cg (fst x)) td = ASYNC_SOURCE) ?cs = Some y"
      "s = fst y" by (auto simp: first_async_def)
    then obtain j where j: "j < length ?cs" "?cs ! j = y" by (auto simp: find_Some_iff)
    have "findSyncSourceStartPoint cg td g1 ?cs = Inr j"
      using j y by (simp add: findSyncSourceStartPoint_eq [OF ok] numbered_lookup [OF ok num1])
    moreover have "grows g1 (on_store (task_precede j i) g1) {(j, i)} {}"
      by (rule grows_precede) (use i j numbered_lookup(2) [OF ok num1] in simp_all)
    moreover have "{(j, i) | j. (j, i) \<in> positions cg td (sync_edges cg td)} = {(j, i)}"
    proof -
      have at: "j' = j" if "j' < length ?cs" "fst (?cs ! j') = s" for j'
        using numbered_lookup(1) [OF ok num1, of s j'] numbered_lookup(1) [OF ok num1, of s j] that j y(2)
        by simp
      have "a \<in> fst ` set ?cs" using mem by force
      moreover have "(j', i) \<in> positions cg td (sync_edges cg td) \<longleftrightarrow>
          j' < length ?cs \<and> fst (?cs ! j') = s \<and> a \<in> fst ` set ?cs" for j'
        using s True i x by (auto simp: positions_def sync_edges_def)
      ultimately have "(j', i) \<in> positions cg td (sync_edges cg td) \<longleftrightarrow> j' = j" for j'
        using at j y(2) by blast
      then show ?thesis by simp
    qed
    ultimately show ?thesis using True by (simp add: task_succeed_eq)
  qed
  then obtain g2 where g2: "(if ?type = SYNC_SOURCE
        then bind_res (findSyncSourceStartPoint cg td g1 ?cs) (\<lambda>s. Inr (on_store (task_succeed i s) g1))
        else Inr g1) = Inr g2"
      "grows g1 g2 {(j, i) | j. (j, i) \<in> positions cg td (sync_edges cg td)} {}" by blast
  from builder_readyD(2) [OF ready mem] obtain con where con: "getConcurrency (the_inst cg a) td = Inr con"
    by (auto simp: is_ok_iff)
  let ?g3 = "if con = SERIAL then on_store (succeedInterTimeStep i i) g2 else g2"
  have "length (task_store g2) = length ?cs"
    using numbered_lookup(2) [OF ok num1] grows_length [OF g2(2)] by simp
  then have "grows g2 (on_store (precedeInterTimeStep i i) g2) {} {(i, i)}"
    using i by (intro grows_precedeInter) simp_all
  moreover have "{(i, i) | x. fst (?cs ! i) \<in> serial_components cg td} = (if con = SERIAL then {(i, i)} else {})"
    using con mem x by (force simp: serial_components_def)
  ultimately have g3: "grows g2 ?g3 {} {(i, i) | x. fst (?cs ! i) \<in> serial_components cg td}"
    using grows_refl by (simp add: succeedInterTimeStep_eq)
  have "component_dependencies cg td ?cs (?cs ! i) g = Inr ?g3"
    unfolding x component_dependencies_def
    using inst g1(1) g2(1) con by (simp add: map_at_def look del: bind_res_eq_Inr_iff)
  with grows_trans [OF grows_trans [OF g1(2) g2(2)] g3] show ?thesis by auto
qed

definition component_edges :: "ComponentGraph \<Rightarrow> int \<Rightarrow> (string \<times> string) set" where
  "component_edges cg td = flow_edges cg td \<union> sync_edges cg td"

definition serial_positions :: "ComponentGraph \<Rightarrow> int \<Rightarrow> (task_ptr \<times> task_ptr) set" where
  "serial_positions cg td = {(i, i) | i. i < length (td_components cg td) \<and>
     fst (td_components cg td ! i) \<in> serial_components cg td}"

text \<open>The graph of a domain's components, complete: its tasks and both kinds of dependency.\<close>

definition component_graph :: "ComponentGraph \<Rightarrow> int \<Rightarrow> TraactGraph \<Rightarrow> bool" where
  "component_graph cg td g \<longleftrightarrow> numbered cg td g \<and>
     links (task_store g) = positions cg td (component_edges cg td) \<and>
     back_links (task_store g) = positions cg td (component_edges cg td) \<and>
     later_links (task_store g) = serial_positions cg td \<and>
     later_back_links (task_store g) = serial_positions cg td"

lemma fold_res_map: "fold_res f (map h xs) s = fold_res (\<lambda>x. f (h x)) xs s"
  by (induction xs arbitrary: s) (auto intro: bind_res_cong)

lemma fold_res_nth: "fold_res f xs = fold_res (\<lambda>i. f (xs ! i)) [0..<length xs]"
  using fold_res_map [of f "(!) xs" "[0..<length xs]"] by (simp add: fun_eq_iff map_nth)

lemma component_graph_built:
  assumes ready: "builder_ready cg td b"
  shows "\<exists>cb' g. ComponentGraphBuilder_buildGraph cg td b (td_components cg td) (cb, TraactGraph_empty) =
    Inr (cb', g) \<and> component_graph cg td g"
proof -
  let ?cs = "td_components cg td"
  note ok = builder_readyD(1) [OF ready]
  from prepareComponents_ok [OF ready order_refl] obtain cb' where
    cb: "prepareComponents cg td b ?cs cb = Inr cb'" by blast
  from createTasks_ok [OF ok] obtain g where g: "createTasks cg td ?cs TraactGraph_empty = Inr g"
    "numbered cg td g" "links (task_store g) = {}" "back_links (task_store g) = {}"
    "later_links (task_store g) = {}" "later_back_links (task_store g) = {}" by blast
  define E where "E i = {(i, j) | j. (i, j) \<in> positions cg td (flow_edges cg td)} \<union>
        {(j, i) | j. (j, i) \<in> positions cg td (sync_edges cg td)}" for i
  define I where "I i = {(i, i) | x :: unit. fst (?cs ! i) \<in> serial_components cg td}" for i
  have "\<exists>g'. fold_res (\<lambda>i. component_dependencies cg td ?cs (?cs ! i)) [0..<length ?cs] g = Inr g' \<and>
      grows g g' (\<Union>i \<in> set [0..<length ?cs]. E i) (\<Union>i \<in> set [0..<length ?cs]. I i)"
  proof (rule grows_fold)
    fix i and h :: TraactGraph
    assume i: "i \<in> set [0..<length ?cs]" and h: "tasks h = tasks g" "map kind (task_store h) = map kind (task_store g)"
    have "numbered cg td h" using g(2) h by (simp add: numbered_def)
    then show "\<exists>h'. component_dependencies cg td ?cs (?cs ! i) h = Inr h' \<and> grows h h' (E i) (I i)"
      using component_dependencies_grows [OF ready, of h i] i by (simp add: E_def I_def)
  qed
  then obtain g' where g': "createDependencies cg td ?cs g = Inr g'"
    "grows g g' (\<Union>i < length ?cs. E i) (\<Union>i < length ?cs. I i)"
    unfolding createDependencies_def fold_res_nth [of _ ?cs] by (auto simp: lessThan_atLeast0)
  have E: "(\<Union>i < length ?cs. E i) = positions cg td (component_edges cg td)"
    by (auto simp: E_def component_edges_def positions_def)
  have I: "(\<Union>i < length ?cs. I i) = serial_positions cg td"
    by (auto simp: I_def serial_positions_def)
  have "component_graph cg td g'"
    using numbered_grows [OF g(2) g'(2)] g'(2) g(3-6) unfolding E I
    by (simp add: component_graph_def grows_def)
  then show ?thesis using cb g(1) g'(1) by (simp add: ComponentGraphBuilder_buildGraph_def)
qed

section \<open>No task waits for itself\<close>

lemma flow_edges_subset:
  assumes ok: "domain_graph_ok cg td"
  shows "flow_edges cg td \<subseteq> edges (graph_instance cg)"
proof
  fix e assume "e \<in> flow_edges cg td"
  then obtain a b l m where e: "e = (a, b)" "a \<in> fst ` set (td_components cg td)"
    "b \<in> fst ` set (td_components cg td)" "l \<in> set (td_ports PRODUCER (the_inst cg a) td)"
    "m \<in> set (td_ports CONSUMER (the_inst cg b) td)"
    "connected_to (port_inst_at (ports_of CONSUMER) (the_inst cg b) m) = loc_id PRODUCER (the_inst cg a) l"
    unfolding flow_edges_def by blast
  from e(2,3) td_component_inst(1) [OF ok]
  have "map_of (pattern_instances (graph_instance cg)) a = Some (the_inst cg a)"
    "map_of (pattern_instances (graph_instance cg)) b = Some (the_inst cg b)" by auto
  with e(1,6) in_td_ports [OF e(4)] in_td_ports [OF e(5)] show "e \<in> edges (graph_instance cg)"
    unfolding edges_def by blast
qed

lemma acyclic_fan:
  assumes ac: "acyclic A" and s: "s \<notin> Range A" "s \<notin> B"
  shows "acyclic (A \<union> {s} \<times> B)"
proof (rule acyclicI, intro allI notI)
  let ?C = "A \<union> {s} \<times> B"
  fix x assume cyc: "(x, x) \<in> ?C\<^sup>+"
  have split: "(x, y) \<in> A\<^sup>+ \<or> x = s" if "(x, y) \<in> ?C\<^sup>+" for y
    using that
  proof (induction rule: trancl.induct)
    case (trancl_into_trancl a b c)
    show ?case
    proof (cases "a = s")
      case False
      with trancl_into_trancl.IH have ab: "(a, b) \<in> A\<^sup>+" by simp
      then have "b \<in> Range A" by (metis Range.intros tranclE)
      with s(1) have "b \<noteq> s" by auto
      with trancl_into_trancl.hyps(2) have "(b, c) \<in> A" by auto
      with ab show ?thesis by (auto intro: trancl_into_trancl)
    qed simp
  qed auto
  have "x \<in> Range ?C" using cyc by (metis Range.intros tranclE)
  with s have "x \<noteq> s" by auto
  with split [OF cyc] ac show False by (auto simp: acyclic_def)
qed

text \<open>Asynchronous sources produce data from outside: they read nothing in the domain.\<close>

definition sources_read_nothing :: "ComponentGraph \<Rightarrow> int \<Rightarrow> bool" where
  "sources_read_nothing cg td \<longleftrightarrow> (\<forall>x \<in> set (td_components cg td).
     comp_type (the_inst cg (fst x)) td = ASYNC_SOURCE \<longrightarrow> td_ports CONSUMER (the_inst cg (fst x)) td = [])"

lemma component_edges_acyclic:
  assumes ok: "domain_graph_ok cg td" and src: "sources_read_nothing cg td"
  shows "acyclic (component_edges cg td)"
proof -
  have "acyclic (edges (graph_instance cg))" using ok by (simp add: domain_graph_ok_def graph_inv_def)
  then have flow: "acyclic (flow_edges cg td)" using flow_edges_subset [OF ok] by (rule acyclic_subset)
  show ?thesis
  proof (cases "first_async cg td")
    case None
    then have "sync_edges cg td = {}" by (simp add: sync_edges_def)
    with flow show ?thesis by (simp add: component_edges_def)
  next
    case (Some s)
    then obtain x where x: "List.find (\<lambda>x. comp_type (the_inst cg (fst x)) td = ASYNC_SOURCE) (td_components cg td) = Some x"
      "s = fst x" by (auto simp: first_async_def)
    then have mem: "x \<in> set (td_components cg td)" and ty: "comp_type (the_inst cg s) td = ASYNC_SOURCE"
      by (auto simp: find_Some_iff)
    let ?B = "{b \<in> fst ` set (td_components cg td). comp_type (the_inst cg b) td = SYNC_SOURCE}"
    have "s \<notin> Range (flow_edges cg td)"
      using src mem ty x(2) by (auto simp: flow_edges_def sources_read_nothing_def)
    moreover have "s \<notin> ?B" using ty by simp
    ultimately have "acyclic (flow_edges cg td \<union> {s} \<times> ?B)" by (rule acyclic_fan [OF flow])
    moreover have "sync_edges cg td = {s} \<times> ?B" using Some by (auto simp: sync_edges_def)
    ultimately show ?thesis by (simp add: component_edges_def)
  qed
qed

lemma trancl_positions:
  "(i, j) \<in> (positions cg td E)\<^sup>+ \<Longrightarrow>
   (fst (td_components cg td ! i), fst (td_components cg td ! j)) \<in> E\<^sup>+"
proof (induction rule: trancl.induct)
  case (trancl_into_trancl a b c)
  then have "(fst (td_components cg td ! b), fst (td_components cg td ! c)) \<in> E" by (simp add: positions_def)
  with trancl_into_trancl.IH show ?case by (rule trancl.trancl_into_trancl)
qed (auto simp: positions_def)

lemma positions_acyclic: "acyclic E \<Longrightarrow> acyclic (positions cg td E)"
  unfolding acyclic_def by (blast dest: trancl_positions)

lemma finite_links: "finite (links s)"
proof -
  have "links s \<subseteq> (\<Union>p < length s. {p} \<times> set (successors (s ! p)))" by (auto simp: links_def)
  then show ?thesis by (rule finite_subset) auto
qed

section \<open>ModuleGraphBuilder\<close>

lemma links_mono: "links s \<subseteq> links (task_precede p q s)"
  by (auto simp: links_def task_precede_def Let_def on_task_nth)

lemma links_new: "p < length s \<Longrightarrow> (p, q) \<in> links (task_precede p q s)"
  by (simp add: links_def task_precede_def Let_def on_task_nth)

lemma on_store_simps [simp]:
  "task_store (on_store f g) = f (task_store g)" "tasks (on_store f g) = tasks g"
  "task_data (on_store f g) = task_data g"
  by (simp_all add: on_store_def)

text \<open>What a run of \<open>precede\<close> calls keeps, and what it is certain to add.\<close>

definition extended :: "TraactGraph \<Rightarrow> TraactGraph \<Rightarrow> bool" where
  "extended g g' \<longleftrightarrow> tasks g' = tasks g \<and> length (task_store g') = length (task_store g) \<and>
     map kind (task_store g') = map kind (task_store g) \<and> links (task_store g) \<subseteq> links (task_store g')"

lemma extended_refl: "extended g g" and extended_trans: "extended g h \<Longrightarrow> extended h k \<Longrightarrow> extended g k"
  by (auto simp: extended_def)

lemma extended_precede: "extended g (on_store (task_precede p q) g)"
  using links_mono by (auto simp: extended_def kinds_precede)

lemma links_mono_later: "links s \<subseteq> links (precedeInterTimeStep p q s)"
  by (auto simp: links_def precedeInterTimeStep_def Let_def on_task_nth)

lemma extended_precedeInter: "extended g (on_store (precedeInterTimeStep p q) g)"
  using links_mono_later by (auto simp: extended_def kinds_precede)

lemma extended_fold: "(\<And>x g. x \<in> set xs \<Longrightarrow> extended g (f x g)) \<Longrightarrow> extended g (fold f xs g)"
  by (induction xs arbitrary: g) (auto intro: extended_refl extended_trans)

lemma fold_precede_links:
  assumes p: "p < length (task_store g)" and q: "q \<in> set qs"
  shows "(p, q) \<in> links (task_store (fold (\<lambda>q. on_store (task_precede p q)) qs g))"
proof -
  from q obtain as bs where qs: "qs = as @ q # bs" by (auto dest: split_list)
  let ?f = "fold (\<lambda>q. on_store (task_precede p q))"
  have "length (task_store (?f as g)) = length (task_store g)"
    using extended_fold [of as "\<lambda>q. on_store (task_precede p q)"] extended_precede by (simp add: extended_def)
  with p have "(p, q) \<in> links (task_store (on_store (task_precede p q) (?f as g)))" by (simp add: links_new)
  moreover have "extended (on_store (task_precede p q) (?f as g)) (?f qs g)"
    unfolding qs by (simp add: extended_fold extended_precede)
  ultimately show ?thesis by (auto simp: extended_def)
qed

lemma enclose_task_links:
  assumes "opening < length (task_store g)" "closing < length (task_store g)" "sub < length (task_store g)"
  shows "extended g (enclose_task opening closing sub g)"
    and "{(opening, sub), (sub, closing), (closing, closing)} \<subseteq>
      links (task_store (enclose_task opening closing sub g))"
proof -
  let ?g1 = "on_store (task_precede opening sub) g"
  let ?g2 = "on_store (task_precede sub closing) ?g1"
  let ?f = "fold (\<lambda>successor. on_store (task_precede closing successor))"
  have enc: "enclose_task opening closing sub g = ?f (successors (task_at ?g2 sub)) ?g2"
    by (simp add: enclose_task_def Let_def task_succeed_eq)
  have e1: "extended g ?g1" and e2: "extended ?g1 ?g2" by (rule extended_precede)+
  have e3: "extended ?g2 (enclose_task opening closing sub g)"
    unfolding enc by (rule extended_fold) (rule extended_precede)
  show "extended g (enclose_task opening closing sub g)"
    using e1 e2 e3 by (blast intro: extended_trans)
  have sc: "(sub, closing) \<in> links (task_store ?g2)" using assms by (simp add: links_new)
  moreover have "(opening, sub) \<in> links (task_store ?g1)" using assms by (simp add: links_new)
  ultimately have "{(opening, sub), (sub, closing)} \<subseteq> links (task_store (enclose_task opening closing sub g))"
    using e2 e3 by (auto simp: extended_def)
  moreover from sc have "closing \<in> set (successors (task_at ?g2 sub))" by (simp add: links_def task_at_def)
  then have "(closing, closing) \<in> links (task_store (enclose_task opening closing sub g))"
    unfolding enc by (intro fold_precede_links) (simp_all add: assms)
  ultimately show "{(opening, sub), (sub, closing), (closing, closing)} \<subseteq>
      links (task_store (enclose_task opening closing sub g))" by simp
qed

lemma fold_enclose_links:
  assumes "opening < length (task_store g)" "closing < length (task_store g)"
    and "set subs \<subseteq> {..<length (task_store g)}"
  shows "extended g (fold (enclose_task opening closing) subs g) \<and>
    (\<forall>sub \<in> set subs. {(opening, sub), (sub, closing), (closing, closing)} \<subseteq>
       links (task_store (fold (enclose_task opening closing) subs g)))"
  using assms
proof (induction subs arbitrary: g)
  case Nil
  then show ?case by (simp add: extended_refl)
next
  case (Cons sub subs)
  let ?g = "enclose_task opening closing sub g"
  from Cons.prems have "sub < length (task_store g)" by simp
  note e = enclose_task_links [OF Cons.prems(1,2) this]
  then have "length (task_store ?g) = length (task_store g)" by (simp add: extended_def)
  with Cons.IH [of ?g] Cons.prems
  have ih: "extended ?g (fold (enclose_task opening closing) subs ?g)"
    "\<forall>sub \<in> set subs. {(opening, sub), (sub, closing), (closing, closing)} \<subseteq>
       links (task_store (fold (enclose_task opening closing) subs ?g))" by auto
  from ih(1) e(2) have "{(opening, sub), (sub, closing), (closing, closing)} \<subseteq>
      links (task_store (fold (enclose_task opening closing) subs ?g))" by (auto simp: extended_def)
  with ih extended_trans [OF e(1) ih(1)] show ?case by simp
qed

definition module_names_free :: "string \<Rightarrow> TraactGraph \<Rightarrow> bool" where
  "module_names_free key g \<longleftrightarrow> omap_ok (tasks g) \<and>
     {''MODULE_START_'' @ key, ''MODULE_MIDDLE_'' @ key, ''MODULE_END_'' @ key} \<inter> fst ` set (tasks g) = {}"

definition module_members :: "ModuleTaskData \<Rightarrow> TraactGraph \<Rightarrow> bool" where
  "module_members d g \<longleftrightarrow>
     set (begin_components d) \<union> set (end_components d) \<subseteq> {..<length (task_store g)}"

lemma emplace_task_eq:
  "emplace_task n k g = (length (task_store g),
     g\<lparr>task_store := task_store g @ [make_task k], tasks := emplace n (length (task_store g)) (tasks g)\<rparr>)"
  by (simp add: emplace_task_def new_task_def)

lemma module_tasks_at_end:
  fixes key md d g
  assumes free: "module_names_free key g" and mem: "module_members d g"
    and one: "begin_components d = [] \<or> end_components d = []"
  defines "n \<equiv> length (task_store g)"
  shows "let g' = module_tasks key md d g in
    map_of (tasks g') (''MODULE_START_'' @ key) = Some n \<and>
    map_of (tasks g') (''MODULE_END_'' @ key) = Some (Suc n) \<and>
    kind (task_at g' (Suc n)) = ModuleTask (''MODULE_END_'' @ key) md \<and>
    (\<forall>t \<in> set (begin_components d @ end_components d).
       {(n, t), (t, Suc n), (Suc n, Suc n)} \<subseteq> links (task_store g'))"
proof -
  let ?kinds = "[ControlFlowTask (''MODULE_START_'' @ key), ModuleTask (''MODULE_END_'' @ key) md]"
  define g2 where "g2 = g\<lparr>task_store := task_store g @ map make_task ?kinds,
    tasks := emplace (''MODULE_END_'' @ key) (Suc n) (emplace (''MODULE_START_'' @ key) n (tasks g))\<rparr>"
  define g3 where "g3 = on_store (succeedInterTimeStep n (Suc n)) g2"
  define g4 where "g4 = fold (enclose_task n (Suc n)) (begin_components d) g3"
  define g5 where "g5 = fold (enclose_task n (Suc n)) (end_components d) g4"
  from one have "module_tasks key md d g = g5"
    by (auto simp: module_tasks_def g5_def g4_def g3_def g2_def n_def emplace_task_eq List.null_iff Let_def)
  moreover have len: "length (task_store g3) = Suc (Suc n)" by (simp add: g3_def g2_def n_def)
  moreover have e3: "extended g2 g3" unfolding g3_def succeedInterTimeStep_eq by (rule extended_precedeInter)
  have "set (begin_components d) \<subseteq> {..<length (task_store g3)}"
    using mem len by (force simp: module_members_def n_def)
  from fold_enclose_links [OF _ _ this, of n "Suc n"] len
  have e4: "extended g3 g4" "\<forall>t \<in> set (begin_components d). {(n, t), (t, Suc n), (Suc n, Suc n)} \<subseteq> links (task_store g4)"
    by (simp_all add: g4_def)
  then have len4: "length (task_store g4) = Suc (Suc n)" using len by (simp add: extended_def)
  have "set (end_components d) \<subseteq> {..<length (task_store g4)}"
    using mem len4 by (force simp: module_members_def n_def)
  from fold_enclose_links [OF _ _ this, of n "Suc n"] len4
  have e5: "extended g4 g5" "\<forall>t \<in> set (end_components d). {(n, t), (t, Suc n), (Suc n, Suc n)} \<subseteq> links (task_store g5)"
    by (simp_all add: g5_def)
  have all: "extended g2 g5" using e3 e4(1) e5(1) by (blast intro: extended_trans)
  have t2: "map_of (tasks g2) (''MODULE_START_'' @ key) = Some n"
    "map_of (tasks g2) (''MODULE_END_'' @ key) = Some (Suc n)"
    using free by (auto simp: g2_def module_names_free_def map_of_eq_None_iff)
  have "Suc n < length (task_store g5)" "map kind (task_store g5) = map kind (task_store g2)"
    using all by (auto simp: extended_def g2_def n_def)
  then have "kind (task_at g5 (Suc n)) = kind (task_store g2 ! Suc n)"
    unfolding task_at_def by (metis length_map nth_map)
  then have "kind (task_at g5 (Suc n)) = ModuleTask (''MODULE_END_'' @ key) md"
    by (simp add: g2_def n_def nth_append make_task_def)
  moreover have "links (task_store g4) \<subseteq> links (task_store g5)" using e5(1) by (simp add: extended_def)
  ultimately show ?thesis using t2 all e4(2) e5(2) by (auto simp: extended_def Let_def)
qed

lemma module_tasks_in_middle:
  fixes key md d g
  assumes free: "module_names_free key g" and mem: "module_members d g"
    and both: "begin_components d \<noteq> []" "end_components d \<noteq> []"
  defines "n \<equiv> length (task_store g)"
  shows "let g' = module_tasks key md d g in
    map_of (tasks g') (''MODULE_START_'' @ key) = Some n \<and>
    map_of (tasks g') (''MODULE_END_'' @ key) = Some (n + 1) \<and>
    map_of (tasks g') (''MODULE_MIDDLE_'' @ key) = Some (n + 2) \<and>
    kind (task_at g' (n + 2)) = ModuleTask (''MODULE_MIDDLE_'' @ key) md \<and>
    (\<forall>t \<in> set (begin_components d). {(n, t), (t, n + 2), (n + 2, n + 2)} \<subseteq> links (task_store g')) \<and>
    (\<forall>t \<in> set (end_components d). {(n + 2, t), (t, n + 1), (n + 1, n + 1)} \<subseteq> links (task_store g'))"
proof -
  let ?kinds = "[ControlFlowTask (''MODULE_START_'' @ key), ControlFlowTask (''MODULE_END_'' @ key),
     ModuleTask (''MODULE_MIDDLE_'' @ key) md]"
  define g2 where "g2 = g\<lparr>task_store := task_store g @ map make_task ?kinds,
    tasks := emplace (''MODULE_MIDDLE_'' @ key) (n + 2) (emplace (''MODULE_END_'' @ key) (n + 1)
       (emplace (''MODULE_START_'' @ key) n (tasks g)))\<rparr>"
  define g3 where "g3 = on_store (succeedInterTimeStep n (n + 1)) g2"
  define g4 where "g4 = fold (enclose_task n (n + 2)) (begin_components d) g3"
  define g5 where "g5 = fold (enclose_task (n + 2) (n + 1)) (end_components d) g4"
  from both have "module_tasks key md d g = g5"
    by (auto simp: module_tasks_def g5_def g4_def g3_def g2_def n_def emplace_task_eq List.null_iff Let_def)
  moreover have len: "length (task_store g3) = n + 3" by (simp add: g3_def g2_def n_def)
  moreover have e3: "extended g2 g3" unfolding g3_def succeedInterTimeStep_eq by (rule extended_precedeInter)
  have "set (begin_components d) \<subseteq> {..<length (task_store g3)}"
    using mem len by (force simp: module_members_def n_def)
  from fold_enclose_links [OF _ _ this, of n "n + 2"] len
  have e4: "extended g3 g4" "\<forall>t \<in> set (begin_components d). {(n, t), (t, n + 2), (n + 2, n + 2)} \<subseteq> links (task_store g4)"
    by (simp_all add: g4_def)
  then have len4: "length (task_store g4) = n + 3" using len by (simp add: extended_def)
  have "set (end_components d) \<subseteq> {..<length (task_store g4)}"
    using mem len4 by (force simp: module_members_def n_def)
  from fold_enclose_links [OF _ _ this, of "n + 2" "n + 1"] len4
  have e5: "extended g4 g5" "\<forall>t \<in> set (end_components d). {(n + 2, t), (t, n + 1), (n + 1, n + 1)} \<subseteq> links (task_store g5)"
    by (simp_all add: g5_def)
  have all: "extended g2 g5" using e3 e4(1) e5(1) by (blast intro: extended_trans)
  have t2: "map_of (tasks g2) (''MODULE_START_'' @ key) = Some n"
    "map_of (tasks g2) (''MODULE_END_'' @ key) = Some (n + 1)"
    "map_of (tasks g2) (''MODULE_MIDDLE_'' @ key) = Some (n + 2)"
    using free by (auto simp: g2_def module_names_free_def map_of_eq_None_iff)
  have "n + 2 < length (task_store g5)" "map kind (task_store g5) = map kind (task_store g2)"
    using all by (auto simp: extended_def g2_def n_def)
  then have "kind (task_at g5 (n + 2)) = kind (task_store g2 ! (n + 2))"
    unfolding task_at_def by (metis length_map nth_map)
  then have "kind (task_at g5 (n + 2)) = ModuleTask (''MODULE_MIDDLE_'' @ key) md"
    by (simp add: g2_def n_def nth_append make_task_def)
  moreover have "links (task_store g4) \<subseteq> links (task_store g5)" using e5(1) by (simp add: extended_def)
  ultimately show ?thesis using t2 all e4(2) e5(2) by (auto simp: extended_def Let_def)
qed

end
