(* ===== verification/FlowOk.thy ===== *)
theory FlowOk
  imports Flow TaskGraphOk
begin

text \<open>
  What \<open>TraactTaskFlowBuilder\<close> builds for a task graph without CUDA graphs (\<open>flow_ready\<close>). The nodes of
  the tasks are numbered by time step and position in the task map, those that open and close the time
  steps follow, and the nodes of the seams come last: \<open>inner\<close> are the dependencies among the nodes that
  are no seams. \<open>flow_built\<close> gives them exactly; they have no cycle (\<open>inner_acyclic\<close>) and enclose every
  task of a time step between its start and its end.
\<close>

section \<open>What the builder needs\<close>

definition task_ready :: "TraactGraph \<Rightarrow> string \<times> task_ptr \<Rightarrow> bool" where
  "task_ready g x \<longleftrightarrow> snd x < length (task_store g) \<and> getId (kind (task_at g (snd x))) = fst x \<and>
     standard_body (kind (task_at g (snd x))) 0 \<noteq> None \<and>
     set (successors (task_at g (snd x))) \<subseteq> snd ` set (tasks g) \<and>
     set (predecessors (task_at g (snd x))) \<subseteq> snd ` set (tasks g) \<and>
     set (successorsInterTimeStep (task_at g (snd x))) \<subseteq> {snd x}"

definition flow_ready :: "TimeDomainBuffer \<Rightarrow> TraactGraph \<Rightarrow> bool" where
  "flow_ready b g \<longleftrightarrow> omap_ok (tasks g) \<and> 0 < getTimeStepCount g \<and>
     getTimeStepCount g \<le> length (time_step_buffer b) \<and>
     kTimeStepStart \<notin> fst ` set (tasks g) \<and> kTimeStepEnd \<notin> fst ` set (tasks g) \<and>
     (\<forall>x \<in> set (tasks g). task_ready g x) \<and>
     back_links (task_store g) = links (task_store g) \<and>
     (\<forall>d \<in> set (task_data g). fst ` set (tasks g) \<subseteq> fst ` set d)"

abbreviation name_at :: "TraactGraph \<Rightarrow> nat \<Rightarrow> string" where
  "name_at g k \<equiv> fst (tasks g ! k)"

abbreviation ptr_at :: "TraactGraph \<Rightarrow> nat \<Rightarrow> task_ptr" where
  "ptr_at g k \<equiv> snd (tasks g ! k)"

lemma flow_readyD:
  assumes "flow_ready b g"
  shows "omap_ok (tasks g)" "0 < getTimeStepCount g" "getTimeStepCount g \<le> length (time_step_buffer b)"
    "kTimeStepStart \<notin> fst ` set (tasks g)" "kTimeStepEnd \<notin> fst ` set (tasks g)"
    "back_links (task_store g) = links (task_store g)"
    "d \<in> set (task_data g) \<Longrightarrow> fst ` set (tasks g) \<subseteq> fst ` set d"
  using assms by (auto simp: flow_ready_def)

lemma flow_ready_task:
  assumes "flow_ready b g" and "k < length (tasks g)"
  shows "ptr_at g k < length (task_store g)" "getId (kind (task_at g (ptr_at g k))) = name_at g k"
    "standard_body (kind (task_at g (ptr_at g k))) 0 \<noteq> None"
    "set (successors (task_at g (ptr_at g k))) \<subseteq> snd ` set (tasks g)"
    "set (predecessors (task_at g (ptr_at g k))) \<subseteq> snd ` set (tasks g)"
    "set (successorsInterTimeStep (task_at g (ptr_at g k))) \<subseteq> {ptr_at g k}"
proof -
  have "task_ready g (tasks g ! k)" using assms by (simp add: flow_ready_def)
  then show "ptr_at g k < length (task_store g)" "getId (kind (task_at g (ptr_at g k))) = name_at g k"
    "standard_body (kind (task_at g (ptr_at g k))) 0 \<noteq> None"
    "set (successors (task_at g (ptr_at g k))) \<subseteq> snd ` set (tasks g)"
    "set (predecessors (task_at g (ptr_at g k))) \<subseteq> snd ` set (tasks g)"
    "set (successorsInterTimeStep (task_at g (ptr_at g k))) \<subseteq> {ptr_at g k}"
    by (simp_all add: task_ready_def)
qed

lemma standard_body_total:
  "standard_body k 0 \<noteq> None \<Longrightarrow> \<exists>type body. standard_body k i = Some (type, body)"
  by (cases k) auto

lemma omap_names_distinct: "omap_ok m \<Longrightarrow> distinct (map fst m)"
  by (simp add: omap_ok_def strict_sorted_iff)

lemma name_at_inj:
  "omap_ok (tasks g) \<Longrightarrow> k < length (tasks g) \<Longrightarrow> l < length (tasks g) \<Longrightarrow>
   name_at g k = name_at g l \<Longrightarrow> k = l"
  using omap_names_distinct [of "tasks g"] by (auto simp: distinct_conv_nth)

section \<open>One node for each task and time step\<close>

definition task_node :: "TraactGraph \<Rightarrow> nat \<Rightarrow> nat \<Rightarrow> node" where
  "task_node g i k = i * length (tasks g) + k"

text \<open>The nodes of the first \<open>k\<close> tasks in one time step.\<close>

definition step_nodes :: "TraactGraph \<Rightarrow> nat \<Rightarrow> nat \<Rightarrow> (string, node) omap \<Rightarrow> bool" where
  "step_nodes g i k m \<longleftrightarrow> omap_ok m \<and> fst ` set m = fst ` set (take k (tasks g)) \<and>
     (\<forall>l < k. map_of m (name_at g l) = Some (task_node g i l))"

lemma step_nodes_emplace:
  assumes ok: "omap_ok (tasks g)" and k: "k < length (tasks g)" and m: "step_nodes g i k m"
  shows "step_nodes g i (Suc k) (emplace (name_at g k) (task_node g i k) m)"
proof -
  have new: "name_at g k \<notin> fst ` set (take k (tasks g))"
  proof
    assume "name_at g k \<in> fst ` set (take k (tasks g))"
    then obtain l where "l < k" "name_at g l = name_at g k" using k by (auto simp: in_set_conv_nth)
    with name_at_inj [OF ok, of l k] k show False by simp
  qed
  then have "map_of m (name_at g k) = None" using m by (simp add: step_nodes_def map_of_eq_None_iff)
  moreover have "name_at g l \<noteq> name_at g k" if "l < k" for l
    using that k name_at_inj [OF ok, of l k] by auto
  ultimately show ?thesis
    using m k by (auto simp: step_nodes_def take_Suc_conv_app_nth less_Suc_eq)
qed

lemma createTimeStep_ok:
  assumes ready: "flow_ready b g" and i: "i < getTimeStepCount g"
    and f: "i < length (task_flow_tasks f)" "task_flow_tasks f ! i = []"
      "length (flow_nodes f) = task_node g i 0"
  shows "\<exists>f'. createTimeStep g i f = Inr f' \<and> length (flow_nodes f') = task_node g (Suc i) 0 \<and>
    flow_precedes f' = flow_precedes f \<and> start_entries f' = start_entries f \<and>
    (\<exists>m. task_flow_tasks f' = (task_flow_tasks f)[i := m] \<and> step_nodes g i (length (tasks g)) m)"
proof -
  define data where "data = task_data g ! i"
  have data: "data \<in> set (task_data g)" "vec_at (task_data g) i = Inr data"
    using i by (simp_all add: data_def getTimeStepCount_def vec_at_def)
  let ?body = "\<lambda>(name, t) f. bind_res (map_at data name) (\<lambda>data_pointer.
       (case standard_body (kind (task_at g t)) i of
          None \<Rightarrow> Inr f
        | Some (type, body) \<Rightarrow>
            let (task, f1) = flow_emplace (getTaskId type name (int i)) body f
            in Inr (f1\<lparr>task_flow_tasks :=
                 (task_flow_tasks f1)[i := emplace name task (task_flow_tasks f1 ! i)]\<rparr>)))"
  have "\<exists>f'. fold_res ?body (take k (tasks g)) f = Inr f' \<and> length (flow_nodes f') = task_node g i k \<and>
    flow_precedes f' = flow_precedes f \<and> start_entries f' = start_entries f \<and>
    (\<exists>m. task_flow_tasks f' = (task_flow_tasks f)[i := m] \<and> step_nodes g i k m)"
    if "k \<le> length (tasks g)" for k
    using that
  proof (induction k)
    case 0
    have "task_flow_tasks f = (task_flow_tasks f)[i := []]" using f(2) by (metis list_update_id)
    with f show ?case by (intro exI [of _ f]) (auto simp: step_nodes_def)
  next
    case (Suc k)
    then obtain f1 m where f1: "fold_res ?body (take k (tasks g)) f = Inr f1"
      "length (flow_nodes f1) = task_node g i k" "flow_precedes f1 = flow_precedes f"
      "start_entries f1 = start_entries f" "task_flow_tasks f1 = (task_flow_tasks f)[i := m]"
      "step_nodes g i k m" by auto
    from Suc.prems have k: "k < length (tasks g)" by simp
    obtain a t where x: "tasks g ! k = (a, t)" by (cases "tasks g ! k")
    from flow_ready_task(3) [OF ready k] x obtain type body where
      body: "standard_body (kind (task_at g t)) i = Some (type, body)" using standard_body_total by fastforce
    have "a \<in> fst ` set (tasks g)" using k x by (metis fst_conv image_eqI nth_mem)
    then have "a \<in> fst ` set data" using flow_readyD(7) [OF ready data(1)] by blast
    then obtain d where d: "map_of data a = Some d" by (metis map_of_eq_None_iff option.exhaust)
    let ?f' = "f1\<lparr>flow_nodes := flow_nodes f1 @ [\<lparr>node_name = getTaskId type a (int i), node_body = body\<rparr>],
      task_flow_tasks := (task_flow_tasks f)[i := emplace a (task_node g i k) m]\<rparr>"
    have "?body (tasks g ! k) f1 = Inr ?f'"
      using body d f1(2,5) f(1) x by (simp add: map_at_def flow_emplace_def)
    then have "fold_res ?body (take (Suc k) (tasks g)) f = Inr ?f'"
      using f1(1) k by (simp add: take_Suc_conv_app_nth fold_res_append)
    moreover have "step_nodes g i (Suc k) (emplace a (task_node g i k) m)"
      using step_nodes_emplace [OF flow_readyD(1) [OF ready] k f1(6)] x by simp
    ultimately show ?case
      using f1(2-4) by (intro exI [of _ ?f']) (auto simp: task_node_def)
  qed
  from this [OF order_refl] obtain f' where "fold_res ?body (tasks g) f = Inr f'"
    "length (flow_nodes f') = task_node g i (length (tasks g))" "flow_precedes f' = flow_precedes f"
    "start_entries f' = start_entries f"
    "\<exists>m. task_flow_tasks f' = (task_flow_tasks f)[i := m] \<and> step_nodes g i (length (tasks g)) m" by auto
  moreover have "createTimeStep g i f = fold_res ?body (tasks g) f"
  proof -
    have "vec_at (task_flow_tasks f) i = Inr (task_flow_tasks f ! i)" using f(1) by simp
    then show ?thesis by (simp add: createTimeStep_def data(2) del: vec_at_Inr)
  qed
  ultimately show ?thesis by (auto simp: task_node_def)
qed

lemma StandardTasks_ok:
  assumes ready: "flow_ready b g"
  shows "\<exists>f. StandardTasks_buildGraph g TraactTaskFlowGraph_empty = Inr f \<and>
    length (flow_nodes f) = task_node g (getTimeStepCount g) 0 \<and> flow_precedes f = [] \<and> start_entries f = [] \<and>
    length (task_flow_tasks f) = getTimeStepCount g \<and>
    (\<forall>i < getTimeStepCount g. step_nodes g i (length (tasks g)) (task_flow_tasks f ! i))"
proof -
  let ?n = "getTimeStepCount g"
  define f0 where "f0 = TraactTaskFlowGraph_empty\<lparr>task_flow_tasks := replicate ?n []\<rparr>"
  have "\<exists>f. fold_res (createTimeStep g) [0..<j] f0 = Inr f \<and>
      length (flow_nodes f) = task_node g j 0 \<and> flow_precedes f = [] \<and> start_entries f = [] \<and>
      length (task_flow_tasks f) = ?n \<and> (\<forall>i < ?n. if i < j
        then step_nodes g i (length (tasks g)) (task_flow_tasks f ! i) else task_flow_tasks f ! i = [])"
    if "j \<le> ?n" for j
    using that
  proof (induction j)
    case 0
    show ?case by (simp add: f0_def TraactTaskFlowGraph_empty_def task_node_def)
  next
    case (Suc j)
    then obtain f where f: "fold_res (createTimeStep g) [0..<j] f0 = Inr f"
      "length (flow_nodes f) = task_node g j 0" "flow_precedes f = []" "start_entries f = []"
      "length (task_flow_tasks f) = ?n" "\<forall>i < ?n. if i < j
        then step_nodes g i (length (tasks g)) (task_flow_tasks f ! i) else task_flow_tasks f ! i = []" by auto
    from Suc.prems have j: "j < ?n" by simp
    with f(5,6) have "j < length (task_flow_tasks f)" "task_flow_tasks f ! j = []" by auto
    from createTimeStep_ok [OF ready j this f(2)] f(1,3,4,5,6) j show ?case
      by (fastforce simp: fold_res_append nth_list_update)
  qed
  from this [OF order_refl] show ?thesis
    by (simp add: StandardTasks_buildGraph_def f0_def TraactTaskFlowGraph_empty_def) metis
qed

lemma TaskFlowCuda_ok:
  assumes ready: "flow_ready b g" and len: "length (task_flow_tasks f) = getTimeStepCount g"
  shows "TaskFlowCuda_buildGraph g f = Inr f"
proof -
  let ?n = "getTimeStepCount g"
  have nop: "fold_res (\<lambda>(a, t) f. case kind (task_at g t) of
          TraactCudaTask name comps to_successors \<Rightarrow>
            bind_res (createCudaFlow g i name comps to_successors f) (\<lambda>(cuda_flow, f1).
            Inr (f1\<lparr>task_flow_tasks :=
              (task_flow_tasks f1)[i := emplace a cuda_flow (task_flow_tasks f1 ! i)]\<rparr>))
        | _ \<Rightarrow> Inr f) xs f = Inr f" if "set xs \<subseteq> set (tasks g)" for xs i
    using that
  proof (induction xs)
    case (Cons x xs)
    then have "task_ready g x" using ready by (auto simp: flow_ready_def)
    then have "standard_body (kind (task_at g (snd x))) 0 \<noteq> None" by (simp add: task_ready_def)
    with Cons show ?case by (cases x; cases "kind (task_at g (snd x))") auto
  qed simp
  have "fold_res (createGpuTimeStepTasks g) [0..<j] f = Inr f" if "j \<le> ?n" for j
    using that
  proof (induction j)
    case (Suc j)
    then have "vec_at (task_flow_tasks f) j = Inr (task_flow_tasks f ! j)" using len by simp
    then have "createGpuTimeStepTasks g j f = Inr f"
      using nop [OF order_refl] by (simp add: createGpuTimeStepTasks_def del: vec_at_Inr)
    with Suc show ?case by (simp add: fold_res_append)
  qed simp
  then show ?thesis by (simp add: TaskFlowCuda_buildGraph_def)
qed

section \<open>The start and the end of a time step\<close>

definition start_node :: "TraactGraph \<Rightarrow> nat \<Rightarrow> node" where
  "start_node g i = task_node g (getTimeStepCount g) (2 * i)"

definition end_node :: "TraactGraph \<Rightarrow> nat \<Rightarrow> node" where
  "end_node g i = task_node g (getTimeStepCount g) (Suc (2 * i))"

definition full_nodes :: "TraactGraph \<Rightarrow> nat \<Rightarrow> (string, node) omap \<Rightarrow> bool" where
  "full_nodes g i m \<longleftrightarrow> (\<forall>k < length (tasks g). map_of m (name_at g k) = Some (task_node g i k)) \<and>
     map_of m kTimeStepStart = Some (start_node g i) \<and> map_of m kTimeStepEnd = Some (end_node g i)"

text \<open>A loop whose iterations only add dependencies.\<close>

lemma fold_precedes:
  assumes "\<And>x f'. x \<in> set xs \<Longrightarrow> task_flow_tasks f' = task_flow_tasks f \<Longrightarrow>
      body x f' = Inr (f'\<lparr>flow_precedes := flow_precedes f' @ es x\<rparr>)"
  shows "fold_res body xs f = Inr (f\<lparr>flow_precedes := flow_precedes f @ concat (map es xs)\<rparr>)"
  using assms
proof (induction xs arbitrary: f)
  case (Cons x xs)
  let ?f = "f\<lparr>flow_precedes := flow_precedes f @ es x\<rparr>"
  from Cons.prems [of x f] have "body x f = Inr ?f" by simp
  moreover have "fold_res body xs ?f =
      Inr (?f\<lparr>flow_precedes := flow_precedes ?f @ concat (map es xs)\<rparr>)"
    by (rule Cons.IH) (use Cons.prems in simp)
  ultimately show ?case by simp
qed simp

definition start_points :: "TraactGraph \<Rightarrow> nat set" where
  "start_points g = {k. k < length (tasks g) \<and> isStartPoint (task_at g (ptr_at g k))}"

definition end_points :: "TraactGraph \<Rightarrow> nat set" where
  "end_points g = {k. k < length (tasks g) \<and> isEndPoint (task_at g (ptr_at g k))}"

text \<open>The loops over the tasks that connect the start and the end of a time step.\<close>

lemma start_loop:
  assumes "\<forall>x \<in> set (tasks g). map_of (task_flow_tasks f ! i) (fst x) = Some (N (fst x))"
  shows "fold_res (\<lambda>(a, t) f. if isStartPoint (task_at g t) then
      bind_res (map_at (task_flow_tasks f ! i) a) (\<lambda>task. Inr (node_precede S task f)) else Inr f) (tasks g) f =
    Inr (f\<lparr>flow_precedes := flow_precedes f @
      concat (map (\<lambda>x. if isStartPoint (task_at g (snd x)) then [(S, N (fst x))] else []) (tasks g))\<rparr>)"
proof (rule fold_precedes)
  fix x and f' :: TraactTaskFlowGraph
  assume "x \<in> set (tasks g)" "task_flow_tasks f' = task_flow_tasks f"
  then have "map_at (task_flow_tasks f' ! i) (fst x) = Inr (N (fst x))" using assms by (simp add: map_at_def)
  then show "(case x of (a, t) \<Rightarrow> \<lambda>f. if isStartPoint (task_at g t) then
       bind_res (map_at (task_flow_tasks f ! i) a) (\<lambda>task. Inr (node_precede S task f)) else Inr f) f' =
      Inr (f'\<lparr>flow_precedes := flow_precedes f' @
        (if isStartPoint (task_at g (snd x)) then [(S, N (fst x))] else [])\<rparr>)"
    by (cases x) (simp add: node_precede_def del: map_at_Inr)
qed

lemma end_loop:
  assumes "\<forall>x \<in> set (tasks g). map_of (task_flow_tasks f ! i) (fst x) = Some (N (fst x))"
  shows "fold_res (\<lambda>(a, t) f. if isEndPoint (task_at g t) then
      bind_res (map_at (task_flow_tasks f ! i) a) (\<lambda>task. Inr (node_precede task E f)) else Inr f) (tasks g) f =
    Inr (f\<lparr>flow_precedes := flow_precedes f @
      concat (map (\<lambda>x. if isEndPoint (task_at g (snd x)) then [(N (fst x), E)] else []) (tasks g))\<rparr>)"
proof (rule fold_precedes)
  fix x and f' :: TraactTaskFlowGraph
  assume "x \<in> set (tasks g)" "task_flow_tasks f' = task_flow_tasks f"
  then have "map_at (task_flow_tasks f' ! i) (fst x) = Inr (N (fst x))" using assms by (simp add: map_at_def)
  then show "(case x of (a, t) \<Rightarrow> \<lambda>f. if isEndPoint (task_at g t) then
       bind_res (map_at (task_flow_tasks f ! i) a) (\<lambda>task. Inr (node_precede task E f)) else Inr f) f' =
      Inr (f'\<lparr>flow_precedes := flow_precedes f' @
        (if isEndPoint (task_at g (snd x)) then [(N (fst x), E)] else [])\<rparr>)"
    by (cases x) (simp add: node_precede_def del: map_at_Inr)
qed

lemma createStartStopTasks_ok:
  assumes ready: "flow_ready b g" and i: "i < length (task_flow_tasks f)"
    and m: "step_nodes g i (length (tasks g)) (task_flow_tasks f ! i)"
    and nodes: "length (flow_nodes f) = start_node g i"
  shows "\<exists>f'. createStartStopTasks g i f = Inr f' \<and> length (flow_nodes f') = start_node g (Suc i) \<and>
    start_entries f' = start_entries f \<and>
    set (flow_precedes f') = set (flow_precedes f) \<union> {start_node g i} \<times> task_node g i ` start_points g \<union>
      task_node g i ` end_points g \<times> {end_node g i} \<and>
    (\<exists>m. task_flow_tasks f' = (task_flow_tasks f)[i := m] \<and> full_nodes g i m)"
proof -
  let ?m = "task_flow_tasks f ! i" and ?S = "start_node g i" and ?E = "end_node g i"
  note free = flow_readyD(4,5) [OF ready]
  have look: "map_of ?m a = Some (task_node g i k)" if "tasks g ! k = (a, t)" "k < length (tasks g)" for a t k
    using m that by (auto simp: step_nodes_def)
  have keys: "fst ` set ?m = fst ` set (tasks g)" and mok: "omap_ok ?m" using m by (simp_all add: step_nodes_def)
  define N where "N a = the (map_of ?m a)" for a
  have N: "map_of ?m (fst x) = Some (N (fst x))" if "x \<in> set (tasks g)" for x
    using that look unfolding N_def by (metis in_set_conv_nth option.sel surjective_pairing)
  have NI: "N (name_at g k) = task_node g i k" if "k < length (tasks g)" for k
    using m that by (simp add: N_def step_nodes_def)
  let ?es1 = "\<lambda>x. if isStartPoint (task_at g (snd x)) then [(?S, N (fst x))] else []"
  let ?es2 = "\<lambda>x. if isEndPoint (task_at g (snd x)) then [(N (fst x), ?E)] else []"
  define f1 where "f1 = f\<lparr>flow_nodes := flow_nodes f @
    [\<lparr>node_name = getTaskId kControlFlow kTimeStepStart (int i), node_body = TimeStepStartBody i\<rparr>]\<rparr>"
  define f2 where "f2 = f1\<lparr>flow_precedes := flow_precedes f1 @ concat (map ?es1 (tasks g))\<rparr>"
  define f3 where "f3 = f2\<lparr>task_flow_tasks := (task_flow_tasks f)[i := emplace kTimeStepStart ?S ?m]\<rparr>"
  define f4 where "f4 = f3\<lparr>flow_nodes := flow_nodes f3 @
    [\<lparr>node_name = getTaskId kControlFlow kTimeStepEnd (int i), node_body = TimeStepEndBody i\<rparr>]\<rparr>"
  define f5 where "f5 = f4\<lparr>flow_precedes := flow_precedes f4 @ concat (map ?es2 (tasks g))\<rparr>"
  define m5 where "m5 = emplace kTimeStepEnd ?E (emplace kTimeStepStart ?S ?m)"
  have "\<forall>x \<in> set (tasks g). map_of (task_flow_tasks f1 ! i) (fst x) = Some (N (fst x))"
    using N by (simp add: f1_def)
  note r1 = start_loop [OF this, where S = ?S, folded f2_def]
  have "map_of (task_flow_tasks f4 ! i) (fst x) = Some (N (fst x))" if x: "x \<in> set (tasks g)" for x
  proof -
    have "fst x \<noteq> kTimeStepStart" using free(1) x by force
    then show ?thesis using N [OF x] mok i by (simp add: f4_def f3_def)
  qed
  then have "\<forall>x \<in> set (tasks g). map_of (task_flow_tasks f4 ! i) (fst x) = Some (N (fst x))" by blast
  note r2 = end_loop [OF this, where E = ?E, folded f5_def]
  have e1: "flow_emplace (getTaskId kControlFlow kTimeStepStart (int i)) (TimeStepStartBody i) f = (?S, f1)"
    by (simp add: flow_emplace_def f1_def nodes)
  have upd: "f2\<lparr>task_flow_tasks := (task_flow_tasks f2)[i := emplace kTimeStepStart ?S (task_flow_tasks f2 ! i)]\<rparr> = f3"
    by (simp add: f3_def f2_def f1_def)
  have "length (flow_nodes f3) = ?E"
    using nodes by (simp add: f3_def f2_def f1_def start_node_def end_node_def task_node_def)
  then have e2: "flow_emplace (getTaskId kControlFlow kTimeStepEnd (int i)) (TimeStepEndBody i) f3 = (?E, f4)"
    by (simp add: flow_emplace_def f4_def)
  have fin: "f5\<lparr>task_flow_tasks := (task_flow_tasks f5)[i := emplace kTimeStepEnd ?E (task_flow_tasks f5 ! i)]\<rparr> =
      f5\<lparr>task_flow_tasks := (task_flow_tasks f)[i := m5]\<rparr>"
    using i by (simp add: f5_def f4_def f3_def m5_def)
  have "vec_at (task_flow_tasks f) i = Inr ?m" using i by simp
  then have "createStartStopTasks g i f = Inr (f5\<lparr>task_flow_tasks := (task_flow_tasks f)[i := m5]\<rparr>)"
    unfolding createStartStopTasks_def Let_def
    by (simp only: bind_res.simps e1 prod.case r1 upd e2 r2 fin)
  moreover have "full_nodes g i m5"
  proof -
    have "kTimeStepStart \<notin> fst ` set ?m" "kTimeStepEnd \<notin> fst ` set ?m" using keys free by simp_all
    then have "map_of ?m kTimeStepStart = None" "map_of ?m kTimeStepEnd = None" by (simp_all add: map_of_eq_None_iff)
    moreover have "name_at g k \<noteq> kTimeStepStart \<and> name_at g k \<noteq> kTimeStepEnd" if "k < length (tasks g)" for k
      using free that by (metis image_eqI nth_mem)
    ultimately show ?thesis using mok m by (simp add: m5_def full_nodes_def step_nodes_def)
  qed
  moreover have "set (flow_precedes f5) = set (flow_precedes f) \<union> {?S} \<times> task_node g i ` start_points g \<union>
      task_node g i ` end_points g \<times> {?E}"
  proof -
    have "set (concat (map ?es1 (tasks g))) = {?S} \<times> task_node g i ` start_points g"
      using NI by (force simp: start_points_def in_set_conv_nth image_iff)
    moreover have "set (concat (map ?es2 (tasks g))) = task_node g i ` end_points g \<times> {?E}"
      using NI by (force simp: end_points_def in_set_conv_nth image_iff)
    moreover have "flow_precedes f5 = (flow_precedes f @ concat (map ?es1 (tasks g))) @ concat (map ?es2 (tasks g))"
      by (simp add: f5_def f4_def f3_def f2_def f1_def)
    ultimately show ?thesis by (simp only: set_append)
  qed
  moreover have "length (flow_nodes f5) = start_node g (Suc i)" "start_entries f5 = start_entries f"
    using nodes by (simp_all add: f5_def f4_def f3_def f2_def f1_def start_node_def task_node_def)
  ultimately show ?thesis
    by (intro exI [of _ "f5\<lparr>task_flow_tasks := (task_flow_tasks f)[i := m5]\<rparr>"]) auto
qed

definition step_edges :: "TraactGraph \<Rightarrow> nat \<Rightarrow> (node \<times> node) set" where
  "step_edges g i = {start_node g i} \<times> task_node g i ` start_points g \<union>
     task_node g i ` end_points g \<times> {end_node g i}"

definition full :: "TraactGraph \<Rightarrow> TraactTaskFlowGraph \<Rightarrow> bool" where
  "full g f \<longleftrightarrow> length (task_flow_tasks f) = getTimeStepCount g \<and>
     (\<forall>i < getTimeStepCount g. full_nodes g i (task_flow_tasks f ! i))"

lemma TimeStep_ok:
  assumes ready: "flow_ready b g" and len: "length (task_flow_tasks f) = getTimeStepCount g"
    and m: "\<forall>i < getTimeStepCount g. step_nodes g i (length (tasks g)) (task_flow_tasks f ! i)"
    and nodes: "length (flow_nodes f) = start_node g 0"
  shows "\<exists>f'. TimeStep_buildGraph g f = Inr f' \<and> full g f' \<and> start_entries f' = start_entries f \<and>
    length (flow_nodes f') = start_node g (getTimeStepCount g) \<and>
    set (flow_precedes f') = set (flow_precedes f) \<union> (\<Union>i < getTimeStepCount g. step_edges g i)"
proof -
  let ?n = "getTimeStepCount g"
  have "\<exists>f'. fold_res (createStartStopTasks g) [0..<j] f = Inr f' \<and> length (task_flow_tasks f') = ?n \<and>
      (\<forall>i < ?n. if i < j then full_nodes g i (task_flow_tasks f' ! i)
         else task_flow_tasks f' ! i = task_flow_tasks f ! i) \<and>
      start_entries f' = start_entries f \<and> length (flow_nodes f') = start_node g j \<and>
      set (flow_precedes f') = set (flow_precedes f) \<union> (\<Union>i < j. step_edges g i)"
    if "j \<le> ?n" for j
    using that
  proof (induction j)
    case 0
    show ?case using len nodes by simp
  next
    case (Suc j)
    then obtain f1 where f1: "fold_res (createStartStopTasks g) [0..<j] f = Inr f1"
      "length (task_flow_tasks f1) = ?n"
      "\<forall>i < ?n. if i < j then full_nodes g i (task_flow_tasks f1 ! i)
         else task_flow_tasks f1 ! i = task_flow_tasks f ! i"
      "start_entries f1 = start_entries f" "length (flow_nodes f1) = start_node g j"
      "set (flow_precedes f1) = set (flow_precedes f) \<union> (\<Union>i < j. step_edges g i)" by auto
    from Suc.prems have j: "j < ?n" by simp
    then have "step_nodes g j (length (tasks g)) (task_flow_tasks f1 ! j)" using f1(3) m by force
    from createStartStopTasks_ok [OF ready _ this f1(5)] f1(2) j
    obtain f2 m2 where f2: "createStartStopTasks g j f1 = Inr f2" "length (flow_nodes f2) = start_node g (Suc j)"
      "start_entries f2 = start_entries f1"
      "set (flow_precedes f2) = set (flow_precedes f1) \<union> step_edges g j"
      "task_flow_tasks f2 = (task_flow_tasks f1)[j := m2]" "full_nodes g j m2"
      unfolding step_edges_def Un_assoc by auto
    have "\<forall>i < ?n. if i < Suc j then full_nodes g i (task_flow_tasks f2 ! i)
         else task_flow_tasks f2 ! i = task_flow_tasks f ! i"
      using f1(2,3) f2(5,6) by (auto simp: nth_list_update less_Suc_eq)
    moreover have "set (flow_precedes f2) = set (flow_precedes f) \<union> (\<Union>i < Suc j. step_edges g i)"
      using f1(6) f2(4) by (auto simp: lessThan_Suc)
    ultimately show ?case using f1(1,2,4) f2 by (simp add: fold_res_append)
  qed
  from this [OF order_refl] show ?thesis by (auto simp: TimeStep_buildGraph_def full_def)
qed

section \<open>Connections\<close>

text \<open>The nodes before this phase are those of the tasks and of the time steps; all others are seams.\<close>

definition seams_from :: "TraactGraph \<Rightarrow> node" where
  "seams_from g = start_node g (getTimeStepCount g)"

definition inner :: "TraactGraph \<Rightarrow> TraactTaskFlowGraph \<Rightarrow> (node \<times> node) set" where
  "inner g f = {e \<in> set (flow_precedes f). fst e < seams_from g \<and> snd e < seams_from g}"

definition joins ::
    "TraactGraph \<Rightarrow> TraactTaskFlowGraph \<Rightarrow> TraactTaskFlowGraph \<Rightarrow> (node \<times> node) set \<Rightarrow> bool" where
  "joins g f f' E \<longleftrightarrow> task_flow_tasks f' = task_flow_tasks f \<and>
     length (flow_nodes f) \<le> length (flow_nodes f') \<and> inner g f' = inner g f \<union> E"

lemma joins_refl: "joins g f f {}"
  by (simp add: joins_def)

lemma joins_trans: "joins g f f' E \<Longrightarrow> joins g f' f'' E' \<Longrightarrow> joins g f f'' (E \<union> E')"
  by (auto simp: joins_def)

lemma joins_seam: "joins g f f' {} \<Longrightarrow> joins g f' f'' E \<Longrightarrow> joins g f f'' E"
  "joins g f f' E \<Longrightarrow> joins g f' f'' {} \<Longrightarrow> joins g f f'' E"
  by (auto simp: joins_def)

lemma joins_precede:
  "p < seams_from g \<Longrightarrow> q < seams_from g \<Longrightarrow> joins g f (node_precede p q f) {(p, q)}"
  "seams_from g \<le> p \<or> seams_from g \<le> q \<Longrightarrow> joins g f (node_precede p q f) {}"
  by (auto simp: joins_def inner_def node_precede_def)

lemma joins_emplace: "joins g f (snd (flow_emplace name body f)) {}"
  by (simp add: joins_def inner_def flow_emplace_def)

lemma joins_push: "seams_from g \<le> s \<Longrightarrow> joins g f (push_start_entry e s f) {}"
  by (auto simp: joins_def inner_def push_start_entry_def node_precede_def Let_def)

lemma joins_full: "joins g f f' E \<Longrightarrow> full g f \<Longrightarrow> full g f'"
  by (simp add: joins_def full_def)

lemma joins_fold:
  assumes step: "\<And>x h. x \<in> set xs \<Longrightarrow> full g h \<Longrightarrow> seams_from g \<le> length (flow_nodes h) \<Longrightarrow>
      \<exists>h'. body x h = Inr h' \<and> joins g h h' (E x)"
    and f: "full g f" "seams_from g \<le> length (flow_nodes f)"
  shows "\<exists>f'. fold_res body xs f = Inr f' \<and> joins g f f' (\<Union>x \<in> set xs. E x)"
  using assms
proof (induction xs arbitrary: f)
  case Nil
  then show ?case by (simp add: joins_refl)
next
  case (Cons x xs)
  from Cons.prems(1) [of x f] Cons.prems(2,3) obtain h where h: "body x f = Inr h" "joins g f h (E x)" by auto
  then have "full g h" "seams_from g \<le> length (flow_nodes h)"
    using Cons.prems(2,3) joins_full by (auto simp: joins_def)
  then have "\<exists>f'. fold_res body xs h = Inr f' \<and> joins g h f' (\<Union>x \<in> set xs. E x)"
    by (intro Cons.IH) (use Cons.prems(1) in auto)
  then obtain f' where f': "fold_res body xs h = Inr f'" "joins g h f' (\<Union>x \<in> set xs. E x)" by blast
  from joins_trans [OF h(2) f'(2)] h(1) f'(1) show ?case by auto
qed

lemma create_seam_ok:
  assumes "seams_from g \<le> length (flow_nodes f)" and "i < length (time_step_buffer b)"
  shows "\<exists>e s d f'. create_seam b name i f = Inr (e, s, d, f') \<and> joins g f f' {} \<and>
    seams_from g \<le> e \<and> seams_from g \<le> s \<and> seams_from g \<le> d"
proof -
  have "getTimeStepBuffer b (int i) = Inr (time_step_buffer b ! i)"
    using assms(2) by (simp add: getTimeStepBuffer_def raw_get_int)
  with assms(1) show ?thesis
    by (auto simp: create_seam_def flow_emplace_def joins_def inner_def)
qed

text \<open>A node for every time step that is known by one name.\<close>

definition known_as :: "TraactGraph \<Rightarrow> string \<Rightarrow> (nat \<Rightarrow> node) \<Rightarrow> bool" where
  "known_as g name N \<longleftrightarrow> (\<forall>i < getTimeStepCount g. N i < seams_from g \<and>
     (\<forall>m. full_nodes g i m \<longrightarrow> map_of m name = Some (N i)))"

lemma known_as_at:
  "known_as g name N \<Longrightarrow> full g f \<Longrightarrow> i < getTimeStepCount g \<Longrightarrow> flow_task_at f i name = Inr (N i)"
  by (auto simp: known_as_def full_def flow_task_at_def raw_get_int map_at_def)

lemma mult_Suc_le: "i < n \<Longrightarrow> Suc i * m \<le> n * (m::nat)"
  by (intro mult_le_mono1) simp

lemma known_as_task:
  assumes k: "k < length (tasks g)"
  shows "known_as g (name_at g k) (\<lambda>i. task_node g i k)"
proof -
  have "task_node g i k < seams_from g" if "i < getTimeStepCount g" for i
    using mult_Suc_le [OF that, of "length (tasks g)"] k
    by (simp add: task_node_def seams_from_def start_node_def)
  then show ?thesis using k by (simp add: known_as_def full_nodes_def)
qed

lemma known_as_start: "known_as g kTimeStepStart (start_node g)"
  and known_as_end: "known_as g kTimeStepEnd (end_node g)"
  by (auto simp: known_as_def full_nodes_def seams_from_def start_node_def end_node_def task_node_def)

lemma inter_connect_ok:
  assumes ready: "flow_ready b g" and full: "full g f" "seams_from g \<le> length (flow_nodes f)"
    and N: "known_as g name N"
  shows "\<exists>f'. inter_connect_time_steps b (getTimeStepCount g) e0 name f = Inr f' \<and>
    joins g f f' {(N i, N (Suc i)) | i. Suc i < getTimeStepCount g}"
proof -
  let ?n = "getTimeStepCount g"
  note n = flow_readyD(2,3) [OF ready]
  have "0 < length (time_step_buffer b)" using n by linarith
  from create_seam_ok [OF full(2) this, of name] obtain e s d f1 where
    f1: "create_seam b name 0 f = Inr (e, s, d, f1)" "joins g f f1 {}"
    and seam: "seams_from g \<le> e" "seams_from g \<le> s" "seams_from g \<le> d" by blast
  have full1: "full g f1" "seams_from g \<le> length (flow_nodes f1)"
    using joins_full [OF f1(2) full(1)] f1(2) full(2) by (auto simp: joins_def)
  let ?body = "\<lambda>i f. bind_res (flow_task_at f i name) (\<lambda>task. bind_res (flow_task_at f (i + 1) name)
      (\<lambda>next_task. Inr (node_precede task next_task f)))"
  have "\<exists>f2. fold_res ?body [0..<?n - 1] f1 = Inr f2 \<and>
      joins g f1 f2 (\<Union>i \<in> set [0..<?n - 1]. {(N i, N (Suc i))})"
  proof (rule joins_fold [OF _ full1])
    fix i and h :: TraactTaskFlowGraph
    assume i: "i \<in> set [0..<?n - 1]" and h: "full g h"
    then have at: "flow_task_at h i name = Inr (N i)" "flow_task_at h (i + 1) name = Inr (N (Suc i))"
      using known_as_at [OF N h] by auto
    have "joins g h (node_precede (N i) (N (Suc i)) h) {(N i, N (Suc i))}"
      by (rule joins_precede(1)) (use N i in \<open>auto simp: known_as_def\<close>)
    with at show "\<exists>h'. ?body i h = Inr h' \<and> joins g h h' {(N i, N (Suc i))}" by simp
  qed
  then obtain f2 where f2: "fold_res ?body [0..<?n - 1] f1 = Inr f2"
    "joins g f1 f2 (\<Union>i \<in> set [0..<?n - 1]. {(N i, N (Suc i))})" by blast
  have "full g f2" using joins_full [OF f2(2) full1(1)] .
  then have at: "flow_task_at f2 0 name = Inr (N 0)" "flow_task_at f2 (?n - 1) name = Inr (N (?n - 1))"
    using known_as_at [OF N] n by auto
  let ?f3 = "node_precede (N (?n - 1)) e f2"
  let ?f4 = "node_precede e d (node_precede e s ?f3)"
  let ?f5 = "node_precede s (N 0) ?f4"
  have "joins g f2 ?f3 {}" "joins g ?f3 (node_precede e s ?f3) {}" "joins g (node_precede e s ?f3) ?f4 {}"
    "joins g ?f4 ?f5 {}" "joins g ?f5 (push_start_entry e0 e ?f5) {}"
    using seam by (auto intro: joins_precede(2) joins_push)
  then have "joins g f2 (push_start_entry e0 e ?f5) {}" by (meson joins_seam)
  with f1(2) f2(2) have "joins g f (push_start_entry e0 e ?f5) (\<Union>i \<in> set [0..<?n - 1]. {(N i, N (Suc i))})"
    by (meson joins_seam)
  moreover have "(\<Union>i \<in> set [0..<?n - 1]. {(N i, N (Suc i))}) = {(N i, N (Suc i)) | i. Suc i < ?n}"
    using n(1) by (intro set_eqI) (force simp: Suc_less_eq2 less_diff_conv)
  ultimately show ?thesis using f1(1) f2(1) at by (simp add: inter_connect_time_steps_def Let_def)
qed

lemma connect_time_step_ok:
  assumes ready: "flow_ready b g" and full: "full g f" "seams_from g \<le> length (flow_nodes f)"
    and i: "i < getTimeStepCount g"
  shows "\<exists>f'. connect_time_step_end_to_start b e0 i f = Inr f' \<and> joins g f f' {}"
proof -
  from create_seam_ok [OF full(2), of i b kTimeStepSelf] i flow_readyD(3) [OF ready] obtain e s d f1 where
    f1: "create_seam b kTimeStepSelf i f = Inr (e, s, d, f1)" "joins g f f1 {}"
    and seam: "seams_from g \<le> e" "seams_from g \<le> s" "seams_from g \<le> d" by auto
  have "full g f1" using joins_full [OF f1(2) full(1)] .
  then have at: "flow_task_at f1 i kTimeStepStart = Inr (start_node g i)"
    "flow_task_at f1 i kTimeStepEnd = Inr (end_node g i)"
    using known_as_at [OF known_as_start] known_as_at [OF known_as_end] i by auto
  let ?f2 = "node_precede (end_node g i) e f1"
  let ?f3 = "node_precede e d (node_precede e s ?f2)"
  let ?f4 = "node_precede s (start_node g i) ?f3"
  have "joins g f1 ?f2 {}" "joins g ?f2 (node_precede e s ?f2) {}" "joins g (node_precede e s ?f2) ?f3 {}"
    "joins g ?f3 ?f4 {}" "joins g ?f4 (push_start_entry e0 e ?f4) {}"
    using seam by (auto intro: joins_precede(2) joins_push)
  with f1(2) have "joins g f (push_start_entry e0 e ?f4) {}" by (meson joins_seam)
  then show ?thesis using f1(1) at by (simp add: connect_time_step_end_to_start_def Let_def)
qed

section \<open>The dependencies of the flow\<close>

definition task_index :: "TraactGraph \<Rightarrow> (nat \<times> nat) set" where
  "task_index g = {(k, l). k < length (tasks g) \<and> l < length (tasks g) \<and>
     ptr_at g l \<in> set (successors (task_at g (ptr_at g k)))}"

definition serial_tasks :: "TraactGraph \<Rightarrow> nat set" where
  "serial_tasks g = {k. k < length (tasks g) \<and> ptr_at g k \<in> set (successorsInterTimeStep (task_at g (ptr_at g k)))}"

text \<open>Within a time step: the dependencies of the task graph.\<close>

definition copied_edges :: "TraactGraph \<Rightarrow> nat \<Rightarrow> (node \<times> node) set" where
  "copied_edges g i = {(task_node g i k, task_node g i l) | k l. (k, l) \<in> task_index g}"

text \<open>Between consecutive time steps.\<close>

definition later_edges :: "TraactGraph \<Rightarrow> nat \<Rightarrow> (node \<times> node) set" where
  "later_edges g i = (if Suc i < getTimeStepCount g then
     {(start_node g i, start_node g (Suc i)), (end_node g i, end_node g (Suc i))} \<union>
     {(task_node g i k, task_node g (Suc i) k) | k. k \<in> serial_tasks g} else {})"

definition all_edges :: "TraactGraph \<Rightarrow> (node \<times> node) set" where
  "all_edges g = (\<Union>i < getTimeStepCount g. step_edges g i \<union> copied_edges g i \<union> later_edges g i)"

lemma task_node_bound: "i < getTimeStepCount g \<Longrightarrow> k < length (tasks g) \<Longrightarrow> task_node g i k < seams_from g"
  using known_as_task by (auto simp: known_as_def)

lemma successor_index:
  assumes ready: "flow_ready b g" and k: "k < length (tasks g)"
    and q: "q \<in> set (successors (task_at g (ptr_at g k)))"
  shows "\<exists>l < length (tasks g). q = ptr_at g l \<and> getId (kind (task_at g q)) = name_at g l \<and> (k, l) \<in> task_index g"
proof -
  from flow_ready_task(4) [OF ready k] q have "q \<in> snd ` set (tasks g)" by auto
  then obtain l where l: "l < length (tasks g)" "q = ptr_at g l" by (auto simp: in_set_conv_nth)
  with flow_ready_task(2) [OF ready l(1)] k q show ?thesis by (auto simp: task_index_def)
qed

lemma connectTimeStepComponents_ok:
  assumes ready: "flow_ready b g" and i: "i < getTimeStepCount g"
    and full: "full g f" "seams_from g \<le> length (flow_nodes f)"
  shows "\<exists>f'. connectTimeStepComponents g i f = Inr f' \<and> joins g f f' (copied_edges g i)"
proof -
  define m where "m = task_flow_tasks f ! i"
  have vec: "vec_at (task_flow_tasks f) i = Inr m" using full(1) i by (simp add: m_def full_def)
  have m: "full_nodes g i m" using full(1) i by (simp add: m_def full_def)
  have at: "map_of m (name_at g k) = Some (task_node g i k)" if "k < length (tasks g)" for k
    using m that by (simp add: full_nodes_def)
  define E where "E k = {(task_node g i k, task_node g i l) | l. (k, l) \<in> task_index g}" for k
  let ?inner = "\<lambda>current_task successor f. case map_of m (getId (kind (task_at g successor))) of
            Some successor_task \<Rightarrow> Inr (node_precede current_task successor_task f)
          | None \<Rightarrow> Inl LogicError"
  let ?body = "\<lambda>(a, t) f. bind_res (map_at m a) (\<lambda>current_task.
       fold_res (?inner current_task) (successors (task_at g t)) f)"
  have "\<exists>f'. fold_res (\<lambda>k. ?body (tasks g ! k)) [0..<length (tasks g)] f = Inr f' \<and>
      joins g f f' (\<Union>k \<in> set [0..<length (tasks g)]. E k)"
  proof (rule joins_fold [OF _ full])
    fix k and h :: TraactTaskFlowGraph
    assume "k \<in> set [0..<length (tasks g)]" and h: "full g h" "seams_from g \<le> length (flow_nodes h)"
    then have k: "k < length (tasks g)" by simp
    let ?succs = "successors (task_at g (ptr_at g k))"
    let ?E = "\<lambda>q. {(task_node g i k, task_node g i l) | l. l < length (tasks g) \<and> ptr_at g l = q}"
    have "\<exists>h'. fold_res (?inner (task_node g i k)) ?succs h = Inr h' \<and> joins g h h' (\<Union>q \<in> set ?succs. ?E q)"
    proof (rule joins_fold [OF _ h])
      fix q and h1 :: TraactTaskFlowGraph
      assume q: "q \<in> set ?succs"
      from successor_index [OF ready k q] obtain l where l: "l < length (tasks g)" "q = ptr_at g l"
        "getId (kind (task_at g q)) = name_at g l" by auto
      have same: "l' = l" if "l' < length (tasks g)" "ptr_at g l' = q" for l'
        using that l name_at_inj [OF flow_readyD(1) [OF ready], of l' l] flow_ready_task(2) [OF ready] by metis
      then have "?E q = {(task_node g i k, task_node g i l)}" using l by auto
      moreover have "joins g h1 (node_precede (task_node g i k) (task_node g i l) h1)
          {(task_node g i k, task_node g i l)}"
        by (rule joins_precede(1)) (simp_all add: task_node_bound i k l)
      ultimately show "\<exists>h'. ?inner (task_node g i k) q h1 = Inr h' \<and> joins g h1 h' (?E q)"
        using at [OF l(1)] l(3) by simp
    qed
    moreover have "(\<Union>q \<in> set ?succs. ?E q) = E k" using k by (auto simp: E_def task_index_def)
    ultimately show "\<exists>h'. ?body (tasks g ! k) h = Inr h' \<and> joins g h h' (E k)"
      using at [OF k] by (cases "tasks g ! k") (simp add: map_at_def)
  qed
  moreover have "(\<Union>k \<in> set [0..<length (tasks g)]. E k) = copied_edges g i"
    unfolding E_def copied_edges_def task_index_def set_upt by force
  ultimately show ?thesis
    by (simp add: connectTimeStepComponents_def vec fold_res_nth [of _ "tasks g"] del: vec_at_Inr)
qed

lemma later_dependencies_ok:
  assumes ready: "flow_ready b g" and full: "full g f" "seams_from g \<le> length (flow_nodes f)"
  shows "\<exists>f'. fold_res (\<lambda>(a, current_task) f.
           fold_res (\<lambda>successor_task f.
             later_dependency b (getTimeStepCount g) e0 (getId (kind (task_at g current_task)))
               (getId (kind (task_at g successor_task))) f)
             (successorsInterTimeStep (task_at g current_task)) f) (tasks g) f = Inr f' \<and>
    joins g f f' {(task_node g i k, task_node g (Suc i) k) | i k. Suc i < getTimeStepCount g \<and> k \<in> serial_tasks g}"
proof -
  let ?n = "getTimeStepCount g"
  define E where "E k = {(task_node g i k, task_node g (Suc i) k) | i. Suc i < ?n}" for k
  let ?inner = "\<lambda>t q f. later_dependency b ?n e0 (getId (kind (task_at g t))) (getId (kind (task_at g q))) f"
  let ?body = "\<lambda>(a, t) f. fold_res (?inner t) (successorsInterTimeStep (task_at g t)) f"
  have "\<exists>f'. fold_res (\<lambda>k. ?body (tasks g ! k)) [0..<length (tasks g)] f = Inr f' \<and>
      joins g f f' (\<Union>k \<in> set [0..<length (tasks g)]. if k \<in> serial_tasks g then E k else {})"
  proof (rule joins_fold [OF _ full])
    fix k and h :: TraactTaskFlowGraph
    assume "k \<in> set [0..<length (tasks g)]" and h: "full g h" "seams_from g \<le> length (flow_nodes h)"
    then have k: "k < length (tasks g)" by simp
    let ?t = "ptr_at g k"
    let ?succs = "successorsInterTimeStep (task_at g ?t)"
    have "\<exists>h'. fold_res (?inner ?t) ?succs h = Inr h' \<and> joins g h h' (\<Union>q \<in> set ?succs. E k)"
    proof (rule joins_fold [OF _ h])
      fix q and h1 :: TraactTaskFlowGraph
      assume q: "q \<in> set ?succs" and h1: "full g h1" "seams_from g \<le> length (flow_nodes h1)"
      from q flow_ready_task(6) [OF ready k] have "q = ?t" by auto
      then show "\<exists>h'. ?inner ?t q h1 = Inr h' \<and> joins g h1 h' (E k)"
        using inter_connect_ok [OF ready h1 known_as_task [OF k]] flow_ready_task(2) [OF ready k]
        by (simp add: later_dependency_def E_def)
    qed
    moreover have "(\<Union>q \<in> set ?succs. E k) = (if k \<in> serial_tasks g then E k else {})"
      using flow_ready_task(6) [OF ready k] k by (cases ?succs) (auto simp: serial_tasks_def)
    ultimately show "\<exists>h'. ?body (tasks g ! k) h = Inr h' \<and>
        joins g h h' (if k \<in> serial_tasks g then E k else {})"
      by (cases "tasks g ! k") simp
  qed
  moreover have "(\<Union>k \<in> set [0..<length (tasks g)]. if k \<in> serial_tasks g then E k else {}) =
      {(task_node g i k, task_node g (Suc i) k) | i k. Suc i < ?n \<and> k \<in> serial_tasks g}"
    unfolding E_def serial_tasks_def by (auto split: if_splits) blast
  ultimately show ?thesis by (simp add: fold_res_nth [of _ "tasks g"])
qed

lemma createInterTimeStepDependencies_ok:
  assumes ready: "flow_ready b g" and full: "full g f" "seams_from g \<le> length (flow_nodes f)"
  shows "\<exists>f'. createInterTimeStepDependencies b g f = Inr f' \<and>
    joins g f f' (\<Union>i < getTimeStepCount g. later_edges g i)"
proof -
  let ?n = "getTimeStepCount g"
  note n = flow_readyD(2) [OF ready]
  obtain s0 f1 where f1: "flow_emplace (getTaskId kSeamEntry kGlobalStart 0) GlobalStartBody f = (s0, f1)"
    by (cases "flow_emplace (getTaskId kSeamEntry kGlobalStart 0) GlobalStartBody f")
  obtain d0 f2 where f2: "flow_emplace (getTaskId kSeamEnd kGlobalStart 0) GlobalEndBody f1 = (d0, f2)"
    by (cases "flow_emplace (getTaskId kSeamEnd kGlobalStart 0) GlobalEndBody f1")
  obtain e0 f3 where f3: "flow_emplace (getTaskId kSeamStart kGlobalStart 0) StartEntryBody f2 = (e0, f3)"
    by (cases "flow_emplace (getTaskId kSeamStart kGlobalStart 0) StartEntryBody f2")
  from joins_emplace [of g f] joins_emplace [of g f1] joins_emplace [of g f2] f1 f2 f3
  have j3: "joins g f f1 {}" "joins g f1 f2 {}" "joins g f2 f3 {}" by (metis snd_conv)+
  have "e0 = length (flow_nodes f2)" using f3 by (simp add: flow_emplace_def)
  moreover have "length (flow_nodes f) \<le> length (flow_nodes f2)" using j3 by (auto simp: joins_def)
  ultimately have e0: "seams_from g \<le> e0" using full(2) by simp
  let ?f4 = "node_precede e0 d0 (node_precede s0 e0 f3)"
  have "joins g f3 (node_precede s0 e0 f3) {}" "joins g (node_precede s0 e0 f3) ?f4 {}"
    using e0 by (auto intro: joins_precede(2))
  with j3 have j4: "joins g f ?f4 {}" by (meson joins_seam)
  have full4: "full g ?f4" "seams_from g \<le> length (flow_nodes ?f4)"
    using joins_full [OF j4 full(1)] j4 full(2) by (auto simp: joins_def)
  have "\<exists>f5. fold_res (connect_time_step_end_to_start b e0) [0..<?n] ?f4 = Inr f5 \<and>
      joins g ?f4 f5 (\<Union>i \<in> set [0..<?n]. {})"
    by (rule joins_fold [OF _ full4]) (simp add: connect_time_step_ok [OF ready])
  then obtain f5 where f5: "fold_res (connect_time_step_end_to_start b e0) [0..<?n] ?f4 = Inr f5"
    "joins g ?f4 f5 {}" by auto
  have full5: "full g f5" "seams_from g \<le> length (flow_nodes f5)"
    using joins_full [OF f5(2) full4(1)] f5(2) full4(2) by (auto simp: joins_def)
  from inter_connect_ok [OF ready full5 known_as_start] obtain f6 where
    f6: "inter_connect_time_steps b ?n e0 kTimeStepStart f5 = Inr f6"
      "joins g f5 f6 {(start_node g i, start_node g (Suc i)) | i. Suc i < ?n}" by blast
  have full6: "full g f6" "seams_from g \<le> length (flow_nodes f6)"
    using joins_full [OF f6(2) full5(1)] f6(2) full5(2) by (auto simp: joins_def)
  from inter_connect_ok [OF ready full6 known_as_end] obtain f7 where
    f7: "inter_connect_time_steps b ?n e0 kTimeStepEnd f6 = Inr f7"
      "joins g f6 f7 {(end_node g i, end_node g (Suc i)) | i. Suc i < ?n}" by blast
  have full7: "full g f7" "seams_from g \<le> length (flow_nodes f7)"
    using joins_full [OF f7(2) full6(1)] f7(2) full6(2) by (auto simp: joins_def)
  from later_dependencies_ok [OF ready full7] obtain f8 where
    f8: "fold_res (\<lambda>(a, current_task) f.
           fold_res (\<lambda>successor_task f.
             later_dependency b ?n e0 (getId (kind (task_at g current_task)))
               (getId (kind (task_at g successor_task))) f)
             (successorsInterTimeStep (task_at g current_task)) f) (tasks g) f7 = Inr f8"
      "joins g f7 f8 {(task_node g i k, task_node g (Suc i) k) | i k. Suc i < ?n \<and> k \<in> serial_tasks g}" by blast
  have "createInterTimeStepDependencies b g f = Inr f8"
    using n f5(1) f6(1) f7(1) f8(1) by (simp add: createInterTimeStepDependencies_def Let_def f1 f2 f3)
  moreover have "joins g f f8 ({(start_node g i, start_node g (Suc i)) | i. Suc i < ?n} \<union>
      {(end_node g i, end_node g (Suc i)) | i. Suc i < ?n} \<union>
      {(task_node g i k, task_node g (Suc i) k) | i k. Suc i < ?n \<and> k \<in> serial_tasks g})"
    using joins_trans [OF joins_trans [OF f6(2) f7(2)] f8(2)] joins_seam(1) [OF j4 joins_seam(1) [OF f5(2)]] by blast
  moreover have "{(start_node g i, start_node g (Suc i)) | i. Suc i < ?n} \<union>
      {(end_node g i, end_node g (Suc i)) | i. Suc i < ?n} \<union>
      {(task_node g i k, task_node g (Suc i) k) | i k. Suc i < ?n \<and> k \<in> serial_tasks g} =
      (\<Union>i < ?n. later_edges g i)"
    unfolding later_edges_def by (auto split: if_splits) fastforce+
  ultimately show ?thesis by auto
qed

theorem flow_built:
  assumes ready: "flow_ready b g"
  shows "\<exists>f. TraactTaskFlowBuilder_build b g TraactTaskFlowGraph_empty = Inr f \<and> full g f \<and>
    inner g f = all_edges g"
proof -
  let ?n = "getTimeStepCount g"
  from StandardTasks_ok [OF ready] obtain f1 where f1:
    "StandardTasks_buildGraph g TraactTaskFlowGraph_empty = Inr f1"
    "length (flow_nodes f1) = task_node g ?n 0" "flow_precedes f1 = []" "start_entries f1 = []"
    "length (task_flow_tasks f1) = ?n"
    "\<forall>i < ?n. step_nodes g i (length (tasks g)) (task_flow_tasks f1 ! i)" by blast
  note f2 = TaskFlowCuda_ok [OF ready f1(5)]
  have "length (flow_nodes f1) = start_node g 0" using f1(2) by (simp add: start_node_def task_node_def)
  from TimeStep_ok [OF ready f1(5,6) this] f1(3) obtain f3 where f3:
    "TimeStep_buildGraph g f1 = Inr f3" "full g f3" "length (flow_nodes f3) = seams_from g"
    "set (flow_precedes f3) = (\<Union>i < ?n. step_edges g i)" by (auto simp: seams_from_def)
  have "inner g f3 = (\<Union>i < ?n. step_edges g i)"
  proof -
    have "fst e < seams_from g \<and> snd e < seams_from g" if "i < ?n" "e \<in> step_edges g i" for i e
      using that task_node_bound [OF that(1)] known_as_start known_as_end
      by (auto simp: step_edges_def start_points_def end_points_def known_as_def)
    then show ?thesis by (auto simp: inner_def f3(4))
  qed
  have "\<exists>f4. fold_res (connectTimeStepComponents g) [0..<?n] f3 = Inr f4 \<and>
      joins g f3 f4 (\<Union>i \<in> set [0..<?n]. copied_edges g i)"
    by (rule joins_fold) (simp_all add: f3(2,3) connectTimeStepComponents_ok [OF ready])
  then obtain f4 where f4: "fold_res (connectTimeStepComponents g) [0..<?n] f3 = Inr f4"
    "joins g f3 f4 (\<Union>i < ?n. copied_edges g i)" by (auto simp: lessThan_atLeast0)
  have full4: "full g f4" "seams_from g \<le> length (flow_nodes f4)"
    using joins_full [OF f4(2) f3(2)] f4(2) f3(3) by (auto simp: joins_def)
  from createInterTimeStepDependencies_ok [OF ready full4] obtain f5 where f5:
    "createInterTimeStepDependencies b g f4 = Inr f5" "joins g f4 f5 (\<Union>i < ?n. later_edges g i)" by blast
  have "TraactTaskFlowBuilder_build b g TraactTaskFlowGraph_empty = Inr f5"
    using f1(1) f2 f3(1) f4(1) f5(1) by (simp add: TraactTaskFlowBuilder_build_def Connections_buildGraph_def)
  moreover have "full g f5" using joins_full [OF f5(2) full4(1)] .
  moreover have "inner g f5 = all_edges g"
    using f4(2) f5(2) \<open>inner g f3 = _\<close> by (auto simp: joins_def all_edges_def)
  ultimately show ?thesis by blast
qed

section \<open>Every time step runs from its start to its end\<close>

lemma topological_rank:
  assumes fin: "finite R" and ac: "acyclic R"
  obtains r :: "'a \<Rightarrow> nat" where "\<And>x y. (x, y) \<in> R \<Longrightarrow> r x < r y"
proof
  fix x y assume xy: "(x, y) \<in> R"
  have "{z. (z, y) \<in> R\<^sup>+} \<subseteq> Domain (R\<^sup>+)" by blast
  then have "finite {z. (z, y) \<in> R\<^sup>+}"
    using finite_subset finite_Domain [OF fin] by (metis trancl_domain)
  moreover have "{z. (z, x) \<in> R\<^sup>+} \<subset> {z. (z, y) \<in> R\<^sup>+}"
    using xy ac by (auto simp: acyclic_def intro: trancl_into_trancl)
  ultimately show "card {z. (z, x) \<in> R\<^sup>+} < card {z. (z, y) \<in> R\<^sup>+}" by (rule psubset_card_mono)
qed

lemma rank_acyclic:
  fixes r :: "'a \<Rightarrow> nat"
  assumes "\<And>x y. (x, y) \<in> R \<Longrightarrow> r x < r y"
  shows "acyclic R"
proof -
  have "R \<subseteq> measure r" using assms by auto
  then show ?thesis by (meson wf_acyclic wf_measure wf_subset)
qed

lemma task_index_links: "flow_ready b g \<Longrightarrow> (k, l) \<in> task_index g \<Longrightarrow> (ptr_at g k, ptr_at g l) \<in> links (task_store g)"
  using flow_ready_task(1) by (auto simp: task_index_def links_def task_at_def)

lemma task_index_acyclic:
  assumes ready: "flow_ready b g" and ac: "acyclic (links (task_store g))"
  shows "acyclic (task_index g)" "finite (task_index g)"
proof -
  obtain r :: "task_ptr \<Rightarrow> nat" where "\<And>x y. (x, y) \<in> links (task_store g) \<Longrightarrow> r x < r y"
    using topological_rank [OF finite_links ac] by blast
  then have "r (ptr_at g k) < r (ptr_at g l)" if "(k, l) \<in> task_index g" for k l
    using task_index_links [OF ready that] by blast
  then show "acyclic (task_index g)" by (rule rank_acyclic)
  have "task_index g \<subseteq> {..<length (tasks g)} \<times> {..<length (tasks g)}" by (auto simp: task_index_def)
  then show "finite (task_index g)" by (rule finite_subset) simp
qed

lemma decode_task:
  fixes i k :: nat
  assumes "i < n" and "k < m"
  shows "(i * m + k) div m = i" "(i * m + k) mod m = k" "i * m + k < n * m"
  using assms mult_Suc_le [of i n m] by auto

theorem inner_acyclic:
  assumes ready: "flow_ready b g" and ac: "acyclic (links (task_store g))"
  shows "acyclic (all_edges g)"
proof -
  let ?n = "getTimeStepCount g" and ?m = "length (tasks g)"
  obtain r :: "nat \<Rightarrow> nat" where r: "\<And>k l. (k, l) \<in> task_index g \<Longrightarrow> r k < r l"
    using topological_rank task_index_acyclic [OF ready ac] by metis
  obtain L where L: "\<And>k. k < ?m \<Longrightarrow> r k < L"
    by (metis (no_types, lifting) finite_imageI finite_lessThan finite_nat_set_iff_bounded imageI lessThan_iff)
  define rank where "rank x = (if x < ?n * ?m then (x div ?m) * (L + 2) + 1 + r (x mod ?m)
      else ((x - ?n * ?m) div 2) * (L + 2) + ((x - ?n * ?m) mod 2) * (L + 1))" for x
  have task: "rank (task_node g i k) = i * (L + 2) + 1 + r k" if "i < ?n" "k < ?m" for i k
    using decode_task [OF that] by (simp add: rank_def task_node_def)
  have start: "rank (start_node g i) = i * (L + 2)" for i
    by (simp add: rank_def start_node_def task_node_def)
  have "Suc (2 * i) div 2 = i" "Suc (2 * i) mod 2 = 1" for i :: nat by presburger+
  then have fin: "rank (end_node g i) = i * (L + 2) + L + 1" for i
    by (simp add: rank_def end_node_def task_node_def)
  have "rank x < rank y" if xy: "(x, y) \<in> step_edges g i \<union> copied_edges g i \<union> later_edges g i" and i: "i < ?n" for x y i
    using xy
  proof (elim UnE)
    assume "(x, y) \<in> step_edges g i"
    then show ?thesis
      using L i by (auto simp: step_edges_def start_points_def end_points_def start fin task)
  next
    assume "(x, y) \<in> copied_edges g i"
    then obtain k l where "(k, l) \<in> task_index g" "x = task_node g i k" "y = task_node g i l"
      by (auto simp: copied_edges_def)
    then show ?thesis using r [of k l] i by (simp add: task task_index_def)
  next
    assume "(x, y) \<in> later_edges g i"
    then show ?thesis
      by (auto simp: later_edges_def start fin task serial_tasks_def split: if_splits)
  qed
  then have "rank x < rank y" if "(x, y) \<in> all_edges g" for x y
    using that by (auto simp: all_edges_def)
  then show ?thesis by (rule rank_acyclic)
qed

theorem time_step_encloses:
  assumes ready: "flow_ready b g" and ac: "acyclic (links (task_store g))"
    and i: "i < getTimeStepCount g" and k: "k < length (tasks g)"
  shows "(start_node g i, task_node g i k) \<in> (all_edges g)\<^sup>+ \<and> (task_node g i k, end_node g i) \<in> (all_edges g)\<^sup>+"
proof
  have wf: "wf (task_index g)" "wf ((task_index g)\<inverse>)"
    using task_index_acyclic [OF ready ac] finite_acyclic_wf finite_acyclic_wf_converse by blast+
  have step: "(task_node g i k, task_node g i l) \<in> all_edges g" if "(k, l) \<in> task_index g" for k l
    using that i by (auto simp: all_edges_def copied_edges_def)
  show "(start_node g i, task_node g i k) \<in> (all_edges g)\<^sup>+"
    using wf(1) k
  proof (induction k rule: wf_induct_rule)
    case (less k)
    show ?case
    proof (cases "predecessors (task_at g (ptr_at g k))")
      case Nil
      then have "k \<in> start_points g" using less.prems by (simp add: start_points_def isStartPoint_def List.null_iff)
      then have "(start_node g i, task_node g i k) \<in> all_edges g" using i by (auto simp: all_edges_def step_edges_def)
      then show ?thesis by auto
    next
      case (Cons p ps)
      then have p: "p \<in> set (predecessors (task_at g (ptr_at g k)))" by simp
      with flow_ready_task(5) [OF ready less.prems] have "p \<in> snd ` set (tasks g)" by blast
      then obtain l where l: "l < length (tasks g)" "p = ptr_at g l" by (auto simp: in_set_conv_nth)
      have "(p, ptr_at g k) \<in> back_links (task_store g)"
        using p flow_ready_task(1) [OF ready less.prems] by (simp add: back_links_def task_at_def)
      then have "ptr_at g k \<in> set (successors (task_at g p))"
        using flow_readyD(6) [OF ready] by (simp add: links_def task_at_def)
      with l less.prems have lk: "(l, k) \<in> task_index g" by (simp add: task_index_def)
      from less.IH [OF lk l(1)] step [OF lk] show ?thesis by (rule trancl_into_trancl)
    qed
  qed
  show "(task_node g i k, end_node g i) \<in> (all_edges g)\<^sup>+"
    using wf(2) k
  proof (induction k rule: wf_induct_rule)
    case (less k)
    show ?case
    proof (cases "successors (task_at g (ptr_at g k))")
      case Nil
      then have "k \<in> end_points g" using less.prems by (simp add: end_points_def isEndPoint_def List.null_iff)
      then have "(task_node g i k, end_node g i) \<in> all_edges g" using i by (auto simp: all_edges_def step_edges_def)
      then show ?thesis by auto
    next
      case (Cons q qs)
      then have "q \<in> set (successors (task_at g (ptr_at g k)))" by simp
      from successor_index [OF ready less.prems this] obtain l where l: "l < length (tasks g)" "(k, l) \<in> task_index g"
        by blast
      from less.IH [OF _ l(1)] step [OF l(2)] l(2) show ?thesis by (meson converse_iff trancl_into_trancl2)
    qed
  qed
qed

section \<open>The task graph of plain components can be built\<close>

text \<open>
  Components of the domain that are neither module nor CUDA components, with a buffer in every time
  step, and no component that has the name of a node of the time step.
\<close>

definition plain_domain :: "(component_ptr \<Rightarrow> component_class) \<Rightarrow> ComponentGraph \<Rightarrow> int \<Rightarrow> bool" where
  "plain_domain cls cg td \<longleftrightarrow> (\<forall>x \<in> set (td_components cg td). cls (snd x) = PlainComponent \<and>
     fst x \<noteq> kTimeStepStart \<and> fst x \<noteq> kTimeStepEnd)"

definition buffers_for :: "ComponentGraph \<Rightarrow> int \<Rightarrow> nat \<Rightarrow> TimeDomainBuffer \<Rightarrow> bool" where
  "buffers_for cg td n b \<longleftrightarrow> n \<le> length (time_step_buffer b) \<and>
     (\<forall>i < n. \<forall>x \<in> set (td_components cg td). is_ok (task_data_of (time_step_buffer b ! i) i (fst x)))"

lemma task_kind_of_simps [simp]:
  "getId (task_kind_of cg td x) = fst x" "standard_body (task_kind_of cg td x) i \<noteq> None"
  by (simp_all add: task_kind_of_def)

lemma plain_builders:
  assumes plain: "plain_domain cls cg td"
  shows "ModuleGraphBuilder_buildGraph cls cg td (td_components cg td) g = Inr (ModuleTables_empty, g)"
    and "domain_graph_ok cg td \<Longrightarrow> CudaGraphBuilder_buildGraph cls cg (td_components cg td) g = Inr g"
proof -
  have "extractModules cls cg td g xs m = Inr m" if "set xs \<subseteq> set (td_components cg td)" for xs m
    using that plain
    by (induction xs) (auto simp: extractModules_def extract_module_def plain_domain_def)
  then show "ModuleGraphBuilder_buildGraph cls cg td (td_components cg td) g = Inr (ModuleTables_empty, g)"
    by (simp add: ModuleGraphBuilder_buildGraph_def createTasksAndDependencies_def ModuleTables_empty_def)
  assume ok: "domain_graph_ok cg td"
  have "fold_res (\<lambda>(a, c) table. case cls c of
          CudaComponent cuda_graph \<Rightarrow>
            bind_res (inst_of cg a) (\<lambda>p.
            let entry = (case map_of table cuda_graph of Some e \<Rightarrow> e | None \<Rightarrow> [])
            in Inr (assign cuda_graph (emplace (instance_id p) c entry) table))
        | _ \<Rightarrow> Inr table) xs t = Inr t" if "set xs \<subseteq> set (td_components cg td)"
    for xs and t :: "(string, (string, component_ptr) omap) omap"
    using that plain by (induction xs) (auto simp: plain_domain_def)
  then have create: "Cuda_createTasks cls cg (td_components cg td) g = Inr g"
    by (simp add: Cuda_createTasks_def cuda_components_def)
  have none: "getCudaGraph cls cg (td_components cg td) h (fst x) = Inr None" if x: "x \<in> set (td_components cg td)" for x h
  proof -
    have "case inst_of cg (fst x) of Inl e \<Rightarrow> False | Inr p \<Rightarrow> instance_id p = fst x"
      using td_component_inst [OF ok x] by simp
    then have "find_component cg (td_components cg td) (fst x) \<noteq> None"
      using x unfolding find_component_def find_None_iff by (metis (mono_tags, lifting) case_prod_beta)
    then obtain k c where kc: "find_component cg (td_components cg td) (fst x) = Some (k, c)" by auto
    then have "(k, c) \<in> set (td_components cg td)"
      unfolding find_component_def find_Some_iff by (metis nth_mem)
    with plain have "cls c = PlainComponent" by (auto simp: plain_domain_def)
    with kc show ?thesis by (simp add: getCudaGraph_def)
  qed
  have "Cuda_createDependencies cls cg (td_components cg td) g = Inr g"
  proof -
    have "fold_res (\<lambda>(a, c) g. bind_res (inst_of cg a) (\<lambda>p.
        updateComponentSuccessorsForGpu cls cg (td_components cg td) (instance_id p) g)) xs g = Inr g"
      if "set xs \<subseteq> set (td_components cg td)" for xs
      using that
    proof (induction xs)
      case (Cons x xs)
      then have x: "x \<in> set (td_components cg td)" by simp
      obtain a c where ac: "x = (a, c)" by (cases x)
      from td_component_inst [OF ok x] none [OF x, of g] Cons ac show ?case
        by (simp add: updateComponentSuccessorsForGpu_def)
    qed simp
    then show ?thesis by (simp add: Cuda_createDependencies_def)
  qed
  with create show "CudaGraphBuilder_buildGraph cls cg (td_components cg td) g = Inr g"
    by (simp add: CudaGraphBuilder_buildGraph_def)
qed

lemma fold_emplace_data:
  assumes "\<forall>x \<in> set xs. is_ok (f (fst x))"
  shows "\<exists>d. fold_res (\<lambda>(name, task) d. bind_res (f name) (\<lambda>v. Inr (emplace name v d))) xs d0 = Inr d \<and>
    fst ` set d = fst ` set d0 \<union> fst ` set xs"
  using assms
proof (induction xs arbitrary: d0)
  case (Cons x xs)
  obtain a t where x: "x = (a, t)" by (cases x)
  with Cons.prems obtain v where v: "f a = Inr v" by (auto simp: is_ok_iff)
  from Cons.IH [of "emplace a v d0"] Cons.prems x v show ?case by (auto simp del: is_ok.simps)
qed simp

lemma createTimeStepTraactTaskData_ok:
  assumes "n \<le> length (time_step_buffer b)"
    and "\<forall>i < n. \<forall>x \<in> set (tasks g). is_ok (task_data_of (time_step_buffer b ! i) i (fst x))"
  shows "\<exists>data. createTimeStepTraactTaskData n b g = Inr (g\<lparr>task_data := data\<rparr>) \<and> length data = n \<and>
    (\<forall>d \<in> set data. fst ` set d = fst ` set (tasks g))"
proof -
  let ?f = "\<lambda>i. bind_res (getTimeStepBuffer b (int i)) (\<lambda>time_step_buffer.
         fold_res (\<lambda>(name, task) time_step_data.
           bind_res (task_data_of time_step_buffer i name) (\<lambda>d.
           Inr (emplace name d time_step_data))) (tasks g) [])"
  have "\<exists>d. ?f i = Inr d \<and> fst ` set d = fst ` set (tasks g)" if i: "i < n" for i
  proof -
    have "getTimeStepBuffer b (int i) = Inr (time_step_buffer b ! i)"
      using i assms(1) by (simp add: getTimeStepBuffer_def raw_get_int)
    moreover have "\<forall>x \<in> set (tasks g). is_ok (task_data_of (time_step_buffer b ! i) i (fst x))"
      using assms(2) i by blast
    note fold_emplace_data [OF this, of "[]"]
    ultimately show ?thesis by simp
  qed
  then have "\<forall>i. \<exists>d. i < n \<longrightarrow> ?f i = Inr d \<and> fst ` set d = fst ` set (tasks g)" by blast
  from choice [OF this] obtain D where
    D: "\<And>i. i < n \<Longrightarrow> ?f i = Inr (D i) \<and> fst ` set (D i) = fst ` set (tasks g)" by blast
  then have "map_res ?f [0..<n] = Inr (map D [0..<n])" by (intro map_res_total) auto
  then have "createTimeStepTraactTaskData n b g = Inr (g\<lparr>task_data := map D [0..<n]\<rparr>)"
    unfolding createTimeStepTraactTaskData_def by simp
  moreover have "\<forall>d \<in> set (map D [0..<n]). fst ` set d = fst ` set (tasks g)" using D by auto
  ultimately show ?thesis by (intro exI [of _ "map D [0..<n]"]) simp
qed

lemma component_graph_task_ready:
  assumes ok: "domain_graph_ok cg td" and cgr: "component_graph cg td g"
    and x: "x \<in> set (tasks g)"
  shows "task_ready g x"
proof -
  let ?cs = "td_components cg td"
  from cgr have num: "numbered cg td g" by (simp add: component_graph_def)
  then have om: "omap_ok (tasks g)" by (simp add: numbered_def)
  obtain a t where at: "x = (a, t)" by (cases x)
  with x om have "map_of (tasks g) a = Some t" by (simp add: omap_mem_iff)
  then have t: "t < length ?cs" "fst (?cs ! t) = a" by (simp_all add: numbered_lookup [OF ok num])
  note len = numbered_lookup(2) [OF ok num]
  have "map kind (task_store g) = map (task_kind_of cg td) ?cs" using num by (simp add: numbered_def)
  then have kind: "kind (task_at g t) = task_kind_of cg td (?cs ! t)"
    unfolding task_at_def using t(1) len by (metis nth_map)
  have all: "j \<in> snd ` set (tasks g)" if "j < length ?cs" for j
  proof -
    have "map_of (tasks g) (fst (?cs ! j)) = Some j" using num that by (simp add: numbered_def)
    from map_of_SomeD [OF this] show ?thesis by force
  qed
  have succ: "set (successors (task_at g t)) \<subseteq> snd ` set (tasks g)"
  proof
    fix q assume "q \<in> set (successors (task_at g t))"
    then have "(t, q) \<in> links (task_store g)" using t(1) len by (simp add: links_def task_at_def)
    then have "q < length ?cs" using cgr by (simp add: component_graph_def positions_def)
    then show "q \<in> snd ` set (tasks g)" by (rule all)
  qed
  have pred: "set (predecessors (task_at g t)) \<subseteq> snd ` set (tasks g)"
  proof
    fix q assume "q \<in> set (predecessors (task_at g t))"
    then have "(q, t) \<in> back_links (task_store g)" using t(1) len by (simp add: back_links_def task_at_def)
    then have "q < length ?cs" using cgr by (simp add: component_graph_def positions_def)
    then show "q \<in> snd ` set (tasks g)" by (rule all)
  qed
  have "set (successorsInterTimeStep (task_at g t)) \<subseteq> {t}"
  proof
    fix q assume "q \<in> set (successorsInterTimeStep (task_at g t))"
    then have "(t, q) \<in> later_links (task_store g)" using t(1) len by (simp add: later_links_def task_at_def)
    then show "q \<in> {t}" using cgr by (simp add: component_graph_def serial_positions_def)
  qed
  with succ pred t len kind at show ?thesis by (simp add: task_ready_def)
qed

theorem plain_graph_built:
  assumes ready: "builder_ready cg td b" and plain: "plain_domain cls cg td"
    and td: "time_domain config = td" and n: "0 < ringbuffer_size config"
    and bufs: "buffers_for cg td (ringbuffer_size config) b"
  shows "\<exists>cb' g. TraactGraphBuilder_build cls cg config b cb = Inr (cb', ModuleTables_empty, g) \<and>
    component_graph cg td g \<and> flow_ready b g \<and> getTimeStepCount g = ringbuffer_size config"
proof -
  let ?n = "ringbuffer_size config"
  note ok = builder_readyD(1) [OF ready]
  note graph = domain_graph_okD(1,3) [OF ok]
  from component_graph_built [OF ready, of cb] obtain cb' g1 where g1:
    "ComponentGraphBuilder_buildGraph cg td b (td_components cg td) (cb, TraactGraph_empty) = Inr (cb', g1)"
    "component_graph cg td g1" by blast
  from g1(2) have num: "numbered cg td g1" by (simp add: component_graph_def)
  then have keys: "fst ` set (tasks g1) = fst ` set (td_components cg td)" by (simp add: numbered_def)
  have "\<forall>i < ?n. \<forall>x \<in> set (tasks g1). is_ok (task_data_of (time_step_buffer b ! i) i (fst x))"
  proof (intro allI impI ballI)
    fix i x assume i: "i < ?n" and "x \<in> set (tasks g1)"
    then have "fst x \<in> fst ` set (td_components cg td)" using keys by blast
    then obtain y where y: "y \<in> set (td_components cg td)" "fst y = fst x" by force
    with bufs i show "is_ok (task_data_of (time_step_buffer b ! i) i (fst x))"
      unfolding buffers_for_def by metis
  qed
  from createTimeStepTraactTaskData_ok [OF _ this] bufs obtain data where data:
    "createTimeStepTraactTaskData ?n b g1 = Inr (g1\<lparr>task_data := data\<rparr>)" "length data = ?n"
    "\<forall>d \<in> set data. fst ` set d = fst ` set (tasks g1)" by (auto simp: buffers_for_def)
  let ?g = "g1\<lparr>task_data := data\<rparr>"
  have cgr: "component_graph cg td ?g" using g1(2) by (simp add: component_graph_def numbered_def)
  have "TraactGraphBuilder_build cls cg config b cb = Inr (cb', ModuleTables_empty, ?g)"
    using getPatternsForTimeDomain_eq [OF graph] g1(1) plain_builders [OF plain] ok data(1)
    by (simp add: TraactGraphBuilder_build_def td)
  moreover have "flow_ready b ?g"
  proof -
    have "\<forall>x \<in> set (tasks ?g). task_ready ?g x" using component_graph_task_ready [OF ok cgr] by blast
    moreover have "kTimeStepStart \<notin> fst ` set (tasks g1)" "kTimeStepEnd \<notin> fst ` set (tasks g1)"
      unfolding keys using plain by (force simp: plain_domain_def)+
    moreover have "omap_ok (tasks g1)" using num by (simp add: numbered_def)
    ultimately show ?thesis
      using data(2,3) n bufs g1(2)
      by (simp add: flow_ready_def getTimeStepCount_def buffers_for_def component_graph_def)
  qed
  ultimately show ?thesis using cgr data(2) by (auto simp: getTimeStepCount_def)
qed

section \<open>Tasks of a module in consecutive time steps\<close>

text \<open>
  \<open>connect_end_to_next_start\<close> is meant to let the start task of the next time step wait for the end task
  of the current one. Both nodes it connects belong to the current time step.
\<close>

lemma connect_end_same_step:
  assumes n: "0 < getTimeStepCount g" "getTimeStepCount g \<le> length (time_step_buffer b)"
    and full: "full g f" "seams_from g \<le> length (flow_nodes f)"
    and N: "known_as g start_name N" and N': "known_as g end_name N'"
  shows "\<exists>f'. connect_end_to_next_start b (getTimeStepCount g) e0 start_name end_name f = Inr f' \<and>
    joins g f f' ({(N' i, N i) | i. Suc i < getTimeStepCount g} \<union>
      {(N' i, end_node g i) | i. i < getTimeStepCount g})"
proof -
  let ?n = "getTimeStepCount g"
  have "0 < length (time_step_buffer b)" using n by linarith
  from create_seam_ok [OF full(2) this, of start_name] obtain e s d f1 where
    f1: "create_seam b start_name 0 f = Inr (e, s, d, f1)" "joins g f f1 {}"
    and seam: "seams_from g \<le> e" "seams_from g \<le> s" "seams_from g \<le> d" by blast
  have full1: "full g f1" "seams_from g \<le> length (flow_nodes f1)"
    using joins_full [OF f1(2) full(1)] f1(2) full(2) by (auto simp: joins_def)
  let ?body = "\<lambda>i f. bind_res (flow_task_at f i end_name) (\<lambda>current_end_tasks.
         bind_res (flow_task_at f i start_name) (\<lambda>next_start_tasks.
         let f' = node_precede current_end_tasks next_start_tasks f
         in bind_res (flow_task_at f' i kTimeStepEnd) (\<lambda>time_step_end_task.
            Inr (node_precede current_end_tasks time_step_end_task f'))))"
  have "\<exists>f2. fold_res ?body [0..<?n - 1] f1 = Inr f2 \<and>
      joins g f1 f2 (\<Union>i \<in> set [0..<?n - 1]. {(N' i, N i)} \<union> {(N' i, end_node g i)})"
  proof (rule joins_fold [OF _ full1])
    fix i and h :: TraactTaskFlowGraph
    assume "i \<in> set [0..<?n - 1]" and h: "full g h"
    then have i: "i < ?n" by simp
    let ?h1 = "node_precede (N' i) (N i) h"
    let ?h2 = "node_precede (N' i) (end_node g i) ?h1"
    have j1: "joins g h ?h1 {(N' i, N i)}" and j2: "joins g ?h1 ?h2 {(N' i, end_node g i)}"
      using N N' known_as_end [of g] i by (auto intro!: joins_precede(1) simp: known_as_def)
    have "full g ?h1" using joins_full [OF j1 h] .
    then have "flow_task_at h i end_name = Inr (N' i)" "flow_task_at h i start_name = Inr (N i)"
      "flow_task_at ?h1 i kTimeStepEnd = Inr (end_node g i)"
      using known_as_at [OF N h i] known_as_at [OF N' h i] known_as_at [OF known_as_end _ i] by auto
    then show "\<exists>h'. ?body i h = Inr h' \<and> joins g h h' ({(N' i, N i)} \<union> {(N' i, end_node g i)})"
      using joins_trans [OF j1 j2] by (simp add: Let_def)
  qed
  then obtain f2 where f2: "fold_res ?body [0..<?n - 1] f1 = Inr f2"
    "joins g f1 f2 (\<Union>i \<in> set [0..<?n - 1]. {(N' i, N i)} \<union> {(N' i, end_node g i)})" by blast
  have "full g f2" using joins_full [OF f2(2) full1(1)] .
  then have at: "flow_task_at f2 (?n - 1) end_name = Inr (N' (?n - 1))" "flow_task_at f2 0 start_name = Inr (N 0)"
    "flow_task_at f2 (?n - 1) kTimeStepEnd = Inr (end_node g (?n - 1))"
    using known_as_at [OF N] known_as_at [OF N'] known_as_at [OF known_as_end] n by auto
  let ?f3 = "node_precede (N' (?n - 1)) e f2"
  let ?f4 = "node_precede e d (node_precede e s ?f3)"
  let ?f5 = "node_precede s (N 0) ?f4"
  let ?f6 = "node_precede (N' (?n - 1)) (end_node g (?n - 1)) ?f5"
  have "joins g f2 ?f3 {}" "joins g ?f3 (node_precede e s ?f3) {}" "joins g (node_precede e s ?f3) ?f4 {}"
    "joins g ?f4 ?f5 {}" using seam by (auto intro: joins_precede(2))
  then have "joins g f2 ?f5 {}" by (meson joins_seam)
  with f1(2) f2(2) have j5: "joins g f ?f5 (\<Union>i \<in> set [0..<?n - 1]. {(N' i, N i)} \<union> {(N' i, end_node g i)})"
    by (meson joins_seam)
  have "joins g ?f5 ?f6 {(N' (?n - 1), end_node g (?n - 1))}"
    using N' known_as_end [of g] n by (auto intro!: joins_precede(1) simp: known_as_def)
  moreover have "joins g ?f6 (push_start_entry e0 e ?f6) {}" using seam by (auto intro: joins_push)
  ultimately have "joins g f (push_start_entry e0 e ?f6)
     ((\<Union>i \<in> set [0..<?n - 1]. {(N' i, N i)} \<union> {(N' i, end_node g i)}) \<union> {(N' (?n - 1), end_node g (?n - 1))})"
    using joins_seam(2) [OF joins_trans [OF j5]] by blast
  moreover have "(\<Union>i \<in> set [0..<?n - 1]. {(N' i, N i)} \<union> {(N' i, end_node g i)}) \<union> {(N' (?n - 1), end_node g (?n - 1))} =
      {(N' i, N i) | i. Suc i < ?n} \<union> {(N' i, end_node g i) | i. i < ?n}"
  proof -
    have "i < ?n \<longleftrightarrow> i < ?n - 1 \<or> i = ?n - 1" "Suc i < ?n \<longleftrightarrow> i < ?n - 1" for i using n(1) by linarith+
    then show ?thesis by auto
  qed
  ultimately show ?thesis
    using f1(1) f2(1) at by (simp add: connect_end_to_next_start_def Let_def)
qed

end
