(* ===== verification/Pipeline.thy ===== *)
theory Pipeline
  imports SchedulerRequests FlowOk
begin

text \<open>
  How the parts fit together: the time domain buffer that \<open>init\<close> builds from a checked graph is what
  the task graph builder, the task flow builder and the scheduler need. \<open>startable\<close> collects what an
  application has to provide.
\<close>

section \<open>The buffer of a component\<close>

abbreviation domain_configs :: "ComponentGraph \<Rightarrow> int \<Rightarrow> (port_id, nat) omap \<Rightarrow> BufferConfig list" where
  "domain_configs cg td idx \<equiv> map (the_config cg td idx) (domain_components cg td)"

lemma domain_configs_distinct:
  assumes "domain_graph_ok cg td"
  shows "distinct (map bc_instance_id (domain_configs cg td idx))"
proof -
  have "map bc_instance_id (domain_configs cg td idx) = map snd (domain_components cg td)"
    by (simp add: the_config_def Let_def comp_def)
  with domain_graph_okD(3) [OF assms] show ?thesis
    by (simp only: domain_components_distinct domain_ready_def)
qed

lemma domain_component_buffer:
  assumes ok: "domain_graph_ok cg td" and x: "x \<in> set (domain_components cg td)"
    and built: "step_built td (domain_configs cg td idx) d t"
  shows "\<exists>k c. getComponentIndex t (snd x) = Inr k \<and> getComponentBufferByName t (snd x) = Inr c \<and>
    createComponentBuffer t (the_config cg td idx x) k = Inr c"
proof -
  from x obtain k where k: "k < length (domain_components cg td)" "domain_components cg td ! k = x"
    by (auto simp: in_set_conv_nth)
  let ?c = "component_buffers_list t ! k"
  have kc: "k < length (domain_configs cg td idx)" "domain_configs cg td idx ! k = the_config cg td idx x"
    using k by simp_all
  from built domain_configs_distinct [OF ok] kc(1)
  have "getComponentIndex t (bc_instance_id (domain_configs cg td idx ! k)) = Inr k"
    and c: "createComponentBuffer t (domain_configs cg td idx ! k) k = Inr ?c"
    and len: "length (component_buffers_list t) = length (domain_configs cg td idx)"
    unfolding step_built_def by blast+
  then have i: "getComponentIndex t (snd x) = Inr k" unfolding kc(2) by (simp add: the_config_def Let_def)
  moreover have "getComponentBufferByName t (snd x) = Inr ?c"
    using i k len by (simp add: getComponentBufferByName_def getComponentBuffer_def raw_get_int)
  ultimately show ?thesis using c unfolding kc(2) by blast
qed

lemma td_component_in_domain:
  assumes "x \<in> set (td_components cg td)"
  shows "(comp_type (the_inst cg (fst x)) td, fst x) \<in> set (domain_components cg td)"
  using assms by (auto simp: in_domain_components td_components_def)

section \<open>Connected ports\<close>

text \<open>The buffer index of a port in the configuration of its component.\<close>

lemma entry_of_port:
  assumes ok: "domain_graph_ok cg td" and x: "x \<in> set (domain_components cg td)"
    and t: "t \<in> {PRODUCER, CONSUMER}" and l: "l \<in> set (td_ports t (the_inst cg (snd x)) td)"
    and j: "map_of idx (loc_id t (the_inst cg (snd x)) l) = Some j"
  shows "\<exists>i. loc_index t (the_inst cg (snd x)) l = Inr i \<and>
    (int j, i) \<in> set (entries t (the_inst cg (snd x)) td idx)"
proof -
  let ?p = "the_inst cg (snd x)" and ?ls = "td_ports t (the_inst cg (snd x)) td"
  from l obtain k where k: "k < length ?ls" "?ls ! k = l" by (auto simp: in_set_conv_nth)
  note inst = domain_component_inst [OF ok x]
  from arg_cong [OF td_ports_index [OF inst(6,3) t], of "\<lambda>xs. xs ! k"] k
  have "loc_index t ?p l = Inr (int k)" by simp
  moreover from entries_nth [OF k(1), of idx] k(2) j have "(int j, int k) \<in> set (entries t ?p td idx)"
    by simp
  ultimately show ?thesis by blast
qed

lemma connected_indices:
  assumes ok: "domain_graph_ok cg td" and r: "routed cg td idx"
    and x: "x \<in> set (domain_components cg td)" and y: "y \<in> set (domain_components cg td)"
    and l: "l \<in> set (td_ports PRODUCER (the_inst cg (snd x)) td)"
    and m: "m \<in> set (td_ports CONSUMER (the_inst cg (snd y)) td)"
  shows "\<exists>j j'. map_of idx (loc_id PRODUCER (the_inst cg (snd x)) l) = Some j \<and>
    map_of idx (loc_id CONSUMER (the_inst cg (snd y)) m) = Some j' \<and>
    (j' = j \<longleftrightarrow> connected_to (port_inst_at (ports_of CONSUMER) (the_inst cg (snd y)) m) =
       loc_id PRODUCER (the_inst cg (snd x)) l)"
proof -
  let ?p = "the_inst cg (snd x)" and ?q = "the_inst cg (snd y)" and ?g = "graph_instance cg"
  from producer_slot [OF x l] obtain j where j: "j < length (slots cg td)" "slots cg td ! j = (?p, l)" by blast
  then have "loc_id PRODUCER ?p l \<in> owned ?g (slots cg td ! j)" by (simp add: owned_def)
  with r j(1) have jp: "map_of idx (loc_id PRODUCER ?p l) = Some j" unfolding routed_def by blast
  from consumer_slot [OF ok y m] obtain j' p' l' where j': "j' < length (slots cg td)"
    "slots cg td ! j' = (p', l')"
    "connected_to (port_inst_at (ports_of CONSUMER) ?q m) = loc_id PRODUCER p' l'"
    "loc_id CONSUMER ?q m \<in> owned ?g (p', l')" by blast
  with r have jq: "map_of idx (loc_id CONSUMER ?q m) = Some j'" unfolding routed_def by metis
  have "j' = j" if same: "loc_id PRODUCER p' l' = loc_id PRODUCER ?p l"
  proof -
    have "(p', l') \<in> set (slots cg td)" using j'(1,2) by (metis nth_mem)
    from slots_producers [OF ok this] obtain a where
      a: "map_of (pattern_instances ?g) a = Some p'" "l' \<in> set (port_locs (ports_of PRODUCER) p')"
      by (auto simp: producer_of_def)
    from loc_id_same [OF domain_graph_okD(1) [OF ok] a(1) domain_component_inst(1) [OF ok x] _ _ a(2) in_td_ports [OF l] same]
    have "slots cg td ! j' = slots cg td ! j" using j(2) j'(2) by simp
    then show ?thesis using slots_distinct [OF ok] j(1) j'(1) by (simp add: nth_eq_iff_index_eq)
  qed
  with j(2) j'(2,3) jp jq show ?thesis by (metis prod.inject)
qed

section \<open>What the builders need of the buffer\<close>

text \<open>
  What an application provides: a checked graph whose data types the plugins know, components that
  are neither modules nor CUDA components, a concurrency for each of them, an asynchronous source if
  there is a synchronous one, and a configuration of the domain with at least one time step.
\<close>

definition startable ::
    "(component_ptr \<Rightarrow> component_class) \<Rightarrow> ComponentGraph \<Rightarrow> int \<Rightarrow> string list \<Rightarrow> bool" where
  "startable cls cg td factories \<longleftrightarrow> domain_graph_ok cg td \<and> set (slot_types cg td) \<subseteq> set factories \<and>
     plain_domain cls cg td \<and> sources_read_nothing cg td \<and>
     (\<forall>x \<in> set (td_components cg td). is_ok (getConcurrency (the_inst cg (fst x)) td)) \<and>
     ((\<exists>x \<in> set (td_components cg td). comp_type (the_inst cg (fst x)) td = SYNC_SOURCE) \<longrightarrow>
      first_async cg td \<noteq> None) \<and>
     time_domain (domain_config cg td) = td \<and> 0 < ringbuffer_size (domain_config cg td)"

lemma built_buffer_ready:
  assumes start: "startable cls cg td factories"
    and config: "buffer_config b = indexed (domain_configs cg td idx)"
    and len: "length (time_step_buffer b) = ringbuffer_size (domain_config cg td)"
    and built: "\<forall>i < ringbuffer_size (domain_config cg td).
      step_built td (domain_configs cg td idx) (tdb_data_buffer b ! i) (time_step_buffer b ! i)"
  shows "builder_ready cg td b" "buffers_for cg td (ringbuffer_size (domain_config cg td)) b"
proof -
  from start have ok: "domain_graph_ok cg td" by (simp add: startable_def)
  have "is_ok (tdb_getComponentIndex b (fst x))" if x: "x \<in> set (td_components cg td)" for x
  proof -
    from td_component_in_domain [OF x] obtain k where k: "k < length (domain_components cg td)"
      "snd (domain_components cg td ! k) = fst x" by (metis in_set_conv_nth snd_conv)
    then have "(int k, domain_configs cg td idx ! k) \<in> set (buffer_config b)"
      by (auto simp: config indexed_def)
    moreover have "bc_instance_id (domain_configs cg td idx ! k) = fst x"
      using k by (simp add: the_config_def Let_def)
    ultimately have "List.find (\<lambda>(i, c). bc_instance_id c = fst x) (buffer_config b) \<noteq> None"
      unfolding find_None_iff by blast
    then show ?thesis by (auto simp: tdb_getComponentIndex_def)
  qed
  with start show "builder_ready cg td b" unfolding builder_ready_def startable_def by blast
  have "is_ok (task_data_of (time_step_buffer b ! i) i (fst x))"
    if i: "i < ringbuffer_size (domain_config cg td)" and x: "x \<in> set (td_components cg td)" for i x
  proof -
    from built i have "step_built td (domain_configs cg td idx) (tdb_data_buffer b ! i) (time_step_buffer b ! i)"
      by blast
    from domain_component_buffer [OF ok td_component_in_domain [OF x] this]
    show ?thesis by (auto simp: task_data_of_def getComponentBufferByName_def)
  qed
  with len show "buffers_for cg td (ringbuffer_size (domain_config cg td)) b" by (simp add: buffers_for_def)
qed

text \<open>Buffers, tasks and task flow of one time domain, built one after the other.\<close>

lemma startable_built:
  assumes start: "startable cls cg td factories"
  shows "\<exists>b h' cb' g f. tdb_init factories cg (TimeDomainBuffer_init td, h) = Inr (b, h') \<and>
    TraactGraphBuilder_build cls cg (domain_config cg td) b cb = Inr (cb', ModuleTables_empty, g) \<and>
    TraactTaskFlowBuilder_build b g TraactTaskFlowGraph_empty = Inr f \<and>
    component_graph cg td g \<and> flow_ready b g \<and>
    getTimeStepCount g = ringbuffer_size (domain_config cg td) \<and> full g f \<and> inner g f = all_edges g \<and>
    acyclic (links (task_store g))"
proof -
  from start have ok: "domain_graph_ok cg td" and types: "set (slot_types cg td) \<subseteq> set factories"
    and plain: "plain_domain cls cg td" and src: "sources_read_nothing cg td"
    and cfg: "time_domain (domain_config cg td) = td" "0 < ringbuffer_size (domain_config cg td)"
    by (simp_all add: startable_def)
  from tdb_init_ok [OF ok types, of h] obtain b h' idx where b:
    "tdb_init factories cg (TimeDomainBuffer_init td, h) = Inr (b, h')"
    "buffer_config b = indexed (domain_configs cg td idx)"
    "length (time_step_buffer b) = ringbuffer_size (domain_config cg td)"
    "\<forall>i < ringbuffer_size (domain_config cg td).
      step_built td (domain_configs cg td idx) (tdb_data_buffer b ! i) (time_step_buffer b ! i)" by blast
  note ready = built_buffer_ready [OF start b(2-4)]
  from plain_graph_built [OF ready(1) plain cfg ready(2), of cb] obtain cb' g where g:
    "TraactGraphBuilder_build cls cg (domain_config cg td) b cb = Inr (cb', ModuleTables_empty, g)"
    "component_graph cg td g" "flow_ready b g" "getTimeStepCount g = ringbuffer_size (domain_config cg td)"
    by blast
  from flow_built [OF g(3)] obtain f where f: "TraactTaskFlowBuilder_build b g TraactTaskFlowGraph_empty = Inr f"
    "full g f" "inner g f = all_edges g" by blast
  have "acyclic (links (task_store g))"
    using positions_acyclic [OF component_edges_acyclic [OF ok src]] g(2) by (simp add: component_graph_def)
  with b(1) g f show ?thesis by blast
qed

section \<open>The scheduler on the buffers of a graph\<close>

lemma built_steps_uncommitted:
  assumes "step_built td cs d t" and "c < length (source_buffer_list t)"
  shows "\<not> scb_committed (source_buffer_list t ! c)"
  using assms by (simp add: step_built_def)

lemma built_scheduler_start:
  assumes ok: "domain_graph_ok cg td" and types: "set (slot_types cg td) \<subseteq> set factories"
    and cfg: "0 < ringbuffer_size (domain_config cg td)" "1 \<le> sensor_frequency (domain_config cg td)"
      "0 \<le> max_offset (domain_config cg td)"
  shows "\<exists>b h' s. tdb_init factories cg (TimeDomainBuffer_init td, h) = Inr (b, h') \<and>
    Scheduler_init (domain_config cg td) b = Inr s \<and> sched_start s"
proof -
  let ?n = "ringbuffer_size (domain_config cg td)"
  from tdb_init_ok [OF ok types, of h] obtain b h' idx where b:
    "tdb_init factories cg (TimeDomainBuffer_init td, h) = Inr (b, h')" "steps_ok b"
    "length (time_step_buffer b) = ?n"
    "\<forall>i < ?n. step_built td (domain_configs cg td idx) (tdb_data_buffer b ! i) (time_step_buffer b ! i)" by blast
  from TimeDomainClock_init_ok [OF cfg(2)] obtain c where
    "TimeDomainClock_init (sensor_frequency (domain_config cg td)) (max_offset (domain_config cg td)) 1 = Inr c"
    by blast
  then obtain s where s: "Scheduler_init (domain_config cg td) b = Inr s" by (auto simp: Scheduler_init_def Let_def)
  have "\<not> committed b k i" if "i < ?n" "k < getCountSources b" for i k
    using built_steps_uncommitted [of td "domain_configs cg td idx" "tdb_data_buffer b ! i" "time_step_buffer b ! i" k]
      b(3,4) steps_okD [OF b(2), of i] that by (simp add: committed_def)
  moreover have "buffers_ok (getCountSources b) ?n b" using b(2,3) by (simp add: buffers_ok_def)
  ultimately show ?thesis using b(1) s cfg unfolding sched_start_def by blast
qed

end
