(* ===== verification/Components.thy ===== *)
theory Components
  imports Tasks
begin

text \<open>
  Components and the tasks that call them: the base classes \<open>Component\<close>
  (\<open>src/traact/component/Component.cpp\<close>) and \<open>Module\<close>, \<open>ModuleComponent\<close>
  (\<open>src/traact/component/ModuleComponent.cpp\<close>), and the bodies of the tasks of a time step
  (\<open>src/traact/dataflow/taskflow/builder/tasks\<close>).

  The methods of a component are virtual and overridden by plugins outside the repository. They are
  the parameter \<open>'u component_code\<close>: functions of a state \<open>'u\<close>, which is everything that plugins keep
  (fields of components, contents of the shared objects). A method that returns normally yields
  \<open>Some\<close> of its result, one that throws \<open>None\<close>; in both cases the state has changed.
\<close>

section \<open>Component\<close>

type_synonym ('a, 'u) call = "'u \<Rightarrow> 'a option \<times> 'u"

record 'u component_code =
  co_configure :: "PatternInstance \<Rightarrow> (bool, 'u) call"
  co_start :: "(bool, 'u) call"
  co_stop :: "(bool, 'u) call"
  co_teardown :: "(bool, 'u) call"
  co_processTimePoint :: "ComponentBuffer \<Rightarrow> (bool, TimeStepBuffer \<times> 'u) call"
  co_processTimePointWithInvalid :: "ComponentBuffer \<Rightarrow> (bool, TimeStepBuffer \<times> 'u) call"

text \<open>The methods of the base class do nothing and report success.\<close>

definition Component_configure :: "PatternInstance \<Rightarrow> (bool, 'u) call" where
  "Component_configure pattern_instance u = (Some True, u)"

definition Component_start :: "(bool, 'u) call" where
  "Component_start u = (Some True, u)"

definition Component_stop :: "(bool, 'u) call" where
  "Component_stop u = (Some True, u)"

definition Component_teardown :: "(bool, 'u) call" where
  "Component_teardown u = (Some True, u)"

definition Component_processTimePoint :: "ComponentBuffer \<Rightarrow> (bool, TimeStepBuffer \<times> 'u) call" where
  "Component_processTimePoint data s = (Some True, s)"

definition Component_processTimePointWithInvalid :: "ComponentBuffer \<Rightarrow> (bool, TimeStepBuffer \<times> 'u) call" where
  "Component_processTimePointWithInvalid data s = (Some True, s)"

definition Component_base :: "'u component_code" where
  "Component_base = \<lparr>co_configure = Component_configure, co_start = Component_start,
     co_stop = Component_stop, co_teardown = Component_teardown,
     co_processTimePoint = Component_processTimePoint,
     co_processTimePointWithInvalid = Component_processTimePointWithInvalid\<rparr>"

text \<open>The callbacks that the data flow installs; a call without callback is only logged.\<close>

record 'u component_callbacks =
  release_async_callback :: "(timestamp \<Rightarrow> bool \<Rightarrow> 'u \<Rightarrow> 'u) option"
  finished_callback :: "('u \<Rightarrow> 'u) option"

definition component_callbacks_init :: "'u component_callbacks" where
  "component_callbacks_init = \<lparr>release_async_callback = None, finished_callback = None\<rparr>"

definition releaseAsyncCall :: "'u component_callbacks \<Rightarrow> timestamp \<Rightarrow> bool \<Rightarrow> 'u \<Rightarrow> 'u" where
  "releaseAsyncCall c ts valid u =
     (case release_async_callback c of Some f \<Rightarrow> f ts valid u | None \<Rightarrow> u)"

definition setReleaseAsyncCallback ::
    "(timestamp \<Rightarrow> bool \<Rightarrow> 'u \<Rightarrow> 'u) option \<Rightarrow> 'u component_callbacks \<Rightarrow> 'u component_callbacks" where
  "setReleaseAsyncCallback f c = c\<lparr>release_async_callback := f\<rparr>"

definition setRequestExitCallback :: "('u \<Rightarrow> 'u) option \<Rightarrow> 'u component_callbacks \<Rightarrow> 'u component_callbacks" where
  "setRequestExitCallback f c = c\<lparr>finished_callback := f\<rparr>"

definition setSourceFinished :: "'u component_callbacks \<Rightarrow> 'u \<Rightarrow> 'u" where
  "setSourceFinished c u = (case finished_callback c of Some f \<Rightarrow> f u | None \<Rightarrow> u)"

section \<open>Modules\<close>

text \<open>The virtual methods of \<open>Module\<close>; they get the component that calls them.\<close>

record 'u module_code =
  mo_init :: "component_ptr \<Rightarrow> (bool, 'u) call"
  mo_start :: "component_ptr \<Rightarrow> (bool, 'u) call"
  mo_stop :: "component_ptr \<Rightarrow> (bool, 'u) call"
  mo_teardown :: "component_ptr \<Rightarrow> (bool, 'u) call"
  mo_processTimePoint :: "'u \<Rightarrow> 'u res"
  mo_useConstraints :: bool

definition Module_base :: "'u module_code" where
  "Module_base = \<lparr>mo_init = (\<lambda>_ u. (Some True, u)), mo_start = (\<lambda>_ u. (Some True, u)),
     mo_stop = (\<lambda>_ u. (Some True, u)), mo_teardown = (\<lambda>_ u. (Some True, u)),
     mo_processTimePoint = Inr, mo_useConstraints = False\<rparr>"

text \<open>\<open>ModuleComponent\<close> passes the calls of its life cycle on to its module.\<close>

definition ModuleComponent_code :: "component_ptr \<Rightarrow> 'u module_code \<Rightarrow> 'u component_code \<Rightarrow> 'u component_code" where
  "ModuleComponent_code this the_module base = base\<lparr>co_configure := (\<lambda>_. mo_init the_module this),
     co_start := mo_start the_module this, co_stop := mo_stop the_module this,
     co_teardown := mo_teardown the_module this\<rparr>"

section \<open>Task bodies\<close>

text \<open>What the tasks of one time step work on: its buffers, their data and the state of the plugins.\<close>

record 'u step_world =
  sw_buffer :: TimeStepBuffer
  sw_data :: "(string, TraactTaskData option) omap"
  sw_user :: 'u

definition call_user :: "('a, 'u) call \<Rightarrow> 'u step_world \<Rightarrow> 'u step_world" where
  "call_user f w = w\<lparr>sw_user := snd (f (sw_user w))\<rparr>"

definition call_buffer :: "('a, TimeStepBuffer \<times> 'u) call \<Rightarrow> 'u step_world \<Rightarrow> 'u step_world" where
  "call_buffer f w =
     (let (t, u) = snd (f (sw_buffer w, sw_user w)) in w\<lparr>sw_buffer := t, sw_user := u\<rparr>)"

text \<open>\<open>data_->valid_component_call.store(true)\<close>; \<open>data_\<close> is what the builder stored under the task's name.\<close>

definition data_at :: "string \<Rightarrow> 'u step_world \<Rightarrow> TraactTaskData res" where
  "data_at name w = bind_res (map_at (sw_data w) name) deref"

definition call_done :: "string \<Rightarrow> TraactTaskData \<Rightarrow> 'u step_world \<Rightarrow> 'u step_world" where
  "call_done name d w = w\<lparr>sw_data := assign name (Some (d\<lparr>valid_component_call := True\<rparr>)) (sw_data w)\<rparr>"

text \<open>
  The switch over the event. The result of the component is not used, and an exception it throws is
  caught and logged, so a call only changes the state. \<open>DATA\<close> differs between the two tasks.
\<close>

definition control_event :: "'u component_code \<Rightarrow> PatternInstance \<Rightarrow> 'u step_world \<Rightarrow> 'u step_world res" where
  "control_event component pattern w =
     (case current_message (sw_buffer w) of
        CONFIGURE \<Rightarrow> Inr (call_user (co_configure component pattern) w)
      | START \<Rightarrow> Inr (call_user (co_start component) w)
      | PARAMETER_CHANGE \<Rightarrow> Inr (if changed_pattern_instance_id (sw_buffer w) = instance_id pattern
          then call_user (co_configure component pattern) w else w)
      | STOP \<Rightarrow> Inr (call_user (co_stop component) w)
      | TEARDOWN \<Rightarrow> Inr (call_user (co_teardown component) w)
      | EV_INVALID \<Rightarrow> Inl AssertionFailed
      | _ \<Rightarrow> Inr w)"

definition TaskFlowComponentTask_process ::
    "'u component_code \<Rightarrow> PatternInstance \<Rightarrow> string \<Rightarrow> 'u step_world \<Rightarrow> 'u step_world res" where
  "TaskFlowComponentTask_process component pattern name w =
     bind_res (data_at name w) (\<lambda>data.
     bind_res
       (if current_message (sw_buffer w) = DATA then
          bind_res (getComponentBuffer (sw_buffer w) (int (data_component_index data))) (\<lambda>buffer.
          bind_res (isAllInputValid (sw_buffer w) buffer) (\<lambda>all_input_valid.
          Inr (if all_input_valid then call_buffer (co_processTimePoint component buffer) w
               else call_buffer (co_processTimePointWithInvalid component buffer) w)))
        else control_event component pattern w) (\<lambda>w'.
     Inr (call_done name data w')))"

text \<open>
  The source's task waits until the lock of its component is committed: \<open>None\<close> is the task that waits.
  An exception, as for a lock that was taken before, is caught. With \<open>DATA\<close> the value of the lock is
  read and not used.
\<close>

definition is_exception :: "cpp_error \<Rightarrow> bool" where
  "is_exception e \<longleftrightarrow> e \<noteq> AssertionFailed \<and> e \<noteq> UndefinedBehaviour"

definition TaskFlowSourceTask_process ::
    "'u component_code \<Rightarrow> PatternInstance \<Rightarrow> string \<Rightarrow> 'u step_world \<Rightarrow> 'u step_world res option" where
  "TaskFlowSourceTask_process component pattern name w =
     (case data_at name w of
        Inl e \<Rightarrow> Some (Inl e)
      | Inr data \<Rightarrow>
          (let source = int (data_component_index data)
           in case tsb_getSourceLock source (sw_buffer w) of
                Inl e \<Rightarrow> Some (if is_exception e then Inr (call_done name data w) else Inl e)
              | Inr t \<Rightarrow>
                  (case bind_res (getSourceComponentBuffer t source) (\<lambda>s. Inr (pr_value (source_lock s))) of
                     Inl e \<Rightarrow> Some (Inl e)
                   | Inr None \<Rightarrow> None
                   | Inr (Some valid) \<Rightarrow> Some (
                       let w1 = w\<lparr>sw_buffer := t\<rparr>
                       in bind_res (if current_message t = DATA then Inr w1
                                    else control_event component pattern w1) (\<lambda>w2.
                          Inr (call_done name data w2))))))"

definition TaskFlowModuleTask_process :: "'u module_code \<Rightarrow> 'u step_world \<Rightarrow> 'u step_world res" where
  "TaskFlowModuleTask_process the_module w =
     bind_res (mo_processTimePoint the_module (sw_user w)) (\<lambda>u. Inr (w\<lparr>sw_user := u\<rparr>))"

section \<open>Running the tasks of a time step\<close>

text \<open>
  The callables that \<open>TaskFlowStandardTasks\<close> passes to the task flow call \<open>process\<close> of the task; that of
  a control task does nothing. The body of a CUDA graph belongs to a library and is a parameter.
\<close>

record 'u program =
  code_of :: "component_ptr \<Rightarrow> 'u component_code"
  module_of :: "module_ptr \<Rightarrow> 'u module_code"
  cuda_run :: "string \<Rightarrow> 'u step_world \<Rightarrow> 'u step_world res"

fun run_task :: "'u program \<Rightarrow> ComponentGraph \<Rightarrow> task_kind \<Rightarrow> 'u step_world \<Rightarrow> 'u step_world res option" where
  "run_task prog cg (ComponentTask a c) w =
     Some (bind_res (inst_of cg a) (\<lambda>p. TaskFlowComponentTask_process (code_of prog c) p a w))"
| "run_task prog cg (SourceTask a c) w =
     (case inst_of cg a of
        Inl e \<Rightarrow> Some (Inl e)
      | Inr p \<Rightarrow> TaskFlowSourceTask_process (code_of prog c) p a w)"
| "run_task prog cg (ModuleTask _ m) w = Some (TaskFlowModuleTask_process (module_of prog m) w)"
| "run_task prog cg (ControlFlowTask _) w = Some (Inr w)"
| "run_task prog cg (TraactCudaTask name _ _) w = Some (cuda_run prog name w)"

text \<open>The task flow runs the tasks in some order that respects their dependencies.\<close>

fun run_tasks :: "'u program \<Rightarrow> ComponentGraph \<Rightarrow> task_kind list \<Rightarrow> 'u step_world \<Rightarrow> 'u step_world res option" where
  "run_tasks prog cg [] w = Some (Inr w)"
| "run_tasks prog cg (k # ks) w =
     (case run_task prog cg k w of
        Some (Inr w') \<Rightarrow> run_tasks prog cg ks w'
      | r \<Rightarrow> r)"

lemma run_tasks_append:
  "run_tasks prog cg (ks @ ls) w =
     (case run_tasks prog cg ks w of Some (Inr w') \<Rightarrow> run_tasks prog cg ls w' | r \<Rightarrow> r)"
  by (induction ks arbitrary: w) (auto split: option.splits sum.splits)

end
