(* ===== verification/Execution.thy ===== *)
theory Execution
  imports Pipeline Components
begin

text \<open>
  What happens when the task flow runs the tasks of one time step, in any order that respects their
  dependencies: which methods of the components are called, and with which buffers. The buffers and
  the task graph are the ones \<open>init\<close> and the builders create for a \<open>startable\<close> time domain.
\<close>

section \<open>The data of a task\<close>

lemma map_res_nth: "map_res f xs = Inr ys \<Longrightarrow> length ys = length xs \<and> (\<forall>i < length xs. f (xs ! i) = Inr (ys ! i))"
proof (induction xs arbitrary: ys)
  case (Cons x xs)
  then obtain y zs where "f x = Inr y" "map_res f xs = Inr zs" "ys = y # zs" by auto
  with Cons.IH [of zs] show ?case by (auto simp: nth_Cons split: nat.splits)
qed simp

lemma fold_emplace_lookup:
  assumes "fold_res (\<lambda>(name, task) d. bind_res (f name) (\<lambda>v. Inr (emplace name v d))) xs d0 = Inr d"
    and "omap_ok d0" and "a \<in> fst ` set xs" and "f a = Inr v" and "map_of d0 a \<in> {None, Some v}"
  shows "map_of d a = Some v"
proof -
  have keep: "map_of d a = Some v"
    if "fold_res (\<lambda>(name, task) d. bind_res (f name) (\<lambda>v. Inr (emplace name v d))) xs d0 = Inr d"
      "omap_ok d0" "map_of d0 a = Some v" for xs d0
    using that
  proof (induction xs arbitrary: d0)
    case (Cons x xs)
    then obtain n t w where "x = (n, t)" "f n = Inr w"
      "fold_res (\<lambda>(name, task) d. bind_res (f name) (\<lambda>v. Inr (emplace name v d))) xs (emplace n w d0) = Inr d"
      by (cases x) auto
    moreover from Cons.prems(2,3) have "map_of (emplace n w d0) a = Some v" for w n by (cases "n = a") auto
    ultimately show ?case using Cons.IH Cons.prems(2) by simp
  qed simp
  from assms show ?thesis
  proof (induction xs arbitrary: d0)
    case (Cons x xs)
    obtain n t where x: "x = (n, t)" by (cases x)
    with Cons.prems(1) obtain w where w: "f n = Inr w"
      "fold_res (\<lambda>(name, task) d. bind_res (f name) (\<lambda>v. Inr (emplace name v d))) xs (emplace n w d0) = Inr d"
      by auto
    show ?case
    proof (cases "n = a")
      case True
      with w Cons.prems have "map_of (emplace n w d0) a = Some v" by auto
      with keep [OF w(2)] Cons.prems(2) show ?thesis by simp
    next
      case False
      with Cons.prems x have "a \<in> fst ` set xs" "map_of (emplace n w d0) a \<in> {None, Some v}" by auto
      with Cons.IH [OF w(2)] Cons.prems(2,4) show ?thesis by simp
    qed
  qed simp
qed

lemma built_task_data:
  assumes "TraactGraphBuilder_build cls cg cfg b cb = Inr (cb', m, g)" and "i < getTimeStepCount g"
    and "a \<in> fst ` set (tasks g)" and "i < length (time_step_buffer b)"
    and "task_data_of (time_step_buffer b ! i) i a = Inr d"
  shows "map_of (task_data g ! i) a = Some d"
proof -
  from assms(1) obtain g3 where "createTimeStepTraactTaskData (ringbuffer_size cfg) b g3 = Inr g"
    by (auto simp: TraactGraphBuilder_build_def Let_def split: prod.splits)
  then obtain data where data: "map_res (\<lambda>i. bind_res (getTimeStepBuffer b (int i)) (\<lambda>time_step_buffer.
         fold_res (\<lambda>(name, task) time_step_data.
           bind_res (task_data_of time_step_buffer i name) (\<lambda>d.
           Inr (emplace name d time_step_data))) (tasks g) [])) [0..<ringbuffer_size cfg] = Inr data"
      "task_data g = data"
    by (auto simp: createTimeStepTraactTaskData_def)
  from map_res_nth [OF data(1)] assms(2) data(2) have i: "i < ringbuffer_size cfg"
    by (simp add: getTimeStepCount_def)
  with map_res_nth [OF data(1)] data(2) assms(4)
  have "fold_res (\<lambda>(name, task) time_step_data.
           bind_res (task_data_of (time_step_buffer b ! i) i name) (\<lambda>d.
           Inr (emplace name d time_step_data))) (tasks g) [] = Inr (task_data g ! i)"
    by (simp add: getTimeStepBuffer_def raw_get_int)
  from fold_emplace_lookup [OF this _ assms(3,5)] show ?thesis by simp
qed

section \<open>The ports of a component\<close>

lemma domain_ports_ok:
  assumes ok: "domain_graph_ok cg td" and r: "routed cg td idx" and x: "x \<in> set (domain_components cg td)"
    and n: "length (buffer_data t) = length (slots cg td)"
  shows "ports_ok (length (buffer_data t)) (buffer_to_port_output (the_config cg td idx x))"
    "ports_ok (length (buffer_data t)) (buffer_to_port_input (the_config cg td idx x))"
  using entries_ports_ok [OF ok r x] n by (simp_all add: the_config_def Let_def)

text \<open>Every input pointer of a component is an output pointer of a component that feeds it.\<close>

lemma input_fed:
  assumes ok: "domain_graph_ok cg td" and r: "routed cg td idx"
    and built: "step_built td (domain_configs cg td idx) d t" and n: "length (buffer_data t) = length (slots cg td)"
    and y: "y \<in> set (td_components cg td)" and cy: "getComponentBufferByName t (fst y) = Inr cy"
    and p: "p \<in> set (input_valid cy)"
  shows "\<exists>x cx j. x \<in> set (td_components cg td) \<and> (fst x, fst y) \<in> flow_edges cg td \<and>
    getComponentBufferByName t (fst x) = Inr cx \<and> p = Some j \<and> Some j \<in> set (output_valid cx) \<and>
    j < length (buffer_valid t)"
proof -
  let ?Y = "(comp_type (the_inst cg (fst y)) td, fst y)" and ?q = "the_inst cg (fst y)"
  let ?ms = "td_ports CONSUMER ?q td"
  have tok: "tsb_ok t" using built by (simp add: step_built_def)
  note Y = td_component_in_domain [OF y]
  from domain_component_buffer [OF ok Y built] cy obtain k where
    k: "createComponentBuffer t (the_config cg td idx ?Y) k = Inr cy" by auto
  note Yports = domain_ports_ok [OF ok r Y n]
  from createComponentBuffer_ok [OF tok Yports(2,1), of k] k
  have len: "length (input_valid cy) = length ?ms"
    and ptr: "\<forall>(b, p) \<in> set (entries CONSUMER ?q td idx). input_valid cy ! nat p = Some (nat b)"
    by (auto simp: the_config_def Let_def entries_def)
  from p obtain i where i: "i < length ?ms" "input_valid cy ! i = p" by (auto simp: in_set_conv_nth len)
  let ?m = "?ms ! i"
  have m: "?m \<in> set ?ms" using i(1) by simp
  from entries_nth [OF i(1), of idx] ptr i(2)
  have pj: "p = Some (the (map_of idx (loc_id CONSUMER ?q ?m)))" by auto
  from consumer_slot [OF ok Y, unfolded snd_conv, OF m] obtain j p' l where
    j: "j < length (slots cg td)" "slots cg td ! j = (p', l)"
      "connected_to (port_inst_at (ports_of CONSUMER) ?q ?m) = loc_id PRODUCER p' l"
      "loc_id CONSUMER ?q ?m \<in> owned (graph_instance cg) (p', l)" by blast
  with r have mj: "map_of idx (loc_id CONSUMER ?q ?m) = Some j" unfolding routed_def by metis
  have "(p', l) \<in> set (slots cg td)" using j(1,2) by (metis nth_mem)
  then obtain X where X: "X \<in> set (domain_components cg td)" "p' = the_inst cg (snd X)"
    "l \<in> set (td_ports PRODUCER p' td)" by (auto simp: slots_def in_component_slots)
  from X(1) have "snd X \<in> fst ` set (td_components cg td)"
    using in_domain_components [of "fst X" "snd X" cg td] by (auto simp: td_components_def)
  then obtain x where x: "x \<in> set (td_components cg td)" "fst x = snd X" by force
  have edge: "(fst x, fst y) \<in> flow_edges cg td"
    unfolding flow_edges_def using x y X(2,3) m j(3) by force
  from domain_component_buffer [OF ok X(1) built] obtain kx cx where
    cx: "getComponentBufferByName t (snd X) = Inr cx" "createComponentBuffer t (the_config cg td idx X) kx = Inr cx"
    by blast
  have "loc_id PRODUCER p' l \<in> owned (graph_instance cg) (slots cg td ! j)" using j(2) by (simp add: owned_def)
  with r j(1) have lj: "map_of idx (loc_id PRODUCER p' l) = Some j" unfolding routed_def by blast
  from entry_of_port [OF ok X(1) _ X(3) [unfolded X(2)] lj [unfolded X(2)]] obtain out where
    "(int j, out) \<in> set (entries PRODUCER (the_inst cg (snd X)) td idx)" by blast
  then have out: "(int j, out) \<in> set (buffer_to_port_output (the_config cg td idx X))"
    by (simp add: the_config_def Let_def)
  note Xports = domain_ports_ok [OF ok r X(1) n]
  from createComponentBuffer_ok [OF tok Xports(2,1), of kx] cx(2) out
  have "output_valid cx ! nat out = Some j"
      "length (output_valid cx) = length (buffer_to_port_output (the_config cg td idx X))" by auto
  moreover have "0 \<le> out" "nat out < length (buffer_to_port_output (the_config cg td idx X))"
    using Xports(1) out by (auto simp: ports_ok_def)
  ultimately have "Some j \<in> set (output_valid cx)" by (metis nth_mem)
  moreover have "j < length (buffer_valid t)" using j(1) n tok by (simp add: tsb_ok_def)
  ultimately show ?thesis using x edge cx(1) pj mj
    by (intro exI [of _ x] exI [of _ cx] exI [of _ j]) simp
qed

text \<open>The position of a component among the components of the domain is its index in every time step.\<close>

lemma component_position:
  assumes ok: "domain_graph_ok cg td" and built: "step_built td (domain_configs cg td idx) d t"
    and x: "x \<in> set (td_components cg td)"
  shows "\<exists>k < length (domain_components cg td).
    domain_components cg td ! k = (comp_type (the_inst cg (fst x)) td, fst x) \<and>
    getComponentIndex t (fst x) = Inr k \<and> k < length (component_buffers_list t)"
proof -
  from td_component_in_domain [OF x] obtain k where k: "k < length (domain_components cg td)"
    "domain_components cg td ! k = (comp_type (the_inst cg (fst x)) td, fst x)" by (auto simp: in_set_conv_nth)
  let ?cs = "domain_configs cg td idx"
  from k have kc: "k < length ?cs" "bc_instance_id (?cs ! k) = fst x" by (simp_all add: the_config_def Let_def)
  from built domain_configs_distinct [OF ok] kc(1) have "getComponentIndex t (bc_instance_id (?cs ! k)) = Inr k"
    "length (component_buffers_list t) = length ?cs" unfolding step_built_def by blast+
  with k kc show ?thesis by (intro exI [of _ k]) simp
qed

lemma source_position:
  assumes ok: "domain_graph_ok cg td" and built: "step_built td (domain_configs cg td idx) d t"
    and k: "k < length (domain_components cg td)" "is_source_type (fst (domain_components cg td ! k))"
  shows "k < length (source_buffer_list t)"
proof -
  let ?cs = "domain_configs cg td idx"
  have types: "map component_type ?cs = map fst (domain_components cg td)"
    by (simp add: the_config_def Let_def comp_def)
  have "CT_INVALID \<notin> fst ` set (domain_components cg td)"
  proof
    assume "CT_INVALID \<in> fst ` set (domain_components cg td)"
    then obtain x where x: "x \<in> set (domain_components cg td)" "fst x = CT_INVALID" by force
    note inst = domain_component_inst [OF ok x(1)]
    from pattern_readyD [OF inst(3)] inst(4) x(2) show False by (auto simp: comp_type_def)
  qed
  moreover have "component_type ` set ?cs = fst ` set (domain_components cg td)"
    using arg_cong [OF types, of set] by (simp only: set_map)
  ultimately have "source_indices ?cs = [0..<length (source_indices ?cs)]"
    using sources_first_indices [of ?cs] domain_components_sorted by (simp only: types) simp
  moreover have "k \<in> set (source_indices ?cs)"
    using k by (simp add: source_indices_def the_config_def Let_def)
  ultimately have "k < length (source_indices ?cs)" by (metis atLeastLessThan_iff set_upt)
  then show ?thesis using built by (simp add: step_built_def)
qed

section \<open>What a time step is expected to do\<close>

text \<open>
  The method that a control event calls, and the state after the call. The other events of the control
  kind do not reach the components.
\<close>

definition event_method :: "EventType \<Rightarrow> bool \<Rightarrow> 'u component_code \<Rightarrow> PatternInstance \<Rightarrow> 'u \<Rightarrow> 'u" where
  "event_method ev changed code p u =
     (case ev of
        CONFIGURE \<Rightarrow> snd (co_configure code p u)
      | START \<Rightarrow> snd (co_start code u)
      | PARAMETER_CHANGE \<Rightarrow> if changed then snd (co_configure code p u) else u
      | STOP \<Rightarrow> snd (co_stop code u)
      | TEARDOWN \<Rightarrow> snd (co_teardown code u)
      | _ \<Rightarrow> u)"

definition take_lock :: "string \<Rightarrow> TimeStepBuffer \<Rightarrow> TimeStepBuffer" where
  "take_lock a t =
     (case bind_res (getComponentIndex t a) (\<lambda>i. tsb_getSourceLock (int i) t) of
        Inr t' \<Rightarrow> t'
      | Inl e \<Rightarrow> t)"

text \<open>
  The specification of a task: a control event calls the method for it; data calls \<open>processTimePoint\<close> of a
  component with its buffer if all its inputs are valid and \<open>processTimePointWithInvalid\<close> otherwise, and no
  method of a source, whose lock is taken. With \<open>valid\<close> the inputs are taken to be valid.
\<close>

fun expected_call ::
    "bool \<Rightarrow> 'u program \<Rightarrow> ComponentGraph \<Rightarrow> task_kind \<Rightarrow> TimeStepBuffer \<times> 'u \<Rightarrow> TimeStepBuffer \<times> 'u" where
  "expected_call valid prog cg (ComponentTask a c) (t, u) =
     (if current_message t = DATA then
        (case getComponentBufferByName t a of
           Inr b \<Rightarrow> snd (if valid \<or> isAllInputValid t b = Inr True
             then co_processTimePoint (code_of prog c) b (t, u)
             else co_processTimePointWithInvalid (code_of prog c) b (t, u))
         | Inl e \<Rightarrow> (t, u))
      else (t, event_method (current_message t) (changed_pattern_instance_id t = a) (code_of prog c) (the_inst cg a) u))"
| "expected_call valid prog cg (SourceTask a c) (t, u) =
     (take_lock a t,
      if current_message t = DATA then u
      else event_method (current_message t) (changed_pattern_instance_id t = a) (code_of prog c) (the_inst cg a) u)"
| "expected_call valid prog cg _ s = s"

definition same_step :: "TimeStepBuffer \<Rightarrow> TimeStepBuffer \<Rightarrow> bool" where
  "same_step t t' \<longleftrightarrow> component_buffers_list t' = component_buffers_list t \<and>
     component_buffer_to_index t' = component_buffer_to_index t \<and>
     length (buffer_valid t') = length (buffer_valid t) \<and>
     length (source_buffer_list t') = length (source_buffer_list t)"

lemma same_step_refl: "same_step t t"
  and same_step_trans: "same_step t t' \<Longrightarrow> same_step t' t'' \<Longrightarrow> same_step t t''"
  by (auto simp: same_step_def)

lemma same_step_lookup:
  assumes "same_step t t'"
  shows "getComponentIndex t' a = getComponentIndex t a"
    "getComponentBuffer t' i = getComponentBuffer t i"
    "getComponentBufferByName t' a = getComponentBufferByName t a"
  using assms by (simp_all add: same_step_def getComponentIndex_def getComponentBuffer_def getComponentBufferByName_def)

text \<open>
  What \<open>processTimePoint\<close> of a component is expected to do with the buffers: it writes all its outputs and
  touches no other flag.
\<close>

definition writes_outputs :: "(bool, TimeStepBuffer \<times> 'u) call \<Rightarrow> ComponentBuffer \<Rightarrow> bool" where
  "writes_outputs f c \<longleftrightarrow> (\<forall>t u. let t' = fst (snd (f (t, u))) in
     same_step t t' \<and> current_message t' = current_message t \<and>
     source_buffer_list t' = source_buffer_list t \<and>
     (\<forall>j < length (buffer_valid t).
        buffer_valid t' ! j = (if Some j \<in> set (output_valid c) then PS_VALID else buffer_valid t ! j)))"

text \<open>What both methods are expected to leave alone.\<close>

definition keeps_step :: "(bool, TimeStepBuffer \<times> 'u) call \<Rightarrow> bool" where
  "keeps_step f \<longleftrightarrow> (\<forall>t u. let t' = fst (snd (f (t, u))) in
     same_step t t' \<and> current_message t' = current_message t \<and> source_buffer_list t' = source_buffer_list t)"

definition outputs_valid :: "TimeStepBuffer \<Rightarrow> string \<Rightarrow> bool" where
  "outputs_valid t a \<longleftrightarrow> (\<forall>c j. getComponentBufferByName t a = Inr c \<longrightarrow> Some j \<in> set (output_valid c) \<longrightarrow>
     j < length (buffer_valid t) \<longrightarrow> buffer_valid t ! j = PS_VALID)"

definition locks_ready :: "TimeStepBuffer \<Rightarrow> bool" where
  "locks_ready t \<longleftrightarrow> (\<forall>s \<in> set (source_buffer_list t). scb_committed s \<and> \<not> pr_retrieved (source_lock s))"

definition in_order :: "(nat \<times> nat) set \<Rightarrow> nat \<Rightarrow> nat list \<Rightarrow> bool" where
  "in_order E n order \<longleftrightarrow> distinct order \<and> set order = {..<n} \<and>
     (\<forall>p < length order. \<forall>q < length order. (order ! p, order ! q) \<in> E \<longrightarrow> p < q)"

text \<open>What the builders provide for time step \<open>i\<close>, whose buffer is \<open>t\<close>.\<close>

definition execution_ready :: "ComponentGraph \<Rightarrow> int \<Rightarrow> TraactGraph \<Rightarrow> nat \<Rightarrow> TimeStepBuffer \<Rightarrow> bool" where
  "execution_ready cg td g i t \<longleftrightarrow> domain_graph_ok cg td \<and> component_graph cg td g \<and>
     (\<exists>idx d. routed cg td idx \<and> step_built td (domain_configs cg td idx) d t) \<and>
     length (buffer_data t) = length (slots cg td) \<and>
     (\<forall>x \<in> set (td_components cg td). \<exists>k. getComponentIndex t (fst x) = Inr k \<and>
        map_of (task_data g ! i) (fst x) =
          Some (Some \<lparr>data_time_step = i, data_component_index = k, valid_component_call = False\<rparr>))"

lemma startable_execution_ready:
  assumes start: "startable cls cg td factories"
    and b: "tdb_init factories cg (TimeDomainBuffer_init td, h) = Inr (b, h')"
    and g: "TraactGraphBuilder_build cls cg (domain_config cg td) b cb = Inr (cb', m, g)"
    and i: "i < getTimeStepCount g"
  shows "execution_ready cg td g i (time_step_buffer b ! i)" "length (task_store g) = length (td_components cg td)"
    "k < length (td_components cg td) \<Longrightarrow> kind (task_at g k) = task_kind_of cg td (td_components cg td ! k)"
proof -
  from start have ok: "domain_graph_ok cg td" and types: "set (slot_types cg td) \<subseteq> set factories"
    by (simp_all add: startable_def)
  from startable_built [OF start, of h cb] b g have built: "component_graph cg td g"
    "getTimeStepCount g = ringbuffer_size (domain_config cg td)" by auto
  then have num: "numbered cg td g" by (simp add: component_graph_def)
  then have kinds: "map kind (task_store g) = map (task_kind_of cg td) (td_components cg td)"
    and keys: "fst ` set (tasks g) = fst ` set (td_components cg td)" by (simp_all add: numbered_def)
  from arg_cong [OF kinds, of length] show len: "length (task_store g) = length (td_components cg td)" by simp
  show "kind (task_at g k) = task_kind_of cg td (td_components cg td ! k)" if "k < length (td_components cg td)" for k
    using arg_cong [OF kinds, of "\<lambda>xs. xs ! k"] that len by (simp add: task_at_def)
  let ?t = "time_step_buffer b ! i"
  from tdb_init_ok [OF ok types, of h] b obtain idx where init: "routed cg td idx"
    "length (time_step_buffer b) = ringbuffer_size (domain_config cg td)"
    "holds_types (slot_types cg td) (tdb_data_buffer b ! i)"
    "step_built td (domain_configs cg td idx) (tdb_data_buffer b ! i) ?t"
    using i built(2) by auto
  have data: "length (buffer_data ?t) = length (slots cg td)"
    using init(3,4) by (simp add: step_built_def holds_types_def slot_types_def)
  have "\<exists>k. getComponentIndex ?t (fst x) = Inr k \<and> map_of (task_data g ! i) (fst x) =
      Some (Some \<lparr>data_time_step = i, data_component_index = k, valid_component_call = False\<rparr>)"
    if x: "x \<in> set (td_components cg td)" for x
  proof -
    from component_position [OF ok init(4) x] obtain k where k: "getComponentIndex ?t (fst x) = Inr k"
      "k < length (component_buffers_list ?t)" by blast
    then have "task_data_of ?t i (fst x) =
        Inr (Some \<lparr>data_time_step = i, data_component_index = k, valid_component_call = False\<rparr>)"
      by (auto simp: task_data_of_def hasComponentBuffer_def getComponentIndex_def getComponentBuffer_def
          raw_get_int split: option.splits)
    moreover have "fst x \<in> fst ` set (tasks g)" using keys x by simp
    ultimately show ?thesis using built_task_data [OF g i] i built(2) init(2) k(1) by auto
  qed
  with ok built(1) init(1,4) data show "execution_ready cg td g i ?t" unfolding execution_ready_def by blast
qed

section \<open>Running the tasks in order\<close>

abbreviation comp_at :: "ComponentGraph \<Rightarrow> int \<Rightarrow> nat \<Rightarrow> string \<times> component_ptr" where
  "comp_at cg td k \<equiv> td_components cg td ! k"

abbreviation source_comp :: "ComponentGraph \<Rightarrow> int \<Rightarrow> string \<times> component_ptr \<Rightarrow> bool" where
  "source_comp cg td x \<equiv> is_source_type (comp_type (the_inst cg (fst x)) td)"

definition lock_ready :: "TimeStepBuffer \<Rightarrow> string \<Rightarrow> bool" where
  "lock_ready t a \<longleftrightarrow> (\<exists>j. getComponentIndex t a = Inr j \<and> j < length (source_buffer_list t) \<and>
     scb_committed (source_buffer_list t ! j) \<and> \<not> pr_retrieved (source_lock (source_buffer_list t ! j)))"

text \<open>
  The state after the tasks \<open>ks\<close>: the calls so far are the expected ones, the locks of the other sources
  can still be taken and the tasks that ran are marked. If the data is complete (\<open>whole\<close>), the outputs
  written so far are valid and all calls were made with valid inputs.
\<close>

definition step_state ::
    "bool \<Rightarrow> 'u program \<Rightarrow> ComponentGraph \<Rightarrow> int \<Rightarrow> TimeStepBuffer \<times> 'u \<Rightarrow> nat list \<Rightarrow> 'u step_world \<Rightarrow> bool" where
  "step_state whole prog cg td s0 ks w \<longleftrightarrow>
     (\<forall>valid. (valid \<longrightarrow> whole) \<longrightarrow> (sw_buffer w, sw_user w) =
        fold (expected_call valid prog cg) (map (\<lambda>k. task_kind_of cg td (comp_at cg td k)) ks) s0) \<and>
     same_step (fst s0) (sw_buffer w) \<and> current_message (sw_buffer w) = current_message (fst s0) \<and>
     (\<forall>k < length (td_components cg td). source_comp cg td (comp_at cg td k) \<longrightarrow> k \<notin> set ks \<longrightarrow>
        lock_ready (sw_buffer w) (fst (comp_at cg td k))) \<and>
     (current_message (fst s0) = DATA \<longrightarrow> whole \<longrightarrow> (\<forall>k < length (td_components cg td).
        source_comp cg td (comp_at cg td k) \<or> k \<in> set ks \<longrightarrow> outputs_valid (sw_buffer w) (fst (comp_at cg td k)))) \<and>
     (\<forall>k < length (td_components cg td). \<exists>d. data_at (fst (comp_at cg td k)) w = Inr d \<and>
        getComponentIndex (fst s0) (fst (comp_at cg td k)) = Inr (data_component_index d) \<and>
        (k \<in> set ks \<longrightarrow> valid_component_call d))"

lemma step_state_done:
  assumes "step_state whole prog cg td s0 ks w" and "k < length (td_components cg td)" and "k \<in> set ks"
  shows "\<exists>d. data_at (fst (comp_at cg td k)) w = Inr d \<and> valid_component_call d"
    and "current_message (fst s0) = DATA \<Longrightarrow> whole \<Longrightarrow> outputs_valid (sw_buffer w) (fst (comp_at cg td k))"
  using assms unfolding step_state_def by blast+

lemma all_valid_True:
  "\<forall>p \<in> set ps. \<exists>j < length flags. p = Some j \<and> flags ! j = PS_VALID \<Longrightarrow> all_valid flags ps = Inr True"
  by (induction ps) (auto simp: raw_get_int)

lemma all_valid_total:
  "\<forall>p \<in> set ps. \<exists>j < length flags. p = Some j \<Longrightarrow> \<exists>v. all_valid flags ps = Inr v"
proof (induction ps)
  case (Cons p ps)
  then obtain j v where "j < length flags" "p = Some j" "all_valid flags ps = Inr v" by auto
  then show ?case by (cases "flags ! j = PS_VALID") (auto simp: raw_get_int)
qed auto

lemma data_at_done:
  "data_at a (call_done name d w) = (if a = name then Inr (d\<lparr>valid_component_call := True\<rparr>) else data_at a w)"
  by (simp add: data_at_def call_done_def map_at_def map_of_assign_if)

lemma data_at_world:
  "data_at a (w\<lparr>sw_buffer := t\<rparr>) = data_at a w" "data_at a (w\<lparr>sw_user := u\<rparr>) = data_at a w"
  "data_at a (w\<lparr>sw_buffer := t, sw_user := u\<rparr>) = data_at a w"
  by (simp_all add: data_at_def)

lemma call_done_simps [simp]:
  "sw_buffer (call_done name d w) = sw_buffer w" "sw_user (call_done name d w) = sw_user w"
  by (simp_all add: call_done_def)

lemma control_event_eq:
  assumes "current_message (sw_buffer w) \<noteq> DATA" "current_message (sw_buffer w) \<noteq> EV_INVALID"
  shows "control_event code p w = Inr (w\<lparr>sw_user := event_method (current_message (sw_buffer w))
     (changed_pattern_instance_id (sw_buffer w) = instance_id p) code p (sw_user w)\<rparr>)"
  using assms by (cases "current_message (sw_buffer w)") (simp_all add: control_event_def event_method_def call_user_def)

text \<open>The names of the components of a domain are different.\<close>

lemma comp_at_inj:
  assumes "domain_graph_ok cg td" and "k < length (td_components cg td)" and "l < length (td_components cg td)"
    and "fst (comp_at cg td k) = fst (comp_at cg td l)"
  shows "k = l"
proof -
  have "distinct (map fst (patterns cg))"
    using domain_graph_okD(3) [OF assms(1)] by (simp add: domain_ready_def)
  then have "distinct (map fst (td_components cg td))"
    unfolding td_components_def by (auto simp: distinct_map inj_on_def)
  with assms show ?thesis by (metis distinct_conv_nth length_map nth_map)
qed

text \<open>A task that ran: what is left to show when the call is the expected one.\<close>

lemma step_state_next:
  assumes ok: "domain_graph_ok cg td" and st: "step_state whole prog cg td s0 ks w"
    and k: "k < length (td_components cg td)" and d: "data_at (fst (comp_at cg td k)) w = Inr d"
    and call: "\<And>valid. (valid \<longrightarrow> whole \<and> current_message (fst s0) = DATA) \<or> current_message (fst s0) \<noteq> DATA \<Longrightarrow>
      (t', u') = expected_call valid prog cg (task_kind_of cg td (comp_at cg td k)) (sw_buffer w, sw_user w)"
    and same: "same_step (sw_buffer w) t'" "current_message t' = current_message (sw_buffer w)"
    and locks: "\<And>l. l < length (td_components cg td) \<Longrightarrow> source_comp cg td (comp_at cg td l) \<Longrightarrow>
      l \<notin> set (ks @ [k]) \<Longrightarrow> lock_ready t' (fst (comp_at cg td l))"
    and outs: "\<And>l. current_message (fst s0) = DATA \<Longrightarrow> whole \<Longrightarrow> l < length (td_components cg td) \<Longrightarrow>
      source_comp cg td (comp_at cg td l) \<or> l \<in> set (ks @ [k]) \<Longrightarrow> outputs_valid t' (fst (comp_at cg td l))"
  shows "step_state whole prog cg td s0 (ks @ [k]) (call_done (fst (comp_at cg td k)) d (w\<lparr>sw_buffer := t', sw_user := u'\<rparr>))"
proof -
  let ?w = "call_done (fst (comp_at cg td k)) d (w\<lparr>sw_buffer := t', sw_user := u'\<rparr>)"
  have "\<exists>d. data_at (fst (comp_at cg td l)) ?w = Inr d \<and>
      getComponentIndex (fst s0) (fst (comp_at cg td l)) = Inr (data_component_index d) \<and>
      (l \<in> set (ks @ [k]) \<longrightarrow> valid_component_call d)" if l: "l < length (td_components cg td)" for l
  proof -
    from st l obtain e where e: "data_at (fst (comp_at cg td l)) w = Inr e"
      "getComponentIndex (fst s0) (fst (comp_at cg td l)) = Inr (data_component_index e)"
      "l \<in> set ks \<longrightarrow> valid_component_call e" unfolding step_state_def by blast
    show ?thesis
    proof (cases "l = k")
      case True
      with e d show ?thesis by (auto simp: data_at_done)
    next
      case False
      with comp_at_inj [OF ok l k] have "fst (comp_at cg td l) \<noteq> fst (comp_at cg td k)" by blast
      with e False show ?thesis by (auto simp: data_at_done data_at_world)
    qed
  qed
  moreover have "same_step (fst s0) t'" using st same(1) by (auto simp: step_state_def intro: same_step_trans)
  moreover have "(t', u') = fold (expected_call valid prog cg) (map (\<lambda>k. task_kind_of cg td (comp_at cg td k)) (ks @ [k])) s0"
    if "valid \<longrightarrow> whole" for valid
  proof -
    from st that have "(sw_buffer w, sw_user w) =
        fold (expected_call valid prog cg) (map (\<lambda>k. task_kind_of cg td (comp_at cg td k)) ks) s0"
      by (simp add: step_state_def)
    with call [of valid] that show ?thesis by auto
  qed
  ultimately show ?thesis using st same(2) locks outs unfolding step_state_def by simp
qed

text \<open>The components whose outputs a component reads ran before, so all its inputs are valid.\<close>

lemma inputs_known:
  assumes ready: "execution_ready cg td g i t0" and st: "step_state whole prog cg td s0 ks w" and s0: "same_step t0 (fst s0)"
    and k: "k < length (td_components cg td)"
    and c: "getComponentBufferByName t0 (fst (comp_at cg td k)) = Inr c"
  shows "\<exists>v. isAllInputValid (sw_buffer w) c = Inr v"
proof -
  from ready obtain idx d where r: "domain_graph_ok cg td" "routed cg td idx"
    "step_built td (domain_configs cg td idx) d t0" "length (buffer_data t0) = length (slots cg td)"
    unfolding execution_ready_def by blast
  have x: "comp_at cg td k \<in> set (td_components cg td)" using k by simp
  have "same_step t0 (sw_buffer w)" using st s0 by (auto simp: step_state_def intro: same_step_trans)
  then have "\<forall>p \<in> set (input_valid c). \<exists>j < length (buffer_valid (sw_buffer w)). p = Some j"
    using input_fed [OF r x c] by (fastforce simp: same_step_def)
  then show ?thesis unfolding isAllInputValid_def by (rule all_valid_total)
qed

lemma inputs_valid:
  assumes ready: "execution_ready cg td g i t0" and st: "step_state whole prog cg td s0 ks w" and s0: "same_step t0 (fst s0)"
    and k: "k < length (td_components cg td)" and data: "current_message (fst s0) = DATA" and whole: whole
    and pred: "\<And>l. l < length (td_components cg td) \<Longrightarrow>
      (fst (comp_at cg td l), fst (comp_at cg td k)) \<in> flow_edges cg td \<Longrightarrow> source_comp cg td (comp_at cg td l) \<or> l \<in> set ks"
    and c: "getComponentBufferByName t0 (fst (comp_at cg td k)) = Inr c"
  shows "isAllInputValid (sw_buffer w) c = Inr True"
  unfolding isAllInputValid_def
proof (rule all_valid_True, rule ballI)
  fix p assume p: "p \<in> set (input_valid c)"
  from ready obtain idx d where r: "domain_graph_ok cg td" "routed cg td idx"
    "step_built td (domain_configs cg td idx) d t0" "length (buffer_data t0) = length (slots cg td)"
    unfolding execution_ready_def by blast
  have "comp_at cg td k \<in> set (td_components cg td)" using k by simp
  from input_fed [OF r this c p] obtain x cx j where
    x: "x \<in> set (td_components cg td)" "(fst x, fst (comp_at cg td k)) \<in> flow_edges cg td"
    "getComponentBufferByName t0 (fst x) = Inr cx" "p = Some j" "Some j \<in> set (output_valid cx)"
    "j < length (buffer_valid t0)" by blast
  from x(1) obtain l where l: "l < length (td_components cg td)" "comp_at cg td l = x" by (auto simp: in_set_conv_nth)
  have same: "same_step t0 (sw_buffer w)" using st s0 by (auto simp: step_state_def intro: same_step_trans)
  from pred [OF l(1)] x(2) l(2) have "source_comp cg td (comp_at cg td l) \<or> l \<in> set ks" by simp
  with st l data whole have "outputs_valid (sw_buffer w) (fst x)" unfolding step_state_def by blast
  moreover have "getComponentBufferByName (sw_buffer w) (fst x) = Inr cx" using x(3) same_step_lookup(3) [OF same] by simp
  moreover have "j < length (buffer_valid (sw_buffer w))" using x(6) same by (simp add: same_step_def)
  ultimately show "\<exists>j < length (buffer_valid (sw_buffer w)). p = Some j \<and> buffer_valid (sw_buffer w) ! j = PS_VALID"
    using x(4,5) unfolding outputs_valid_def by blast
qed

lemma keeps_stepD:
  assumes "keeps_step f" and "f (t, u) = (r, t', u')"
  shows "same_step t t'" "current_message t' = current_message t" "source_buffer_list t' = source_buffer_list t"
  using assms unfolding keeps_step_def by (auto simp: Let_def dest!: spec [of _ t] spec [of _ u])

lemma writes_outputs_valid:
  assumes "writes_outputs f c" and "f (t, u) = (r, t', u')"
  shows "same_step t t'" "current_message t' = current_message t" "source_buffer_list t' = source_buffer_list t"
    "outputs_valid t a \<Longrightarrow> outputs_valid t' a" "getComponentBufferByName t a = Inr c \<Longrightarrow> outputs_valid t' a"
proof -
  from assms have w: "same_step t t'" "current_message t' = current_message t" "source_buffer_list t' = source_buffer_list t"
    "\<forall>j < length (buffer_valid t).
       buffer_valid t' ! j = (if Some j \<in> set (output_valid c) then PS_VALID else buffer_valid t ! j)"
    unfolding writes_outputs_def by (auto simp: Let_def dest!: spec [of _ t] spec [of _ u])
  then show "same_step t t'" "current_message t' = current_message t" "source_buffer_list t' = source_buffer_list t"
    by blast+
  have len: "length (buffer_valid t') = length (buffer_valid t)" using w(1) by (simp add: same_step_def)
  show "outputs_valid t a \<Longrightarrow> outputs_valid t' a" "getComponentBufferByName t a = Inr c \<Longrightarrow> outputs_valid t' a"
    using w(4) len same_step_lookup(3) [OF w(1)] by (auto simp: outputs_valid_def)
qed

lemma lock_ready_same:
  "same_step t t' \<Longrightarrow> source_buffer_list t' = source_buffer_list t \<Longrightarrow> lock_ready t' a = lock_ready t a"
  by (simp add: lock_ready_def same_step_lookup)

lemma component_task_step:
  assumes ready: "execution_ready cg td g i t0" and st: "step_state whole prog cg td s0 ks w" and s0: "same_step t0 (fst s0)"
    and k: "k < length (td_components cg td)" and comp_k: "\<not> source_comp cg td (comp_at cg td k)"
    and ev: "current_message (fst s0) \<noteq> EV_INVALID"
    and pred: "\<And>l. l < length (td_components cg td) \<Longrightarrow>
      (fst (comp_at cg td l), fst (comp_at cg td k)) \<in> flow_edges cg td \<Longrightarrow> source_comp cg td (comp_at cg td l) \<or> l \<in> set ks"
    and keep: "\<And>c. current_message (fst s0) = DATA \<Longrightarrow> getComponentBufferByName t0 (fst (comp_at cg td k)) = Inr c \<Longrightarrow>
      keeps_step (co_processTimePoint (code_of prog (snd (comp_at cg td k))) c) \<and>
      keeps_step (co_processTimePointWithInvalid (code_of prog (snd (comp_at cg td k))) c)"
    and wr: "\<And>c. current_message (fst s0) = DATA \<Longrightarrow> whole \<Longrightarrow> getComponentBufferByName t0 (fst (comp_at cg td k)) = Inr c \<Longrightarrow>
      writes_outputs (co_processTimePoint (code_of prog (snd (comp_at cg td k))) c) c"
  shows "\<exists>w'. run_task prog cg (task_kind_of cg td (comp_at cg td k)) w = Some (Inr w') \<and>
    step_state whole prog cg td s0 (ks @ [k]) w'"
proof -
  let ?x = "comp_at cg td k" and ?t = "sw_buffer w"
  let ?code = "code_of prog (snd ?x)" and ?p = "the_inst cg (fst ?x)"
  have ok: "domain_graph_ok cg td" using ready by (simp add: execution_ready_def)
  have x: "?x \<in> set (td_components cg td)" using k by simp
  note inst = domain_component_inst [OF ok td_component_in_domain [OF x], unfolded snd_conv]
  have same: "same_step t0 ?t" using st s0 by (auto simp: step_state_def intro: same_step_trans)
  from st k obtain d where d: "data_at (fst ?x) w = Inr d"
    "getComponentIndex (fst s0) (fst ?x) = Inr (data_component_index d)" unfolding step_state_def by blast
  have msg: "current_message ?t = current_message (fst s0)" using st by (simp add: step_state_def)
  have kind: "task_kind_of cg td ?x = ComponentTask (fst ?x) (snd ?x)" using comp_k by (simp add: task_kind_of_def)
  have run: "run_task prog cg (task_kind_of cg td ?x) w = Some (TaskFlowComponentTask_process ?code ?p (fst ?x) w)"
    using inst(2) by (simp add: kind)
  show ?thesis
  proof (cases "current_message (fst s0) = DATA")
    case True
    from ready obtain idx dd where r: "step_built td (domain_configs cg td idx) dd t0" unfolding execution_ready_def by blast
    from domain_component_buffer [OF ok td_component_in_domain [OF x] r] obtain c where
      c: "getComponentBufferByName t0 (fst ?x) = Inr c" by auto
    then have ct: "getComponentBufferByName ?t (fst ?x) = Inr c" using same_step_lookup [OF same] by simp
    have "getComponentIndex ?t (fst ?x) = Inr (data_component_index d)"
      using d(2) same_step_lookup(1) [OF same] same_step_lookup(1) [OF s0] by simp
    with ct have ci: "getComponentBuffer ?t (int (data_component_index d)) = Inr c"
      by (simp add: getComponentBufferByName_def)
    from inputs_known [OF ready st s0 k c] obtain v where v: "isAllInputValid ?t c = Inr v" by blast
    have vf: v if whole using inputs_valid [OF ready st s0 k True that pred c] v by simp
    let ?f = "if v then co_processTimePoint ?code c else co_processTimePointWithInvalid ?code c"
    obtain rr t' u' where f: "?f (?t, sw_user w) = (rr, t', u')" by (cases "?f (?t, sw_user w)")
    have "keeps_step ?f" using keep [OF True c] by simp
    note K = keeps_stepD [OF this f]
    have W: "outputs_valid ?t a \<Longrightarrow> outputs_valid t' a" "getComponentBufferByName ?t a = Inr c \<Longrightarrow> outputs_valid t' a"
      if whole for a
      using writes_outputs_valid(4,5) [OF wr [OF True that c]] f vf [OF that] by auto
    have "TaskFlowComponentTask_process ?code ?p (fst ?x) w =
        Inr (call_done (fst ?x) d (w\<lparr>sw_buffer := t', sw_user := u'\<rparr>))"
      using d(1) True msg ci v f
      by (cases v) (simp_all add: TaskFlowComponentTask_process_def call_buffer_def)
    moreover have "step_state whole prog cg td s0 (ks @ [k]) (call_done (fst ?x) d (w\<lparr>sw_buffer := t', sw_user := u'\<rparr>))"
    proof (rule step_state_next [OF ok st k d(1) _ K(1,2)])
      show "(t', u') = expected_call valid prog cg (task_kind_of cg td ?x) (?t, sw_user w)"
        if "(valid \<longrightarrow> whole \<and> current_message (fst s0) = DATA) \<or> current_message (fst s0) \<noteq> DATA" for valid
        using kind True msg ct f v vf that by (auto split: if_splits)
      show "lock_ready t' (fst (comp_at cg td l))" if "l < length (td_components cg td)"
        "source_comp cg td (comp_at cg td l)" "l \<notin> set (ks @ [k])" for l
        using st that lock_ready_same [OF K(1,3)] by (simp add: step_state_def)
      show "outputs_valid t' (fst (comp_at cg td l))" if whole and l: "l < length (td_components cg td)"
        "source_comp cg td (comp_at cg td l) \<or> l \<in> set (ks @ [k])" for l
      proof (cases "l = k")
        case False
        with l st True \<open>whole\<close> have "outputs_valid ?t (fst (comp_at cg td l))" by (auto simp: step_state_def)
        then show ?thesis by (rule W(1) [OF \<open>whole\<close>])
      qed (use W(2) [OF \<open>whole\<close>] ct in simp)
    qed
    ultimately show ?thesis using run by auto
  next
    case False
    let ?u = "event_method (current_message ?t) (changed_pattern_instance_id ?t = fst ?x) ?code ?p (sw_user w)"
    have "TaskFlowComponentTask_process ?code ?p (fst ?x) w = Inr (call_done (fst ?x) d (w\<lparr>sw_user := ?u\<rparr>))"
      using d(1) False ev msg inst(7) by (simp add: TaskFlowComponentTask_process_def control_event_eq)
    moreover have "step_state whole prog cg td s0 (ks @ [k]) (call_done (fst ?x) d (w\<lparr>sw_buffer := ?t, sw_user := ?u\<rparr>))"
    proof (rule step_state_next [OF ok st k d(1) _ same_step_refl refl])
      show "(?t, ?u) = expected_call valid prog cg (task_kind_of cg td ?x) (?t, sw_user w)" for valid
        using kind False msg by simp
      show "lock_ready ?t (fst (comp_at cg td l))" if "l < length (td_components cg td)"
        "source_comp cg td (comp_at cg td l)" "l \<notin> set (ks @ [k])" for l
        using st that by (simp add: step_state_def)
    qed (use False in simp)
    ultimately show ?thesis using run by auto
  qed
qed

lemma component_index_inj:
  assumes ready: "execution_ready cg td g i t0" and k: "k < length (td_components cg td)" "l < length (td_components cg td)"
    and j: "getComponentIndex t0 (fst (comp_at cg td k)) = Inr j" "getComponentIndex t0 (fst (comp_at cg td l)) = Inr j"
  shows "k = l"
proof -
  from ready obtain idx d where r: "domain_graph_ok cg td" "step_built td (domain_configs cg td idx) d t0"
    unfolding execution_ready_def by blast
  have "fst (comp_at cg td n) = snd (domain_components cg td ! j)"
    if "n < length (td_components cg td)" "getComponentIndex t0 (fst (comp_at cg td n)) = Inr j" for n
    using component_position [OF r, of "comp_at cg td n"] that by auto
  with k j have "fst (comp_at cg td k) = fst (comp_at cg td l)" by metis
  with comp_at_inj [OF r(1) k] show ?thesis .
qed

lemma source_task_step:
  assumes ready: "execution_ready cg td g i t0" and st: "step_state whole prog cg td s0 ks w" and s0: "same_step t0 (fst s0)"
    and k: "k < length (td_components cg td)" "k \<notin> set ks" and src: "source_comp cg td (comp_at cg td k)"
    and ev: "current_message (fst s0) \<noteq> EV_INVALID"
  shows "\<exists>w'. run_task prog cg (task_kind_of cg td (comp_at cg td k)) w = Some (Inr w') \<and>
    step_state whole prog cg td s0 (ks @ [k]) w'"
proof -
  let ?x = "comp_at cg td k" and ?t = "sw_buffer w"
  let ?code = "code_of prog (snd ?x)" and ?p = "the_inst cg (fst ?x)"
  have ok: "domain_graph_ok cg td" using ready by (simp add: execution_ready_def)
  have x: "?x \<in> set (td_components cg td)" using k by simp
  note inst = domain_component_inst [OF ok td_component_in_domain [OF x], unfolded snd_conv]
  have same: "same_step t0 ?t" using st s0 by (auto simp: step_state_def intro: same_step_trans)
  from st k obtain d where d: "data_at (fst ?x) w = Inr d"
    "getComponentIndex (fst s0) (fst ?x) = Inr (data_component_index d)" unfolding step_state_def by blast
  let ?j = "data_component_index d"
  have j0: "getComponentIndex t0 (fst ?x) = Inr ?j" using d(2) same_step_lookup(1) [OF s0] by simp
  then have jt: "getComponentIndex ?t (fst ?x) = Inr ?j" using same_step_lookup(1) [OF same] by simp
  have msg: "current_message ?t = current_message (fst s0)" using st by (simp add: step_state_def)
  from st k src have "lock_ready ?t (fst ?x)" by (simp add: step_state_def)
  with jt have j: "?j < length (source_buffer_list ?t)" "scb_committed (source_buffer_list ?t ! ?j)"
    "\<not> pr_retrieved (source_lock (source_buffer_list ?t ! ?j))" by (auto simp: lock_ready_def)
  let ?s = "source_buffer_list ?t ! ?j"
  let ?s' = "?s\<lparr>source_lock := (source_lock ?s)\<lparr>pr_retrieved := True\<rparr>\<rparr>"
  let ?t' = "?t\<lparr>source_buffer_list := (source_buffer_list ?t)[?j := ?s']\<rparr>"
  have lock: "tsb_getSourceLock (int ?j) ?t = Inr ?t'"
    using j by (simp add: tsb_getSourceLock_def update_source_Inr scb_getSourceLock_def get_future_def)
  then have take: "take_lock (fst ?x) ?t = ?t'" using jt by (simp add: take_lock_def)
  from j(2) obtain v where v: "pr_value (source_lock ?s) = Some v" by (auto simp: scb_committed_def)
  have val: "getSourceComponentBuffer ?t' (int ?j) = Inr ?s'" "pr_value (source_lock ?s') = Some v"
    using j(1) v by (simp_all add: getSourceComponentBuffer_def raw_get_int)
  let ?u = "if current_message ?t = DATA then sw_user w
    else event_method (current_message ?t) (changed_pattern_instance_id ?t = fst ?x) ?code ?p (sw_user w)"
  have kind: "task_kind_of cg td ?x = SourceTask (fst ?x) (snd ?x)" using src by (simp add: task_kind_of_def)
  have "TaskFlowSourceTask_process ?code ?p (fst ?x) w =
      Some (Inr (call_done (fst ?x) d (w\<lparr>sw_buffer := ?t', sw_user := ?u\<rparr>)))"
    using d(1) lock val ev msg inst(7)
    by (simp add: TaskFlowSourceTask_process_def Let_def control_event_eq)
  then have "run_task prog cg (task_kind_of cg td ?x) w =
      Some (Inr (call_done (fst ?x) d (w\<lparr>sw_buffer := ?t', sw_user := ?u\<rparr>)))"
    using inst(2) by (simp add: kind)
  moreover have same': "same_step ?t ?t'" by (simp add: same_step_def)
  have "step_state whole prog cg td s0 (ks @ [k]) (call_done (fst ?x) d (w\<lparr>sw_buffer := ?t', sw_user := ?u\<rparr>))"
  proof (rule step_state_next [OF ok st k(1) d(1) _ same'])
    show "(?t', ?u) = expected_call valid prog cg (task_kind_of cg td ?x) (?t, sw_user w)" for valid
      using kind msg take by simp
    show "lock_ready ?t' (fst (comp_at cg td l))" if l: "l < length (td_components cg td)"
      "source_comp cg td (comp_at cg td l)" "l \<notin> set (ks @ [k])" for l
    proof -
      from l st have "lock_ready ?t (fst (comp_at cg td l))" by (simp add: step_state_def)
      then obtain m where m: "getComponentIndex ?t (fst (comp_at cg td l)) = Inr m" "m < length (source_buffer_list ?t)"
        "scb_committed (source_buffer_list ?t ! m)" "\<not> pr_retrieved (source_lock (source_buffer_list ?t ! m))"
        unfolding lock_ready_def by blast
      have "m \<noteq> ?j"
        using component_index_inj [OF ready k(1) l(1) j0] m(1) l(3) same_step_lookup(1) [OF same] by auto
      with m show ?thesis using same_step_lookup(1) [OF same'] by (simp add: lock_ready_def)
    qed
    show "outputs_valid ?t' (fst (comp_at cg td l))" if "current_message (fst s0) = DATA" whole
      "l < length (td_components cg td)" "source_comp cg td (comp_at cg td l) \<or> l \<in> set (ks @ [k])" for l
    proof -
      have "outputs_valid ?t (fst (comp_at cg td l))" using st that src k(1) by (auto simp: step_state_def)
      then show ?thesis using same_step_lookup(3) [OF same'] by (simp add: outputs_valid_def)
    qed
  qed simp
  ultimately show ?thesis by blast
qed

text \<open>
  Running a whole time step in an order that respects the task graph: every task returns, and the effect
  is that of the expected calls. For data, the sources have written their outputs before.
\<close>

lemma run_step_ok:
  assumes ready: "execution_ready cg td g i t0" and s0: "same_step t0 t"
    and kinds: "\<And>k. k < length (td_components cg td) \<Longrightarrow> kind (task_at g k) = task_kind_of cg td (comp_at cg td k)"
    and order: "in_order (links (task_store g)) (length (td_components cg td)) order"
    and ev: "current_message t \<noteq> EV_INVALID"
    and locks: "locks_ready t"
    and src: "\<And>x. current_message t = DATA \<Longrightarrow> whole \<Longrightarrow> x \<in> set (td_components cg td) \<Longrightarrow> source_comp cg td x \<Longrightarrow>
      outputs_valid t (fst x)"
    and keep: "\<And>x c. current_message t = DATA \<Longrightarrow> x \<in> set (td_components cg td) \<Longrightarrow> \<not> source_comp cg td x \<Longrightarrow>
      getComponentBufferByName t0 (fst x) = Inr c \<Longrightarrow> keeps_step (co_processTimePoint (code_of prog (snd x)) c) \<and>
      keeps_step (co_processTimePointWithInvalid (code_of prog (snd x)) c)"
    and wr: "\<And>x c. current_message t = DATA \<Longrightarrow> whole \<Longrightarrow> x \<in> set (td_components cg td) \<Longrightarrow> \<not> source_comp cg td x \<Longrightarrow>
      getComponentBufferByName t0 (fst x) = Inr c \<Longrightarrow> writes_outputs (co_processTimePoint (code_of prog (snd x)) c) c"
  shows "\<exists>w. run_tasks prog cg (map (\<lambda>k. kind (task_at g k)) order)
      \<lparr>sw_buffer = t, sw_data = task_data g ! i, sw_user = u\<rparr> = Some (Inr w) \<and> step_state whole prog cg td (t, u) order w"
proof -
  let ?n = "length (td_components cg td)"
  have ok: "domain_graph_ok cg td" and cgr: "component_graph cg td g" using ready by (simp_all add: execution_ready_def)
  from ready obtain idx dd where built: "step_built td (domain_configs cg td idx) dd t0"
    unfolding execution_ready_def by blast
  have "lock_ready t (fst (comp_at cg td k))" if k: "k < ?n" "source_comp cg td (comp_at cg td k)" for k
  proof -
    have "comp_at cg td k \<in> set (td_components cg td)" using k by simp
    from component_position [OF ok built this] obtain j where j: "j < length (domain_components cg td)"
      "domain_components cg td ! j = (comp_type (the_inst cg (fst (comp_at cg td k))) td, fst (comp_at cg td k))"
      "getComponentIndex t0 (fst (comp_at cg td k)) = Inr j" by blast
    with k(2) source_position [OF ok built j(1)] have "j < length (source_buffer_list t0)" by simp
    then have "j < length (source_buffer_list t)" using s0 by (simp add: same_step_def)
    moreover have "getComponentIndex t (fst (comp_at cg td k)) = Inr j" using j(3) same_step_lookup(1) [OF s0] by simp
    ultimately show ?thesis using locks by (auto simp: lock_ready_def locks_ready_def)
  qed
  moreover have "\<exists>d. data_at (fst (comp_at cg td k)) \<lparr>sw_buffer = t, sw_data = task_data g ! i, sw_user = u\<rparr> = Inr d \<and>
      getComponentIndex t (fst (comp_at cg td k)) = Inr (data_component_index d)" if "k < ?n" for k
  proof -
    have "comp_at cg td k \<in> set (td_components cg td)" using that by simp
    with ready obtain j where "getComponentIndex t0 (fst (comp_at cg td k)) = Inr j" "map_of (task_data g ! i) (fst (comp_at cg td k)) =
        Some (Some \<lparr>data_time_step = i, data_component_index = j, valid_component_call = False\<rparr>)"
      unfolding execution_ready_def by blast
    then show ?thesis using same_step_lookup(1) [OF s0] by (simp add: data_at_def map_at_def)
  qed
  ultimately have init: "step_state whole prog cg td (t, u) [] \<lparr>sw_buffer = t, sw_data = task_data g ! i, sw_user = u\<rparr>"
    using src same_step_refl by (simp add: step_state_def)
  have "\<exists>w. run_tasks prog cg (map (\<lambda>k. kind (task_at g k)) (take m order))
      \<lparr>sw_buffer = t, sw_data = task_data g ! i, sw_user = u\<rparr> = Some (Inr w) \<and>
      step_state whole prog cg td (t, u) (take m order) w" if "m \<le> length order" for m
    using that
  proof (induction m)
    case 0
    with init show ?case by simp
  next
    case (Suc m)
    then obtain w where w: "run_tasks prog cg (map (\<lambda>k. kind (task_at g k)) (take m order))
      \<lparr>sw_buffer = t, sw_data = task_data g ! i, sw_user = u\<rparr> = Some (Inr w)"
      "step_state whole prog cg td (t, u) (take m order) w" by auto
    let ?k = "order ! m"
    have tk: "take (Suc m) order = take m order @ [?k]" using Suc.prems by (simp add: take_Suc_conv_app_nth)
    have k: "?k < ?n" using order Suc.prems by (force simp: in_order_def)
    have new: "?k \<notin> set (take m order)"
      using order Suc.prems by (auto simp: in_order_def in_set_conv_nth nth_eq_iff_index_eq)
    have pred: "l \<in> set (take m order)" if l: "l < ?n"
      "(fst (comp_at cg td l), fst (comp_at cg td ?k)) \<in> flow_edges cg td" for l
    proof -
      have "(l, ?k) \<in> links (task_store g)"
        using cgr l k by (simp add: component_graph_def positions_def component_edges_def)
      moreover obtain p where "p < length order" "order ! p = l" using order l(1) by (metis in_order_def in_set_conv_nth lessThan_iff)
      ultimately have "p < m" using order Suc.prems by (auto simp: in_order_def)
      with \<open>p < length order\<close> \<open>order ! p = l\<close> show ?thesis by (auto simp: in_set_conv_nth)
    qed
    have "\<exists>w'. run_task prog cg (task_kind_of cg td (comp_at cg td ?k)) w = Some (Inr w') \<and>
      step_state whole prog cg td (t, u) (take m order @ [?k]) w'"
    proof (cases "source_comp cg td (comp_at cg td ?k)")
      case True
      show ?thesis using source_task_step [OF ready w(2) _ k new True] s0 ev by simp
    next
      case False
      have "comp_at cg td ?k \<in> set (td_components cg td)" using k by simp
      with component_task_step [OF ready w(2) _ k False] s0 ev pred keep wr False show ?thesis by simp
    qed
    then show ?case using w(1) by (auto simp: tk run_tasks_append kinds [OF k])
  qed
  from this [of "length order"] show ?thesis by simp
qed

text \<open>Of a control event only the calls of the methods are left: no task reads or writes a port.\<close>

lemma take_lock_event:
  "current_message (take_lock a t) = current_message t"
  "changed_pattern_instance_id (take_lock a t) = changed_pattern_instance_id t"
  by (auto simp: take_lock_def tsb_getSourceLock_def update_source_Inr split: sum.splits)

lemma expected_control:
  assumes "current_message t \<noteq> DATA"
  shows "snd (fold (expected_call valid prog cg) (map (\<lambda>k. task_kind_of cg td (comp_at cg td k)) order) (t, u)) =
     fold (\<lambda>k. event_method (current_message t) (changed_pattern_instance_id t = fst (comp_at cg td k))
       (code_of prog (snd (comp_at cg td k))) (the_inst cg (fst (comp_at cg td k)))) order u"
  using assms
proof (induction order arbitrary: t u)
  case (Cons k order)
  let ?x = "comp_at cg td k"
  let ?u = "event_method (current_message t) (changed_pattern_instance_id t = fst ?x) (code_of prog (snd ?x))
    (the_inst cg (fst ?x)) u"
  obtain t' where "expected_call valid prog cg (task_kind_of cg td ?x) (t, u) = (t', ?u)"
    "current_message t' = current_message t" "changed_pattern_instance_id t' = changed_pattern_instance_id t"
    using Cons.prems take_lock_event by (cases "source_comp cg td ?x") (auto simp: task_kind_of_def)
  with Cons show ?case by simp
qed simp

end
