(* ===== verification/Demo.thy ===== *)
theory Demo
  imports Execution
begin

text \<open>
  A concrete data flow for the witnesses of the properties: an asynchronous source \<open>a\<close> whose output
  feeds a synchronous sink \<open>b\<close>, in time domain 0 with two concurrent time steps. It is built with the
  operations of \<open>GraphInstance\<close>, so that the graph invariant holds because the graph is reachable.
\<close>

definition the_ok :: "'a \<Rightarrow> 'a res \<Rightarrow> 'a" where
  "the_ok d r = (case r of Inr x \<Rightarrow> x | Inl e \<Rightarrow> d)"

lemma is_ok_the: "is_ok r \<Longrightarrow> r = Inr (the_ok d r)"
  by (cases r) (auto simp: the_ok_def)

definition source_calls :: "build_call list" where
  "source_calls = [AddProducer ''o'' ''t'' 0]"

definition sink_calls :: "build_call list" where
  "sink_calls = [AddConsumer ''i'' ''t'' 0]"

definition source_pattern :: Pattern where
  "source_pattern = the_ok Pattern_default
     (bind_res (Pattern_make ''s'' SERIAL ASYNC_SOURCE) (\<lambda>p. build p source_calls))"

definition sink_pattern :: Pattern where
  "sink_pattern = the_ok Pattern_default
     (bind_res (Pattern_make ''k'' SERIAL SYNC_SINK) (\<lambda>p. build p sink_calls))"

definition domain_0 :: TimeDomainManagerConfig where
  "domain_0 = default_config\<lparr>time_domain := 0, ringbuffer_size := 2, max_offset := 5\<rparr>"

definition graph_empty :: GraphInstance where
  "graph_empty = (GraphInstance_make ''g'')\<lparr>timedomain_configs := [(0, domain_0)]\<rparr>"

definition graph_a :: GraphInstance where
  "graph_a = the_ok graph_empty (addPattern ''a'' source_pattern 0 graph_empty)"

definition graph_ab :: GraphInstance where
  "graph_ab = the_ok graph_empty (addPattern ''b'' sink_pattern 0 graph_a)"

definition the_connected :: "GraphInstance res option \<Rightarrow> GraphInstance" where
  "the_connected r = (case r of Some x \<Rightarrow> the_ok graph_empty x | None \<Rightarrow> graph_empty)"

definition demo_graph :: GraphInstance where
  "demo_graph = the_connected (connect 2 ''a'' ''o'' ''b'' ''i'' graph_ab)"

definition demo_cg :: ComponentGraph where
  "demo_cg = \<lparr>graph_instance = demo_graph, patterns = [(''a'', 0), (''b'', 1)]\<rparr>"

lemma source_built: "bind_res (Pattern_make ''s'' SERIAL ASYNC_SOURCE) (\<lambda>p. build p source_calls) = Inr source_pattern"
  unfolding source_pattern_def by (rule is_ok_the) code_simp

lemma sink_built: "bind_res (Pattern_make ''k'' SERIAL SYNC_SINK) (\<lambda>p. build p sink_calls) = Inr sink_pattern"
  unfolding sink_pattern_def by (rule is_ok_the) code_simp

lemma demo_patterns_ok: "pattern_ok source_pattern" "pattern_ok sink_pattern"
  using source_built sink_built Pattern_make_ok build_ok [of _ source_calls] build_ok [of _ sink_calls]
  by (auto simp: source_calls_def sink_calls_def simp del: split_paired_Ex)

lemma demo_steps:
  "addPattern ''a'' source_pattern 0 graph_empty = Inr graph_a"
  "addPattern ''b'' sink_pattern 0 graph_a = Inr graph_ab"
  "connect 2 ''a'' ''o'' ''b'' ''i'' graph_ab = Some (Inr demo_graph)"
proof -
  show "addPattern ''a'' source_pattern 0 graph_empty = Inr graph_a"
    unfolding graph_a_def by (rule is_ok_the) code_simp
  show "addPattern ''b'' sink_pattern 0 graph_a = Inr graph_ab"
    unfolding graph_ab_def by (rule is_ok_the) code_simp
  have "(case connect 2 ''a'' ''o'' ''b'' ''i'' graph_ab of Some r \<Rightarrow> is_ok r | None \<Rightarrow> False)" by code_simp
  then show "connect 2 ''a'' ''o'' ''b'' ''i'' graph_ab = Some (Inr demo_graph)"
    unfolding demo_graph_def by (auto simp: the_connected_def the_ok_def split: option.splits sum.splits)
qed

lemma demo_added_steps: "graph_step graph_empty graph_a" "graph_step graph_a graph_ab"
  using demo_steps(1,2) by (metis step_add)+

lemma demo_run: "run graph_step graph_empty graph_ab" "run graph_step graph_empty demo_graph"
  using demo_added_steps step_connect [OF demo_steps(3)] by (meson run_refl run_step)+

lemma demo_named: "well_named graph_ab" "well_named demo_graph"
proof -
  have "distinct (map pg_name (port_groups source_pattern))" "distinct (map pg_name (port_groups sink_pattern))"
    by code_simp+
  then have pat: "pattern_named source_pattern" "pattern_named sink_pattern"
    using demo_patterns_ok by (simp_all add: pattern_named_def)
  have "list_all (\<lambda>(a, p). (local_pattern p = source_pattern \<or> local_pattern p = sink_pattern) \<and> resolves p)
      (pattern_instances graph_ab)"
    "list_all (\<lambda>(a, p). (local_pattern p = source_pattern \<or> local_pattern p = sink_pattern) \<and> resolves p)
      (pattern_instances demo_graph)"
    by code_simp+
  with pat show "well_named graph_ab" "well_named demo_graph" by (auto simp: well_named_def list_all_iff)
qed

lemma demo_graph_start: "graph_start graph_empty"
  by (simp add: graph_start_def graph_empty_def GraphInstance_make_def)

lemma demo_inv: "graph_inv demo_graph"
  by (rule graph_reached [OF demo_graph_start demo_run(2) demo_named(2)])

lemma demo_domain: "domain_graph_ok demo_cg 0"
proof -
  have "graph_inv (graph_instance demo_cg)" by (simp add: demo_cg_def demo_inv)
  moreover have "domain_ready demo_cg 0" by code_simp
  moreover have "checkRunnable (graph_instance demo_cg) = Inr None" by code_simp
  ultimately show ?thesis by (simp add: domain_graph_ok_def)
qed

definition demo_class :: "component_ptr \<Rightarrow> component_class" where
  "demo_class c = PlainComponent"

lemma demo_domain_config: "domain_config demo_cg 0 = domain_0"
  by code_simp

lemma demo_startable: "startable demo_class demo_cg 0 [''t'']"
proof -
  have "set (slot_types demo_cg 0) \<subseteq> set [''t'']" by code_simp
  moreover have "list_all (\<lambda>x. demo_class (snd x) = PlainComponent \<and> fst x \<noteq> kTimeStepStart \<and> fst x \<noteq> kTimeStepEnd)
      (td_components demo_cg 0)" by code_simp
  then have "plain_domain demo_class demo_cg 0" by (auto simp: plain_domain_def list_all_iff)
  moreover have "sources_read_nothing demo_cg 0" by code_simp
  moreover have "\<forall>x \<in> set (td_components demo_cg 0). is_ok (getConcurrency (the_inst demo_cg (fst x)) 0)" by code_simp
  moreover have "\<forall>x \<in> set (td_components demo_cg 0). comp_type (the_inst demo_cg (fst x)) 0 \<noteq> SYNC_SOURCE" by code_simp
  moreover have "time_domain (domain_config demo_cg 0) = 0" "0 < ringbuffer_size (domain_config demo_cg 0)"
    by (simp_all add: demo_domain_config domain_0_def)
  ultimately show ?thesis using demo_domain unfolding startable_def by blast
qed

definition no_callbacks :: Callbacks where
  "no_callbacks = \<lparr>request_exit_callback = [], request_callback = []\<rparr>"

lemma demo_components: "td_components demo_cg 0 = [(''a'', 0), (''b'', 1)]"
  by code_simp

lemma demo_order:
  assumes "component_graph demo_cg 0 g" and "acyclic (links (task_store g))"
  shows "in_order (links (task_store g)) 2 [0, 1]"
proof -
  have "\<exists>l \<in> set (td_ports PRODUCER (the_inst demo_cg ''a'') 0). \<exists>m \<in> set (td_ports CONSUMER (the_inst demo_cg ''b'') 0).
    connected_to (port_inst_at (ports_of CONSUMER) (the_inst demo_cg ''b'') m) = loc_id PRODUCER (the_inst demo_cg ''a'') l"
    by code_simp
  then have "(''a'', ''b'') \<in> flow_edges demo_cg 0" by (simp add: flow_edges_def demo_components)
  then have "(0, 1) \<in> links (task_store g)"
    using assms(1) by (simp add: component_graph_def positions_def component_edges_def demo_components)
  then have "(1, 0) \<notin> links (task_store g)" using assms(2) by (meson acyclic_def trancl.simps)
  moreover have "(k, k) \<notin> links (task_store g)" for k using assms(2) by (auto simp: acyclic_def)
  ultimately show ?thesis by (auto simp: in_order_def less_Suc_eq numeral_2_eq_2)
qed

end
