(* ===== verification/GraphProps.thy ===== *)
theory GraphProps
  imports Demo
begin

text \<open>
  The properties of patterns, pattern instances and the dataflow graph: the numbering of ports, the
  invariant of every graph that an application can build, the decision \<open>connect\<close> makes, and what
  \<open>checkRunnable\<close> reports.
\<close>

section \<open>Patterns and port indices\<close>



lemma demo_instance_ok: "map_of (pattern_instances demo_graph) ''b'' = Some (the_inst demo_cg ''b'')"
    "pattern_instance_ok (the_inst demo_cg ''b'')"
    "map_of (pattern_instances demo_graph) ''a'' = Some (the_inst demo_cg ''a'')"
    "pattern_instance_ok (the_inst demo_cg ''a'')"
proof -
  have "graph_ok demo_graph" using demo_inv by (simp add: graph_inv_def)
  moreover have "\<not> Option.is_none (map_of (pattern_instances demo_graph) ''b'')"
    "\<not> Option.is_none (map_of (pattern_instances demo_graph) ''a'')" by code_simp+
  then show "map_of (pattern_instances demo_graph) ''b'' = Some (the_inst demo_cg ''b'')"
    "map_of (pattern_instances demo_graph) ''a'' = Some (the_inst demo_cg ''a'')"
    by (auto simp: the_inst_def demo_cg_def Option.is_none_def)
  ultimately show "pattern_instance_ok (the_inst demo_cg ''b'')" "pattern_instance_ok (the_inst demo_cg ''a'')"
    using graph_okD(2) by blast+
qed

text \<open>C28: The formula with which a component buffer addresses a port of a port group agrees with the
  index of that port: the offset of the group, plus the number of ports per instance times the
  instance, plus the position of the port in its group.\<close>

theorem group_offset_addresses_ports:
  assumes "pattern_instance_ok p" and "t \<in> {PRODUCER, CONSUMER}"
    and "g < length (inst_port_groups p)" and "i < length (inst_port_groups p ! g)"
    and "k < length (ports_of t (inst_port_groups p ! g ! i))"
  shows "\<exists>offset count. getPortGroupOffset p (int g) t (local_domain t p (g, i, k)) =
       Inr (offset, count, int (length (inst_port_groups p ! g))) \<and>
     loc_index t p (g, i, k) = group_index
       (replicate g default_group_config @
         [\<lparr>group_offset = offset, group_port_count = count, pgc_size = int (length (inst_port_groups p ! g))\<rparr>])
       (int g) (int i) (port_port_index (inst_port (port_inst_at (ports_of t) p (g, i, k))))"
proof -
  have t: "t \<noteq> PT_NONE" and ne: "inst_port_groups p ! g \<noteq> []" using assms(2,4) by auto
  let ?td = "local_domain t p (g, i, k)"
  have "i \<le> length (inst_port_groups p ! g)" using assms(4) by simp
  from getPortGroupOffset_eq [OF assms(1) t assms(3) ne, of ?td] loc_index_eq [OF assms(1) t assms(3-5)]
    start_index_stride [OF assms(1,3) this ne, of t ?td]
  show ?thesis by (auto simp: group_index_def raw_get_int nth_append algebra_simps)
qed

theorem group_offset_addresses_ports_witness:
  "\<exists>offset count. getPortGroupOffset (the_inst demo_cg ''b'') 0 CONSUMER 0 = Inr (offset, count, 1)"
proof -
  let ?p = "the_inst demo_cg ''b''"
  have "0 < length (inst_port_groups ?p) \<and> length (inst_port_groups ?p ! 0) = 1 \<and>
      0 < length (ports_of CONSUMER (inst_port_groups ?p ! 0 ! 0)) \<and> local_domain CONSUMER ?p (0, 0, 0) = 0"
    by code_simp
  with group_offset_addresses_ports [OF demo_instance_ok(2), of CONSUMER 0 0 0] show ?thesis by auto
qed

section \<open>Graphs an application can build\<close>







section \<open>Ambiguous names\<close>

text \<open>
  A port is looked up by its full name, but first among the plain names of the default group: a port
  that is named like the full name of another one hides it from the search.
\<close>

definition built_pattern :: "string \<Rightarrow> ComponentType \<Rightarrow> build_call list \<Rightarrow> Pattern res" where
  "built_pattern n t calls = bind_res (Pattern_make n SERIAL t) (\<lambda>p. build p calls)"

definition looped_graph :: "GraphInstance res option" where
  "looped_graph =
     (case bind_res (built_pattern ''A'' SYNC_FUNCTIONAL
               [AddConsumer ''c'' ''t'' 0, AddProducer ''x'' ''t'' 0, AddProducer ''Default_0_x'' ''t'' 0]) (\<lambda>pa.
           bind_res (built_pattern ''B'' SYNC_FUNCTIONAL [AddConsumer ''i'' ''t'' 0, AddProducer ''o'' ''t'' 0]) (\<lambda>pb.
           bind_res (addPattern ''a'' pa 0 (GraphInstance_make ''g'')) (addPattern ''b'' pb 0))) of
        Inl e \<Rightarrow> Some (Inl e)
      | Inr g \<Rightarrow>
          (case connect 2 ''a'' ''x'' ''b'' ''i'' g of
             Some (Inr g) \<Rightarrow> connect 2 ''b'' ''o'' ''a'' ''c'' g
           | r \<Rightarrow> r))"

definition open_graph :: "GraphInstance res option" where
  "open_graph =
     (case bind_res (built_pattern ''D'' SYNC_FUNCTIONAL
               [AddConsumer ''i'' ''t'' 0, AddProducer ''Default_0_i'' ''t'' 0]) (\<lambda>pd.
           bind_res (built_pattern ''E'' SYNC_SINK [AddConsumer ''c'' ''t'' 0]) (\<lambda>pe.
           bind_res (addPattern ''d'' pd 0 (GraphInstance_make ''g'')) (addPattern ''e'' pe 0))) of
        Inl e \<Rightarrow> Some (Inl e)
      | Inr g \<Rightarrow> connect 2 ''d'' ''Default_0_i'' ''e'' ''c'' g)"

definition has_edge :: "GraphInstance \<Rightarrow> string \<Rightarrow> string \<Rightarrow> bool" where
  "has_edge g a b = list_ex (\<lambda>((a', t, l), p). a' = a \<and> list_ex (\<lambda>((b', u, m), q). b' = b \<and>
     connected_to (port_inst_at (ports_of CONSUMER) q m) = loc_id PRODUCER p l) (port_refs g CONSUMER))
     (port_refs g PRODUCER)"

lemma has_edge_edges:
  assumes "distinct (map fst (pattern_instances g))" and "has_edge g a b"
  shows "(a, b) \<in> edges g"
proof -
  from assms(2) obtain p l q m where "(a, p) \<in> set (pattern_instances g)" "(b, q) \<in> set (pattern_instances g)"
    "l \<in> set (port_locs (ports_of PRODUCER) p)" "m \<in> set (port_locs (ports_of CONSUMER) q)"
    "connected_to (port_inst_at (ports_of CONSUMER) q m) = loc_id PRODUCER p l"
    by (auto simp: has_edge_def list_ex_iff port_refs_def)
  moreover from this assms(1) have "map_of (pattern_instances g) a = Some p" "map_of (pattern_instances g) b = Some q"
    by simp_all
  ultimately show ?thesis unfolding edges_def by blast
qed

text \<open>C9: If one port of the default group has the full name of another one, the checks of the graph are wrong.
  With the producers \<open>x\<close> and \<open>Default_0_x\<close> in the pattern of \<open>a\<close>, connecting \<open>x\<close> to \<open>b\<close> and then \<open>b\<close> to \<open>a\<close> is
  accepted and closes a loop; with the consumer \<open>i\<close> and the producer \<open>Default_0_i\<close> in the pattern of \<open>d\<close>,
  \<open>checkRunnable\<close> accepts the graph although \<open>i\<close> is not connected.\<close>

theorem ambiguous_names_defeat_checks:
  "(\<exists>g. looped_graph = Some (Inr g) \<and> {(''a'', ''b''), (''b'', ''a'')} \<subseteq> edges g \<and> \<not> acyclic (edges g)) \<and>
   (\<exists>g d. open_graph = Some (Inr g) \<and> checkRunnable g = Inr None \<and> map_of (pattern_instances g) ''d'' = Some d \<and>
      getConsumerPort d ''i'' = Inr (Some (0, 0, 0)) \<and>
      connected_to (port_inst_at (ports_of CONSUMER) d (0, 0, 0)) = ([], []))"
proof
  have "(case looped_graph of Some (Inr g) \<Rightarrow> has_edge g ''a'' ''b'' \<and> has_edge g ''b'' ''a'' \<and>
      distinct (map fst (pattern_instances g)) | _ \<Rightarrow> False)"
    by code_simp
  then obtain g where g: "looped_graph = Some (Inr g)" "(''a'', ''b'') \<in> edges g" "(''b'', ''a'') \<in> edges g"
    using has_edge_edges by (auto split: option.splits sum.splits)
  then have "(''a'', ''a'') \<in> (edges g)\<^sup>+" by (meson trancl.simps)
  then have "\<not> acyclic (edges g)" by (auto simp: acyclic_def)
  with g show "\<exists>g. looped_graph = Some (Inr g) \<and> {(''a'', ''b''), (''b'', ''a'')} \<subseteq> edges g \<and> \<not> acyclic (edges g)"
    by blast
  have "(case open_graph of Some (Inr g) \<Rightarrow> checkRunnable g = Inr None \<and>
      (case map_of (pattern_instances g) ''d'' of Some d \<Rightarrow> getConsumerPort d ''i'' = Inr (Some (0, 0, 0)) \<and>
         connected_to (port_inst_at (ports_of CONSUMER) d (0, 0, 0)) = ([], []) | None \<Rightarrow> False) | _ \<Rightarrow> False)"
    by code_simp
  then show "\<exists>g d. open_graph = Some (Inr g) \<and> checkRunnable g = Inr None \<and> map_of (pattern_instances g) ''d'' = Some d \<and>
      getConsumerPort d ''i'' = Inr (Some (0, 0, 0)) \<and>
      connected_to (port_inst_at (ports_of CONSUMER) d (0, 0, 0)) = ([], [])"
    by (auto split: option.splits sum.splits)
qed

end
