(* ===== verification/FlowSeams.thy ===== *)
theory FlowSeams
  imports FlowOk "HOL-Library.Sublist"
begin

text \<open>
  The part of the task flow that closes the ring of time steps: what \<open>createInterTimeStepDependencies\<close>
  adds behind the nodes of the time steps, node by node and dependency by dependency (\<open>sewn\<close>). A seam
  leads from the node that ends a pass to the one that begins the next, through a condition node.
  The dependencies of condition nodes are weak: such a node picks one successor, it does not hold the
  others back. Without them the whole task flow has no cycle (\<open>strong_acyclic\<close>).
\<close>

section \<open>The nodes and the dependencies of seams\<close>

text \<open>A seam: the node before it, the time step its condition looks at, and the node behind it.\<close>

type_synonym seam = "node \<times> nat \<times> node"

definition global_start :: "TraactGraph \<Rightarrow> node" where
  "global_start g = seams_from g"

definition global_end :: "TraactGraph \<Rightarrow> node" where
  "global_end g = seams_from g + 1"

definition global_entry :: "TraactGraph \<Rightarrow> node" where
  "global_entry g = seams_from g + 2"

definition seam_entry :: "TraactGraph \<Rightarrow> nat \<Rightarrow> node" where
  "seam_entry g j = seams_from g + 3 + 3 * j"

definition seam_edges :: "TraactGraph \<Rightarrow> nat \<Rightarrow> seam \<Rightarrow> (node \<times> node) list" where
  "seam_edges g j = (\<lambda>(a, i, b). [(a, seam_entry g j), (seam_entry g j, seam_entry g j + 1),
     (seam_entry g j, seam_entry g j + 2), (seam_entry g j + 1, b), (global_entry g, seam_entry g j)])"

definition outer_edges :: "TraactGraph \<Rightarrow> seam list \<Rightarrow> (node \<times> node) list" where
  "outer_edges g S = [(global_start g, global_entry g), (global_entry g, global_end g)] @
     concat (map (\<lambda>j. seam_edges g j (S ! j)) [0..<length S])"

definition outer_bodies :: "seam list \<Rightarrow> flow_body list" where
  "outer_bodies S = [GlobalStartBody, GlobalEndBody, StartEntryBody] @
     concat (map (\<lambda>(a, i, b). [SeamEntryBody i, EmptyBody, EmptyBody]) S)"

text \<open>The dependencies in which a node behind the time steps takes part, in the order of the calls.\<close>

definition outer :: "TraactGraph \<Rightarrow> TraactTaskFlowGraph \<Rightarrow> (node \<times> node) list" where
  "outer g f = filter (\<lambda>e. seams_from g \<le> fst e \<or> seams_from g \<le> snd e) (flow_precedes f)"

definition sewn :: "TraactGraph \<Rightarrow> TraactTaskFlowGraph \<Rightarrow> seam list \<Rightarrow> bool" where
  "sewn g f S \<longleftrightarrow> full g f \<and> seams_from g \<le> length (flow_nodes f) \<and> outer g f = outer_edges g S \<and>
     map node_body (drop (seams_from g) (flow_nodes f)) = outer_bodies S \<and>
     start_entries f = map (\<lambda>j. int j + 1) [0..<length S]"

lemma outer_edges_snoc: "outer_edges g (S @ [x]) = outer_edges g S @ seam_edges g (length S) x"
proof -
  have "map (\<lambda>j. seam_edges g j ((S @ [x]) ! j)) [0..<length S] = map (\<lambda>j. seam_edges g j (S ! j)) [0..<length S]"
    by (rule map_cong) (simp_all add: nth_append)
  then have "concat (map (\<lambda>j. seam_edges g j ((S @ [x]) ! j)) [0..<length S]) =
      concat (map (\<lambda>j. seam_edges g j (S ! j)) [0..<length S])" by (rule arg_cong)
  then show ?thesis by (simp add: outer_edges_def)
qed

lemma outer_bodies_snoc: "outer_bodies (S @ [(a, i, b)]) = outer_bodies S @ [SeamEntryBody i, EmptyBody, EmptyBody]"
  by (simp add: outer_bodies_def)

lemma length_outer_bodies: "length (outer_bodies S) = 3 + 3 * length S"
  by (induction S) (auto simp: outer_bodies_def)

lemma sewn_length: "sewn g f S \<Longrightarrow> length (flow_nodes f) = seam_entry g (length S)"
  using length_outer_bodies [of S] by (auto simp: sewn_def seam_entry_def dest!: arg_cong [where f = length])

lemma outer_precede:
  "outer g (node_precede p q f) = outer g f @ (if seams_from g \<le> p \<or> seams_from g \<le> q then [(p, q)] else [])"
  by (simp add: outer_def node_precede_def)

lemma node_precede_keeps [simp]:
  "flow_nodes (node_precede p q f) = flow_nodes f" "start_entries (node_precede p q f) = start_entries f"
  "task_flow_tasks (node_precede p q f) = task_flow_tasks f"
  by (simp_all add: node_precede_def)

lemma create_seam_Inr:
  "create_seam b name i f = Inr (e, s, d, f') \<Longrightarrow> e = length (flow_nodes f) \<and> s = e + 1 \<and> d = e + 2 \<and>
     flow_precedes f' = flow_precedes f \<and> start_entries f' = start_entries f \<and> task_flow_tasks f' = task_flow_tasks f \<and>
     (\<exists>x y z. flow_nodes f' = flow_nodes f @ [x, y, z] \<and>
       map node_body [x, y, z] = [SeamEntryBody i, EmptyBody, EmptyBody])"
  by (auto simp: create_seam_def flow_emplace_def Let_def)

text \<open>The calls that sew one seam, with dependencies within the time steps in between.\<close>

lemma seam_added:
  assumes f: "sewn g f S" and seam: "create_seam b name i f = Inr (e, s, d, f1)"
    and f2: "full g f2" "flow_nodes f2 = flow_nodes f1" "start_entries f2 = start_entries f1" "outer g f2 = outer g f1"
    and a: "a < seams_from g" and x: "x < seams_from g"
  shows "sewn g (push_start_entry (global_entry g) e (node_precede s x
     (node_precede e d (node_precede e s (node_precede a e f2))))) (S @ [(a, i, x)])"
proof -
  note c = create_seam_Inr [OF seam]
  have e: "e = seam_entry g (length S)" using c sewn_length [OF f] by simp
  have len: "seams_from g \<le> length (flow_nodes f)" using f by (simp add: sewn_def)
  have "outer g f1 = outer g f" using c by (simp add: outer_def)
  with f f2(4) have o2: "outer g f2 = outer_edges g S" by (simp add: sewn_def)
  have b2: "map node_body (drop (seams_from g) (flow_nodes f2)) = outer_bodies (S @ [(a, i, x)])"
    using c f2(2) f len by (auto simp: sewn_def outer_bodies_snoc)
  have s2: "start_entries f2 = map (\<lambda>j. int j + 1) [0..<length S]"
    using c f f2(3) by (simp add: sewn_def)
  have ge: "seams_from g \<le> e" "seams_from g \<le> global_entry g" by (simp_all add: e seam_entry_def global_entry_def)
  let ?f' = "push_start_entry (global_entry g) e (node_precede s x
     (node_precede e d (node_precede e s (node_precede a e f2))))"
  have "outer g ?f' = outer g f2 @ [(a, e), (e, s), (e, d), (s, x), (global_entry g, e)]"
    using ge c by (simp add: push_start_entry_def Let_def outer_def node_precede_def)
  with o2 c e have "outer g ?f' = outer_edges g (S @ [(a, i, x)])"
    by (simp add: outer_edges_snoc seam_edges_def)
  moreover have "full g ?f'" using f2(1) by (simp add: full_def push_start_entry_def Let_def)
  ultimately show ?thesis
    using b2 s2 len c f2(2) unfolding sewn_def by (auto simp: push_start_entry_def Let_def)
qed

lemma time_step_sewn:
  assumes f: "sewn g f S" and i: "i < getTimeStepCount g"
    and conn: "connect_time_step_end_to_start b (global_entry g) i f = Inr f'"
  shows "sewn g f' (S @ [(end_node g i, i, start_node g i)])"
proof -
  from conn obtain e s d f1 x y where seam: "create_seam b kTimeStepSelf i f = Inr (e, s, d, f1)"
    and at: "flow_task_at f1 i kTimeStepStart = Inr x" "flow_task_at f1 i kTimeStepEnd = Inr y"
    and f': "f' = push_start_entry (global_entry g) e (node_precede s x
      (node_precede e d (node_precede e s (node_precede y e f1))))"
    by (auto simp: connect_time_step_end_to_start_def Let_def)
  have full: "full g f1" using f create_seam_Inr [OF seam] by (simp add: sewn_def full_def)
  have "x = start_node g i" "y = end_node g i"
    using at known_as_at [OF known_as_start full i] known_as_at [OF known_as_end full i] by simp_all
  moreover have "start_node g i < seams_from g" "end_node g i < seams_from g"
    using known_as_start [of g] known_as_end [of g] i by (auto simp: known_as_def)
  ultimately show ?thesis using seam_added [OF f seam full refl refl refl] f' by simp
qed

lemma inter_connect_sewn:
  assumes f: "sewn g f S" and n: "0 < getTimeStepCount g" and N: "known_as g name N"
    and conn: "inter_connect_time_steps b (getTimeStepCount g) (global_entry g) name f = Inr f'"
  shows "sewn g f' (S @ [(N (getTimeStepCount g - 1), 0, N 0)])"
proof -
  let ?n = "getTimeStepCount g"
  let ?body = "\<lambda>i f. bind_res (flow_task_at f i name) (\<lambda>task. bind_res (flow_task_at f (i + 1) name)
      (\<lambda>next_task. Inr (node_precede task next_task f)))"
  from conn obtain e s d f1 f2 x y where seam: "create_seam b name 0 f = Inr (e, s, d, f1)"
    and loop: "fold_res ?body [0..<?n - 1] f1 = Inr f2"
    and at: "flow_task_at f2 0 name = Inr x" "flow_task_at f2 (?n - 1) name = Inr y"
    and f': "f' = push_start_entry (global_entry g) e (node_precede s x
      (node_precede e d (node_precede e s (node_precede y e f2))))"
    by (auto simp: inter_connect_time_steps_def Let_def)
  have bound: "N i < seams_from g" if "i < ?n" for i using N that by (simp add: known_as_def)
  have full1: "full g f1" using f create_seam_Inr [OF seam] by (simp add: sewn_def full_def)
  have f2: "full g f2 \<and> flow_nodes f2 = flow_nodes f1 \<and> start_entries f2 = start_entries f1 \<and> outer g f2 = outer g f1"
  proof (rule fold_res_invariant [OF loop])
    fix i h h'
    assume i: "i \<in> set [0..<?n - 1]" and h: "full g h \<and> flow_nodes h = flow_nodes f1 \<and>
      start_entries h = start_entries f1 \<and> outer g h = outer g f1" and step: "?body i h = Inr h'"
    from i have "i < ?n" "i + 1 < ?n" by auto
    with h known_as_at [OF N] step bound [of i] bound [of "i + 1"]
    show "full g h' \<and> flow_nodes h' = flow_nodes f1 \<and> start_entries h' = start_entries f1 \<and> outer g h' = outer g f1"
      by (auto simp: outer_precede full_def)
  qed (simp add: full1)
  have "x = N 0" "y = N (?n - 1)" using at known_as_at [OF N] f2 n by auto
  then show ?thesis
    using seam_added [OF f seam _ _ _ _ bound bound, of f2 "?n - 1" 0] f2 n f' by simp
qed

text \<open>A loop whose steps sew more seams.\<close>

lemma sewn_fold:
  assumes "fold_res body xs f = Inr f'" and "sewn g f S"
    and "\<And>x h h' T. x \<in> set xs \<Longrightarrow> sewn g h T \<Longrightarrow> body x h = Inr h' \<Longrightarrow> \<exists>U. sewn g h' (T @ U) \<and> set U = E x"
  shows "\<exists>U. sewn g f' (S @ U) \<and> set U = (\<Union>x \<in> set xs. E x)"
  using assms
proof (induction xs arbitrary: f S)
  case Nil
  then show ?case by (intro exI [of _ "[]"]) simp
next
  case (Cons x xs)
  from Cons.prems(1) obtain h where h: "body x f = Inr h" "fold_res body xs h = Inr f'" by auto
  from Cons.prems(3) [OF _ Cons.prems(2) h(1)] obtain U where U: "sewn g h (S @ U)" "set U = E x" by auto
  from Cons.IH [OF h(2) U(1)] Cons.prems(3) obtain V where "sewn g f' ((S @ U) @ V)" "set V = (\<Union>x \<in> set xs. E x)"
    by auto
  with U(2) show ?case by (intro exI [of _ "U @ V"]) simp
qed

definition seams_of :: "TraactGraph \<Rightarrow> seam set" where
  "seams_of g = (let last = getTimeStepCount g - 1 in
     {(end_node g i, i, start_node g i) | i. i < getTimeStepCount g} \<union>
     {(start_node g last, 0, start_node g 0), (end_node g last, 0, end_node g 0)} \<union>
     {(task_node g last k, 0, task_node g 0 k) | k. k \<in> serial_tasks g})"

lemma later_dependencies_sewn:
  assumes ready: "flow_ready b g" and f: "sewn g f S"
    and loop: "fold_res (\<lambda>(a, current_task) f.
           fold_res (\<lambda>successor_task f.
             later_dependency b (getTimeStepCount g) (global_entry g) (getId (kind (task_at g current_task)))
               (getId (kind (task_at g successor_task))) f)
             (successorsInterTimeStep (task_at g current_task)) f) (tasks g) f = Inr f'"
  shows "\<exists>U. sewn g f' (S @ U) \<and>
    set U = {(task_node g (getTimeStepCount g - 1) k, 0, task_node g 0 k) | k. k \<in> serial_tasks g}"
proof -
  let ?n = "getTimeStepCount g"
  let ?s = "\<lambda>k. (task_node g (?n - 1) k, 0::nat, task_node g 0 k)"
  let ?inner = "\<lambda>t q f. later_dependency b ?n (global_entry g) (getId (kind (task_at g t))) (getId (kind (task_at g q))) f"
  let ?body = "\<lambda>(a, t) f. fold_res (?inner t) (successorsInterTimeStep (task_at g t)) f"
  from loop have loop: "fold_res (\<lambda>k. ?body (tasks g ! k)) [0..<length (tasks g)] f = Inr f'"
    by (simp add: fold_res_nth [of _ "tasks g"])
  have "\<exists>U. sewn g f' (S @ U) \<and> set U = (\<Union>k \<in> set [0..<length (tasks g)]. if k \<in> serial_tasks g then {?s k} else {})"
  proof (rule sewn_fold [OF loop f])
    fix k and h h' :: TraactTaskFlowGraph and T
    assume "k \<in> set [0..<length (tasks g)]" and h: "sewn g h T" and step: "?body (tasks g ! k) h = Inr h'"
    then have k: "k < length (tasks g)" by simp
    let ?succs = "successorsInterTimeStep (task_at g (ptr_at g k))"
    from step have loop: "fold_res (?inner (ptr_at g k)) ?succs h = Inr h'" by (cases "tasks g ! k") simp
    have "\<exists>U. sewn g h' (T @ U) \<and> set U = (\<Union>q \<in> set ?succs. {?s k})"
    proof (rule sewn_fold [OF loop h])
      fix q and h1 h2 :: TraactTaskFlowGraph and T1
      assume q: "q \<in> set ?succs" and h1: "sewn g h1 T1" and step: "?inner (ptr_at g k) q h1 = Inr h2"
      from q flow_ready_task(6) [OF ready k] have "q = ptr_at g k" by auto
      with step flow_ready_task(2) [OF ready k]
      have "inter_connect_time_steps b ?n (global_entry g) (name_at g k) h1 = Inr h2" by (simp add: later_dependency_def)
      from inter_connect_sewn [OF h1 flow_readyD(2) [OF ready] known_as_task [OF k] this]
      show "\<exists>U. sewn g h2 (T1 @ U) \<and> set U = {?s k}" by (intro exI [of _ "[?s k]"]) simp
    qed
    moreover have "(\<Union>q \<in> set ?succs. {?s k}) = (if k \<in> serial_tasks g then {?s k} else {})"
      using flow_ready_task(6) [OF ready k] k by (cases ?succs) (auto simp: serial_tasks_def)
    ultimately show "\<exists>U. sewn g h' (T @ U) \<and> set U = (if k \<in> serial_tasks g then {?s k} else {})" by simp
  qed
  moreover have "(\<Union>k \<in> set [0..<length (tasks g)]. if k \<in> serial_tasks g then {?s k} else {}) =
      {?s k | k. k \<in> serial_tasks g}"
    unfolding serial_tasks_def by auto
  ultimately show ?thesis by simp
qed

section \<open>The whole task flow\<close>

lemma createInterTimeStepDependencies_sewn:
  assumes ready: "flow_ready b g" and full: "full g f" and len: "length (flow_nodes f) = seams_from g"
    and inside: "outer g f = []" "start_entries f = []"
    and conn: "createInterTimeStepDependencies b g f = Inr f'"
  shows "\<exists>S. sewn g f' S \<and> set S = seams_of g"
proof -
  let ?n = "getTimeStepCount g"
  let ?later = "fold_res (\<lambda>(a, current_task) f.
           fold_res (\<lambda>successor_task f.
             later_dependency b ?n (global_entry g) (getId (kind (task_at g current_task)))
               (getId (kind (task_at g successor_task))) f)
             (successorsInterTimeStep (task_at g current_task)) f) (tasks g)"
  define f4 where "f4 = node_precede (global_entry g) (global_end g) (node_precede (global_start g) (global_entry g)
    (f\<lparr>flow_nodes := flow_nodes f @ [\<lparr>node_name = getTaskId kSeamEntry kGlobalStart 0, node_body = GlobalStartBody\<rparr>,
       \<lparr>node_name = getTaskId kSeamEnd kGlobalStart 0, node_body = GlobalEndBody\<rparr>,
       \<lparr>node_name = getTaskId kSeamStart kGlobalStart 0, node_body = StartEntryBody\<rparr>]\<rparr>))"
  from conn len obtain f5 f6 f7 where f5: "fold_res (connect_time_step_end_to_start b (global_entry g)) [0..<?n] f4 = Inr f5"
    and n: "0 < ?n" and f6: "inter_connect_time_steps b ?n (global_entry g) kTimeStepStart f5 = Inr f6"
    and f7: "inter_connect_time_steps b ?n (global_entry g) kTimeStepEnd f6 = Inr f7" and f8: "?later f7 = Inr f'"
    by (auto simp: createInterTimeStepDependencies_def Let_def flow_emplace_def f4_def global_entry_def global_start_def
        global_end_def split: if_splits)
  have "sewn g f4 []"
    using full len inside unfolding sewn_def f4_def
    by (auto simp: full_def outer_def node_precede_def outer_edges_def outer_bodies_def global_entry_def
        global_start_def global_end_def)
  from sewn_fold [OF f5 this, where E = "\<lambda>i. {(end_node g i, i, start_node g i)}"] time_step_sewn
  obtain U where U: "sewn g f5 U" "set U = (\<Union>i \<in> set [0..<?n]. {(end_node g i, i, start_node g i)})"
    by (metis (no_types, lifting) append_Nil atLeastLessThan_iff empty_set list.simps(15) set_upt)
  note s6 = inter_connect_sewn [OF U(1) n known_as_start f6]
  note s7 = inter_connect_sewn [OF s6 n known_as_end f7]
  from later_dependencies_sewn [OF ready s7 f8] obtain V where V: "sewn g f' ((((U @ [(start_node g (?n - 1), 0, start_node g 0)]) @
      [(end_node g (?n - 1), 0, end_node g 0)])) @ V)"
    "set V = {(task_node g (?n - 1) k, 0, task_node g 0 k) | k. k \<in> serial_tasks g}" by blast
  with U(2) show ?thesis by (intro exI [of _ "(((U @ [(start_node g (?n - 1), 0, start_node g 0)]) @
      [(end_node g (?n - 1), 0, end_node g 0)])) @ V"]) (auto simp: seams_of_def Let_def)
qed

text \<open>The nodes before the seams are no condition nodes.\<close>

fun is_condition :: "flow_body \<Rightarrow> bool" where
  "is_condition (SeamEntryBody i) = True"
| "is_condition StartEntryBody = True"
| "is_condition _ = False"

abbreviation unconditional :: "TraactTaskFlowGraph \<Rightarrow> bool" where
  "unconditional f \<equiv> \<forall>x \<in> set (flow_nodes f). \<not> is_condition (node_body x)"

lemma fold_unconditional:
  assumes "fold_res body xs f = Inr f'" and "unconditional f"
    and "\<And>x h h'. unconditional h \<Longrightarrow> body x h = Inr h' \<Longrightarrow> unconditional h'"
  shows "unconditional f'"
  by (rule fold_res_invariant [OF assms(1), of unconditional]) (use assms(2,3) in auto)

lemma createTimeStep_unconditional:
  assumes "createTimeStep g i f = Inr f'" and "unconditional f"
  shows "unconditional f'"
proof -
  have body: False if "standard_body k i = Some (ty, body)" "is_condition body" for k ty body
    using that by (cases k) auto
  let ?body = "\<lambda>(name, t) f. bind_res (map_at (task_data g ! i) name) (\<lambda>data_pointer.
       (case standard_body (kind (task_at g t)) i of
          None \<Rightarrow> Inr f
        | Some (type, body) \<Rightarrow>
            let (task, f1) = flow_emplace (getTaskId type name (int i)) body f
            in Inr (f1\<lparr>task_flow_tasks :=
                 (task_flow_tasks f1)[i := emplace name task (task_flow_tasks f1 ! i)]\<rparr>)))"
  from assms(1) have "fold_res ?body (tasks g) f = Inr f'" by (auto simp: createTimeStep_def)
  then show ?thesis
    by (rule fold_unconditional [OF _ assms(2)]) (auto simp: flow_emplace_def split: option.splits, (metis body)+)
qed

lemma createGpuTimeStepTasks_unconditional:
  assumes "createGpuTimeStepTasks g i f = Inr f'" and "unconditional f"
  shows "unconditional f'"
proof -
  have flow: False if "createCudaFlow g i a cs ss h = Inr (x, h')" "unconditional h" "y \<in> set (flow_nodes h')"
    "is_condition (node_body y)" for a cs ss x h h' y
    using that by (auto simp: createCudaFlow_def flow_emplace_def Let_def)
  let ?body = "\<lambda>(a, t) f. (case kind (task_at g t) of
          TraactCudaTask name comps to_successors \<Rightarrow>
            bind_res (createCudaFlow g i name comps to_successors f) (\<lambda>(cuda_flow, f1).
            Inr (f1\<lparr>task_flow_tasks :=
              (task_flow_tasks f1)[i := emplace a cuda_flow (task_flow_tasks f1 ! i)]\<rparr>))
        | _ \<Rightarrow> Inr f)"
  from assms(1) have "fold_res ?body (tasks g) f = Inr f'" by (auto simp: createGpuTimeStepTasks_def)
  then show ?thesis
    by (rule fold_unconditional [OF _ assms(2)]) (auto split: task_kind.splits, (metis flow)+)
qed

lemma createStartStopTasks_unconditional:
  assumes "createStartStopTasks g i f = Inr f'" and "unconditional f"
  shows "unconditional f'"
proof -
  have loop: "unconditional h'" if "fold_res (\<lambda>(a, t) f. if P t then bind_res (map_at (m f) a) (\<lambda>task. Inr (add task f))
      else Inr f) xs h = Inr h'" "unconditional h" "\<And>task f. flow_nodes (add task f) = flow_nodes f"
    for P m add xs h h'
    by (rule fold_unconditional [OF that(1,2)]) (use that(3) in \<open>auto split: if_splits\<close>)
  let ?f1 = "f\<lparr>flow_nodes := flow_nodes f @ [\<lparr>node_name = getTaskId kControlFlow kTimeStepStart (int i),
    node_body = TimeStepStartBody i\<rparr>]\<rparr>"
  from assms(1) obtain f2 f5 E where
    f2: "fold_res (\<lambda>(a, t) h. if isStartPoint (task_at g t) then bind_res (map_at (task_flow_tasks h ! i) a)
      (\<lambda>task. Inr (node_precede (length (flow_nodes f)) task h)) else Inr h) (tasks g) ?f1 = Inr f2"
    and f5: "fold_res (\<lambda>(a, t) h. if isEndPoint (task_at g t) then bind_res (map_at (task_flow_tasks h ! i) a)
      (\<lambda>task. Inr (node_precede task E h)) else Inr h) (tasks g)
      (f2\<lparr>task_flow_tasks := (task_flow_tasks f2)[i := emplace kTimeStepStart (length (flow_nodes f)) (task_flow_tasks f2 ! i)],
        flow_nodes := flow_nodes f2 @ [\<lparr>node_name = getTaskId kControlFlow kTimeStepEnd (int i),
          node_body = TimeStepEndBody i\<rparr>]\<rparr>) = Inr f5"
    and f': "flow_nodes f' = flow_nodes f5"
    by (fastforce simp: createStartStopTasks_def flow_emplace_def Let_def)
  have "unconditional f2" by (rule loop [OF f2]) (use assms(2) in auto)
  then have "unconditional f5" by (intro loop [OF f5]) auto
  with f' show ?thesis by simp
qed

lemma connectTimeStepComponents_inside:
  assumes ready: "flow_ready b g" and i: "i < getTimeStepCount g" and full: "full g f"
    and step: "connectTimeStepComponents g i f = Inr f'"
  shows "full g f' \<and> flow_nodes f' = flow_nodes f \<and> start_entries f' = start_entries f \<and> outer g f' = outer g f"
proof -
  define m where "m = task_flow_tasks f ! i"
  have vec: "vec_at (task_flow_tasks f) i = Inr m" using full i by (simp add: m_def full_def)
  have "full_nodes g i m" using full i by (simp add: m_def full_def)
  then have at: "map_of m (name_at g k) = Some (task_node g i k)" if "k < length (tasks g)" for k
    using that by (simp add: full_nodes_def)
  let ?P = "\<lambda>h. full g h \<and> flow_nodes h = flow_nodes f \<and> start_entries h = start_entries f \<and> outer g h = outer g f"
  let ?inner = "\<lambda>current_task successor f. case map_of m (getId (kind (task_at g successor))) of
            Some successor_task \<Rightarrow> Inr (node_precede current_task successor_task f)
          | None \<Rightarrow> Inl LogicError"
  from step vec have "fold_res (\<lambda>(a, t) f. bind_res (map_at m a) (\<lambda>current_task.
       fold_res (?inner current_task) (successors (task_at g t)) f)) (tasks g) f = Inr f'"
    by (simp add: connectTimeStepComponents_def del: vec_at_Inr)
  then show ?thesis
  proof (rule fold_res_invariant [where P = ?P])
    fix x h h' assume x: "x \<in> set (tasks g)" and h: "?P h"
      and body: "(case x of (a, t) \<Rightarrow> \<lambda>f. bind_res (map_at m a) (\<lambda>current_task.
        fold_res (?inner current_task) (successors (task_at g t)) f)) h = Inr h'"
    from x obtain k where k: "k < length (tasks g)" "x = tasks g ! k" by (auto simp: in_set_conv_nth)
    with body at [OF k(1)] have "fold_res (?inner (task_node g i k)) (successors (task_at g (ptr_at g k))) h = Inr h'"
      by (simp add: map_at_def case_prod_beta)
    then show "?P h'"
    proof (rule fold_res_invariant [where P = ?P])
      fix q h1 h2 assume q: "q \<in> set (successors (task_at g (ptr_at g k)))" and h1: "?P h1"
        and s: "?inner (task_node g i k) q h1 = Inr h2"
      from successor_index [OF ready k(1) q] at obtain l where
        l: "l < length (tasks g)" "map_of m (getId (kind (task_at g q))) = Some (task_node g i l)" by metis
      with s h1 task_node_bound [OF i k(1)] task_node_bound [OF i l(1)] show "?P h2"
        by (auto simp: outer_precede full_def)
    qed (rule h)
  qed (simp add: full)
qed

definition strong_edges :: "TraactTaskFlowGraph \<Rightarrow> (node \<times> node) set" where
  "strong_edges f = {(p, q) \<in> set (flow_precedes f). \<not> is_condition (node_body (flow_nodes f ! p))}"

text \<open>Nodes are never taken away.\<close>

lemma fold_prefix:
  assumes "fold_res body xs f = Inr f'"
    and "\<And>x h h'. body x h = Inr h' \<Longrightarrow> prefix (flow_nodes h) (flow_nodes h')"
  shows "prefix (flow_nodes f) (flow_nodes f')"
  by (rule fold_res_invariant [OF assms(1), of "\<lambda>h. prefix (flow_nodes f) (flow_nodes h)"])
    (use assms(2) prefix_order.trans in blast)+

lemma create_seam_prefix: "create_seam b name i f = Inr (e, s, d, f') \<Longrightarrow> prefix (flow_nodes f) (flow_nodes f')"
  by (auto dest!: create_seam_Inr)

lemma push_start_entry_keeps [simp]: "flow_nodes (push_start_entry e s f) = flow_nodes f"
  by (simp add: push_start_entry_def Let_def)

lemma inter_connect_prefix:
  assumes "inter_connect_time_steps b n e0 name f = Inr f'"
  shows "prefix (flow_nodes f) (flow_nodes f')"
proof -
  let ?body = "\<lambda>i f. bind_res (flow_task_at f i name) (\<lambda>task. bind_res (flow_task_at f (i + 1) name)
      (\<lambda>next_task. Inr (node_precede task next_task f)))"
  from assms obtain e s d f1 f2 where "create_seam b name 0 f = Inr (e, s, d, f1)"
    and loop: "fold_res ?body [0..<n - 1] f1 = Inr f2" and "flow_nodes f' = flow_nodes f2"
    by (auto simp: inter_connect_time_steps_def Let_def)
  moreover have "prefix (flow_nodes f1) (flow_nodes f2)" by (rule fold_prefix [OF loop]) auto
  ultimately show ?thesis using create_seam_prefix prefix_order.trans by metis
qed

lemma connect_end_prefix:
  assumes "connect_end_to_next_start b n e0 start_name end_name f = Inr f'"
  shows "prefix (flow_nodes f) (flow_nodes f')"
proof -
  let ?body = "\<lambda>i f. bind_res (flow_task_at f i end_name) (\<lambda>current_end_tasks.
         bind_res (flow_task_at f i start_name) (\<lambda>next_start_tasks.
         let f' = node_precede current_end_tasks next_start_tasks f
         in bind_res (flow_task_at f' i kTimeStepEnd) (\<lambda>time_step_end_task.
            Inr (node_precede current_end_tasks time_step_end_task f'))))"
  from assms obtain e s d f1 f2 where "create_seam b start_name 0 f = Inr (e, s, d, f1)"
    and loop: "fold_res ?body [0..<n - 1] f1 = Inr f2" and "flow_nodes f' = flow_nodes f2"
    by (auto simp: connect_end_to_next_start_def Let_def)
  moreover have "prefix (flow_nodes f1) (flow_nodes f2)" by (rule fold_prefix [OF loop]) (auto simp: Let_def)
  ultimately show ?thesis using create_seam_prefix prefix_order.trans by metis
qed

lemma connect_time_step_prefix:
  "connect_time_step_end_to_start b e0 i f = Inr f' \<Longrightarrow> prefix (flow_nodes f) (flow_nodes f')"
  by (auto simp: connect_time_step_end_to_start_def Let_def dest!: create_seam_Inr)

lemma createInterTimeStepDependencies_prefix:
  assumes "createInterTimeStepDependencies b g f = Inr f'"
  shows "prefix (flow_nodes f) (flow_nodes f')"
proof -
  let ?n = "getTimeStepCount g"
  define e0 where "e0 = Suc (Suc (length (flow_nodes f)))"
  define f4 where "f4 = node_precede e0 (Suc (length (flow_nodes f))) (node_precede (length (flow_nodes f)) e0
    (f\<lparr>flow_nodes := flow_nodes f @ [\<lparr>node_name = getTaskId kSeamEntry kGlobalStart 0, node_body = GlobalStartBody\<rparr>,
       \<lparr>node_name = getTaskId kSeamEnd kGlobalStart 0, node_body = GlobalEndBody\<rparr>,
       \<lparr>node_name = getTaskId kSeamStart kGlobalStart 0, node_body = StartEntryBody\<rparr>]\<rparr>))"
  have f4: "prefix (flow_nodes f) (flow_nodes f4)" by (simp add: f4_def)
  from assms obtain f5 f6 f7 where f5: "fold_res (connect_time_step_end_to_start b e0) [0..<?n] f4 = Inr f5"
    and f6: "inter_connect_time_steps b ?n e0 kTimeStepStart f5 = Inr f6"
    and f7: "inter_connect_time_steps b ?n e0 kTimeStepEnd f6 = Inr f7"
    and f8: "fold_res (\<lambda>(a, current_task) f.
           fold_res (\<lambda>successor_task f.
             later_dependency b ?n e0 (getId (kind (task_at g current_task)))
               (getId (kind (task_at g successor_task))) f)
             (successorsInterTimeStep (task_at g current_task)) f) (tasks g) f7 = Inr f'"
    by (auto simp: createInterTimeStepDependencies_def Let_def flow_emplace_def f4_def e0_def split: if_splits)
  have later: "prefix (flow_nodes h) (flow_nodes h')" if "later_dependency b ?n e0 x y h = Inr h'" for x y h h'
    using that by (auto simp: later_dependency_def split: if_splits dest: inter_connect_prefix connect_end_prefix)
  have "prefix (flow_nodes f7) (flow_nodes f')"
    by (rule fold_prefix [OF f8]) (auto elim!: fold_prefix dest: later)
  moreover have "prefix (flow_nodes f4) (flow_nodes f5)" by (rule fold_prefix [OF f5]) (rule connect_time_step_prefix)
  ultimately show ?thesis
    using f4 inter_connect_prefix [OF f6] inter_connect_prefix [OF f7] by (meson prefix_order.trans)
qed

theorem flow_sewn:
  assumes ready: "flow_ready b g"
  shows "\<exists>f S. TraactTaskFlowBuilder_build b g TraactTaskFlowGraph_empty = Inr f \<and> inner g f = all_edges g \<and>
    sewn g f S \<and> set S = seams_of g \<and> unconditional (f\<lparr>flow_nodes := take (seams_from g) (flow_nodes f)\<rparr>)"
proof -
  let ?n = "getTimeStepCount g"
  from flow_built [OF ready] obtain f where f: "TraactTaskFlowBuilder_build b g TraactTaskFlowGraph_empty = Inr f"
    "full g f" "inner g f = all_edges g" by blast
  from f(1) obtain f1 f2 f3 f4 where f1: "StandardTasks_buildGraph g TraactTaskFlowGraph_empty = Inr f1"
    and f2: "TaskFlowCuda_buildGraph g f1 = Inr f2" and f3: "TimeStep_buildGraph g f2 = Inr f3"
    and f4: "fold_res (connectTimeStepComponents g) [0..<?n] f3 = Inr f4"
    and f5: "createInterTimeStepDependencies b g f4 = Inr f"
    by (auto simp: TraactTaskFlowBuilder_build_def Connections_buildGraph_def)
  from StandardTasks_ok [OF ready] f1 have s1:
    "length (flow_nodes f1) = task_node g ?n 0" "flow_precedes f1 = []" "start_entries f1 = []"
    "length (task_flow_tasks f1) = ?n"
    "\<forall>i < ?n. step_nodes g i (length (tasks g)) (task_flow_tasks f1 ! i)" by auto
  from TaskFlowCuda_ok [OF ready s1(4)] f2 have same: "f2 = f1" by simp
  have "length (flow_nodes f1) = start_node g 0" using s1(1) by (simp add: start_node_def task_node_def)
  from TimeStep_ok [OF ready s1(4,5) this] s1(2,3) f3 same have s3: "full g f3" "length (flow_nodes f3) = seams_from g"
    "start_entries f3 = []" "set (flow_precedes f3) = (\<Union>i < ?n. step_edges g i)" by (auto simp: seams_from_def)
  have "fst e < seams_from g \<and> snd e < seams_from g" if "i < ?n" "e \<in> step_edges g i" for i e
    using that task_node_bound [OF that(1)] known_as_start known_as_end
    by (auto simp: step_edges_def start_points_def end_points_def known_as_def)
  then have "outer g f3 = []" by (force simp: outer_def filter_empty_conv s3(4))
  with s3(1-3) have s4: "full g f4 \<and> flow_nodes f4 = flow_nodes f3 \<and> start_entries f4 = [] \<and> outer g f4 = []"
  proof (intro fold_res_invariant [OF f4, of "\<lambda>h. full g h \<and> flow_nodes h = flow_nodes f3 \<and> start_entries h = [] \<and> outer g h = []"])
    fix i h h' assume "i \<in> set [0..<?n]" "full g h \<and> flow_nodes h = flow_nodes f3 \<and> start_entries h = [] \<and> outer g h = []"
      "connectTimeStepComponents g i h = Inr h'"
    with connectTimeStepComponents_inside [OF ready, of i h h']
    show "full g h' \<and> flow_nodes h' = flow_nodes f3 \<and> start_entries h' = [] \<and> outer g h' = []" by simp
  qed simp
  from createInterTimeStepDependencies_sewn [OF ready _ _ _ _ f5] s4 s3(2) obtain S where S: "sewn g f S" "set S = seams_of g"
    by auto
  have u1: "unconditional f1"
    by (rule fold_unconditional [OF f1 [unfolded StandardTasks_buildGraph_def Let_def]])
      (auto simp: TraactTaskFlowGraph_empty_def dest: createTimeStep_unconditional)
  have u3: "unconditional f3"
    by (rule fold_unconditional [OF f3 [unfolded TimeStep_buildGraph_def]])
      (use u1 same in \<open>auto dest: createStartStopTasks_unconditional\<close>)
  have "take (seams_from g) (flow_nodes f) = flow_nodes f3"
    using createInterTimeStepDependencies_prefix [OF f5] s4 s3(2) by (auto simp: prefix_def)
  with u3 have "unconditional (f\<lparr>flow_nodes := take (seams_from g) (flow_nodes f)\<rparr>)" by simp
  with f S show ?thesis by blast
qed

section \<open>No cycle without a condition\<close>

lemma sewn_body:
  assumes S: "sewn g f S"
  shows "node_body (flow_nodes f ! global_start g) = GlobalStartBody"
    "node_body (flow_nodes f ! global_end g) = GlobalEndBody" "node_body (flow_nodes f ! global_entry g) = StartEntryBody"
    and "j < length S \<Longrightarrow> node_body (flow_nodes f ! seam_entry g j) = SeamEntryBody (fst (snd (S ! j)))"
proof -
  have at: "node_body (flow_nodes f ! (seams_from g + k)) = outer_bodies S ! k" if "k < 3 + 3 * length S" for k
  proof -
    have "length (flow_nodes f) = seams_from g + (3 + 3 * length S)" using sewn_length [OF S] by (simp add: seam_entry_def)
    with that have "k < length (drop (seams_from g) (flow_nodes f))" by simp
    then have "map node_body (drop (seams_from g) (flow_nodes f)) ! k = node_body (flow_nodes f ! (seams_from g + k))"
      by (simp add: nth_map)
    with S show ?thesis by (simp add: sewn_def)
  qed
  from at [of 0] at [of 1] at [of 2] show "node_body (flow_nodes f ! global_start g) = GlobalStartBody"
    "node_body (flow_nodes f ! global_end g) = GlobalEndBody" "node_body (flow_nodes f ! global_entry g) = StartEntryBody"
    by (simp_all add: global_start_def global_end_def global_entry_def outer_bodies_def)
  have "j < length S \<Longrightarrow> outer_bodies S ! (3 + 3 * j) = SeamEntryBody (fst (snd (S ! j)))"
  proof (induction S rule: rev_induct)
    case (snoc x S)
    obtain a i b where x: "x = (a, i, b)" by (cases x) auto
    from snoc show ?case
      by (cases "j = length S") (auto simp: x outer_bodies_snoc nth_append length_outer_bodies less_Suc_eq)
  qed simp
  with at [of "3 + 3 * j"] show "j < length S \<Longrightarrow> node_body (flow_nodes f ! seam_entry g j) = SeamEntryBody (fst (snd (S ! j)))"
    by (simp add: seam_entry_def add.assoc)
qed

lemma in_outer_edges:
  "(p, q) \<in> set (outer_edges g S) \<longleftrightarrow> (p, q) \<in> {(global_start g, global_entry g), (global_entry g, global_end g)} \<or>
   (\<exists>j < length S. (p, q) \<in> set (seam_edges g j (S ! j)))"
  by (auto simp: outer_edges_def)

lemma seams_inside:
  assumes "x \<in> seams_of g" and n: "0 < getTimeStepCount g"
  shows "fst x < seams_from g \<and> snd (snd x) < seams_from g"
  using assms known_as_start [of g] known_as_end [of g] known_as_task
  unfolding seams_of_def Let_def known_as_def by (fastforce simp: serial_tasks_def)

text \<open>
  Ranks: the nodes that only wait for a condition or for nothing come first, the nodes of the time
  steps next, and what waits for them behind a pass comes last.
\<close>

lemma strong_ranked:
  assumes ready: "flow_ready b g" and inner: "inner g f = all_edges g" and S: "sewn g f S" "set S = seams_of g"
    and pq: "(p, q) \<in> strong_edges f"
  shows "(p, q) \<in> all_edges g \<or> (p, q) = (global_start g, global_entry g) \<or>
    (\<exists>j < length S. (p, q) = (fst (S ! j), seam_entry g j) \<or> (p, q) = (seam_entry g j + 1, snd (snd (S ! j))))"
proof (cases "p < seams_from g \<and> q < seams_from g")
  case True
  with pq inner show ?thesis by (auto simp: strong_edges_def inner_def)
next
  case False
  with pq have "(p, q) \<in> set (outer g f)" by (auto simp: strong_edges_def outer_def)
  with S(1) have "(p, q) \<in> set (outer_edges g S)" by (simp add: sewn_def)
  moreover have weak: "p \<noteq> global_entry g" "j < length S \<Longrightarrow> p \<noteq> seam_entry g j" for j
    using pq sewn_body(3,4) [OF S(1)] by (auto simp: strong_edges_def)
  ultimately consider "(p, q) = (global_start g, global_entry g)"
    | j where "j < length S" "(p, q) \<in> set (seam_edges g j (S ! j))" unfolding in_outer_edges by blast
  then show ?thesis
  proof cases
    case (2 j)
    obtain a i b where "S ! j = (a, i, b)" by (cases "S ! j") auto
    with 2(2) weak(1) weak(2) [OF 2(1)] have "(p, q) = (fst (S ! j), seam_entry g j) \<or>
        (p, q) = (seam_entry g j + 1, snd (snd (S ! j)))" by (simp add: seam_edges_def)
    with 2(1) show ?thesis by blast
  qed blast
qed

theorem strong_acyclic:
  assumes ready: "flow_ready b g" and ac: "acyclic (links (task_store g))"
    and inner: "inner g f = all_edges g" and S: "sewn g f S" "set S = seams_of g"
  shows "acyclic (strong_edges f)"
proof -
  have "finite (inner g f)" by (simp add: inner_def)
  then obtain r :: "nat \<Rightarrow> nat" where r: "\<And>x y. (x, y) \<in> all_edges g \<Longrightarrow> r x < r y"
    using topological_rank inner_acyclic [OF ready ac] inner by metis
  obtain L where L: "\<And>k. k < seams_from g \<Longrightarrow> r k < L"
    by (metis (no_types, lifting) finite_imageI finite_lessThan finite_nat_set_iff_bounded imageI lessThan_iff)
  define early where "early = insert (global_start g) ((\<lambda>j. seam_entry g j + 1) ` {..<length S})"
  define rank where "rank x = (if x \<in> early then 0 else if x < seams_from g then Suc (r x) else Suc L)" for x
  have late: "x \<notin> early" if "x < seams_from g" for x
    using that by (auto simp: early_def seam_entry_def global_start_def)
  have entry: "seam_entry g j \<notin> early" "global_entry g \<notin> early" "\<not> seam_entry g j < seams_from g" "\<not> global_entry g < seams_from g" for j
    by (auto simp: early_def seam_entry_def global_start_def global_entry_def) presburger+
  have sides: "fst (S ! j) < seams_from g \<and> snd (snd (S ! j)) < seams_from g" if "j < length S" for j
    using seams_inside [OF _ flow_readyD(2) [OF ready]] S(2) that nth_mem by blast
  have inside: "x < seams_from g \<and> y < seams_from g" if "(x, y) \<in> all_edges g" for x y
    using that unfolding inner [symmetric] by (auto simp: inner_def)
  have "rank p < rank q" if "(p, q) \<in> strong_edges f" for p q
    using strong_ranked [OF ready inner S that]
  proof (elim disjE exE conjE)
    assume "(p, q) \<in> all_edges g"
    with inside late r show ?thesis by (simp add: rank_def)
  next
    assume "(p, q) = (global_start g, global_entry g)"
    with entry show ?thesis by (simp add: rank_def) (simp add: early_def)
  next
    fix j assume j: "j < length S" "(p, q) = (fst (S ! j), seam_entry g j)"
    with entry late sides L show ?thesis by (simp add: rank_def)
  next
    fix j assume j: "j < length S" "(p, q) = (seam_entry g j + 1, snd (snd (S ! j)))"
    then have "p \<in> early" by (auto simp: early_def)
    with j late sides show ?thesis by (simp add: rank_def)
  qed
  then show ?thesis by (rule rank_acyclic)
qed

text \<open>The dependencies among the nodes of the time steps are strong.\<close>

lemma inner_strong:
  assumes "unconditional (f\<lparr>flow_nodes := take (seams_from g) (flow_nodes f)\<rparr>)" and "seams_from g \<le> length (flow_nodes f)"
  shows "inner g f \<subseteq> strong_edges f"
proof -
  have "\<not> is_condition (node_body (flow_nodes f ! p))" if "p < seams_from g" for p
  proof -
    have "flow_nodes f ! p \<in> set (take (seams_from g) (flow_nodes f))" using that assms(2)
      by (metis in_set_conv_nth length_take min.absorb2 nth_take)
    with assms(1) show ?thesis by simp
  qed
  then show ?thesis by (auto simp: inner_def strong_edges_def)
qed

end
