(* ===== verification/BuildProps.thy ===== *)
theory BuildProps
  imports Demo FlowSeams
begin

text \<open>
  The properties of building a time domain: the buffers \<open>init\<close> creates and how it routes the ports, the
  task graph and its dependencies, the task flow, and the whole pipeline from a checked graph to a
  task flow and a scheduler. The concrete data flow is the one of \<open>Demo\<close>.
\<close>

section \<open>Buffers and ports\<close>

text \<open>In one time step: a producer port, a consumer port and the objects behind them.\<close>

lemma built_step_routes:
  assumes ok: "domain_graph_ok cg td" and routed: "routed cg td idx"
    and d: "holds_types (slot_types cg td) d" "step_built td (domain_configs cg td idx) d t"
    and x: "x \<in> set (td_components cg td)" and y: "y \<in> set (td_components cg td)"
    and l: "l \<in> set (td_ports PRODUCER (the_inst cg (fst x)) td)"
    and m: "m \<in> set (td_ports CONSUMER (the_inst cg (fst y)) td)"
  shows "\<exists>cx cy out inp a t'. getComponentBufferByName t (fst x) = Inr cx \<and>
          getComponentBufferByName t (fst y) = Inr cy \<and>
          loc_index PRODUCER (the_inst cg (fst x)) l = Inr out \<and>
          loc_index CONSUMER (the_inst cg (fst y)) m = Inr inp \<and> getOutput cx out t = Inr (a, t') \<and>
          (if connected_to (port_inst_at (ports_of CONSUMER) (the_inst cg (fst y)) m) =
              loc_id PRODUCER (the_inst cg (fst x)) l
           then getInput cy inp = Inr a \<and> isInputValid t' cy inp = Inr True
           else isInputValid t' cy inp = isInputValid t cy inp)"
proof -
  let ?x = "(comp_type (the_inst cg (fst x)) td, fst x)" and ?y = "(comp_type (the_inst cg (fst y)) td, fst y)"
  note X = td_component_in_domain [OF x] and Y = td_component_in_domain [OF y]
  from domain_component_buffer [OF ok X d(2)] obtain k cx where
    cx: "getComponentBufferByName t (fst x) = Inr cx" "createComponentBuffer t (the_config cg td idx ?x) k = Inr cx"
    by auto
  from domain_component_buffer [OF ok Y d(2)] obtain k' cy where
    cy: "getComponentBufferByName t (fst y) = Inr cy" "createComponentBuffer t (the_config cg td idx ?y) k' = Inr cy"
    by auto
  from connected_indices [OF ok routed X Y, unfolded snd_conv, OF l m] obtain j j' where
    j: "map_of idx (loc_id PRODUCER (the_inst cg (fst x)) l) = Some j"
      "map_of idx (loc_id CONSUMER (the_inst cg (fst y)) m) = Some j'"
      "j' = j \<longleftrightarrow> connected_to (port_inst_at (ports_of CONSUMER) (the_inst cg (fst y)) m) =
        loc_id PRODUCER (the_inst cg (fst x)) l" by blast
  from entry_of_port [OF ok X, of PRODUCER, unfolded snd_conv, OF _ l j(1)] obtain out where
    out: "loc_index PRODUCER (the_inst cg (fst x)) l = Inr out"
      "(int j, out) \<in> set (buffer_to_port_output (the_config cg td idx ?x))"
    by (auto simp: the_config_def Let_def)
  from entry_of_port [OF ok Y, of CONSUMER, unfolded snd_conv, OF _ m j(2)] obtain inp where
    inp: "loc_index CONSUMER (the_inst cg (fst y)) m = Inr inp"
      "(int j', inp) \<in> set (buffer_to_port_input (the_config cg td idx ?y))"
    by (auto simp: the_config_def Let_def)
  have "length (buffer_data t) = length (slots cg td)"
    using d by (simp add: step_built_def holds_types_def slot_types_def)
  then have ports: "ports_ok (length (buffer_data t)) (buffer_to_port_output (the_config cg td idx z))"
      "ports_ok (length (buffer_data t)) (buffer_to_port_input (the_config cg td idx z))"
    if "z \<in> set (domain_components cg td)" for z
    using entries_ports_ok [OF ok routed that] by (simp_all add: the_config_def Let_def)
  have "tsb_ok t" using d(2) by (simp add: step_built_def)
  from getOutput_input [OF this ports [OF X] cx(2) out(2) ports [OF Y] cy(2) inp(2)]
  show ?thesis using cx(1) cy(1) out(1) inp(1) j(3) by (auto split: if_splits)
qed

text \<open>C13: For a checked graph whose data types are known, \<open>init\<close> succeeds and routes the data along the
  connections: in every time step, what a component writes to an output port is the object that the
  connected input ports read, and it is valid there afterwards; the input ports that are connected to
  another output port keep their validity.\<close>

theorem init_routes_connections:
  assumes "domain_graph_ok cg td" and "set (slot_types cg td) \<subseteq> set factories"
  shows "\<exists>b h'. tdb_init factories cg (TimeDomainBuffer_init td, h) = Inr (b, h') \<and>
     length (time_step_buffer b) = ringbuffer_size (domain_config cg td) \<and>
     (\<forall>t \<in> set (time_step_buffer b). \<forall>x \<in> set (td_components cg td). \<forall>y \<in> set (td_components cg td).
        \<forall>l \<in> set (td_ports PRODUCER (the_inst cg (fst x)) td).
        \<forall>m \<in> set (td_ports CONSUMER (the_inst cg (fst y)) td).
        \<exists>cx cy out inp a t'. getComponentBufferByName t (fst x) = Inr cx \<and>
          getComponentBufferByName t (fst y) = Inr cy \<and>
          loc_index PRODUCER (the_inst cg (fst x)) l = Inr out \<and>
          loc_index CONSUMER (the_inst cg (fst y)) m = Inr inp \<and> getOutput cx out t = Inr (a, t') \<and>
          (if connected_to (port_inst_at (ports_of CONSUMER) (the_inst cg (fst y)) m) =
              loc_id PRODUCER (the_inst cg (fst x)) l
           then getInput cy inp = Inr a \<and> isInputValid t' cy inp = Inr True
           else isInputValid t' cy inp = isInputValid t cy inp))"
proof -
  from tdb_init_ok [OF assms, of h] obtain b h' idx where b:
    "tdb_init factories cg (TimeDomainBuffer_init td, h) = Inr (b, h')" "routed cg td idx"
    "length (time_step_buffer b) = ringbuffer_size (domain_config cg td)"
    "\<forall>i < ringbuffer_size (domain_config cg td). holds_types (slot_types cg td) (tdb_data_buffer b ! i) \<and>
      step_built td (domain_configs cg td idx) (tdb_data_buffer b ! i) (time_step_buffer b ! i)" by blast
  have built: "\<exists>d. holds_types (slot_types cg td) d \<and> step_built td (domain_configs cg td idx) d t"
    if "t \<in> set (time_step_buffer b)" for t
    using that b(3,4) by (metis in_set_conv_nth)
  show ?thesis
  proof (intro exI [of _ b] exI [of _ h'] conjI ballI)
    fix t x y l m
    assume t: "t \<in> set (time_step_buffer b)"
      and ports: "x \<in> set (td_components cg td)" "y \<in> set (td_components cg td)"
        "l \<in> set (td_ports PRODUCER (the_inst cg (fst x)) td)" "m \<in> set (td_ports CONSUMER (the_inst cg (fst y)) td)"
    from built [OF t] obtain d where "holds_types (slot_types cg td) d" "step_built td (domain_configs cg td idx) d t" by blast
    from built_step_routes [OF assms(1) b(2) this ports]
    show "\<exists>cx cy out inp a t'. getComponentBufferByName t (fst x) = Inr cx \<and>
          getComponentBufferByName t (fst y) = Inr cy \<and>
          loc_index PRODUCER (the_inst cg (fst x)) l = Inr out \<and>
          loc_index CONSUMER (the_inst cg (fst y)) m = Inr inp \<and> getOutput cx out t = Inr (a, t') \<and>
          (if connected_to (port_inst_at (ports_of CONSUMER) (the_inst cg (fst y)) m) =
              loc_id PRODUCER (the_inst cg (fst x)) l
           then getInput cy inp = Inr a \<and> isInputValid t' cy inp = Inr True
           else isInputValid t' cy inp = isInputValid t cy inp)" .
  qed (rule b(1), rule b(3))
qed

theorem init_routes_connections_witness:
  "\<exists>b h'. tdb_init [''t''] demo_cg (TimeDomainBuffer_init 0, \<lparr>heap_next = 0, heap_live = []\<rparr>) = Inr (b, h') \<and>
     length (time_step_buffer b) = 2"
  using init_routes_connections [of demo_cg 0 "[''t'']" "\<lparr>heap_next = 0, heap_live = []\<rparr>"] demo_startable
  by (auto simp: startable_def demo_domain_config domain_0_def)

text \<open>C40: A graph cannot be started in any time domain but the first: the components of domain \<open>td\<close> are
  looked up with the number of the whole domain where the number within the pattern is meant, and a
  pattern with one time domain has only the latter, so the lookup throws \<open>out_of_range\<close>.\<close>

theorem second_time_domain_fails:
  assumes "0 < td" and "patterns cg = (a, c) # rest" and "inst_of cg a = Inr p" and "getTimeDomainCount p = 1"
  shows "getPatternsForTimeDomain cg td = Inl OutOfRange \<and>
     tdb_init factories cg (TimeDomainBuffer_init td, h) = Inl OutOfRange"
proof -
  have "getComponentType p td = Inl OutOfRange"
    using assms(1,4) by (simp add: getComponentType_def getTimeDomainCount_def vec_at_int_def vec_at_def)
  with assms(2,3) have "getPatternsForTimeDomain cg td = Inl OutOfRange"
    by (simp add: getPatternsForTimeDomain_def)
  then show ?thesis by (simp add: tdb_init_def ordered_components_def Let_def TimeDomainBuffer_init_def)
qed

theorem second_time_domain_fails_witness:
  "getPatternsForTimeDomain demo_cg 1 = Inl OutOfRange"
proof -
  have "patterns demo_cg = [(''a'', 0), (''b'', 1)]" by (simp add: demo_cg_def)
  moreover have "(case inst_of demo_cg ''a'' of Inr p \<Rightarrow> getTimeDomainCount p = 1 | Inl e \<Rightarrow> False)" by code_simp
  then obtain p where "inst_of demo_cg ''a'' = Inr p" "getTimeDomainCount p = 1" by (auto split: sum.splits)
  ultimately show ?thesis using second_time_domain_fails [of 1 demo_cg "''a''" 0 "[(''b'', 1)]" p] by simp
qed

section \<open>Tasks and task flow\<close>






lemma demo_flow_ready:
  "\<exists>b g. flow_ready b g \<and> getTimeStepCount g = 2 \<and> acyclic (links (task_store g)) \<and> length (tasks g) = 2"
proof -
  from startable_built [OF demo_startable] obtain b g where g: "component_graph demo_cg 0 g" "flow_ready b g"
    "getTimeStepCount g = ringbuffer_size (domain_config demo_cg 0)" "acyclic (links (task_store g))" by blast
  from g(1) have om: "omap_ok (tasks g)" and keys: "fst ` set (tasks g) = {''a'', ''b''}"
    by (auto simp: component_graph_def numbered_def demo_components)
  have "length (tasks g) = card (fst ` set (tasks g))"
    by (metis om omap_names_distinct distinct_card length_map list.set_map)
  with keys have "length (tasks g) = 2" by simp
  with g show ?thesis by (auto simp: demo_domain_config domain_0_def)
qed


text \<open>C16: The task flow of an acyclic task graph without CUDA tasks and modules (as above) cannot block itself: of all
  its dependencies, seams included, those that a node waits for have no cycle - the ring of the time
  steps is only closed by condition nodes, which pick a successor without holding the others back; every
  task runs after the start of its time step and before its end, and the end of a time step comes before
  the end of every later one. With modules it is false: \<open>module_steps_not_ordered\<close> and
  \<open>module_task_waits_for_itself\<close>.\<close>

theorem task_flow_order:
  assumes "flow_ready b g" and "acyclic (links (task_store g))"
  shows "\<exists>f. TraactTaskFlowBuilder_build b g TraactTaskFlowGraph_empty = Inr f \<and> acyclic (strong_edges f) \<and>
     (\<forall>i < getTimeStepCount g. \<forall>k < length (tasks g).
        (start_node g i, task_node g i k) \<in> (strong_edges f)\<^sup>+ \<and> (task_node g i k, end_node g i) \<in> (strong_edges f)\<^sup>+) \<and>
     (\<forall>i j. i < j \<and> j < getTimeStepCount g \<longrightarrow> (end_node g i, end_node g j) \<in> (strong_edges f)\<^sup>+)"
proof -
  from flow_sewn [OF assms(1)] obtain f S where f: "TraactTaskFlowBuilder_build b g TraactTaskFlowGraph_empty = Inr f"
    "inner g f = all_edges g" "sewn g f S" "set S = seams_of g"
    "unconditional (f\<lparr>flow_nodes := take (seams_from g) (flow_nodes f)\<rparr>)" by blast
  have sub: "all_edges g \<subseteq> strong_edges f" using inner_strong [OF f(5)] f(2,3) by (auto simp: sewn_def)
  have "(end_node g i, end_node g j) \<in> (all_edges g)\<^sup>+" if "i < j" "j < getTimeStepCount g" for i j
    using that
  proof (induction j)
    case (Suc j)
    have e: "(end_node g j, end_node g (Suc j)) \<in> all_edges g"
      using Suc.prems(2) unfolding all_edges_def later_edges_def by (intro UN_I [of j]) auto
    show ?case
    proof (cases "i = j")
      case False
      with Suc have "(end_node g i, end_node g j) \<in> (all_edges g)\<^sup>+" by simp
      then show ?thesis using e by (rule trancl_into_trancl)
    qed (use e in auto)
  qed simp
  with f(1) strong_acyclic [OF assms f(2-4)] time_step_encloses [OF assms] trancl_mono [OF _ sub] show ?thesis by meson
qed

theorem task_flow_order_witness:
  "\<exists>b g f. TraactTaskFlowBuilder_build b g TraactTaskFlowGraph_empty = Inr f \<and>
     (start_node g 1, task_node g 1 0) \<in> (strong_edges f)\<^sup>+ \<and> (end_node g 0, end_node g 1) \<in> (strong_edges f)\<^sup>+"
proof -
  from demo_flow_ready obtain b g where g: "flow_ready b g" "getTimeStepCount g = 2"
    "acyclic (links (task_store g))" "length (tasks g) = 2" by blast
  from task_flow_order [OF g(1,3)] obtain f where f: "TraactTaskFlowBuilder_build b g TraactTaskFlowGraph_empty = Inr f"
    "\<forall>i < getTimeStepCount g. \<forall>k < length (tasks g).
        (start_node g i, task_node g i k) \<in> (strong_edges f)\<^sup>+ \<and> (task_node g i k, end_node g i) \<in> (strong_edges f)\<^sup>+"
    "\<forall>i j. i < j \<and> j < getTimeStepCount g \<longrightarrow> (end_node g i, end_node g j) \<in> (strong_edges f)\<^sup>+" by blast
  have "1 < getTimeStepCount g" "0 < length (tasks g)" "(0::nat) < 1" using g(2,4) by simp_all
  with f show ?thesis by blast
qed

section \<open>Modules\<close>

text \<open>C39: The task of a module waits for itself: connecting the components of the module adds the module's
  task to their successors before their successors are made to wait for the module's task, so it gets
  itself as predecessor. The task graph of a module that has any component is cyclic, and the module's
  task can never start.\<close>

theorem module_task_waits_for_itself:
  assumes "module_names_free key g" and "module_members d g"
    and "begin_components d \<noteq> [] \<or> end_components d \<noteq> []"
  shows "\<exists>name t. name \<in> {''MODULE_MIDDLE_'' @ key, ''MODULE_END_'' @ key} \<and>
     map_of (tasks (module_tasks key md d g)) name = Some t \<and>
     t \<in> set (successors (task_at (module_tasks key md d g) t)) \<and>
     \<not> acyclic (links (task_store (module_tasks key md d g)))"
proof -
  let ?g' = "module_tasks key md d g" and ?n = "length (task_store g)"
  have "\<exists>name t. name \<in> {''MODULE_MIDDLE_'' @ key, ''MODULE_END_'' @ key} \<and>
     map_of (tasks ?g') name = Some t \<and> (t, t) \<in> links (task_store ?g')"
  proof (cases "begin_components d = [] \<or> end_components d = []")
    case True
    from module_tasks_at_end [OF assms(1,2) True, of md]
    have e: "map_of (tasks ?g') (''MODULE_END_'' @ key) = Some (Suc ?n)"
      "\<forall>t \<in> set (begin_components d @ end_components d). (Suc ?n, Suc ?n) \<in> links (task_store ?g')"
      by (auto simp: Let_def)
    from assms(3) have "\<exists>t. t \<in> set (begin_components d @ end_components d)" by (auto simp: neq_Nil_conv)
    with e(2) have "(Suc ?n, Suc ?n) \<in> links (task_store ?g')" by blast
    with e(1) show ?thesis by blast
  next
    case False
    then have "begin_components d \<noteq> []" "end_components d \<noteq> []" by auto
    from module_tasks_in_middle [OF assms(1,2) this, of md]
    have e: "map_of (tasks ?g') (''MODULE_MIDDLE_'' @ key) = Some (?n + 2)"
      "\<forall>t \<in> set (begin_components d). (?n + 2, ?n + 2) \<in> links (task_store ?g')"
      by (auto simp: Let_def)
    from False have "\<exists>t. t \<in> set (begin_components d)" by (auto simp: neq_Nil_conv)
    with e(2) have "(?n + 2, ?n + 2) \<in> links (task_store ?g')" by blast
    with e(1) show ?thesis by blast
  qed
  then obtain name t where t: "name \<in> {''MODULE_MIDDLE_'' @ key, ''MODULE_END_'' @ key}"
    "map_of (tasks ?g') name = Some t" "(t, t) \<in> links (task_store ?g')" by blast
  from t(3) have "t \<in> set (successors (task_at ?g' t))" by (simp add: links_def task_at_def)
  moreover from t(3) have "\<not> acyclic (links (task_store ?g'))" by (auto simp: acyclic_def)
  ultimately show ?thesis using t(1,2) by blast
qed

definition one_task :: TraactGraph where
  "one_task = snd (emplace_task ''a'' (ComponentTask ''a'' 0) TraactGraph_empty)"

theorem module_task_waits_for_itself_witness:
  "\<not> acyclic (links (task_store (module_tasks ''m'' 0 \<lparr>begin_components = [0], end_components = []\<rparr> one_task)))"
proof -
  have "module_names_free ''m'' one_task" "module_members \<lparr>begin_components = [0], end_components = []\<rparr> one_task"
    by code_simp+
  with module_task_waits_for_itself [of "''m''" one_task "\<lparr>begin_components = [0], end_components = []\<rparr>" 0]
  show ?thesis by fastforce
qed

text \<open>The dependency between the end task of a module and its start task does not reach the next time
  step: \<open>connect_end_to_next_start\<close> reads both nodes from the current time step, so the end task is made
  to precede the start task of its own time step, and no dependency leads to the next one.\<close>

theorem module_steps_not_ordered:
  assumes "0 < getTimeStepCount g" and "getTimeStepCount g \<le> length (time_step_buffer b)"
    and "full g f" and "seams_from g \<le> length (flow_nodes f)"
    and "s < length (tasks g)" and "e < length (tasks g)"
  shows "\<exists>f'. connect_end_to_next_start b (getTimeStepCount g) start_entry (fst (tasks g ! s)) (fst (tasks g ! e)) f = Inr f' \<and>
     inner g f' = inner g f \<union>
       {(task_node g i e, task_node g i s) | i. Suc i < getTimeStepCount g} \<union>
       {(task_node g i e, end_node g i) | i. i < getTimeStepCount g}"
  using connect_end_same_step [OF assms(1-4) known_as_task [OF assms(5)] known_as_task [OF assms(6)], of start_entry]
  unfolding joins_def Un_assoc by blast

theorem module_steps_not_ordered_witness:
  "\<exists>b g f f'. connect_end_to_next_start b 2 0 (fst (tasks g ! 0)) (fst (tasks g ! 1)) f = Inr f' \<and>
     (task_node g 0 1, task_node g 0 0) \<in> inner g f'"
proof -
  from demo_flow_ready obtain b g where g: "flow_ready b g" "getTimeStepCount g = 2" "length (tasks g) = 2" by blast
  from StandardTasks_ok [OF g(1)] obtain f1 where f1:
    "StandardTasks_buildGraph g TraactTaskFlowGraph_empty = Inr f1"
    "length (flow_nodes f1) = task_node g (getTimeStepCount g) 0" "length (task_flow_tasks f1) = getTimeStepCount g"
    "\<forall>i < getTimeStepCount g. step_nodes g i (length (tasks g)) (task_flow_tasks f1 ! i)" by blast
  have "length (flow_nodes f1) = start_node g 0" using f1(2) by (simp add: start_node_def task_node_def)
  from TimeStep_ok [OF g(1) f1(3,4) this] obtain f where
    f: "full g f" "length (flow_nodes f) = start_node g (getTimeStepCount g)" by blast
  from module_steps_not_ordered [of g b f 0 1 0] flow_readyD(3) [OF g(1)] g f
  show ?thesis by (fastforce simp: seams_from_def)
qed

section \<open>From a checked graph to a running data flow\<close>



end
