(* ===== verification/ExecutionProps.thy ===== *)
theory ExecutionProps
  imports Demo
begin

text \<open>
  The properties of running a time step: which methods of the components its tasks call and with what
  data, for every order of the tasks that respects the dependencies of the task graph.
\<close>

text \<open>Components for the witnesses: each call is logged, and data is written to every output.\<close>

definition mark_outputs :: "ComponentBuffer \<Rightarrow> TimeStepBuffer \<Rightarrow> TimeStepBuffer" where
  "mark_outputs c t = t\<lparr>buffer_valid := map (\<lambda>j. if Some j \<in> set (output_valid c) then PS_VALID
     else buffer_valid t ! j) [0..<length (buffer_valid t)]\<rparr>"

definition logging_code :: "component_ptr \<Rightarrow> (component_ptr \<times> EventType) list component_code" where
  "logging_code c = \<lparr>co_configure = (\<lambda>p u. (Some True, u @ [(c, CONFIGURE)])),
     co_start = (\<lambda>u. (Some True, u @ [(c, START)])), co_stop = (\<lambda>u. (None, u @ [(c, STOP)])),
     co_teardown = (\<lambda>u. (Some True, u @ [(c, TEARDOWN)])),
     co_processTimePoint = (\<lambda>b (t, u). (Some True, mark_outputs b t, u @ [(c, DATA)])),
     co_processTimePointWithInvalid = (\<lambda>b (t, u). (Some False, t, u @ [(c, EV_INVALID)]))\<rparr>"

definition logging_program :: "(component_ptr \<times> EventType) list program" where
  "logging_program = \<lparr>code_of = logging_code, module_of = (\<lambda>_. Module_base), cuda_run = (\<lambda>_. Inr)\<rparr>"

lemma logging_writes: "writes_outputs (co_processTimePoint (code_of logging_program c) b) b"
    "keeps_step (co_processTimePoint (code_of logging_program c) b)"
    "keeps_step (co_processTimePointWithInvalid (code_of logging_program c) b)"
  by (auto simp: writes_outputs_def keeps_step_def logging_program_def logging_code_def mark_outputs_def same_step_def)

text \<open>Time step 1 of the concrete data flow, with an event and committed locks.\<close>

definition set_up :: "EventType \<Rightarrow> TimeStepBuffer \<Rightarrow> TimeStepBuffer" where
  "set_up ev t = (setEvent 7 ev t)\<lparr>buffer_valid := map (\<lambda>_. PS_VALID) (buffer_valid t),
     source_buffer_list := map (\<lambda>s. s\<lparr>source_lock := \<lparr>pr_value = Some True, pr_retrieved = False\<rparr>\<rparr>)
       (source_buffer_list t)\<rparr>"

lemma set_up_ready:
  "same_step t (set_up ev t)" "current_message (set_up ev t) = ev" "locks_ready (set_up ev t)"
  "outputs_valid (set_up ev t) a"
  by (auto simp: set_up_def same_step_def setEvent_def locks_ready_def scb_committed_def outputs_valid_def)

lemma demo_steps_built:
  "\<exists>b h' cb' m g. tdb_init [''t''] demo_cg (TimeDomainBuffer_init 0, \<lparr>heap_next = 0, heap_live = []\<rparr>) = Inr (b, h') \<and>
     TraactGraphBuilder_build demo_class demo_cg (domain_config demo_cg 0) b no_callbacks = Inr (cb', m, g) \<and>
     1 < getTimeStepCount g \<and> in_order (links (task_store g)) (length (task_store g)) [0, 1]"
proof -
  from startable_built [OF demo_startable, of "\<lparr>heap_next = 0, heap_live = []\<rparr>" no_callbacks] obtain b h' cb' g f where
    g: "tdb_init [''t''] demo_cg (TimeDomainBuffer_init 0, \<lparr>heap_next = 0, heap_live = []\<rparr>) = Inr (b, h')"
      "TraactGraphBuilder_build demo_class demo_cg (domain_config demo_cg 0) b no_callbacks = Inr (cb', ModuleTables_empty, g)"
      "component_graph demo_cg 0 g" "getTimeStepCount g = ringbuffer_size (domain_config demo_cg 0)"
      "acyclic (links (task_store g))" by blast
  have "0 < getTimeStepCount g" using g(4) by (simp add: demo_domain_config domain_0_def)
  from startable_execution_ready(2) [OF demo_startable g(1,2) this] have "length (task_store g) = 2"
    by (simp add: demo_components)
  with g demo_order [OF g(3,5)] show ?thesis
    by (intro exI [of _ b] exI [of _ h'] exI [of _ cb'] exI [of _ ModuleTables_empty] exI [of _ g])
      (simp add: demo_domain_config domain_0_def)
qed

section \<open>Data\<close>

text \<open>C17: In a time domain that can be started, a data event is processed completely, in every order of the tasks
  that respects their dependencies, once the sources have committed: every task returns and is marked as
  done, and every component that is no source is called exactly once, with \<open>processTimePoint\<close> if all its
  inputs are valid at that time and with \<open>processTimePointWithInvalid\<close> otherwise; no other method is
  called. For that the called methods must leave the shape of the time step, its event and the locks of
  its sources alone. If, besides, the sources have written all their outputs and every other component
  writes all its outputs whenever \<open>processTimePoint\<close> is called, then all calls are calls of
  \<open>processTimePoint\<close> and in the end every output of the domain is valid.\<close>

theorem data_event_processed:
  assumes start: "startable cls cg td factories"
    and b: "tdb_init factories cg (TimeDomainBuffer_init td, h) = Inr (b, h')"
    and g: "TraactGraphBuilder_build cls cg (domain_config cg td) b cb = Inr (cb', m, g)"
    and i: "i < getTimeStepCount g" and order: "in_order (links (task_store g)) (length (task_store g)) order"
    and t: "same_step (time_step_buffer b ! i) t" "current_message t = DATA" "locks_ready t"
    and keep: "\<forall>x \<in> set (td_components cg td). \<not> source_comp cg td x \<longrightarrow>
      (\<forall>c. getComponentBufferByName t (fst x) = Inr c \<longrightarrow>
        keeps_step (co_processTimePoint (code_of prog (snd x)) c) \<and>
        keeps_step (co_processTimePointWithInvalid (code_of prog (snd x)) c))"
  shows "\<exists>w. run_tasks prog cg (map (\<lambda>k. kind (task_at g k)) order)
       \<lparr>sw_buffer = t, sw_data = task_data g ! i, sw_user = u\<rparr> = Some (Inr w) \<and>
     (sw_buffer w, sw_user w) = fold (expected_call False prog cg) (map (\<lambda>k. kind (task_at g k)) order) (t, u) \<and>
     (\<forall>x \<in> set (td_components cg td). \<exists>d. data_at (fst x) w = Inr d \<and> valid_component_call d) \<and>
     ((\<forall>x \<in> set (td_components cg td). source_comp cg td x \<longrightarrow> outputs_valid t (fst x)) \<and>
      (\<forall>x \<in> set (td_components cg td). \<not> source_comp cg td x \<longrightarrow>
        (\<forall>c. getComponentBufferByName t (fst x) = Inr c \<longrightarrow> writes_outputs (co_processTimePoint (code_of prog (snd x)) c) c)) \<longrightarrow>
      (sw_buffer w, sw_user w) = fold (expected_call True prog cg) (map (\<lambda>k. kind (task_at g k)) order) (t, u) \<and>
      (\<forall>x \<in> set (td_components cg td). outputs_valid (sw_buffer w) (fst x)))"
proof -
  note built = startable_execution_ready [OF start b g i]
  have o: "in_order (links (task_store g)) (length (td_components cg td)) order" using order built(2) by simp
  have "current_message t \<noteq> EV_INVALID" using t(2) by simp
  define whole where "whole \<longleftrightarrow> (\<forall>x \<in> set (td_components cg td). source_comp cg td x \<longrightarrow> outputs_valid t (fst x)) \<and>
    (\<forall>x \<in> set (td_components cg td). \<not> source_comp cg td x \<longrightarrow>
      (\<forall>c. getComponentBufferByName t (fst x) = Inr c \<longrightarrow> writes_outputs (co_processTimePoint (code_of prog (snd x)) c) c))"
  note same = same_step_lookup(3) [OF t(1)]
  have "\<exists>w. run_tasks prog cg (map (\<lambda>k. kind (task_at g k)) order)
      \<lparr>sw_buffer = t, sw_data = task_data g ! i, sw_user = u\<rparr> = Some (Inr w) \<and> step_state whole prog cg td (t, u) order w"
  proof (rule run_step_ok [OF built(1) t(1) built(3) o \<open>current_message t \<noteq> EV_INVALID\<close> t(3)])
    fix x c assume x: "x \<in> set (td_components cg td)"
    show "whole \<Longrightarrow> source_comp cg td x \<Longrightarrow> outputs_valid t (fst x)" using x by (simp add: whole_def)
    assume c: "\<not> source_comp cg td x" "getComponentBufferByName (time_step_buffer b ! i) (fst x) = Inr c"
    with keep x same show "keeps_step (co_processTimePoint (code_of prog (snd x)) c) \<and>
        keeps_step (co_processTimePointWithInvalid (code_of prog (snd x)) c)" by simp
    show "whole \<Longrightarrow> writes_outputs (co_processTimePoint (code_of prog (snd x)) c) c"
      using x c same by (simp add: whole_def)
  qed
  then obtain w where w: "run_tasks prog cg (map (\<lambda>k. kind (task_at g k)) order)
      \<lparr>sw_buffer = t, sw_data = task_data g ! i, sw_user = u\<rparr> = Some (Inr w)" "step_state whole prog cg td (t, u) order w"
    by blast
  have finished: "(whole \<longrightarrow> outputs_valid (sw_buffer w) (fst x)) \<and> (\<exists>d. data_at (fst x) w = Inr d \<and> valid_component_call d)"
    if x: "x \<in> set (td_components cg td)" for x
  proof -
    from x obtain k where k: "k < length (td_components cg td)" "comp_at cg td k = x" by (auto simp: in_set_conv_nth)
    then have "k \<in> set order" using o by (simp add: in_order_def)
    with step_state_done [OF w(2) k(1)] k(2) t(2) show ?thesis by auto
  qed
  have kinds: "map (\<lambda>k. task_kind_of cg td (comp_at cg td k)) order = map (\<lambda>k. kind (task_at g k)) order"
    using built(3) o by (auto simp: in_order_def)
  have calls: "(sw_buffer w, sw_user w) = fold (expected_call valid prog cg) (map (\<lambda>k. kind (task_at g k)) order) (t, u)"
    if "valid \<longrightarrow> whole" for valid
    using w(2) that unfolding step_state_def kinds by blast
  from finished have "\<forall>x \<in> set (td_components cg td). \<exists>d. data_at (fst x) w = Inr d \<and> valid_component_call d"
    "whole \<longrightarrow> (\<forall>x \<in> set (td_components cg td). outputs_valid (sw_buffer w) (fst x))" by blast+
  with w(1) calls [of False] calls [of True] show ?thesis unfolding whole_def [symmetric]
    by (intro exI [of _ w]) simp
qed

theorem data_event_processed_witness:
  "\<exists>g t w. run_tasks logging_program demo_cg (map (\<lambda>k. kind (task_at g k)) [0, 1])
       \<lparr>sw_buffer = t, sw_data = task_data g ! 1, sw_user = []\<rparr> = Some (Inr w) \<and> current_message t = DATA \<and>
     (\<forall>x \<in> set (td_components demo_cg 0). outputs_valid (sw_buffer w) (fst x))"
proof -
  from demo_steps_built obtain b h' cb' m g where g:
    "tdb_init [''t''] demo_cg (TimeDomainBuffer_init 0, \<lparr>heap_next = 0, heap_live = []\<rparr>) = Inr (b, h')"
    "TraactGraphBuilder_build demo_class demo_cg (domain_config demo_cg 0) b no_callbacks = Inr (cb', m, g)"
    "1 < getTimeStepCount g" "in_order (links (task_store g)) (length (task_store g)) [0, 1]" by blast
  let ?t = "set_up DATA (time_step_buffer b ! 1)"
  from data_event_processed [OF demo_startable g set_up_ready(1-3), of logging_program "[]"] logging_writes
  show ?thesis using set_up_ready(2,4) by blast
qed

section \<open>Control events\<close>

text \<open>C18: Every other event reaches every component, whatever is in the buffers: in every order of the tasks
  that respects their dependencies each task returns, and the method for the event is called exactly
  once on every component; an exception that it throws stops no other component. A parameter change
  configures only the component it names.\<close>

theorem control_event_reaches_all:
  assumes start: "startable cls cg td factories"
    and b: "tdb_init factories cg (TimeDomainBuffer_init td, h) = Inr (b, h')"
    and g: "TraactGraphBuilder_build cls cg (domain_config cg td) b cb = Inr (cb', m, g)"
    and i: "i < getTimeStepCount g" and order: "in_order (links (task_store g)) (length (task_store g)) order"
    and t: "same_step (time_step_buffer b ! i) t" "current_message t \<notin> {DATA, EV_INVALID}" "locks_ready t"
  shows "\<exists>w. run_tasks prog cg (map (\<lambda>k. kind (task_at g k)) order)
       \<lparr>sw_buffer = t, sw_data = task_data g ! i, sw_user = u\<rparr> = Some (Inr w) \<and>
     sw_user w = fold (\<lambda>k. event_method (current_message t) (changed_pattern_instance_id t = fst (comp_at cg td k))
       (code_of prog (snd (comp_at cg td k))) (the_inst cg (fst (comp_at cg td k)))) order u \<and>
     (\<forall>x \<in> set (td_components cg td). \<exists>d. data_at (fst x) w = Inr d \<and> valid_component_call d)"
proof -
  note built = startable_execution_ready [OF start b g i]
  have o: "in_order (links (task_store g)) (length (td_components cg td)) order" using order built(2) by simp
  have "current_message t \<noteq> EV_INVALID" using t(2) by simp
  from run_step_ok [OF built(1) t(1) built(3) o this t(3), of False prog u] t(2)
  obtain w where w: "run_tasks prog cg (map (\<lambda>k. kind (task_at g k)) order)
      \<lparr>sw_buffer = t, sw_data = task_data g ! i, sw_user = u\<rparr> = Some (Inr w)" "step_state False prog cg td (t, u) order w"
    by auto
  have "\<exists>d. data_at (fst x) w = Inr d \<and> valid_component_call d" if x: "x \<in> set (td_components cg td)" for x
  proof -
    from x obtain k where k: "k < length (td_components cg td)" "comp_at cg td k = x" by (auto simp: in_set_conv_nth)
    then have "k \<in> set order" using o by (simp add: in_order_def)
    with w(2) k show ?thesis unfolding step_state_def by auto
  qed
  moreover have "sw_user w = fold (\<lambda>k. event_method (current_message t)
       (changed_pattern_instance_id t = fst (comp_at cg td k)) (code_of prog (snd (comp_at cg td k)))
       (the_inst cg (fst (comp_at cg td k)))) order u"
  proof -
    from w(2) have "(sw_buffer w, sw_user w) =
        fold (expected_call False prog cg) (map (\<lambda>k. task_kind_of cg td (comp_at cg td k)) order) (t, u)"
      unfolding step_state_def by blast
    from arg_cong [OF this, of snd] expected_control [of t False prog cg td order u] t(2) show ?thesis by simp
  qed
  ultimately show ?thesis using w(1) by blast
qed

theorem control_event_reaches_all_witness:
  "\<exists>g t w. run_tasks logging_program demo_cg (map (\<lambda>k. kind (task_at g k)) [0, 1])
       \<lparr>sw_buffer = t, sw_data = task_data g ! 1, sw_user = []\<rparr> = Some (Inr w) \<and> sw_user w = [(0, STOP), (1, STOP)]"
proof -
  from demo_steps_built obtain b h' cb' m g where g:
    "tdb_init [''t''] demo_cg (TimeDomainBuffer_init 0, \<lparr>heap_next = 0, heap_live = []\<rparr>) = Inr (b, h')"
    "TraactGraphBuilder_build demo_class demo_cg (domain_config demo_cg 0) b no_callbacks = Inr (cb', m, g)"
    "1 < getTimeStepCount g" "in_order (links (task_store g)) (length (task_store g)) [0, 1]" by blast
  let ?t = "set_up STOP (time_step_buffer b ! 1)"
  have "current_message ?t \<notin> {DATA, EV_INVALID}" by (simp add: set_up_ready(2))
  from control_event_reaches_all [OF demo_startable g set_up_ready(1) this set_up_ready(3), of logging_program "[]"]
  obtain w where w: "run_tasks logging_program demo_cg (map (\<lambda>k. kind (task_at g k)) [0, 1])
       \<lparr>sw_buffer = ?t, sw_data = task_data g ! 1, sw_user = []\<rparr> = Some (Inr w)"
    "sw_user w = fold (\<lambda>k. event_method (current_message ?t) (changed_pattern_instance_id ?t = fst (comp_at demo_cg 0 k))
       (code_of logging_program (snd (comp_at demo_cg 0 k))) (the_inst demo_cg (fst (comp_at demo_cg 0 k)))) [0, 1] []"
    by blast
  from w(2) have "sw_user w = [(0, STOP), (1, STOP)]"
    by (simp add: set_up_ready(2) event_method_def logging_program_def logging_code_def demo_components)
  with w(1) show ?thesis by blast
qed

end
