(* ===== verification/ProfileState.thy ===== *)
theory ProfileState
  imports Datatypes Ring
begin

text \<open>
  The measured state of a data flow (\<open>src/traact/dataflow/state\<close>, \<open>TaskFlowProfiler.cpp\<close>): the workers
  of the task flow record when a task starts and ends (\<open>TimeDomainState\<close>), and \<open>TimeDomainStateProcessing\<close>
  takes the records over and computes the durations of the tasks.

  A steady clock's time is its count of nanoseconds. Each recording call holds the mutex of its worker,
  and \<open>getData\<close> each of them in turn, so each is one step per worker. The standard deviation and the rate
  per second, which \<open>update\<close> computes with \<open>double\<close> and \<open>float\<close>, are in \<open>Spread\<close>.
\<close>

section \<open>TimeDomainState\<close>

record TaskStateData =
  sd_task_index :: nat
  sd_is_start :: bool
  sd_event_time :: int

record TaskInfo =
  ti_task_id :: string
  ti_predecessors :: "string list"

record TimeDomainState =
  worker_count :: nat
  ds_time_step_count :: nat
  task_info :: "TaskInfo list"
  data_mutex_count :: nat
  buffer_task_data :: "TaskStateData list list option"  \<comment> \<open>null until \<open>init\<close>\<close>

definition TimeDomainState_new :: TimeDomainState where
  "TimeDomainState_new = \<lparr>worker_count = 0, ds_time_step_count = 1, task_info = [], data_mutex_count = 0,
     buffer_task_data = None\<rparr>"

definition state_init :: "nat \<Rightarrow> nat \<Rightarrow> TimeDomainState \<Rightarrow> TimeDomainState" where
  "state_init workers steps s = s\<lparr>worker_count := workers, ds_time_step_count := steps,
     data_mutex_count := workers, buffer_task_data := Some (replicate workers [])\<rparr>"

text \<open>The position of the first task with the identifier.\<close>

fun index_of_task :: "string \<Rightarrow> TaskInfo list \<Rightarrow> nat option" where
  "index_of_task a [] = None"
| "index_of_task a (t # ts) = (if ti_task_id t = a then Some 0 else map_option Suc (index_of_task a ts))"

definition state_addTask :: "string \<Rightarrow> string list \<Rightarrow> TimeDomainState \<Rightarrow> (nat \<times> TimeDomainState) res" where
  "state_addTask task_id preds s =
     (if task_id = [] then Inl InvalidArgument
      else (case index_of_task task_id (task_info s) of
        None \<Rightarrow> Inr (length (task_info s),
          s\<lparr>task_info := task_info s @ [\<lparr>ti_task_id = task_id, ti_predecessors = preds\<rparr>]\<rparr>)
      | Some i \<Rightarrow> Inr (i, s)))"

definition record_event :: "nat \<Rightarrow> TaskStateData \<Rightarrow> TimeDomainState \<Rightarrow> TimeDomainState res" where
  "record_event worker_id d s =
     (if data_mutex_count s \<le> worker_id then Inl UndefinedBehaviour
      else bind_res (deref (buffer_task_data s)) (\<lambda>data.
        bind_res (raw_get data (int worker_id)) (\<lambda>events.
        Inr (s\<lparr>buffer_task_data := Some (data[worker_id := events @ [d]])\<rparr>))))"

definition taskStart :: "nat \<Rightarrow> nat \<Rightarrow> int \<Rightarrow> TimeDomainState \<Rightarrow> TimeDomainState res" where
  "taskStart task_index worker_id now =
     record_event worker_id \<lparr>sd_task_index = task_index, sd_is_start = True, sd_event_time = now\<rparr>"

definition taskEnd :: "nat \<Rightarrow> nat \<Rightarrow> int \<Rightarrow> TimeDomainState \<Rightarrow> TimeDomainState res" where
  "taskEnd task_index worker_id now =
     record_event worker_id \<lparr>sd_task_index = task_index, sd_is_start = False, sd_event_time = now\<rparr>"

text \<open>\<open>getData\<close> swaps the records of each worker with the empty ones of the result.\<close>

definition swap_worker ::
    "nat \<Rightarrow> TaskStateData list list \<times> TimeDomainState \<Rightarrow> (TaskStateData list list \<times> TimeDomainState) res" where
  "swap_worker i = (\<lambda>(result, s).
     bind_res (deref (buffer_task_data s)) (\<lambda>data.
     bind_res (raw_get data (int i)) (\<lambda>events.
     bind_res (raw_get result (int i)) (\<lambda>own.
     Inr (result[i := events], s\<lparr>buffer_task_data := Some (data[i := own])\<rparr>)))))"

definition state_getData :: "TimeDomainState \<Rightarrow> (TaskStateData list list \<times> TimeDomainState) res" where
  "state_getData s =
     fold_res swap_worker [0..<data_mutex_count s] (replicate (worker_count s) [], s)"

definition getTaskCount :: "TimeDomainState \<Rightarrow> nat" where
  "getTaskCount s = length (task_info s)"

section \<open>DataflowState\<close>

type_synonym DataflowState = "TimeDomainState list"

definition DataflowState_init :: "nat \<Rightarrow> DataflowState \<Rightarrow> DataflowState" where
  "DataflowState_init time_domain_count ds = ds @ replicate time_domain_count TimeDomainState_new"

definition getState :: "DataflowState \<Rightarrow> int \<Rightarrow> TimeDomainState res" where
  "getState ds td = raw_get ds td"

section \<open>TaskFlowProfiler\<close>

text \<open>
  The task flow library gives each task a hash value. The constructor adds the tasks with the names of
  those they depend on; reading the index of an unknown hash value enters the index 0 (\<open>operator[]\<close>).
\<close>

record TaskFlowProfiler =
  task_hash_to_index :: "(nat, nat) omap"
  profiled_state :: TimeDomainState

definition profiler_addTask :: "nat \<times> string \<times> string list \<Rightarrow> TaskFlowProfiler \<Rightarrow> TaskFlowProfiler res" where
  "profiler_addTask = (\<lambda>(hash, name, dependents) p.
     bind_res (state_addTask name dependents (profiled_state p)) (\<lambda>(i, s).
     Inr (p\<lparr>task_hash_to_index := assign hash i (task_hash_to_index p), profiled_state := s\<rparr>)))"

definition TaskFlowProfiler_init ::
    "(nat \<times> string \<times> string list) list \<Rightarrow> TimeDomainState \<Rightarrow> TaskFlowProfiler res" where
  "TaskFlowProfiler_init tasks s =
     fold_res profiler_addTask tasks \<lparr>task_hash_to_index = [], profiled_state = s\<rparr>"

definition profiler_index :: "nat \<Rightarrow> TaskFlowProfiler \<Rightarrow> nat \<times> TaskFlowProfiler" where
  "profiler_index hash p = (case map_of (task_hash_to_index p) hash of
     Some i \<Rightarrow> (i, p) | None \<Rightarrow> (0, p\<lparr>task_hash_to_index := assign hash 0 (task_hash_to_index p)\<rparr>))"

definition on_entry :: "nat \<Rightarrow> nat \<Rightarrow> int \<Rightarrow> TaskFlowProfiler \<Rightarrow> TaskFlowProfiler res" where
  "on_entry worker_id hash now p = (case profiler_index hash p of (task_index, p1) \<Rightarrow>
     bind_res (taskStart task_index worker_id now (profiled_state p1)) (\<lambda>s. Inr (p1\<lparr>profiled_state := s\<rparr>)))"

definition on_exit :: "nat \<Rightarrow> nat \<Rightarrow> int \<Rightarrow> TaskFlowProfiler \<Rightarrow> TaskFlowProfiler res" where
  "on_exit worker_id hash now p = (case profiler_index hash p of (task_index, p1) \<Rightarrow>
     bind_res (taskEnd task_index worker_id now (profiled_state p1)) (\<lambda>s. Inr (p1\<lparr>profiled_state := s\<rparr>)))"

section \<open>Measurements of one task\<close>

datatype TimeDomainTaskState = TS_IDLE | TS_STARTED | TS_FINISHED | TS_INVALID

record ProfileTaskResult =
  pr_start :: int
  pr_end :: int
  pr_event :: nat

record ProfileTimeResult =
  mean_duration :: int
  measurement_count :: nat
  current_state :: TimeDomainTaskState
  current_event :: nat
  measurements :: "ProfileTaskResult CircularBuffer"
  current_measurement :: ProfileTaskResult

definition no_measurement :: ProfileTaskResult where
  "no_measurement = \<lparr>pr_start = 0, pr_end = 0, pr_event = 0\<rparr>"

definition ProfileTimeResult_init :: ProfileTimeResult where
  "ProfileTimeResult_init = \<lparr>mean_duration = 0, measurement_count = 0, current_state = TS_IDLE,
     current_event = 0, measurements = CircularBuffer_init 30 no_measurement, current_measurement = no_measurement\<rparr>"

definition addMeasurement :: "TaskStateData \<Rightarrow> ProfileTimeResult \<Rightarrow> ProfileTimeResult" where
  "addMeasurement d r =
     (if sd_is_start d then
        (if current_state r \<noteq> TS_FINISHED \<and> current_state r \<noteq> TS_IDLE then r\<lparr>current_state := TS_INVALID\<rparr>
         else r\<lparr>current_state := TS_STARTED, current_event := Suc (current_event r),
           current_measurement := (current_measurement r)\<lparr>pr_event := current_event r, pr_start := sd_event_time d\<rparr>\<rparr>)
      else
        (if current_state r \<noteq> TS_STARTED then r\<lparr>current_state := TS_INVALID\<rparr>
         else (let m = (current_measurement r)\<lparr>pr_end := sd_event_time d\<rparr>
               in r\<lparr>current_state := TS_FINISHED, current_measurement := m,
                    measurements := cb_push_back m (measurements r)\<rparr>)))"

text \<open>
  \<open>TimeDuration / size_t\<close>: the count is divided as an unsigned 64-bit number and the quotient becomes a
  signed one again.
\<close>

definition duration_div :: "int \<Rightarrow> nat \<Rightarrow> int" where
  "duration_div amount n =
     (let q = (amount mod 2 ^ 64) div int n in if q < 2 ^ 63 then q else q - 2 ^ 64)"

definition duration_sum :: "ProfileTaskResult list \<Rightarrow> int" where
  "duration_sum ms = sum_list (map (\<lambda>t. pr_end t - pr_start t) ms)"

definition profile_update :: "ProfileTimeResult \<Rightarrow> ProfileTimeResult" where
  "profile_update r =
     (let ms = cb_iterate (measurements r);
          r1 = r\<lparr>measurement_count := length ms\<rparr>
      in if ms = [] then r1
         else r1\<lparr>mean_duration := duration_div (duration_sum ms) (length ms)\<rparr>)"

section \<open>Measurements of a task over its time steps\<close>

text \<open>
  An entry of \<open>time_steps\<close> shares the result of a task, or is an own result without measurement for a
  time step in which the task does not exist.
\<close>

record TimeStepProfileTimeResult =
  ts_mean_duration :: int
  ts_measurement_count :: nat
  ts_current_event :: nat
  time_steps :: "nat option list"

definition TimeStepProfileTimeResult_init :: "nat option list \<Rightarrow> TimeStepProfileTimeResult" where
  "TimeStepProfileTimeResult_init steps =
     \<lparr>ts_mean_duration = 0, ts_measurement_count = 0, ts_current_event = 0, time_steps = steps\<rparr>"

definition step_result :: "ProfileTimeResult list \<Rightarrow> nat option \<Rightarrow> ProfileTimeResult res" where
  "step_result tasks t = (case t of None \<Rightarrow> Inr ProfileTimeResult_init | Some i \<Rightarrow> raw_get tasks (int i))"

definition time_step_update ::
    "ProfileTimeResult list \<Rightarrow> TimeStepProfileTimeResult \<Rightarrow> TimeStepProfileTimeResult res" where
  "time_step_update tasks r =
     bind_res (map_res (step_result tasks) (time_steps r)) (\<lambda>results.
     let ms = concat (map (\<lambda>t. cb_iterate (measurements t)) results);
         r1 = r\<lparr>ts_measurement_count := length ms, ts_current_event := sum_list (map current_event results)\<rparr>
     in Inr (if ms = [] then r1
             else r1\<lparr>ts_mean_duration := duration_div (duration_sum ms) (length ms)\<rparr>))"

section \<open>TimeDomainStateProcessing\<close>

record ProcessingTaskInfo =
  pi_task_index :: nat
  pi_task_id :: string
  pi_task_type :: TaskType
  pi_time_step :: int
  pi_pattern_instance_id :: string
  pi_predecessors :: "nat list"

record TimeDomainStateProcessing =
  time_domain_state :: TimeDomainState
  proc_info :: "ProcessingTaskInfo list"
  proc_tasks :: "ProfileTimeResult list"
  time_step_tasks :: "(string, TimeStepProfileTimeResult) omap"
  last_update :: int
  time_step_to_tasks :: "nat list list"
  start_task_index :: "nat list"
  end_task_index :: "nat list"
  task_finished :: "TimeDomainTaskState list list"

text \<open>
  \<open>RE2::FullMatch\<close> with the expression \<open>([^_]+)_(\d+)_(.+)\<close>, for text in UTF-8: the first group ends at
  the first underscore, since it has none, and the digits end at the next one; a dot matches no line feed.
  The digits are read into an \<open>int\<close>, and the match fails if they do not fit. The loop over the tasks keeps
  the table \<open>task_to_time_steps\<close> beside the fields.
\<close>

definition digits_value :: "string \<Rightarrow> nat" where
  "digits_value ds = foldl (\<lambda>v c. 10 * v + (of_char c - 48)) 0 ds"

definition full_match :: "string \<Rightarrow> (string \<times> int \<times> string) option" where
  "full_match task_id =
     (let type_name = takeWhile (\<lambda>c. c \<noteq> CHR ''_'') task_id;
          after_type = drop (length type_name + 1) task_id;
          digits = takeWhile is_digit after_type;
          after_digits = drop (length digits) after_type;
          instance_id = drop 1 after_digits
      in if type_name \<noteq> [] \<and> length type_name < length task_id \<and> digits \<noteq> [] \<and>
            take 1 after_digits = ''_'' \<and> instance_id \<noteq> [] \<and> CHR 0x0A \<notin> set instance_id \<and>
            digits_value digits < 2 ^ 31
         then Some (type_name, int (digits_value digits), instance_id) else None)"

definition time_step_row :: "nat \<Rightarrow> string \<Rightarrow> (string, nat option list) omap \<Rightarrow> nat option list" where
  "time_step_row n name table =
     (let row = (case map_of table name of None \<Rightarrow> [] | Some r \<Rightarrow> r) in if row = [] then replicate n None else row)"

definition process_task ::
    "TaskInfo list \<Rightarrow> nat \<Rightarrow>
     (string, nat option list) omap \<times> TimeDomainStateProcessing \<Rightarrow>
     ((string, nat option list) omap \<times> TimeDomainStateProcessing) res" where
  "process_task infos task_index = (\<lambda>(task_to_time_steps, s).
     let task_id = ti_task_id (infos ! task_index) in
     (case full_match task_id of
        None \<Rightarrow> Inr (task_to_time_steps, s)
      | Some (type_name, step, instance_id) \<Rightarrow>
          (let preds = List.map_filter (\<lambda>p. index_of_task p infos) (ti_predecessors (infos ! task_index));
               name = type_name @ ''_'' @ instance_id;
               row1 = time_step_row (ds_time_step_count (time_domain_state s)) name task_to_time_steps;
               type = taskTypeNameToEnum type_name
           in
           bind_res (raw_get (time_step_to_tasks s) step) (\<lambda>tasks_of_step.
           bind_res (raw_set (time_step_to_tasks s) step (tasks_of_step @ [task_index])) (\<lambda>to_tasks.
           bind_res (raw_set row1 step (Some task_index)) (\<lambda>row2.
           bind_res (if type = CONTROL_FLOW \<and> instance_id = kTimeStepStart
                     then raw_set (start_task_index s) step task_index else Inr (start_task_index s)) (\<lambda>starts.
           bind_res (if type = CONTROL_FLOW \<and> instance_id \<noteq> kTimeStepStart \<and> instance_id = kTimeStepEnd
                     then raw_set (end_task_index s) step task_index else Inr (end_task_index s)) (\<lambda>ends.
           Inr (assign name row2 task_to_time_steps,
             s\<lparr>time_step_to_tasks := to_tasks, start_task_index := starts, end_task_index := ends,
               proc_info := proc_info s @ [\<lparr>pi_task_index = task_index, pi_task_id = task_id, pi_task_type = type,
                 pi_time_step = step, pi_pattern_instance_id = instance_id, pi_predecessors = preds\<rparr>]\<rparr>)))))))))"

definition TimeDomainStateProcessing_init :: "TimeDomainState \<Rightarrow> TimeDomainStateProcessing res" where
  "TimeDomainStateProcessing_init ds =
     (let n = ds_time_step_count ds;
          s0 = \<lparr>time_domain_state = ds, proc_info = [],
                proc_tasks = replicate (getTaskCount ds) ProfileTimeResult_init, time_step_tasks = [],
                last_update = 0, time_step_to_tasks = replicate n [], start_task_index = replicate n 0,
                end_task_index = replicate n 0,
                task_finished = replicate n (replicate (getTaskCount ds) TS_IDLE)\<rparr>
      in bind_res (fold_res (process_task (task_info ds)) [0..<length (task_info ds)] ([], s0))
           (\<lambda>(task_to_time_steps, s).
         Inr (s\<lparr>time_step_tasks :=
           map (\<lambda>(name, steps). (name, TimeStepProfileTimeResult_init steps)) task_to_time_steps\<rparr>)))"

definition resetTimeStep :: "int \<Rightarrow> TimeDomainStateProcessing \<Rightarrow> TimeDomainStateProcessing res" where
  "resetTimeStep time_step s =
     bind_res (raw_get (time_step_to_tasks s) time_step) (\<lambda>tasks.
     fold_res (\<lambda>task_index s.
       bind_res (raw_get (proc_tasks s) (int task_index)) (\<lambda>r.
       Inr (s\<lparr>proc_tasks := (proc_tasks s)[task_index := r\<lparr>current_state := TS_IDLE\<rparr>]\<rparr>))) tasks s)"

fun first_index :: "nat \<Rightarrow> nat list \<Rightarrow> nat option" where
  "first_index x [] = None"
| "first_index x (y # ys) = (if y = x then Some 0 else map_option Suc (first_index x ys))"

definition isTimeStepStart :: "TimeDomainStateProcessing \<Rightarrow> nat \<Rightarrow> int" where
  "isTimeStepStart s task_index =
     (case first_index task_index (start_task_index s) of Some i \<Rightarrow> int i | None \<Rightarrow> -1)"

definition process_data :: "TaskStateData \<Rightarrow> TimeDomainStateProcessing \<Rightarrow> TimeDomainStateProcessing res" where
  "process_data d s =
     bind_res (let time_step_start = isTimeStepStart s (sd_task_index d)
               in if 0 \<le> time_step_start \<and> sd_is_start d then resetTimeStep time_step_start s else Inr s) (\<lambda>s1.
     bind_res (raw_get (proc_tasks s1) (int (sd_task_index d))) (\<lambda>r.
     Inr (s1\<lparr>proc_tasks := (proc_tasks s1)[sd_task_index d := addMeasurement d r]\<rparr>)))"

text \<open>The records of all workers in the order of their times; equal times keep the order of the workers.\<close>

definition time_sorted_data :: "TaskStateData list list \<Rightarrow> TaskStateData list" where
  "time_sorted_data task_data = sort_key sd_event_time (concat task_data)"

definition processing_update :: "int \<Rightarrow> TimeDomainStateProcessing \<Rightarrow> TimeDomainStateProcessing res" where
  "processing_update now s =
     bind_res (state_getData (time_domain_state s)) (\<lambda>(profile_data, ds).
     bind_res (fold_res process_data (time_sorted_data profile_data)
         (s\<lparr>time_domain_state := ds, last_update := now\<rparr>)) (\<lambda>s1.
     let s2 = s1\<lparr>proc_tasks := map profile_update (proc_tasks s1)\<rparr>
     in bind_res (map_res (\<lambda>(name, r). bind_res (time_step_update (proc_tasks s2) r) (\<lambda>r'. Inr (name, r')))
            (time_step_tasks s2)) (\<lambda>steps.
        Inr (s2\<lparr>time_step_tasks := steps\<rparr>))))"

section \<open>What is recorded is taken over\<close>

text \<open>The calls of the workers and of the reader, in the order in which they hold the mutexes.\<close>

datatype profile_call =
    CallStart nat nat int   \<comment> \<open>task, worker, time\<close>
  | CallEnd nat nat int
  | CallGetData

fun call_worker :: "profile_call \<Rightarrow> nat option" where
  "call_worker (CallStart _ worker_id _) = Some worker_id"
| "call_worker (CallEnd _ worker_id _) = Some worker_id"
| "call_worker CallGetData = None"

fun call_event :: "profile_call \<Rightarrow> TaskStateData list" where
  "call_event (CallStart t _ now) = [\<lparr>sd_task_index = t, sd_is_start = True, sd_event_time = now\<rparr>]"
| "call_event (CallEnd t _ now) = [\<lparr>sd_task_index = t, sd_is_start = False, sd_event_time = now\<rparr>]"
| "call_event CallGetData = []"

fun do_call ::
    "profile_call \<Rightarrow> TaskStateData list list list \<times> TimeDomainState \<Rightarrow>
     (TaskStateData list list list \<times> TimeDomainState) res" where
  "do_call (CallStart t worker_id now) (taken, s) = bind_res (taskStart t worker_id now s) (\<lambda>s'. Inr (taken, s'))"
| "do_call (CallEnd t worker_id now) (taken, s) = bind_res (taskEnd t worker_id now s) (\<lambda>s'. Inr (taken, s'))"
| "do_call CallGetData (taken, s) = bind_res (state_getData s) (\<lambda>(d, s'). Inr (taken @ [d], s'))"

definition state_ready :: "TimeDomainState \<Rightarrow> bool" where
  "state_ready s \<longleftrightarrow> data_mutex_count s = worker_count s \<and>
     (case buffer_task_data s of None \<Rightarrow> False | Some d \<Rightarrow> length d = worker_count s)"

definition recorded :: "TimeDomainState \<Rightarrow> nat \<Rightarrow> TaskStateData list" where
  "recorded s k = (case buffer_task_data s of None \<Rightarrow> [] | Some d \<Rightarrow> d ! k)"

lemma state_ready_init: "state_ready (state_init workers steps s)"
  and recorded_init: "k < workers \<Longrightarrow> recorded (state_init workers steps s) k = []"
  by (simp_all add: state_ready_def state_init_def recorded_def)

lemma record_event_ok:
  assumes "state_ready s" and "k < worker_count s"
  shows "\<exists>s'. record_event k d s = Inr s' \<and> state_ready s' \<and> worker_count s' = worker_count s \<and>
    (\<forall>l < worker_count s. recorded s' l = recorded s l @ (if l = k then [d] else []))"
proof -
  from assms obtain data where data: "buffer_task_data s = Some data" "length data = worker_count s"
    by (auto simp: state_ready_def split: option.splits)
  let ?s = "s\<lparr>buffer_task_data := Some (data[k := data ! k @ [d]])\<rparr>"
  have "record_event k d s = Inr ?s"
    using assms data by (simp add: record_event_def state_ready_def raw_get_int)
  with assms data show ?thesis
    by (intro exI [of _ ?s]) (auto simp: state_ready_def recorded_def nth_list_update)
qed

lemma bind_fold_nil: "bind_res r (fold_res f []) = r"
  by (cases r) auto

lemma getData_fold:
  assumes "buffer_task_data s = Some data" and "length data = worker_count s" and "k \<le> worker_count s"
  shows "fold_res swap_worker [0..<k] (replicate (worker_count s) [], s) =
    Inr (take k data @ replicate (worker_count s - k) [],
      s\<lparr>buffer_task_data := Some (replicate k [] @ drop k data)\<rparr>)"
  using assms(3)
proof (induction k)
  case 0
  then show ?case using assms(1) by simp
next
  case (Suc k)
  let ?n = "worker_count s"
  from Suc.prems assms(2) have k: "k < length data" "k < ?n" by simp_all
  have e: "(take k data @ replicate (?n - k) [])[k := data ! k] = take (Suc k) data @ replicate (?n - Suc k) []"
    using k assms(2) by (simp add: list_update_append take_Suc_conv_app_nth)
      (metis Suc_diff_Suc list_update_code(2) replicate_Suc)
  have f: "(replicate k [] @ drop k data)[k := []] = replicate (Suc k) [] @ drop (Suc k) data"
    using k by (simp add: list_update_append replicate_app_Cons_same flip: Cons_nth_drop_Suc)
  have g: "raw_get (replicate k [] @ drop k data) (int k) = Inr (data ! k)"
    "raw_get (take k data @ replicate (?n - k) []) (int k) = Inr []"
    using k assms(2) by (simp_all add: raw_get_int nth_append)
  from Suc k have "fold_res swap_worker [0..<Suc k] (replicate ?n [], s) =
      swap_worker k (take k data @ replicate (?n - k) [], s\<lparr>buffer_task_data := Some (replicate k [] @ drop k data)\<rparr>)"
    by (simp add: fold_res_append bind_fold_nil)
  also have "\<dots> = Inr ((take k data @ replicate (?n - k) [])[k := data ! k],
      s\<lparr>buffer_task_data := Some ((replicate k [] @ drop k data)[k := []])\<rparr>)"
    by (simp add: swap_worker_def g)
  finally show ?case by (simp only: e f)
qed

lemma getData_ok:
  assumes "state_ready s"
  shows "\<exists>d s'. state_getData s = Inr (d, s') \<and> state_ready s' \<and> worker_count s' = worker_count s \<and>
    (\<forall>l < worker_count s. d ! l = recorded s l \<and> recorded s' l = [])"
proof -
  from assms obtain data where data: "buffer_task_data s = Some data" "length data = worker_count s"
    by (auto simp: state_ready_def split: option.splits)
  let ?s = "s\<lparr>buffer_task_data := Some (replicate (worker_count s) [])\<rparr>"
  have "state_getData s = Inr (data, ?s)"
    using getData_fold [OF data, of "worker_count s"] assms data by (simp add: state_getData_def state_ready_def)
  with assms data show ?thesis
    by (intro exI [of _ data] exI [of _ ?s]) (auto simp: state_ready_def recorded_def)
qed

lemma profile_calls:
  assumes "state_ready s" and "\<forall>c \<in> set calls. \<forall>k. call_worker c = Some k \<longrightarrow> k < worker_count s"
  shows "\<exists>taken' s'. fold_res do_call calls (taken, s) = Inr (taken', s') \<and> state_ready s' \<and>
    worker_count s' = worker_count s \<and>
    (\<forall>k < worker_count s. concat (map (\<lambda>d. d ! k) taken') @ recorded s' k =
       concat (map (\<lambda>d. d ! k) taken) @ recorded s k @
         concat (map call_event (filter (\<lambda>c. call_worker c = Some k) calls)))"
  using assms
proof (induction calls arbitrary: taken s)
  case (Cons c calls)
  have "\<exists>taken1 s1. do_call c (taken, s) = Inr (taken1, s1) \<and> state_ready s1 \<and> worker_count s1 = worker_count s \<and>
    (\<forall>k < worker_count s. concat (map (\<lambda>d. d ! k) taken1) @ recorded s1 k =
       concat (map (\<lambda>d. d ! k) taken) @ recorded s k @ (if call_worker c = Some k then call_event c else []))"
  proof (cases c)
    case (CallStart t w now)
    with Cons.prems have "w < worker_count s" by auto
    from record_event_ok [OF Cons.prems(1) this] CallStart show ?thesis by (fastforce simp: taskStart_def)
  next
    case (CallEnd t w now)
    with Cons.prems have "w < worker_count s" by auto
    from record_event_ok [OF Cons.prems(1) this] CallEnd show ?thesis by (fastforce simp: taskEnd_def)
  next
    case CallGetData
    from getData_ok [OF Cons.prems(1)] obtain d s' where "state_getData s = Inr (d, s')" "state_ready s'"
      "worker_count s' = worker_count s" "\<forall>l < worker_count s. d ! l = recorded s l \<and> recorded s' l = []" by blast
    with CallGetData show ?thesis by (intro exI [of _ "taken @ [d]"] exI [of _ s']) simp
  qed
  then obtain taken1 s1 where s1: "do_call c (taken, s) = Inr (taken1, s1)" "state_ready s1"
    "worker_count s1 = worker_count s"
    "\<forall>k < worker_count s. concat (map (\<lambda>d. d ! k) taken1) @ recorded s1 k =
       concat (map (\<lambda>d. d ! k) taken) @ recorded s k @ (if call_worker c = Some k then call_event c else [])" by blast
  have "\<forall>c \<in> set calls. \<forall>k. call_worker c = Some k \<longrightarrow> k < worker_count s1" using Cons.prems(2) s1(3) by simp
  from Cons.IH [OF s1(2) this, of taken1] obtain taken' s' where s': "fold_res do_call calls (taken1, s1) = Inr (taken', s')"
    "state_ready s'" "worker_count s' = worker_count s1"
    "\<forall>k < worker_count s1. concat (map (\<lambda>d. d ! k) taken') @ recorded s' k =
       (concat (map (\<lambda>d. d ! k) taken1) @ recorded s1 k) @
         concat (map call_event (filter (\<lambda>c. call_worker c = Some k) calls))" by auto
  then show ?case using s1 by (intro exI [of _ taken'] exI [of _ s']) (auto simp: if_distrib)
qed simp

section \<open>Durations\<close>

abbreviation start_of :: "nat \<Rightarrow> int \<Rightarrow> TaskStateData" where
  "start_of i t \<equiv> \<lparr>sd_task_index = i, sd_is_start = True, sd_event_time = t\<rparr>"

abbreviation end_of :: "nat \<Rightarrow> int \<Rightarrow> TaskStateData" where
  "end_of i t \<equiv> \<lparr>sd_task_index = i, sd_is_start = False, sd_event_time = t\<rparr>"

definition runs_of :: "nat \<Rightarrow> (int \<times> int) list \<Rightarrow> TaskStateData list" where
  "runs_of i ps = concat (map (\<lambda>(s, e). [start_of i s, end_of i e]) ps)"

text \<open>The results of the runs \<open>ps\<close>, numbered from \<open>k\<close>.\<close>

fun results_of :: "nat \<Rightarrow> (int \<times> int) list \<Rightarrow> ProfileTaskResult list" where
  "results_of k [] = []"
| "results_of k ((s, e) # ps) = \<lparr>pr_start = s, pr_end = e, pr_event = k\<rparr> # results_of (Suc k) ps"

lemma length_results_of [simp]: "length (results_of k ps) = length ps"
  by (induction k ps rule: results_of.induct) auto

lemma durations_results_of: "map (\<lambda>t. pr_end t - pr_start t) (results_of k ps) = map (\<lambda>(s, e). e - s) ps"
  by (induction k ps rule: results_of.induct) auto

lemma addMeasurement_runs:
  assumes "current_state r \<in> {TS_IDLE, TS_FINISHED}"
  shows "let r' = fold addMeasurement (runs_of i ps) r in
    measurements r' = fold cb_push_back (results_of (current_event r) ps) (measurements r) \<and>
    current_event r' = current_event r + length ps \<and>
    current_state r' = (if ps = [] then current_state r else TS_FINISHED)"
  using assms
proof (induction ps arbitrary: r)
  case Nil
  then show ?case by (simp add: runs_of_def)
next
  case (Cons p ps)
  obtain s e where p: "p = (s, e)" by (cases p)
  let ?m = "\<lparr>pr_start = s, pr_end = e, pr_event = current_event r\<rparr>"
  let ?r = "addMeasurement (end_of i e) (addMeasurement (start_of i s) r)"
  have r: "current_state ?r = TS_FINISHED" "current_event ?r = Suc (current_event r)"
    "measurements ?r = cb_push_back ?m (measurements r)"
    using Cons.prems by (cases "current_measurement r"; auto simp: addMeasurement_def Let_def)+
  have "fold addMeasurement (runs_of i (p # ps)) r = fold addMeasurement (runs_of i ps) ?r"
    by (simp add: runs_of_def p)
  with Cons.IH [of ?r] r p show ?case by (simp add: Let_def)
qed

lemma duration_div_nonneg:
  assumes "0 \<le> a" and "a < 2 ^ 63" and "0 < n"
  shows "duration_div a n = a div int n"
proof -
  have "a mod 2 ^ 64 = a" using assms by (intro mod_pos_pos_trivial) auto
  moreover have "a div int n \<le> a" using assms zdiv_mono2 [of a 1 "int n"] by simp
  ultimately show ?thesis using assms(2) by (auto simp: duration_div_def Let_def)
qed

lemma duration_sum_rotate: "duration_sum (drop k xs @ take k xs) = duration_sum xs"
proof -
  let ?f = "\<lambda>t. pr_end t - pr_start t"
  have "map ?f xs = map ?f (take k xs) @ map ?f (drop k xs)" by (simp flip: map_append)
  then have "sum_list (map ?f xs) = sum_list (map ?f (take k xs)) + sum_list (map ?f (drop k xs))"
    by (simp only: sum_list_append)
  then show ?thesis by (simp add: duration_sum_def)
qed

lemma held_runs:
  fixes ps k
  defines "b \<equiv> fold cb_push_back (results_of k ps) (CircularBuffer_init 30 no_measurement)"
  shows "length (cb_iterate b) = min 30 (length ps)"
    "duration_sum (cb_iterate b) = sum_list (map (\<lambda>(s, e). e - s) (last_n 30 ps))"
proof -
  have ok: "cb_ok b" unfolding b_def by (intro cb.ok_fold cb_ok_init) simp
  have held: "cb_contents b = last_n 30 (results_of k ps)"
  proof -
    have "cb_cap (CircularBuffer_init 30 no_measurement) = 30" by (simp add: cb_cap_def CircularBuffer_init_def)
    then show ?thesis unfolding b_def using cb.contents_fold [OF cb_ok_init, of 30 "results_of k ps" no_measurement] by simp
  qed
  from cb_iterate_rotation [OF ok] obtain l where l: "cb_contents b = drop l (cb_iterate b) @ take l (cb_iterate b)" by blast
  have "length (cb_contents b) = length (cb_iterate b)"
    using l by (metis append_take_drop_id length_append add.commute)
  then show "length (cb_iterate b) = min 30 (length ps)"
    by (simp add: held last_n_def min_def) arith
  have "map (\<lambda>t. pr_end t - pr_start t) (last_n 30 (results_of k ps)) = map (\<lambda>(s, e). e - s) (last_n 30 ps)"
    unfolding last_n_def drop_map [symmetric] durations_results_of by simp
  then have "duration_sum (cb_contents b) = sum_list (map (\<lambda>(s, e). e - s) (last_n 30 ps))"
    by (simp add: duration_sum_def held)
  with l duration_sum_rotate show "duration_sum (cb_iterate b) = sum_list (map (\<lambda>(s, e). e - s) (last_n 30 ps))" by metis
qed

lemma addMeasurement_stuck: "current_state r = TS_INVALID \<Longrightarrow> fold addMeasurement ds r = r"
  by (induction ds arbitrary: r) (auto simp: addMeasurement_def)

section \<open>The tasks of the processing\<close>

type_synonym task_key = "TaskType \<times> nat \<times> string \<times> string list"

text \<open>The information that the profiler adds for the task of a type, time step and instance.\<close>

fun key_info :: "task_key \<Rightarrow> TaskInfo" where
  "key_info (t, st, inst, preds) =
     \<lparr>ti_task_id = getTaskId (taskTypeEnumToName t) inst (int st), ti_predecessors = preds\<rparr>"

fun key_step :: "task_key \<Rightarrow> nat" where
  "key_step (_, st, _, _) = st"

fun key_entry :: "task_key \<Rightarrow> TaskType \<times> int \<times> string" where
  "key_entry (t, st, inst, _) = (t, int st, inst)"

definition info_entry :: "ProcessingTaskInfo \<Rightarrow> TaskType \<times> int \<times> string" where
  "info_entry p = (pi_task_type p, pi_time_step p, pi_pattern_instance_id p)"

text \<open>The tasks whose identifiers the expression reads: they have a time step of the \<open>n\<close>, and their
  instance a name without a line feed.\<close>

definition readable :: "nat \<Rightarrow> task_key \<Rightarrow> bool" where
  "readable n = (\<lambda>(t, st, inst, preds). t \<noteq> TT_COUNT \<and> st < n \<and> st < 2 ^ 31 \<and> inst \<noteq> [] \<and> CHR 0x0A \<notin> set inst)"

lemma digits_value_fmt_nat [simp]: "digits_value (fmt_nat n) = n"
proof (induction n rule: fmt_nat.induct)
  case (1 n)
  then show ?case by (cases "n < 10") (simp_all add: fmt_nat.simps [of n] digits_value_def)
qed

lemma full_match_parts:
  assumes "t \<noteq> []" and "CHR ''_'' \<notin> set t" and "n < 2 ^ 31" and "inst \<noteq> []" and "CHR 0x0A \<notin> set inst"
  shows "full_match (t @ CHR ''_'' # fmt_nat n @ CHR ''_'' # inst) = Some (t, int n, inst)"
proof -
  have "takeWhile (\<lambda>c. c \<noteq> CHR ''_'') (t @ CHR ''_'' # r) = t" for r
    using assms(2) by (subst takeWhile_append2) auto
  moreover have "takeWhile is_digit (fmt_nat n @ CHR ''_'' # inst) = fmt_nat n"
    using fmt_nat_digits underscore_not_digit by (subst takeWhile_append2) auto
  ultimately show ?thesis using assms by (simp add: full_match_def)
qed

lemma full_match_getTaskId:
  assumes "readable n (t, st, inst, preds)"
  shows "full_match (getTaskId (taskTypeEnumToName t) inst (int st)) = Some (taskTypeEnumToName t, int st, inst)"
proof -
  have "taskTypeEnumToName t \<noteq> []"
    using assms by (cases t) (simp_all add: readable_def)
  with assms taskTypeEnumToName_no_underscore show ?thesis
    by (simp add: readable_def getTaskId_def fmt_int_def full_match_parts)
qed

text \<open>The state of the loop after the first \<open>k\<close> tasks.\<close>

definition processed :: "nat \<Rightarrow> task_key list \<Rightarrow> nat \<Rightarrow> (string, nat option list) omap \<Rightarrow> TimeDomainStateProcessing \<Rightarrow> bool" where
  "processed n keys k table s \<longleftrightarrow>
     ds_time_step_count (time_domain_state s) = n \<and>
     length (time_step_to_tasks s) = n \<and> length (start_task_index s) = n \<and> length (end_task_index s) = n \<and>
     (\<forall>name row. map_of table name = Some row \<longrightarrow> length row = n) \<and>
     (\<forall>st < n. time_step_to_tasks s ! st = filter (\<lambda>i. key_step (keys ! i) = st) [0..<k]) \<and>
     map info_entry (proc_info s) = map key_entry (take k keys)"

lemma process_task_step:
  assumes "processed n keys k table s" and "k < length keys" and "list_all (readable n) keys"
    and "infos = map key_info keys"
  shows "\<exists>table' s'. process_task infos k (table, s) = Inr (table', s') \<and>
    processed n keys (Suc k) table' s'"
proof -
  obtain t st inst preds where key: "keys ! k = (t, st, inst, preds)" by (cases "keys ! k")
  then have "(t, st, inst, preds) \<in> set keys" using assms(2) by (metis nth_mem)
  then have readable: "readable n (t, st, inst, preds)" using assms(3) by (auto simp: list_all_iff)
  then have read: "t \<noteq> TT_COUNT" "st < n"
    "full_match (getTaskId (taskTypeEnumToName t) inst (int st)) = Some (taskTypeEnumToName t, int st, inst)"
    using full_match_getTaskId by (auto simp: readable_def)
  define tn where "tn = taskTypeEnumToName t"
  then have tn: "taskTypeNameToEnum tn = t" using taskType_roundtrip [OF read(1)] by simp
  let ?name = "tn @ ''_'' @ inst"
  define row where "row = time_step_row n ?name table"
  have row: "length row = n"
    using assms(1) by (auto simp: row_def time_step_row_def processed_def Let_def split: option.splits)
  have table: "map_of (assign ?name (row[st := Some k]) table) name = Some r \<Longrightarrow> length r = n" for name r
    using assms(1) row by (cases "name = ?name") (auto simp: processed_def map_of_assign_same map_of_assign_other)
  have info: "infos ! k = key_info (t, st, inst, preds)" using assms(2,4) key by simp
  have parts: "full_match (getTaskId tn inst (int st)) = Some (tn, int st, inst)" using read(3) by (simp add: tn_def)
  define starts where "starts = (if t = CONTROL_FLOW \<and> inst = kTimeStepStart then (start_task_index s)[st := k]
    else start_task_index s)"
  define ends where "ends = (if t = CONTROL_FLOW \<and> inst \<noteq> kTimeStepStart \<and> inst = kTimeStepEnd
    then (end_task_index s)[st := k] else end_task_index s)"
  define new where "new = \<lparr>pi_task_index = k, pi_task_id = getTaskId (taskTypeEnumToName t) inst (int st),
    pi_task_type = t, pi_time_step = int st, pi_pattern_instance_id = inst,
    pi_predecessors = List.map_filter (\<lambda>p. index_of_task p infos) preds\<rparr>"
  define s' where "s' = s\<lparr>time_step_to_tasks := (time_step_to_tasks s)[st := time_step_to_tasks s ! st @ [k]],
    start_task_index := starts, end_task_index := ends, proc_info := proc_info s @ [new]\<rparr>"
  have lens: "length (time_step_to_tasks s) = n" "length (start_task_index s) = n" "length (end_task_index s) = n"
    "ds_time_step_count (time_domain_state s) = n"
    using assms(1) by (simp_all add: processed_def)
  have starts: "(if t = CONTROL_FLOW \<and> inst = kTimeStepStart then raw_set (start_task_index s) (int st) k
      else Inr (start_task_index s)) = Inr starts"
    and ends: "(if t = CONTROL_FLOW \<and> inst \<noteq> kTimeStepStart \<and> inst = kTimeStepEnd
      then raw_set (end_task_index s) (int st) k else Inr (end_task_index s)) = Inr ends"
    using lens read(2) by (simp_all add: starts_def ends_def raw_set_int)
  have get: "raw_get (time_step_to_tasks s) (int st) = Inr (time_step_to_tasks s ! st)"
    "raw_set (time_step_to_tasks s) (int st) v = Inr ((time_step_to_tasks s)[st := v])"
    "raw_set row (int st) v' = Inr (row[st := v'])" for v v'
    using lens read(2) row by (simp_all add: raw_get_int raw_set_int)
  have "process_task infos k (table, s) = Inr (assign ?name (row[st := Some k]) table, s')"
    unfolding process_task_def prod.case info key_info.simps TaskInfo.simps tn_def [symmetric] parts option.case Let_def
      prod.case tn lens(4) row_def [symmetric] get bind_res.simps starts ends s'_def new_def ..
  moreover have "processed n keys (Suc k) (assign ?name (row[st := Some k]) table) s'"
    using assms(1,2) read key table
    by (auto simp: processed_def s'_def starts_def ends_def new_def info_entry_def nth_list_update
        take_Suc_conv_app_nth)
  ultimately show ?thesis by blast
qed

lemma process_tasks:
  assumes "list_all (readable n) keys" and "infos = map key_info keys" and "processed n keys 0 table s"
    and "k \<le> length keys"
  shows "\<exists>table' s'. fold_res (process_task infos) [0..<k] (table, s) = Inr (table', s') \<and>
    processed n keys k table' s'"
  using assms(4)
proof (induction k)
  case 0
  then show ?case using assms(3) by simp
next
  case (Suc k)
  then obtain table1 s1 where "fold_res (process_task infos) [0..<k] (table, s) = Inr (table1, s1)"
    and p: "processed n keys k table1 s1" by auto
  moreover from process_task_step [OF p _ assms(1,2)] Suc.prems obtain table2 s2 where
    "process_task infos k (table1, s1) = Inr (table2, s2)" "processed n keys (Suc k) table2 s2" by auto
  ultimately show ?case by (simp add: fold_res_append)
qed

text \<open>Taking a time step back to idle touches its tasks only.\<close>

lemma resetTimeStep_ok:
  assumes "st < length (time_step_to_tasks s)"
    and "\<forall>i \<in> set (time_step_to_tasks s ! st). i < length (proc_tasks s)"
  shows "\<exists>s'. resetTimeStep (int st) s = Inr s' \<and> length (proc_tasks s') = length (proc_tasks s) \<and>
    time_step_to_tasks s' = time_step_to_tasks s \<and>
    (\<forall>i < length (proc_tasks s). proc_tasks s' ! i =
       (if i \<in> set (time_step_to_tasks s ! st) then (proc_tasks s ! i)\<lparr>current_state := TS_IDLE\<rparr>
        else proc_tasks s ! i))"
proof -
  have "\<forall>i \<in> set ks. i < length (proc_tasks s) \<Longrightarrow>
    \<exists>s'. fold_res (\<lambda>task_index s. bind_res (raw_get (proc_tasks s) (int task_index)) (\<lambda>r.
        Inr (s\<lparr>proc_tasks := (proc_tasks s)[task_index := r\<lparr>current_state := TS_IDLE\<rparr>]\<rparr>))) ks s = Inr s' \<and>
      length (proc_tasks s') = length (proc_tasks s) \<and> time_step_to_tasks s' = time_step_to_tasks s \<and>
      (\<forall>i < length (proc_tasks s). proc_tasks s' ! i =
         (if i \<in> set ks then (proc_tasks s ! i)\<lparr>current_state := TS_IDLE\<rparr> else proc_tasks s ! i))" for ks s
  proof (induction ks arbitrary: s)
    case (Cons k ks)
    let ?s = "s\<lparr>proc_tasks := (proc_tasks s)[k := (proc_tasks s ! k)\<lparr>current_state := TS_IDLE\<rparr>]\<rparr>"
    from Cons.prems have "\<forall>i \<in> set ks. i < length (proc_tasks ?s)" by simp
    from Cons.IH [OF this] Cons.prems show ?case by (force simp: raw_get_int nth_list_update)
  qed simp
  from this [OF assms(2)] show ?thesis
    unfolding resetTimeStep_def raw_get_int [OF assms(1)] bind_res.simps .
qed

end
