(* ===== verification/StateProps.thy ===== *)
theory StateProps
  imports ProfileState
begin

text \<open>
  The properties of the measured state: nothing that is recorded is lost, the durations are those of
  the latest runs, and the tasks are assigned to their time steps.
\<close>

text \<open>C30: Whatever the order in which workers record the start and the end of tasks and the reader takes
  the records over, each record is in exactly one place and in order: what the reader took from a worker,
  in the order in which it took it, followed by what the worker still holds, is exactly what the worker
  recorded; and no call throws or reads out of bounds.\<close>

theorem profiler_loses_nothing:
  assumes "\<forall>c \<in> set calls. \<forall>k. call_worker c = Some k \<longrightarrow> k < workers"
  shows "\<exists>taken s'. fold_res do_call calls ([], state_init workers steps s) = Inr (taken, s') \<and>
    (\<forall>k < workers. concat (map (\<lambda>d. d ! k) taken) @ recorded s' k =
       concat (map call_event (filter (\<lambda>c. call_worker c = Some k) calls)))"
proof -
  have "worker_count (state_init workers steps s) = workers" by (simp add: state_init_def)
  with profile_calls [OF state_ready_init, of calls workers steps s "[]"] assms recorded_init [of _ workers steps s]
  show ?thesis by fastforce
qed

theorem profiler_loses_nothing_witness:
  "\<exists>taken s'. fold_res do_call [CallStart 4 1 10, CallGetData, CallStart 2 0 11, CallEnd 4 1 12, CallGetData, CallEnd 2 0 15]
      ([], state_init 2 3 TimeDomainState_new) = Inr (taken, s') \<and>
    (\<forall>k < 2. concat (map (\<lambda>d. d ! k) taken) @ recorded s' k =
       (if k = 0 then [start_of 2 11, end_of 2 15] else [start_of 4 10, end_of 4 12]))"
proof -
  let ?calls = "[CallStart 4 1 10, CallGetData, CallStart 2 0 11, CallEnd 4 1 12, CallGetData, CallEnd 2 0 15]"
  have "\<forall>c \<in> set ?calls. \<forall>k. call_worker c = Some k \<longrightarrow> k < 2" by simp
  from profiler_loses_nothing [OF this, of 3 TimeDomainState_new] show ?thesis
    by (fastforce simp: less_2_cases_iff)
qed

text \<open>The runs of a task, each recorded by its start and its end, are counted, and \<open>update\<close> yields the
  mean of the durations of the latest 30 of them, rounded down; a start while the task runs makes the
  measurement invalid, and it stays unchanged whatever is recorded afterwards.\<close>

theorem measured_durations:
  assumes "ps \<noteq> []" and "\<forall>(s, e) \<in> set ps. s \<le> e" and "sum_list (map (\<lambda>(s, e). e - s) (last_n 30 ps)) < 2 ^ 63"
  shows "let r = fold addMeasurement (runs_of i ps) ProfileTimeResult_init;
      u = profile_update r;
      stuck = fold addMeasurement ([start_of i t, start_of i t'] @ ds) r
    in current_event u = length ps \<and> current_state u = TS_FINISHED \<and>
      measurement_count u = min 30 (length ps) \<and>
      mean_duration u = sum_list (map (\<lambda>(s, e). e - s) (last_n 30 ps)) div int (min 30 (length ps)) \<and>
      current_state stuck = TS_INVALID \<and> measurements stuck = measurements r"
proof -
  let ?r = "fold addMeasurement (runs_of i ps) ProfileTimeResult_init"
  let ?sum = "sum_list (map (\<lambda>(s, e). e - s) (last_n 30 ps))"
  have r: "measurements ?r = fold cb_push_back (results_of 0 ps) (CircularBuffer_init 30 no_measurement)"
    "current_event ?r = length ps" "current_state ?r = TS_FINISHED"
    using addMeasurement_runs [of ProfileTimeResult_init i ps] assms(1)
    by (simp_all add: ProfileTimeResult_init_def Let_def)
  have count: "length (cb_iterate (measurements ?r)) = min 30 (length ps)"
    and sum: "duration_sum (cb_iterate (measurements ?r)) = ?sum"
    using held_runs [of 0 ps] by (simp_all add: r)
  have "0 \<le> ?sum"
    using assms(2) by (intro sum_list_nonneg) (fastforce simp: last_n_def dest: in_set_dropD)
  moreover have pos: "0 < min 30 (length ps)" using assms(1) by (cases ps) simp_all
  ultimately have "duration_div ?sum (min 30 (length ps)) = ?sum div int (min 30 (length ps))"
    using assms(3) duration_div_nonneg by blast
  moreover have "cb_iterate (measurements ?r) \<noteq> []" using count pos by (metis less_irrefl list.size(3))
  moreover have "measurements (fold addMeasurement ([start_of i t, start_of i t'] @ ds) ?r) = measurements ?r \<and>
      current_state (fold addMeasurement ([start_of i t, start_of i t'] @ ds) ?r) = TS_INVALID"
    using r(3) by (simp add: addMeasurement_def addMeasurement_stuck)
  ultimately show ?thesis using r count sum by (simp add: profile_update_def Let_def)
qed

theorem measured_durations_witness:
  "mean_duration (profile_update (fold addMeasurement (runs_of 7 [(0, 10), (20, 25)]) ProfileTimeResult_init)) = 7"
  using measured_durations [of "[(0, 10), (20, 25)]" 7 30 31 "[]"] by (simp add: Let_def last_n_def)

text \<open>C31: For tasks of the time steps of the state whose instances have names that are not empty and have
  no line feed, the processing reads the identifier of each, which \<open>getTaskId\<close> made, with its regular
  expression and assigns the task to the time step, the type and the instance the identifier was made from;
  the list of each time step has exactly its tasks, once and in order.\<close>

theorem processing_assigns_time_steps:
  assumes "task_info ds = map key_info keys" and "list_all (readable (ds_time_step_count ds)) keys"
  shows "\<exists>s. TimeDomainStateProcessing_init ds = Inr s \<and>
    map info_entry (proc_info s) = map key_entry keys \<and>
    (\<forall>st < ds_time_step_count ds.
       time_step_to_tasks s ! st = filter (\<lambda>i. key_step (keys ! i) = st) [0..<length keys])"
proof -
  let ?n = "ds_time_step_count ds"
  let ?s = "\<lparr>time_domain_state = ds, proc_info = [],
    proc_tasks = replicate (getTaskCount ds) ProfileTimeResult_init, time_step_tasks = [],
    last_update = 0, time_step_to_tasks = replicate ?n [], start_task_index = replicate ?n 0,
    end_task_index = replicate ?n 0, task_finished = replicate ?n (replicate (getTaskCount ds) TS_IDLE)\<rparr>"
  have "processed ?n keys 0 [] ?s" by (simp add: processed_def)
  from process_tasks [OF assms(2,1) this, of "length keys"] obtain table' s' where
    "fold_res (process_task (task_info ds)) [0..<length keys] ([], ?s) = Inr (table', s')"
    "processed ?n keys (length keys) table' s'" by auto
  then show ?thesis using assms(1)
    by (simp add: TimeDomainStateProcessing_init_def Let_def processed_def)
qed

definition demo_keys :: "task_key list" where
  "demo_keys = [(CONTROL_FLOW, 0, kTimeStepStart, []), (COMPONENT, 0, ''filter'', []),
     (CONTROL_FLOW, 1, kTimeStepStart, []), (COMPONENT, 1, ''filter'', [])]"

definition demo_state :: TimeDomainState where
  "demo_state = (state_init 2 2 TimeDomainState_new)\<lparr>task_info := map key_info demo_keys\<rparr>"

theorem processing_assigns_time_steps_witness:
  "\<exists>s. TimeDomainStateProcessing_init demo_state = Inr s \<and> time_step_to_tasks s ! 1 = [2, 3]"
proof -
  have "task_info demo_state = map key_info demo_keys" "ds_time_step_count demo_state = 2"
    by (simp_all add: demo_state_def state_init_def)
  moreover have "list_all (readable 2) demo_keys" by (simp add: demo_keys_def readable_def)
  moreover have "filter (\<lambda>i. key_step (demo_keys ! i) = 1) [0..<length demo_keys] = [2, 3]" by code_simp
  moreover have "(1::nat) < 2" by simp
  ultimately show ?thesis using processing_assigns_time_steps [of demo_state demo_keys] by metis
qed

text \<open>The record of a time step's start sets the tasks of that time step back to idle, whatever state
  they were in, starts the measurement of the start task itself and leaves the tasks of the other time steps
  alone.\<close>

theorem start_resets_its_time_step:
  assumes "first_index k (start_task_index s) = Some st" and "st < length (time_step_to_tasks s)"
    and "\<forall>i \<in> set (time_step_to_tasks s ! st). i < length (proc_tasks s)"
    and "k \<in> set (time_step_to_tasks s ! st)"
  shows "\<exists>s'. process_data (start_of k t) s = Inr s' \<and> current_state (proc_tasks s' ! k) = TS_STARTED \<and>
    (\<forall>i < length (proc_tasks s). i \<noteq> k \<longrightarrow> proc_tasks s' ! i =
       (if i \<in> set (time_step_to_tasks s ! st) then (proc_tasks s ! i)\<lparr>current_state := TS_IDLE\<rparr>
        else proc_tasks s ! i))"
proof -
  from resetTimeStep_ok [OF assms(2,3)] obtain s1 where s1: "resetTimeStep (int st) s = Inr s1"
    "length (proc_tasks s1) = length (proc_tasks s)"
    "\<forall>i < length (proc_tasks s). proc_tasks s1 ! i =
       (if i \<in> set (time_step_to_tasks s ! st) then (proc_tasks s ! i)\<lparr>current_state := TS_IDLE\<rparr>
        else proc_tasks s ! i)" by blast
  from assms(3,4) have k: "k < length (proc_tasks s)" by blast
  let ?s = "s1\<lparr>proc_tasks := (proc_tasks s1)[k := addMeasurement (start_of k t) (proc_tasks s1 ! k)]\<rparr>"
  have "process_data (start_of k t) s = Inr ?s"
    using s1(1,2) k assms(1) by (simp add: process_data_def isTimeStepStart_def raw_get_int)
  moreover have "current_state (addMeasurement (start_of k t) (proc_tasks s1 ! k)) = TS_STARTED"
    using s1(3) k assms(4) by (simp add: addMeasurement_def)
  ultimately show ?thesis using s1 k by (intro exI [of _ ?s]) simp
qed

definition demo_processing :: TimeDomainStateProcessing where
  "demo_processing = \<lparr>time_domain_state = demo_state, proc_info = [],
     proc_tasks = replicate 4 (ProfileTimeResult_init\<lparr>current_state := TS_INVALID\<rparr>), time_step_tasks = [],
     last_update = 0, time_step_to_tasks = [[0, 1], [2, 3]], start_task_index = [0, 2], end_task_index = [0, 0],
     task_finished = []\<rparr>"

theorem start_resets_its_time_step_witness:
  "\<exists>s'. process_data (start_of 2 50) demo_processing = Inr s' \<and>
    map (\<lambda>i. current_state (proc_tasks s' ! i)) [0, 1, 2, 3] = [TS_INVALID, TS_INVALID, TS_STARTED, TS_IDLE]"
  using start_resets_its_time_step [of 2 demo_processing 1 50]
  by (force simp: demo_processing_def numeral_nat)

end
