(* ===== verification/Lifecycle.thy ===== *)
theory Lifecycle
  imports SchedulerRequests
begin

text \<open>
  The scheduler as a queue of events, and what follows for \<open>start\<close> and \<open>stop\<close>: the events of the
  running time steps, the oldest first, and the waiting ones form one queue. Scheduling appends to it,
  the end of the oldest time step removes its head. The client's programs \<open>start_program\<close> and
  \<open>stop_program\<close> run to their end against a task flow that goes on ending time steps.
\<close>

section \<open>The flags of the client\<close>

definition flags :: "Scheduler \<Rightarrow> WaitForInit \<times> WaitForInit \<times> WaitForInit \<times> WaitForInit \<times> Semaphore \<times> bool" where
  "flags s = (configure_finished s, start_finished s, stop_finished s, teardown_finished s, taskflow_started s,
     stop_scheduled s)"

definition client_frame :: "Scheduler \<Rightarrow> Scheduler \<Rightarrow> bool" where
  "client_frame s s' \<longleftrightarrow> flags s' = flags s \<and> time_step_latest s' = time_step_latest s \<and>
     time_step_count s' = time_step_count s"

lemma client_frame_refl [simp]: "client_frame s s"
  by (simp add: client_frame_def)

lemma client_frame_trans: "client_frame a b \<Longrightarrow> client_frame b c \<Longrightarrow> client_frame a c"
  by (simp add: client_frame_def)

lemma sch_step_frame: "sch_step i f s = Inr s' \<Longrightarrow> client_frame s s'"
  by (auto simp: sch_step_def client_frame_def flags_def)

lemma set_source_input_frame: "set_source_input c i v s = Inr s' \<Longrightarrow> client_frame s s'"
  by (auto simp: set_source_input_def client_frame_def flags_def)

lemma commit_latest_frame: "commit_latest c s = Inr s' \<Longrightarrow> client_frame s s'"
  by (auto simp: commit_latest_def intro: client_frame_trans dest!: sch_step_frame set_source_input_frame)

lemma commits_frame: "fold_res commit_latest cs s = Inr s' \<Longrightarrow> client_frame s s'"
  by (erule fold_res_invariant [where P = "client_frame s"]) (auto intro: client_frame_trans dest: commit_latest_frame)

lemma takeTaskflow_frame: "takeTaskflow i ts s = Inr s' \<Longrightarrow> client_frame s s'"
proof -
  assume "takeTaskflow i ts s = Inr s'"
  then obtain rs ts' where f: "fold_res (\<lambda>source s. set_source_input (int source) (time_step_latest s) False s)
      [0..<sources s] (s\<lparr>running_taskflows := rs, running_timestamps := ts'\<rparr>) = Inr s'"
    by (auto simp: takeTaskflow_def)
  show ?thesis
    by (rule fold_res_invariant [OF f, where P = "client_frame s"])
      (auto simp: client_frame_def flags_def dest!: set_source_input_frame)
qed

lemma runTaskFlowFromQueue_frame:
  assumes "runTaskFlowFromQueue s = Inr s'"
  shows "flags s' = flags s \<and> time_step_count s' = time_step_count s \<and>
    time_step_latest s' = (time_step_latest s + 1) mod int (time_step_count s)"
proof -
  from assms obtain m q where q: "queued_messages s = m # q"
    by (auto simp: runTaskFlowFromQueue_def split: list.splits)
  let ?f = "\<lambda>t. Inr (if ev_event_type m = PARAMETER_CHANGE
    then setEventPattern (ev_timestamp m) (ev_event_type m) (ev_changed_pattern_instance_id m) t
    else setEvent (ev_timestamp m) (ev_event_type m) t)"
  from assms q obtain s1 s2 s3 s4 where s: "next_time_step (s\<lparr>queued_messages := q\<rparr>) = Inr s1"
    "assert_latest_free s1 = Inr s2" "takeTaskflow (time_step_latest s2) (ev_timestamp m) s2 = Inr s3"
    "sch_step (time_step_latest s3) ?f s3 = Inr s4"
    and s': "(if ev_event_type m = DATA then fold_res commit_latest (ev_invalid_sources m)
        (s4\<lparr>latest_running_ts := wft_notifyAll (ev_timestamp m) (latest_running_ts s4)\<rparr>)
      else fold_res commit_latest (map int [0..<sources s4]) s4) = Inr s'"
    by (simp add: runTaskFlowFromQueue_def) blast
  have s1: "flags s1 = flags s" "time_step_count s1 = time_step_count s"
    "time_step_latest s1 = (time_step_latest s + 1) mod int (time_step_count s)"
    using s(1) by (auto simp: next_time_step_def flags_def split: if_splits)
  have "s2 = s1" using s(2) by (auto simp: assert_latest_free_def split: if_splits)
  moreover have "client_frame s2 s3" "client_frame s3 s4"
    using takeTaskflow_frame [OF s(3)] sch_step_frame [OF s(4)] by simp_all
  moreover have "client_frame s4 (s4\<lparr>latest_running_ts := w\<rparr>)" for w by (simp add: client_frame_def flags_def)
  then have "client_frame s4 s'" using s' by (auto intro: client_frame_trans dest!: commits_frame split: if_splits)
  ultimately show ?thesis using s1 by (simp add: client_frame_def)
qed

lemma run_if_free_frame:
  assumes "run_if_free s = Inr s'"
  shows "flags s' = flags s \<and> time_step_count s' = time_step_count s"
proof -
  have "flags (s\<lparr>free_taskflows_semaphore := x\<rparr>) = flags s" for x by (simp add: flags_def)
  then show ?thesis using assms
    by (auto simp: run_if_free_def try_wait_free_def Let_def split: if_splits prod.splits dest!: runTaskFlowFromQueue_frame)
qed

lemma scheduleEvent_frame:
  assumes "scheduleEvent ev ts s = Inr s'"
  shows "flags s' = flags s \<and> time_step_count s' = time_step_count s"
  using run_if_free_frame [OF assms [unfolded scheduleEvent_def]] by (simp add: flags_def)

lemma scheduleNonDataEvent_frame:
  assumes "scheduleNonDataEvent ev s = Inr s'"
  shows "configure_finished s' = configure_finished s" "start_finished s' = start_finished s"
    "stop_finished s' = stop_finished s" "teardown_finished s' = teardown_finished s"
    "taskflow_started s' = taskflow_started s" "time_step_count s' = time_step_count s"
proof -
  from assms obtain s1 where s1: "scheduleEvent ev kTimestampZero s = Inr s1"
    and s': "s' = (if ev = STOP then s1\<lparr>stop_scheduled := True\<rparr> else s1)"
    by (auto simp: scheduleNonDataEvent_def)
  from scheduleEvent_frame [OF s1] s'
  show "configure_finished s' = configure_finished s" "start_finished s' = start_finished s"
    "stop_finished s' = stop_finished s" "teardown_finished s' = teardown_finished s"
    "taskflow_started s' = taskflow_started s" "time_step_count s' = time_step_count s"
    by (simp_all add: flags_def)
qed

lemma freeTimeStep_frame:
  assumes "freeTimeStep i s = Inr s'"
  shows "flags s' = flags s \<and> time_step_count s' = time_step_count s \<and>
    time_step_latest s' = (if queued_messages s = [] then time_step_latest s
      else (time_step_latest s + 1) mod int (time_step_count s))"
proof -
  from assms obtain s1 running where s1: "sch_step i (\<lambda>t. Inr (resetNewEvent t)) s = Inr s1"
    and s': "(let s2 = s1\<lparr>running_taskflows := running\<rparr>
       in if queued_messages s2 = [] then setTaskflowFree i s2 else runTaskFlowFromQueue s2) = Inr s'"
    by (simp add: freeTimeStep_def) blast
  have q: "queued_messages s1 = queued_messages s" using s1 by (auto simp: sch_step_def)
  from sch_step_frame [OF s1] have "flags s1 = flags s" "time_step_count s1 = time_step_count s"
    "time_step_latest s1 = time_step_latest s" by (simp_all add: client_frame_def)
  moreover have "flags (s1\<lparr>running_taskflows := running\<rparr>) = flags s1" by (simp add: flags_def)
  ultimately show ?thesis using s' q
    by (auto simp: Let_def setTaskflowFree_def flags_def split: if_splits dest!: runTaskFlowFromQueue_frame)
qed

section \<open>The queue of events\<close>

text \<open>The running time steps, the oldest first: the \<open>k\<close>-th of \<open>r\<close> with the latest at \<open>l\<close>.\<close>

definition running_slot :: "nat \<Rightarrow> int \<Rightarrow> nat \<Rightarrow> nat \<Rightarrow> nat" where
  "running_slot n l r k = nat ((l - (int r - 1 - int k)) mod int n)"

definition message_at :: "Scheduler \<Rightarrow> nat \<Rightarrow> EventType" where
  "message_at s i = current_message (time_step_buffer (time_domain_buffer s) ! i)"

definition events :: "Scheduler \<Rightarrow> EventType list" where
  "events s = map (\<lambda>k. message_at s (running_slot (slots s) (time_step_latest s) (busy s) k)) [0..<busy s] @
     map ev_event_type (queued_messages s)"

lemma running_slot_lt: "0 < n \<Longrightarrow> running_slot n l r k < n"
  by (simp add: running_slot_def nat_less_iff)

lemma running_slot_inj:
  assumes "k < r" and "j < r" and "r \<le> n" and "running_slot n l r k = running_slot n l r j"
  shows "k = j"
proof -
  from assms have "(l - (int r - 1 - int k)) mod int n = (l - (int r - 1 - int j)) mod int n"
    by (simp add: running_slot_def eq_nat_nat_iff)
  then have "((l - (int r - 1 - int k)) - (l - (int r - 1 - int j))) mod int n = 0"
    by (simp add: mod_eq_dvd_iff)
  then have "int n dvd (int k - int j)" by (simp add: dvd_eq_mod_eq_0)
  moreover have "\<bar>int k - int j\<bar> < int n" using assms(1-3) by linarith
  ultimately show ?thesis using dvd_imp_le_int [of "int k - int j" "int n"] by (cases "k = j") auto
qed

text \<open>A slot taken in front of the latest keeps the others; an oldest slot given up does too.\<close>

lemma running_slot_take: "running_slot n ((l + 1) mod int n) (Suc r) k = running_slot n l r k"
proof -
  have "((l + 1) mod int n - (int (Suc r) - 1 - int k)) mod int n = (l + 1 - (int (Suc r) - 1 - int k)) mod int n"
    by (rule mod_diff_left_eq)
  then show ?thesis by (simp add: running_slot_def algebra_simps)
qed

lemma running_slot_shift:
  "0 < r \<Longrightarrow> running_slot n l (r - 1) k = running_slot n l r (Suc k)"
  by (simp add: running_slot_def of_nat_diff algebra_simps)

lemma running_slot_next: "running_slot n ((l + 1) mod int n) r k = running_slot n l r (Suc k)"
proof -
  have "((l + 1) mod int n - (int r - 1 - int k)) mod int n = (l + 1 - (int r - 1 - int k)) mod int n"
    by (rule mod_diff_left_eq)
  then show ?thesis by (simp add: running_slot_def algebra_simps)
qed

lemma running_slot_latest: "0 \<le> l \<Longrightarrow> l < int n \<Longrightarrow> running_slot n l (Suc r) r = nat l"
  by (simp add: running_slot_def)

lemma oldest_running_slot:
  assumes "oldest_slot s i"
  shows "i = running_slot (slots s) (time_step_latest s) (busy s) 0"
proof -
  from assms have "(time_step_latest s - int i) mod int (slots s) = int (busy s) - 1" "i < slots s"
    by (simp_all add: oldest_slot_def)
  then have "int i = (time_step_latest s - (int (busy s) - 1)) mod int (slots s)"
    by (metis add_diff_cancel_left' diff_diff_eq2 mod_diff_right_eq mod_pos_pos_trivial of_nat_0_le_iff of_nat_less_iff
        diff_add_cancel minus_diff_eq)
  then show ?thesis by (simp add: running_slot_def)
qed

lemma sched_inv_busy_le: "sched_inv s \<Longrightarrow> busy s \<le> slots s \<and> 0 < slots s"
  by (auto simp: sched_inv_busy core_def shape_def)

lemma running_events_cong:
  assumes "\<And>k. k < r \<Longrightarrow> f k = g k"
  shows "map f [0..<r] = map g [0..<r]"
  using assms by simp

text \<open>Scheduling appends an event.\<close>

lemma schedule_events:
  assumes inv: "sched_inv s" and m: "message_ok (sources s) m"
    and run: "run_if_free (s\<lparr>queued_messages := queued_messages s @ [m]\<rparr>) = Inr s'"
  shows "events s' = events s @ [ev_event_type m]"
proof -
  let ?n = "slots s" and ?l = "time_step_latest s" and ?r = "busy s"
  from run_if_free_ok [OF inv m] run have inv': "sched_inv s'" and same: "same_setup s s'"
    and res: "if ?r < ?n
      then busy s' = Suc ?r \<and> queued_messages s' = [] \<and> time_step_latest s' = (?l + 1) mod int ?n \<and>
        message_at s' (nat (time_step_latest s')) = ev_event_type m \<and>
        (\<forall>j < ?n. int j \<noteq> time_step_latest s' \<longrightarrow> message_at s' j = message_at s j)
      else s' = s\<lparr>queued_messages := queued_messages s @ [m]\<rparr>"
    by (auto simp: message_at_def split: if_splits)
  show ?thesis
  proof (cases "?r < ?n")
    case False
    with res show ?thesis by (simp add: events_def message_at_def busy_def)
  next
    case True
    with res have s': "busy s' = Suc ?r" "queued_messages s' = []" "time_step_latest s' = (?l + 1) mod int ?n"
      "message_at s' (nat (time_step_latest s')) = ev_event_type m"
      "\<And>j. j < ?n \<Longrightarrow> int j \<noteq> time_step_latest s' \<Longrightarrow> message_at s' j = message_at s j" by auto
    have q: "queued_messages s = []" using inv True by (auto simp: sched_inv_busy)
    have n: "slots s' = ?n" using same by (simp add: same_setup_def)
    have l': "0 \<le> time_step_latest s'" "time_step_latest s' < int ?n" using True s'(3) by simp_all
    have slot: "running_slot ?n (time_step_latest s') (Suc ?r) k = running_slot ?n ?l ?r k" for k
      unfolding s'(3) by (rule running_slot_take)
    have last: "running_slot ?n (time_step_latest s') (Suc ?r) ?r = nat (time_step_latest s')"
      using running_slot_latest [OF l'] .
    have "message_at s' (running_slot ?n (time_step_latest s') (Suc ?r) k) = message_at s (running_slot ?n ?l ?r k)"
      if "k < ?r" for k
    proof -
      let ?i = "running_slot ?n (time_step_latest s') (Suc ?r) k"
      from running_slot_inj [of k "Suc ?r" ?r ?n "time_step_latest s'"] that True last
      have "?i \<noteq> nat (time_step_latest s')" by auto
      then have "int ?i \<noteq> time_step_latest s'" by auto
      with s'(5) [of ?i] running_slot_lt [of ?n] True show ?thesis by (simp add: slot)
    qed
    then have "map (\<lambda>k. message_at s' (running_slot ?n (time_step_latest s') (Suc ?r) k)) [0..<?r] =
        map (\<lambda>k. message_at s (running_slot ?n ?l ?r k)) [0..<?r]" by (intro running_events_cong) blast
    with s'(1,2,4) last n q show ?thesis by (simp add: events_def)
  qed
qed

lemma scheduleNonDataEvent_events:
  assumes "sched_inv s"
  shows "\<exists>s'. scheduleNonDataEvent ev s = Inr s' \<and> sched_inv s' \<and> events s' = events s @ [ev]"
proof -
  let ?m = "\<lparr>ev_timestamp = kTimestampZero, ev_event_type = ev, ev_invalid_sources = [], ev_changed_pattern_instance_id = []\<rparr>"
  from scheduleNonDataEvent_inv [OF assms] obtain s' where s': "scheduleNonDataEvent ev s = Inr s'" "sched_inv s'" by blast
  then obtain s1 where s1: "run_if_free (s\<lparr>queued_messages := queued_messages s @ [?m]\<rparr>) = Inr s1"
    "s' = (if ev = STOP then s1\<lparr>stop_scheduled := True\<rparr> else s1)"
    by (auto simp: scheduleNonDataEvent_def scheduleEvent_def)
  from schedule_events [OF assms message_ok_Nil s1(1)] have "events s1 = events s @ [ev]" by simp
  then have "events s' = events s @ [ev]" using s1(2) by (simp add: events_def message_at_def busy_def)
  with s' show ?thesis by blast
qed

lemma parameterChanged_events:
  assumes "sched_inv s"
  shows "\<exists>s'. parameterChanged p s = Inr s' \<and> sched_inv s' \<and> events s' = events s @ [PARAMETER_CHANGE] \<and>
    flags s' = flags s"
proof -
  let ?m = "\<lparr>ev_timestamp = kTimestampZero, ev_event_type = PARAMETER_CHANGE, ev_invalid_sources = [],
    ev_changed_pattern_instance_id = p\<rparr>"
  from run_if_free_ok [OF assms message_ok_Nil [of ?m]] obtain s' where
    s': "run_if_free (s\<lparr>queued_messages := queued_messages s @ [?m]\<rparr>) = Inr s'" "sched_inv s'" by auto
  moreover have "flags (s\<lparr>queued_messages := q\<rparr>) = flags s" for q by (simp add: flags_def)
  moreover have "events s' = events s @ [PARAMETER_CHANGE]" using schedule_events [OF assms message_ok_Nil s'(1)] by simp
  ultimately show ?thesis using run_if_free_frame [OF s'(1)]
    by (simp add: parameterChanged_def scheduleParameterChangedEvent_def)
qed

text \<open>The end of the oldest time step removes the head.\<close>

lemma timeStepEnded_events:
  assumes inv: "sched_inv s" and old: "oldest_slot s i"
  shows "\<exists>s1. timeStepEnded (int i) s = Inr (event_finished (ended_event s i) s1) \<and>
    sched_inv (event_finished (ended_event s i) s1) \<and> flags s1 = flags s \<and>
    events (event_finished (ended_event s i) s1) = tl (events s) \<and> events s \<noteq> [] \<and>
    ended_event s i = (if length (events s) \<le> slots s then hd (events s) else events s ! slots s) \<and>
    slots s1 = slots s"
proof -
  let ?n = "slots s" and ?l = "time_step_latest s" and ?r = "busy s"
  from freeTimeStep_inv [OF inv old, folded message_at_def] obtain s1 where free: "freeTimeStep (int i) s = Inr s1"
    and same: "same_setup s s1"
    and other: "\<forall>j < ?n. j \<noteq> i \<longrightarrow> message_at s1 j = message_at s j"
    and all: "case queued_messages s of
        [] \<Rightarrow> ?r = Suc (busy s1) \<and> queued_messages s1 = [] \<and>
          \<not> running_taskflows s1 ! i \<and> running_timestamps s1 ! i = kTimestampZero \<and> message_at s1 i = message_at s i
      | m # q \<Rightarrow> busy s1 = ?r \<and> queued_messages s1 = q \<and>
          running_taskflows s1 ! i \<and> running_timestamps s1 ! i = ev_timestamp m \<and> message_at s1 i = ev_event_type m" by blast
  from all have cs: "case queued_messages s of
        [] \<Rightarrow> ?r = Suc (busy s1) \<and> queued_messages s1 = [] \<and> message_at s1 i = message_at s i
      | m # q \<Rightarrow> busy s1 = ?r \<and> queued_messages s1 = q \<and> message_at s1 i = ev_event_type m"
    by (simp split: list.splits)
  from timeStepEnded_inv [OF inv old] free have ended: "timeStepEnded (int i) s = Inr (event_finished (ended_event s i) s1)"
    "sched_inv (event_finished (ended_event s i) s1)" by auto
  note frame = freeTimeStep_frame [OF free]
  have fin: "events (event_finished ev s1) = events s1" for ev
    by (simp add: events_def message_at_def event_finished_def busy_def split: EventType.splits)
  have i: "i = running_slot ?n ?l ?r 0" and r: "0 < ?r"
    using oldest_running_slot [OF old] old by (simp_all add: oldest_slot_def)
  have n: "slots s1 = ?n" "?r \<le> ?n" "0 < ?n"
    using same sched_inv_busy_le [OF inv] by (simp_all add: same_setup_def)
  have keep: "message_at s1 (running_slot ?n ?l ?r (Suc k)) = message_at s (running_slot ?n ?l ?r (Suc k))"
    if "Suc k < ?r" for k
  proof -
    have "running_slot ?n ?l ?r (Suc k) \<noteq> i"
      unfolding i using running_slot_inj [of "Suc k" ?r 0 ?n ?l] that n by auto
    with other running_slot_lt [OF n(3)] show ?thesis by blast
  qed
  have upt: "[0..<?r] = 0 # map Suc [0..<?r - 1]" using r by (simp add: upt_conv_Cons map_Suc_upt)
  have len: "length (events s) = ?r + length (queued_messages s)" by (simp add: events_def)
  have "events s1 = tl (events s) \<and>
      ended_event s i = (if length (events s) \<le> ?n then hd (events s) else events s ! ?n)"
  proof (cases "queued_messages s")
    case Nil
    with cs frame have s1: "busy s1 = ?r - 1" "queued_messages s1 = []" "time_step_latest s1 = ?l" by auto
    have "map (\<lambda>k. message_at s1 (running_slot ?n ?l (?r - 1) k)) [0..<?r - 1] =
        map (\<lambda>k. message_at s (running_slot ?n ?l ?r (Suc k))) [0..<?r - 1]"
    proof (rule running_events_cong)
      fix k
      assume "k < ?r - 1"
      then have "Suc k < ?r" by simp
      from keep [OF this] show "message_at s1 (running_slot ?n ?l (?r - 1) k) = message_at s (running_slot ?n ?l ?r (Suc k))"
        by (simp only: running_slot_shift [OF r])
    qed
    then show ?thesis using s1 Nil n len i by (simp add: events_def upt comp_def ended_event_def message_at_def)
  next
    case (Cons m q)
    then have full: "?r = ?n" using inv by (auto simp: sched_inv_busy)
    from Cons cs frame have s1: "busy s1 = ?r" "queued_messages s1 = q" "message_at s1 i = ev_event_type m"
      "time_step_latest s1 = (?l + 1) mod int ?n" by auto
    have slot: "running_slot ?n (time_step_latest s1) ?r k = running_slot ?n ?l ?r (Suc k)" for k
      unfolding s1(4) by (rule running_slot_next)
    have last: "running_slot ?n ?l ?r ?r = i"
      unfolding i running_slot_def using full n(3) by (simp add: mod_diff_right_eq [symmetric] algebra_simps)
    have up: "[0..<?r] = [0..<?r - 1] @ [?r - 1]" using r by (cases ?r) simp_all
    have "map (\<lambda>k. message_at s1 (running_slot ?n (time_step_latest s1) ?r k)) [0..<?r] =
        map (\<lambda>k. message_at s (running_slot ?n ?l ?r (Suc k))) [0..<?r - 1] @ [ev_event_type m]"
      unfolding up map_append slot using r s1(3) last by (auto intro!: running_events_cong simp: keep)
    moreover have "events s ! ?n = ev_event_type m" using Cons full by (simp add: events_def nth_append)
    moreover have "tl (map f [0..<?n]) = map (\<lambda>k. f (Suc k)) [0..<?n - 1]" for f :: "nat \<Rightarrow> EventType"
      using upt full by (simp add: comp_def)
    ultimately show ?thesis using s1 Cons n len full r by (simp add: events_def ended_event_def)
  qed
  moreover have "events s \<noteq> []" using len r by auto
  ultimately show ?thesis using ended frame fin n(1) by auto
qed

section \<open>The task flow ends its time steps\<close>

text \<open>The task flow runs the time steps in the order in which they were taken, so the oldest ends first.\<close>

definition end_oldest :: "Scheduler \<Rightarrow> Scheduler res" where
  "end_oldest s = timeStepEnded (int (running_slot (slots s) (time_step_latest s) (busy s) 0)) s"

definition control_types :: "EventType set" where
  "control_types = {CONFIGURE, START, STOP, TEARDOWN}"

lemma finished_flag_event_finished:
  "finished_flag ev (event_finished e s) \<longleftrightarrow> finished_flag ev s \<or> ev = e \<and> ev \<in> control_types"
  by (cases ev; cases e) (simp_all add: finished_flag_def event_finished_def wfi_SetInit_def control_types_def)

lemma finished_flag_cong: "flags s = flags s' \<Longrightarrow> finished_flag ev s = finished_flag ev s'"
  by (cases ev) (simp_all add: finished_flag_def flags_def)

lemma finished_flag_control: "finished_flag ev s \<Longrightarrow> ev \<in> control_types"
  by (cases ev) (simp_all add: finished_flag_def control_types_def)

lemma event_finished_started: "taskflow_started (event_finished e s) = taskflow_started s"
  "stop_scheduled (event_finished e s) = stop_scheduled s"
  by (simp_all add: event_finished_def split: EventType.splits)

lemma busy_events: "sched_inv s \<Longrightarrow> events s \<noteq> [] \<Longrightarrow> 0 < busy s"
  using sched_inv_busy_le [of s] by (auto simp: events_def sched_inv_busy)

lemma end_oldest_events:
  assumes inv: "sched_inv s" and ne: "events s \<noteq> []"
  defines "e \<equiv> (if length (events s) \<le> slots s then hd (events s) else events s ! slots s)"
  shows "\<exists>s'. end_oldest s = Inr s' \<and> sched_inv s' \<and> events s' = tl (events s) \<and> slots s' = slots s \<and>
    taskflow_started s' = taskflow_started s \<and> stop_scheduled s' = stop_scheduled s \<and>
    (\<forall>ev. finished_flag ev s' \<longleftrightarrow> finished_flag ev s \<or> ev = e \<and> ev \<in> control_types)"
proof -
  from oldest_exists [OF inv busy_events [OF inv ne]] obtain i where old: "oldest_slot s i" by blast
  from timeStepEnded_events [OF inv old] obtain s1 where s1':
    "timeStepEnded (int i) s = Inr (event_finished (ended_event s i) s1)"
    "sched_inv (event_finished (ended_event s i) s1)" "flags s1 = flags s"
    "events (event_finished (ended_event s i) s1) = tl (events s)" "slots s1 = slots s"
    and e: "ended_event s i = e" unfolding e_def by blast
  note s1 = s1' [unfolded e]
  have "end_oldest s = Inr (event_finished e s1)"
    using s1(1) by (simp add: end_oldest_def oldest_running_slot [OF old, symmetric])
  moreover have "finished_flag ev s1 = finished_flag ev s" for ev using s1(3) by (rule finished_flag_cong)
  moreover have "taskflow_started s1 = taskflow_started s" "stop_scheduled s1 = stop_scheduled s"
    using s1(3) by (simp_all add: flags_def)
  ultimately show ?thesis using s1(2,4,5)
    by (intro exI [of _ "event_finished e s1"]) (simp add: finished_flag_event_finished event_finished_started)
qed

lemma finished_in_events:
  assumes "sched_inv s" and "events s \<noteq> []"
  shows "\<exists>s'. end_oldest s = Inr s' \<and> sched_inv s' \<and> events s' = tl (events s) \<and> slots s' = slots s \<and>
    stop_scheduled s' = stop_scheduled s \<and> (\<forall>e. finished_flag e s \<longrightarrow> finished_flag e s') \<and>
    (\<forall>e. finished_flag e s' \<longrightarrow> finished_flag e s \<or> e \<in> set (events s))"
proof -
  let ?e = "if length (events s) \<le> slots s then hd (events s) else events s ! slots s"
  from assms(2) have "?e \<in> set (events s)" by simp
  moreover from end_oldest_events [OF assms] obtain s' where "end_oldest s = Inr s'" "sched_inv s'"
    "events s' = tl (events s)" "slots s' = slots s" "stop_scheduled s' = stop_scheduled s"
    "\<forall>ev. finished_flag ev s' \<longleftrightarrow> finished_flag ev s \<or> ev = ?e \<and> ev \<in> control_types" by blast
  ultimately show ?thesis by metis
qed

lemma reset_step:
  assumes inv: "sched_inv s" and i: "i < slots s"
  shows "\<exists>s'. sch_step (int i) (\<lambda>t. Inr (resetNewEvent t)) s = Inr s' \<and> sched_inv s' \<and> events s' = events s \<and>
    flags s' = flags s \<and> slots s' = slots s"
proof -
  let ?b = "time_domain_buffer s"
  let ?t = "resetNewEvent (time_step_buffer ?b ! i)"
  let ?B = "?b\<lparr>time_step_buffer := (time_step_buffer ?b)[i := ?t]\<rparr>"
  let ?s = "s\<lparr>time_domain_buffer := ?B\<rparr>"
  from inv have c: "core s (busy s)" and b: "buffers_ok (sources s) (slots s) ?b"
    by (auto simp: sched_inv_busy core_def shape_def)
  then have len: "i < length (time_step_buffer ?b)" using i by (simp add: buffers_ok_def)
  have lt: "length (source_buffer_list ?t) = sources s"
    using b i by (simp add: buffers_ok_def steps_okD resetNewEvent_def)
  have "committed ?B d j \<Longrightarrow> j < slots s \<Longrightarrow> d < sources s \<Longrightarrow> committed ?b d j" for d j
    using set_step_committed [OF b i, of j ?t d] lt by (auto simp: resetNewEvent_def split: if_splits)
  then have "core ?s (busy s)" using c set_step_ok [OF b i lt] by (auto simp: core_def shape_def locks_def window_def)
  then have "sched_inv ?s" using inv unfolding sched_inv_busy [of s] by (auto simp: sched_inv_def sem_free_def idle_times_def)
  moreover have "message_at ?s = message_at s"
    using len by (auto simp: message_at_def fun_eq_iff nth_list_update resetNewEvent_def)
  then have "events ?s = events s" by (simp add: events_def busy_def)
  ultimately show ?thesis using sch_step_total [OF len, of resetNewEvent]
    by (intro exI [of _ ?s]) (simp add: flags_def)
qed

lemma resetAllTimeSteps_ok:
  assumes inv: "sched_inv s"
  shows "\<exists>s'. resetAllTimeSteps s = Inr s' \<and> sched_inv s' \<and> events s' = events s \<and> flags s' = flags s \<and> slots s' = slots s"
proof -
  have "m \<le> slots s \<Longrightarrow> \<exists>s'. fold_res (\<lambda>i s. sch_step (int i) (\<lambda>t. Inr (resetNewEvent t)) s) [0..<m] s = Inr s' \<and>
      sched_inv s' \<and> events s' = events s \<and> flags s' = flags s \<and> slots s' = slots s" for m
  proof (induction m)
    case (Suc m)
    then obtain s1 where s1: "fold_res (\<lambda>i s. sch_step (int i) (\<lambda>t. Inr (resetNewEvent t)) s) [0..<m] s = Inr s1"
      "sched_inv s1" "events s1 = events s" "flags s1 = flags s" "slots s1 = slots s" by auto
    from reset_step [OF s1(2), of m] Suc.prems s1(5) obtain s2 where
      "sch_step (int m) (\<lambda>t. Inr (resetNewEvent t)) s1 = Inr s2" "sched_inv s2" "events s2 = events s1"
      "flags s2 = flags s1" "slots s2 = slots s1" by auto
    with s1 show ?case by (simp add: fold_res_append)
  qed (use inv in simp)
  from this [of "slots s"] show ?thesis by (simp add: resetAllTimeSteps_def)
qed

section \<open>Client and task flow together\<close>

text \<open>
  The client takes its next step whenever it can; while it waits, the task flow starts, or ends its
  oldest time step. The number bounds the steps.
\<close>

fun serve :: "nat \<Rightarrow> timestamp \<Rightarrow> control_action list \<times> Scheduler \<Rightarrow> (control_action list \<times> Scheduler) res" where
  "serve 0 now c = Inr c"
| "serve (Suc n) now ([], s) = Inr ([], s)"
| "serve (Suc n) now (a # as, s) =
     bind_res (control_step now (a # as, s)) (\<lambda>(as', s').
       if as' \<noteq> a # as then serve n now (as', s')
       else bind_res (if a = WaitTaskflowStarted then Inr (globalTaskFlowStart s')
                      else if busy s' = 0 then Inr s' else end_oldest s') (\<lambda>s''.
            serve n now (a # as, s'')))"

text \<open>A program that has come to its end stays there, so more steps do not change the result.\<close>

lemma serve_more: "serve n now c = Inr ([], s) \<Longrightarrow> n \<le> m \<Longrightarrow> serve m now c = Inr ([], s)"
proof (induction n arbitrary: c m)
  case 0
  then show ?case by (cases m) auto
next
  case (Suc n)
  from Suc.prems(2) obtain k where m: "m = Suc k" "n \<le> k" by (cases m) auto
  obtain as s0 where c: "c = (as, s0)" by (cases c)
  show ?case
  proof (cases as)
    case Nil
    with Suc.prems(1) c m show ?thesis by simp
  next
    case (Cons a bs)
    let ?e = "\<lambda>t. if a = WaitTaskflowStarted then Inr (globalTaskFlowStart t)
      else if busy t = 0 then Inr t else end_oldest t"
    from Suc.prems(1) c Cons obtain as1 s1 where 1: "control_step now (a # bs, s0) = Inr (as1, s1)"
      and r: "(if as1 \<noteq> a # bs then serve n now (as1, s1)
        else bind_res (?e s1) (\<lambda>s2. serve n now (a # bs, s2))) = Inr ([], s)"
      by (auto simp del: control_step.simps)
    have "(if as1 \<noteq> a # bs then serve k now (as1, s1)
        else bind_res (?e s1) (\<lambda>s2. serve k now (a # bs, s2))) = Inr ([], s)"
    proof (cases "as1 = a # bs")
      case False
      with r Suc.IH [OF _ m(2)] show ?thesis by (simp only: if_True if_False simp_thms)
    next
      case True
      with r obtain s2 where "?e s1 = Inr s2" "serve n now (a # bs, s2) = Inr ([], s)"
        by (cases "?e s1") (simp_all only: if_True if_False simp_thms bind_res.simps sum.distinct)
      with True Suc.IH [OF _ m(2)] show ?thesis by (simp only: if_True if_False simp_thms bind_res.simps)
    qed
    with c Cons m 1 show ?thesis by (simp only: serve.simps bind_res.simps prod.case)
  qed
qed

text \<open>\<open>reaches as s bs s'\<close>: the client with the program \<open>as\<close> comes to \<open>bs\<close>.\<close>

definition reaches :: "timestamp \<Rightarrow> control_action list \<Rightarrow> Scheduler \<Rightarrow> control_action list \<Rightarrow> Scheduler \<Rightarrow> bool" where
  "reaches now as s bs s' \<longleftrightarrow> (\<exists>n. \<forall>m. serve (n + m) now (as, s) = serve m now (bs, s'))"

lemma reaches_refl [simp]: "reaches now as s as s"
  unfolding reaches_def by (rule exI [of _ 0]) simp

lemma reaches_trans: "reaches now as s bs t \<Longrightarrow> reaches now bs t cs u \<Longrightarrow> reaches now as s cs u"
proof -
  assume "reaches now as s bs t" "reaches now bs t cs u"
  then obtain n k where "\<forall>m. serve (n + m) now (as, s) = serve m now (bs, t)"
    "\<forall>m. serve (k + m) now (bs, t) = serve m now (cs, u)" by (auto simp: reaches_def)
  then have "\<forall>m. serve ((n + k) + m) now (as, s) = serve m now (cs, u)" by (simp add: add.assoc)
  then show ?thesis unfolding reaches_def by blast
qed

lemma reaches_step:
  assumes "control_step now (a # as, s) = Inr (bs, s')" and "bs \<noteq> a # as"
  shows "reaches now (a # as) s bs s'"
proof -
  have "serve (1 + m) now (a # as, s) = serve m now (bs, s')" for m
    using assms by (simp del: control_step.simps)
  then show ?thesis unfolding reaches_def by blast
qed

lemma reaches_schedule:
  "scheduleNonDataEvent ev s = Inr s' \<Longrightarrow> reaches now (ScheduleAction ev # as) s as s'"
  by (rule reaches_step) simp_all

lemma reaches_wait_end:
  assumes "control_step now (AwaitAction ev # as, s) = Inr (AwaitAction ev # as, s)" and "0 < busy s"
    and "end_oldest s = Inr s'"
  shows "reaches now (AwaitAction ev # as) s (AwaitAction ev # as) s'"
proof -
  have "serve (1 + m) now (AwaitAction ev # as, s) = serve m now (AwaitAction ev # as, s')" for m
    using assms by (simp del: control_step.simps)
  then show ?thesis unfolding reaches_def by blast
qed

text \<open>
  A wait for the event that was scheduled last is over at the latest when all events before it have
  ended, whatever these are.
\<close>

lemma await_returns:
  assumes "sched_inv s" and "events s = xs @ [ev]" and "ev \<in> control_types"
  shows "\<exists>s' k. reaches now (AwaitAction ev # as) s as s' \<and> sched_inv s' \<and> finished_flag ev s' \<and>
    events s' = drop k (events s) \<and> slots s' = slots s \<and> stop_scheduled s' = stop_scheduled s \<and>
    (\<forall>e. finished_flag e s \<longrightarrow> finished_flag e s') \<and> (finished_flag ev s \<or> 0 < k) \<and>
    (\<forall>e. finished_flag e s' \<longrightarrow> finished_flag e s \<or> e \<in> set (events s))"
  using assms
proof (induction "length xs" arbitrary: xs s)
  case (0 s)
  show ?case
  proof (cases "finished_flag ev s")
    case True
    then have "reaches now (AwaitAction ev # as) s as s" by (intro reaches_step) simp_all
    with True 0 show ?thesis by (metis drop0)
  next
    case False
    have one: "events s = [ev]" using 0 by simp
    from end_oldest_events [OF 0(2)] one sched_inv_busy_le [OF 0(2)] 0(4) obtain s' where
      s': "end_oldest s = Inr s'" "sched_inv s'" "events s' = []" "slots s' = slots s" "finished_flag ev s'"
        "stop_scheduled s' = stop_scheduled s" "\<forall>e. finished_flag e s \<longrightarrow> finished_flag e s'"
        "\<forall>e. finished_flag e s' \<longrightarrow> finished_flag e s \<or> e \<in> set (events s)" by auto
    from reaches_wait_end [OF _ busy_events [OF 0(2)] s'(1), of now ev as] False one
    have "reaches now (AwaitAction ev # as) s (AwaitAction ev # as) s'" by simp
    moreover have "reaches now (AwaitAction ev # as) s' as s'" using s'(5) by (intro reaches_step) simp_all
    ultimately have "reaches now (AwaitAction ev # as) s as s'" by (rule reaches_trans)
    with s' one show ?thesis by (intro exI [of _ s'] exI [of _ 1]) simp
  qed
next
  case (Suc n xs s)
  show ?case
  proof (cases "finished_flag ev s")
    case True
    then have "reaches now (AwaitAction ev # as) s as s" by (intro reaches_step) simp_all
    with True Suc show ?thesis by (metis drop0)
  next
    case False
    from Suc.hyps(2) obtain x ys where xs: "xs = x # ys" by (cases xs) auto
    have "events s \<noteq> []" "tl (events s) = ys @ [ev]" using Suc.prems(2) xs by simp_all
    with finished_in_events [OF Suc.prems(1)] obtain s1 where
      s1: "end_oldest s = Inr s1" "sched_inv s1" "events s1 = ys @ [ev]" "slots s1 = slots s"
        "stop_scheduled s1 = stop_scheduled s" "\<forall>e. finished_flag e s \<longrightarrow> finished_flag e s1"
        and new: "\<forall>e. finished_flag e s1 \<longrightarrow> finished_flag e s \<or> e \<in> set (events s)"
      by metis
    from reaches_wait_end [OF _ busy_events [OF Suc.prems(1)] s1(1), of now ev as] False Suc.prems(2)
    have r: "reaches now (AwaitAction ev # as) s (AwaitAction ev # as) s1" by simp
    from Suc.hyps(1) [OF _ s1(2,3) Suc.prems(3)] Suc.hyps(2) xs obtain s' k where
      s': "reaches now (AwaitAction ev # as) s1 as s'" "sched_inv s'" "finished_flag ev s'"
        "events s' = drop k (events s1)" "slots s' = slots s1" "stop_scheduled s' = stop_scheduled s1"
        "\<forall>e. finished_flag e s1 \<longrightarrow> finished_flag e s'"
        "\<forall>e. finished_flag e s' \<longrightarrow> finished_flag e s1 \<or> e \<in> set (events s1)" by auto
    have "\<forall>e. finished_flag e s' \<longrightarrow> finished_flag e s \<or> e \<in> set (events s)"
      using s'(8) new s1(3) Suc.prems(2) xs by auto
    moreover have "events s' = drop (Suc k) (events s)" using s'(4) s1(3) Suc.prems(2) xs by simp
    ultimately show ?thesis using reaches_trans [OF r s'(1)] s' s1 by (intro exI [of _ s'] exI [of _ "Suc k"]) simp
  qed
qed

text \<open>A scheduled event is appended, and the client goes on to wait for it.\<close>

lemma schedule_await_returns:
  assumes "sched_inv s" and "ev \<in> control_types"
  shows "\<exists>s' k. reaches now (ScheduleAction ev # AwaitAction ev # as) s as s' \<and> sched_inv s' \<and> finished_flag ev s' \<and>
    events s' = drop k (events s @ [ev]) \<and> slots s' = slots s \<and> (ev = STOP \<or> stop_scheduled s \<longrightarrow> stop_scheduled s') \<and>
    (\<forall>e. finished_flag e s \<longrightarrow> finished_flag e s') \<and> (finished_flag ev s \<or> 0 < k) \<and>
    (\<forall>e. finished_flag e s' \<longrightarrow> finished_flag e s \<or> e = ev \<or> e \<in> set (events s))"
proof -
  from scheduleNonDataEvent_events [OF assms(1), of ev] obtain s1 where
    s1: "scheduleNonDataEvent ev s = Inr s1" "sched_inv s1" "events s1 = events s @ [ev]" by blast
  note frame = scheduleNonDataEvent_frame [OF s1(1)]
  have same: "finished_flag e s1 = finished_flag e s" for e
    using frame by (cases e) (simp_all add: finished_flag_def)
  have stop: "ev = STOP \<or> stop_scheduled s \<longrightarrow> stop_scheduled s1"
    using s1(1) by (auto simp: scheduleNonDataEvent_def flags_def dest: scheduleEvent_frame)
  from await_returns [OF s1(2,3) assms(2), of now as] obtain s' k where
    "reaches now (AwaitAction ev # as) s1 as s'" "sched_inv s'" "finished_flag ev s'" "events s' = drop k (events s1)"
    "slots s' = slots s1" "stop_scheduled s' = stop_scheduled s1" "\<forall>e. finished_flag e s1 \<longrightarrow> finished_flag e s'"
    "finished_flag ev s1 \<or> 0 < k" "\<forall>e. finished_flag e s' \<longrightarrow> finished_flag e s1 \<or> e \<in> set (events s @ [ev])"
    unfolding s1(3) by blast
  with reaches_trans [OF reaches_schedule [OF s1(1)]] s1(3) frame(6) same stop show ?thesis
    by (intro exI [of _ s'] exI [of _ k]) auto
qed

lemma schedule_all:
  assumes "sched_inv s"
  shows "\<exists>s'. reaches now (replicate n (ScheduleAction ev) @ as) s as s' \<and> sched_inv s' \<and>
    events s' = events s @ replicate n ev \<and> slots s' = slots s \<and> (stop_scheduled s \<longrightarrow> stop_scheduled s') \<and>
    (\<forall>e. finished_flag e s \<longrightarrow> finished_flag e s')"
  using assms
proof (induction n arbitrary: s)
  case 0
  then show ?case by (intro exI [of _ s]) simp
next
  case (Suc n)
  from scheduleNonDataEvent_events [OF Suc.prems, of ev] obtain s1 where
    s1: "scheduleNonDataEvent ev s = Inr s1" "sched_inv s1" "events s1 = events s @ [ev]" by blast
  note frame = scheduleNonDataEvent_frame [OF s1(1)]
  have same: "finished_flag e s1 = finished_flag e s" for e
    using frame by (cases e) (simp_all add: finished_flag_def)
  have stop: "stop_scheduled s \<longrightarrow> stop_scheduled s1"
    using s1(1) by (auto simp: scheduleNonDataEvent_def flags_def dest: scheduleEvent_frame)
  from Suc.IH [OF s1(2)] obtain s' where
    s': "reaches now (replicate n (ScheduleAction ev) @ as) s1 as s'" "sched_inv s'"
      "events s' = events s1 @ replicate n ev" "slots s' = slots s1" "stop_scheduled s1 \<longrightarrow> stop_scheduled s'"
      "\<forall>e. finished_flag e s1 \<longrightarrow> finished_flag e s'" by blast
  from reaches_trans [OF reaches_schedule [OF s1(1)] s'(1)]
  have "reaches now (replicate (Suc n) (ScheduleAction ev) @ as) s as s'" by simp
  with s' s1 same stop frame(6) show ?case by (intro exI [of _ s']) simp
qed

fun end_times :: "nat \<Rightarrow> Scheduler \<Rightarrow> Scheduler res" where
  "end_times 0 s = Inr s"
| "end_times (Suc k) s = bind_res (end_oldest s) (end_times k)"

lemma end_times_events:
  "sched_inv s \<Longrightarrow> k \<le> length (events s) \<Longrightarrow>
   \<exists>s'. end_times k s = Inr s' \<and> sched_inv s' \<and> events s' = drop k (events s) \<and> slots s' = slots s"
proof (induction k arbitrary: s)
  case (Suc k)
  then have "events s \<noteq> []" by auto
  from end_oldest_events [OF Suc.prems(1) this] obtain s1 where
    s1: "end_oldest s = Inr s1" "sched_inv s1" "events s1 = tl (events s)" "slots s1 = slots s" by blast
  have "k \<le> length (events s1)" using Suc.prems(2) s1(3) \<open>events s \<noteq> []\<close> by simp
  from Suc.IH [OF s1(2) this] obtain s' where
    "end_times k s1 = Inr s'" "sched_inv s'" "events s' = drop k (events s1)" "slots s' = slots s1" by blast
  with s1 show ?case by (simp add: drop_Suc)
qed simp

text \<open>As many events as time steps, all of one type: every time step has one of them.\<close>

lemma all_slots_hold:
  assumes inv: "sched_inv s" and ev: "events s = replicate (slots s) e" and i: "i < slots s"
  shows "running_taskflows s ! i \<and> message_at s i = e"
proof -
  let ?n = "slots s" and ?f = "running_slot (slots s) (time_step_latest s) (busy s)"
  have "length (events s) = busy s + length (queued_messages s)" by (simp add: events_def)
  then have busy: "busy s = ?n" and q: "queued_messages s = []"
    using ev inv sched_inv_busy_le [OF inv] by (auto simp: sched_inv_busy)
  have n: "0 < ?n" using i by simp
  have "inj_on ?f {..<?n}" using running_slot_inj [of _ "busy s" _ ?n] busy by (auto intro!: inj_onI)
  moreover have "?f ` {..<?n} \<subseteq> {..<?n}" using running_slot_lt [OF n] by auto
  ultimately have "?f ` {..<?n} = {..<?n}" by (intro endo_inj_surj) simp_all
  then have "i \<in> ?f ` {..<?n}" using i by simp
  then obtain k where k: "k < ?n" "?f k = i" by blast
  have "message_at s (?f k) = events s ! k" using k busy by (simp add: events_def nth_append)
  with ev k have "message_at s i = e" by simp
  moreover have "running_taskflows s ! i" using inv i n unfolding sched_inv_busy core_def window_def busy by simp
  ultimately show ?thesis by blast
qed

section \<open>Starting from a fresh scheduler\<close>

lemma sched_start_events:
  assumes "sched_start s"
  shows "sched_inv s" "events s = []" "\<not> finished_flag ev s"
    "taskflow_started s = Semaphore_init 1 0"
proof -
  show inv: "sched_inv s" using sched_start_ok [OF assms] by (simp add: sched_ok_def)
  from assms show "events s = []" "\<not> finished_flag ev s" "taskflow_started s = Semaphore_init 1 0"
    by (auto simp: sched_start_def Scheduler_init_def Let_def events_def busy_def Semaphore_init_def
        finished_flag_def WaitForInit_init_def split: EventType.splits)
qed

lemma reaches_started:
  assumes "taskflow_started s = Semaphore_init 1 0"
  shows "\<exists>s'. reaches now (WaitTaskflowStarted # as) s as s' \<and>
    (\<exists>sem. s' = s\<lparr>taskflow_started := sem\<rparr>)"
proof -
  let ?s = "globalTaskFlowStart s"
  let ?t = "s\<lparr>taskflow_started := snd (sem_try_now (taskflow_started ?s))\<rparr>"
  have "control_step now (WaitTaskflowStarted # as, s) = Inr (WaitTaskflowStarted # as, s)"
    using assms by (simp add: Semaphore_init_def)
  then have "serve (1 + m) now (WaitTaskflowStarted # as, s) = serve m now (WaitTaskflowStarted # as, ?s)" for m by simp
  then have "reaches now (WaitTaskflowStarted # as) s (WaitTaskflowStarted # as) ?s" unfolding reaches_def by blast
  moreover have "control_step now (WaitTaskflowStarted # as, ?s) = Inr (as, ?t)"
    using assms by (simp add: globalTaskFlowStart_def Semaphore_init_def sem_notify_def)
  then have "reaches now (WaitTaskflowStarted # as) ?s as ?t" by (intro reaches_step) simp_all
  ultimately show ?thesis using reaches_trans by blast
qed

section \<open>The programs of the client\<close>

lemma reaches_end: "reaches now as s [] s' \<Longrightarrow> \<exists>n. \<forall>m \<ge> n. serve m now (as, s) = Inr ([], s')"
proof -
  assume "reaches now as s [] s'"
  then obtain n where "serve (n + 0) now (as, s) = serve 0 now ([], s')" unfolding reaches_def by blast
  then have n: "serve n now (as, s) = Inr ([], s')" by (simp del: control_step.simps)
  show ?thesis using serve_more [OF n] by blast
qed

lemma reaches_reset:
  assumes "sched_inv s"
  shows "\<exists>s'. reaches now (ResetAllTimeSteps # as) s as s' \<and> sched_inv s' \<and> events s' = events s \<and>
    flags s' = flags s \<and> slots s' = slots s"
proof -
  from resetAllTimeSteps_ok [OF assms] obtain s' where
    s': "resetAllTimeSteps s = Inr s'" "sched_inv s'" "events s' = events s" "flags s' = flags s" "slots s' = slots s" by blast
  from s'(1) have "reaches now (ResetAllTimeSteps # as) s as s'" by (intro reaches_step) simp_all
  with s' show ?thesis by blast
qed

lemma reaches_run: "reaches now (RunTaskflow # as) s as s"
  by (rule reaches_step) simp_all

lemma start_serves:
  assumes "sched_start s"
  shows "\<exists>n s'. (\<forall>m \<ge> n. serve m now (start_program, s) = Inr ([], s')) \<and> sched_inv s' \<and> events s' = [] \<and>
    finished_flag CONFIGURE s' \<and> finished_flag START s'"
proof -
  let ?start = "[ScheduleAction START, AwaitAction START]"
  let ?rest = "ScheduleAction CONFIGURE # AwaitAction CONFIGURE # ?start"
  note s = sched_start_events [OF assms]
  from reaches_reset [OF s(1)] obtain s1 where
    s1: "reaches now start_program s (RunTaskflow # WaitTaskflowStarted # ?rest) s1" "sched_inv s1" "events s1 = []"
      "flags s1 = flags s" unfolding start_program_def s(2) by blast
  then have "taskflow_started s1 = Semaphore_init 1 0" using s(4) by (simp add: flags_def)
  from reaches_started [OF this] obtain sem s2 where
    s2: "reaches now (WaitTaskflowStarted # ?rest) s1 ?rest s2" and s2': "s2 = s1\<lparr>taskflow_started := sem\<rparr>" by blast
  have inv2: "sched_inv s2" "events s2 = []" using s1(2,3) unfolding s2'
    by (simp_all add: sched_inv_cong [of "s1\<lparr>taskflow_started := sem\<rparr>" s1] events_def message_at_def busy_def)
  have "finished_flag ev s2 = finished_flag ev s1" for ev by (cases ev) (simp_all add: s2' finished_flag_def)
  then have no: "\<not> finished_flag ev s2" for ev using s(3) finished_flag_cong [OF s1(4)] by simp
  from schedule_await_returns [OF inv2(1), of CONFIGURE now ?start] obtain s3 k where
    s3: "reaches now ?rest s2 ?start s3" "sched_inv s3" "finished_flag CONFIGURE s3" "events s3 = drop k [CONFIGURE]" "0 < k"
      "\<forall>e. finished_flag e s3 \<longrightarrow> finished_flag e s2 \<or> e = CONFIGURE"
    unfolding inv2(2) using no by (auto simp: control_types_def)
  then have e3: "events s3 = []" "\<not> finished_flag START s3" using s3(6) no by auto
  from schedule_await_returns [OF s3(2), of START now "[]"] obtain s4 k where
    s4: "reaches now ?start s3 [] s4" "sched_inv s4" "finished_flag START s4" "events s4 = drop k [START]"
      "finished_flag CONFIGURE s4" "finished_flag START s3 \<or> 0 < k"
    unfolding e3(1) using s3(3) by (auto simp: control_types_def)
  have "events s4 = []" using s4(4,6) e3(2) by (cases k) auto
  moreover have run: "reaches now start_program s [] s4"
    using reaches_trans [OF s1(1)] reaches_trans [OF reaches_run] reaches_trans [OF s2] reaches_trans [OF s3(1) s4(1)] by blast
  moreover from reaches_end [OF run] obtain n where "\<forall>m \<ge> n. serve m now (start_program, s) = Inr ([], s4)" by blast
  ultimately show ?thesis using s4(2,3,5) by blast
qed

lemma stop_serves:
  assumes "sched_inv s"
  shows "\<exists>n s' xs. (\<forall>m \<ge> n. serve m now (stop_program (slots s) False, s) = Inr ([], s')) \<and> sched_inv s' \<and>
    stop_scheduled s' \<and> finished_flag STOP s' \<and> finished_flag TEARDOWN s' \<and>
    events s' = xs @ replicate (slots s) DATAFLOW_STOP \<and>
    (\<exists>t. end_times (length xs) s' = Inr t \<and>
      (\<forall>i < slots s. running_taskflows t ! i \<and> message_at t i = DATAFLOW_STOP))"
proof -
  let ?n = "slots s"
  let ?stops = "replicate ?n (ScheduleAction DATAFLOW_STOP)"
  let ?teardown = "ScheduleAction TEARDOWN # AwaitAction TEARDOWN # ?stops"
  have p: "stop_program ?n False = ScheduleAction STOP # AwaitAction STOP # ?teardown" by (simp add: stop_program_def)
  from schedule_await_returns [OF assms, of STOP now ?teardown] obtain s1 where
    s1: "reaches now (stop_program ?n False) s ?teardown s1" "sched_inv s1" "finished_flag STOP s1" "slots s1 = ?n"
      "stop_scheduled s1" unfolding p by (auto simp: control_types_def)
  from schedule_await_returns [OF s1(2), of TEARDOWN now ?stops] s1(3,5) obtain s2 where
    s2: "reaches now ?teardown s1 ?stops s2" "sched_inv s2" "finished_flag TEARDOWN s2" "slots s2 = slots s1"
      "stop_scheduled s2" "finished_flag STOP s2" by (auto simp: control_types_def)
  from schedule_all [OF s2(2), of now ?n DATAFLOW_STOP "[]"] s2 s1(4) obtain s' where
    s': "reaches now ?stops s2 [] s'" "sched_inv s'" "events s' = events s2 @ replicate ?n DATAFLOW_STOP" "slots s' = ?n"
      "stop_scheduled s'" "finished_flag STOP s'" "finished_flag TEARDOWN s'" by auto
  from reaches_trans [OF s1(1) reaches_trans [OF s2(1) s'(1)]] obtain n where
    n: "\<forall>m \<ge> n. serve m now (stop_program ?n False, s) = Inr ([], s')" using reaches_end by blast
  have "length (events s2) \<le> length (events s')" using s'(3) by simp
  from end_times_events [OF s'(2) this] obtain t where
    t: "end_times (length (events s2)) s' = Inr t" "sched_inv t" "events t = drop (length (events s2)) (events s')"
      "slots t = slots s'" by blast
  then have "events t = replicate (slots t) DATAFLOW_STOP" using s'(3,4) by simp
  from all_slots_hold [OF t(2) this] t(1,4) s'(4)
  have "\<exists>t. end_times (length (events s2)) s' = Inr t \<and>
      (\<forall>i < ?n. running_taskflows t ! i \<and> message_at t i = DATAFLOW_STOP)" by auto
  with n s' show ?thesis by blast
qed

end
