(* ===== verification/LifecycleProps.thy ===== *)
theory LifecycleProps
  imports Lifecycle SchedulerProps
begin

text \<open>
  The scheduler as a first-in first-out queue of events, and what \<open>start\<close> and \<open>stop\<close> guarantee for it.
\<close>

lemma demo_sched_inv: "sched_inv (demo mode)"
  using demo_ok by (simp add: sched_ok_def)

lemma demo_sched_slots: "slots (demo mode) = 2"
  by (simp add: demo_eq)

section \<open>A queue of events\<close>

text \<open>C5: Seen from outside, the scheduler is one first-in first-out queue of events, the events of the
  running time steps at its head: an event without data and a change of parameters are appended
  to it, whether they get a time step at once or wait, and the end of the oldest running time step removes
  the head. None of the three fails, so no event is lost, doubled or overtaken by a later one.\<close>

theorem scheduler_is_fifo:
  assumes "sched_inv s"
  shows "(\<exists>s'. scheduleNonDataEvent ev s = Inr s' \<and> sched_inv s' \<and> events s' = events s @ [ev]) \<and>
    (\<exists>s'. parameterChanged p s = Inr s' \<and> sched_inv s' \<and> events s' = events s @ [PARAMETER_CHANGE]) \<and>
    (oldest_slot s i \<longrightarrow> events s \<noteq> [] \<and>
      (\<exists>s'. timeStepEnded (int i) s = Inr s' \<and> sched_inv s' \<and> events s' = tl (events s)))"
proof -
  have "events s \<noteq> [] \<and> (\<exists>s'. timeStepEnded (int i) s = Inr s' \<and> sched_inv s' \<and> events s' = tl (events s))"
    if "oldest_slot s i" using timeStepEnded_events [OF assms that] by blast
  moreover have "\<exists>s'. parameterChanged p s = Inr s' \<and> sched_inv s' \<and> events s' = events s @ [PARAMETER_CHANGE]"
    using parameterChanged_events [OF assms, of p] by blast
  ultimately show ?thesis using scheduleNonDataEvent_events [OF assms, of ev] by blast
qed

text \<open>Three events on the ring of two time steps, then the first ends.\<close>

definition demo_three :: Scheduler where
  "demo_three = (case bind_res (scheduleNonDataEvent CONFIGURE (demo WAIT_FOR_BUFFER)) (\<lambda>s.
     bind_res (parameterChanged ''p'' s) (parameterChanged ''q'')) of Inr s \<Rightarrow> s)"

lemma demo_three: "sched_inv demo_three" "events demo_three = [CONFIGURE, PARAMETER_CHANGE, PARAMETER_CHANGE]"
  "slots demo_three = 2" "\<not> finished_flag CONFIGURE demo_three" "oldest_slot demo_three 0"
proof -
  have e: "events (demo WAIT_FOR_BUFFER) = []" using sched_start_events [OF demo_start] by blast
  from scheduleNonDataEvent_events [OF demo_sched_inv, of CONFIGURE WAIT_FOR_BUFFER] e obtain s1 where
    s1: "scheduleNonDataEvent CONFIGURE (demo WAIT_FOR_BUFFER) = Inr s1" "sched_inv s1" "events s1 = [CONFIGURE]" by auto
  from parameterChanged_events [OF s1(2), of "''p''"] s1(3) obtain s2 where
    s2: "parameterChanged ''p'' s1 = Inr s2" "sched_inv s2" "events s2 = [CONFIGURE, PARAMETER_CHANGE]" by auto
  from parameterChanged_events [OF s2(2), of "''q''"] s2(3) obtain s3 where
    s3: "parameterChanged ''q'' s2 = Inr s3" "sched_inv s3" "events s3 = [CONFIGURE, PARAMETER_CHANGE, PARAMETER_CHANGE]" by auto
  have d: "demo_three = s3" using s1(1) s2(1) s3(1) by (simp add: demo_three_def)
  show "sched_inv demo_three" "events demo_three = [CONFIGURE, PARAMETER_CHANGE, PARAMETER_CHANGE]" using s3 d by simp_all
  have x: "time_step_latest demo_three = 1 \<and> running_taskflows demo_three = [True, True] \<and> time_step_count demo_three = 2 \<and>
      sem_count (free_taskflows_semaphore demo_three) = 0 \<and>
      \<not> wfi_is_init (configure_finished demo_three)"
    unfolding demo_three_def demo_eq by code_simp
  then show "slots demo_three = 2" "\<not> finished_flag CONFIGURE demo_three" "oldest_slot demo_three 0"
    by (simp_all add: finished_flag_def oldest_slot_def busy_def)
qed

theorem scheduler_is_fifo_witness:
  "\<exists>s'. timeStepEnded 0 demo_three = Inr s' \<and> sched_inv s' \<and> events s' = [PARAMETER_CHANGE, PARAMETER_CHANGE]"
  using scheduler_is_fifo [OF demo_three(1), of START "''p''" 0] demo_three(2,5) by simp

section \<open>Starting and stopping\<close>

text \<open>Starting a newly constructed scheduler returns, against a task flow that starts and goes on ending
  its oldest time step while the caller waits: the events CONFIGURE and START have then been processed,
  no event is left in the scheduler, and its invariant holds.\<close>

theorem start_returns:
  assumes "sched_start s"
  shows "\<exists>n s'. (\<forall>m \<ge> n. serve m now (start_program, s) = Inr ([], s')) \<and> sched_inv s' \<and> events s' = [] \<and>
    finished_flag CONFIGURE s' \<and> finished_flag START s'"
  using start_serves [OF assms] .

theorem start_returns_witness:
  "\<exists>n s'. serve n 0 (start_program, demo WAIT_FOR_BUFFER) = Inr ([], s') \<and> events s' = [] \<and>
    finished_flag CONFIGURE s' \<and> finished_flag START s'"
  using start_returns [OF demo_start [of WAIT_FOR_BUFFER], of 0] by blast



section \<open>An event lost\<close>

text \<open>
  What may happen while a client waits for the event \<open>ev\<close>: the task flow ends its oldest time step, other
  threads schedule other events or change parameters.
\<close>

inductive other_step :: "EventType \<Rightarrow> Scheduler \<Rightarrow> Scheduler \<Rightarrow> bool" for ev where
  other_end: "events s \<noteq> [] \<Longrightarrow> end_oldest s = Inr s' \<Longrightarrow> other_step ev s s'"
| other_event: "e \<noteq> ev \<Longrightarrow> scheduleNonDataEvent e s = Inr s' \<Longrightarrow> other_step ev s s'"
| other_parameter: "ev \<noteq> PARAMETER_CHANGE \<Longrightarrow> parameterChanged p s = Inr s' \<Longrightarrow> other_step ev s s'"

definition lost :: "EventType \<Rightarrow> Scheduler \<Rightarrow> bool" where
  "lost ev s \<longleftrightarrow> sched_inv s \<and> \<not> finished_flag ev s \<and> ev \<notin> set (events s)"

lemma lost_step: "lost ev s \<Longrightarrow> other_step ev s t \<Longrightarrow> lost ev t"
proof (erule other_step.cases)
  fix s1 s'
  assume l: "lost ev s" and s: "s = s1" "t = s'" and e: "events s1 \<noteq> []" "end_oldest s1 = Inr s'"
  from finished_in_events [of s1] l e s have "sched_inv t" "events t = tl (events s)"
    "\<forall>e. finished_flag e t \<longrightarrow> finished_flag e s \<or> e \<in> set (events s)" by (auto simp: lost_def)
  moreover have "set (tl (events s)) \<subseteq> set (events s)" by (cases "events s") auto
  ultimately show ?thesis using l by (auto simp: lost_def)
next
  fix e s1 s'
  assume l: "lost ev s" and s: "s = s1" "t = s'" and e: "e \<noteq> ev" "scheduleNonDataEvent e s1 = Inr s'"
  from scheduleNonDataEvent_events [of s1 e] l e s have "sched_inv t" "events t = events s @ [e]" by (auto simp: lost_def)
  moreover have "finished_flag ev t = finished_flag ev s"
    using scheduleNonDataEvent_frame [OF e(2)] s by (cases ev) (simp_all add: finished_flag_def)
  ultimately show ?thesis using l e(1) by (simp add: lost_def)
next
  fix p s1 s'
  assume l: "lost ev s" and s: "s = s1" "t = s'" and e: "ev \<noteq> PARAMETER_CHANGE" "parameterChanged p s1 = Inr s'"
  from parameterChanged_events [of s1 p] l e s have "sched_inv t" "events t = events s @ [PARAMETER_CHANGE]" "flags t = flags s"
    by (auto simp: lost_def)
  then show ?thesis using l e(1) finished_flag_cong [of t s ev] by (simp add: lost_def)
qed

interpretation lost: step_system "lost ev" "other_step ev" "lost ev" for ev
  by unfold_locales (auto intro: lost_step)

text \<open>C33: An event can be lost. The flag that is set when a time step ends is chosen by the event type the time
  step has after it was reused: when the oldest time step holds CONFIGURE and more events wait than there are
  time steps, no flag is set for CONFIGURE, and its waiting client is blocked for ever, whatever
  else the task flow and other threads do.\<close>

theorem lost_event_blocks:
  assumes "sched_inv s" and "events s = ev # es" and "slots s \<le> length es" and "ev \<notin> set es" and "\<not> finished_flag ev s"
  shows "\<exists>s1. end_oldest s = Inr s1 \<and> events s1 = es \<and>
    (\<forall>t. run (other_step ev) s1 t \<longrightarrow>
      control_step now (AwaitAction ev # as, t) = Inr (AwaitAction ev # as, t))"
proof -
  have "0 < slots s" using sched_inv_busy_le [OF assms(1)] by simp
  then have "events s ! slots s \<in> set es" using assms(2,3) by (cases "slots s") simp_all
  then have other: "events s ! slots s \<noteq> ev" using assms(4) by auto
  have "events s \<noteq> []" using assms(2) by simp
  from end_oldest_events [OF assms(1) this] obtain s1 where s1: "end_oldest s = Inr s1" "sched_inv s1" "events s1 = es"
    "\<not> finished_flag ev s1" using assms(2,3,5) other by auto
  then have "lost ev s1" using assms(4) by (simp add: lost_def)
  then have "\<not> finished_flag ev t" if "run (other_step ev) s1 t" for t
    using lost.reach_inv [OF _ that] by (simp add: lost_def)
  with s1 show ?thesis by (intro exI [of _ s1]) simp
qed

theorem lost_event_blocks_witness:
  "\<exists>s1. end_oldest demo_three = Inr s1 \<and>
    (\<forall>t. run (other_step CONFIGURE) s1 t \<longrightarrow>
      control_step 0 ([AwaitAction CONFIGURE], t) = Inr ([AwaitAction CONFIGURE], t))"
proof -
  have "slots demo_three \<le> length [PARAMETER_CHANGE, PARAMETER_CHANGE]" using demo_three(3) by simp
  from lost_event_blocks [OF demo_three(1,2) this _ demo_three(4), of 0 "[]"] show ?thesis
    by (simp del: control_step.simps) blast
qed

end
