(* ===== verification/Player.thy ===== *)
theory Player
  imports Components
begin

text \<open>
  The player (\<open>src/traact/component/PlayerBaseComponent.cpp\<close>): one module shared by all components that
  replay recorded data. Its thread sends the recorded values of all of them in the order of their
  timestamps, moved to the present.

  The four methods of a player component belong to a plugin and are a record of functions on the plugins'
  state. A reading of the clock is the value of a function of the number of readings before it. The queue
  is the list of its events with the earliest first; of two events with equal timestamps, which
  \<open>std::priority_queue\<close> may return in either order, the list has the one that was put in first in front.
\<close>

section \<open>The module\<close>

record 'u player_code =
  pc_getFirstTimestamp :: "component_ptr \<Rightarrow> 'u \<Rightarrow> timestamp \<times> 'u"
  pc_hasNext :: "component_ptr \<Rightarrow> 'u \<Rightarrow> bool \<times> 'u"
  pc_getNextTimestamp :: "component_ptr \<Rightarrow> 'u \<Rightarrow> timestamp \<times> 'u"
  pc_sendCurrent :: "component_ptr \<Rightarrow> timestamp \<Rightarrow> 'u \<Rightarrow> 'u"

record player_event =
  time_at_next_event :: timestamp
  pe_ts :: timestamp
  pe_component :: component_ptr

record PlayerBaseModule =
  pm_outputs :: "component_ptr list"
  pm_initialized :: bool
  pm_running :: bool
  pm_thread :: bool  \<comment> \<open>a thread was started\<close>

definition PlayerBaseModule_new :: PlayerBaseModule where
  "PlayerBaseModule_new = \<lparr>pm_outputs = [], pm_initialized = False, pm_running = False, pm_thread = False\<rparr>"

text \<open>\<open>is_player\<close> is the result of the \<open>dynamic_cast\<close> to \<open>PlayerBaseComponent\<close>.\<close>

definition player_init :: "(component_ptr \<Rightarrow> bool) \<Rightarrow> component_ptr \<Rightarrow> PlayerBaseModule \<Rightarrow> bool \<times> PlayerBaseModule" where
  "player_init is_player c m =
     (if \<not> is_player c then (False, m)
      else (True, m\<lparr>pm_outputs := pm_outputs m @ [c], pm_initialized := True\<rparr>))"

definition player_start :: "PlayerBaseModule \<Rightarrow> bool \<times> PlayerBaseModule" where
  "player_start m = (if pm_running m then (True, m) else (True, m\<lparr>pm_running := True, pm_thread := True\<rparr>))"

definition player_stop :: "PlayerBaseModule \<Rightarrow> bool \<times> PlayerBaseModule" where
  "player_stop m = (True, m)"

definition player_teardown :: "PlayerBaseModule \<Rightarrow> bool \<times> PlayerBaseModule" where
  "player_teardown m = (True, m)"

section \<open>The thread\<close>

fun player_push :: "player_event \<Rightarrow> player_event list \<Rightarrow> player_event list" where
  "player_push e [] = [e]"
| "player_push e (x # xs) = (if pe_ts e < pe_ts x then e # x # xs else x # player_push e xs)"

definition timestamp_max :: timestamp where
  "timestamp_max = 2 ^ 63 - 1"

definition first_timestamp :: "'u player_code \<Rightarrow> component_ptr list \<Rightarrow> 'u \<Rightarrow> timestamp \<times> 'u" where
  "first_timestamp code outputs u =
     fold (\<lambda>c (m, u). let (t, u') = pc_getFirstTimestamp code c u in (min t m, u')) outputs (timestamp_max, u)"

definition player_events ::
    "'u player_code \<Rightarrow> component_ptr list \<Rightarrow> timestamp \<Rightarrow> timestamp \<Rightarrow> 'u \<Rightarrow> player_event list \<times> 'u" where
  "player_events code outputs start_ts first u =
     fold (\<lambda>c (events, u).
       let (next_ts, u') = pc_getNextTimestamp code c u
       in (player_push \<lparr>time_at_next_event = start_ts + (next_ts - first), pe_ts = next_ts, pe_component = c\<rparr> events, u'))
       outputs ([], u)"

definition sendAndNext :: "'u player_code \<Rightarrow> player_event \<Rightarrow> 'u \<Rightarrow> bool \<times> player_event \<times> 'u" where
  "sendAndNext code e u =
     (let c = pe_component e;
          (has_next, u1) = pc_hasNext code c (pc_sendCurrent code c (time_at_next_event e) u)
      in if \<not> has_next then (False, e, u1)
         else let (next_ts, u2) = pc_getNextTimestamp code c u1
              in (True, e\<lparr>time_at_next_event := time_at_next_event e + (next_ts - pe_ts e), pe_ts := next_ts\<rparr>, u2))"

text \<open>Waiting until a time is less than 100 microseconds away: \<open>k\<close> counts the readings of the clock.\<close>

partial_function (option) player_wait :: "(nat \<Rightarrow> timestamp) \<Rightarrow> timestamp \<Rightarrow> nat \<Rightarrow> nat option" where
  "player_wait clock t k = (if clock k + 100000 < t then player_wait clock t (Suc k) else Some (Suc k))"

partial_function (option) player_loop ::
    "'u player_code \<Rightarrow> (nat \<Rightarrow> timestamp) \<Rightarrow> bool \<Rightarrow> player_event list \<Rightarrow> nat \<Rightarrow> 'u \<Rightarrow> 'u option" where
  "player_loop code clock running events k u =
     (if \<not> running then Some u
      else case events of
          [] \<Rightarrow> Some u
        | next_event # rest \<Rightarrow>
            Option.bind (player_wait clock (time_at_next_event next_event) k) (\<lambda>k'.
              player_loop code clock running
                (case sendAndNext code next_event u of (again, e, u') \<Rightarrow> if again then player_push e rest else rest) k'
                (snd (snd (sendAndNext code next_event u)))))"

definition threadLoop :: "'u player_code \<Rightarrow> (nat \<Rightarrow> timestamp) \<Rightarrow> PlayerBaseModule \<Rightarrow> 'u \<Rightarrow> (PlayerBaseModule \<times> 'u) option" where
  "threadLoop code clock m u =
     (let (first, u1) = first_timestamp code (pm_outputs m) u;
          start_ts = clock 0 + 1000000000;
          (events, u2) = player_events code (pm_outputs m) start_ts first u1
      in Option.bind (player_loop code clock (pm_running m) events 1 u2) (\<lambda>u3.
         Some (m\<lparr>pm_running := False\<rparr>, u3)))"

section \<open>Merging the recordings\<close>

text \<open>
  What a player component promises: \<open>rec u c\<close> are the timestamps of component \<open>c\<close> that are left and
  \<open>sent u\<close> what all components have sent.
\<close>

definition plays ::
    "'u player_code \<Rightarrow> ('u \<Rightarrow> component_ptr \<Rightarrow> timestamp list) \<Rightarrow> ('u \<Rightarrow> (component_ptr \<times> timestamp) list) \<Rightarrow> bool" where
  "plays code rec sent \<longleftrightarrow> (\<forall>u c.
     (rec u c \<noteq> [] \<longrightarrow> fst (pc_getFirstTimestamp code c u) = hd (rec u c)) \<and>
     rec (snd (pc_getFirstTimestamp code c u)) = rec u \<and> sent (snd (pc_getFirstTimestamp code c u)) = sent u \<and>
     fst (pc_hasNext code c u) = (rec u c \<noteq> []) \<and>
     rec (snd (pc_hasNext code c u)) = rec u \<and> sent (snd (pc_hasNext code c u)) = sent u \<and>
     (rec u c \<noteq> [] \<longrightarrow> fst (pc_getNextTimestamp code c u) = hd (rec u c) \<and>
        rec (snd (pc_getNextTimestamp code c u)) = (rec u)(c := tl (rec u c))) \<and>
     sent (snd (pc_getNextTimestamp code c u)) = sent u \<and>
     (\<forall>t. rec (pc_sendCurrent code c t u) = rec u \<and> sent (pc_sendCurrent code c t u) = sent u @ [(c, t)]))"

lemma set_player_push [simp]: "set (player_push e es) = insert e (set es)"
  by (induction e es rule: player_push.induct) auto

lemma sorted_player_push [simp]: "sorted (map pe_ts es) \<Longrightarrow> sorted (map pe_ts (player_push e es))"
  by (induction e es rule: player_push.induct) (auto simp: not_less)

lemma distinct_player_push [simp]:
  "distinct (map pe_component (player_push e es)) \<longleftrightarrow>
     pe_component e \<notin> pe_component ` set es \<and> distinct (map pe_component es)"
  by (induction e es rule: player_push.induct) auto

lemma sum_player_push: "sum_list (map f (player_push e es)) = f e + (sum_list (map f es) :: nat)"
  by (induction e es rule: player_push.induct) auto

lemma player_wait_returns:
  assumes "t \<le> clock (k + d) + 100000"
  shows "\<exists>k'. player_wait clock t k = Some k' \<and> k < k' \<and> t \<le> clock (k' - 1) + 100000"
  using assms
proof (induction d arbitrary: k)
  case 0
  then show ?case by (subst player_wait.simps) auto
next
  case (Suc d)
  then have "t \<le> clock (Suc k + d) + 100000" by simp
  from Suc.IH [OF this] show ?case by (subst player_wait.simps) (auto intro: Suc_lessD)
qed

text \<open>The timestamps of a component that the queue and the recording still hold.\<close>

definition todo ::
    "('u \<Rightarrow> component_ptr \<Rightarrow> timestamp list) \<Rightarrow> player_event list \<Rightarrow> 'u \<Rightarrow> component_ptr \<Rightarrow> timestamp list" where
  "todo rec es u c = (case List.find (\<lambda>e. pe_component e = c) es of None \<Rightarrow> [] | Some e \<Rightarrow> pe_ts e # rec u c)"

lemma find_component:
  assumes "distinct (map pe_component es)" and "e \<in> set es"
  shows "List.find (\<lambda>x. pe_component x = pe_component e) es = Some e"
  using assms by (induction es) auto

lemma find_componentD: "List.find (\<lambda>e. pe_component e = c) es = Some x \<Longrightarrow> x \<in> set es \<and> pe_component x = c"
  by (auto simp: find_Some_iff)

lemma find_component_none: "c \<notin> pe_component ` set es \<Longrightarrow> List.find (\<lambda>x. pe_component x = c) es = None"
  by (auto simp: find_None_iff)

definition queue_ok :: "('u \<Rightarrow> component_ptr \<Rightarrow> timestamp list) \<Rightarrow> int \<Rightarrow> player_event list \<Rightarrow> 'u \<Rightarrow> bool" where
  "queue_ok rec off es u \<longleftrightarrow> sorted (map pe_ts es) \<and> distinct (map pe_component es) \<and>
     (\<forall>e \<in> set es. time_at_next_event e = pe_ts e + off \<and> sorted (pe_ts e # rec u (pe_component e)))"

definition queue_size :: "('u \<Rightarrow> component_ptr \<Rightarrow> timestamp list) \<Rightarrow> player_event list \<Rightarrow> 'u \<Rightarrow> nat" where
  "queue_size rec es u = sum_list (map (\<lambda>e. Suc (length (rec u (pe_component e)))) es)"

lemma todo_push:
  assumes "pe_component e \<notin> pe_component ` set es" and "distinct (map pe_component es)"
  shows "todo rec (player_push e es) u = (todo rec es u)(pe_component e := pe_ts e # rec u (pe_component e))"
proof
  fix c
  have d: "distinct (map pe_component (player_push e es))" using assms by simp
  show "todo rec (player_push e es) u c = ((todo rec es u)(pe_component e := pe_ts e # rec u (pe_component e))) c"
  proof (cases "c = pe_component e")
    case True
    then show ?thesis using find_component [OF d, of e] by (simp add: todo_def)
  next
    case False
    show ?thesis
    proof (cases "c \<in> pe_component ` set es")
      case True
      then obtain x where x: "x \<in> set es" "c = pe_component x" by auto
      from find_component [OF d, of x] find_component [OF assms(2) x(1)] x False show ?thesis by (simp add: todo_def)
    next
      case c: False
      then have "c \<notin> pe_component ` set (player_push e es)" using False by auto
      from find_component_none [OF this] find_component_none [OF c] False show ?thesis by (simp add: todo_def)
    qed
  qed
qed

lemma todo_cong:
  assumes "\<forall>e \<in> set es. rec u' (pe_component e) = rec u (pe_component e)"
  shows "todo rec es u' = todo rec es u"
proof
  show "todo rec es u' c = todo rec es u c" for c
    using assms by (auto simp: todo_def dest: find_componentD split: option.splits)
qed

text \<open>One round of the loop sends the earliest event and puts the next one into the queue.\<close>

lemma player_round:
  assumes plays: "plays code rec sent" and ok: "queue_ok rec off (e # es) u"
  defines "r \<equiv> sendAndNext code e u"
  defines "es' \<equiv> (case r of (again, e', u') \<Rightarrow> if again then player_push e' es else es)"
  defines "u' \<equiv> snd (snd r)"
  shows "sent u' = sent u @ [(pe_component e, pe_ts e + off)] \<and> queue_ok rec off es' u' \<and>
    queue_size rec (e # es) u = Suc (queue_size rec es' u') \<and>
    todo rec (e # es) u = (todo rec es' u')(pe_component e := pe_ts e # todo rec es' u' (pe_component e)) \<and>
    (\<forall>x \<in> set es'. pe_ts e \<le> pe_ts x)"
proof -
  let ?c = "pe_component e"
  let ?u1 = "snd (pc_hasNext code ?c (pc_sendCurrent code ?c (time_at_next_event e) u))"
  from ok have time: "time_at_next_event e = pe_ts e + off" and new: "?c \<notin> pe_component ` set es"
    and dist: "distinct (map pe_component es)" and sorted: "sorted (map pe_ts es)" "\<forall>x \<in> set es. pe_ts e \<le> pe_ts x"
    and own: "sorted (pe_ts e # rec u ?c)"
    and rest: "\<forall>x \<in> set es. time_at_next_event x = pe_ts x + off \<and> sorted (pe_ts x # rec u (pe_component x))"
    by (auto simp: queue_ok_def)
  from plays have u1: "rec ?u1 = rec u" "sent ?u1 = sent u @ [(?c, pe_ts e + off)]"
    and again: "fst (pc_hasNext code ?c (pc_sendCurrent code ?c (time_at_next_event e) u)) = (rec u ?c \<noteq> [])"
    by (simp_all add: plays_def time)
  have todo_e: "todo rec (e # es) u = (todo rec es u)(?c := pe_ts e # rec u ?c)"
    by (auto simp: todo_def)
  show ?thesis
  proof (cases "rec u ?c")
    case Nil
    then have r: "r = (False, e, ?u1)" using again by (simp add: r_def sendAndNext_def Let_def split_beta)
    have same: "todo rec es ?u1 = todo rec es u" by (rule todo_cong) (simp add: u1)
    have "todo rec es u ?c = []" using new by (simp add: todo_def find_component_none)
    with r Nil u1 same todo_e rest sorted dist show ?thesis
      by (simp add: es'_def u'_def queue_ok_def queue_size_def)
  next
    case (Cons t ts)
    let ?u2 = "snd (pc_getNextTimestamp code ?c ?u1)"
    let ?e = "e\<lparr>time_at_next_event := time_at_next_event e + (t - pe_ts e), pe_ts := t\<rparr>"
    from plays u1(1) Cons have u2: "fst (pc_getNextTimestamp code ?c ?u1) = t" "rec ?u2 = (rec u)(?c := ts)"
      "sent ?u2 = sent ?u1" unfolding plays_def by (metis list.distinct(1) list.sel(1), metis list.distinct(1) list.sel(3), metis)
    have r: "r = (True, ?e, ?u2)" using again Cons u2(1) by (simp add: r_def sendAndNext_def Let_def split_beta)
    have other: "\<forall>x \<in> set es. rec ?u2 (pe_component x) = rec u (pe_component x)"
      unfolding u2(2) using new by (metis fun_upd_other image_eqI)
    have same: "todo rec es ?u2 = todo rec es u" by (rule todo_cong [OF other])
    have "todo rec (player_push ?e es) ?u2 = (todo rec es u)(?c := t # ts)"
      using todo_push [of ?e es rec ?u2] new dist same u2(2) by simp
    moreover have "queue_ok rec off (player_push ?e es) ?u2"
      using sorted new dist rest own Cons other u2(2) time by (auto simp: queue_ok_def)
    moreover have len: "map (\<lambda>x. Suc (length (rec ?u2 (pe_component x)))) es = map (\<lambda>x. Suc (length (rec u (pe_component x)))) es"
      by (rule map_cong [OF refl]) (simp only: bspec [OF other])
    have "queue_size rec (player_push ?e es) ?u2 = length (rec u ?c) + queue_size rec es u"
      unfolding queue_size_def sum_player_push len by (simp add: u2(2) Cons)
    ultimately show ?thesis using r u1(2) u2(3) todo_e Cons own sorted(2)
      by (auto simp: es'_def u'_def queue_size_def)
  qed
qed

text \<open>\<open>sends\<close> merges the recordings: it is in the order of the timestamps and holds each recording in order.\<close>

definition merges :: "(component_ptr \<times> timestamp) list \<Rightarrow> (component_ptr \<Rightarrow> timestamp list) \<Rightarrow> bool" where
  "merges sends recording \<longleftrightarrow> sorted (map snd sends) \<and>
     (\<forall>c. map snd (filter (\<lambda>s. fst s = c) sends) = recording c)"

lemma merges_Cons:
  assumes "merges sends recording" and "\<forall>c. \<forall>t \<in> set (recording c). t0 \<le> t"
  shows "merges ((c, t0) # sends) (recording(c := t0 # recording c))"
proof -
  have "t0 \<le> snd s" if "s \<in> set sends" for s
  proof -
    from that have "snd s \<in> set (map snd (filter (\<lambda>x. fst x = fst s) sends))" by force
    moreover from assms(1) have "map snd (filter (\<lambda>x. fst x = fst s) sends) = recording (fst s)"
      unfolding merges_def by blast
    ultimately show ?thesis using assms(2) by metis
  qed
  then show ?thesis using assms(1) by (auto simp: merges_def)
qed

lemma todo_bound:
  assumes "queue_ok rec off es u" and "\<forall>x \<in> set es. t0 \<le> pe_ts x" and "t \<in> set (todo rec es u c)"
  shows "t0 \<le> t"
proof -
  show ?thesis
  proof (cases "List.find (\<lambda>e. pe_component e = c) es")
    case None
    with assms(3) show ?thesis by (simp add: todo_def)
  next
    case (Some x)
    with assms(3) have "t \<in> set (pe_ts x # rec u c)" by (simp add: todo_def)
    moreover from find_componentD [OF Some] have "x \<in> set es" "pe_component x = c" by simp_all
    ultimately show ?thesis using assms(1,2) by (fastforce simp: queue_ok_def)
  qed
qed

lemma player_loop_merges:
  assumes plays: "plays code rec sent" and clock: "\<forall>t k. \<exists>d. t \<le> clock (k + d) + 100000"
    and "queue_ok rec off es u"
  shows "\<exists>u' sends. player_loop code clock True es k u = Some u' \<and>
    sent u' = sent u @ map (\<lambda>(c, t). (c, t + off)) sends \<and> merges sends (todo rec es u)"
  using assms(3)
proof (induction "queue_size rec es u" arbitrary: es u k rule: less_induct)
  case less
  show ?case
  proof (cases es)
    case Nil
    then show ?thesis
      by (subst player_loop.simps) (auto intro!: exI [of _ "[]"] simp: merges_def todo_def)
  next
    case (Cons e rest)
    let ?r = "sendAndNext code e u" and ?c = "pe_component e"
    let ?es = "case ?r of (again, e', u') \<Rightarrow> if again then player_push e' rest else rest"
    let ?u = "snd (snd ?r)"
    from clock obtain d where "time_at_next_event e \<le> clock (k + d) + 100000" by blast
    from player_wait_returns [of "time_at_next_event e" clock k d, OF this] obtain k' where k': "player_wait clock (time_at_next_event e) k = Some k'" by blast
    from player_round [OF plays less.prems [unfolded Cons]] have step:
      "sent ?u = sent u @ [(?c, pe_ts e + off)]" "queue_ok rec off ?es ?u"
      "queue_size rec es u = Suc (queue_size rec ?es ?u)"
      "todo rec es u = (todo rec ?es ?u)(?c := pe_ts e # todo rec ?es ?u ?c)"
      "\<forall>x \<in> set ?es. pe_ts e \<le> pe_ts x" unfolding Cons by blast+
    from less.hyps [of ?es ?u k'] step obtain u' sends where
      ih: "player_loop code clock True ?es k' ?u = Some u'"
        "sent u' = sent ?u @ map (\<lambda>(c, t). (c, t + off)) sends" "merges sends (todo rec ?es ?u)" by auto
    have "merges ((?c, pe_ts e) # sends) (todo rec es u)"
      unfolding step(4) using todo_bound [OF step(2,5)] by (intro merges_Cons ih(3)) blast
    moreover have "player_loop code clock True es k u = Some u'"
      by (subst player_loop.simps) (simp add: Cons k' ih(1))
    ultimately show ?thesis using step(1) ih(2)
      by (intro exI [of _ u'] exI [of _ "(?c, pe_ts e) # sends"]) simp
  qed
qed

section \<open>The first events\<close>

lemma first_timestamp_eq:
  assumes "plays code rec sent" and "\<forall>c \<in> set cs. rec u c \<noteq> []"
  shows "\<exists>u'. first_timestamp code cs u = (fold (\<lambda>c m. min (hd (rec u c)) m) cs timestamp_max, u') \<and>
    rec u' = rec u \<and> sent u' = sent u"
proof -
  have "\<exists>u'. fold (\<lambda>c (m, u). let (t, u') = pc_getFirstTimestamp code c u in (min t m, u')) cs (m, v) =
      (fold (\<lambda>c m. min (hd (rec u c)) m) cs m, u') \<and> rec u' = rec u \<and> sent u' = sent u"
    if "rec v = rec u" "sent v = sent u" "\<forall>c \<in> set cs. rec u c \<noteq> []" for m v cs
    using that
  proof (induction cs arbitrary: m v)
    case (Cons c cs)
    obtain t v' where v': "pc_getFirstTimestamp code c v = (t, v')" by force
    with assms(1) Cons.prems have "t = hd (rec u c)" "rec v' = rec u" "sent v' = sent u"
      unfolding plays_def by (metis fst_conv list.set_intros(1), metis snd_conv, metis snd_conv)
    with Cons.IH [of v' "min t m"] Cons.prems v' show ?case by simp
  qed simp
  from this [of u cs timestamp_max] assms(2) show ?thesis by (simp add: first_timestamp_def)
qed

lemma player_events_eq:
  assumes "plays code rec sent" and "distinct cs" and "\<forall>c \<in> set cs. rec u c \<noteq> [] \<and> sorted (rec u c)"
  shows "\<exists>es u'. player_events code cs start_ts first u = (es, u') \<and> sent u' = sent u \<and>
    queue_ok rec (start_ts - first) es u' \<and> todo rec es u' = (\<lambda>c. if c \<in> set cs then rec u c else [])"
proof -
  let ?off = "start_ts - first"
  let ?step = "\<lambda>c (events, u). let (next_ts, u') = pc_getNextTimestamp code c u
    in (player_push \<lparr>time_at_next_event = start_ts + (next_ts - first), pe_ts = next_ts, pe_component = c\<rparr> events, u')"
  have all: "\<exists>es' v'. fold ?step cs (es, v) = (es', v') \<and> sent v' = sent v \<and> queue_ok rec ?off es' v' \<and>
      todo rec es' v' = (\<lambda>c. if c \<in> set cs then rec v c else todo rec es v c)"
    if "distinct cs" "\<forall>c \<in> set cs. rec v c \<noteq> [] \<and> sorted (rec v c)" "queue_ok rec ?off es v"
      "pe_component ` set es \<inter> set cs = {}" for cs es v
    using that
  proof (induction cs arbitrary: es v)
    case (Cons c cs)
    obtain t v1 where v1: "pc_getNextTimestamp code c v = (t, v1)" by force
    from Cons.prems(2) have c: "rec v c \<noteq> []" "sorted (rec v c)" by simp_all
    from assms(1) c(1) v1 have v1': "t = hd (rec v c)" "rec v1 = (rec v)(c := tl (rec v c))" "sent v1 = sent v"
      unfolding plays_def by (metis fst_conv, metis snd_conv, metis snd_conv)
    let ?e = "\<lparr>time_at_next_event = start_ts + (t - first), pe_ts = t, pe_component = c\<rparr>"
    have other: "\<forall>x \<in> set es. rec v1 (pe_component x) = rec v (pe_component x)"
      using Cons.prems(4) v1'(2) by auto
    have rc: "t # rec v1 c = rec v c" using c(1) v1' by simp
    then have sc: "sorted (t # rec v1 c)" using c(2) by metis
    have ok: "queue_ok rec ?off (player_push ?e es) v1"
      using Cons.prems(3,4) other sc by (auto simp: queue_ok_def)
    have todo: "todo rec (player_push ?e es) v1 = (todo rec es v)(c := rec v c)"
      using todo_push [of ?e es rec v1] Cons.prems(3,4) todo_cong [OF other] rc by (auto simp: queue_ok_def)
    have "\<forall>d \<in> set cs. rec v1 d = rec v d" using Cons.prems(1) v1'(2) by auto
    moreover from this Cons.prems have "\<forall>d \<in> set cs. rec v1 d \<noteq> [] \<and> sorted (rec v1 d)"
      "pe_component ` set (player_push ?e es) \<inter> set cs = {}" by auto
    moreover note Cons.IH [of v1 "player_push ?e es"] ok Cons.prems(1)
    ultimately obtain es' v' where "fold ?step cs (player_push ?e es, v1) = (es', v')" "sent v' = sent v1"
      "queue_ok rec ?off es' v'"
      "todo rec es' v' = (\<lambda>d. if d \<in> set cs then rec v1 d else todo rec (player_push ?e es) v1 d)" by auto
    with v1 v1'(3) todo \<open>\<forall>d \<in> set cs. rec v1 d = rec v d\<close> show ?case by (auto simp: fun_eq_iff)
  qed simp
  have "queue_ok rec ?off [] u" "pe_component ` set [] \<inter> set cs = {}" by (simp_all add: queue_ok_def)
  from all [OF assms(2,3) this] obtain es' v' where es': "fold ?step cs ([], u) = (es', v')" "sent v' = sent u" "queue_ok rec ?off es' v'"
      "todo rec es' v' = (\<lambda>c. if c \<in> set cs then rec u c else todo rec [] u c)"
    by blast
  moreover have "todo rec es' v' = (\<lambda>c. if c \<in> set cs then rec u c else [])"
    unfolding es'(4) by (rule ext) (simp add: todo_def)
  ultimately show ?thesis unfolding player_events_def by blast
qed

lemma threadLoop_merges:
  assumes plays: "plays code rec sent" and clock: "\<forall>t k. \<exists>d. t \<le> clock (k + d) + 100000"
    and "distinct (pm_outputs m)" and "pm_running m"
    and "\<forall>c \<in> set (pm_outputs m). rec u c \<noteq> [] \<and> sorted (rec u c)"
  defines "first \<equiv> fold (\<lambda>c t. min (hd (rec u c)) t) (pm_outputs m) timestamp_max"
  shows "\<exists>u' sends. threadLoop code clock m u = Some (m\<lparr>pm_running := False\<rparr>, u') \<and>
    sent u' = sent u @ map (\<lambda>(c, t). (c, t + (clock 0 + 1000000000 - first))) sends \<and>
    merges sends (\<lambda>c. if c \<in> set (pm_outputs m) then rec u c else [])"
proof -
  from first_timestamp_eq [OF plays, of "pm_outputs m" u] assms(5) obtain u1 where
    u1: "first_timestamp code (pm_outputs m) u = (first, u1)" "rec u1 = rec u" "sent u1 = sent u"
    unfolding first_def by blast
  from player_events_eq [OF plays assms(3), of u1 "clock 0 + 1000000000" first, unfolded u1(2)] assms(5) obtain es u2 where
    es: "player_events code (pm_outputs m) (clock 0 + 1000000000) first u1 = (es, u2)" "sent u2 = sent u1"
      "queue_ok rec (clock 0 + 1000000000 - first) es u2"
      "todo rec es u2 = (\<lambda>c. if c \<in> set (pm_outputs m) then rec u c else [])" by blast
  from player_loop_merges [OF plays clock es(3), of 1] obtain u' sends where
    "player_loop code clock True es 1 u2 = Some u'"
    "sent u' = sent u2 @ map (\<lambda>(c, t). (c, t + (clock 0 + 1000000000 - first))) sends"
    "merges sends (todo rec es u2)" by blast
  with u1 es assms(4) show ?thesis
    by (intro exI [of _ u'] exI [of _ sends]) (simp add: threadLoop_def Let_def)
qed

end
