(* ===== verification/PlayerProps.thy ===== *)
theory PlayerProps
  imports Player
begin








end
