(* ===== verification/Networks.thy ===== *)
theory Networks
  imports Pipeline Lifecycle ProfileState
begin

text \<open>
  The owner of a data flow: \<open>TaskFlowTimeDomain\<close> and \<open>TaskFlowNetwork\<close>
  (\<open>src/traact/dataflow/taskflow\<close>) over their base class \<open>Network\<close>
  (\<open>src/traact/dataflow/Network.cpp\<close>).

  The buffers of a time domain are shared by its owner, the scheduler and the tasks; the model keeps them
  in the scheduler. Starting and stopping block: \<open>fuel\<close> bounds the steps of the client and of the
  task flow while the client waits, \<open>None\<close> means that the call has not returned after so many.
  The parameters are the classes of the components (\<open>cls\<close>) and the data types of the plugins (\<open>factories\<close>).
\<close>

section \<open>A time domain\<close>

record TaskFlowTimeDomain =
  tftd_time_domain :: int
  time_domain_config :: TimeDomainManagerConfig
  tftd_graph :: ComponentGraph
  tftd_scheduler :: Scheduler
  taskflow_name :: string
  taskflow_graph :: TraactTaskFlowGraph
  tftd_running :: bool
  stop_called :: bool

text \<open>\<open>createBuffer\<close>: the buffers of the graph; every time step gets an invalid event.\<close>

definition createBuffer ::
    "string list \<Rightarrow> ComponentGraph \<Rightarrow> int \<Rightarrow> heap \<Rightarrow>
     (TimeDomainManagerConfig \<times> TimeDomainBuffer \<times> heap) res" where
  "createBuffer factories cg td h =
     (let config = getTimeDomainConfig cg (unat (word_of_int td :: 64 word))
      in bind_res (tdb_init factories cg (TimeDomainBuffer_init td, h)) (\<lambda>(b, h').
         bind_res (fold_res (\<lambda>i. update_step (int i) (\<lambda>t. Inr (setEvent kTimestampZero EV_INVALID t)))
           [0..<ringbuffer_size config] b) (\<lambda>b'.
         Inr (config, b', h'))))"

text \<open>
  The constructor. The scheduler gets the state object of its time domain, by its index; the builders get the
  buffers, which they use in \<open>init\<close>.
\<close>

definition TaskFlowTimeDomain_make ::
    "string list \<Rightarrow> ComponentGraph \<Rightarrow> DataflowState \<Rightarrow> int \<Rightarrow> heap \<Rightarrow> (TaskFlowTimeDomain \<times> heap) res" where
  "TaskFlowTimeDomain_make factories cg ds td h =
     bind_res (createBuffer factories cg td h) (\<lambda>(config, b, h').
     bind_res (getState ds td) (\<lambda>_.
     bind_res (Scheduler_init config b) (\<lambda>s.
     Inr (\<lparr>tftd_time_domain = td, time_domain_config = config, tftd_graph = cg, tftd_scheduler = s,
           taskflow_name = [], taskflow_graph = TraactTaskFlowGraph_empty,
           tftd_running = False, stop_called = False\<rparr>, h'))))"

definition TaskFlowTimeDomain_init ::
    "(component_ptr \<Rightarrow> component_class) \<Rightarrow> Callbacks \<Rightarrow> TaskFlowTimeDomain \<Rightarrow> (TaskFlowTimeDomain \<times> Callbacks) res" where
  "TaskFlowTimeDomain_init cls cb d =
     (let b = time_domain_buffer (tftd_scheduler d)
      in bind_res (TraactGraphBuilder_build cls (tftd_graph d) (time_domain_config d) b cb) (\<lambda>(cb', _, traact_graph).
         bind_res (TraactTaskFlowBuilder_build b traact_graph (taskflow_graph d)) (\<lambda>f.
         Inr (d\<lparr>taskflow_name := cg_getName (tftd_graph d) @ ''_TD:'' @ fmt_int (tftd_time_domain d),
                taskflow_graph := f\<rparr>, cb'))))"

definition TaskFlowTimeDomain_start :: "nat \<Rightarrow> timestamp \<Rightarrow> TaskFlowTimeDomain \<Rightarrow> TaskFlowTimeDomain option res" where
  "TaskFlowTimeDomain_start fuel now d =
     bind_res (serve fuel now (start_program, tftd_scheduler d)) (\<lambda>(as, s).
     Inr (if as = [] then Some (d\<lparr>tftd_running := True, tftd_scheduler := s\<rparr>) else None))"

text \<open>\<open>timed_out\<close> tells whether the stop event takes too long, as in \<open>stop_program\<close>.\<close>

definition TaskFlowTimeDomain_stop ::
    "nat \<Rightarrow> timestamp \<Rightarrow> bool \<Rightarrow> TaskFlowTimeDomain \<Rightarrow> TaskFlowTimeDomain option res" where
  "TaskFlowTimeDomain_stop fuel now timed_out d =
     (if stop_called d \<or> \<not> tftd_running d then Inr (Some d)
      else bind_res (serve fuel now (stop_program (time_step_count (tftd_scheduler d)) timed_out, tftd_scheduler d)) (\<lambda>(as, s).
        Inr (if as = [] then Some (d\<lparr>stop_called := True, tftd_running := False, tftd_scheduler := s\<rparr>) else None)))"

definition TaskFlowTimeDomain_parameterChanged :: "string \<Rightarrow> TaskFlowTimeDomain \<Rightarrow> TaskFlowTimeDomain res" where
  "TaskFlowTimeDomain_parameterChanged p d =
     bind_res (parameterChanged p (tftd_scheduler d)) (\<lambda>s. Inr (d\<lparr>tftd_scheduler := s\<rparr>))"

section \<open>The network\<close>

text \<open>
  The components' callbacks and the objects in memory are shared by all time domains. The callback for
  a finished source is kept as the name of what it calls: \<open>True\<close> when the facade has set it.
\<close>

record TaskFlowNetwork =
  nw_component_graph :: "ComponentGraph option"
  generic_factory_objects :: "string list option"
  master_source_finished :: bool
  dataflow_state :: "DataflowState option"
  task_flow_time_domains :: "TaskFlowTimeDomain list"
  nw_callbacks :: Callbacks
  nw_heap :: heap

definition setComponentGraph :: "ComponentGraph option \<Rightarrow> TaskFlowNetwork \<Rightarrow> TaskFlowNetwork" where
  "setComponentGraph cg nw = nw\<lparr>nw_component_graph := cg\<rparr>"

definition setGenericFactoryObjects :: "string list \<Rightarrow> TaskFlowNetwork \<Rightarrow> TaskFlowNetwork" where
  "setGenericFactoryObjects factories nw = nw\<lparr>generic_factory_objects := Some factories\<rparr>"

definition setMasterSourceFinishedCallback :: "TaskFlowNetwork \<Rightarrow> TaskFlowNetwork" where
  "setMasterSourceFinishedCallback nw = nw\<lparr>master_source_finished := True\<rparr>"

text \<open>
  \<open>init\<close> appends a new time domain for every time domain of the graph, in increasing order, and
  then initialises all of the vector, those of an earlier \<open>start\<close> too. The builder of an earlier time
  domain keeps its table of modules; the model builds it anew, so for graphs with modules it describes the
  first \<open>start\<close> only.
\<close>

definition make_domains ::
    "string list \<Rightarrow> ComponentGraph \<Rightarrow> DataflowState \<Rightarrow> int list \<Rightarrow> TaskFlowTimeDomain list \<times> heap \<Rightarrow>
     (TaskFlowTimeDomain list \<times> heap) res" where
  "make_domains factories cg ds = fold_res (\<lambda>td (domains, h).
     bind_res (TaskFlowTimeDomain_make factories cg ds td h) (\<lambda>(d, h'). Inr (domains @ [d], h')))"

definition init_domains ::
    "(component_ptr \<Rightarrow> component_class) \<Rightarrow> TaskFlowTimeDomain list \<Rightarrow> TaskFlowTimeDomain list \<times> Callbacks \<Rightarrow>
     (TaskFlowTimeDomain list \<times> Callbacks) res" where
  "init_domains cls = fold_res (\<lambda>d (domains, cb).
     bind_res (TaskFlowTimeDomain_init cls cb d) (\<lambda>(d', cb'). Inr (domains @ [d'], cb')))"

definition TaskFlowNetwork_init ::
    "(component_ptr \<Rightarrow> component_class) \<Rightarrow> TaskFlowNetwork \<Rightarrow> TaskFlowNetwork res" where
  "TaskFlowNetwork_init cls nw =
     bind_res (deref (nw_component_graph nw)) (\<lambda>cg.
     bind_res (getTimeDomains cg) (\<lambda>time_domains.
     let ds = DataflowState_init (card time_domains) [] in
     bind_res (deref (generic_factory_objects nw)) (\<lambda>factories.
     bind_res (make_domains factories cg ds (sorted_list_of_set time_domains)
       (task_flow_time_domains nw, nw_heap nw)) (\<lambda>(domains, h).
     bind_res (init_domains cls domains ([], nw_callbacks nw)) (\<lambda>(domains', cb).
     Inr (nw\<lparr>dataflow_state := Some ds, task_flow_time_domains := domains',
             nw_callbacks := cb, nw_heap := h\<rparr>))))))"

text \<open>A call on every time domain in turn, as long as they return.\<close>

fun each_domain ::
    "(TaskFlowTimeDomain \<Rightarrow> TaskFlowTimeDomain option res) \<Rightarrow> TaskFlowTimeDomain list \<Rightarrow>
     TaskFlowTimeDomain list option res" where
  "each_domain f [] = Inr (Some [])"
| "each_domain f (d # ds) =
     bind_res (f d) (\<lambda>r.
       (case r of
          None \<Rightarrow> Inr None
        | Some d' \<Rightarrow> bind_res (each_domain f ds) (\<lambda>rs. Inr (map_option ((#) d') rs))))"

definition TaskFlowNetwork_start ::
    "(component_ptr \<Rightarrow> component_class) \<Rightarrow> nat \<Rightarrow> timestamp \<Rightarrow> TaskFlowNetwork \<Rightarrow>
     (bool \<times> TaskFlowNetwork) option res" where
  "TaskFlowNetwork_start cls fuel now nw =
     bind_res (TaskFlowNetwork_init cls nw) (\<lambda>nw1.
     bind_res (each_domain (TaskFlowTimeDomain_start fuel now) (task_flow_time_domains nw1)) (\<lambda>ds.
     Inr (map_option (\<lambda>ds. (True, nw1\<lparr>task_flow_time_domains := ds\<rparr>)) ds)))"

definition TaskFlowNetwork_stop ::
    "nat \<Rightarrow> timestamp \<Rightarrow> bool \<Rightarrow> TaskFlowNetwork \<Rightarrow> (bool \<times> TaskFlowNetwork) option res" where
  "TaskFlowNetwork_stop fuel now timed_out nw =
     bind_res (each_domain (TaskFlowTimeDomain_stop fuel now timed_out) (task_flow_time_domains nw)) (\<lambda>ds.
     Inr (map_option (\<lambda>ds. (True, nw\<lparr>task_flow_time_domains := ds\<rparr>)) ds))"

definition TaskFlowNetwork_parameterChanged :: "string \<Rightarrow> TaskFlowNetwork \<Rightarrow> TaskFlowNetwork res" where
  "TaskFlowNetwork_parameterChanged p nw =
     bind_res (map_res (TaskFlowTimeDomain_parameterChanged p) (task_flow_time_domains nw)) (\<lambda>ds.
     Inr (nw\<lparr>task_flow_time_domains := ds\<rparr>))"

definition getDataflowState :: "TaskFlowNetwork \<Rightarrow> DataflowState option" where
  "getDataflowState nw = dataflow_state nw"

section \<open>The buffers after the invalid event\<close>

lemma fold_update_steps:
  "m \<le> length (time_step_buffer b) \<Longrightarrow>
   fold_res (\<lambda>i. update_step (int i) (\<lambda>t. Inr (f t))) [0..<m] b =
     Inr (b\<lparr>time_step_buffer := map f (take m (time_step_buffer b)) @ drop m (time_step_buffer b)\<rparr>)"
proof (induction m)
  case (Suc m)
  let ?ts = "time_step_buffer b"
  let ?us = "map f (take m ?ts) @ drop m ?ts"
  from Suc.prems have m: "m < length ?ts" by simp
  have "?us ! m = ?ts ! m" using m by (simp add: nth_append)
  moreover have "?us[m := f (?ts ! m)] = map f (take (Suc m) ?ts) @ drop (Suc m) ?ts"
    using m by (simp add: list_update_append take_Suc_conv_app_nth Cons_nth_drop_Suc [symmetric])
  ultimately show ?case using Suc.IH m by (simp add: fold_res_append update_step_def getTimeStepBuffer_def raw_get_int)
qed simp

abbreviation invalid_event :: "TimeStepBuffer \<Rightarrow> TimeStepBuffer" where
  "invalid_event \<equiv> setEvent kTimestampZero EV_INVALID"

definition with_invalid_events :: "TimeDomainBuffer \<Rightarrow> TimeDomainBuffer" where
  "with_invalid_events b = b\<lparr>time_step_buffer := map invalid_event (time_step_buffer b)\<rparr>"

lemma createBuffer_eq:
  assumes "tdb_init factories cg (TimeDomainBuffer_init td, h) = Inr (b, h')"
    and "length (time_step_buffer b) = ringbuffer_size (domain_config cg td)"
  shows "createBuffer factories cg td h = Inr (domain_config cg td, with_invalid_events b, h')"
  using assms fold_update_steps [of "length (time_step_buffer b)" b invalid_event]
  by (simp add: createBuffer_def domain_config_def Let_def with_invalid_events_def)

lemma invalid_event_createLocalBuffer: "createLocalBuffer (invalid_event t) = createLocalBuffer t"
proof -
  have "local_port (invalid_event t) = local_port t"
    by (simp add: local_port_def setEvent_def fun_eq_iff)
  then show ?thesis by (simp add: createLocalBuffer_def [abs_def])
qed

lemma invalid_event_built:
  assumes "step_built td cs d t"
  shows "step_built td cs d (invalid_event t)"
proof -
  have c: "createComponentBuffer (invalid_event t) = createComponentBuffer t"
    by (simp add: createComponentBuffer_def invalid_event_createLocalBuffer fun_eq_iff)
  have "tsb_ok (invalid_event t) = tsb_ok t" "getComponentIndex (invalid_event t) = getComponentIndex t"
    "buffer_data (invalid_event t) = buffer_data t" "header_data (invalid_event t) = header_data t"
    "component_buffers_list (invalid_event t) = component_buffers_list t"
    "source_buffer_list (invalid_event t) = source_buffer_list t" "buffer_valid (invalid_event t) = buffer_valid t"
    by (simp_all add: setEvent_def tsb_ok_def getComponentIndex_def fun_eq_iff)
  then have "step_built td cs d (invalid_event t) = step_built td cs d t" by (simp only: step_built_def c)
  with assms show ?thesis by blast
qed

section \<open>A time domain can be built\<close>

text \<open>The buffers of a startable graph are enough for the builders and the scheduler.\<close>

definition buffers_built :: "ComponentGraph \<Rightarrow> int \<Rightarrow> (port_id, nat) omap \<Rightarrow> TimeDomainBuffer \<Rightarrow> bool" where
  "buffers_built cg td idx b \<longleftrightarrow> buffer_config b = indexed (domain_configs cg td idx) \<and>
     length (time_step_buffer b) = ringbuffer_size (domain_config cg td) \<and> steps_ok b \<and>
     (\<forall>i < ringbuffer_size (domain_config cg td).
       step_built td (domain_configs cg td idx) (tdb_data_buffer b ! i) (time_step_buffer b ! i))"

lemma with_invalid_events_built: "buffers_built cg td idx b \<Longrightarrow> buffers_built cg td idx (with_invalid_events b)"
proof -
  have "getCountSources (with_invalid_events b) = getCountSources b" "source_buffer_list (invalid_event t) = source_buffer_list t" for t
    by (simp_all add: with_invalid_events_def getCountSources_def getCountAsyncSources_def getCountInternalSyncSources_def setEvent_def)
  then show "buffers_built cg td idx b \<Longrightarrow> buffers_built cg td idx (with_invalid_events b)"
    by (simp add: buffers_built_def steps_ok_def) (simp add: with_invalid_events_def invalid_event_built)
qed

lemma graph_on_buffers:
  assumes start: "startable cls cg td factories" and b: "buffers_built cg td idx b"
  shows "\<exists>cb' g f. TraactGraphBuilder_build cls cg (domain_config cg td) b cb = Inr (cb', ModuleTables_empty, g) \<and>
    TraactTaskFlowBuilder_build b g TraactTaskFlowGraph_empty = Inr f \<and> flow_ready b g \<and> full g f \<and>
    getTimeStepCount g = ringbuffer_size (domain_config cg td) \<and> component_graph cg td g \<and> inner g f = all_edges g"
proof -
  from b have "buffer_config b = indexed (domain_configs cg td idx)"
    "length (time_step_buffer b) = ringbuffer_size (domain_config cg td)"
    "\<forall>i < ringbuffer_size (domain_config cg td).
      step_built td (domain_configs cg td idx) (tdb_data_buffer b ! i) (time_step_buffer b ! i)"
    by (simp_all add: buffers_built_def)
  note ready = built_buffer_ready [OF start this]
  have "plain_domain cls cg td" "time_domain (domain_config cg td) = td" "0 < ringbuffer_size (domain_config cg td)"
    using start by (simp_all add: startable_def)
  from plain_graph_built [OF ready(1) this ready(2), of cb] obtain cb' g where g:
    "TraactGraphBuilder_build cls cg (domain_config cg td) b cb = Inr (cb', ModuleTables_empty, g)"
    "component_graph cg td g" "flow_ready b g" "getTimeStepCount g = ringbuffer_size (domain_config cg td)" by blast
  from flow_built [OF g(3)] g show ?thesis by blast
qed

lemma scheduler_on_buffers:
  assumes start: "startable cls cg td factories" and b: "buffers_built cg td idx b"
    and cfg: "1 \<le> sensor_frequency (domain_config cg td)" "0 \<le> max_offset (domain_config cg td)"
  shows "\<exists>s. Scheduler_init (domain_config cg td) b = Inr s \<and> sched_start s \<and> time_domain_buffer s = b \<and>
    time_step_count s = ringbuffer_size (domain_config cg td)"
proof -
  let ?n = "ringbuffer_size (domain_config cg td)"
  from TimeDomainClock_init_ok [OF cfg(1)] obtain c where
    "TimeDomainClock_init (sensor_frequency (domain_config cg td)) (max_offset (domain_config cg td)) 1 = Inr c" by blast
  then obtain s where s: "Scheduler_init (domain_config cg td) b = Inr s" by (auto simp: Scheduler_init_def Let_def)
  have "\<not> committed b k i" if "i < ?n" "k < getCountSources b" for i k
    using built_steps_uncommitted [of td "domain_configs cg td idx" "tdb_data_buffer b ! i" "time_step_buffer b ! i" k]
      b steps_okD [of b i] that by (simp add: committed_def buffers_built_def)
  moreover have "buffers_ok (getCountSources b) ?n b" using b by (simp add: buffers_ok_def buffers_built_def)
  moreover have "0 < ?n" using start by (simp add: startable_def)
  ultimately have "sched_start s" using s cfg unfolding sched_start_def by blast
  with s show ?thesis by (auto simp: Scheduler_init_def Let_def)
qed

text \<open>A time domain before and after \<open>init\<close>.\<close>

definition domain_made :: "(component_ptr \<Rightarrow> component_class) \<Rightarrow> string list \<Rightarrow> TaskFlowTimeDomain \<Rightarrow> bool" where
  "domain_made cls factories d \<longleftrightarrow>
     startable cls (tftd_graph d) (tftd_time_domain d) factories \<and>
     time_domain_config d = domain_config (tftd_graph d) (tftd_time_domain d) \<and> sched_start (tftd_scheduler d) \<and>
     (\<exists>idx. buffers_built (tftd_graph d) (tftd_time_domain d) idx (time_domain_buffer (tftd_scheduler d))) \<and>
     time_step_count (tftd_scheduler d) = ringbuffer_size (time_domain_config d) \<and>
     taskflow_graph d = TraactTaskFlowGraph_empty \<and> \<not> tftd_running d \<and> \<not> stop_called d"

lemma domain_make_ok:
  assumes start: "startable cls cg td factories"
    and cfg: "1 \<le> sensor_frequency (domain_config cg td)" "0 \<le> max_offset (domain_config cg td)"
    and td: "0 \<le> td" "nat td < length ds"
  shows "\<exists>d h'. TaskFlowTimeDomain_make factories cg ds td h = Inr (d, h') \<and> domain_made cls factories d \<and>
    tftd_graph d = cg \<and> tftd_time_domain d = td"
proof -
  from start have "domain_graph_ok cg td" "set (slot_types cg td) \<subseteq> set factories" by (simp_all add: startable_def)
  from tdb_init_ok [OF this, of h] obtain b h' idx where b:
    "tdb_init factories cg (TimeDomainBuffer_init td, h) = Inr (b, h')" "buffers_built cg td idx b"
    unfolding buffers_built_def by blast
  then have c: "createBuffer factories cg td h = Inr (domain_config cg td, with_invalid_events b, h')"
    by (simp add: createBuffer_eq buffers_built_def)
  note b' = with_invalid_events_built [OF b(2)]
  from scheduler_on_buffers [OF start b' cfg] obtain s where s:
    "Scheduler_init (domain_config cg td) (with_invalid_events b) = Inr s" "sched_start s"
    "time_domain_buffer s = with_invalid_events b" "time_step_count s = ringbuffer_size (domain_config cg td)" by blast
  have "getState ds td = Inr (ds ! nat td)" using td by (simp add: getState_def raw_get_def)
  with c s b' start show ?thesis by (auto simp: TaskFlowTimeDomain_make_def domain_made_def)
qed

lemma domain_init_ok:
  assumes "domain_made cls factories d"
  shows "\<exists>d' cb'. TaskFlowTimeDomain_init cls cb d = Inr (d', cb') \<and>
    tftd_scheduler d' = tftd_scheduler d \<and> tftd_running d' = tftd_running d \<and> stop_called d' = stop_called d \<and>
    tftd_time_domain d' = tftd_time_domain d \<and>
    (\<exists>g. flow_ready (time_domain_buffer (tftd_scheduler d)) g \<and> full g (taskflow_graph d') \<and>
      component_graph (tftd_graph d) (tftd_time_domain d) g \<and>
      getTimeStepCount g = time_step_count (tftd_scheduler d) \<and> inner g (taskflow_graph d') = all_edges g)"
proof -
  let ?b = "time_domain_buffer (tftd_scheduler d)" and ?cg = "tftd_graph d"
  from assms obtain idx where start: "startable cls ?cg (tftd_time_domain d) factories"
    and b: "buffers_built ?cg (tftd_time_domain d) idx ?b" by (auto simp: domain_made_def)
  from graph_on_buffers [OF this, of cb] obtain cb' g f where
    "TraactGraphBuilder_build cls ?cg (time_domain_config d) ?b cb = Inr (cb', ModuleTables_empty, g)"
    "TraactTaskFlowBuilder_build ?b g (taskflow_graph d) = Inr f" "flow_ready ?b g" "full g f"
    "getTimeStepCount g = time_step_count (tftd_scheduler d)" "component_graph ?cg (tftd_time_domain d) g"
    "inner g f = all_edges g"
    using assms unfolding domain_made_def by metis
  then show ?thesis by (auto simp: TaskFlowTimeDomain_init_def Let_def)
qed

section \<open>Starting and stopping a time domain\<close>

definition domain_started :: "TaskFlowTimeDomain \<Rightarrow> bool" where
  "domain_started d \<longleftrightarrow> tftd_running d \<and> \<not> stop_called d \<and> sched_inv (tftd_scheduler d) \<and>
     finished_flag CONFIGURE (tftd_scheduler d) \<and> finished_flag START (tftd_scheduler d)"

definition domain_stopped :: "TaskFlowTimeDomain \<Rightarrow> bool" where
  "domain_stopped d \<longleftrightarrow> \<not> tftd_running d \<and> stop_called d \<and> sched_inv (tftd_scheduler d) \<and>
     stop_scheduled (tftd_scheduler d) \<and> finished_flag STOP (tftd_scheduler d) \<and>
     finished_flag TEARDOWN (tftd_scheduler d)"

lemma domain_start_ok:
  assumes "sched_start (tftd_scheduler d)" and "\<not> stop_called d"
  shows "\<exists>n d'. (\<forall>m \<ge> n. TaskFlowTimeDomain_start m now d = Inr (Some d')) \<and>
    d' = d\<lparr>tftd_running := True, tftd_scheduler := tftd_scheduler d'\<rparr> \<and> domain_started d' \<and>
    events (tftd_scheduler d') = []"
proof -
  from start_serves [OF assms(1), of now] obtain n s' where
    "\<forall>m \<ge> n. serve m now (start_program, tftd_scheduler d) = Inr ([], s')" "sched_inv s'" "events s' = []"
    "finished_flag CONFIGURE s'" "finished_flag START s'" by blast
  with assms(2) show ?thesis
    by (intro exI [of _ n] exI [of _ "d\<lparr>tftd_running := True, tftd_scheduler := s'\<rparr>"])
      (simp add: TaskFlowTimeDomain_start_def domain_started_def)
qed

lemma domain_stop_ok:
  assumes "domain_started d"
  shows "\<exists>n d'. (\<forall>m \<ge> n. TaskFlowTimeDomain_stop m now False d = Inr (Some d')) \<and>
    d' = d\<lparr>tftd_running := False, stop_called := True, tftd_scheduler := tftd_scheduler d'\<rparr> \<and> domain_stopped d'"
proof -
  from assms have "sched_inv (tftd_scheduler d)" by (simp add: domain_started_def)
  from stop_serves [OF this, of now] obtain n s' where
    "\<forall>m \<ge> n. serve m now (stop_program (time_step_count (tftd_scheduler d)) False, tftd_scheduler d) = Inr ([], s')"
    "sched_inv s'" "stop_scheduled s'" "finished_flag STOP s'" "finished_flag TEARDOWN s'" by blast
  with assms show ?thesis
    by (intro exI [of _ n] exI [of _ "d\<lparr>tftd_running := False, stop_called := True, tftd_scheduler := s'\<rparr>"])
      (simp add: TaskFlowTimeDomain_stop_def domain_started_def domain_stopped_def)
qed

lemma domain_stop_again: "domain_stopped d \<Longrightarrow> TaskFlowTimeDomain_stop m now timed_out d = Inr (Some d)"
  by (simp add: TaskFlowTimeDomain_stop_def domain_stopped_def)

text \<open>The time domains of a network keep their contract one by one.\<close>

lemma each_domain_ok:
  assumes "\<forall>d \<in> set ds. \<exists>(n :: nat) d'. (\<forall>m \<ge> n. f m d = Inr (Some d')) \<and> Q d d'"
  shows "\<exists>n ds'. (\<forall>m \<ge> n. each_domain (f m) ds = Inr (Some ds')) \<and> list_all2 Q ds ds'"
  using assms
proof (induction ds)
  case (Cons d ds)
  then obtain n d' where d: "\<forall>m \<ge> n. f m d = Inr (Some d')" "Q d d'" by auto
  from Cons obtain k ds' where ds: "\<forall>m \<ge> k. each_domain (f m) ds = Inr (Some ds')" "list_all2 Q ds ds'" by auto
  have "each_domain (f m) (d # ds) = Inr (Some (d' # ds'))" if "max n k \<le> m" for m
  proof -
    have "n \<le> m" "k \<le> m" using that by simp_all
    with d(1) ds(1) have "f m d = Inr (Some d')" "each_domain (f m) ds = Inr (Some ds')" by blast+
    then show ?thesis by simp
  qed
  with d ds show ?case by blast
qed simp

section \<open>The network\<close>

text \<open>A network that can be started: no time domains yet, and what \<open>startable\<close> asks for.\<close>

definition network_ready :: "(component_ptr \<Rightarrow> component_class) \<Rightarrow> TaskFlowNetwork \<Rightarrow> bool" where
  "network_ready cls nw \<longleftrightarrow> task_flow_time_domains nw = [] \<and>
     (\<exists>cg factories. nw_component_graph nw = Some cg \<and> generic_factory_objects nw = Some factories \<and>
        getTimeDomains cg = Inr {0} \<and> startable cls cg 0 factories \<and>
        1 \<le> sensor_frequency (domain_config cg 0) \<and> 0 \<le> max_offset (domain_config cg 0))"

lemma network_init_ok:
  assumes "network_ready cls nw"
  shows "\<exists>nw' d. TaskFlowNetwork_init cls nw = Inr nw' \<and> task_flow_time_domains nw' = [d] \<and>
    sched_start (tftd_scheduler d) \<and> \<not> tftd_running d \<and> \<not> stop_called d \<and> tftd_time_domain d = 0 \<and>
    (\<exists>g. full g (taskflow_graph d) \<and> component_graph (the (nw_component_graph nw)) 0 g \<and>
      getTimeStepCount g = time_step_count (tftd_scheduler d)) \<and>
    dataflow_state nw' = Some [TimeDomainState_new]"
proof -
  from assms obtain cg factories where nw: "nw_component_graph nw = Some cg" "generic_factory_objects nw = Some factories"
    "task_flow_time_domains nw = []" and td: "getTimeDomains cg = Inr {0}" and start: "startable cls cg 0 factories"
    and cfg: "1 \<le> sensor_frequency (domain_config cg 0)" "0 \<le> max_offset (domain_config cg 0)"
    by (auto simp: network_ready_def)
  let ?ds = "DataflowState_init 1 []"
  have ds: "?ds = [TimeDomainState_new]" by (simp add: DataflowState_init_def)
  from domain_make_ok [OF start cfg, of ?ds "nw_heap nw"] ds obtain d h where
    d: "TaskFlowTimeDomain_make factories cg ?ds 0 (nw_heap nw) = Inr (d, h)" "domain_made cls factories d"
      "tftd_graph d = cg" "tftd_time_domain d = 0" by auto
  from domain_init_ok [OF d(2), of "nw_callbacks nw"] d(3,4) obtain d' cb g where
    d': "TaskFlowTimeDomain_init cls (nw_callbacks nw) d = Inr (d', cb)" "tftd_scheduler d' = tftd_scheduler d"
      "tftd_time_domain d' = 0" "full g (taskflow_graph d')" "component_graph cg 0 g"
      "getTimeStepCount g = time_step_count (tftd_scheduler d)"
      "tftd_running d' = tftd_running d" "stop_called d' = stop_called d" by auto
  have "sched_start (tftd_scheduler d')" "\<not> tftd_running d'" "\<not> stop_called d'"
    using d(2) d'(2,7,8) by (simp_all add: domain_made_def)
  moreover have "TaskFlowNetwork_init cls nw = Inr (nw\<lparr>dataflow_state := Some ?ds, task_flow_time_domains := [d'],
      nw_callbacks := cb, nw_heap := h\<rparr>)"
    using nw td d(1) d'(1) by (simp add: TaskFlowNetwork_init_def make_domains_def init_domains_def)
  ultimately show ?thesis using d' nw ds by (intro exI [of _ "nw\<lparr>dataflow_state := Some ?ds, task_flow_time_domains := [d'],
      nw_callbacks := cb, nw_heap := h\<rparr>"] exI [of _ d']) auto
qed

lemma network_start_ok:
  assumes "network_ready cls nw"
  shows "\<exists>n nw' d. (\<forall>m \<ge> n. TaskFlowNetwork_start cls m now nw = Inr (Some (True, nw'))) \<and>
    task_flow_time_domains nw' = [d] \<and> domain_started d \<and> events (tftd_scheduler d) = [] \<and>
    tftd_time_domain d = 0 \<and> dataflow_state nw' = Some [TimeDomainState_new] \<and>
    (\<exists>g. full g (taskflow_graph d) \<and> component_graph (the (nw_component_graph nw)) 0 g)"
proof -
  from network_init_ok [OF assms] obtain nw1 d where
    init: "TaskFlowNetwork_init cls nw = Inr nw1" "task_flow_time_domains nw1 = [d]"
    and d: "sched_start (tftd_scheduler d)" "\<not> stop_called d" "tftd_time_domain d = 0"
    and ds: "dataflow_state nw1 = Some [TimeDomainState_new]"
    and g: "\<exists>g. full g (taskflow_graph d) \<and> component_graph (the (nw_component_graph nw)) 0 g" by blast
  from domain_start_ok [OF d(1,2), of now] obtain n d' where
    start: "\<forall>m \<ge> n. TaskFlowTimeDomain_start m now d = Inr (Some d')"
    and d': "d' = d\<lparr>tftd_running := True, tftd_scheduler := tftd_scheduler d'\<rparr>" "domain_started d'"
      "events (tftd_scheduler d') = []" by blast
  have "tftd_time_domain d' = 0" "taskflow_graph d' = taskflow_graph d" using d(3) by (subst d'(1), simp)+
  moreover have "TaskFlowNetwork_start cls m now nw = Inr (Some (True, nw1\<lparr>task_flow_time_domains := [d']\<rparr>))" if "n \<le> m" for m
    using init start that by (simp add: TaskFlowNetwork_start_def)
  ultimately show ?thesis using d'(2,3) ds g
    by (intro exI [of _ n] exI [of _ "nw1\<lparr>task_flow_time_domains := [d']\<rparr>"] exI [of _ d']) simp
qed

lemma network_stop_ok:
  assumes "\<forall>d \<in> set (task_flow_time_domains nw). domain_started d"
  shows "\<exists>n nw'. (\<forall>m \<ge> n. TaskFlowNetwork_stop m now False nw = Inr (Some (True, nw'))) \<and>
    list_all2 (\<lambda>d d'. domain_stopped d' \<and> tftd_time_domain d' = tftd_time_domain d \<and> taskflow_graph d' = taskflow_graph d)
      (task_flow_time_domains nw) (task_flow_time_domains nw')"
proof -
  let ?Q = "\<lambda>d d'. domain_stopped d' \<and> tftd_time_domain d' = tftd_time_domain d \<and> taskflow_graph d' = taskflow_graph d"
  have "\<forall>d \<in> set (task_flow_time_domains nw).
      \<exists>n d'. (\<forall>m \<ge> n. TaskFlowTimeDomain_stop m now False d = Inr (Some d')) \<and> ?Q d d'"
  proof
    fix d
    assume "d \<in> set (task_flow_time_domains nw)"
    with assms have "domain_started d" by blast
    from domain_stop_ok [OF this, of now] obtain n d' where
      "\<forall>m \<ge> n. TaskFlowTimeDomain_stop m now False d = Inr (Some d')" "domain_stopped d'"
      and d': "d' = d\<lparr>tftd_running := False, stop_called := True, tftd_scheduler := tftd_scheduler d'\<rparr>" by blast
    moreover have "tftd_time_domain d' = tftd_time_domain d" "taskflow_graph d' = taskflow_graph d" by (subst d', simp)+
    ultimately show "\<exists>n d'. (\<forall>m \<ge> n. TaskFlowTimeDomain_stop m now False d = Inr (Some d')) \<and> ?Q d d'" by blast
  qed
  from each_domain_ok [OF this] obtain n ds where
    n: "\<forall>m \<ge> n. each_domain (TaskFlowTimeDomain_stop m now False) (task_flow_time_domains nw) = Inr (Some ds)"
    and ds: "list_all2 ?Q (task_flow_time_domains nw) ds" by blast
  then show ?thesis
    by (intro exI [of _ n] exI [of _ "nw\<lparr>task_flow_time_domains := ds\<rparr>"]) (simp add: TaskFlowNetwork_stop_def)
qed

lemma each_domain_same: "\<forall>d \<in> set ds. f d = Inr (Some d) \<Longrightarrow> each_domain f ds = Inr (Some ds)"
  by (induction ds) simp_all

lemma network_stop_again:
  assumes "\<forall>d \<in> set (task_flow_time_domains nw). stop_called d \<or> \<not> tftd_running d"
  shows "TaskFlowNetwork_stop m now timed_out nw = Inr (Some (True, nw))"
proof -
  have "each_domain (TaskFlowTimeDomain_stop m now timed_out) (task_flow_time_domains nw) =
      Inr (Some (task_flow_time_domains nw))"
    using assms by (intro each_domain_same) (simp add: TaskFlowTimeDomain_stop_def)
  then show ?thesis by (simp add: TaskFlowNetwork_stop_def)
qed

end
