(* ===== verification/Facades.thy ===== *)
theory Facades
  imports Networks
begin

text \<open>
  The plugin factory (\<open>src/traact/facade/rttr/RTTRPluginFactory.cpp\<close>) and the facade
  (\<open>src/traact/facade/Facade.cpp\<close>), through which an application loads, starts and stops a data flow.

  The reflection library and the plugins are outside the repository: the loaded types are a list of
  records, a plugin's factory of components is a record of functions. Creating and
  configuring components may throw and changes a state \<open>'w\<close> of the plugins in either case.
\<close>

section \<open>The plugin factory\<close>

record 'w component_factory =
  cf_createPattern :: "Pattern res"
  cf_createComponent :: "string \<Rightarrow> 'w \<Rightarrow> component_ptr res \<times> 'w"

text \<open>What the constructor of a loaded type makes: a factory of components or a factory of data, of a type name.\<close>

datatype 'w plugin_object =
    ComponentFactoryObject "'w component_factory"
  | DataFactoryObject string

record 'w rttr_type =
  rt_name :: string
  rt_is_class :: bool
  rt_is_wrapper :: bool
  rt_is_component_factory :: bool
  rt_is_data_factory :: bool
  rt_ctor_valid :: bool
  rt_instance :: "'w plugin_object option"

record 'w RTTRPluginFactory =
  pattern_names :: "string list"
  datatype_names :: "string list"
  datatype_traact_plugin :: "string list"
  pattern_to_traact_plugin :: "(string, 'w component_factory) omap"

definition RTTRPluginFactory_empty :: "'w RTTRPluginFactory" where
  "RTTRPluginFactory_empty = \<lparr>pattern_names = [], datatype_names = [], datatype_traact_plugin = [],
     pattern_to_traact_plugin = []\<rparr>"

text \<open>\<open>load\<close> is the loading of a library: its result, or an exception.\<close>

definition addLibrary :: "(string \<Rightarrow> bool res) \<Rightarrow> string \<Rightarrow> bool" where
  "addLibrary load filename = (case load filename of Inl _ \<Rightarrow> False | Inr loaded \<Rightarrow> loaded)"

text \<open>An object of the wrong class is a null pointer.\<close>

definition addDatatype :: "'w rttr_type \<Rightarrow> 'w RTTRPluginFactory \<Rightarrow> 'w RTTRPluginFactory res" where
  "addDatatype loaded_type pf =
     (if rt_name loaded_type = ''traact::buffer::DataFactory'' \<or> \<not> rt_ctor_valid loaded_type then Inr pf
      else case rt_instance loaded_type of
             None \<Rightarrow> Inr pf
           | Some (DataFactoryObject type_name) \<Rightarrow>
               Inr (pf\<lparr>datatype_traact_plugin := datatype_traact_plugin pf @ [type_name],
                      datatype_names := datatype_names pf @ [rt_name loaded_type]\<rparr>)
           | Some _ \<Rightarrow> Inl UndefinedBehaviour)"

definition pf_addPattern :: "'w rttr_type \<Rightarrow> 'w RTTRPluginFactory \<Rightarrow> 'w RTTRPluginFactory res" where
  "pf_addPattern loaded_type pf =
     (if rt_name loaded_type = ''traact::component::ComponentFactory'' \<or> \<not> rt_ctor_valid loaded_type then Inr pf
      else case rt_instance loaded_type of
             None \<Rightarrow> Inr pf
           | Some (ComponentFactoryObject component_factory) \<Rightarrow>
               bind_res (cf_createPattern component_factory) (\<lambda>pattern.
               Inr (pf\<lparr>pattern_to_traact_plugin :=
                        emplace (pat_name pattern) component_factory (pattern_to_traact_plugin pf),
                      pattern_names := pattern_names pf @ [pat_name pattern]\<rparr>))
           | Some _ \<Rightarrow> Inl UndefinedBehaviour)"

text \<open>The loop of \<open>init\<close> over all types that the loaded libraries have registered.\<close>

definition add_type :: "'w rttr_type \<Rightarrow> 'w RTTRPluginFactory \<Rightarrow> 'w RTTRPluginFactory res" where
  "add_type loaded_type pf =
     (if \<not> rt_is_class loaded_type \<or> rt_is_wrapper loaded_type then Inr pf
      else if rt_is_component_factory loaded_type then pf_addPattern loaded_type pf
      else if rt_is_data_factory loaded_type then addDatatype loaded_type pf
      else Inr pf)"

definition RTTRPluginFactory_init :: "'w rttr_type list \<Rightarrow> 'w RTTRPluginFactory \<Rightarrow> 'w RTTRPluginFactory res" where
  "RTTRPluginFactory_init = fold_res add_type"

definition removeLibrary :: "string \<Rightarrow> bool" where
  "removeLibrary filename = False"

definition getDatatypeNames :: "'w RTTRPluginFactory \<Rightarrow> string list" where
  "getDatatypeNames pf = datatype_names pf"

definition getPatternNames :: "'w RTTRPluginFactory \<Rightarrow> string list" where
  "getPatternNames pf = pattern_names pf"

definition pf_instantiatePattern :: "'w RTTRPluginFactory \<Rightarrow> string \<Rightarrow> Pattern res" where
  "pf_instantiatePattern pf pattern_name =
     (case map_of (pattern_to_traact_plugin pf) pattern_name of
        None \<Rightarrow> Inl RuntimeError
      | Some component_factory \<Rightarrow> cf_createPattern component_factory)"

definition instantiateComponent ::
    "'w RTTRPluginFactory \<Rightarrow> string \<Rightarrow> string \<Rightarrow> 'w \<Rightarrow> component_ptr res \<times> 'w" where
  "instantiateComponent pf pattern_name new_id w =
     (case map_of (pattern_to_traact_plugin pf) pattern_name of
        None \<Rightarrow> (Inl RuntimeError, w)
      | Some component_factory \<Rightarrow> cf_createComponent component_factory new_id w)"

definition createDataBuffer :: "'w RTTRPluginFactory \<Rightarrow> DataBuffer" where
  "createDataBuffer pf = DataBuffer_init (datatype_traact_plugin pf)"

section \<open>The facade\<close>

text \<open>
  \<open>finished\<close> tells whether the promise has its value, \<open>stop_thread\<close> whether the thread of \<open>stopAsync\<close> exists.
  The network is gone once the destructor has released it.
\<close>

record 'w Facade =
  fa_factory :: "'w RTTRPluginFactory"
  fa_graph_instance :: "GraphInstance option"
  fa_component_graph :: "ComponentGraph option"
  fa_network :: "TaskFlowNetwork option"
  should_stop :: bool
  fa_running :: bool
  finished :: bool
  stop_thread :: bool

definition Facade_make :: "'w RTTRPluginFactory \<Rightarrow> TaskFlowNetwork \<Rightarrow> 'w Facade" where
  "Facade_make factory nw = \<lparr>fa_factory = factory, fa_graph_instance = None, fa_component_graph = None,
     fa_network = Some (setMasterSourceFinishedCallback (setGenericFactoryObjects (datatype_traact_plugin factory) nw)),
     should_stop = False, fa_running = False, finished = False, stop_thread = False\<rparr>"

text \<open>What the handlers of \<open>loadDataflow\<close> make of an exception; undefined behaviour and assertions are none.\<close>

definition rethrown :: "cpp_error \<Rightarrow> cpp_error" where
  "rethrown e = (case e of
       OutOfRange \<Rightarrow> OutOfRange
     | AssertionFailed \<Rightarrow> AssertionFailed
     | UndefinedBehaviour \<Rightarrow> UndefinedBehaviour
     | _ \<Rightarrow> InvalidArgument)"

text \<open>\<open>configureInstance\<close> is the virtual method of the component.\<close>

type_synonym 'w configure_code = "component_ptr \<Rightarrow> PatternInstance \<Rightarrow> 'w \<Rightarrow> unit res \<times> 'w"

definition load_component ::
    "'w RTTRPluginFactory \<Rightarrow> 'w configure_code \<Rightarrow> PatternInstance \<Rightarrow> ComponentGraph \<Rightarrow> 'w \<Rightarrow>
     ComponentGraph res \<times> 'w" where
  "load_component pf configureInstance p cg w =
     (case instantiateComponent pf (getPatternName p) (instance_id p) w of
        (Inl e, w1) \<Rightarrow> (Inl e, w1)
      | (Inr c, w1) \<Rightarrow>
          (case configureInstance c p w1 of
             (Inl e, w2) \<Rightarrow> (Inl e, w2)
           | (Inr _, w2) \<Rightarrow> (cg_addPattern (instance_id p) c cg, w2)))"

fun load_components ::
    "'w RTTRPluginFactory \<Rightarrow> 'w configure_code \<Rightarrow> PatternInstance list \<Rightarrow> ComponentGraph \<Rightarrow> 'w \<Rightarrow>
     cpp_error option \<times> ComponentGraph \<times> 'w" where
  "load_components pf configureInstance [] cg w = (None, cg, w)"
| "load_components pf configureInstance (p # ps) cg w =
     (case load_component pf configureInstance p cg w of
        (Inl e, w1) \<Rightarrow> (Some (rethrown e), cg, w1)
      | (Inr cg1, w1) \<Rightarrow> load_components pf configureInstance ps cg1 w1)"

text \<open>The exception that leaves \<open>loadDataflow\<close>, if any, and what it has changed by then.\<close>

definition loadDataflow ::
    "'w configure_code \<Rightarrow> GraphInstance \<Rightarrow> 'w Facade \<Rightarrow> 'w \<Rightarrow> cpp_error option \<times> 'w Facade \<times> 'w" where
  "loadDataflow configureInstance g f w =
     (case checkRunnable g of
        Inl e \<Rightarrow> (Some e, f, w)
      | Inr (Some run_error) \<Rightarrow> (Some InvalidArgument, f, w)
      | Inr None \<Rightarrow>
          (case load_components (fa_factory f) configureInstance (getAll g) (ComponentGraph_make g) w of
             (e, cg, w1) \<Rightarrow> (e, f\<lparr>fa_graph_instance := Some g, fa_component_graph := Some cg\<rparr>, w1)))"

text \<open>Starting and stopping take the \<open>fuel\<close> of the network; \<open>None\<close>: not yet returned.\<close>

definition Facade_start ::
    "(component_ptr \<Rightarrow> component_class) \<Rightarrow> nat \<Rightarrow> timestamp \<Rightarrow> 'w Facade \<Rightarrow> (bool \<times> 'w Facade) option res" where
  "Facade_start cls fuel now f =
     bind_res (deref (fa_network f)) (\<lambda>nw.
     bind_res (TaskFlowNetwork_start cls fuel now (setComponentGraph (fa_component_graph f) nw)) (\<lambda>r.
     Inr (map_option (\<lambda>(running, nw'). (running, f\<lparr>fa_network := Some nw', fa_running := running\<rparr>)) r)))"

text \<open>The steps of a thread that has called \<open>stop\<close>; the lock is held in the first only.\<close>

datatype stop_phase = SP_Lock | SP_Network | SP_Promise bool | SP_Running bool | SP_Return bool

definition stop_step ::
    "nat \<Rightarrow> timestamp \<Rightarrow> bool \<Rightarrow> stop_phase \<Rightarrow> 'w Facade \<Rightarrow> (stop_phase \<times> 'w Facade) option res" where
  "stop_step fuel now timed_out phase f =
     (case phase of
        SP_Lock \<Rightarrow> Inr (Some (if \<not> should_stop f then (SP_Network, f\<lparr>should_stop := True\<rparr>) else (SP_Return False, f)))
      | SP_Network \<Rightarrow>
          bind_res (deref (fa_network f)) (\<lambda>nw.
          bind_res (TaskFlowNetwork_stop fuel now timed_out nw) (\<lambda>r.
          Inr (map_option (\<lambda>(call_stop, nw'). (SP_Promise call_stop, f\<lparr>fa_network := Some nw'\<rparr>)) r)))
      | SP_Promise call_stop \<Rightarrow>
          if finished f then Inl PromiseSatisfied else Inr (Some (SP_Running call_stop, f\<lparr>finished := True\<rparr>))
      | SP_Running call_stop \<Rightarrow> Inr (Some (SP_Return call_stop, f\<lparr>fa_running := False\<rparr>))
      | SP_Return call_stop \<Rightarrow> Inr (Some (SP_Return call_stop, f)))"

text \<open>\<open>stop\<close> of one thread alone.\<close>

fun stop_steps ::
    "nat \<Rightarrow> nat \<Rightarrow> timestamp \<Rightarrow> bool \<Rightarrow> stop_phase \<times> 'w Facade \<Rightarrow> (stop_phase \<times> 'w Facade) option res" where
  "stop_steps 0 fuel now timed_out c = Inr (Some c)"
| "stop_steps (Suc n) fuel now timed_out c =
     bind_res (stop_step fuel now timed_out (fst c) (snd c)) (\<lambda>r.
       (case r of None \<Rightarrow> Inr None | Some c' \<Rightarrow> stop_steps n fuel now timed_out c'))"

definition Facade_stop :: "nat \<Rightarrow> timestamp \<Rightarrow> bool \<Rightarrow> 'w Facade \<Rightarrow> (bool \<times> 'w Facade) option res" where
  "Facade_stop fuel now timed_out f =
     bind_res (stop_steps 4 fuel now timed_out (SP_Lock, f)) (\<lambda>r.
     Inr (Option.bind r (\<lambda>(phase, f'). (case phase of SP_Return b \<Rightarrow> Some (b, f') | _ \<Rightarrow> None))))"

text \<open>\<open>blockingStart\<close> waits in periods of a second for the promise: \<open>ready k\<close> is what it sees in the \<open>k\<close>-th.\<close>

partial_function (option) wait_finished :: "(nat \<Rightarrow> bool) \<Rightarrow> nat \<Rightarrow> nat option" where
  "wait_finished ready k = (if \<not> ready k then wait_finished ready (Suc k) else Some (Suc k))"

definition blockingStart ::
    "(component_ptr \<Rightarrow> component_class) \<Rightarrow> nat \<Rightarrow> timestamp \<Rightarrow> (nat \<Rightarrow> bool) \<Rightarrow> 'w Facade \<Rightarrow>
     (bool \<times> 'w Facade) option res" where
  "blockingStart cls fuel now ready f =
     bind_res (Facade_start cls fuel now f) (\<lambda>r.
     Inr (Option.bind r (\<lambda>(started, f'). if \<not> started then Some (False, f')
       else map_option (\<lambda>_. (True, f')) (wait_finished ready 0))))"

definition Facade_parameterChanged :: "string \<Rightarrow> 'w Facade \<Rightarrow> 'w Facade res" where
  "Facade_parameterChanged p f =
     bind_res (deref (fa_network f)) (\<lambda>nw.
     bind_res (TaskFlowNetwork_parameterChanged p nw) (\<lambda>nw'. Inr (f\<lparr>fa_network := Some nw'\<rparr>)))"

definition Facade_getComponent :: "'w Facade \<Rightarrow> string \<Rightarrow> component_ptr option res" where
  "Facade_getComponent f a = bind_res (deref (fa_component_graph f)) (\<lambda>cg. Inr (getComponent cg a))"

definition Facade_instantiatePattern :: "'w Facade \<Rightarrow> string \<Rightarrow> Pattern res" where
  "Facade_instantiatePattern f pattern_name =
     (case pf_instantiatePattern (fa_factory f) pattern_name of
        Inr p \<Rightarrow> Inr p
      | Inl e \<Rightarrow> Inl (if e \<in> {AssertionFailed, UndefinedBehaviour} then e else InvalidArgument))"

definition GetAllAvailablePatterns :: "'w Facade \<Rightarrow> Pattern list res" where
  "GetAllAvailablePatterns f = map_res (pf_instantiatePattern (fa_factory f)) (getPatternNames (fa_factory f))"

definition isRunning :: "'w Facade \<Rightarrow> bool" where
  "isRunning f = fa_running f"

definition Facade_getDataflowState :: "'w Facade \<Rightarrow> DataflowState option res" where
  "Facade_getDataflowState f = bind_res (deref (fa_network f)) (\<lambda>nw. Inr (getDataflowState nw))"

section \<open>The facade and the threads that use it\<close>

text \<open>
  Every call of \<open>stop\<close> is a caller in one of its phases; the thread of \<open>stopAsync\<close> is the caller whose
  number \<open>stop_caller\<close> holds. The destructor stops the network, releases it, and joins that thread last.
\<close>

datatype destroy_phase = DP_Alive | DP_Release | DP_Join | DP_Done

record 'w facade_world =
  the_facade :: "'w Facade"
  callers :: "stop_phase list"
  stop_caller :: nat
  destroying :: destroy_phase

definition facade_world_new :: "'w Facade \<Rightarrow> 'w facade_world" where
  "facade_world_new f = \<lparr>the_facade = f, callers = [], stop_caller = 0, destroying = DP_Alive\<rparr>"

definition stopAsync :: "'w facade_world \<Rightarrow> 'w facade_world" where
  "stopAsync w =
     (if \<not> stop_thread (the_facade w)
      then w\<lparr>the_facade := (the_facade w)\<lparr>stop_thread := True\<rparr>, stop_caller := length (callers w),
             callers := callers w @ [SP_Lock]\<rparr>
      else w)"

definition caller_step :: "nat \<Rightarrow> timestamp \<Rightarrow> bool \<Rightarrow> nat \<Rightarrow> 'w facade_world \<Rightarrow> 'w facade_world option res" where
  "caller_step fuel now timed_out i w =
     bind_res (stop_step fuel now timed_out (callers w ! i) (the_facade w)) (\<lambda>r.
     Inr (map_option (\<lambda>(phase, f). w\<lparr>the_facade := f, callers := (callers w)[i := phase]\<rparr>) r))"

text \<open>One step of the destructor; the join goes on when the stop thread has returned.\<close>

definition destroy_step :: "nat \<Rightarrow> timestamp \<Rightarrow> bool \<Rightarrow> 'w facade_world \<Rightarrow> 'w facade_world option res" where
  "destroy_step fuel now timed_out w =
     (let f = the_facade w in
      case destroying w of
        DP_Alive \<Rightarrow>
          (case fa_network f of
             None \<Rightarrow> Inr (Some (w\<lparr>destroying := DP_Release\<rparr>))
           | Some nw \<Rightarrow>
               bind_res (TaskFlowNetwork_stop fuel now timed_out nw) (\<lambda>r.
               Inr (map_option (\<lambda>(_, nw'). w\<lparr>destroying := DP_Release, the_facade := f\<lparr>fa_network := Some nw'\<rparr>\<rparr>) r)))
      | DP_Release \<Rightarrow> Inr (Some (w\<lparr>destroying := DP_Join,
          the_facade := f\<lparr>fa_network := None, fa_component_graph := None, fa_graph_instance := None\<rparr>\<rparr>))
      | DP_Join \<Rightarrow>
          (if \<not> stop_thread f then Inr (Some (w\<lparr>destroying := DP_Done\<rparr>))
           else case callers w ! stop_caller w of
                  SP_Return _ \<Rightarrow> Inr (Some (w\<lparr>destroying := DP_Done, the_facade := f\<lparr>stop_thread := False\<rparr>\<rparr>))
                | _ \<Rightarrow> Inr None)
      | DP_Done \<Rightarrow> Inr (Some w))"

inductive facade_step :: "'w facade_world \<Rightarrow> 'w facade_world \<Rightarrow> bool" where
  call_stop: "destroying w = DP_Alive \<Longrightarrow> facade_step w (w\<lparr>callers := callers w @ [SP_Lock]\<rparr>)"
| call_stopAsync: "destroying w = DP_Alive \<Longrightarrow> facade_step w (stopAsync w)"
| stop_goes_on: "i < length (callers w) \<Longrightarrow> caller_step fuel now timed_out i w = Inr (Some w') \<Longrightarrow> facade_step w w'"
| destroy_goes_on: "destroy_step fuel now timed_out w = Inr (Some w') \<Longrightarrow> facade_step w w'"

section \<open>A network is stopped once\<close>

text \<open>A caller that has passed the lock first.\<close>

definition past_lock :: "stop_phase \<Rightarrow> bool" where
  "past_lock p \<longleftrightarrow> p \<noteq> SP_Lock \<and> p \<noteq> SP_Return False"

definition past_promise :: "stop_phase \<Rightarrow> bool" where
  "past_promise p \<longleftrightarrow> p \<in> {SP_Running True, SP_Return True}"

text \<open>What \<open>network_->stop()\<close> returns is always true.\<close>

definition true_phase :: "stop_phase \<Rightarrow> bool" where
  "true_phase p \<longleftrightarrow> p \<noteq> SP_Promise False \<and> p \<noteq> SP_Running False"

definition stop_inv :: "'w facade_world \<Rightarrow> bool" where
  "stop_inv w \<longleftrightarrow> (\<forall>p \<in> set (callers w). true_phase p) \<and>
     (\<forall>i < length (callers w). \<forall>j < length (callers w). past_lock (callers w ! i) \<and> past_lock (callers w ! j) \<longrightarrow> i = j) \<and>
     ((\<exists>p \<in> set (callers w). past_lock p) \<longrightarrow> should_stop (the_facade w)) \<and>
     (finished (the_facade w) \<longleftrightarrow> (\<exists>p \<in> set (callers w). past_promise p))"

lemma past_promise_lock: "past_promise p \<Longrightarrow> past_lock p"
  by (auto simp: past_promise_def past_lock_def)

lemma stop_inv_new: "\<not> finished f \<Longrightarrow> stop_inv (facade_world_new f)"
  by (simp add: stop_inv_def facade_world_new_def)

lemma stop_inv_append:
  assumes "stop_inv w"
  shows "stop_inv (w\<lparr>callers := callers w @ [SP_Lock]\<rparr>)"
  using assms by (auto simp: stop_inv_def true_phase_def past_lock_def past_promise_def nth_append)

lemma stop_inv_facade:
  assumes "stop_inv w" and "should_stop f = should_stop (the_facade w)" and "finished f = finished (the_facade w)"
  shows "stop_inv (w\<lparr>the_facade := f\<rparr>)"
  using assms by (simp add: stop_inv_def)

lemma stop_inv_cong:
  assumes "stop_inv w" and "callers w' = callers w" and "should_stop (the_facade w') = should_stop (the_facade w)"
    and "finished (the_facade w') = finished (the_facade w)"
  shows "stop_inv w'"
  using assms by (simp add: stop_inv_def)

lemma TaskFlowNetwork_stop_True: "TaskFlowNetwork_stop fuel now t nw = Inr (Some (b, nw')) \<Longrightarrow> b"
  by (auto simp: TaskFlowNetwork_stop_def)

lemma stop_step_cases:
  assumes "stop_step fuel now t p f = Inr (Some (p', f'))" and "true_phase p"
  shows "p = SP_Lock \<and> \<not> should_stop f \<and> p' = SP_Network \<and> should_stop f' \<and> finished f' = finished f \<or>
    p = SP_Lock \<and> p' = SP_Return False \<and> f' = f \<or>
    p = SP_Network \<and> p' = SP_Promise True \<and> should_stop f' = should_stop f \<and> finished f' = finished f \<or>
    p = SP_Promise True \<and> p' = SP_Running True \<and> \<not> finished f \<and> finished f' \<and> should_stop f' = should_stop f \<or>
    p = SP_Running True \<and> p' = SP_Return True \<and> should_stop f' = should_stop f \<and> finished f' = finished f \<or>
    p = p' \<and> f' = f"
  using assms by (cases p) (auto simp: stop_step_def true_phase_def split: if_splits dest: TaskFlowNetwork_stop_True)

text \<open>Changing the phase of one caller.\<close>

lemma bex_nth: "(\<exists>x \<in> set xs. P x) \<longleftrightarrow> (\<exists>j < length xs. P (xs ! j))"
  by (metis in_set_conv_nth)

lemma stop_inv_update:
  assumes inv: "stop_inv w" and i: "i < length (callers w)" and p: "callers w ! i = p" and t: "true_phase p'"
    and lock: "past_lock p' \<Longrightarrow> past_lock p \<or> \<not> should_stop (the_facade w)"
    and should: "should_stop f \<longleftrightarrow> should_stop (the_facade w) \<or> past_lock p'"
    and promise: "finished f \<longleftrightarrow> finished (the_facade w) \<or> past_promise p'" and mono: "past_promise p \<Longrightarrow> past_promise p'"
  shows "stop_inv (w\<lparr>the_facade := f, callers := (callers w)[i := p']\<rparr>)"
proof -
  let ?cs = "callers w" and ?ds = "(callers w)[i := p']"
  from inv have true: "\<forall>p \<in> set ?cs. true_phase p"
    and one: "\<And>j k. j < length ?cs \<Longrightarrow> k < length ?cs \<Longrightarrow> past_lock (?cs ! j) \<Longrightarrow> past_lock (?cs ! k) \<Longrightarrow> j = k"
    and sh: "\<And>j. j < length ?cs \<Longrightarrow> past_lock (?cs ! j) \<Longrightarrow> should_stop (the_facade w)"
    and fin: "finished (the_facade w) \<longleftrightarrow> (\<exists>j < length ?cs. past_promise (?cs ! j))"
    unfolding stop_inv_def bex_nth by blast+
  have at: "?ds ! j = (if j = i then p' else ?cs ! j)" if "j < length ?cs" for j using that i by simp
  have "\<forall>q \<in> set ?ds. true_phase q" using true t by (auto dest: set_update_subset_insert [THEN subsetD])
  moreover have "j = k" if "j < length ?ds" "k < length ?ds" "past_lock (?ds ! j)" "past_lock (?ds ! k)" for j k
  proof -
    have only: "k = i" if "past_lock p'" "k < length ?cs" "k \<noteq> i \<Longrightarrow> past_lock (?cs ! k)" for k
      using lock [OF that(1)] that(2,3) one [OF i that(2)] sh [OF that(2)] p by auto
    from that at [of j] at [of k] only one [of j k] show ?thesis by (auto split: if_splits)
  qed
  moreover have "should_stop f" if "j < length ?ds" "past_lock (?ds ! j)" for j
    using that at [of j] sh [of j] should by (auto split: if_splits)
  moreover have "finished f \<longleftrightarrow> (\<exists>j < length ?ds. past_promise (?ds ! j))"
    using fin promise mono at i p by (metis length_list_update)
  ultimately show ?thesis by (simp add: stop_inv_def bex_nth) blast
qed

lemma caller_step_inv:
  assumes inv: "stop_inv w" and i: "i < length (callers w)" and step: "caller_step fuel now t i w = Inr (Some w')"
  shows "stop_inv w'"
proof -
  from step obtain p' f' where s: "stop_step fuel now t (callers w ! i) (the_facade w) = Inr (Some (p', f'))"
    and w': "w' = w\<lparr>the_facade := f', callers := (callers w)[i := p']\<rparr>"
    by (auto simp: caller_step_def)
  from inv i have t: "true_phase (callers w ! i)" by (simp add: stop_inv_def)
  from inv i have sh: "past_lock (callers w ! i) \<Longrightarrow> should_stop (the_facade w)"
    and fin: "past_promise (callers w ! i) \<Longrightarrow> finished (the_facade w)"
    by (auto simp: stop_inv_def intro: nth_mem)
  note phases = past_lock_def past_promise_def true_phase_def
  note update = stop_inv_update [OF inv i refl, of p' f', folded w']
  show ?thesis
    using stop_step_cases [OF s t]
  proof (elim disjE conjE)
    assume same: "callers w ! i = p'" "f' = the_facade w"
    have "(callers w)[i := p'] = callers w" by (simp flip: same(1))
    with inv same(2) w' show ?thesis by simp
  qed (rule update; use t sh fin in \<open>auto simp: phases\<close>)+
qed

lemma destroy_step_frame:
  assumes "destroy_step fuel now t w = Inr (Some w')"
  shows "callers w' = callers w \<and> should_stop (the_facade w') = should_stop (the_facade w) \<and>
    finished (the_facade w') = finished (the_facade w)"
proof (cases "destroying w")
  case DP_Alive
  with assms show ?thesis by (auto simp: destroy_step_def Let_def split: option.splits)
next
  case DP_Join
  with assms show ?thesis
    by (cases "callers w ! stop_caller w") (auto simp: destroy_step_def Let_def split: if_splits)
qed (use assms in \<open>auto simp: destroy_step_def Let_def\<close>)

lemma destroy_step_inv: "stop_inv w \<Longrightarrow> destroy_step fuel now t w = Inr (Some w') \<Longrightarrow> stop_inv w'"
  using destroy_step_frame [of fuel now t w w'] stop_inv_cong [of w w'] by blast

lemma stopAsync_inv: "stop_inv w \<Longrightarrow> stop_inv (stopAsync w)"
proof (cases "stop_thread (the_facade w)")
  case False
  assume "stop_inv w"
  then have "stop_inv (w\<lparr>callers := callers w @ [SP_Lock]\<rparr>)" by (rule stop_inv_append)
  from stop_inv_cong [OF this, of "stopAsync w"] False show ?thesis by (simp add: stopAsync_def)
qed (simp add: stopAsync_def)

lemma facade_step_inv: "facade_step w w' \<Longrightarrow> stop_inv w \<Longrightarrow> stop_inv w'"
proof (induction rule: facade_step.induct)
  case (call_stop w)
  show ?case by (rule stop_inv_append [OF call_stop(2)])
next
  case (call_stopAsync w)
  show ?case by (rule stopAsync_inv [OF call_stopAsync(2)])
next
  case (stop_goes_on i w fuel now timed_out w')
  show ?case by (rule caller_step_inv [OF stop_goes_on(3,1,2)])
next
  case (destroy_goes_on fuel now timed_out w w')
  show ?case by (rule destroy_step_inv [OF destroy_goes_on(2,1)])
qed

interpretation facade_threads: step_system "\<lambda>w. \<exists>f. \<not> finished f \<and> w = facade_world_new f" facade_step stop_inv
proof unfold_locales
  fix w :: "'w facade_world"
  assume "\<exists>f. \<not> finished f \<and> w = facade_world_new f"
  then show "stop_inv w" using stop_inv_new by blast
next
  fix w w' :: "'w facade_world"
  assume "stop_inv w" "facade_step w w'"
  then show "stop_inv w'" using facade_step_inv [of w w'] by blast
qed

section \<open>Loading a data flow\<close>

text \<open>The plugins create and configure a component, known by \<open>ptr\<close>, for each of the pattern instances.\<close>

definition plugins_deliver ::
    "'w RTTRPluginFactory \<Rightarrow> 'w configure_code \<Rightarrow> (PatternInstance \<Rightarrow> component_ptr) \<Rightarrow> PatternInstance list \<Rightarrow> bool" where
  "plugins_deliver pf co ptr ps \<longleftrightarrow> (\<forall>p \<in> set ps.
     (\<forall>w. fst (instantiateComponent pf (getPatternName p) (instance_id p) w) = Inr (ptr p)) \<and>
     (\<forall>w. fst (co (ptr p) p w) = Inr ()))"

definition loaded_graph :: "GraphInstance \<Rightarrow> (PatternInstance \<Rightarrow> component_ptr) \<Rightarrow> PatternInstance list \<Rightarrow> ComponentGraph" where
  "loaded_graph g ptr ps = \<lparr>graph_instance = g, patterns = rev (map (\<lambda>p. (instance_id p, ptr p)) ps)\<rparr>"

lemma load_component_ok:
  assumes "plugins_deliver pf co ptr [p]" and "map_of (pattern_instances (graph_instance cg)) (instance_id p) = Some p"
    and "instance_id p \<notin> fst ` set (patterns cg)"
  shows "\<exists>w'. load_component pf co p cg w = (Inr (cg\<lparr>patterns := (instance_id p, ptr p) # patterns cg\<rparr>), w')"
proof -
  obtain r w1 where 1: "instantiateComponent pf (getPatternName p) (instance_id p) w = (r, w1)" by fastforce
  obtain r' w2 where 2: "co (ptr p) p w1 = (r', w2)" by fastforce
  from assms(1) 1 2 have "r = Inr (ptr p)" "r' = Inr ()" unfolding plugins_deliver_def by (metis fst_conv list.set_intros(1))+
  moreover have "(instance_id p, ptr p) \<notin> set (patterns cg)" using assms(3) by force
  ultimately show ?thesis using 1 2 assms(2)
    by (simp add: load_component_def cg_addPattern_def getPattern_def map_at_def List.insert_def)
qed

lemma load_components_ok:
  assumes "plugins_deliver pf co ptr ps" and "\<forall>p \<in> set (qs @ ps). map_of (pattern_instances g) (instance_id p) = Some p"
    and "distinct (map instance_id (qs @ ps))"
  shows "\<exists>w'. load_components pf co (ps @ rest) (loaded_graph g ptr qs) w =
    load_components pf co rest (loaded_graph g ptr (qs @ ps)) w'"
  using assms
proof (induction ps arbitrary: qs w)
  case (Cons p ps)
  have "plugins_deliver pf co ptr [p]" "plugins_deliver pf co ptr ps" using Cons.prems(1) by (simp_all add: plugins_deliver_def)
  moreover have "instance_id p \<notin> fst ` set (patterns (loaded_graph g ptr qs))"
    using Cons.prems(3) by (auto simp: loaded_graph_def)
  moreover have "map_of (pattern_instances (graph_instance (loaded_graph g ptr qs))) (instance_id p) = Some p"
    using Cons.prems(2) by (simp add: loaded_graph_def)
  ultimately obtain w1 where 1: "load_component pf co p (loaded_graph g ptr qs) w =
      (Inr ((loaded_graph g ptr qs)\<lparr>patterns := (instance_id p, ptr p) # patterns (loaded_graph g ptr qs)\<rparr>), w1)"
    using load_component_ok [of pf co ptr p "loaded_graph g ptr qs" w] by blast
  have eq: "(loaded_graph g ptr qs)\<lparr>patterns := (instance_id p, ptr p) # patterns (loaded_graph g ptr qs)\<rparr> =
      loaded_graph g ptr (qs @ [p])" by (simp add: loaded_graph_def)
  from Cons.IH [OF \<open>plugins_deliver pf co ptr ps\<close>, of "qs @ [p]" w1] Cons.prems(2,3) obtain w' where
    "load_components pf co (ps @ rest) (loaded_graph g ptr (qs @ [p])) w1 =
      load_components pf co rest (loaded_graph g ptr (qs @ p # ps)) w'" by auto
  then show ?case by (simp add: 1 eq) blast
qed (auto simp del: split_paired_Ex)

text \<open>The pattern instances of a graph are its values, each under its own name.\<close>

lemma getAll_named:
  assumes "graph_ok g"
  shows "\<forall>p \<in> set (getAll g). map_of (pattern_instances g) (instance_id p) = Some p"
    "distinct (map instance_id (getAll g))"
proof -
  have ok: "omap_ok (pattern_instances g)" and key: "\<And>k p. (k, p) \<in> set (pattern_instances g) \<Longrightarrow> instance_id p = k"
    using assms by (auto simp: graph_ok_def)
  have keys: "map instance_id (getAll g) = map fst (pattern_instances g)" using key by (auto simp: getAll_def)
  show "distinct (map instance_id (getAll g))" unfolding keys using ok by (simp add: omap_ok_def strict_sorted_iff)
  show "\<forall>p \<in> set (getAll g). map_of (pattern_instances g) (instance_id p) = Some p"
    using ok key by (auto simp: getAll_def omap_mem_iff [symmetric])
qed

lemma loadDataflow_prefix:
  assumes "graph_ok g" and "checkRunnable g = Inr None" and "getAll g = ps @ rest"
    and "plugins_deliver (fa_factory f) co ptr ps"
  shows "\<exists>w'. loadDataflow co g f w =
    (case load_components (fa_factory f) co rest (loaded_graph g ptr ps) w' of
       (e, cg, w1) \<Rightarrow> (e, f\<lparr>fa_graph_instance := Some g, fa_component_graph := Some cg\<rparr>, w1))"
proof -
  note named = getAll_named [OF assms(1), unfolded assms(3)]
  have "\<forall>p \<in> set ([] @ ps). map_of (pattern_instances g) (instance_id p) = Some p" "distinct (map instance_id ([] @ ps))"
    using named by simp_all
  from load_components_ok [OF assms(4) this, of rest w] obtain w' where
    "load_components (fa_factory f) co (ps @ rest) (loaded_graph g ptr []) w =
      load_components (fa_factory f) co rest (loaded_graph g ptr ps) w'" by auto
  moreover have "ComponentGraph_make g = loaded_graph g ptr []" by (simp add: ComponentGraph_make_def loaded_graph_def)
  ultimately show ?thesis using assms(2,3) by (intro exI [of _ w']) (simp add: loadDataflow_def)
qed

section \<open>Starting and stopping\<close>

lemma Facade_start_ok:
  assumes "fa_network f = Some nw" and "fa_component_graph f = Some cg"
    and "network_ready cls (setComponentGraph (Some cg) nw)"
  shows "\<exists>n nw' d. (\<forall>m \<ge> n. Facade_start cls m now f = Inr (Some (True, f\<lparr>fa_network := Some nw', fa_running := True\<rparr>))) \<and>
    task_flow_time_domains nw' = [d] \<and> domain_started d \<and> events (tftd_scheduler d) = [] \<and>
    (\<exists>g. full g (taskflow_graph d) \<and> component_graph cg 0 g)"
proof -
  from network_start_ok [OF assms(3), of now] obtain n nw' d where
    n: "\<forall>m \<ge> n. TaskFlowNetwork_start cls m now (setComponentGraph (Some cg) nw) = Inr (Some (True, nw'))"
    and d: "task_flow_time_domains nw' = [d]" "domain_started d" "events (tftd_scheduler d) = []"
      "\<exists>g. full g (taskflow_graph d) \<and> component_graph cg 0 g"
    by (auto simp: setComponentGraph_def)
  have "\<forall>m \<ge> n. Facade_start cls m now f = Inr (Some (True, f\<lparr>fa_network := Some nw', fa_running := True\<rparr>))"
    using n assms(1,2) by (simp add: Facade_start_def)
  with d show ?thesis by blast
qed

lemma Facade_stop_again: "should_stop f \<Longrightarrow> Facade_stop fuel now t f = Inr (Some (False, f))"
  by (simp add: Facade_stop_def numeral_eq_Suc stop_step_def)

lemma Facade_stop_ok:
  assumes "fa_network f = Some nw" and "\<forall>d \<in> set (task_flow_time_domains nw). domain_started d"
    and "\<not> should_stop f" and "\<not> finished f"
  shows "\<exists>n nw'. (\<forall>m \<ge> n. Facade_stop m now False f =
      Inr (Some (True, f\<lparr>should_stop := True, fa_network := Some nw', finished := True, fa_running := False\<rparr>))) \<and>
    list_all2 (\<lambda>d d'. domain_stopped d' \<and> taskflow_graph d' = taskflow_graph d)
      (task_flow_time_domains nw) (task_flow_time_domains nw')"
proof -
  from network_stop_ok [OF assms(2), of now] obtain n nw' where
    n: "\<forall>m \<ge> n. TaskFlowNetwork_stop m now False nw = Inr (Some (True, nw'))"
    and d: "list_all2 (\<lambda>d d'. domain_stopped d' \<and> tftd_time_domain d' = tftd_time_domain d \<and> taskflow_graph d' = taskflow_graph d)
      (task_flow_time_domains nw) (task_flow_time_domains nw')" by blast
  have "Facade_stop m now False f =
      Inr (Some (True, f\<lparr>should_stop := True, fa_network := Some nw', finished := True, fa_running := False\<rparr>))" if "n \<le> m" for m
    using n that assms by (simp add: Facade_stop_def numeral_eq_Suc stop_step_def)
  moreover have "list_all2 (\<lambda>d d'. domain_stopped d' \<and> taskflow_graph d' = taskflow_graph d)
      (task_flow_time_domains nw) (task_flow_time_domains nw')"
    using d by (rule list_all2_mono) simp
  ultimately show ?thesis by blast
qed

end
