(* ===== verification/FacadeProps.thy ===== *)
theory FacadeProps
  imports Facades Demo
begin

text \<open>What the facade guarantees to an application, from loading a graph to stopping its data flow.\<close>

section \<open>A concrete application\<close>

definition demo_ptr :: "PatternInstance \<Rightarrow> component_ptr" where
  "demo_ptr p = (if instance_id p = ''a'' then 0 else 1)"

definition demo_factory_of :: "Pattern \<Rightarrow> unit component_factory" where
  "demo_factory_of pat = \<lparr>cf_createPattern = Inr pat,
     cf_createComponent = (\<lambda>new_id w. (Inr (if new_id = ''a'' then 0 else 1), w))\<rparr>"

definition demo_types :: "unit rttr_type list" where
  "demo_types =
     [\<lparr>rt_name = ''T'', rt_is_class = True, rt_is_wrapper = False, rt_is_component_factory = False,
       rt_is_data_factory = True, rt_ctor_valid = True, rt_instance = Some (DataFactoryObject ''t'')\<rparr>,
      \<lparr>rt_name = ''S'', rt_is_class = True, rt_is_wrapper = False, rt_is_component_factory = True,
       rt_is_data_factory = False, rt_ctor_valid = True, rt_instance = Some (ComponentFactoryObject (demo_factory_of source_pattern))\<rparr>,
      \<lparr>rt_name = ''K'', rt_is_class = True, rt_is_wrapper = False, rt_is_component_factory = True,
       rt_is_data_factory = False, rt_ctor_valid = True, rt_instance = Some (ComponentFactoryObject (demo_factory_of sink_pattern))\<rparr>]"

definition demo_plugins :: "unit RTTRPluginFactory" where
  "demo_plugins = \<lparr>pattern_names = [''s'', ''k''], datatype_names = [''T''], datatype_traact_plugin = [''t''],
     pattern_to_traact_plugin = [(''k'', demo_factory_of sink_pattern), (''s'', demo_factory_of source_pattern)]\<rparr>"

definition demo_configure :: "unit configure_code" where
  "demo_configure c p w = (Inr (), w)"

definition demo_network :: TaskFlowNetwork where
  "demo_network = \<lparr>nw_component_graph = None, generic_factory_objects = None, master_source_finished = False,
     dataflow_state = None, task_flow_time_domains = [], nw_callbacks = no_callbacks,
     nw_heap = \<lparr>heap_next = 0, heap_live = []\<rparr>\<rparr>"

lemma demo_plugins_init: "RTTRPluginFactory_init demo_types RTTRPluginFactory_empty = Inr demo_plugins"
proof -
  have "pat_name source_pattern = ''s''" "pat_name sink_pattern = ''k''" by code_simp+
  then show ?thesis
    by (simp add: RTTRPluginFactory_init_def demo_types_def add_type_def addDatatype_def pf_addPattern_def
        RTTRPluginFactory_empty_def demo_factory_of_def demo_plugins_def less_char_def)
qed






section \<open>From a graph to a data flow that was stopped\<close>




section \<open>Plugins that do not deliver\<close>

text \<open>C34: Loading a graph with a pattern that no plugin provides throws \<open>std::invalid_argument\<close>, with the components of
  the pattern instances before it loaded. The handler for an unknown pattern, which throws \<open>std::out_of_range\<close>,
  is not the one that runs: the plugin factory throws \<open>std::runtime_error\<close>.\<close>

theorem unknown_pattern_rejected:
  assumes "graph_ok g" and "checkRunnable g = Inr None" and "getAll g = ps @ p # rest"
    and "plugins_deliver (fa_factory f) co ptr ps"
    and "map_of (pattern_to_traact_plugin (fa_factory f)) (getPatternName p) = None"
  shows "\<exists>w'. loadDataflow co g f w = (Some InvalidArgument,
    f\<lparr>fa_graph_instance := Some g, fa_component_graph := Some (loaded_graph g ptr ps)\<rparr>, w')"
proof -
  from loadDataflow_prefix [OF assms(1-4)] obtain w' where w': "loadDataflow co g f w =
    (case load_components (fa_factory f) co (p # rest) (loaded_graph g ptr ps) w' of
       (e, cg, w1) \<Rightarrow> (e, f\<lparr>fa_graph_instance := Some g, fa_component_graph := Some cg\<rparr>, w1))" by blast
  have "load_component (fa_factory f) co p cg w' = (Inl RuntimeError, w')" for cg
    using assms(5) by (simp add: load_component_def instantiateComponent_def)
  then show ?thesis unfolding w' by (simp add: rethrown_def)
qed

theorem unknown_pattern_rejected_witness:
  "fst (loadDataflow demo_configure demo_graph (Facade_make RTTRPluginFactory_empty demo_network) ()) = Some InvalidArgument"
proof -
  have g: "graph_ok demo_graph" "checkRunnable demo_graph = Inr None"
    using demo_inv demo_domain by (simp_all add: graph_inv_def domain_graph_ok_def demo_cg_def)
  have "length (getAll demo_graph) = 2" by code_simp
  then obtain p rest where all: "getAll demo_graph = [] @ p # rest" by (cases "getAll demo_graph") auto
  have "plugins_deliver (fa_factory (Facade_make RTTRPluginFactory_empty demo_network)) demo_configure demo_ptr []"
    "map_of (pattern_to_traact_plugin (fa_factory (Facade_make RTTRPluginFactory_empty demo_network))) (getPatternName p) = None"
    by (simp_all add: plugins_deliver_def Facade_make_def RTTRPluginFactory_empty_def)
  from unknown_pattern_rejected [OF g all this, of "()"] show ?thesis by auto
qed

section \<open>Threads\<close>

text \<open>C7: However many threads call \<open>stop\<close> and \<open>stopAsync\<close>, and whatever the destructor does meanwhile, at most one of
  them goes on to stop the network, and it finds the promise without a value: no interleaving makes
  \<open>set_value\<close> throw. The promise has its value exactly when that thread has come past it.\<close>

theorem stop_runs_once:
  assumes "\<not> finished f" and "run facade_step (facade_world_new f) w"
    and "i < length (callers w)" and "past_lock (callers w ! i)"
  shows "(\<forall>j < length (callers w). past_lock (callers w ! j) \<longrightarrow> j = i) \<and>
    (finished (the_facade w) \<longleftrightarrow> callers w ! i \<in> {SP_Running True, SP_Return True}) \<and>
    (callers w ! i = SP_Promise b \<longrightarrow>
      (\<exists>w'. caller_step fuel now timed_out i w = Inr (Some w') \<and> callers w' ! i = SP_Running True))"
proof -
  have inv: "stop_inv w" using facade_threads.reach_inv assms(1,2) by blast
  then have one: "\<forall>j < length (callers w). past_lock (callers w ! j) \<longrightarrow> j = i"
    and true: "true_phase (callers w ! i)" using assms(3,4) by (auto simp: stop_inv_def)
  have "finished (the_facade w) \<longleftrightarrow> (\<exists>j < length (callers w). past_promise (callers w ! j))"
    using inv by (simp add: stop_inv_def bex_nth)
  also have "\<dots> \<longleftrightarrow> past_promise (callers w ! i)" using one assms(3) past_promise_lock by blast
  finally have fin: "finished (the_facade w) \<longleftrightarrow> callers w ! i \<in> {SP_Running True, SP_Return True}"
    by (simp add: past_promise_def)
  have "\<exists>w'. caller_step fuel now timed_out i w = Inr (Some w') \<and> callers w' ! i = SP_Running True"
    if "callers w ! i = SP_Promise b"
    using that fin true assms(3) by (cases b) (simp_all add: caller_step_def stop_step_def true_phase_def)
  with one fin show ?thesis by blast
qed

text \<open>A facade whose network has no time domains, stopped by one thread.\<close>

definition demo_facade :: "unit Facade" where
  "demo_facade = Facade_make demo_plugins demo_network"

theorem stop_runs_once_witness:
  "\<exists>w. run facade_step (facade_world_new demo_facade) w \<and> callers w = [SP_Promise True] \<and> \<not> finished (the_facade w)"
proof -
  let ?w0 = "facade_world_new demo_facade"
  let ?w1 = "?w0\<lparr>callers := [SP_Lock]\<rparr>"
  let ?f2 = "demo_facade\<lparr>should_stop := True\<rparr>"
  let ?w2 = "?w0\<lparr>the_facade := ?f2, callers := [SP_Network]\<rparr>"
  let ?w3 = "?w0\<lparr>the_facade := ?f2, callers := [SP_Promise True]\<rparr>"
  have "facade_step ?w0 (?w0\<lparr>callers := callers ?w0 @ [SP_Lock]\<rparr>)"
    by (rule call_stop) (simp add: facade_world_new_def)
  then have 1: "facade_step ?w0 ?w1" by (simp add: facade_world_new_def)
  have f: "\<not> should_stop demo_facade" "\<not> finished demo_facade" "\<exists>nw. fa_network demo_facade = Some nw \<and> task_flow_time_domains nw = []"
    by (simp_all add: demo_facade_def Facade_make_def demo_network_def setMasterSourceFinishedCallback_def setGenericFactoryObjects_def)
  have "caller_step 0 0 False 0 ?w1 = Inr (Some ?w2)"
    using f(1) by (simp add: caller_step_def stop_step_def facade_world_new_def)
  then have 2: "facade_step ?w1 ?w2" by (rule stop_goes_on [rotated]) simp
  have "caller_step 0 0 False 0 ?w2 = Inr (Some ?w3)"
    using f(3) by (auto simp: caller_step_def stop_step_def facade_world_new_def TaskFlowNetwork_stop_def)
  then have 3: "facade_step ?w2 ?w3" by (rule stop_goes_on [rotated]) simp
  have r: "run facade_step ?w0 ?w3" using 1 2 3 by (meson run_refl run_step)
  from stop_runs_once [OF f(2) r, of 0 True 0 0 False] r show ?thesis
    by (intro exI [of _ ?w3]) (simp add: past_lock_def)
qed

text \<open>C36: The destructor releases the network before it joins the thread of \<open>stopAsync\<close>: when the data flow has asked to
  be stopped and that thread has not got hold of the lock before the destructor comes to its join, the thread
  uses the released network, and the destructor waits for it.\<close>

theorem destructor_releases_used_network:
  assumes "fa_network f = Some nw" and "TaskFlowNetwork_stop fuel now timed_out nw = Inr (Some (b, nw'))"
    and "\<not> stop_thread f" and "\<not> should_stop f"
  shows "\<exists>w. run facade_step (facade_world_new f) w \<and> destroying w = DP_Join \<and> callers w = [SP_Network] \<and>
    stop_caller w = 0 \<and> stop_thread (the_facade w) \<and>
    (\<forall>fuel now timed_out. caller_step fuel now timed_out 0 w = Inl UndefinedBehaviour \<and>
      destroy_step fuel now timed_out w = Inr None)"
proof -
  let ?w0 = "facade_world_new f"
  let ?f1 = "f\<lparr>stop_thread := True\<rparr>"
  let ?w1 = "?w0\<lparr>the_facade := ?f1, stop_caller := 0, callers := [SP_Lock]\<rparr>"
  let ?f2 = "?f1\<lparr>fa_network := Some nw'\<rparr>"
  let ?w2 = "?w1\<lparr>destroying := DP_Release, the_facade := ?f2\<rparr>"
  let ?f3 = "?f2\<lparr>fa_network := None, fa_component_graph := None, fa_graph_instance := None\<rparr>"
  let ?w3 = "?w2\<lparr>destroying := DP_Join, the_facade := ?f3\<rparr>"
  let ?w4 = "?w3\<lparr>the_facade := ?f3\<lparr>should_stop := True\<rparr>, callers := [SP_Network]\<rparr>"
  have "facade_step ?w0 (stopAsync ?w0)" by (rule call_stopAsync) (simp add: facade_world_new_def)
  then have 1: "facade_step ?w0 ?w1" using assms(3) by (simp add: stopAsync_def facade_world_new_def)
  have "destroy_step fuel now timed_out ?w1 = Inr (Some ?w2)"
    using assms(1,2) by (simp add: destroy_step_def facade_world_new_def)
  then have 2: "facade_step ?w1 ?w2" by (rule destroy_goes_on)
  have "destroy_step fuel now timed_out ?w2 = Inr (Some ?w3)" by (simp add: destroy_step_def facade_world_new_def)
  then have 3: "facade_step ?w2 ?w3" by (rule destroy_goes_on)
  have "caller_step fuel now timed_out 0 ?w3 = Inr (Some ?w4)"
    using assms(4) by (simp add: caller_step_def stop_step_def facade_world_new_def)
  then have 4: "facade_step ?w3 ?w4" by (rule stop_goes_on [rotated]) simp
  from 1 2 3 4 have "run facade_step ?w0 ?w4" by (meson run_refl run_step)
  moreover have "caller_step fuel now timed_out 0 ?w4 = Inl UndefinedBehaviour" "destroy_step fuel now timed_out ?w4 = Inr None"
    for fuel now timed_out by (simp_all add: caller_step_def stop_step_def destroy_step_def)
  ultimately show ?thesis by (intro exI [of _ ?w4]) simp
qed

theorem destructor_releases_used_network_witness:
  "\<exists>w. run facade_step (facade_world_new demo_facade) w \<and> caller_step 0 0 False 0 w = Inl UndefinedBehaviour"
proof -
  let ?nw = "setMasterSourceFinishedCallback (setGenericFactoryObjects [''t''] demo_network)"
  have "fa_network demo_facade = Some ?nw" "\<not> stop_thread demo_facade" "\<not> should_stop demo_facade"
    by (simp_all add: demo_facade_def Facade_make_def demo_plugins_def)
  moreover have "TaskFlowNetwork_stop 0 0 False ?nw = Inr (Some (True, ?nw))"
    by (rule network_stop_again) (simp add: demo_network_def setMasterSourceFinishedCallback_def setGenericFactoryObjects_def)
  ultimately show ?thesis using destructor_releases_used_network [of demo_facade ?nw 0 0 False True ?nw] by blast
qed

end
