(* ===== verification/Json.thy ===== *)
theory Json
  imports Datatypes "HOL-Library.AList"
begin

text \<open>
  The part of \<open>nlohmann::json\<close> that the code uses. The library is outside the repository: the record
  \<open>json_lib\<close> holds its operations as a parameter over the type \<open>'j\<close> of its values, and \<open>json_laws\<close>
  states what its documentation says of them. \<open>json_values\<close> is a library that obeys the laws.

  A value that the code changes in place is an argument and a result. \<open>null\<close> becomes an object or an
  array when it is first assigned to or appended to; the operations throw on values of another type.
\<close>

section \<open>The library\<close>

datatype json_type = JNull | JBool | JInteger | JUnsigned | JFloat | JString | JArray | JObject

record 'j json_lib =
  jtype :: "'j \<Rightarrow> json_type"                       \<comment> \<open>\<open>type()\<close>\<close>
  jnull :: 'j                                        \<comment> \<open>the default constructor\<close>
  jassign :: "string \<Rightarrow> 'j \<Rightarrow> 'j \<Rightarrow> 'j res"         \<comment> \<open>\<open>x[key] = v\<close>\<close>
  jfind :: "string \<Rightarrow> 'j \<Rightarrow> 'j option"              \<comment> \<open>\<open>find\<close> and \<open>contains\<close>\<close>
  jemplace_back :: "'j \<Rightarrow> 'j \<Rightarrow> 'j res"            \<comment> \<open>the new element, then the array\<close>
  jelements :: "'j \<Rightarrow> 'j list"                      \<comment> \<open>what \<open>begin()\<close> to \<open>end()\<close> visits\<close>
  jreplace :: "nat \<Rightarrow> 'j \<Rightarrow> 'j \<Rightarrow> 'j res"          \<comment> \<open>\<open>x.at(index) = v\<close>\<close>
  of_string :: "string \<Rightarrow> 'j"
  of_int_value :: "int \<Rightarrow> 'j"
  of_unsigned :: "nat \<Rightarrow> 'j"
  of_double :: "rat \<Rightarrow> 'j"
  of_bool_value :: "bool \<Rightarrow> 'j"
  of_strings :: "string list \<Rightarrow> 'j"
  of_ints :: "int list \<Rightarrow> 'j"
  of_pair :: "string \<times> string \<Rightarrow> 'j"
  of_int_map :: "(string, int) omap \<Rightarrow> 'j"
  get_string :: "'j \<Rightarrow> string res"                  \<comment> \<open>\<open>get\<close>, \<open>get_to\<close> and the implicit conversions\<close>
  get_int :: "'j \<Rightarrow> int res"
  get_unsigned :: "'j \<Rightarrow> nat res"
  get_double :: "'j \<Rightarrow> rat res"
  get_bool :: "'j \<Rightarrow> bool res"
  get_strings :: "'j \<Rightarrow> string list res"
  get_ints :: "'j \<Rightarrow> int list res"
  get_pair :: "'j \<Rightarrow> (string \<times> string) res"
  get_int_map :: "'j \<Rightarrow> (string, int) omap res"

text \<open>Assigning to a key, appending and replacing, as documented.\<close>

definition json_assign_law :: "'j json_lib \<Rightarrow> bool" where
  "json_assign_law J \<longleftrightarrow> (\<forall>k v j. jtype J j \<in> {JNull, JObject} \<longrightarrow>
     (\<exists>j'. jassign J k v j = Inr j' \<and> jtype J j' = JObject \<and>
       (\<forall>k'. jfind J k' j' = (if k' = k then Some v else jfind J k' j))))"

definition json_array_laws :: "'j json_lib \<Rightarrow> bool" where
  "json_array_laws J \<longleftrightarrow>
     (\<forall>v j. jtype J j \<in> {JNull, JArray} \<longrightarrow>
       (\<exists>j'. jemplace_back J v j = Inr j' \<and> jtype J j' = JArray \<and>
             jelements J j' = jelements J j @ [v])) \<and>
     (\<forall>i v j. jtype J j = JArray \<and> i < length (jelements J j) \<longrightarrow>
       (\<exists>j'. jreplace J i v j = Inr j' \<and> jtype J j' = JArray \<and>
             jelements J j' = (jelements J j)[i := v]))"

text \<open>
  What is converted to JSON is read back. The numbers of the model stand for values of the C++ types,
  which a JSON number holds exactly.
\<close>

definition json_conversion_laws :: "'j json_lib \<Rightarrow> bool" where
  "json_conversion_laws J \<longleftrightarrow>
     (\<forall>s. get_string J (of_string J s) = Inr s \<and> jtype J (of_string J s) = JString) \<and>
     (\<forall>i. get_int J (of_int_value J i) = Inr i \<and> jtype J (of_int_value J i) = JInteger) \<and>
     (\<forall>n. get_unsigned J (of_unsigned J n) = Inr n) \<and>
     (\<forall>r. get_double J (of_double J r) = Inr r) \<and>
     (\<forall>b. get_bool J (of_bool_value J b) = Inr b) \<and>
     (\<forall>xs. get_strings J (of_strings J xs) = Inr xs) \<and>
     (\<forall>xs. get_ints J (of_ints J xs) = Inr xs) \<and>
     (\<forall>p. get_pair J (of_pair J p) = Inr p) \<and>
     (\<forall>m. omap_ok m \<longrightarrow> get_int_map J (of_int_map J m) = Inr m)"

definition json_laws :: "'j json_lib \<Rightarrow> bool" where
  "json_laws J \<longleftrightarrow> jtype J (jnull J) = JNull \<and> jelements J (jnull J) = [] \<and>
     (\<forall>k. jfind J k (jnull J) = None) \<and>
     json_assign_law J \<and> json_array_laws J \<and> json_conversion_laws J"

lemma json_lawsD:
  assumes "json_laws J"
  shows "jtype J (jnull J) = JNull" "jelements J (jnull J) = []" "jfind J k (jnull J) = None"
    "get_string J (of_string J s) = Inr s" "get_int J (of_int_value J i) = Inr i"
    "get_unsigned J (of_unsigned J u) = Inr u"
    "get_double J (of_double J r) = Inr r" "get_bool J (of_bool_value J b) = Inr b"
    "get_strings J (of_strings J ss) = Inr ss" "get_ints J (of_ints J ns) = Inr ns"
    "get_pair J (of_pair J p) = Inr p" "omap_ok m \<Longrightarrow> get_int_map J (of_int_map J m) = Inr m"
  using assms by (cases p; simp add: json_laws_def json_conversion_laws_def)+

lemma json_assign_cases:
  assumes "json_laws J" and "jtype J j \<in> {JNull, JObject}"
  obtains j' where "jassign J k v j = Inr j'" and "jtype J j' = JObject"
    and "\<And>k'. jfind J k' j' = (if k' = k then Some v else jfind J k' j)"
  using assms unfolding json_laws_def json_assign_law_def by metis

lemma json_emplace_cases:
  assumes "json_laws J" and "jtype J j \<in> {JNull, JArray}"
  obtains j' where "jemplace_back J v j = Inr j'" and "jtype J j' = JArray"
    and "jelements J j' = jelements J j @ [v]"
  using assms unfolding json_laws_def json_array_laws_def by metis

lemma json_replace_cases:
  assumes "json_laws J" and "jtype J j = JArray" and "i < length (jelements J j)"
  obtains j' where "jreplace J i v j = Inr j'" and "jtype J j' = JArray"
    and "jelements J j' = (jelements J j)[i := v]"
  using assms unfolding json_laws_def json_array_laws_def by metis

section \<open>Access\<close>

text \<open>
  \<open>at(key)\<close> throws for a missing key; \<open>operator[]\<close> on a constant object asserts that the key is there;
  on a value that may change it inserts \<open>null\<close>.
\<close>

definition json_at :: "'j json_lib \<Rightarrow> 'j \<Rightarrow> string \<Rightarrow> 'j res" where
  "json_at J j k = (case jfind J k j of Some v \<Rightarrow> Inr v | None \<Rightarrow> Inl JsonException)"

definition json_index_const :: "'j json_lib \<Rightarrow> 'j \<Rightarrow> string \<Rightarrow> 'j res" where
  "json_index_const J j k =
     (case jfind J k j of
        Some v \<Rightarrow> Inr v
      | None \<Rightarrow> Inl (if jtype J j = JObject then AssertionFailed else JsonException))"

definition json_index :: "'j json_lib \<Rightarrow> 'j \<Rightarrow> string \<Rightarrow> 'j res" where
  "json_index J j k =
     (case jfind J k j of
        Some v \<Rightarrow> Inr v
      | None \<Rightarrow> if jtype J j \<in> {JNull, JObject} then Inr (jnull J) else Inl JsonException)"

definition json_element :: "'j json_lib \<Rightarrow> 'j \<Rightarrow> nat \<Rightarrow> 'j res" where
  "json_element J j i =
     (if jtype J j \<noteq> JArray then Inl JsonException
      else if i < length (jelements J j) then Inr (jelements J j ! i) else Inl JsonException)"

text \<open>\<open>x[k1][k2] = v\<close>.\<close>

definition json_assign2 :: "'j json_lib \<Rightarrow> string \<Rightarrow> string \<Rightarrow> 'j \<Rightarrow> 'j \<Rightarrow> 'j res" where
  "json_assign2 J k1 k2 v j =
     bind_res (json_index J j k1) (\<lambda>inner.
     bind_res (jassign J k2 v inner) (\<lambda>inner'. jassign J k1 inner' j))"

text \<open>A sequence of assignments and a loop that appends what it converts.\<close>

definition set_fields :: "'j json_lib \<Rightarrow> (string \<times> 'j) list \<Rightarrow> 'j \<Rightarrow> 'j res" where
  "set_fields J kvs j = fold_res (\<lambda>(k, v). jassign J k v) kvs j"

definition append_all :: "'j json_lib \<Rightarrow> ('a \<Rightarrow> 'j res) \<Rightarrow> 'a list \<Rightarrow> 'j \<Rightarrow> 'j res" where
  "append_all J to_json xs j =
     fold_res (\<lambda>x j. bind_res (to_json x) (\<lambda>jx. jemplace_back J jx j)) xs j"

lemma json_find_access:
  "jfind J k j = Some v \<Longrightarrow> json_at J j k = Inr v"
  "jfind J k j = Some v \<Longrightarrow> json_index_const J j k = Inr v"
  "jfind J k j = Some v \<Longrightarrow> json_index J j k = Inr v"
  by (simp_all add: json_at_def json_index_const_def json_index_def)

lemma set_fields_cases:
  assumes "json_laws J" and "jtype J j \<in> {JNull, JObject}" and "kvs \<noteq> []"
  obtains j' where "set_fields J kvs j = Inr j'" and "jtype J j' = JObject"
    and "\<And>k. jfind J k j' = (case map_of (rev kvs) k of Some v \<Rightarrow> Some v | None \<Rightarrow> jfind J k j)"
proof -
  have "\<exists>j'. set_fields J kvs j = Inr j' \<and> jtype J j' = (if kvs = [] then jtype J j else JObject) \<and>
    (\<forall>k. jfind J k j' = (case map_of (rev kvs) k of Some v \<Rightarrow> Some v | None \<Rightarrow> jfind J k j))"
    using assms(2)
  proof (induction kvs arbitrary: j)
    case Nil
    then show ?case by (simp add: set_fields_def)
  next
    case (Cons kv kvs)
    obtain k v where kv: "kv = (k, v)" by (cases kv)
    obtain j1 where j1: "jassign J k v j = Inr j1" "jtype J j1 = JObject"
      "\<And>k'. jfind J k' j1 = (if k' = k then Some v else jfind J k' j)"
      using json_assign_cases [OF assms(1) Cons.prems, of k v] by metis
    from Cons.IH [of j1] j1(2) obtain j2 where j2: "set_fields J kvs j1 = Inr j2" "jtype J j2 = JObject"
      "\<And>k. jfind J k j2 = (case map_of (rev kvs) k of Some v \<Rightarrow> Some v | None \<Rightarrow> jfind J k j1)"
      by auto
    have "set_fields J (kv # kvs) j = Inr j2" using j1(1) j2(1) by (simp add: set_fields_def kv)
    with j2(2,3) j1(3) show ?case by (auto simp: kv map_add_def split: option.splits)
  qed
  with that assms(3) show ?thesis by auto
qed

lemma json_assign2_cases:
  assumes "json_laws J" and "jtype J j \<in> {JNull, JObject}"
    and "\<And>e. jfind J k1 j = Some e \<Longrightarrow> jtype J e \<in> {JNull, JObject}"
  obtains j' e where "json_assign2 J k1 k2 v j = Inr j'" and "jtype J j' = JObject"
    and "jfind J k1 j' = Some e" and "jtype J e = JObject"
    and "\<And>k. jfind J k e = (if k = k2 then Some v else Option.bind (jfind J k1 j) (jfind J k))"
    and "\<And>k. k \<noteq> k1 \<Longrightarrow> jfind J k j' = jfind J k j"
proof -
  obtain i where i: "json_index J j k1 = Inr i" "jtype J i \<in> {JNull, JObject}"
    and fi: "\<And>k. jfind J k i = Option.bind (jfind J k1 j) (jfind J k)"
  proof (cases "jfind J k1 j")
    case None
    with assms(1,2) show ?thesis by (intro that [of "jnull J"]) (auto simp: json_index_def json_lawsD)
  next
    case (Some e)
    with assms(3) show ?thesis by (intro that [of e]) (auto simp: json_index_def)
  qed
  obtain e where e: "jassign J k2 v i = Inr e" "jtype J e = JObject"
    "\<And>k. jfind J k e = (if k = k2 then Some v else jfind J k i)"
    using json_assign_cases [OF assms(1) i(2), of k2 v] by metis
  obtain j' where j': "jassign J k1 e j = Inr j'" "jtype J j' = JObject"
    "\<And>k. jfind J k j' = (if k = k1 then Some e else jfind J k j)"
    using json_assign_cases [OF assms(1,2), of k1 e] by metis
  show ?thesis
    using i(1) e j' fi by (intro that [of j' e]) (simp_all add: json_assign2_def)
qed

lemma append_all_cases:
  assumes "json_laws J" and "jtype J j \<in> {JNull, JArray}"
    and "\<And>x. x \<in> set xs \<Longrightarrow> \<exists>jx. f x = Inr jx \<and> P x jx"
  obtains j' js where "append_all J f xs j = Inr j'" and "jelements J j' = jelements J j @ js"
    and "list_all2 P xs js" and "jtype J j' = (if xs = [] then jtype J j else JArray)"
proof -
  have "\<exists>j' js. append_all J f xs j = Inr j' \<and> jelements J j' = jelements J j @ js \<and>
    list_all2 P xs js \<and> jtype J j' = (if xs = [] then jtype J j else JArray)"
    using assms(2,3)
  proof (induction xs arbitrary: j)
    case Nil
    then show ?case by (simp add: append_all_def)
  next
    case (Cons x xs)
    from Cons.prems(2) obtain jx where jx: "f x = Inr jx" "P x jx" by auto
    obtain j1 where j1: "jemplace_back J jx j = Inr j1" "jtype J j1 = JArray"
      "jelements J j1 = jelements J j @ [jx]"
      by (rule json_emplace_cases [OF assms(1) Cons.prems(1), of jx])
    from Cons.IH [of j1] Cons.prems(2) j1(2) obtain j2 js where j2: "append_all J f xs j1 = Inr j2"
      "jelements J j2 = jelements J j1 @ js" "list_all2 P xs js" "jtype J j2 = JArray" by auto
    have "append_all J f (x # xs) j = Inr j2" using jx(1) j1(1) j2(1) by (simp add: append_all_def)
    moreover have "jelements J j2 = jelements J j @ (jx # js)" using j1(3) j2(2) by simp
    ultimately show ?case using j2(3,4) jx(2) by fastforce
  qed
  with that show ?thesis by blast
qed

lemma map_res_list_all2: "list_all2 (\<lambda>x j. g j = Inr x) xs js \<Longrightarrow> map_res g js = Inr xs"
  by (simp add: map_res_Inr list_all2_conv_all_nth)

section \<open>A library that obeys the laws\<close>

datatype jvalue =
    JVNull
  | JVBool bool
  | JVInt int
  | JVUnsigned nat
  | JVDouble rat
  | JVString string
  | JVArray "jvalue list"
  | JVObject "(string \<times> jvalue) list"

fun jv_type :: "jvalue \<Rightarrow> json_type" where
  "jv_type JVNull = JNull"
| "jv_type (JVBool _) = JBool"
| "jv_type (JVInt _) = JInteger"
| "jv_type (JVUnsigned _) = JUnsigned"
| "jv_type (JVDouble _) = JFloat"
| "jv_type (JVString _) = JString"
| "jv_type (JVArray _) = JArray"
| "jv_type (JVObject _) = JObject"

fun jv_assign :: "string \<Rightarrow> jvalue \<Rightarrow> jvalue \<Rightarrow> jvalue res" where
  "jv_assign k v JVNull = Inr (JVObject [(k, v)])"
| "jv_assign k v (JVObject kvs) = Inr (JVObject (AList.update k v kvs))"
| "jv_assign k v j = Inl JsonException"

fun jv_find :: "string \<Rightarrow> jvalue \<Rightarrow> jvalue option" where
  "jv_find k (JVObject kvs) = map_of kvs k"
| "jv_find k j = None"

fun jv_emplace_back :: "jvalue \<Rightarrow> jvalue \<Rightarrow> jvalue res" where
  "jv_emplace_back v JVNull = Inr (JVArray [v])"
| "jv_emplace_back v (JVArray vs) = Inr (JVArray (vs @ [v]))"
| "jv_emplace_back v j = Inl JsonException"

fun jv_elements :: "jvalue \<Rightarrow> jvalue list" where
  "jv_elements JVNull = []"
| "jv_elements (JVArray vs) = vs"
| "jv_elements (JVObject kvs) = map snd kvs"
| "jv_elements j = [j]"

fun jv_replace :: "nat \<Rightarrow> jvalue \<Rightarrow> jvalue \<Rightarrow> jvalue res" where
  "jv_replace i v (JVArray vs) =
     (if i < length vs then Inr (JVArray (vs[i := v])) else Inl JsonException)"
| "jv_replace i v j = Inl JsonException"

fun jv_string :: "jvalue \<Rightarrow> string res" where
  "jv_string (JVString s) = Inr s"
| "jv_string j = Inl JsonException"

fun jv_int :: "jvalue \<Rightarrow> int res" where
  "jv_int (JVInt i) = Inr i"
| "jv_int (JVUnsigned n) = Inr (int n)"
| "jv_int (JVBool b) = Inr (if b then 1 else 0)"
| "jv_int (JVDouble r) = Inr (if 0 \<le> r then floor r else - floor (- r))"
| "jv_int j = Inl JsonException"

fun jv_unsigned :: "jvalue \<Rightarrow> nat res" where
  "jv_unsigned (JVUnsigned n) = Inr n"
| "jv_unsigned (JVInt i) = Inr (nat (i mod 2 ^ 64))"
| "jv_unsigned (JVBool b) = Inr (if b then 1 else 0)"
| "jv_unsigned (JVDouble r) = Inr (nat (floor r))"
| "jv_unsigned j = Inl JsonException"

fun jv_double :: "jvalue \<Rightarrow> rat res" where
  "jv_double (JVInt i) = Inr (of_int i)"
| "jv_double (JVUnsigned n) = Inr (of_nat n)"
| "jv_double (JVBool b) = Inr (if b then 1 else 0)"
| "jv_double (JVDouble r) = Inr r"
| "jv_double j = Inl JsonException"

fun jv_bool :: "jvalue \<Rightarrow> bool res" where
  "jv_bool (JVBool b) = Inr b"
| "jv_bool j = Inl JsonException"

fun jv_list :: "(jvalue \<Rightarrow> 'a res) \<Rightarrow> jvalue \<Rightarrow> 'a list res" where
  "jv_list get (JVArray vs) = map_res get vs"
| "jv_list get j = Inl JsonException"

fun jv_pair :: "jvalue \<Rightarrow> (string \<times> string) res" where
  "jv_pair (JVArray [a, b]) = bind_res (jv_string a) (\<lambda>x. bind_res (jv_string b) (\<lambda>y. Inr (x, y)))"
| "jv_pair j = Inl JsonException"

fun jv_int_map :: "jvalue \<Rightarrow> (string, int) omap res" where
  "jv_int_map (JVObject kvs) =
     map_res (\<lambda>(k, v). bind_res (jv_int v) (\<lambda>i. Inr (k, i))) kvs"
| "jv_int_map j = Inl JsonException"

definition json_values :: "jvalue json_lib" where
  "json_values =
     \<lparr>jtype = jv_type, jnull = JVNull, jassign = jv_assign, jfind = jv_find,
      jemplace_back = jv_emplace_back, jelements = jv_elements, jreplace = jv_replace,
      of_string = JVString, of_int_value = JVInt, of_unsigned = JVUnsigned,
      of_double = JVDouble, of_bool_value = JVBool,
      of_strings = (\<lambda>xs. JVArray (map JVString xs)), of_ints = (\<lambda>xs. JVArray (map JVInt xs)),
      of_pair = (\<lambda>(a, b). JVArray [JVString a, JVString b]),
      of_int_map = (\<lambda>m. JVObject (map (\<lambda>(k, i). (k, JVInt i)) m)),
      get_string = jv_string, get_int = jv_int, get_unsigned = jv_unsigned,
      get_double = jv_double, get_bool = jv_bool,
      get_strings = jv_list jv_string, get_ints = jv_list jv_int, get_pair = jv_pair,
      get_int_map = jv_int_map\<rparr>"

lemma map_res_map_inverse: "(\<And>x. g (f x) = Inr x) \<Longrightarrow> map_res g (map f xs) = Inr xs"
  by (induction xs) auto

lemma json_values_assign: "json_assign_law json_values"
proof -
  have "\<exists>j'. jv_assign k v j = Inr j' \<and> jv_type j' = JObject \<and>
      (\<forall>k'. jv_find k' j' = (if k' = k then Some v else jv_find k' j))"
    if "jv_type j \<in> {JNull, JObject}" for k v j
    using that by (cases j) (auto simp: update_conv)
  then show ?thesis by (simp only: json_assign_law_def json_values_def json_lib.simps) blast
qed

lemma json_values_array: "json_array_laws json_values"
proof -
  have "\<exists>j'. jv_emplace_back v j = Inr j' \<and> jv_type j' = JArray \<and> jv_elements j' = jv_elements j @ [v]"
    if "jv_type j \<in> {JNull, JArray}" for v j
    using that by (cases j) auto
  moreover have "\<exists>j'. jv_replace i v j = Inr j' \<and> jv_type j' = JArray \<and>
      jv_elements j' = (jv_elements j)[i := v]"
    if "jv_type j = JArray" and "i < length (jv_elements j)" for i v j
    using that by (cases j) auto
  ultimately show ?thesis by (simp add: json_array_laws_def json_values_def)
qed

lemma json_values_conversions: "json_conversion_laws json_values"
  by (auto simp: json_conversion_laws_def json_values_def map_res_map_inverse split_beta)

lemma json_values_laws: "json_laws json_values"
  using json_values_assign json_values_array json_values_conversions
  by (simp add: json_laws_def) (simp add: json_values_def)

end
