(* ===== verification/Parameters.thy ===== *)
theory Parameters
  imports Json Instances
begin

text \<open>
  The parameters of a port group: the \<open>parameter\<close> field of \<open>PortGroup\<close>, the builder methods of
  \<open>src/traact/pattern/Pattern.cpp\<close> that fill it, \<open>setParameter\<close> and \<open>setValueFromParameter\<close> of
  \<open>include/traact/pattern/instance/PortInstance.h\<close> and \<open>PatternInstance.h\<close>, and
  \<open>include/traact/pattern/ParameterUtils.h\<close>.

  The field is kept beside the model of patterns: one JSON value for each port group of a pattern, and
  one for each instance of each group, which owns a copy of its port group.
\<close>

record 'j InstanceParameters =
  local_parameters :: "'j list"           \<comment> \<open>of the groups of \<open>local_pattern\<close>\<close>
  group_parameters :: "'j list list"      \<comment> \<open>of the instances of each group\<close>

section \<open>Declaring parameters\<close>

definition Pattern_parameters_make :: "'j json_lib \<Rightarrow> 'j list" where
  "Pattern_parameters_make J = [jnull J]"

definition beginPortGroup_parameters :: "'j json_lib \<Rightarrow> 'j list \<Rightarrow> 'j list" where
  "beginPortGroup_parameters J ps = ps @ [jnull J]"

text \<open>\<open>back()\<close> between begin and end of a group, else \<open>front()\<close>.\<close>

definition on_parameter :: "('j \<Rightarrow> 'j res) \<Rightarrow> Pattern \<Rightarrow> 'j list \<Rightarrow> 'j list res" where
  "on_parameter f p ps =
     bind_res (raw_get ps (int (current_group p))) (\<lambda>parameter.
     bind_res (f parameter) (\<lambda>parameter'. Inr (ps[current_group p := parameter'])))"

definition set_keys :: "'j json_lib \<Rightarrow> string \<Rightarrow> (string \<times> 'j) list \<Rightarrow> 'j \<Rightarrow> 'j res" where
  "set_keys J parameter_name kvs parameter =
     fold_res (\<lambda>(k, v). json_assign2 J parameter_name k v) kvs parameter"

text \<open>
  The values of the template are converted to JSON by its instances; the set of strings is given in
  its order.
\<close>

definition addParameter_range ::
    "'j json_lib \<Rightarrow> string \<Rightarrow> 'j \<Rightarrow> 'j \<Rightarrow> 'j \<Rightarrow> Pattern \<Rightarrow> 'j list \<Rightarrow> 'j list res" where
  "addParameter_range J parameter_name default_value min_value max_value =
     on_parameter (set_keys J parameter_name
       [(''default'', default_value), (''value'', default_value),
        (''min_value'', min_value), (''max_value'', max_value)])"

definition addStringParameter ::
    "'j json_lib \<Rightarrow> string \<Rightarrow> string \<Rightarrow> Pattern \<Rightarrow> 'j list \<Rightarrow> 'j list res" where
  "addStringParameter J parameter_name default_value =
     on_parameter (set_keys J parameter_name
       [(''default'', of_string J default_value), (''value'', of_string J default_value)])"

definition addParameter_enum ::
    "'j json_lib \<Rightarrow> string \<Rightarrow> string \<Rightarrow> string list \<Rightarrow> Pattern \<Rightarrow> 'j list \<Rightarrow> 'j list res" where
  "addParameter_enum J parameter_name default_value enum_values =
     on_parameter (set_keys J parameter_name
       [(''default'', of_string J default_value), (''value'', of_string J default_value),
        (''enum_values'', of_strings J enum_values)])"

definition addParameter_json ::
    "'j json_lib \<Rightarrow> string \<Rightarrow> 'j \<Rightarrow> Pattern \<Rightarrow> 'j list \<Rightarrow> 'j list res" where
  "addParameter_json J parameter_name json_value =
     on_parameter (set_keys J parameter_name [(''json_value'', json_value)])"

section \<open>Parameters of instances\<close>

definition InstanceParameters_make :: "'j list \<Rightarrow> 'j InstanceParameters res" where
  "InstanceParameters_make ps =
     bind_res (vec_at ps 0) (\<lambda>default_group.
     Inr \<lparr>local_parameters = ps, group_parameters = (replicate (length ps) [])[0 := [default_group]]\<rparr>)"

definition instantiate_parameters :: "nat \<Rightarrow> 'j InstanceParameters \<Rightarrow> 'j InstanceParameters res" where
  "instantiate_parameters group_index ip =
     bind_res (raw_get (local_parameters ip) (int group_index)) (\<lambda>parameter.
     bind_res (raw_get (group_parameters ip) (int group_index)) (\<lambda>l.
     Inr (ip\<lparr>group_parameters := (group_parameters ip)[group_index := l @ [parameter]]\<rparr>)))"

text \<open>
  The new value is converted to the type of the default. \<open>operator[]\<close> inserts the entry and its
  default when the parameter is not declared.
\<close>

definition convert_like :: "'j json_lib \<Rightarrow> json_type \<Rightarrow> 'j \<Rightarrow> 'j res" where
  "convert_like J type new_value =
     (case type of
        JString \<Rightarrow> bind_res (get_string J new_value) (\<lambda>v. Inr (of_string J v))
      | JFloat \<Rightarrow> bind_res (get_double J new_value) (\<lambda>v. Inr (of_double J v))
      | JUnsigned \<Rightarrow> bind_res (get_unsigned J new_value) (\<lambda>v. Inr (of_unsigned J v))
      | JInteger \<Rightarrow> bind_res (get_int J new_value) (\<lambda>v. Inr (of_int_value J v))
      | JBool \<Rightarrow> bind_res (get_bool J new_value) (\<lambda>v. Inr (of_bool_value J v))
      | _ \<Rightarrow> Inr new_value)"

definition setParameter :: "'j json_lib \<Rightarrow> string \<Rightarrow> 'j \<Rightarrow> 'j \<Rightarrow> 'j res" where
  "setParameter J name new_value parameter =
     bind_res (json_index J parameter name) (\<lambda>entry.
     bind_res (json_index J entry ''default'') (\<lambda>default_value.
     bind_res (json_assign2 J name ''default'' default_value parameter) (\<lambda>parameter'.
     bind_res (convert_like J (jtype J default_value) new_value) (\<lambda>v.
     json_assign2 J name ''value'' v parameter'))))"

text \<open>
  The result and the value for \<open>parameter_out\<close>; \<open>get\<close> converts to its type, whose default
  constructor gives \<open>default_constructed\<close>.
\<close>

definition group_setValueFromParameter ::
    "'j json_lib \<Rightarrow> ('j \<Rightarrow> 'a res) \<Rightarrow> 'a \<Rightarrow> 'j \<Rightarrow> string \<Rightarrow> (bool \<times> 'a) res" where
  "group_setValueFromParameter J get default_constructed parameter parameter_name =
     (if jfind J parameter_name parameter = None then Inr (False, default_constructed)
      else bind_res (json_index J parameter parameter_name) (\<lambda>entry.
           bind_res (json_index J entry
               (if jfind J ''value'' entry = None then ''default'' else ''value'')) (\<lambda>value.
           bind_res (get value) (\<lambda>parameter_out. Inr (True, parameter_out)))))"

definition default_parameter :: "'j InstanceParameters \<Rightarrow> 'j res" where
  "default_parameter ip =
     bind_res (vec_at (group_parameters ip) kDefaultPortGroupIndex) (\<lambda>l. raw_get l 0)"

definition instance_setParameter ::
    "'j json_lib \<Rightarrow> string \<Rightarrow> 'j \<Rightarrow> 'j InstanceParameters \<Rightarrow> 'j InstanceParameters res" where
  "instance_setParameter J name value ip =
     bind_res (vec_at (group_parameters ip) kDefaultPortGroupIndex) (\<lambda>l.
     bind_res (raw_get l 0) (\<lambda>parameter.
     bind_res (setParameter J name value parameter) (\<lambda>parameter'.
     Inr (ip\<lparr>group_parameters := (group_parameters ip)[kDefaultPortGroupIndex := l[0 := parameter']]\<rparr>))))"

definition instance_setValueFromParameter ::
    "'j json_lib \<Rightarrow> ('j \<Rightarrow> 'a res) \<Rightarrow> 'a \<Rightarrow> 'j InstanceParameters \<Rightarrow> string \<Rightarrow> (bool \<times> 'a) res" where
  "instance_setValueFromParameter J get default_constructed ip parameter_name =
     bind_res (default_parameter ip) (\<lambda>parameter.
     group_setValueFromParameter J get default_constructed parameter parameter_name)"

definition instance_setValueFromParameter_of ::
    "'j json_lib \<Rightarrow> ('j \<Rightarrow> 'a res) \<Rightarrow> 'a \<Rightarrow> 'j InstanceParameters \<Rightarrow> nat \<Rightarrow> nat \<Rightarrow> string \<Rightarrow> (bool \<times> 'a) res"
  where
  "instance_setValueFromParameter_of J get default_constructed ip group_index instance_index parameter_name =
     bind_res (vec_at (group_parameters ip) group_index) (\<lambda>l.
     bind_res (vec_at l instance_index) (\<lambda>parameter.
     group_setValueFromParameter J get default_constructed parameter parameter_name))"

section \<open>Utilities\<close>

definition setValueFromParameter ::
    "'j json_lib \<Rightarrow> ('j \<Rightarrow> 'a res) \<Rightarrow> 'j InstanceParameters \<Rightarrow> string \<Rightarrow> 'a \<Rightarrow> (bool \<times> 'a) res" where
  "setValueFromParameter J get ip parameter_name default_value =
     bind_res (default_parameter ip) (\<lambda>parameter.
     if jfind J parameter_name parameter = None then Inr (False, default_value)
     else bind_res (json_index J parameter parameter_name) (\<lambda>entry.
          bind_res (json_index J entry ''value'') (\<lambda>value.
          bind_res (get value) (\<lambda>parameter_out. Inr (True, parameter_out)))))"

definition setValueFromParameter_map ::
    "'j json_lib \<Rightarrow> 'j InstanceParameters \<Rightarrow> string \<Rightarrow> string \<Rightarrow> (string, 'a) omap \<Rightarrow> (bool \<times> 'a) res" where
  "setValueFromParameter_map J ip parameter_name default_value key_value =
     bind_res (default_parameter ip) (\<lambda>parameter.
     if jfind J parameter_name parameter = None
     then bind_res (map_at key_value default_value) (\<lambda>parameter_out. Inr (False, parameter_out))
     else bind_res (json_index J parameter parameter_name) (\<lambda>entry.
          bind_res (json_index J entry ''value'') (\<lambda>value.
          bind_res (get_string J value) (\<lambda>key_name.
          bind_res (map_at key_value key_name) (\<lambda>parameter_out. Inr (True, parameter_out))))))"

definition bool_enum :: "string list" where
  "bool_enum = [''false'', ''true'']"

definition value_to_bool :: "(string, bool) omap" where
  "value_to_bool = [(''false'', False), (''true'', True)]"

text \<open>The parameter is constant here: a missing key is an assertion. A JSON value equals a string if it is that string.\<close>

definition setBoolValueFromParameter :: "'j json_lib \<Rightarrow> 'j \<Rightarrow> string \<Rightarrow> bool \<Rightarrow> bool res" where
  "setBoolValueFromParameter J parameter parameter_name default_value =
     (if jfind J parameter_name parameter = None then Inr default_value
      else bind_res (json_index_const J parameter parameter_name) (\<lambda>entry.
           bind_res (json_index_const J entry ''value'') (\<lambda>value.
           Inr (jtype J value = JString \<and> get_string J value = Inr ''true''))))"

section \<open>What is read\<close>

text \<open>A parameter section that the operations accept: nothing, or an object of objects.\<close>

definition section_ok :: "'j json_lib \<Rightarrow> 'j \<Rightarrow> bool" where
  "section_ok J parameter \<longleftrightarrow> jtype J parameter \<in> {JNull, JObject} \<and>
     (\<forall>n e. jfind J n parameter = Some e \<longrightarrow> jtype J e = JObject)"

lemma section_ok_null: "json_laws J \<Longrightarrow> section_ok J (jnull J)"
  by (simp add: section_ok_def json_lawsD)

lemma fold_res_one [simp]: "fold_res f [x] = f x"
proof (rule ext)
  show "fold_res f [x] s = f x s" for s by (cases "f x s") simp_all
qed

lemma set_keys_cases:
  assumes "json_laws J" and "section_ok J par" and "kvs \<noteq> []"
  obtains par' e where "set_keys J n kvs par = Inr par'" and "section_ok J par'"
    and "jfind J n par' = Some e"
    and "\<And>k. jfind J k e =
      (case map_of (rev kvs) k of Some v \<Rightarrow> Some v | None \<Rightarrow> Option.bind (jfind J n par) (jfind J k))"
    and "\<And>n'. n' \<noteq> n \<Longrightarrow> jfind J n' par' = jfind J n' par"
proof -
  have "\<exists>par' e. set_keys J n kvs par = Inr par' \<and> section_ok J par' \<and> jfind J n par' = Some e \<and>
      (\<forall>k. jfind J k e = (case map_of (rev kvs) k of Some v \<Rightarrow> Some v
        | None \<Rightarrow> Option.bind (jfind J n par) (jfind J k))) \<and>
      (\<forall>n'. n' \<noteq> n \<longrightarrow> jfind J n' par' = jfind J n' par)"
    using assms(2,3)
  proof (induction kvs arbitrary: par)
    case (Cons kv kvs)
    obtain k v where kv: "kv = (k, v)" by (cases kv)
    from Cons.prems(1) have pre: "jtype J par \<in> {JNull, JObject}"
      "\<And>e. jfind J n par = Some e \<Longrightarrow> jtype J e \<in> {JNull, JObject}" by (auto simp: section_ok_def)
    obtain p1 e1 where p1: "json_assign2 J n k v par = Inr p1" "jtype J p1 = JObject"
        "jfind J n p1 = Some e1" "jtype J e1 = JObject"
        "\<And>k'. jfind J k' e1 = (if k' = k then Some v else Option.bind (jfind J n par) (jfind J k'))"
        "\<And>n'. n' \<noteq> n \<Longrightarrow> jfind J n' p1 = jfind J n' par"
      using json_assign2_cases [where ?k2.0 = k and v = v, OF assms(1) pre] by metis
    have ok1: "section_ok J p1"
      using Cons.prems(1) p1(2,3,4,6) unfolding section_ok_def by (metis insertCI option.inject)
    show ?case
    proof (cases "kvs = []")
      case True
      then have "set_keys J n (kv # kvs) par = Inr p1" using p1(1) by (simp add: set_keys_def kv)
      with ok1 p1(3,5,6) True show ?thesis by (simp add: kv)
    next
      case False
      with Cons.IH [OF ok1] obtain p2 e2 where p2: "set_keys J n kvs p1 = Inr p2" "section_ok J p2"
        "jfind J n p2 = Some e2"
        "\<forall>k. jfind J k e2 = (case map_of (rev kvs) k of Some v \<Rightarrow> Some v
          | None \<Rightarrow> Option.bind (jfind J n p1) (jfind J k))"
        "\<forall>n'. n' \<noteq> n \<longrightarrow> jfind J n' p2 = jfind J n' p1" by blast
      have run: "set_keys J n (kv # kvs) par = Inr p2" using p1(1) p2(1) by (simp add: set_keys_def kv)
      have "jfind J k' e2 = (case map_of (rev (kv # kvs)) k' of Some v \<Rightarrow> Some v
          | None \<Rightarrow> Option.bind (jfind J n par) (jfind J k'))" for k'
        using p2(4) p1(3,5) by (auto simp: kv map_add_def split: option.split)
      with run p2(2,3,5) p1(6) show ?thesis by auto
    qed
  qed simp
  with that show ?thesis by blast
qed

text \<open>What a component reads of a string parameter.\<close>

abbreviation string_of_parameter :: "'j json_lib \<Rightarrow> 'j \<Rightarrow> string \<Rightarrow> (bool \<times> string) res" where
  "string_of_parameter J par n \<equiv> group_setValueFromParameter J (get_string J) [] par n"

definition declared_string :: "'j json_lib \<Rightarrow> 'j \<Rightarrow> string \<Rightarrow> string \<Rightarrow> string \<Rightarrow> bool" where
  "declared_string J par n dflt v \<longleftrightarrow> (\<exists>e. jfind J n par = Some e \<and>
     jfind J ''default'' e = Some (of_string J dflt) \<and> jfind J ''value'' e = Some (of_string J v))"

lemma declared_string_read:
  assumes "json_laws J" and "declared_string J par n dflt v"
  shows "string_of_parameter J par n = Inr (True, v)"
  using assms by (auto simp: declared_string_def group_setValueFromParameter_def json_find_access json_lawsD)

lemma addStringParameter_declares:
  assumes "json_laws J" and "section_ok J par"
  obtains par' where
    "set_keys J n [(''default'', of_string J d), (''value'', of_string J d)] par = Inr par'"
    and "section_ok J par'" and "declared_string J par' n d d"
    and "\<And>n'. n' \<noteq> n \<Longrightarrow> jfind J n' par' = jfind J n' par"
proof -
  obtain par' e where "set_keys J n [(''default'', of_string J d), (''value'', of_string J d)] par = Inr par'"
      "section_ok J par'" "jfind J n par' = Some e"
      "\<And>k. jfind J k e = (case map_of (rev [(''default'', of_string J d), (''value'', of_string J d)]) k of
        Some v \<Rightarrow> Some v | None \<Rightarrow> Option.bind (jfind J n par) (jfind J k))"
      "\<And>n'. n' \<noteq> n \<Longrightarrow> jfind J n' par' = jfind J n' par"
    using set_keys_cases [where n = n and kvs = "[(''default'', of_string J d), (''value'', of_string J d)]", OF assms]
    by (metis list.distinct(1))
  then show ?thesis by (intro that [of par']) (auto simp: declared_string_def)
qed

lemma setParameter_declared:
  assumes laws: "json_laws J" and ok: "section_ok J par" and decl: "declared_string J par n d v"
  obtains par' where "setParameter J n (of_string J v') par = Inr par'" and "section_ok J par'"
    and "declared_string J par' n d v'" and "\<And>n'. n' \<noteq> n \<Longrightarrow> jfind J n' par' = jfind J n' par"
proof -
  from decl obtain e where e: "jfind J n par = Some e" "jfind J ''default'' e = Some (of_string J d)"
    by (auto simp: declared_string_def)
  let ?kvs = "[(''default'', of_string J d), (''value'', of_string J v')]"
  obtain par' e' where par': "set_keys J n ?kvs par = Inr par'" "section_ok J par'" "jfind J n par' = Some e'"
      "\<And>k. jfind J k e' = (case map_of (rev ?kvs) k of Some x \<Rightarrow> Some x
        | None \<Rightarrow> Option.bind (jfind J n par) (jfind J k))"
      "\<And>n'. n' \<noteq> n \<Longrightarrow> jfind J n' par' = jfind J n' par"
    using set_keys_cases [where n = n and kvs = ?kvs, OF laws ok] by (metis list.distinct(1))
  have string: "jtype J (of_string J d) = JString"
    using laws by (simp add: json_laws_def json_conversion_laws_def)
  have "setParameter J n (of_string J v') par = set_keys J n ?kvs par"
    using e string by (simp add: setParameter_def json_find_access convert_like_def set_keys_def
        json_lawsD [OF laws] fold_res_one del: fold_res.simps(2))
      (simp add: fold_res_one)
  with par' show ?thesis by (intro that [of par']) (auto simp: declared_string_def)
qed

lemma read_other:
  "jfind J n par' = jfind J n par \<Longrightarrow>
   group_setValueFromParameter J get x par' n = group_setValueFromParameter J get x par n"
  by (cases "jfind J n par") (simp_all add: group_setValueFromParameter_def json_find_access)

end
