(* ===== verification/Serialization.thy ===== *)
theory Serialization
  imports Parameters Graph
begin

text \<open>
  Graphs as JSON (\<open>src/traact/serialization\<close>). \<open>to_json\<close> changes the JSON value it is given,
  \<open>from_json\<close> the object it is given; both are arguments and results here. The parameters of the port
  groups are passed beside the graph (see \<open>Parameters\<close>). A number that names no enumerator is the error
  \<open>UndefinedBehaviour\<close>: \<open>static_cast\<close> gives a value that the model does not have.
\<close>

section \<open>Fields\<close>

definition json_get :: "'j json_lib \<Rightarrow> ('j \<Rightarrow> 'a res) \<Rightarrow> 'j \<Rightarrow> string \<Rightarrow> 'a res" where
  "json_get J get jobj key = bind_res (json_at J jobj key) get"

definition json_get_const :: "'j json_lib \<Rightarrow> ('j \<Rightarrow> 'a res) \<Rightarrow> 'j \<Rightarrow> string \<Rightarrow> 'a res" where
  "json_get_const J get jobj key = bind_res (json_index_const J jobj key) get"

text \<open>Scoped enumerations are converted as their underlying integers, \<open>uint8_t\<close> for \<open>Concurrency\<close>.\<close>

fun PortType_value :: "PortType \<Rightarrow> int" where
  "PortType_value PT_NONE = 0"
| "PortType_value PRODUCER = 1"
| "PortType_value CONSUMER = 2"

fun Concurrency_value :: "Concurrency \<Rightarrow> nat" where
  "Concurrency_value UNLIMITED = 0"
| "Concurrency_value SERIAL = 1"

fun SourceMode_value :: "SourceMode \<Rightarrow> int" where
  "SourceMode_value WAIT_FOR_BUFFER = 0"
| "SourceMode_value IMMEDIATE_RETURN = 1"

fun MissingSourceEventMode_value :: "MissingSourceEventMode \<Rightarrow> int" where
  "MissingSourceEventMode_value WAIT_FOR_EVENT = 0"
| "MissingSourceEventMode_value CANCEL_OLDEST = 1"

definition enum_cast :: "('e \<Rightarrow> 'n) \<Rightarrow> 'e list \<Rightarrow> 'n \<Rightarrow> 'e res" where
  "enum_cast value enumerators n =
     (case List.find (\<lambda>e. value e = n) enumerators of
        Some e \<Rightarrow> Inr e
      | None \<Rightarrow> Inl UndefinedBehaviour)"

definition get_PortType :: "'j json_lib \<Rightarrow> 'j \<Rightarrow> PortType res" where
  "get_PortType J j = bind_res (get_int J j) (enum_cast PortType_value [PT_NONE, PRODUCER, CONSUMER])"

definition get_Concurrency :: "'j json_lib \<Rightarrow> 'j \<Rightarrow> Concurrency res" where
  "get_Concurrency J j = bind_res (get_unsigned J j) (enum_cast Concurrency_value [UNLIMITED, SERIAL])"

definition get_ComponentType :: "'j json_lib \<Rightarrow> 'j \<Rightarrow> ComponentType res" where
  "get_ComponentType J j =
     bind_res (get_int J j) (enum_cast (\<lambda>t. int (ct_value t))
       [CT_INVALID, ASYNC_SOURCE, INTERNAL_SYNC_SOURCE, SYNC_SOURCE, SYNC_FUNCTIONAL,
        ASYNC_FUNCTIONAL, SYNC_SINK, ASYNC_SINK])"

definition get_SourceMode :: "'j json_lib \<Rightarrow> 'j \<Rightarrow> SourceMode res" where
  "get_SourceMode J j = bind_res (get_int J j) (enum_cast SourceMode_value [WAIT_FOR_BUFFER, IMMEDIATE_RETURN])"

definition get_MissingSourceEventMode :: "'j json_lib \<Rightarrow> 'j \<Rightarrow> MissingSourceEventMode res" where
  "get_MissingSourceEventMode J j =
     bind_res (get_int J j) (enum_cast MissingSourceEventMode_value [WAIT_FOR_EVENT, CANCEL_OLDEST])"

section \<open>Ports and port groups\<close>

definition to_json_Port :: "'j json_lib \<Rightarrow> Port \<Rightarrow> 'j \<Rightarrow> 'j res" where
  "to_json_Port J obj jobj =
     set_fields J
       [(''name'', of_string J (port_name obj)),
        (''datatype'', of_string J (port_datatype obj)),
        (''port_type'', of_int_value J (PortType_value (port_type obj))),
        (''port_index'', of_int_value J (port_port_index obj)),
        (''time_domain'', of_int_value J (port_time_domain obj))] jobj"

definition from_json_Port :: "'j json_lib \<Rightarrow> 'j \<Rightarrow> Port res" where
  "from_json_Port J jobj =
     bind_res (json_get J (get_string J) jobj ''name'') (\<lambda>name.
     bind_res (json_get J (get_string J) jobj ''datatype'') (\<lambda>datatype.
     bind_res (json_get J (get_PortType J) jobj ''port_type'') (\<lambda>type.
     bind_res (json_get J (get_int J) jobj ''port_index'') (\<lambda>index.
     bind_res (json_get J (get_int J) jobj ''time_domain'') (\<lambda>td.
     Inr (Port_make name datatype type index td))))))"

definition to_json_ports :: "'j json_lib \<Rightarrow> string \<Rightarrow> Port list \<Rightarrow> 'j \<Rightarrow> 'j res" where
  "to_json_ports J key ports jobj =
     (if List.null ports then Inr jobj
      else bind_res (json_index J jobj key) (\<lambda>json_ports.
           bind_res (append_all J (\<lambda>port. to_json_Port J port (jnull J)) ports json_ports) (\<lambda>json_ports'.
           jassign J key json_ports' jobj)))"

definition to_json_PortGroup :: "'j json_lib \<Rightarrow> PortGroup \<Rightarrow> 'j \<Rightarrow> 'j \<Rightarrow> 'j res" where
  "to_json_PortGroup J obj parameter jobj =
     bind_res (set_fields J
       [(''name'', of_string J (pg_name obj)),
        (''group_index'', of_int_value J (pg_group_index obj)),
        (''min'', of_int_value J (pg_min obj)),
        (''max'', of_int_value J (pg_max obj)),
        (''parameter'', parameter)] jobj) (\<lambda>jobj.
     bind_res (to_json_ports J ''producer_ports'' (producer_ports obj) jobj) (\<lambda>jobj.
     to_json_ports J ''consumer_ports'' (consumer_ports obj) jobj))"

definition from_json_list :: "'j json_lib \<Rightarrow> ('j \<Rightarrow> 'a res) \<Rightarrow> string \<Rightarrow> 'j \<Rightarrow> 'a list res" where
  "from_json_list J from_json key jobj =
     (case jfind J key jobj of
        None \<Rightarrow> Inr []
      | Some json_list \<Rightarrow> map_res from_json (jelements J json_list))"

definition PortGroup_default :: PortGroup where
  "PortGroup_default = PortGroup_make ''Invalid'' (-1) (-1) (-1)"

definition from_json_PortGroup :: "'j json_lib \<Rightarrow> 'j \<Rightarrow> PortGroup \<Rightarrow> (PortGroup \<times> 'j) res" where
  "from_json_PortGroup J jobj obj =
     bind_res (json_get J (get_string J) jobj ''name'') (\<lambda>name.
     bind_res (json_get J (get_int J) jobj ''group_index'') (\<lambda>group_index.
     bind_res (json_get J (get_int J) jobj ''min'') (\<lambda>group_min.
     bind_res (json_get J (get_int J) jobj ''max'') (\<lambda>group_max.
     bind_res (json_at J jobj ''parameter'') (\<lambda>parameter.
     bind_res (from_json_list J (from_json_Port J) ''producer_ports'' jobj) (\<lambda>producers.
     bind_res (from_json_list J (from_json_Port J) ''consumer_ports'' jobj) (\<lambda>consumers.
     Inr (obj\<lparr>pg_name := name, pg_group_index := group_index, pg_min := group_min, pg_max := group_max,
              producer_ports := producer_ports obj @ producers,
              consumer_ports := consumer_ports obj @ consumers\<rparr>, parameter))))))))"

section \<open>Patterns\<close>

text \<open>The index is used for both vectors, and only the first is asked for its size.\<close>

definition to_json_time_domain :: "'j json_lib \<Rightarrow> Pattern \<Rightarrow> nat \<Rightarrow> 'j res" where
  "to_json_time_domain J obj i =
     bind_res (raw_get (time_domain_component_type obj) (int i)) (\<lambda>type.
     bind_res (jassign J ''component_type'' (of_int_value J (int (ct_value type))) (jnull J)) (\<lambda>type_td.
     bind_res (raw_get (pat_concurrency obj) (int i)) (\<lambda>concurrency.
     jassign J ''concurrency'' (of_unsigned J (Concurrency_value concurrency)) type_td)))"

definition to_json_Pattern :: "'j json_lib \<Rightarrow> Pattern \<Rightarrow> 'j list \<Rightarrow> 'j \<Rightarrow> 'j res" where
  "to_json_Pattern J obj parameters jobj =
     bind_res (set_fields J
       [(''pattern_name'', of_string J (pat_name obj)),
        (''display_name'', of_string J (pat_display_name obj)),
        (''description'', of_string J (pat_description obj)),
        (''tags'', of_strings J (pat_tags obj))] jobj) (\<lambda>jobj.
     bind_res (json_index J jobj ''time_domains'') (\<lambda>json_concurrency.
     bind_res (append_all J (to_json_time_domain J obj)
       [0..<length (time_domain_component_type obj)] json_concurrency) (\<lambda>json_concurrency'.
     bind_res (jassign J ''time_domains'' json_concurrency' jobj) (\<lambda>jobj.
     bind_res (json_index J jobj ''port_groups'') (\<lambda>json_port_groups.
     bind_res (append_all J (\<lambda>(port_group, parameter). to_json_PortGroup J port_group parameter (jnull J))
       (zip (port_groups obj) parameters) json_port_groups) (\<lambda>json_port_groups'.
     jassign J ''port_groups'' json_port_groups' jobj))))))"

definition from_json_time_domain :: "'j json_lib \<Rightarrow> 'j \<Rightarrow> (ComponentType \<times> Concurrency) res" where
  "from_json_time_domain J json_type_td =
     bind_res (json_get_const J (get_ComponentType J) json_type_td ''component_type'') (\<lambda>type.
     bind_res (json_get_const J (get_Concurrency J) json_type_td ''concurrency'') (\<lambda>concurrency.
     Inr (type, concurrency)))"

definition from_json_Pattern :: "'j json_lib \<Rightarrow> 'j \<Rightarrow> Pattern \<times> 'j list \<Rightarrow> (Pattern \<times> 'j list) res" where
  "from_json_Pattern J jobj pattern = (case pattern of (obj, parameters) \<Rightarrow>
     bind_res (json_get_const J (get_string J) jobj ''pattern_name'') (\<lambda>name.
     bind_res (json_get_const J (get_string J) jobj ''display_name'') (\<lambda>display_name.
     bind_res (json_get_const J (get_string J) jobj ''description'') (\<lambda>description.
     bind_res (json_get_const J (get_strings J) jobj ''tags'') (\<lambda>tags.
     bind_res (from_json_list J (from_json_time_domain J) ''time_domains'' jobj) (\<lambda>domains.
     let obj = obj\<lparr>pat_name := name, pat_display_name := display_name, pat_description := description,
         pat_tags := tags,
         time_domain_component_type := time_domain_component_type obj @ map fst domains,
         pat_concurrency := pat_concurrency obj @ map snd domains\<rparr>
     in (case jfind J ''port_groups'' jobj of
           None \<Rightarrow> Inr (obj, parameters)
         | Some json_port_groups \<Rightarrow>
             bind_res (map_res (\<lambda>json_port_group. from_json_PortGroup J json_port_group PortGroup_default)
               (jelements J json_port_groups)) (\<lambda>groups.
             Inr (obj\<lparr>port_groups := map fst groups\<rparr>, map snd groups)))))))))"

section \<open>Instances\<close>

definition to_json_PortInstance :: "'j json_lib \<Rightarrow> PortInstance \<Rightarrow> 'j \<Rightarrow> 'j res" where
  "to_json_PortInstance J obj jobj =
     bind_res (to_json_Port J (inst_port obj) jobj) (\<lambda>jobj.
     if port_type (inst_port obj) = CONSUMER
     then jassign J ''connected_to'' (of_pair J (connected_to obj)) jobj
     else Inr jobj)"

definition from_json_PortInstance :: "'j json_lib \<Rightarrow> 'j \<Rightarrow> PortInstance \<Rightarrow> PortInstance res" where
  "from_json_PortInstance J jobj obj =
     bind_res (from_json_Port J jobj) (\<lambda>port.
     if port_type port = CONSUMER
     then (case jfind J ''connected_to'' jobj of
             None \<Rightarrow> Inr (obj\<lparr>inst_port := port\<rparr>)
           | Some j \<Rightarrow> bind_res (get_pair J j) (\<lambda>c. Inr (obj\<lparr>inst_port := port, connected_to := c\<rparr>)))
     else Inr (obj\<lparr>inst_port := port\<rparr>))"

text \<open>The ports of the instance are written over those of its port group, found by index.\<close>

definition to_json_port_instances :: "'j json_lib \<Rightarrow> string \<Rightarrow> PortInstance list \<Rightarrow> 'j \<Rightarrow> 'j res" where
  "to_json_port_instances J key ports jobj =
     (if List.null ports then Inr jobj
      else bind_res (json_index J jobj key) (\<lambda>json_ports.
           bind_res (fold_res (\<lambda>(port_index, port) json_ports.
               bind_res (json_element J json_ports port_index) (\<lambda>json_port.
               bind_res (to_json_PortInstance J port json_port) (\<lambda>json_port'.
               jreplace J port_index json_port' json_ports)))
             (enumerate 0 ports) json_ports) (\<lambda>json_ports'.
           jassign J key json_ports' jobj)))"

definition to_json_PortGroupInstance :: "'j json_lib \<Rightarrow> PortGroupInstance \<Rightarrow> 'j \<Rightarrow> 'j \<Rightarrow> 'j res" where
  "to_json_PortGroupInstance J obj parameter jobj =
     bind_res (to_json_PortGroup J (gi_port_group obj) parameter jobj) (\<lambda>jobj.
     bind_res (jassign J ''port_group_instance_index'' (of_int_value J (gi_index obj)) jobj) (\<lambda>jobj.
     bind_res (to_json_port_instances J ''consumer_ports'' (gi_consumer_ports obj) jobj) (\<lambda>jobj.
     to_json_port_instances J ''producer_ports'' (gi_producer_ports obj) jobj)))"

definition PortGroupInstance_default :: PortGroupInstance where
  "PortGroupInstance_default =
     \<lparr>gi_port_group = PortGroup_default, gi_index = -1, gi_producer_ports = [], gi_consumer_ports = []\<rparr>"

definition from_json_PortGroupInstance ::
    "'j json_lib \<Rightarrow> 'j \<Rightarrow> PortGroupInstance \<Rightarrow> (PortGroupInstance \<times> 'j) res" where
  "from_json_PortGroupInstance J jobj obj =
     bind_res (from_json_PortGroup J jobj (gi_port_group obj)) (\<lambda>(port_group, parameter).
     bind_res (json_get J (get_int J) jobj ''port_group_instance_index'') (\<lambda>index.
     bind_res (from_json_list J (\<lambda>json_port. from_json_PortInstance J json_port (PortInstance_make Port_default))
       ''consumer_ports'' jobj) (\<lambda>consumers.
     bind_res (from_json_list J (\<lambda>json_port. from_json_PortInstance J json_port (PortInstance_make Port_default))
       ''producer_ports'' jobj) (\<lambda>producers.
     Inr (\<lparr>gi_port_group = port_group, gi_index = index,
           gi_producer_ports = gi_producer_ports obj @ producers,
           gi_consumer_ports = gi_consumer_ports obj @ consumers\<rparr>, parameter)))))"

definition to_json_PatternInstance ::
    "'j json_lib \<Rightarrow> PatternInstance \<Rightarrow> 'j InstanceParameters \<Rightarrow> 'j \<Rightarrow> 'j res" where
  "to_json_PatternInstance J obj parameters jobj =
     bind_res (json_index J jobj ''local_pattern'') (\<lambda>json_pattern.
     bind_res (to_json_Pattern J (local_pattern obj) (local_parameters parameters) json_pattern) (\<lambda>json_pattern'.
     bind_res (jassign J ''local_pattern'' json_pattern' jobj) (\<lambda>jobj.
     bind_res (set_fields J
       [(''id'', of_string J (instance_id obj)),
        (''display_name'', of_string J (display_name obj))] jobj) (\<lambda>jobj.
     bind_res (json_index J jobj ''port_groups_instances'') (\<lambda>json_port_groups.
     bind_res (append_all J (\<lambda>(instances, instance_parameters).
         append_all J (\<lambda>(instance, parameter). to_json_PortGroupInstance J instance parameter (jnull J))
           (zip instances instance_parameters) (jnull J))
       (zip (inst_port_groups obj) (group_parameters parameters)) json_port_groups) (\<lambda>json_port_groups'.
     bind_res (jassign J ''port_groups_instances'' json_port_groups' jobj) (\<lambda>jobj.
     set_fields J
       [(''port_group_name_to_index'', of_int_map J (port_group_name_to_index obj)),
        (''local_to_global_time_domain'', of_ints J (local_to_global_time_domain obj))] jobj)))))))"

text \<open>The only caller reads into a new object.\<close>

definition from_json_PatternInstance ::
    "'j json_lib \<Rightarrow> 'j \<Rightarrow> (PatternInstance \<times> 'j InstanceParameters) res" where
  "from_json_PatternInstance J jobj =
     bind_res (json_index_const J jobj ''local_pattern'') (\<lambda>json_pattern.
     bind_res (from_json_Pattern J json_pattern (Pattern_default, Pattern_parameters_make J))
       (\<lambda>(pattern, parameters).
     bind_res (json_get J (get_string J) jobj ''id'') (\<lambda>id_read.
     bind_res (json_get J (get_string J) jobj ''display_name'') (\<lambda>display_name_read.
     bind_res (from_json_list J (\<lambda>json_instances.
         map_res (\<lambda>instance_index.
             bind_res (json_element J json_instances instance_index) (\<lambda>json_instance.
             from_json_PortGroupInstance J json_instance PortGroupInstance_default))
           [0..<length (jelements J json_instances)])
       ''port_groups_instances'' jobj) (\<lambda>groups.
     bind_res (json_get J (get_int_map J) jobj ''port_group_name_to_index'') (\<lambda>name_to_index.
     bind_res (json_get J (get_ints J) jobj ''local_to_global_time_domain'') (\<lambda>domains.
     Inr (\<lparr>instance_id = id_read, display_name = display_name_read, local_pattern = pattern,
           inst_port_groups = map (map fst) groups, port_group_name_to_index = name_to_index,
           local_to_global_time_domain = domains\<rparr>,
          \<lparr>local_parameters = parameters, group_parameters = map (map snd) groups\<rparr>))))))))"

section \<open>Time domains and graphs\<close>

definition to_json_TimeDomainManagerConfig :: "'j json_lib \<Rightarrow> TimeDomainManagerConfig \<Rightarrow> 'j \<Rightarrow> 'j res" where
  "to_json_TimeDomainManagerConfig J obj jobj =
     set_fields J
       [(''time_domain'', of_int_value J (time_domain obj)),
        (''ringbuffer_size'', of_unsigned J (ringbuffer_size obj)),
        (''max_offset'', of_int_value J (max_offset obj)),
        (''max_delay'', of_int_value J (max_delay obj)),
        (''sensor_frequency'', of_double J (sensor_frequency obj)),
        (''source_mode'', of_int_value J (SourceMode_value (source_mode obj))),
        (''missing_source_event_mode'',
           of_int_value J (MissingSourceEventMode_value (missing_source_event_mode obj))),
        (''cpu_count'', of_int_value J (cpu_count obj)),
        (''profile'', of_bool_value J (profile obj))] jobj"

definition from_json_TimeDomainManagerConfig :: "'j json_lib \<Rightarrow> 'j \<Rightarrow> TimeDomainManagerConfig res" where
  "from_json_TimeDomainManagerConfig J jobj =
     bind_res (json_get J (get_int J) jobj ''time_domain'') (\<lambda>td.
     bind_res (json_get J (get_unsigned J) jobj ''ringbuffer_size'') (\<lambda>ringbuffer.
     bind_res (json_get J (get_int J) jobj ''max_offset'') (\<lambda>offset.
     bind_res (json_get J (get_int J) jobj ''max_delay'') (\<lambda>delay.
     bind_res (json_get J (get_double J) jobj ''sensor_frequency'') (\<lambda>frequency.
     bind_res (json_get J (get_SourceMode J) jobj ''source_mode'') (\<lambda>mode.
     bind_res (json_get J (get_MissingSourceEventMode J) jobj ''missing_source_event_mode'') (\<lambda>missing.
     bind_res (json_get J (get_int J) jobj ''cpu_count'') (\<lambda>cpu.
     bind_res (if jfind J ''profile'' jobj = None then Inr False
               else json_get J (get_bool J) jobj ''profile'') (\<lambda>prof.
     Inr \<lparr>time_domain = td, ringbuffer_size = ringbuffer, max_offset = offset, max_delay = delay,
          sensor_frequency = frequency, source_mode = mode, missing_source_event_mode = missing,
          cpu_count = cpu, profile = prof\<rparr>)))))))))"

definition to_json_GraphInstance ::
    "'j json_lib \<Rightarrow> GraphInstance \<Rightarrow> (string, 'j InstanceParameters) omap \<Rightarrow> 'j \<Rightarrow> 'j res" where
  "to_json_GraphInstance J obj parameters jobj =
     bind_res (jassign J ''name'' (of_string J (graph_name obj)) jobj) (\<lambda>jobj.
     bind_res (append_all J (\<lambda>(instance_name, pattern_instance).
         bind_res (map_at parameters instance_name) (\<lambda>instance_parameters.
         to_json_PatternInstance J pattern_instance instance_parameters (jnull J)))
       (pattern_instances obj) (jnull J)) (\<lambda>jpatterns.
     bind_res (append_all J (\<lambda>(td, config). to_json_TimeDomainManagerConfig J config (jnull J))
       (timedomain_configs obj) (jnull J)) (\<lambda>jpatterns_td.
     set_fields J [(''time_domain_configs'', jpatterns_td), (''patterns'', jpatterns)] jobj)))"

text \<open>
  The keys of the time domains are \<open>size_t\<close>. \<open>initializeGraphConnections\<close>, the last call, sets the
  pointers to the owners, which the model passes as arguments.
\<close>

definition from_json_GraphInstance ::
    "'j json_lib \<Rightarrow> 'j \<Rightarrow> GraphInstance \<Rightarrow> (string, 'j InstanceParameters) omap \<Rightarrow>
     (GraphInstance \<times> (string, 'j InstanceParameters) omap) res" where
  "from_json_GraphInstance J jobj obj parameters =
     bind_res (json_get_const J (get_string J) jobj ''name'') (\<lambda>name.
     bind_res (from_json_list J (from_json_TimeDomainManagerConfig J) ''time_domain_configs'' jobj) (\<lambda>configs.
     bind_res (from_json_list J (from_json_PatternInstance J) ''patterns'' jobj) (\<lambda>instances.
     Inr (obj\<lparr>graph_name := name,
           timedomain_configs :=
             fold (\<lambda>config m. emplace (nat (time_domain config mod 2 ^ 64)) config m) configs
               (timedomain_configs obj),
           pattern_instances :=
             fold (\<lambda>(p, ps) m. emplace (instance_id p) p m) instances (pattern_instances obj)\<rparr>,
          fold (\<lambda>(p, ps) m. emplace (instance_id p) ps m) instances parameters))))"

end
