(* ===== verification/SerializationOk.thy ===== *)
theory SerializationOk
  imports Serialization GraphInv
begin

text \<open>
  What \<open>to_json\<close> writes is what \<open>from_json\<close> reads. \<open>stored\<close> is a graph as it comes back: the coordinate
  systems and the edges of the port groups are not written. The lemmas follow the structure of the
  code: ports, port groups, patterns, instances, graphs.
\<close>

lemma map_res_read: "list_all2 (\<lambda>x j. g j = Inr (h x)) xs js \<Longrightarrow> map_res g js = Inr (map h xs)"
  by (induction xs js rule: list_all2_induct) simp_all

section \<open>Ports\<close>

lemma enum_casts [simp]:
  shows "enum_cast PortType_value [PT_NONE, PRODUCER, CONSUMER] (PortType_value t) = Inr t"
    and "enum_cast Concurrency_value [UNLIMITED, SERIAL] (Concurrency_value c) = Inr c"
    and "enum_cast SourceMode_value [WAIT_FOR_BUFFER, IMMEDIATE_RETURN] (SourceMode_value m) = Inr m"
    and "enum_cast MissingSourceEventMode_value [WAIT_FOR_EVENT, CANCEL_OLDEST]
      (MissingSourceEventMode_value e) = Inr e"
    and "enum_cast (\<lambda>t. int (ct_value t)) [CT_INVALID, ASYNC_SOURCE, INTERNAL_SYNC_SOURCE, SYNC_SOURCE,
      SYNC_FUNCTIONAL, ASYNC_FUNCTIONAL, SYNC_SINK, ASYNC_SINK] (int (ct_value ct)) = Inr ct"
  by (cases t, simp_all add: enum_cast_def)
    (cases c, simp_all, cases m, simp_all, cases e, simp_all, cases ct, simp_all)

lemma json_get_found:
  "jfind J k j = Some v \<Longrightarrow> json_get J get j k = get v"
  "jfind J k j = Some v \<Longrightarrow> json_get_const J get j k = get v"
  by (simp_all add: json_get_def json_get_const_def json_find_access)

abbreviation port_keys :: "string set" where
  "port_keys \<equiv> {''name'', ''datatype'', ''port_type'', ''port_index'', ''time_domain''}"

lemma to_json_Port_cases:
  assumes laws: "json_laws J" and "jtype J j \<in> {JNull, JObject}"
  obtains j' where "to_json_Port J p j = Inr j'" and "jtype J j' = JObject"
    and "from_json_Port J j' = Inr p" and "\<forall>k. k \<notin> port_keys \<longrightarrow> jfind J k j' = jfind J k j"
proof -
  let ?kvs = "[(''name'', of_string J (port_name p)), (''datatype'', of_string J (port_datatype p)),
    (''port_type'', of_int_value J (PortType_value (port_type p))),
    (''port_index'', of_int_value J (port_port_index p)),
    (''time_domain'', of_int_value J (port_time_domain p))]"
  obtain j' where j': "set_fields J ?kvs j = Inr j'" "jtype J j' = JObject"
    and f: "\<And>k. jfind J k j' = (case map_of (rev ?kvs) k of Some v \<Rightarrow> Some v | None \<Rightarrow> jfind J k j)"
    using set_fields_cases [where kvs = ?kvs, OF assms] by (metis list.distinct(1))
  have "from_json_Port J j' = Inr p"
    by (simp add: from_json_Port_def json_get_found f get_PortType_def json_lawsD [OF laws] Port_make_def)
  with j' f show ?thesis by (intro that [of j']) (simp_all add: to_json_Port_def)
qed

definition written_Port :: "'j json_lib \<Rightarrow> Port \<Rightarrow> 'j \<Rightarrow> bool" where
  "written_Port J p j \<longleftrightarrow> jtype J j = JObject \<and> from_json_Port J j = Inr p \<and>
     jfind J ''connected_to'' j = None"

text \<open>An array of what \<open>P\<close> describes, which is missing when there is nothing to write.\<close>

definition written_list :: "'j json_lib \<Rightarrow> string \<Rightarrow> ('a \<Rightarrow> 'j \<Rightarrow> bool) \<Rightarrow> 'a list \<Rightarrow> 'j \<Rightarrow> bool" where
  "written_list J key P xs j \<longleftrightarrow>
     (case jfind J key j of
        None \<Rightarrow> xs = []
      | Some a \<Rightarrow> xs \<noteq> [] \<and> jtype J a = JArray \<and> list_all2 P xs (jelements J a))"

lemma from_json_list_written:
  assumes "written_list J key P xs j" and "\<And>x jx. x \<in> set xs \<Longrightarrow> P x jx \<Longrightarrow> g jx = Inr (h x)"
  shows "from_json_list J g key j = Inr (map h xs)"
proof (cases "jfind J key j")
  case None
  with assms(1) show ?thesis by (simp add: from_json_list_def written_list_def)
next
  case (Some a)
  with assms(1) have "list_all2 P xs (jelements J a)" by (simp add: written_list_def)
  then have "list_all2 (\<lambda>x j. g j = Inr x) (map h xs) (jelements J a)"
    using assms(2) by (auto simp: list_all2_conv_all_nth)
  with Some show ?thesis by (simp add: from_json_list_def map_res_list_all2)
qed

lemma written_list_keep:
  "jfind J key j' = jfind J key j \<Longrightarrow> written_list J key P xs j' = written_list J key P xs j"
  by (simp add: written_list_def)

lemma to_json_ports_cases:
  assumes laws: "json_laws J" and j: "jtype J j = JObject" "jfind J key j = None"
  obtains j' where "to_json_ports J key ports j = Inr j'" and "jtype J j' = JObject"
    and "written_list J key (written_Port J) ports j'"
    and "\<forall>k. k \<noteq> key \<longrightarrow> jfind J k j' = jfind J k j"
proof (cases "ports = []")
  case True
  with j show ?thesis by (intro that [of j]) (simp_all add: to_json_ports_def written_list_def)
next
  case False
  have null: "jtype J (jnull J) \<in> {JNull, JArray}" using laws by (simp add: json_lawsD)
  have ex: "\<exists>jx. to_json_Port J p (jnull J) = Inr jx \<and> written_Port J p jx" for p
  proof -
    obtain jx where "to_json_Port J p (jnull J) = Inr jx" "jtype J jx = JObject" "from_json_Port J jx = Inr p"
        "\<forall>k. k \<notin> port_keys \<longrightarrow> jfind J k jx = jfind J k (jnull J)"
      using to_json_Port_cases [OF laws, of "jnull J" p] json_lawsD(1) [OF laws] by blast
    then show ?thesis by (intro exI [of _ jx]) (simp add: written_Port_def json_lawsD [OF laws])
  qed
  obtain a js where a: "append_all J (\<lambda>port. to_json_Port J port (jnull J)) ports (jnull J) = Inr a"
      "jelements J a = jelements J (jnull J) @ js" "list_all2 (written_Port J) ports js"
      "jtype J a = (if ports = [] then jtype J (jnull J) else JArray)"
    by (rule append_all_cases [OF laws null ex])
  obtain j' where j': "jassign J key a j = Inr j'" "jtype J j' = JObject"
      "\<And>k. jfind J k j' = (if k = key then Some a else jfind J k j)"
    using json_assign_cases [OF laws, of j key a] j(1) by auto
  have "json_index J j key = Inr (jnull J)" using j by (simp add: json_index_def)
  with a(1) j'(1) False have "to_json_ports J key ports j = Inr j'" by (simp add: to_json_ports_def)
  with j' a False show ?thesis
    by (intro that [of j']) (simp_all add: written_list_def json_lawsD [OF laws])
qed

section \<open>Port groups\<close>

definition written_header :: "'j json_lib \<Rightarrow> PortGroup \<Rightarrow> 'j \<Rightarrow> 'j \<Rightarrow> bool" where
  "written_header J g par j \<longleftrightarrow> jtype J j = JObject \<and>
     jfind J ''name'' j = Some (of_string J (pg_name g)) \<and>
     jfind J ''group_index'' j = Some (of_int_value J (pg_group_index g)) \<and>
     jfind J ''min'' j = Some (of_int_value J (pg_min g)) \<and>
     jfind J ''max'' j = Some (of_int_value J (pg_max g)) \<and>
     jfind J ''parameter'' j = Some par"

abbreviation group_keys :: "string set" where
  "group_keys \<equiv>
  {''name'', ''group_index'', ''min'', ''max'', ''parameter'', ''producer_ports'', ''consumer_ports''}"

lemma written_header_keep:
  assumes "written_header J g par j" and "jtype J j' = JObject"
    and "\<And>k. k \<in> {''name'', ''group_index'', ''min'', ''max'', ''parameter''} \<Longrightarrow> jfind J k j' = jfind J k j"
  shows "written_header J g par j'"
  using assms by (simp add: written_header_def)

text \<open>Loaded without coordinate systems and edges.\<close>

definition stored_group :: "PortGroup \<Rightarrow> PortGroup" where
  "stored_group g = g\<lparr>coordinate_systems := [], pg_edges := {}\<rparr>"

lemma from_json_PortGroup_written:
  assumes laws: "json_laws J" and header: "written_header J g par j"
    and "from_json_list J (from_json_Port J) ''producer_ports'' j = Inr (producer_ports g)"
    and "from_json_list J (from_json_Port J) ''consumer_ports'' j = Inr (consumer_ports g)"
  shows "from_json_PortGroup J j PortGroup_default = Inr (stored_group g, par)"
  using header assms(3,4)
  by (simp add: from_json_PortGroup_def written_header_def json_get_found json_find_access
      json_lawsD [OF laws] PortGroup_default_def PortGroup_make_def stored_group_def)

definition written_PortGroup :: "'j json_lib \<Rightarrow> PortGroup \<times> 'j \<Rightarrow> 'j \<Rightarrow> bool" where
  "written_PortGroup J gp j \<longleftrightarrow> written_header J (fst gp) (snd gp) j \<and>
     written_list J ''producer_ports'' (written_Port J) (producer_ports (fst gp)) j \<and>
     written_list J ''consumer_ports'' (written_Port J) (consumer_ports (fst gp)) j"

lemma written_PortGroup_read:
  assumes "json_laws J" and "written_PortGroup J (g, par) j"
  shows "from_json_PortGroup J j PortGroup_default = Inr (stored_group g, par)"
proof (rule from_json_PortGroup_written [OF assms(1)])
  show "written_header J g par j" using assms(2) by (simp add: written_PortGroup_def)
  show "from_json_list J (from_json_Port J) ''producer_ports'' j = Inr (producer_ports g)"
    "from_json_list J (from_json_Port J) ''consumer_ports'' j = Inr (consumer_ports g)"
    using assms(2) from_json_list_written [where P = "written_Port J" and g = "from_json_Port J" and h = "\<lambda>x. x"]
    by (auto simp: written_PortGroup_def written_Port_def)
qed

lemma to_json_PortGroup_cases:
  assumes laws: "json_laws J" and j: "jtype J j \<in> {JNull, JObject}"
    and fresh: "\<And>k. k \<in> group_keys \<Longrightarrow> jfind J k j = None"
  obtains j' where "to_json_PortGroup J g par j = Inr j'" and "written_PortGroup J (g, par) j'"
    and "\<forall>k. k \<notin> group_keys \<longrightarrow> jfind J k j' = jfind J k j"
proof -
  let ?kvs = "[(''name'', of_string J (pg_name g)), (''group_index'', of_int_value J (pg_group_index g)),
    (''min'', of_int_value J (pg_min g)), (''max'', of_int_value J (pg_max g)), (''parameter'', par)]"
  obtain j1 where j1: "set_fields J ?kvs j = Inr j1" "jtype J j1 = JObject"
    and f1: "\<And>k. jfind J k j1 = (case map_of (rev ?kvs) k of Some v \<Rightarrow> Some v | None \<Rightarrow> jfind J k j)"
    using set_fields_cases [where kvs = ?kvs, OF laws j] by (metis list.distinct(1))
  have n1: "jfind J ''producer_ports'' j1 = None" by (simp add: f1 fresh)
  obtain j2 where j2: "to_json_ports J ''producer_ports'' (producer_ports g) j1 = Inr j2" "jtype J j2 = JObject"
      "written_list J ''producer_ports'' (written_Port J) (producer_ports g) j2"
    and f2: "\<forall>k. k \<noteq> ''producer_ports'' \<longrightarrow> jfind J k j2 = jfind J k j1"
    by (rule to_json_ports_cases [OF laws j1(2) n1])
  have n2: "jfind J ''consumer_ports'' j2 = None" by (simp add: f1 f2 fresh)
  obtain j3 where j3: "to_json_ports J ''consumer_ports'' (consumer_ports g) j2 = Inr j3" "jtype J j3 = JObject"
      "written_list J ''consumer_ports'' (written_Port J) (consumer_ports g) j3"
    and f3: "\<forall>k. k \<noteq> ''consumer_ports'' \<longrightarrow> jfind J k j3 = jfind J k j2"
    by (rule to_json_ports_cases [OF laws j2(2) n2])
  have "written_header J g par j3" using j3(2) by (simp add: written_header_def f1 f2 f3)
  moreover have "written_list J ''producer_ports'' (written_Port J) (producer_ports g) j3"
    using j2(3) f3 by (simp add: written_list_keep [of J "''producer_ports''" j3 j2])
  ultimately have "written_PortGroup J (g, par) j3" using j3(3) by (simp add: written_PortGroup_def)
  moreover have "to_json_PortGroup J g par j = Inr j3" using j1(1) j2(1) j3(1) by (simp add: to_json_PortGroup_def)
  moreover have "\<forall>k. k \<notin> group_keys \<longrightarrow> jfind J k j3 = jfind J k j" by (simp add: f1 f2 f3)
  ultimately show ?thesis by (intro that)
qed

lemma to_json_PortGroup_null:
  assumes laws: "json_laws J"
  shows "\<exists>j. to_json_PortGroup J g par (jnull J) = Inr j \<and> written_PortGroup J (g, par) j"
proof -
  have null: "jtype J (jnull J) \<in> {JNull, JObject}" "\<And>k. k \<in> group_keys \<Longrightarrow> jfind J k (jnull J) = None"
    by (simp_all add: json_lawsD [OF laws])
  obtain j where "to_json_PortGroup J g par (jnull J) = Inr j" "written_PortGroup J (g, par) j"
      "\<forall>k. k \<notin> group_keys \<longrightarrow> jfind J k j = jfind J k (jnull J)"
    by (rule to_json_PortGroup_cases [OF laws null])
  then show ?thesis by blast
qed

section \<open>Patterns\<close>

definition stored_pattern :: "Pattern \<Rightarrow> Pattern" where
  "stored_pattern p = p\<lparr>port_groups := map stored_group (port_groups p), is_group_port := False\<rparr>"

lemma to_json_time_domain_written:
  assumes laws: "json_laws J" and "i < length (time_domain_component_type p)" and "i < length (pat_concurrency p)"
  shows "\<exists>j. to_json_time_domain J p i = Inr j \<and>
    from_json_time_domain J j = Inr (time_domain_component_type p ! i, pat_concurrency p ! i)"
proof -
  let ?kvs = "[(''component_type'', of_int_value J (int (ct_value (time_domain_component_type p ! i)))),
    (''concurrency'', of_unsigned J (Concurrency_value (pat_concurrency p ! i)))]"
  have null: "jtype J (jnull J) \<in> {JNull, JObject}" by (simp add: json_lawsD [OF laws])
  obtain j where j: "set_fields J ?kvs (jnull J) = Inr j"
    and f: "\<And>k. jfind J k j = (case map_of (rev ?kvs) k of Some v \<Rightarrow> Some v | None \<Rightarrow> jfind J k (jnull J))"
    using set_fields_cases [where kvs = ?kvs, OF laws null] by (metis list.distinct(1))
  have "to_json_time_domain J p i = set_fields J ?kvs (jnull J)"
    using assms(2,3) by (simp add: to_json_time_domain_def set_fields_def raw_get_int del: fold_res.simps(2))
      (simp add: fun_eq_iff)
  moreover have "from_json_time_domain J j = Inr (time_domain_component_type p ! i, pat_concurrency p ! i)"
    by (simp add: from_json_time_domain_def json_get_found f get_ComponentType_def get_Concurrency_def
        json_lawsD [OF laws])
  ultimately show ?thesis using j by simp
qed

text \<open>An array, or \<open>null\<close> for the empty list, as a field.\<close>

lemma append_field_cases:
  assumes laws: "json_laws J" and j: "jtype J j = JObject" "jfind J key j = None"
    and f: "\<And>x. x \<in> set xs \<Longrightarrow> \<exists>jx. f x = Inr jx \<and> P x jx"
  obtains a j' where "json_index J j key = Inr (jnull J)" and "append_all J f xs (jnull J) = Inr a"
    and "jassign J key a j = Inr j'" and "jtype J j' = JObject"
    and "list_all2 P xs (jelements J a)" and "\<forall>k. jfind J k j' = (if k = key then Some a else jfind J k j)"
proof -
  have null: "jtype J (jnull J) \<in> {JNull, JArray}" using laws by (simp add: json_lawsD)
  obtain a js where a: "append_all J f xs (jnull J) = Inr a" "jelements J a = jelements J (jnull J) @ js"
      "list_all2 P xs js" "jtype J a = (if xs = [] then jtype J (jnull J) else JArray)"
    by (rule append_all_cases [OF laws null f])
  obtain j' where j': "jassign J key a j = Inr j'" "jtype J j' = JObject"
      "\<And>k. jfind J k j' = (if k = key then Some a else jfind J k j)"
    using json_assign_cases [OF laws, of j key a] j(1) by auto
  show ?thesis
    using a j j' by (intro that [of a j']) (simp_all add: json_index_def json_lawsD [OF laws])
qed

lemma to_json_Pattern_cases:
  assumes laws: "json_laws J" and len: "length (time_domain_component_type p) = length (pat_concurrency p)"
    and params: "length ps = length (port_groups p)"
  obtains j where "to_json_Pattern J p ps (jnull J) = Inr j"
    and "from_json_Pattern J j (Pattern_default, q) = Inr (stored_pattern p, ps)"
proof -
  let ?kvs = "[(''pattern_name'', of_string J (pat_name p)), (''display_name'', of_string J (pat_display_name p)),
    (''description'', of_string J (pat_description p)), (''tags'', of_strings J (pat_tags p))]"
  let ?tds = "[0..<length (time_domain_component_type p)]" and ?gs = "zip (port_groups p) ps"
  have null: "jtype J (jnull J) \<in> {JNull, JObject}" by (simp add: json_lawsD [OF laws])
  obtain j1 where j1: "set_fields J ?kvs (jnull J) = Inr j1" "jtype J j1 = JObject"
    and f1: "\<And>k. jfind J k j1 = (case map_of (rev ?kvs) k of Some v \<Rightarrow> Some v | None \<Rightarrow> jfind J k (jnull J))"
    using set_fields_cases [where kvs = ?kvs, OF laws null] by (metis list.distinct(1))
  let ?P = "\<lambda>i j. from_json_time_domain J j = Inr (time_domain_component_type p ! i, pat_concurrency p ! i)"
  have n1: "jfind J ''time_domains'' j1 = None" by (simp add: f1 json_lawsD [OF laws])
  have td: "\<exists>jx. to_json_time_domain J p i = Inr jx \<and> ?P i jx" if "i \<in> set ?tds" for i
    using to_json_time_domain_written [OF laws, of i p] that len by simp
  obtain a2 j2 where j2: "json_index J j1 ''time_domains'' = Inr (jnull J)"
      "append_all J (to_json_time_domain J p) ?tds (jnull J) = Inr a2"
      "jassign J ''time_domains'' a2 j1 = Inr j2" "jtype J j2 = JObject" "list_all2 ?P ?tds (jelements J a2)"
      "\<forall>k. jfind J k j2 = (if k = ''time_domains'' then Some a2 else jfind J k j1)"
    by (rule append_field_cases [OF laws j1(2) n1 td])
  let ?w = "\<lambda>(port_group, parameter). to_json_PortGroup J port_group parameter (jnull J)"
  have n2: "jfind J ''port_groups'' j2 = None" by (simp add: f1 j2(6) json_lawsD [OF laws])
  have gr: "\<exists>jx. ?w gp = Inr jx \<and> written_PortGroup J gp jx" for gp
    using to_json_PortGroup_null [OF laws, of "fst gp" "snd gp"] by (cases gp) simp
  obtain a3 j3 where j3: "json_index J j2 ''port_groups'' = Inr (jnull J)"
      "append_all J ?w ?gs (jnull J) = Inr a3" "jassign J ''port_groups'' a3 j2 = Inr j3"
      "jtype J j3 = JObject" "list_all2 (written_PortGroup J) ?gs (jelements J a3)"
      "\<forall>k. jfind J k j3 = (if k = ''port_groups'' then Some a3 else jfind J k j2)"
    by (rule append_field_cases [OF laws j2(4) n2 gr])
  have written: "to_json_Pattern J p ps (jnull J) = Inr j3"
    using j1(1) j2(1,2,3) j3(1,2,3) by (simp add: to_json_Pattern_def)
  have "map_res (from_json_time_domain J) (jelements J a2) =
      Inr (map (\<lambda>i. (time_domain_component_type p ! i, pat_concurrency p ! i)) ?tds)"
    using j2(5) by (rule map_res_read)
  then have tds: "from_json_list J (from_json_time_domain J) ''time_domains'' j3 =
      Inr (map (\<lambda>i. (time_domain_component_type p ! i, pat_concurrency p ! i)) ?tds)"
    by (simp add: from_json_list_def j2(6) j3(6))
  have groups: "map_res (\<lambda>j. from_json_PortGroup J j PortGroup_default) (jelements J a3) =
      Inr (map (\<lambda>(g, par). (stored_group g, par)) ?gs)"
    using j3(5) written_PortGroup_read [OF laws] params
    by (intro map_res_list_all2) (auto simp: list_all2_conv_all_nth split_beta)
  have firsts: "map (\<lambda>i. time_domain_component_type p ! i) ?tds = time_domain_component_type p"
    "map (\<lambda>i. pat_concurrency p ! i) ?tds = pat_concurrency p"
    "map (stored_group \<circ> fst) ?gs = map stored_group (port_groups p)" "map snd ?gs = ps"
    using len params map_nth [of "time_domain_component_type p"] map_nth [of "pat_concurrency p"]
    by (simp_all flip: list.map_comp)
  have "from_json_Pattern J j3 (Pattern_default, q) = Inr (stored_pattern p, ps)"
    using tds groups firsts
    by (simp add: from_json_Pattern_def json_get_found f1 j2(6) j3(6) json_lawsD [OF laws] Let_def
        Pattern_default_def stored_pattern_def comp_def split_beta)
  with written show ?thesis by (rule that)
qed

section \<open>Port group instances\<close>

lemma from_json_Port_cong:
  assumes "\<And>k. k \<in> port_keys \<Longrightarrow> jfind J k j' = jfind J k j"
  shows "from_json_Port J j' = from_json_Port J j"
  by (simp add: from_json_Port_def json_get_def json_at_def assms)

definition written_PortInstance :: "'j json_lib \<Rightarrow> PortInstance \<Rightarrow> 'j \<Rightarrow> bool" where
  "written_PortInstance J x j \<longleftrightarrow> from_json_Port J j = Inr (inst_port x) \<and>
     from_json_PortInstance J j (PortInstance_make Port_default) = Inr x"

text \<open>Only the connections of consumer ports are written; those of producer ports are always empty.\<close>

definition connection_storable :: "PortInstance \<Rightarrow> bool" where
  "connection_storable x \<longleftrightarrow> port_type (inst_port x) = CONSUMER \<or> connected_to x = ([], [])"

lemma to_json_PortInstance_merge:
  assumes laws: "json_laws J" and j: "written_Port J (inst_port x) j" and x: "connection_storable x"
  shows "\<exists>j'. to_json_PortInstance J x j = Inr j' \<and> written_PortInstance J x j'"
proof -
  have obj: "jtype J j \<in> {JNull, JObject}" using j by (simp add: written_Port_def)
  obtain j1 where j1: "to_json_Port J (inst_port x) j = Inr j1" "jtype J j1 = JObject"
      "from_json_Port J j1 = Inr (inst_port x)" and f1: "\<forall>k. k \<notin> port_keys \<longrightarrow> jfind J k j1 = jfind J k j"
    by (rule to_json_Port_cases [OF laws obj])
  have none: "jfind J ''connected_to'' j1 = None" using j f1 by (simp add: written_Port_def)
  show ?thesis
  proof (cases "port_type (inst_port x) = CONSUMER")
    case True
    obtain j2 where j2: "jassign J ''connected_to'' (of_pair J (connected_to x)) j1 = Inr j2"
        "\<And>k. jfind J k j2 = (if k = ''connected_to'' then Some (of_pair J (connected_to x)) else jfind J k j1)"
      using json_assign_cases [OF laws, of j1 "''connected_to''" "of_pair J (connected_to x)"] j1(2) by auto
    have "from_json_Port J j2 = from_json_Port J j1" by (rule from_json_Port_cong) (auto simp: j2(2))
    with True j1 none j2 show ?thesis
      by (simp add: to_json_PortInstance_def written_PortInstance_def from_json_PortInstance_def
          PortInstance_make_def json_lawsD [OF laws])
  next
    case False
    with x have "connected_to x = ([], [])" by (simp add: connection_storable_def)
    with False j1 show ?thesis
      by (simp add: to_json_PortInstance_def written_PortInstance_def from_json_PortInstance_def
          PortInstance_make_def)
  qed
qed

lemma merge_ports:
  assumes laws: "json_laws J" and "jtype J a = JArray" and "jelements J a = front @ js" and "length front = n"
    and "list_all2 (\<lambda>x. written_Port J (inst_port x)) xs js" and "\<And>x. x \<in> set xs \<Longrightarrow> connection_storable x"
  shows "\<exists>a' js'. fold_res (\<lambda>(port_index, port) json_ports.
      bind_res (json_element J json_ports port_index) (\<lambda>json_port.
      bind_res (to_json_PortInstance J port json_port) (\<lambda>json_port'.
      jreplace J port_index json_port' json_ports))) (enumerate n xs) a = Inr a' \<and> jtype J a' = JArray \<and>
    jelements J a' = front @ js' \<and> list_all2 (written_PortInstance J) xs js'"
  using assms(2-6)
proof (induction xs arbitrary: n a front js)
  case Nil
  then show ?case by auto
next
  case (Cons x xs)
  from Cons.prems(4) obtain j js1 where js: "js = j # js1" and j: "written_Port J (inst_port x) j"
    and rest: "list_all2 (\<lambda>x. written_Port J (inst_port x)) xs js1" by (auto simp: list_all2_Cons1)
  from to_json_PortInstance_merge [OF laws j] Cons.prems(5) obtain j' where
    j': "to_json_PortInstance J x j = Inr j'" "written_PortInstance J x j'" by auto
  have len: "n < length (jelements J a)" using Cons.prems(2,3) js by simp
  obtain a1 where a1: "jreplace J n j' a = Inr a1" "jtype J a1 = JArray"
      "jelements J a1 = (jelements J a)[n := j']"
    by (rule json_replace_cases [OF laws Cons.prems(1) len])
  from a1(3) Cons.prems(2,3) js have el: "jelements J a1 = (front @ [j']) @ js1"
    by (simp add: list_update_append)
  have step: "json_element J a n = Inr j"
    using Cons.prems(1,2,3) js by (simp add: json_element_def nth_append)
  obtain a' js' where IH: "fold_res (\<lambda>(port_index, port) json_ports.
      bind_res (json_element J json_ports port_index) (\<lambda>json_port.
      bind_res (to_json_PortInstance J port json_port) (\<lambda>json_port'.
      jreplace J port_index json_port' json_ports))) (enumerate (Suc n) xs) a1 = Inr a'" "jtype J a' = JArray"
    "jelements J a' = (front @ [j']) @ js'" "list_all2 (written_PortInstance J) xs js'"
    using Cons.IH [OF a1(2) el _ rest, of "Suc n"] Cons.prems(3,5) by auto
  have "jelements J a' = front @ (j' # js')" using IH(3) by simp
  with IH(1,2,4) step j' a1(1) show ?case by (intro exI [of _ a'] exI [of _ "j' # js'"]) simp
qed

lemma to_json_port_instances_cases:
  assumes laws: "json_laws J" and j: "jtype J j = JObject"
    and ports: "written_list J key (written_Port J) (map inst_port xs) j"
    and ok: "\<And>x. x \<in> set xs \<Longrightarrow> connection_storable x"
  obtains j' where "to_json_port_instances J key xs j = Inr j'" and "jtype J j' = JObject"
    and "written_list J key (written_PortInstance J) xs j'"
    and "\<forall>k. k \<noteq> key \<longrightarrow> jfind J k j' = jfind J k j"
proof (cases "xs = []")
  case True
  with j ports show ?thesis
    by (intro that [of j]) (simp_all add: to_json_port_instances_def written_list_def split: option.splits)
next
  case False
  with ports obtain a where a: "jfind J key j = Some a" "jtype J a = JArray"
      "list_all2 (\<lambda>x. written_Port J (inst_port x)) xs (jelements J a)"
    by (auto simp: written_list_def list_all2_map1 split: option.splits)
  obtain a' where a': "fold_res (\<lambda>(port_index, port) json_ports.
      bind_res (json_element J json_ports port_index) (\<lambda>json_port.
      bind_res (to_json_PortInstance J port json_port) (\<lambda>json_port'.
      jreplace J port_index json_port' json_ports))) (enumerate 0 xs) a = Inr a'" "jtype J a' = JArray"
      "list_all2 (written_PortInstance J) xs (jelements J a')"
    using merge_ports [OF laws a(2) _ _ a(3), of "[]" 0] ok by auto
  obtain j' where j': "jassign J key a' j = Inr j'" "jtype J j' = JObject"
      "\<And>k. jfind J k j' = (if k = key then Some a' else jfind J k j)"
    using json_assign_cases [OF laws, of j key a'] j by auto
  show ?thesis
    using False a a' j'
    by (intro that [of j']) (simp_all add: to_json_port_instances_def json_find_access written_list_def)
qed

definition group_storable :: "PortGroupInstance \<Rightarrow> bool" where
  "group_storable gi \<longleftrightarrow> map inst_port (gi_producer_ports gi) = producer_ports (gi_port_group gi) \<and>
     map inst_port (gi_consumer_ports gi) = consumer_ports (gi_port_group gi) \<and>
     list_all connection_storable (gi_producer_ports gi) \<and> list_all connection_storable (gi_consumer_ports gi)"

definition stored_instance :: "PortGroupInstance \<Rightarrow> PortGroupInstance" where
  "stored_instance gi = gi\<lparr>gi_port_group := stored_group (gi_port_group gi)\<rparr>"

lemma to_json_PortGroupInstance_written:
  assumes laws: "json_laws J" and ok: "group_storable gi"
  shows "\<exists>j. to_json_PortGroupInstance J gi par (jnull J) = Inr j \<and>
    from_json_PortGroupInstance J j PortGroupInstance_default = Inr (stored_instance gi, par)"
proof -
  let ?g = "gi_port_group gi" and ?cs = "gi_consumer_ports gi" and ?ps = "gi_producer_ports gi"
  have null: "jtype J (jnull J) \<in> {JNull, JObject}" "\<And>k. k \<in> group_keys \<Longrightarrow> jfind J k (jnull J) = None"
    by (simp_all add: json_lawsD [OF laws])
  obtain j1 where j1: "to_json_PortGroup J ?g par (jnull J) = Inr j1" "written_PortGroup J (?g, par) j1"
      "\<forall>k. k \<notin> group_keys \<longrightarrow> jfind J k j1 = jfind J k (jnull J)"
    by (rule to_json_PortGroup_cases [OF laws null])
  from j1(2) have h1: "written_header J ?g par j1"
    and l1: "written_list J ''producer_ports'' (written_Port J) (producer_ports ?g) j1"
      "written_list J ''consumer_ports'' (written_Port J) (consumer_ports ?g) j1"
    by (simp_all add: written_PortGroup_def)
  let ?key = "''port_group_instance_index''" and ?index = "of_int_value J (gi_index gi)"
  obtain j2 where j2: "jassign J ?key ?index j1 = Inr j2" "jtype J j2 = JObject"
      "\<And>k. jfind J k j2 = (if k = ?key then Some ?index else jfind J k j1)"
    using json_assign_cases [OF laws, of j1 ?key ?index] h1 by (auto simp: written_header_def)
  have c2: "written_list J ''consumer_ports'' (written_Port J) (map inst_port ?cs) j2"
    using l1(2) ok by (simp add: written_list_def j2(3) group_storable_def)
  have okc: "\<And>x. x \<in> set ?cs \<Longrightarrow> connection_storable x" and okp: "\<And>x. x \<in> set ?ps \<Longrightarrow> connection_storable x"
    using ok by (auto simp: group_storable_def list_all_iff)
  obtain j3 where j3: "to_json_port_instances J ''consumer_ports'' ?cs j2 = Inr j3" "jtype J j3 = JObject"
      "written_list J ''consumer_ports'' (written_PortInstance J) ?cs j3"
      "\<forall>k. k \<noteq> ''consumer_ports'' \<longrightarrow> jfind J k j3 = jfind J k j2"
    by (rule to_json_port_instances_cases [OF laws j2(2) c2 okc])
  have p3: "written_list J ''producer_ports'' (written_Port J) (map inst_port ?ps) j3"
    using l1(1) ok by (simp add: written_list_def j2(3) j3(4) group_storable_def)
  obtain j4 where j4: "to_json_port_instances J ''producer_ports'' ?ps j3 = Inr j4" "jtype J j4 = JObject"
      "written_list J ''producer_ports'' (written_PortInstance J) ?ps j4"
      "\<forall>k. k \<noteq> ''producer_ports'' \<longrightarrow> jfind J k j4 = jfind J k j3"
    by (rule to_json_port_instances_cases [OF laws j3(2) p3 okp])
  have c4: "written_list J ''consumer_ports'' (written_PortInstance J) ?cs j4"
    using j3(3) by (simp add: written_list_def j4(4))
  have ports: "from_json_list J (from_json_Port J) key j = Inr (map inst_port xs)"
    "from_json_list J (\<lambda>j. from_json_PortInstance J j (PortInstance_make Port_default)) key j = Inr xs"
    if "written_list J key (written_PortInstance J) xs j" for key xs j
    using from_json_list_written [OF that, where h = inst_port] from_json_list_written [OF that, where h = "\<lambda>x. x"]
    by (simp_all add: written_PortInstance_def)
  have h4: "written_header J ?g par j4"
    using h1 j4(2) by (simp add: written_header_def j2(3) j3(4) j4(4))
  have group: "from_json_PortGroup J j4 PortGroup_default = Inr (stored_group ?g, par)"
    using ports(1) [OF j4(3)] ports(1) [OF c4] ok
    by (intro from_json_PortGroup_written [OF laws h4]) (simp_all add: group_storable_def)
  have "jfind J ?key j4 = Some ?index" by (simp add: j2(3) j3(4) j4(4))
  then have "from_json_PortGroupInstance J j4 PortGroupInstance_default = Inr (stored_instance gi, par)"
    using group ports(2) [OF j4(3)] ports(2) [OF c4]
    by (simp add: from_json_PortGroupInstance_def PortGroupInstance_default_def json_get_found
        json_lawsD [OF laws] stored_instance_def)
  moreover have "to_json_PortGroupInstance J gi par (jnull J) = Inr j4"
    using j1(1) j2(1) j3(1) j4(1) by (simp add: to_json_PortGroupInstance_def)
  ultimately show ?thesis by blast
qed

section \<open>Pattern instances\<close>

definition stored_pattern_instance :: "PatternInstance \<Rightarrow> PatternInstance" where
  "stored_pattern_instance p =
     p\<lparr>local_pattern := stored_pattern (local_pattern p),
       inst_port_groups := map (map stored_instance) (inst_port_groups p)\<rparr>"

text \<open>
  The pattern has one concurrency for each component type, the JSON values of the parameters belong to
  the groups and their instances, and the ports of the instances are those of their groups.
\<close>

definition parameters_fit :: "PatternInstance \<Rightarrow> 'j InstanceParameters \<Rightarrow> bool" where
  "parameters_fit p ip \<longleftrightarrow> length (local_parameters ip) = length (port_groups (local_pattern p)) \<and>
     list_all2 (\<lambda>gis ps. length gis = length ps) (inst_port_groups p) (group_parameters ip)"

definition instance_storable :: "PatternInstance \<Rightarrow> bool" where
  "instance_storable p \<longleftrightarrow>
     length (time_domain_component_type (local_pattern p)) = length (pat_concurrency (local_pattern p)) \<and>
     (\<forall>gis \<in> set (inst_port_groups p). \<forall>gi \<in> set gis. group_storable gi) \<and>
     omap_ok (port_group_name_to_index p)"

lemma map_res_elements:
  assumes "jtype J j = JArray \<or> jelements J j = []"
  shows "map_res (\<lambda>i. bind_res (json_element J j i) f) [0..<length (jelements J j)] = map_res f (jelements J j)"
proof -
  have "map_res (\<lambda>i. bind_res (json_element J j i) f) is = map_res f (map ((!) (jelements J j)) is)"
    if "\<forall>i \<in> set is. i < length (jelements J j) \<and> jtype J j = JArray" for "is"
    using that by (induction "is") (simp_all add: json_element_def)
  from this [of "[0..<length (jelements J j)]"] assms show ?thesis by (auto simp: map_nth)
qed

lemma to_json_instances_written:
  assumes laws: "json_laws J" and "\<forall>gi \<in> set gis. group_storable gi" and "length gis = length ps"
  shows "\<exists>a. append_all J (\<lambda>(instance, parameter). to_json_PortGroupInstance J instance parameter (jnull J))
      (zip gis ps) (jnull J) = Inr a \<and>
    map_res (\<lambda>i. bind_res (json_element J a i)
        (\<lambda>j. from_json_PortGroupInstance J j PortGroupInstance_default))
      [0..<length (jelements J a)] = Inr (zip (map stored_instance gis) ps)"
proof -
  let ?w = "\<lambda>(instance, parameter). to_json_PortGroupInstance J instance parameter (jnull J)"
  let ?r = "\<lambda>j. from_json_PortGroupInstance J j PortGroupInstance_default"
  let ?P = "\<lambda>x j. ?r j = Inr (stored_instance (fst x), snd x)"
  have null: "jtype J (jnull J) \<in> {JNull, JArray}" using laws by (simp add: json_lawsD)
  have ex: "\<exists>jx. ?w x = Inr jx \<and> ?P x jx" if "x \<in> set (zip gis ps)" for x
    using to_json_PortGroupInstance_written [OF laws, of "fst x" "snd x"] that assms(2)
    by (cases x) (auto dest: set_zip_leftD)
  obtain a js where a: "append_all J ?w (zip gis ps) (jnull J) = Inr a"
      "jelements J a = jelements J (jnull J) @ js" "list_all2 ?P (zip gis ps) js"
      "jtype J a = (if zip gis ps = [] then jtype J (jnull J) else JArray)"
    by (rule append_all_cases [OF laws null ex])
  have js: "jelements J a = js" using a(2) by (simp add: json_lawsD [OF laws])
  have "map_res ?r js = Inr (map (\<lambda>x. (stored_instance (fst x), snd x)) (zip gis ps))"
    using a(3) by (rule map_res_read)
  also have "map (\<lambda>x. (stored_instance (fst x), snd x)) (zip gis ps) = zip (map stored_instance gis) ps"
    by (simp add: zip_map1 split_beta)
  finally have "map_res (\<lambda>i. bind_res (json_element J a i) ?r) [0..<length (jelements J a)] =
      Inr (zip (map stored_instance gis) ps)"
    using a(3,4) js by (subst map_res_elements) (auto split: if_splits)
  with a(1) show ?thesis by blast
qed

lemma to_json_PatternInstance_written:
  assumes laws: "json_laws J" and ok: "instance_storable p" and fit: "parameters_fit p ip"
  shows "\<exists>j. to_json_PatternInstance J p ip (jnull J) = Inr j \<and>
    from_json_PatternInstance J j = Inr (stored_pattern_instance p, ip)"
proof -
  let ?q = "local_pattern p" and ?null = "jnull J"
  have len: "length (time_domain_component_type ?q) = length (pat_concurrency ?q)"
    and params: "length (local_parameters ip) = length (port_groups ?q)"
    using ok fit by (simp_all add: instance_storable_def parameters_fit_def)
  obtain jp where jp: "to_json_Pattern J ?q (local_parameters ip) ?null = Inr jp"
      "from_json_Pattern J jp (Pattern_default, Pattern_parameters_make J) =
         Inr (stored_pattern ?q, local_parameters ip)"
    by (rule to_json_Pattern_cases [OF laws len params])
  obtain j1 where j1: "jassign J ''local_pattern'' jp ?null = Inr j1" "jtype J j1 = JObject"
      "\<And>k. jfind J k j1 = (if k = ''local_pattern'' then Some jp else jfind J k ?null)"
    using json_assign_cases [OF laws, of ?null "''local_pattern''" jp] json_lawsD(1) [OF laws] by auto
  let ?kvs = "[(''id'', of_string J (instance_id p)), (''display_name'', of_string J (display_name p))]"
  have o1: "jtype J j1 \<in> {JNull, JObject}" using j1(2) by simp
  obtain j2 where j2: "set_fields J ?kvs j1 = Inr j2" "jtype J j2 = JObject"
    and f2: "\<And>k. jfind J k j2 = (case map_of (rev ?kvs) k of Some v \<Rightarrow> Some v | None \<Rightarrow> jfind J k j1)"
    using set_fields_cases [where kvs = ?kvs, OF laws o1] by (metis list.distinct(1))
  let ?w = "\<lambda>(instances, instance_parameters).
    append_all J (\<lambda>(instance, parameter). to_json_PortGroupInstance J instance parameter ?null)
      (zip instances instance_parameters) ?null"
  let ?r = "\<lambda>a. map_res (\<lambda>i. bind_res (json_element J a i)
    (\<lambda>j. from_json_PortGroupInstance J j PortGroupInstance_default)) [0..<length (jelements J a)]"
  let ?P = "\<lambda>x a. ?r a = Inr (zip (map stored_instance (fst x)) (snd x))"
  let ?zs = "zip (inst_port_groups p) (group_parameters ip)"
  have lens: "length (fst x) = length (snd x)" if "x \<in> set ?zs" for x
    using fit that by (auto simp: parameters_fit_def list_all2_iff)
  have ex: "\<exists>a. ?w x = Inr a \<and> ?P x a" if "x \<in> set ?zs" for x
    using to_json_instances_written [OF laws _ lens [OF that]] ok that
    by (cases x) (auto simp: instance_storable_def dest!: set_zip_leftD)
  have n2: "jfind J ''port_groups_instances'' j2 = None" by (simp add: f2 j1(3) json_lawsD [OF laws])
  obtain a3 j3 where j3: "json_index J j2 ''port_groups_instances'' = Inr ?null"
      "append_all J ?w ?zs ?null = Inr a3" "jassign J ''port_groups_instances'' a3 j2 = Inr j3"
      "jtype J j3 = JObject" "list_all2 ?P ?zs (jelements J a3)"
      "\<forall>k. jfind J k j3 = (if k = ''port_groups_instances'' then Some a3 else jfind J k j2)"
    by (rule append_field_cases [OF laws j2(2) n2 ex])
  let ?last = "[(''port_group_name_to_index'', of_int_map J (port_group_name_to_index p)),
    (''local_to_global_time_domain'', of_ints J (local_to_global_time_domain p))]"
  have o3: "jtype J j3 \<in> {JNull, JObject}" using j3(4) by simp
  obtain j4 where j4: "set_fields J ?last j3 = Inr j4" "jtype J j4 = JObject"
    and f4: "\<And>k. jfind J k j4 = (case map_of (rev ?last) k of Some v \<Rightarrow> Some v | None \<Rightarrow> jfind J k j3)"
    using set_fields_cases [where kvs = ?last, OF laws o3] by (metis list.distinct(1))
  have written: "to_json_PatternInstance J p ip ?null = Inr j4"
    using jp(1) j1(1) j2(1) j3(1,2,3) j4(1)
    by (simp add: to_json_PatternInstance_def json_index_def json_lawsD [OF laws])
  have "map_res ?r (jelements J a3) = Inr (map (\<lambda>x. zip (map stored_instance (fst x)) (snd x)) ?zs)"
    using j3(5) by (rule map_res_read)
  then have groups: "from_json_list J ?r ''port_groups_instances'' j4 =
      Inr (map (\<lambda>x. zip (map stored_instance (fst x)) (snd x)) ?zs)"
    by (simp add: from_json_list_def f4 j3(6))
  have firsts: "map (map fst) (map (\<lambda>x. zip (map stored_instance (fst x)) (snd x)) ?zs) =
      map (map stored_instance) (inst_port_groups p)"
    "map (map snd) (map (\<lambda>x. zip (map stored_instance (fst x)) (snd x)) ?zs) = group_parameters ip"
    using fit by (auto simp: parameters_fit_def list_all2_conv_all_nth intro!: nth_equalityI)
  have omap: "omap_ok (port_group_name_to_index p)" using ok by (simp add: instance_storable_def)
  have "from_json_PatternInstance J j4 = Inr (stored_pattern_instance p, ip)"
    using jp(2) groups firsts omap
    by (simp add: from_json_PatternInstance_def json_get_found json_find_access f4 j3(6) f2 j1(3)
        json_lawsD [OF laws] stored_pattern_instance_def)
  with written show ?thesis by simp
qed

section \<open>Graphs\<close>

lemma to_json_TimeDomainManagerConfig_written:
  assumes laws: "json_laws J"
  shows "\<exists>j. to_json_TimeDomainManagerConfig J c (jnull J) = Inr j \<and>
    from_json_TimeDomainManagerConfig J j = Inr c"
proof -
  let ?kvs = "[(''time_domain'', of_int_value J (time_domain c)),
    (''ringbuffer_size'', of_unsigned J (ringbuffer_size c)),
    (''max_offset'', of_int_value J (max_offset c)), (''max_delay'', of_int_value J (max_delay c)),
    (''sensor_frequency'', of_double J (sensor_frequency c)),
    (''source_mode'', of_int_value J (SourceMode_value (source_mode c))),
    (''missing_source_event_mode'',
       of_int_value J (MissingSourceEventMode_value (missing_source_event_mode c))),
    (''cpu_count'', of_int_value J (cpu_count c)), (''profile'', of_bool_value J (profile c))]"
  have null: "jtype J (jnull J) \<in> {JNull, JObject}" by (simp add: json_lawsD [OF laws])
  obtain j where j: "set_fields J ?kvs (jnull J) = Inr j"
    and f: "\<And>k. jfind J k j = (case map_of (rev ?kvs) k of Some v \<Rightarrow> Some v | None \<Rightarrow> jfind J k (jnull J))"
    using set_fields_cases [where kvs = ?kvs, OF laws null] by (metis list.distinct(1))
  have "from_json_TimeDomainManagerConfig J j = Inr c"
    by (simp add: from_json_TimeDomainManagerConfig_def json_get_found f get_SourceMode_def
        get_MissingSourceEventMode_def json_lawsD [OF laws])
  with j show ?thesis by (simp add: to_json_TimeDomainManagerConfig_def)
qed

lemma emplace_last: "(\<forall>x \<in> fst ` set m. x < k) \<Longrightarrow> emplace k v m = m @ [(k, v)]"
  by (induction m rule: emplace.induct) auto

lemma fold_emplace_sorted:
  "omap_ok (m @ kvs) \<Longrightarrow> fold (\<lambda>(k, v). emplace k v) kvs m = m @ kvs"
proof (induction kvs arbitrary: m)
  case (Cons kv kvs)
  obtain k v where kv: "kv = (k, v)" by (cases kv)
  from Cons.prems have "\<forall>x \<in> fst ` set m. x < k" by (auto simp: omap_ok_def sorted_wrt_append kv)
  with Cons.IH [of "m @ [kv]"] Cons.prems show ?case by (simp add: emplace_last kv)
qed simp

text \<open>A graph whose instances can be stored, with time domains under their own number.\<close>

definition graph_storable :: "GraphInstance \<Rightarrow> (string, 'j InstanceParameters) omap \<Rightarrow> bool" where
  "graph_storable g ps \<longleftrightarrow> omap_ok (pattern_instances g) \<and>
     (\<forall>(k, p) \<in> set (pattern_instances g). instance_id p = k \<and> instance_storable p) \<and>
     omap_ok (timedomain_configs g) \<and>
     (\<forall>(k, c) \<in> set (timedomain_configs g). nat (time_domain c mod 2 ^ 64) = k) \<and>
     list_all2 (\<lambda>(k, p) (k', ip). k' = k \<and> parameters_fit p ip) (pattern_instances g) ps"

definition stored_graph :: "GraphInstance \<Rightarrow> GraphInstance" where
  "stored_graph g = g\<lparr>pattern_instances := map (map_prod id stored_pattern_instance) (pattern_instances g)\<rparr>"

lemma list_all2_keys:
  "list_all2 (\<lambda>(k, p) (k', q). k' = k \<and> P p q) xs ys \<Longrightarrow> map fst ys = map fst xs"
  by (induction xs ys rule: list_all2_induct) auto

lemma list_all2_partner: "list_all2 P xs ys \<Longrightarrow> x \<in> set xs \<Longrightarrow> \<exists>y \<in> set ys. P x y"
  by (induction xs ys rule: list_all2_induct) auto

text \<open>The maps are filled again in their order.\<close>

lemma graph_storable_refilled:
  fixes g ps
  defines "read \<equiv> map (\<lambda>x. (stored_pattern_instance (snd x), the (map_of ps (fst x)))) (pattern_instances g)"
  assumes ok: "graph_storable g ps"
  shows "fold (\<lambda>config m. emplace (nat (time_domain config mod 2 ^ 64)) config m) (map snd (timedomain_configs g)) [] =
      timedomain_configs g"
    and "fold (\<lambda>(p, ps) m. emplace (instance_id p) p m) read [] =
      map (map_prod id stored_pattern_instance) (pattern_instances g)"
    and "fold (\<lambda>(p, ps) m. emplace (instance_id p) ps m) read [] = ps"
proof -
  let ?ps = "pattern_instances g" and ?tds = "timedomain_configs g"
  have keys: "map fst ps = map fst ?ps"
    using ok by (auto simp: graph_storable_def intro: list_all2_keys)
  have om: "omap_ok ?ps" "omap_ok ps" "omap_ok ?tds"
    using ok keys by (simp_all add: graph_storable_def omap_ok_def)
  have "fold (\<lambda>config m. emplace (nat (time_domain config mod 2 ^ 64)) config m) (map snd ?tds) [] =
      fold (\<lambda>(k, v). emplace k v) ?tds []"
    using ok by (auto simp: fold_map graph_storable_def intro!: fold_cong)
  also have "\<dots> = ?tds" using fold_emplace_sorted [of "[]" ?tds] om(3) by simp
  finally show "fold (\<lambda>config m. emplace (nat (time_domain config mod 2 ^ 64)) config m) (map snd ?tds) [] = ?tds" .
  have ids: "instance_id (stored_pattern_instance p) = k" if "(k, p) \<in> set ?ps" for k p
    using ok that by (auto simp: graph_storable_def stored_pattern_instance_def)
  have "fold (\<lambda>(p, ps) m. emplace (instance_id p) p m) read [] =
      fold (\<lambda>(k, v). emplace k v) (map (map_prod id stored_pattern_instance) ?ps) []"
    using ids by (auto simp: read_def fold_map intro!: fold_cong)
  also have "\<dots> = map (map_prod id stored_pattern_instance) ?ps"
    using fold_emplace_sorted [of "[]" "map (map_prod id stored_pattern_instance) ?ps"] om(1)
    by (simp add: omap_ok_def comp_def)
  finally show "fold (\<lambda>(p, ps) m. emplace (instance_id p) p m) read [] =
      map (map_prod id stored_pattern_instance) ?ps" .
  have "fold (\<lambda>(p, ps) m. emplace (instance_id p) ps m) read [] =
      fold (\<lambda>(k, v). emplace k v) (map (\<lambda>x. (fst x, the (map_of ps (fst x)))) ?ps) []"
    using ids by (auto simp: read_def fold_map intro!: fold_cong)
  also have "map (\<lambda>x. (fst x, the (map_of ps (fst x)))) ?ps = map (\<lambda>k. (k, the (map_of ps k))) (map fst ps)"
    by (simp only: keys list.map_comp comp_def)
  also have "\<dots> = ps"
    using om(2) by (auto simp: comp_def omap_mem_iff intro!: map_idI)
  also have "fold (\<lambda>(k, v). emplace k v) ps [] = ps" using fold_emplace_sorted [of "[]" ps] om(2) by simp
  finally show "fold (\<lambda>(p, ps) m. emplace (instance_id p) ps m) read [] = ps" .
qed

lemma graph_storable_written:
  assumes laws: "json_laws J" and ok: "graph_storable g ps"
  shows "\<exists>j. to_json_GraphInstance J g ps (jnull J) = Inr j \<and>
    from_json_GraphInstance J j (GraphInstance_make name) [] = Inr (stored_graph g, ps)"
proof -
  let ?ps = "pattern_instances g" and ?tds = "timedomain_configs g" and ?null = "jnull J"
  have keys: "map fst ps = map fst ?ps"
    using ok by (auto simp: graph_storable_def intro: list_all2_keys)
  have om: "omap_ok ?ps" "omap_ok ps" "omap_ok ?tds"
    using ok keys by (simp_all add: graph_storable_def omap_ok_def)
  let ?w = "\<lambda>(instance_name, pattern_instance). bind_res (map_at ps instance_name)
    (\<lambda>instance_parameters. to_json_PatternInstance J pattern_instance instance_parameters ?null)"
  let ?P = "\<lambda>x j. from_json_PatternInstance J j =
    Inr (stored_pattern_instance (snd x), the (map_of ps (fst x)))"
  have params: "\<exists>ip. map_of ps k = Some ip \<and> parameters_fit p ip" if "(k, p) \<in> set ?ps" for k p
  proof -
    from ok have "list_all2 (\<lambda>(k, p) (k', ip). k' = k \<and> parameters_fit p ip) ?ps ps"
      by (simp add: graph_storable_def)
    from list_all2_partner [OF this that] obtain ip where "(k, ip) \<in> set ps" "parameters_fit p ip" by auto
    with om(2) show ?thesis by (auto simp: omap_mem_iff)
  qed
  have ex: "\<exists>j. ?w x = Inr j \<and> ?P x j" if "x \<in> set ?ps" for x
  proof -
    obtain k p where x: "x = (k, p)" by (cases x)
    with params that obtain ip where ip: "map_of ps k = Some ip" "parameters_fit p ip" by blast
    from ok that x have "instance_storable p" by (auto simp: graph_storable_def)
    from to_json_PatternInstance_written [OF laws this ip(2)] show ?thesis by (simp add: x ip(1) map_at_def)
  qed
  have null: "jtype J ?null \<in> {JNull, JArray}" "jtype J ?null \<in> {JNull, JObject}"
    by (simp_all add: json_lawsD [OF laws])
  obtain a js where a: "append_all J ?w ?ps ?null = Inr a" "jelements J a = jelements J ?null @ js"
      "list_all2 ?P ?ps js" "jtype J a = (if ?ps = [] then jtype J ?null else JArray)"
    by (rule append_all_cases [OF laws null(1) ex])
  let ?wt = "\<lambda>(td, config). to_json_TimeDomainManagerConfig J config ?null"
  let ?Pt = "\<lambda>x j. from_json_TimeDomainManagerConfig J j = Inr (snd x)"
  have ext: "\<exists>j. ?wt x = Inr j \<and> ?Pt x j" for x
    using to_json_TimeDomainManagerConfig_written [OF laws, of "snd x"] by (cases x) simp
  obtain b bs where b: "append_all J ?wt ?tds ?null = Inr b" "jelements J b = jelements J ?null @ bs"
      "list_all2 ?Pt ?tds bs" "jtype J b = (if ?tds = [] then jtype J ?null else JArray)"
    by (rule append_all_cases [OF laws null(1) ext])
  let ?kvs = "[(''name'', of_string J (graph_name g)), (''time_domain_configs'', b), (''patterns'', a)]"
  obtain j where j: "set_fields J ?kvs ?null = Inr j"
    and f: "\<And>k. jfind J k j = (case map_of (rev ?kvs) k of Some v \<Rightarrow> Some v | None \<Rightarrow> jfind J k ?null)"
    using set_fields_cases [where kvs = ?kvs, OF laws null(2)] by (metis list.distinct(1))
  have "to_json_GraphInstance J g ps ?null = Inr j"
    using j a(1) b(1) by (auto simp: to_json_GraphInstance_def set_fields_def)
  moreover have "from_json_GraphInstance J j (GraphInstance_make name) [] = Inr (stored_graph g, ps)"
  proof -
    have instances: "from_json_list J (from_json_PatternInstance J) ''patterns'' j =
        Inr (map (\<lambda>x. (stored_pattern_instance (snd x), the (map_of ps (fst x)))) ?ps)"
      using a(2) map_res_read [OF a(3)] by (simp add: from_json_list_def f json_lawsD [OF laws])
    have configs: "from_json_list J (from_json_TimeDomainManagerConfig J) ''time_domain_configs'' j =
        Inr (map snd ?tds)"
      using b(2) map_res_read [OF b(3)] by (simp add: from_json_list_def f json_lawsD [OF laws])
    show ?thesis
      using instances configs graph_storable_refilled [OF ok]
      by (simp add: from_json_GraphInstance_def json_get_found f json_lawsD [OF laws] GraphInstance_make_def
          stored_graph_def)
  qed
  ultimately show ?thesis by blast
qed

section \<open>Graphs that the operations build\<close>

text \<open>No operation connects a producer port.\<close>

definition producers_free :: "GraphInstance \<Rightarrow> bool" where
  "producers_free g \<longleftrightarrow> (\<forall>a p l. map_of (pattern_instances g) a = Some p \<longrightarrow>
     l \<in> set (port_locs (ports_of PRODUCER) p) \<longrightarrow>
     connected_to (port_inst_at (ports_of PRODUCER) p l) = ([], []))"

lemma producers_freeD:
  "producers_free g \<Longrightarrow> map_of (pattern_instances g) a = Some p \<Longrightarrow>
   l \<in> set (port_locs (ports_of PRODUCER) p) \<Longrightarrow>
   connected_to (port_inst_at (ports_of PRODUCER) p l) = ([], [])"
  unfolding producers_free_def by blast

lemma producers_free_update:
  assumes "producers_free g" and "map_of (pattern_instances g') = (map_of (pattern_instances g))(a \<mapsto> p)"
    and "\<And>l. l \<in> set (port_locs (ports_of PRODUCER) p) \<Longrightarrow>
      connected_to (port_inst_at (ports_of PRODUCER) p l) = ([], [])"
  shows "producers_free g'"
  using assms unfolding producers_free_def by (auto split: if_splits)

lemma set_connected_to_producers:
  assumes "m \<in> set (port_locs (ports_of CONSUMER) q)"
    and "l \<in> set (port_locs (ports_of PRODUCER) (set_connected_to m cid q))"
  shows "l \<in> set (port_locs (ports_of PRODUCER) q) \<and>
    port_inst_at (ports_of PRODUCER) (set_connected_to m cid q) l = port_inst_at (ports_of PRODUCER) q l"
proof -
  obtain g i k where m: "m = (g, i, k)" by (cases m) auto
  obtain g' i' k' where l: "l = (g', i', k')" by (cases l) auto
  from assms show ?thesis
    by (auto simp: m l in_port_locs Let_def nth_list_update ports_of_simps split: if_splits)
qed

lemma graph_step_producers_free:
  assumes ok: "graph_ok g" and free: "producers_free g" and step: "graph_step g g'"
  shows "producers_free g'"
proof -
  from ok have om: "omap_ok (pattern_instances g)" by (simp add: graph_ok_def)
  from step show ?thesis
  proof (cases rule: graph_step.cases)
    case (step_add a pat td)
    then obtain p d where p: "PatternInstance_make a pat = Inr p" "map_of (pattern_instances g) a = None"
      and g': "g' = g\<lparr>pattern_instances :=
        emplace a (p\<lparr>local_to_global_time_domain := d\<rparr>) (pattern_instances g)\<rparr>"
      by (auto simp: addPattern_def Let_def split: option.splits)
    have same: "port_locs f (p\<lparr>local_to_global_time_domain := d\<rparr>) = port_locs f p"
      "port_inst_at f (p\<lparr>local_to_global_time_domain := d\<rparr>) l = port_inst_at f p l" for f l
      by (cases l; simp add: port_locs_def)+
    show ?thesis
      using om p(2) make_unconnected [OF p(1), of _ PRODUCER]
      by (intro producers_free_update [OF free, where a = a and p = "p\<lparr>local_to_global_time_domain := d\<rparr>"])
        (simp_all add: g' same)
  next
    case (step_instantiate a n)
    then obtain p gi ii p' where p: "map_of (pattern_instances g) a = Some p"
      and i: "instantiatePortGroup n p = Inr ((gi, ii), p')"
      and g': "g' = g\<lparr>pattern_instances := assign a p' (pattern_instances g)\<rparr>"
      by (auto simp: graph_instantiate_def getPattern_def)
    note pok = graph_okD [OF ok p]
    show ?thesis
    proof (rule producers_free_update [OF free, where a = a and p = p'])
      show "map_of (pattern_instances g') = (map_of (pattern_instances g))(a \<mapsto> p')" using om by (simp add: g')
      fix l assume l: "l \<in> set (port_locs (ports_of PRODUCER) p')"
      show "connected_to (port_inst_at (ports_of PRODUCER) p' l) = ([], [])"
        using instantiate_new_locs [OF pok(2) i l] instantiate_locs(2) [OF pok(2) i, of l PRODUCER]
          producers_freeD [OF free p, of l]
        by (cases "l \<in> set (port_locs (ports_of PRODUCER) p)") simp_all
    qed
  next
    case (step_connect n src pp snk cp)
    from step_connect obtain p q l m where q: "map_of (pattern_instances g) snk = Some q"
      and m: "getConsumerPort q cp = Inr (Some m)"
      and g': "g' = g\<lparr>pattern_instances :=
        assign snk (set_connected_to m (loc_id PRODUCER p l) q) (pattern_instances g)\<rparr>"
      by (elim connect_okE)
    let ?q = "set_connected_to m (loc_id PRODUCER p l) q"
    show ?thesis
    proof (rule producers_free_update [OF free, where a = snk and p = ?q])
      show "map_of (pattern_instances g') = (map_of (pattern_instances g))(snk \<mapsto> ?q)"
        using om by (simp add: g' del: set_connected_to.simps)
      fix l' assume "l' \<in> set (port_locs (ports_of PRODUCER) ?q)"
      from set_connected_to_producers [OF getConsumerPort_loc [OF m] this] producers_freeD [OF free q, of l']
      show "connected_to (port_inst_at (ports_of PRODUCER) ?q l') = ([], [])"
        by (simp del: set_connected_to.simps)
    qed
  qed
qed

lemma reached_producers_free:
  assumes "run graph_step g0 g" and "graph_start g0" and "well_named g"
  shows "producers_free g"
  using assms
proof (induction rule: run.induct)
  case (run_step g0 g g')
  from shaped.reach_inv [OF run_step.prems(1) run_step.hyps(1)] have "graph_shape g" .
  from well_named_before [OF this run_step.hyps(2) run_step.prems(2)] have named: "well_named g" .
  from graph_reached [OF run_step.prems(1) run_step.hyps(1) this] have "graph_ok g" by (simp add: graph_inv_def)
  from graph_step_producers_free [OF this run_step.IH [OF run_step.prems(1) named] run_step.hyps(2)] show ?case .
qed (simp add: graph_start_def producers_free_def)

lemma built_instance_storable:
  assumes "graph_inv g" and free: "producers_free g" and p: "map_of (pattern_instances g) a = Some p"
    and len: "length (time_domain_component_type (local_pattern p)) = length (pat_concurrency (local_pattern p))"
  shows "instance_id p = a \<and> instance_storable p"
proof -
  from assms(1) have ok: "graph_ok g" by (simp add: graph_inv_def)
  note pok = graph_okD [OF ok p]
  note okD = pattern_instance_okD [OF pok(2)]
  have om: "omap_ok (port_group_name_to_index p)"
    using name_index_keys [of "[]" "port_groups (local_pattern p)"] okD(4) by (simp add: name_index_def)
  have "group_storable gi" if gis: "gis \<in> set (inst_port_groups p)" and gi: "gi \<in> set gis" for gis gi
  proof -
    from gis obtain n where n: "n < length (inst_port_groups p)" "gis = inst_port_groups p ! n"
      by (auto simp: in_set_conv_nth)
    from gi obtain i where i: "i < length gis" "gi = gis ! i" by (auto simp: in_set_conv_nth)
    have m: "inst_matches (port_groups (local_pattern p) ! n) i gi" using okD(5) [of n i] n i by simp
    have group: "group_ok (gi_port_group gi)"
      using m okD(1,3) n by (auto simp: inst_matches_def pattern_ok_def list_all_length)
    have "connection_storable x" if "x \<in> set (gi_consumer_ports gi)" for x
    proof -
      from m have "map inst_port (gi_consumer_ports gi) = consumer_ports (gi_port_group gi)"
        by (simp add: inst_matches_def)
      then have "inst_port ` set (gi_consumer_ports gi) = set (consumer_ports (gi_port_group gi))"
        by (metis list.set_map)
      with that have "inst_port x \<in> set (consumer_ports (gi_port_group gi))" by blast
      with group show ?thesis by (simp add: group_ok_def list_all_iff connection_storable_def)
    qed
    moreover have "connection_storable x" if x: "x \<in> set (gi_producer_ports gi)" for x
    proof -
      from x obtain k where "k < length (gi_producer_ports gi)" "x = gi_producer_ports gi ! k"
        by (auto simp: in_set_conv_nth)
      with producers_freeD [OF free p, of "(n, i, k)"] n i have "connected_to x = ([], [])"
        by (simp add: in_port_locs ports_of_simps)
      then show ?thesis by (simp add: connection_storable_def)
    qed
    ultimately show ?thesis using m by (auto simp: group_storable_def inst_matches_def list_all_iff)
  qed
  with om len pok(1) show ?thesis by (auto simp: instance_storable_def)
qed

lemma built_graph_storable:
  assumes g: "graph_start g0" "run graph_step g0 g" "well_named g"
    and len: "\<And>a p. map_of (pattern_instances g) a = Some p \<Longrightarrow>
      length (time_domain_component_type (local_pattern p)) = length (pat_concurrency (local_pattern p))"
    and tds: "omap_ok (timedomain_configs g)"
      "\<And>k c. (k, c) \<in> set (timedomain_configs g) \<Longrightarrow> time_domain c = int k \<and> k < 2 ^ 64"
    and fit: "list_all2 (\<lambda>(k, p) (k', ip). k' = k \<and> parameters_fit p ip) (pattern_instances g) ps"
  shows "graph_storable g ps"
proof -
  from graph_reached [OF g] reached_producers_free [OF g(2,1,3)] have inv: "graph_inv g" "producers_free g" .
  then have ok: "graph_ok g" by (simp add: graph_inv_def)
  have "nat (time_domain c mod 2 ^ 64) = k" if "(k, c) \<in> set (timedomain_configs g)" for k c
    using tds(2) [OF that] by (simp add: nat_eq_iff)
  then show ?thesis
    using built_instance_storable [OF inv] len tds(1) fit ok
    by (auto simp: graph_storable_def graph_ok_def graph_ok_mem [OF ok])
qed

end
