(* ===== verification/Reloading.thy ===== *)
theory Reloading
  imports SerializationOk Facades
begin

text \<open>
  Loading a data flow from a file (\<open>Facade::loadDataflow\<close> of a file name), and what a graph keeps when
  it is saved and loaded: the coordinate systems that are lost (\<open>stored_graph\<close>) are no part of what the
  checks, the buffers and the task graph are built from.
\<close>

section \<open>The operation\<close>

text \<open>
  \<open>read_json\<close> opens the file and parses what it contains; a file that cannot be read is a text that
  does not parse. What \<open>configureInstance\<close> of the components reads of the parameters is in its argument.
\<close>

definition loadDataflow_file ::
    "'j json_lib \<Rightarrow> (string \<Rightarrow> 'j res) \<Rightarrow> ((string, 'j InstanceParameters) omap \<Rightarrow> 'w configure_code) \<Rightarrow>
     string \<Rightarrow> 'w Facade \<Rightarrow> 'w \<Rightarrow> cpp_error option \<times> 'w Facade \<times> 'w" where
  "loadDataflow_file J read_json configureInstance filename f w =
     (case bind_res (read_json filename) (\<lambda>jsongraph.
        from_json_GraphInstance J jsongraph (GraphInstance_make ''Invalid'') []) of
        Inl e \<Rightarrow> (Some e, f, w)
      | Inr (g, parameters) \<Rightarrow> loadDataflow (configureInstance parameters) g f w)"

section \<open>Pattern instances that are stored\<close>

lemma stored_group_simps [simp]:
  "pg_name (stored_group g) = pg_name g" "pg_group_index (stored_group g) = pg_group_index g"
  "producer_ports (stored_group g) = producer_ports g" "consumer_ports (stored_group g) = consumer_ports g"
  "group_ok (stored_group g) = group_ok g"
  by (simp_all add: stored_group_def group_ok_def)

lemma stored_pattern_simps [simp]:
  "pat_name (stored_pattern p) = pat_name p" "port_groups (stored_pattern p) = map stored_group (port_groups p)"
  "time_domain_component_type (stored_pattern p) = time_domain_component_type p"
  "pat_concurrency (stored_pattern p) = pat_concurrency p"
  by (simp_all add: stored_pattern_def)

lemma stored_instance_simps [simp]:
  "gi_port_group (stored_instance gi) = stored_group (gi_port_group gi)" "gi_index (stored_instance gi) = gi_index gi"
  "gi_producer_ports (stored_instance gi) = gi_producer_ports gi"
  "gi_consumer_ports (stored_instance gi) = gi_consumer_ports gi"
  by (simp_all add: stored_instance_def)

lemma stored_pattern_instance_simps [simp]:
  "instance_id (stored_pattern_instance p) = instance_id p"
  "local_pattern (stored_pattern_instance p) = stored_pattern (local_pattern p)"
  "inst_port_groups (stored_pattern_instance p) = map (map stored_instance) (inst_port_groups p)"
  "port_group_name_to_index (stored_pattern_instance p) = port_group_name_to_index p"
  "local_to_global_time_domain (stored_pattern_instance p) = local_to_global_time_domain p"
  by (simp_all add: stored_pattern_instance_def)

interpretation storing: relabelling "\<lambda>x. x" stored_instance stored_pattern_instance
  by unfold_locales (simp_all add: ports_of_def port_full_name_def)

lemma stored_pattern_ok: "pattern_ok p \<Longrightarrow> pattern_ok (stored_pattern p)"
  by (simp add: pattern_ok_def list_all_iff comp_def)

lemma stored_name_index: "name_index (map stored_group gs) = name_index gs"
  by (simp add: name_index_def fold_map comp_def)

lemma stored_pattern_instance_ok:
  assumes "pattern_instance_ok p"
  shows "pattern_instance_ok (stored_pattern_instance p)"
proof -
  have "inst_matches (stored_group pg) i (stored_instance gi)" if "inst_matches pg i gi" for pg i gi
    using that by (simp add: inst_matches_def)
  moreover have "map (map stored_instance) (inst_port_groups p) ! 0 \<noteq> []"
    using assms by (cases "inst_port_groups p") (auto simp: pattern_instance_ok_def pattern_ok_def)
  ultimately show ?thesis
    using assms by (simp add: pattern_instance_ok_def stored_pattern_ok stored_name_index comp_def)
qed

lemma stored_resolves: "resolves p \<Longrightarrow> resolves (stored_pattern_instance p)"
  by (simp add: resolves_def storing.locs storing.same_id storing.same_port)

section \<open>Graphs that are stored\<close>

lemma stored_instances: "map_of (pattern_instances (stored_graph g)) a =
    map_option stored_pattern_instance (map_of (pattern_instances g) a)"
proof -
  have "map_of (map (map_prod id stored_pattern_instance) xs) a =
      map_option stored_pattern_instance (map_of xs a)" for xs by (induction xs) auto
  then show ?thesis by (simp add: stored_graph_def)
qed

lemma stored_ex: "(\<exists>p. map_of (pattern_instances (stored_graph g)) a = Some p \<and> P p) \<longleftrightarrow>
    (\<exists>p. map_of (pattern_instances g) a = Some p \<and> P (stored_pattern_instance p))"
  by (auto simp: stored_instances)

lemma stored_all: "(\<forall>p. map_of (pattern_instances (stored_graph g)) a = Some p \<longrightarrow> P p) \<longleftrightarrow>
    (\<forall>p. map_of (pattern_instances g) a = Some p \<longrightarrow> P (stored_pattern_instance p))"
  by (auto simp: stored_instances)

lemma stored_keys: "map fst (pattern_instances (stored_graph g)) = map fst (pattern_instances g)"
  by (simp add: stored_graph_def)

lemma stored_graph_ok: "graph_ok g \<Longrightarrow> graph_ok (stored_graph g)"
  using stored_pattern_instance_ok stored_resolves
  by (fastforce simp: graph_ok_def omap_ok_def stored_graph_def comp_def)

lemma feeds_iff: "(a, b) \<in> edges g \<longleftrightarrow>
    (\<exists>p. map_of (pattern_instances g) a = Some p \<and> (\<exists>q. map_of (pattern_instances g) b = Some q \<and>
      (\<exists>l \<in> set (port_locs (ports_of PRODUCER) p). \<exists>m \<in> set (port_locs (ports_of CONSUMER) q).
        connected_to (port_inst_at (ports_of CONSUMER) q m) = loc_id PRODUCER p l)))"
  unfolding edges_def by blast

lemma stored_edges: "edges (stored_graph g) = edges g"
proof -
  have "(a, b) \<in> edges (stored_graph g) \<longleftrightarrow> (a, b) \<in> edges g" for a b
    by (simp add: feeds_iff stored_ex storing.locs storing.at storing.same_id cong: bex_cong)
  then show ?thesis by (simp add: set_eq_iff split_paired_All)
qed

lemma well_typed_iff: "well_typed g \<longleftrightarrow>
    (\<forall>b q. map_of (pattern_instances g) b = Some q \<longrightarrow> (\<forall>m \<in> set (port_locs (ports_of CONSUMER) q).
      connected_to (port_inst_at (ports_of CONSUMER) q m) = ([], []) \<or>
      (\<exists>a p. map_of (pattern_instances g) a = Some p \<and> (\<exists>l \<in> set (port_locs (ports_of PRODUCER) p).
        connected_to (port_inst_at (ports_of CONSUMER) q m) = loc_id PRODUCER p l \<and>
        getDataType (port_inst_at (ports_of PRODUCER) p l) = getDataType (port_inst_at (ports_of CONSUMER) q m) \<and>
        port_getTimeDomain p (port_inst_at (ports_of PRODUCER) p l) =
          port_getTimeDomain q (port_inst_at (ports_of CONSUMER) q m) \<and>
        is_ok (port_getTimeDomain q (port_inst_at (ports_of CONSUMER) q m))))))"
  unfolding well_typed_def Let_def by blast

lemma stored_well_typed: "well_typed (stored_graph g) = well_typed g"
  by (simp add: well_typed_iff stored_ex stored_all storing.locs storing.at storing.same_id
      storing.same_time_domain cong: bex_cong ball_cong)


lemma stored_graph_inv: "graph_inv g \<Longrightarrow> graph_inv (stored_graph g)"
  by (simp add: graph_inv_def stored_graph_ok stored_well_typed stored_edges)

lemma stored_port_refs:
  "port_refs (stored_graph g) t = map (\<lambda>(r, p). (r, stored_pattern_instance p)) (port_refs g t)"
  by (simp add: port_refs_def stored_graph_def map_concat storing.locs comp_def split_def)

lemma stored_isConnected:
  assumes ok: "graph_ok g" and q: "map_of (pattern_instances g) b = Some q"
    and m: "m \<in> set (port_locs (ports_of CONSUMER) q)"
  shows "isConnected (stored_graph g) (stored_pattern_instance q) CONSUMER m = isConnected g q CONSUMER m"
proof -
  have q': "map_of (pattern_instances (stored_graph g)) b = Some (stored_pattern_instance q)"
    by (simp add: stored_instances q)
  have m': "m \<in> set (port_locs (ports_of CONSUMER) (stored_pattern_instance q))" by (simp add: storing.locs m)
  show ?thesis
    by (simp add: isConnected_consumer [OF ok q m] isConnected_consumer [OF stored_graph_ok [OF ok] q' m']
        stored_ex storing.locs storing.at m storing.same_id cong: conj_cong del: split_paired_Ex)
qed

text \<open>The check before a data flow is loaded finds the same errors.\<close>

lemma stored_checkRunnable:
  assumes ok: "graph_ok g"
  shows "checkRunnable (stored_graph g) = checkRunnable g"
proof -
  let ?check = "\<lambda>h ((pid, t, l), p) error_stream. bind_res (isConnected h p CONSUMER l) (\<lambda>c.
      Inr (if \<not> c then error_stream @ input_port_error (loc_id CONSUMER p l) else error_stream))"
  have "fold_res (?check (stored_graph g)) (map (\<lambda>(r, p). (r, stored_pattern_instance p)) xs) = fold_res (?check g) xs"
    if "set xs \<subseteq> set (port_refs g CONSUMER)" for xs
    using that
  proof (induction xs)
    case (Cons x xs)
    obtain a t l p where x: "x = ((a, t, l), p)" by (cases x) auto
    with Cons.prems ok have p: "map_of (pattern_instances g) a = Some p" "l \<in> set (port_locs (ports_of CONSUMER) p)"
      by (simp_all add: in_port_refs)
    have one: "?check (stored_graph g) ((a, t, l), stored_pattern_instance p) = ?check g x"
      by (simp only: x prod.case stored_isConnected [OF ok p] storing.same_id [OF p(2)])
    have rest: "fold_res (?check (stored_graph g)) (map (\<lambda>(r, p). (r, stored_pattern_instance p)) xs) = fold_res (?check g) xs"
      using Cons by simp
    show ?case by (rule ext) (simp only: x list.map prod.case fold_res.simps one [unfolded x prod.case] rest)
  qed (simp add: fun_eq_iff)
  then show ?thesis by (simp add: checkRunnable_def stored_port_refs)
qed

section \<open>Component graphs that are stored\<close>

definition stored_component_graph :: "ComponentGraph \<Rightarrow> ComponentGraph" where
  "stored_component_graph cg = cg\<lparr>graph_instance := stored_graph (graph_instance cg)\<rparr>"

lemma stored_component_graph_simps [simp]:
  "graph_instance (stored_component_graph cg) = stored_graph (graph_instance cg)"
  "patterns (stored_component_graph cg) = patterns cg"
  "domain_config (stored_component_graph cg) td = domain_config cg td"
  by (simp_all add: stored_component_graph_def domain_config_def getTimeDomainConfig_def stored_graph_def)

lemma stored_pattern_instance_queries [simp]:
  "getPatternName (stored_pattern_instance p) = getPatternName p"
  "getComponentType (stored_pattern_instance p) td = getComponentType p td"
  "comp_type (stored_pattern_instance p) td = comp_type p td"
  "getConcurrency (stored_pattern_instance p) td = getConcurrency p td"
  "isInTimeDomain (stored_pattern_instance p) td = isInTimeDomain p td"
  "td_ports t (stored_pattern_instance p) td = td_ports t p td"
  "unique_domain (stored_pattern_instance p) td = unique_domain p td"
  "pattern_ready (stored_pattern_instance p) td = pattern_ready p td"
  by (simp_all add: getPatternName_def getComponentType_def comp_type_def getConcurrency_def isInTimeDomain_def
      td_ports_def unique_domain_def pattern_ready_def storing.locs storing.at storing.same_time_domain
      cong: filter_cong)

lemma stored_domain_ready: "domain_ready (stored_component_graph cg) td = domain_ready cg td"
proof -
  have "fst ` set (pattern_instances (stored_graph g)) = fst ` set (pattern_instances g)" for g
    using stored_keys [of g] by (metis list.set_map)
  moreover have "(\<forall>(a, p) \<in> set (pattern_instances (stored_graph g)). pattern_ready p td) \<longleftrightarrow>
      (\<forall>(a, p) \<in> set (pattern_instances g). pattern_ready p td)" for g
    by (simp add: stored_graph_def split_def)
  ultimately show ?thesis by (simp add: domain_ready_def)
qed

lemma stored_inst:
  assumes "graph_ok (graph_instance cg)" and "domain_ready cg td" and "x \<in> set (patterns cg)"
  shows "the_inst (stored_component_graph cg) (fst x) = stored_pattern_instance (the_inst cg (fst x))"
    and "inst_of (stored_component_graph cg) (fst x) = bind_res (inst_of cg (fst x)) (\<lambda>p. Inr (stored_pattern_instance p))"
proof -
  from domain_ready_inst(1) [OF assms(1,2), of "fst x"] assms(3)
  obtain p where "map_of (pattern_instances (graph_instance cg)) (fst x) = Some p" by auto
  then show "the_inst (stored_component_graph cg) (fst x) = stored_pattern_instance (the_inst cg (fst x))"
    "inst_of (stored_component_graph cg) (fst x) = bind_res (inst_of cg (fst x)) (\<lambda>p. Inr (stored_pattern_instance p))"
    by (simp_all add: the_inst_def inst_of_def stored_instances)
qed

lemma stored_components:
  assumes ok: "graph_ok (graph_instance cg)" and ready: "domain_ready cg td"
  shows "td_components (stored_component_graph cg) td = td_components cg td"
    and "domain_components (stored_component_graph cg) td = domain_components cg td"
    and "slot_types (stored_component_graph cg) td = slot_types cg td"
    and "first_async (stored_component_graph cg) td = first_async cg td"
proof -
  note inst = stored_inst(1) [OF ok ready]
  show tds: "td_components (stored_component_graph cg) td = td_components cg td"
    by (simp add: td_components_def inst cong: filter_cong)
  have sub: "x \<in> set (patterns cg)" if "x \<in> set (td_components cg td)" for x
    using that by (simp add: td_components_def)
  have comps: "map (\<lambda>x. (comp_type (the_inst (stored_component_graph cg) (fst x)) td, fst x)) (td_components cg td) =
      map (\<lambda>x. (comp_type (the_inst cg (fst x)) td, fst x)) (td_components cg td)"
    by (simp add: inst [OF sub])
  show doms: "domain_components (stored_component_graph cg) td = domain_components cg td"
    unfolding domain_components_def td_components_def [symmetric] tds comps ..
  have slot: "map (\<lambda>(p, l). getDataType (port_inst_at (ports_of PRODUCER) p l)) (component_slots (stored_component_graph cg) td y) =
      map (\<lambda>(p, l). getDataType (port_inst_at (ports_of PRODUCER) p l)) (component_slots cg td y)"
    if "y \<in> set (domain_components cg td)" for y
  proof -
    from that obtain x where "x \<in> set (patterns cg)" "snd y = fst x" by (auto simp: domain_components_def)
    then show ?thesis by (simp add: component_slots_def inst comp_def storing.at in_td_ports cong: map_cong)
  qed
  show "slot_types (stored_component_graph cg) td = slot_types cg td"
    by (simp add: slot_types_def slots_def map_concat doms slot cong: map_cong)
  show "first_async (stored_component_graph cg) td = first_async cg td"
    by (simp add: first_async_def tds inst sub cong: find_cong)
qed

lemma stored_startable:
  assumes "startable cls cg td factories"
  shows "startable cls (stored_component_graph cg) td factories"
proof -
  from assms have ok: "graph_ok (graph_instance cg)" and ready: "domain_ready cg td"
    by (simp_all add: startable_def domain_graph_ok_def graph_inv_def)
  note comps = stored_components [OF ok ready]
  have inst: "the_inst (stored_component_graph cg) (fst x) = stored_pattern_instance (the_inst cg (fst x))"
    if "x \<in> set (td_components cg td)" for x
    using that stored_inst(1) [OF ok ready] by (simp add: td_components_def)
  have "domain_graph_ok (stored_component_graph cg) td"
    using assms by (simp add: startable_def domain_graph_ok_def stored_graph_inv stored_domain_ready
        stored_checkRunnable [OF ok])
  moreover have "sources_read_nothing (stored_component_graph cg) td"
    using assms by (simp add: startable_def sources_read_nothing_def comps inst)
  ultimately show ?thesis using assms by (simp add: startable_def comps plain_domain_def inst)
qed

lemma stored_time_domains:
  assumes ok: "graph_ok (graph_instance cg)" and ready: "domain_ready cg td"
  shows "getTimeDomains (stored_component_graph cg) = getTimeDomains cg"
  unfolding getTimeDomains_def stored_component_graph_simps
proof (rule fold_res_cong)
  fix x t assume "x \<in> set (patterns cg)"
  from stored_inst(2) [OF ok ready this]
  show "bind_res (inst_of (stored_component_graph cg) (fst x)) (\<lambda>p. Inr (t \<union> set (local_to_global_time_domain p))) =
      bind_res (inst_of cg (fst x)) (\<lambda>p. Inr (t \<union> set (local_to_global_time_domain p)))"
    by (cases "inst_of cg (fst x)") simp_all
qed

lemma stored_getAll: "getAll (stored_graph g) = map stored_pattern_instance (getAll g)"
  by (simp add: getAll_def stored_graph_def)

text \<open>Plugins do not read the coordinate systems of a pattern: the components are the same.\<close>

lemma stored_loaded_graph:
  assumes "\<forall>p. ptr (stored_pattern_instance p) = ptr p"
  shows "loaded_graph (stored_graph g) ptr (getAll (stored_graph g)) =
    stored_component_graph (loaded_graph g ptr (getAll g))"
  using assms by (simp add: loaded_graph_def stored_component_graph_def stored_getAll rev_map comp_def)

lemma stored_delivered:
  assumes "plugins_deliver pf co ptr ps" and "\<forall>p. ptr (stored_pattern_instance p) = ptr p"
    and "\<forall>c p w. co c (stored_pattern_instance p) w = co c p w"
  shows "plugins_deliver pf co ptr (map stored_pattern_instance ps)"
  using assms by (simp add: plugins_deliver_def)

end
