(* ===== verification/Files.thy ===== *)
theory Files
  imports Facades
begin

text \<open>
  Files and directories (\<open>src/traact/util/FileUtil.cpp\<close>) and the search for plugins
  (\<open>RTTRPluginFactory::init\<close> and its constructors, \<open>src/traact/facade/rttr/RTTRPluginFactory.cpp\<close>).

  The library \<open>cppfs\<close> is outside the repository: a record of its operations on a state \<open>'f\<close> of the
  file system, where a file handle is its path. The libraries of the plugins are a record of operations
  on a state \<open>'l\<close> of what is loaded.
\<close>

section \<open>Files\<close>

record 'f file_system =
  fh_exists :: "string \<Rightarrow> 'f \<Rightarrow> bool"
  fh_isFile :: "string \<Rightarrow> 'f \<Rightarrow> bool"
  fh_isDirectory :: "string \<Rightarrow> 'f \<Rightarrow> bool"
  fh_entries :: "string \<Rightarrow> 'f \<Rightarrow> string list"            \<comment> \<open>what the iterator of a directory visits\<close>
  fh_parentDirectory :: "string \<Rightarrow> string"
  fh_createDirectory :: "string \<Rightarrow> 'f \<Rightarrow> bool \<times> 'f"

definition fileExists :: "'f file_system \<Rightarrow> string \<Rightarrow> 'f \<Rightarrow> bool" where
  "fileExists fs filename s = (if fh_exists fs filename s \<and> fh_isFile fs filename s then True else False)"

definition hasEnding :: "string \<Rightarrow> string \<Rightarrow> bool" where
  "hasEnding full_string ending =
     (if length ending \<le> length full_string
      then take (length ending) (drop (length full_string - length ending) full_string) = ending
      else False)"

definition globFiles :: "'f file_system \<Rightarrow> string \<Rightarrow> 'f \<Rightarrow> string list" where
  "globFiles fs path s =
     (if path \<noteq> [] then (if fh_isDirectory fs path s then fh_entries fs path s else []) else [])"

text \<open>The entry itself is opened, without the directory before it.\<close>

definition globDirs :: "'f file_system \<Rightarrow> string \<Rightarrow> 'f \<Rightarrow> string list" where
  "globDirs fs path s =
     (if path \<noteq> []
      then (if fh_isDirectory fs path s
            then filter (\<lambda>entry. fh_isDirectory fs entry s) (fh_entries fs path s) else [])
      else [])"

definition globFiles_ending :: "'f file_system \<Rightarrow> string \<Rightarrow> string \<Rightarrow> 'f \<Rightarrow> string list" where
  "globFiles_ending fs path file_ending s = filter (\<lambda>t_path. hasEnding t_path file_ending) (globFiles fs path s)"

lemma hasEnding_iff: "hasEnding s e \<longleftrightarrow> (\<exists>p. s = p @ e)"
proof
  assume "hasEnding s e"
  then have "length e \<le> length s" "drop (length s - length e) s = e"
    by (auto simp: hasEnding_def split: if_splits)
  then have "s = take (length s - length e) s @ e" by (metis append_take_drop_id)
  then show "\<exists>p. s = p @ e" by blast
qed (auto simp: hasEnding_def)

section \<open>Creating directories\<close>

text \<open>\<open>None\<close> means that the recursion does not end: no parent exists, however far it goes.\<close>

partial_function (option) createDirectoryRecursive ::
    "'f file_system \<Rightarrow> string \<Rightarrow> 'f \<Rightarrow> (bool \<times> 'f) option" where
  "createDirectoryRecursive fs file_handle s =
     (if fh_exists fs file_handle s then Some (True, s)
      else Option.bind (createDirectoryRecursive fs (fh_parentDirectory fs file_handle) s)
             (\<lambda>(parent_parent, s').
               if parent_parent then Some (fh_createDirectory fs (fh_parentDirectory fs file_handle) s')
               else Some (False, s')))"

definition createFileDirectory :: "'f file_system \<Rightarrow> string \<Rightarrow> 'f \<Rightarrow> (bool \<times> 'f) option" where
  "createFileDirectory fs filename s =
     (let parent = fh_parentDirectory fs filename
      in if fh_exists fs parent s then Some (True, s)
         else Option.bind (createDirectoryRecursive fs parent s)
                (\<lambda>(parent_parent, s').
                  if parent_parent then Some (fh_createDirectory fs parent s') else Some (False, s')))"

text \<open>As documented, \<open>createDirectory\<close> fails and changes nothing when the path exists already.\<close>

definition createDirectory_law :: "'f file_system \<Rightarrow> bool" where
  "createDirectory_law fs \<longleftrightarrow>
     (\<forall>path s. fh_exists fs path s \<longrightarrow> fh_createDirectory fs path s = (False, s))"

text \<open>
  The directory that is created is the parent, which exists: the recursion on a missing directory
  never creates anything and reports a failure.
\<close>

lemma createDirectoryRecursive_missing:
  assumes law: "createDirectory_law fs" and "\<not> fh_exists fs path s"
    and "fh_exists fs ((fh_parentDirectory fs ^^ n) path) s"
  shows "createDirectoryRecursive fs path s = Some (False, s)"
  using assms(2,3)
proof (induction n arbitrary: path)
  case (Suc n)
  let ?parent = "fh_parentDirectory fs path"
  show ?case
  proof (cases "fh_exists fs ?parent s")
    case True
    then have "createDirectoryRecursive fs ?parent s = Some (True, s)"
      by (subst createDirectoryRecursive.simps) simp
    moreover have "fh_createDirectory fs ?parent s = (False, s)"
      using law True by (simp add: createDirectory_law_def)
    ultimately show ?thesis using Suc.prems(1) by (subst createDirectoryRecursive.simps) simp
  next
    case False
    from Suc.prems(2) have "fh_exists fs ((fh_parentDirectory fs ^^ n) ?parent) s"
      by (simp add: funpow_swap1)
    with Suc.IH False have "createDirectoryRecursive fs ?parent s = Some (False, s)" by blast
    with Suc.prems(1) show ?thesis by (subst createDirectoryRecursive.simps) simp
  qed
qed simp

section \<open>The search for plugins\<close>

record ('l, 'w) library_loader =
  lib_is_loaded :: "string \<Rightarrow> 'l \<Rightarrow> bool"
  lib_load :: "string \<Rightarrow> 'l \<Rightarrow> bool res \<times> 'l"
  lib_types :: "'l \<Rightarrow> 'w rttr_type list"                  \<comment> \<open>\<open>type::get_types()\<close>\<close>

definition Plugin_init :: "('l, 'w) library_loader \<Rightarrow> string \<Rightarrow> 'l \<Rightarrow> bool res \<times> 'l" where
  "Plugin_init L filename l =
     (if lib_is_loaded L filename l then (Inr True, l)
      else case lib_load L filename l of
             (Inl e, l') \<Rightarrow> (Inl e, l')
           | (Inr loaded, l') \<Rightarrow> (Inr (if \<not> loaded then False else True), l'))"

definition load_library :: "('l, 'w) library_loader \<Rightarrow> string \<Rightarrow> 'l \<Rightarrow> bool \<times> 'l" where
  "load_library L filename l =
     (case Plugin_init L filename l of (r, l') \<Rightarrow> (addLibrary (\<lambda>_. r) filename, l'))"

text \<open>
  The tokens between the matches of \<open>:+\<close>: a match at the end is not followed by an empty token, one at the
  beginning is preceded by it, and the empty string is one empty token.
\<close>

function plugin_dirs :: "string \<Rightarrow> string list" where
  "plugin_dirs s =
     (let token = takeWhile (\<lambda>c. c \<noteq> CHR '':'') s;
          rest = dropWhile (\<lambda>c. c = CHR '':'') (dropWhile (\<lambda>c. c \<noteq> CHR '':'') s)
      in if rest = [] then [token] else token # plugin_dirs rest)"
  by auto

lemma plugin_dirs_rest:
  "rest = dropWhile (\<lambda>c. c = CHR '':'') (dropWhile (\<lambda>c. c \<noteq> CHR '':'') s) \<Longrightarrow> rest \<noteq> [] \<Longrightarrow> length rest < length s"
proof -
  assume rest: "rest = dropWhile (\<lambda>c. c = CHR '':'') (dropWhile (\<lambda>c. c \<noteq> CHR '':'') s)" "rest \<noteq> []"
  then obtain c t where t: "dropWhile (\<lambda>c. c \<noteq> CHR '':'') s = c # t"
    by (cases "dropWhile (\<lambda>c. c \<noteq> CHR '':'') s") auto
  then have "c = CHR '':''" using hd_dropWhile [of "\<lambda>c. c \<noteq> CHR '':''" s] by simp
  with rest t have "length rest \<le> length t" by (simp add: length_dropWhile_le)
  moreover have "length (dropWhile (\<lambda>c. c \<noteq> CHR '':'') s) \<le> length s" by (rule length_dropWhile_le)
  ultimately show ?thesis using t by simp
qed

termination plugin_dirs
proof (relation "measure length", goal_cases)
  case (2 s token rest)
  from 2(2,3) have "length rest < length s" by (rule plugin_dirs_rest)
  then show ?case by (simp only: in_measure)
qed simp

declare plugin_dirs.simps [simp del]

text \<open>\<open>join\<close> is \<open>operator/\<close> of \<open>std::filesystem::path\<close>. The result of \<open>addLibrary\<close> is not used.\<close>

definition load_directory ::
    "'f file_system \<Rightarrow> 'f \<Rightarrow> ('l, 'w) library_loader \<Rightarrow> (string \<Rightarrow> string \<Rightarrow> string) \<Rightarrow> string \<Rightarrow> 'l \<Rightarrow> 'l" where
  "load_directory fs s L join plugin_dir l =
     fold (\<lambda>file l. snd (load_library L (join plugin_dir file) l)) (globFiles_ending fs plugin_dir ''.so'' s) l"

definition RTTRPluginFactory_search ::
    "'f file_system \<Rightarrow> 'f \<Rightarrow> ('l, 'w) library_loader \<Rightarrow> (string \<Rightarrow> string \<Rightarrow> string) \<Rightarrow> string \<Rightarrow> 'l \<Rightarrow>
     'w RTTRPluginFactory res \<times> 'l" where
  "RTTRPluginFactory_search fs s L join plugin_directories l =
     (let l' = fold (load_directory fs s L join) (plugin_dirs plugin_directories) l
      in (RTTRPluginFactory_init (lib_types L l') RTTRPluginFactory_empty, l'))"

text \<open>The default constructor: the value of the environment variable, if it is set.\<close>

definition RTTRPluginFactory_from_environment ::
    "'f file_system \<Rightarrow> 'f \<Rightarrow> ('l, 'w) library_loader \<Rightarrow> (string \<Rightarrow> string \<Rightarrow> string) \<Rightarrow>
     (string \<Rightarrow> string option) \<Rightarrow> 'l \<Rightarrow> 'w RTTRPluginFactory res \<times> 'l" where
  "RTTRPluginFactory_from_environment fs s L join environment l =
     (case environment ''TRAACT_PLUGIN_PATHS'' of
        None \<Rightarrow> (Inl RuntimeError, l)
      | Some dirs \<Rightarrow> RTTRPluginFactory_search fs s L join dirs l)"

text \<open>The libraries that are tried, in order: every entry of the directories that ends in \<open>.so\<close>.\<close>

definition plugin_files :: "'f file_system \<Rightarrow> 'f \<Rightarrow> (string \<Rightarrow> string \<Rightarrow> string) \<Rightarrow> string \<Rightarrow> string list" where
  "plugin_files fs s join plugin_directories =
     concat (map (\<lambda>d. map (join d) (filter (\<lambda>f. \<exists>p. f = p @ ''.so'') (globFiles fs d s)))
       (plugin_dirs plugin_directories))"

lemma load_directories_fold:
  "fold (load_directory fs s L join) dirs l =
   fold (\<lambda>file l. snd (load_library L file l))
     (concat (map (\<lambda>d. map (join d) (filter (\<lambda>f. \<exists>p. f = p @ ''.so'') (globFiles fs d s))) dirs)) l"
proof (induction dirs arbitrary: l)
  case (Cons d dirs)
  have "load_directory fs s L join d l =
      fold (\<lambda>file l. snd (load_library L file l))
        (map (join d) (filter (\<lambda>f. \<exists>p. f = p @ ''.so'') (globFiles fs d s))) l"
    by (simp add: load_directory_def globFiles_ending_def hasEnding_iff fold_map comp_def)
  with Cons.IH show ?case by simp
qed simp

lemma plugin_dirs_separated: "d \<in> set (plugin_dirs s) \<Longrightarrow> CHR '':'' \<notin> set d"
proof (induction s rule: plugin_dirs.induct)
  case (1 s)
  have first: "CHR '':'' \<notin> set (takeWhile (\<lambda>c. c \<noteq> CHR '':'') s)" by (auto dest: set_takeWhileD)
  let ?rest = "dropWhile (\<lambda>c. c = CHR '':'') (dropWhile (\<lambda>c. c \<noteq> CHR '':'') s)"
  have "d = takeWhile (\<lambda>c. c \<noteq> CHR '':'') s \<or> ?rest \<noteq> [] \<and> d \<in> set (plugin_dirs ?rest)"
  proof (cases "?rest = []")
    case True
    then have "plugin_dirs s = [takeWhile (\<lambda>c. c \<noteq> CHR '':'') s]"
      by (subst plugin_dirs.simps) (simp only: Let_def if_True simp_thms)
    with 1(2) show ?thesis by simp
  next
    case False
    then have "plugin_dirs s = takeWhile (\<lambda>c. c \<noteq> CHR '':'') s # plugin_dirs ?rest"
      by (subst plugin_dirs.simps) (simp only: Let_def if_False)
    with 1(2) False show ?thesis by auto
  qed
  with 1(1) [OF refl refl] first show ?case by blast
qed

end
