(* ===== verification/Generic.thy ===== *)
theory Generic
  imports Components Parameters Files
begin

text \<open>
  The generic components of \<open>include/traact/component/generic\<close>, \<open>src/traact/component/generic\<close>,
  \<open>src/traact/userEvent\<close> and \<open>CudaComponent.cpp\<close>. A template is a definition with the names of its data type as
  arguments. The objects behind the addresses of the buffers and the members of a component are a state;
  a method changes it and returns or throws, as a \<open>call\<close> of \<open>Components\<close> does, with the exception kept.

  The virtual methods that open, read and write files belong to plugins and are parameters. The mutex of
  \<open>SyncUserEventComponent\<close> makes each of its methods one step.
\<close>

section \<open>Methods that change a state\<close>

type_synonym ('a, 's) effect = "'s \<Rightarrow> 'a res \<times> 's"

definition returns :: "'a \<Rightarrow> ('a, 's) effect" where
  "returns a s = (Inr a, s)"

definition throws :: "cpp_error \<Rightarrow> ('a, 's) effect" where
  "throws e s = (Inl e, s)"

definition and_then :: "('a, 's) effect \<Rightarrow> ('a \<Rightarrow> ('b, 's) effect) \<Rightarrow> ('b, 's) effect" where
  "and_then f g s = (case f s of (Inl e, s') \<Rightarrow> (Inl e, s') | (Inr a, s') \<Rightarrow> g a s')"

definition as_call :: "('a, 's) effect \<Rightarrow> ('a, 's) call" where
  "as_call f s = (case f s of (Inl e, s') \<Rightarrow> (None, s') | (Inr a, s') \<Rightarrow> (Some a, s'))"

text \<open>The state of a call: the time step buffer, the component's members and the objects.\<close>

record ('v, 'h) object_store =
  objects :: "addr \<Rightarrow> 'v"
  headers :: "addr \<Rightarrow> 'h"

type_synonym ('c, 'v, 'h) component_world = "TimeStepBuffer \<times> 'c \<times> ('v, 'h) object_store"

definition members :: "('c, ('c, 'v, 'h) component_world) effect" where
  "members = (\<lambda>(t, c, m). (Inr c, (t, c, m)))"

definition set_members :: "'c \<Rightarrow> (unit, ('c, 'v, 'h) component_world) effect" where
  "set_members c' = (\<lambda>(t, c, m). (Inr (), (t, c', m)))"

definition read_input :: "ComponentBuffer \<Rightarrow> int \<Rightarrow> ('v, ('c, 'v, 'h) component_world) effect" where
  "read_input data index = (\<lambda>(t, c, m). (bind_res (getInput data index) (\<lambda>a. Inr (objects m a)), (t, c, m)))"

definition read_input_header :: "ComponentBuffer \<Rightarrow> int \<Rightarrow> ('h, ('c, 'v, 'h) component_world) effect" where
  "read_input_header data index =
     (\<lambda>(t, c, m). (bind_res (getInputHeader data index) (\<lambda>a. Inr (headers m a)), (t, c, m)))"

definition write_output :: "ComponentBuffer \<Rightarrow> int \<Rightarrow> 'v \<Rightarrow> (unit, ('c, 'v, 'h) component_world) effect" where
  "write_output data index v = (\<lambda>(t, c, m).
     case getOutput data index t of
       Inl e \<Rightarrow> (Inl e, (t, c, m))
     | Inr (a, t') \<Rightarrow> (Inr (), (t', c, m\<lparr>objects := (objects m)(a := v)\<rparr>)))"

definition write_output_header :: "ComponentBuffer \<Rightarrow> int \<Rightarrow> 'h \<Rightarrow> (unit, ('c, 'v, 'h) component_world) effect" where
  "write_output_header data index h = (\<lambda>(t, c, m).
     case getOutputHeader data index of
       Inl e \<Rightarrow> (Inl e, (t, c, m))
     | Inr a \<Rightarrow> (Inr (), (t, c, m\<lparr>headers := (headers m)(a := h)\<rparr>)))"

text \<open>\<open>value()\<close> of an empty \<open>std::optional\<close> throws \<open>bad_optional_access\<close>, a logic error for the model.\<close>

definition optional_value :: "'a option \<Rightarrow> ('a, 's) effect" where
  "optional_value x = (case x of Some a \<Rightarrow> returns a | None \<Rightarrow> throws LogicError)"

lemma method_simps [simp]:
  "and_then (returns a) g = g a" "and_then (throws e) g = throws e"
  by (simp_all add: fun_eq_iff and_then_def returns_def throws_def)

lemma and_then_Inr: "f s = (Inr a, s') \<Longrightarrow> and_then f g s = g a s'"
  by (simp add: and_then_def)

section \<open>Buffer\<close>

record ('v, 'h) BufferComponent =
  buffer_value :: "'v option"
  buffer_header :: "'h option"

definition Buffer_GetPattern :: "string \<Rightarrow> Pattern res" where
  "Buffer_GetPattern native_type_name =
     bind_res (Pattern_make (''Buffer_'' @ native_type_name) SERIAL SYNC_SOURCE) (\<lambda>pattern.
     bind_res (addConsumerPort_typed native_type_name 0 ''input'' 0 (addTimeDomain SYNC_SINK pattern)) (\<lambda>pattern.
     bind_res (addProducerPort_typed native_type_name 0 ''output'' 1 pattern) (\<lambda>pattern.
     build pattern [AddCoordinateSystem ''A'' False, AddCoordinateSystem ''B'' False,
       AddEdge ''A'' ''B'' ''input'', AddEdge ''A'' ''B'' ''output''])))"

definition Buffer_processTimePoint ::
    "ComponentBuffer \<Rightarrow> (bool, (('v, 'h) BufferComponent, 'v, 'h) component_world) effect" where
  "Buffer_processTimePoint data s =
     (if tsb_time_domain (fst s) = 0 then
        and_then (read_input data 0) (\<lambda>v.
        and_then members (\<lambda>c.
        and_then (set_members (c\<lparr>buffer_value := Some v\<rparr>)) (\<lambda>_.
        and_then (read_input_header data 0) (\<lambda>h.
        and_then members (\<lambda>c.
        and_then (set_members (c\<lparr>buffer_header := Some h\<rparr>)) (\<lambda>_. returns True)))))) s
      else
        and_then members (\<lambda>c.
        if buffer_value c \<noteq> None then
          and_then (optional_value (buffer_value c)) (\<lambda>v.
          and_then (write_output data 0 v) (\<lambda>_.
          and_then (optional_value (buffer_header c)) (\<lambda>h.
          and_then (write_output_header data 0 h) (\<lambda>_. returns True))))
        else returns True) s)"

definition Buffer_processTimePointWithInvalid ::
    "ComponentBuffer \<Rightarrow> (bool, (('v, 'h) BufferComponent, 'v, 'h) component_world) effect" where
  "Buffer_processTimePointWithInvalid data =
     and_then members (\<lambda>c. and_then (set_members (c\<lparr>buffer_value := None, buffer_header := None\<rparr>))
       (\<lambda>_. returns True))"

definition Buffer_code :: "(('v, 'h) BufferComponent \<times> ('v, 'h) object_store) component_code" where
  "Buffer_code = Component_base\<lparr>
     co_processTimePoint := (\<lambda>data. as_call (Buffer_processTimePoint data)),
     co_processTimePointWithInvalid := (\<lambda>data. as_call (Buffer_processTimePointWithInvalid data))\<rparr>"

section \<open>Gate\<close>

definition Gate_GetPattern :: "string \<Rightarrow> Pattern res" where
  "Gate_GetPattern native_type_name =
     bind_res (Pattern_make (''Gate_'' @ native_type_name) SERIAL SYNC_SOURCE) (\<lambda>pattern.
     bind_res (addConsumerPort_typed native_type_name 0 ''input'' 0 (addTimeDomain SYNC_SINK pattern)) (\<lambda>pattern.
     bind_res (addConsumerPort_typed ''traact::userEvent::UserEvent'' 1 ''input_event'' 0 pattern) (\<lambda>pattern.
     bind_res (addProducerPort_typed native_type_name 0 ''output'' 0 pattern) (\<lambda>pattern.
     build pattern [AddCoordinateSystem ''A'' False, AddCoordinateSystem ''B'' False,
       AddEdge ''A'' ''B'' ''input'', AddEdge ''A'' ''B'' ''output'']))))"

definition Gate_processTimePoint :: "ComponentBuffer \<Rightarrow> (bool, ('c, 'v, 'h) component_world) effect" where
  "Gate_processTimePoint data =
     and_then (read_input data 0) (\<lambda>v. and_then (write_output data 0 v) (\<lambda>_. returns True))"

section \<open>User events\<close>

definition SyncUserEvent_GetPattern :: "Pattern res" where
  "SyncUserEvent_GetPattern =
     bind_res (Pattern_make ''SyncUserEvent'' SERIAL SYNC_SOURCE)
       (addProducerPort_typed ''traact::userEvent::UserEvent'' 0 ''output'' 0)"

text \<open>The only member is the event that waits.\<close>

definition SyncUserEvent_processTimePoint ::
    "ComponentBuffer \<Rightarrow> (bool, ('v option, 'v, 'h) component_world) effect" where
  "SyncUserEvent_processTimePoint data =
     and_then members (\<lambda>event.
     case event of
       Some e \<Rightarrow> and_then (write_output data 0 e) (\<lambda>_. and_then (set_members None) (\<lambda>_. returns True))
     | None \<Rightarrow> returns True)"

definition fireEvent :: "'v \<Rightarrow> 'v option \<Rightarrow> 'v option" where
  "fireEvent e event = Some e"

section \<open>Components of an application\<close>

definition app_calls :: "string \<Rightarrow> string \<Rightarrow> string \<Rightarrow> build_call list" where
  "app_calls display description port =
     [SetDisplayName display, SetDescription description, AddTag ''Application'', AddTag ''Templated'',
      AddCoordinateSystem ''A'' False, AddCoordinateSystem ''B'' False, AddEdge ''A'' ''B'' port]"

definition ApplicationAsyncSource_GetPattern :: "string \<Rightarrow> string \<Rightarrow> Pattern res" where
  "ApplicationAsyncSource_GetPattern native_type_name meta_type =
     bind_res (Pattern_make (''ApplicationAsyncSource_'' @ native_type_name) SERIAL ASYNC_SOURCE) (\<lambda>pattern.
     build pattern (AddProducer ''output'' native_type_name 0 #
       app_calls (''Application Source (async) ('' @ meta_type @ '')'')
         ''Provide data from the user application to the dataflow network'' ''output''))"

text \<open>
  What a source does with the scheduler: the callback and the future it returns (the buffer, or a null
  pointer), the output of the buffer and its commit.
\<close>

record ('b, 'v, 's) async_source_calls =
  asc_request :: "timestamp \<Rightarrow> ('b option, 's) effect"
  asc_output :: "'b \<Rightarrow> (addr, 's) effect"           \<comment> \<open>\<open>getOutput(0)\<close>, which marks the output as valid\<close>
  asc_store :: "addr \<Rightarrow> 'v \<Rightarrow> 's \<Rightarrow> 's"
  asc_commit :: "'b \<Rightarrow> bool \<Rightarrow> (unit, 's) effect"

text \<open>The handler of \<open>std::future_error\<close> logs and throws again.\<close>

definition newValue :: "('b, 'v, 's) async_source_calls \<Rightarrow> timestamp \<Rightarrow> 'v \<Rightarrow> (bool, 's) effect" where
  "newValue sc ts v =
     and_then (asc_request sc ts) (\<lambda>buffer_p.
     case buffer_p of
       None \<Rightarrow> returns False
     | Some b \<Rightarrow>
         and_then (asc_output sc b) (\<lambda>new_data s.
         and_then (asc_commit sc b True) (\<lambda>_. returns True) (asc_store sc new_data v s)))"

definition ApplicationSyncSink_GetPattern :: "string \<Rightarrow> string \<Rightarrow> Pattern res" where
  "ApplicationSyncSink_GetPattern native_type_name meta_type =
     bind_res (Pattern_make (''ApplicationSyncSink_'' @ native_type_name) SERIAL SYNC_SINK) (\<lambda>pattern.
     build pattern (AddConsumer ''input'' native_type_name 0 #
       app_calls (''Application Sink (sync) ('' @ meta_type @ '')'')
         ''Provide data from the dataflow network to the user application'' ''input''))"

text \<open>The callbacks of the application change its state \<open>'a\<close>, which is kept with the members.\<close>

record ('v, 'a) ApplicationSyncSink =
  sink_callback :: "(timestamp \<Rightarrow> 'v \<Rightarrow> (unit, 'a) effect) option"
  sink_invalid_callback :: "(timestamp \<Rightarrow> (unit, 'a) effect) option"
  sink_application :: 'a

definition call_application ::
    "(unit, 'a) effect \<Rightarrow> (unit, (('v, 'a) ApplicationSyncSink, 'v, 'h) component_world) effect" where
  "call_application f = (\<lambda>(t, c, m).
     case f (sink_application c) of (r, a) \<Rightarrow> (r, (t, c\<lparr>sink_application := a\<rparr>, m)))"

definition ApplicationSyncSink_processTimePoint ::
    "ComponentBuffer \<Rightarrow> (bool, (('v, 'a) ApplicationSyncSink, 'v, 'h) component_world) effect" where
  "ApplicationSyncSink_processTimePoint data s =
     and_then members (\<lambda>c.
     case sink_callback c of
       Some callback \<Rightarrow>
         and_then (read_input data 0) (\<lambda>v.
         and_then (call_application (callback (current_ts (fst s)) v)) (\<lambda>_. returns True))
     | None \<Rightarrow> returns True) s"

definition ApplicationSyncSink_processTimePointWithInvalid ::
    "ComponentBuffer \<Rightarrow> (bool, (('v, 'a) ApplicationSyncSink, 'v, 'h) component_world) effect" where
  "ApplicationSyncSink_processTimePointWithInvalid data s =
     and_then members (\<lambda>c.
     case sink_invalid_callback c of
       Some callback \<Rightarrow> and_then (call_application (callback (current_ts (fst s)))) (\<lambda>_. returns True)
     | None \<Rightarrow> returns True) s"

definition sink_setCallback ::
    "(timestamp \<Rightarrow> 'v \<Rightarrow> (unit, 'a) effect) option \<Rightarrow> ('v, 'a) ApplicationSyncSink \<Rightarrow> ('v, 'a) ApplicationSyncSink"
  where
  "sink_setCallback callback c = c\<lparr>sink_callback := callback\<rparr>"

definition sink_setInvalidCallback ::
    "(timestamp \<Rightarrow> (unit, 'a) effect) option \<Rightarrow> ('v, 'a) ApplicationSyncSink \<Rightarrow> ('v, 'a) ApplicationSyncSink"
  where
  "sink_setInvalidCallback callback c = c\<lparr>sink_invalid_callback := callback\<rparr>"

definition ApplicationSyncSink_code ::
    "(('v, 'a) ApplicationSyncSink \<times> ('v, 'h) object_store) component_code" where
  "ApplicationSyncSink_code = Component_base\<lparr>
     co_processTimePoint := (\<lambda>data. as_call (ApplicationSyncSink_processTimePoint data)),
     co_processTimePointWithInvalid := (\<lambda>data. as_call (ApplicationSyncSink_processTimePointWithInvalid data))\<rparr>"

section \<open>RawApplicationSyncSink\<close>

definition RawApplicationSyncSink_GetPattern :: "Pattern res" where
  "RawApplicationSyncSink_GetPattern = Pattern_make ''RawApplicationSyncSink'' SERIAL SYNC_SINK"

text \<open>The callbacks get the instance or the buffer itself and may change everything they reach.\<close>

record 's RawApplicationSyncSink =
  raw_config_callback :: "(PatternInstance \<Rightarrow> (unit, 's) effect) option"
  raw_callback :: "(ComponentBuffer \<Rightarrow> (unit, TimeStepBuffer \<times> 's) effect) option"
  raw_invalid_callback :: "(ComponentBuffer \<Rightarrow> (unit, TimeStepBuffer \<times> 's) effect) option"

definition RawApplicationSyncSink_new :: "'s RawApplicationSyncSink" where
  "RawApplicationSyncSink_new = \<lparr>raw_config_callback = None, raw_callback = None, raw_invalid_callback = None\<rparr>"

definition raw_configure :: "'s RawApplicationSyncSink \<Rightarrow> PatternInstance \<Rightarrow> (bool, 's) effect" where
  "raw_configure c pattern_instance =
     (case raw_config_callback c of
        Some callback \<Rightarrow> and_then (callback pattern_instance) (\<lambda>_. returns True)
      | None \<Rightarrow> returns True)"

definition raw_processTimePoint ::
    "'s RawApplicationSyncSink \<Rightarrow> ComponentBuffer \<Rightarrow> (bool, TimeStepBuffer \<times> 's) effect" where
  "raw_processTimePoint c data =
     (case raw_callback c of
        Some callback \<Rightarrow> and_then (callback data) (\<lambda>_. returns True)
      | None \<Rightarrow> returns True)"

definition raw_processTimePointWithInvalid ::
    "'s RawApplicationSyncSink \<Rightarrow> ComponentBuffer \<Rightarrow> (bool, TimeStepBuffer \<times> 's) effect" where
  "raw_processTimePointWithInvalid c data =
     (case raw_invalid_callback c of
        Some callback \<Rightarrow> and_then (callback data) (\<lambda>_. returns True)
      | None \<Rightarrow> returns True)"

definition raw_setCallback ::
    "(ComponentBuffer \<Rightarrow> (unit, TimeStepBuffer \<times> 's) effect) option \<Rightarrow> 's RawApplicationSyncSink \<Rightarrow>
     's RawApplicationSyncSink" where
  "raw_setCallback callback c = c\<lparr>raw_callback := callback\<rparr>"

definition raw_setInvalidCallback ::
    "(ComponentBuffer \<Rightarrow> (unit, TimeStepBuffer \<times> 's) effect) option \<Rightarrow> 's RawApplicationSyncSink \<Rightarrow>
     's RawApplicationSyncSink" where
  "raw_setInvalidCallback callback c = c\<lparr>raw_invalid_callback := callback\<rparr>"

definition raw_setConfigCallback ::
    "(PatternInstance \<Rightarrow> (unit, 's) effect) option \<Rightarrow> 's RawApplicationSyncSink \<Rightarrow> 's RawApplicationSyncSink" where
  "raw_setConfigCallback callback c = c\<lparr>raw_config_callback := callback\<rparr>"

definition RawApplicationSyncSink_code :: "'s RawApplicationSyncSink \<Rightarrow> 's component_code" where
  "RawApplicationSyncSink_code c = Component_base\<lparr>
     co_configure := (\<lambda>p. as_call (raw_configure c p)),
     co_processTimePoint := (\<lambda>data. as_call (raw_processTimePoint c data)),
     co_processTimePointWithInvalid := (\<lambda>data. as_call (raw_processTimePointWithInvalid c data))\<rparr>"

section \<open>Components that work on a file\<close>

text \<open>A pattern with one port and the parameter \<open>file\<close>.\<close>

definition file_pattern ::
    "'j json_lib \<Rightarrow> string \<Rightarrow> ComponentType \<Rightarrow> build_call \<Rightarrow> string \<Rightarrow> (Pattern \<times> 'j list) res" where
  "file_pattern J pattern_name type port edge_port =
     bind_res (Pattern_make pattern_name SERIAL type) (\<lambda>pattern.
     bind_res (build pattern [port]) (\<lambda>pattern.
     bind_res (addStringParameter J ''file'' ''file.json'' pattern (Pattern_parameters_make J)) (\<lambda>parameters.
     bind_res (build pattern [AddCoordinateSystem ''A'' False, AddCoordinateSystem ''B'' False,
       AddEdge ''A'' ''B'' edge_port]) (\<lambda>pattern. Inr (pattern, parameters)))))"

definition source_pattern_name :: "string \<Rightarrow> string \<Rightarrow> string \<Rightarrow> string" where
  "source_pattern_name base serializer_name native_type_name = base @ serializer_name @ ''_'' @ native_type_name"

definition FileReader_GetBasePattern :: "'j json_lib \<Rightarrow> string \<Rightarrow> string \<Rightarrow> (Pattern \<times> 'j list) res" where
  "FileReader_GetBasePattern J serializer_name native_type_name =
     file_pattern J (source_pattern_name ''FileReader_'' serializer_name native_type_name) SYNC_SOURCE
       (AddProducer ''output'' native_type_name 0) ''output''"

definition FileWriter_GetBasePattern :: "'j json_lib \<Rightarrow> string \<Rightarrow> string \<Rightarrow> (Pattern \<times> 'j list) res" where
  "FileWriter_GetBasePattern J serializer_name native_type_name =
     file_pattern J (source_pattern_name ''FileWriter_'' serializer_name native_type_name) SYNC_SINK
       (AddConsumer ''input'' native_type_name 0) ''input''"

definition FileRecorder_GetBasePattern :: "'j json_lib \<Rightarrow> string \<Rightarrow> string \<Rightarrow> (Pattern \<times> 'j list) res" where
  "FileRecorder_GetBasePattern J serializer_name native_type_name =
     file_pattern J (source_pattern_name ''FileRecorder_'' serializer_name native_type_name) SYNC_SINK
       (AddConsumer ''input'' native_type_name 0) ''input''"

definition FilePlayer_GetBasePattern :: "'j json_lib \<Rightarrow> string \<Rightarrow> string \<Rightarrow> (Pattern \<times> 'j list) res" where
  "FilePlayer_GetBasePattern J serializer_name native_type_name =
     file_pattern J (source_pattern_name ''FilePlayer_'' serializer_name native_type_name) ASYNC_SOURCE
       (AddProducer ''output'' native_type_name 0) ''output''"

definition FileReaderWriterRead_GetBasePattern :: "'j json_lib \<Rightarrow> string \<Rightarrow> string \<Rightarrow> (Pattern \<times> 'j list) res" where
  "FileReaderWriterRead_GetBasePattern J serializer_name native_type_name =
     file_pattern J (source_pattern_name ''FileReaderWriterRead_'' serializer_name native_type_name) SYNC_SOURCE
       (AddProducer ''output'' native_type_name 0) ''output''"

definition FileReaderWriterWrite_GetBasePattern :: "'j json_lib \<Rightarrow> string \<Rightarrow> string \<Rightarrow> (Pattern \<times> 'j list) res" where
  "FileReaderWriterWrite_GetBasePattern J serializer_name native_type_name =
     file_pattern J (source_pattern_name ''FileReaderWriterWrite_'' serializer_name native_type_name) SYNC_SINK
       (AddConsumer ''input'' native_type_name 0) ''input''"

text \<open>
  The parameter \<open>file\<close>: the result and the new file name. The virtual methods of the plugin work on a
  state \<open>'p\<close> of its own.
\<close>

definition file_parameter :: "'j json_lib \<Rightarrow> 'j InstanceParameters \<Rightarrow> (bool \<times> string) res" where
  "file_parameter J ip = setValueFromParameter J (get_string J) ip ''file'' []"

record ('v, 'p) FileReader =
  fr_filename :: string
  fr_data :: 'v
  fr_plugin :: 'p

text \<open>
  A missing file is only logged, and the result of reading is not used; every exception is caught. An
  assertion or undefined behaviour is none.
\<close>

definition FileReader_configure ::
    "'j json_lib \<Rightarrow> 'f file_system \<Rightarrow> 'f \<Rightarrow> (string \<Rightarrow> 'v \<Rightarrow> 'p \<Rightarrow> bool res \<times> 'v \<times> 'p) \<Rightarrow>
     'j InstanceParameters \<Rightarrow> (bool, ('v, 'p) FileReader) effect" where
  "FileReader_configure J fs s readValue ip c =
     (case file_parameter J ip of
        Inl e \<Rightarrow> (if is_exception e then (Inr False, c) else (Inl e, c))
      | Inr (result, filename) \<Rightarrow>
          (let c = c\<lparr>fr_filename := filename\<rparr>
           in if result then
                if fileExists fs filename s then
                  (case readValue filename (fr_data c) (fr_plugin c) of
                     (Inl e, v, p) \<Rightarrow> (if is_exception e then Inr False else Inl e,
                        c\<lparr>fr_data := v, fr_plugin := p\<rparr>)
                   | (Inr _, v, p) \<Rightarrow> (Inr True, c\<lparr>fr_data := v, fr_plugin := p\<rparr>))
                else (Inr True, c)
              else (Inr False, c)))"

definition FileReader_processTimePoint ::
    "ComponentBuffer \<Rightarrow> (bool, (('v, 'p) FileReader, 'v, 'h) component_world) effect" where
  "FileReader_processTimePoint data =
     and_then members (\<lambda>c. and_then (write_output data 0 (fr_data c)) (\<lambda>_. returns True))"

record 'p FileWriter =
  fw_filename :: string
  fw_plugin :: 'p

record ('v, 'p) file_writer_code =
  fw_openFile :: "string \<Rightarrow> (bool, 'p) effect"
  fw_closeFile :: "(bool, 'p) effect"
  fw_saveValue :: "timestamp \<Rightarrow> 'v \<Rightarrow> (bool, 'p) effect"

definition writer_plugin :: "('a, 'p) effect \<Rightarrow> ('a, 'p FileWriter) effect" where
  "writer_plugin f c = (case f (fw_plugin c) of (r, p) \<Rightarrow> (r, c\<lparr>fw_plugin := p\<rparr>))"

definition FileWriter_configure ::
    "'j json_lib \<Rightarrow> ('v, 'p) file_writer_code \<Rightarrow> 'j InstanceParameters \<Rightarrow> (bool, 'p FileWriter) effect" where
  "FileWriter_configure J code ip c =
     (case file_parameter J ip of
        Inl e \<Rightarrow> (Inl e, c)
      | Inr (result, filename) \<Rightarrow>
          (let c = c\<lparr>fw_filename := filename\<rparr>
           in if result
              then and_then (writer_plugin (fw_openFile code filename)) (\<lambda>_. returns result) c
              else (Inr result, c)))"

definition FileWriter_stop :: "('v, 'p) file_writer_code \<Rightarrow> (bool, 'p FileWriter) effect" where
  "FileWriter_stop code = writer_plugin (fw_closeFile code)"

definition FileWriter_processTimePoint ::
    "('v, 'p) file_writer_code \<Rightarrow> ComponentBuffer \<Rightarrow> (bool, ('p FileWriter, 'v, 'h) component_world) effect" where
  "FileWriter_processTimePoint code data =
     and_then (read_input data 0) (\<lambda>input (t, c, m).
     case writer_plugin (fw_saveValue code (current_ts t) input) c of (r, c') \<Rightarrow> (r, (t, c', m)))"

section \<open>Reading and writing the same file\<close>

text \<open>
  The components with the same file share a module, which holds the value; \<open>getModuleKey\<close> is the file name.
  The members are the file name and the module, the state of the plugin is \<open>'p\<close>.
\<close>

record ('v, 'p) FileReaderWriter =
  rw_filename :: string
  rw_value :: "'v option"
  rw_plugin :: 'p

definition rw_getModuleKey :: "('v, 'p) FileReaderWriter \<Rightarrow> string" where
  "rw_getModuleKey c = rw_filename c"

definition rw_configureInstance ::
    "'j json_lib \<Rightarrow> 'j InstanceParameters \<Rightarrow> (unit, ('v, 'p) FileReaderWriter) effect" where
  "rw_configureInstance J ip c =
     (case instance_setValueFromParameter J (get_string J) [] ip ''file'' of
        Inl e \<Rightarrow> (Inl e, c)
      | Inr (_, filename) \<Rightarrow> (Inr (), c\<lparr>rw_filename := filename\<rparr>))"

definition rw_getValue :: "'v \<Rightarrow> ('v, 'p) FileReaderWriter \<Rightarrow> 'v" where
  "rw_getValue default_constructed c = (case rw_value c of Some v \<Rightarrow> v | None \<Rightarrow> default_constructed)"

definition rw_setValue :: "'v \<Rightarrow> ('v, 'p) FileReaderWriter \<Rightarrow> ('v, 'p) FileReaderWriter" where
  "rw_setValue v c = c\<lparr>rw_value := Some v\<rparr>"

text \<open>\<open>readValue\<close> fills a value that starts default-constructed. Exceptions are logged.\<close>

definition FileReaderWriterRead_configure ::
    "'f file_system \<Rightarrow> 'f \<Rightarrow> 'v \<Rightarrow> (string \<Rightarrow> 'v \<Rightarrow> 'p \<Rightarrow> bool res \<times> 'v \<times> 'p) \<Rightarrow>
     (bool, ('v, 'p) FileReaderWriter) effect" where
  "FileReaderWriterRead_configure fs s default_constructed readValue c =
     (if fileExists fs (rw_filename c) s then
        (case readValue (rw_filename c) default_constructed (rw_plugin c) of
           (Inl e, v, p) \<Rightarrow> (if is_exception e then Inr True else Inl e, c\<lparr>rw_plugin := p\<rparr>)
         | (Inr read, v, p) \<Rightarrow>
             (Inr True, if read then c\<lparr>rw_plugin := p, rw_value := Some v\<rparr> else c\<lparr>rw_plugin := p\<rparr>))
      else (Inr True, c))"

text \<open>The output is marked as valid even when there is no value to write.\<close>

definition FileReaderWriterRead_processTimePoint ::
    "ComponentBuffer \<Rightarrow> (bool, (('v, 'p) FileReaderWriter, 'v, 'h) component_world) effect" where
  "FileReaderWriterRead_processTimePoint data = (\<lambda>(t, c, m).
     case getOutput data 0 t of
       Inl e \<Rightarrow> (Inl e, (t, c, m))
     | Inr (a, t') \<Rightarrow>
         (Inr True, (t', c,
            case rw_value c of Some v \<Rightarrow> m\<lparr>objects := (objects m)(a := v)\<rparr> | None \<Rightarrow> m)))"

definition rw_plugin_call :: "('a, 'p) effect \<Rightarrow> ('a, ('v, 'p) FileReaderWriter) effect" where
  "rw_plugin_call f c = (case f (rw_plugin c) of (r, p) \<Rightarrow> (r, c\<lparr>rw_plugin := p\<rparr>))"

definition FileReaderWriterWrite_processTimePoint ::
    "(timestamp \<Rightarrow> 'v \<Rightarrow> (bool, 'p) effect) \<Rightarrow> ComponentBuffer \<Rightarrow>
     (bool, (('v, 'p) FileReaderWriter, 'v, 'h) component_world) effect" where
  "FileReaderWriterWrite_processTimePoint saveValue data =
     and_then (read_input data 0) (\<lambda>input (t, c, m).
     case rw_plugin_call (saveValue (current_ts t) input) (rw_setValue input c) of (r, c') \<Rightarrow> (r, (t, c', m)))"

definition FileReaderWriterWrite_setValue ::
    "(timestamp \<Rightarrow> 'v \<Rightarrow> (bool, 'p) effect) \<Rightarrow> timestamp \<Rightarrow> 'v \<Rightarrow> (unit, ('v, 'p) FileReaderWriter) effect" where
  "FileReaderWriterWrite_setValue saveValue now_ts v c =
     and_then (rw_plugin_call (saveValue now_ts v)) (\<lambda>_. returns ()) (rw_setValue v c)"

section \<open>FilePlayer\<close>

text \<open>
  \<open>fp_thread\<close> is whether the member holds a thread that was not joined, \<open>fp_running\<close> the atomic flag. The loop
  runs in that thread: the flag that its \<open>k\<close>-th test sees is given, because \<open>stop\<close> and the destructor clear
  it from other threads. \<open>None\<close> is a loop that does not return.
\<close>

record FilePlayer =
  fp_filename :: string
  fp_thread :: bool
  fp_running :: bool

record ('v, 's) file_player_code =
  fp_openFile :: "string \<Rightarrow> (bool, 's) effect"
  fp_closeFile :: "(bool, 's) effect"
  fp_readTimestamp :: "(timestamp option, 's) effect"        \<comment> \<open>\<open>None\<close> is the result \<open>false\<close>\<close>
  fp_readValue :: "addr \<Rightarrow> (bool, 's) effect"

definition FilePlayer_configure ::
    "'j json_lib \<Rightarrow> ('v, 's) file_player_code \<Rightarrow> 'j InstanceParameters \<Rightarrow> (bool, FilePlayer \<times> 's) effect" where
  "FilePlayer_configure J code ip = (\<lambda>(c, s).
     case file_parameter J ip of
       Inl e \<Rightarrow> (Inl e, (c, s))
     | Inr (result, filename) \<Rightarrow>
         (let c = c\<lparr>fp_filename := filename\<rparr>
          in if \<not> result then (Inr False, (c, s))
             else case fp_openFile code filename s of (r, s') \<Rightarrow> (r, (c, s'))))"

text \<open>Assigning a new thread destroys the old one: \<open>std::terminate\<close> if that one was not joined.\<close>

definition FilePlayer_start :: "FilePlayer \<Rightarrow> (bool \<times> FilePlayer) res" where
  "FilePlayer_start c =
     (if fp_thread c then Inl AssertionFailed
      else Inr (True, c\<lparr>fp_running := True, fp_thread := True\<rparr>))"

definition FilePlayer_stop :: "FilePlayer \<Rightarrow> bool \<times> FilePlayer" where
  "FilePlayer_stop c = (if fp_running c then (True, c\<lparr>fp_running := False, fp_thread := False\<rparr>) else (True, c))"

definition FilePlayer_teardown :: "('v, 's) file_player_code \<Rightarrow> (bool, 's) effect" where
  "FilePlayer_teardown code = fp_closeFile code"

definition FilePlayer_destroy :: "FilePlayer \<Rightarrow> FilePlayer" where
  "FilePlayer_destroy c =
     (let c = c\<lparr>fp_running := False\<rparr> in if fp_thread c then c\<lparr>fp_thread := False\<rparr> else c)"

definition player_round ::
    "('v, 's) file_player_code \<Rightarrow> ('b, 'v, 's) async_source_calls \<Rightarrow> timestamp \<Rightarrow> (unit, 's) effect" where
  "player_round code sc ts =
     and_then (asc_request sc ts) (\<lambda>buffer_p.
     case buffer_p of
       None \<Rightarrow> returns ()
     | Some b \<Rightarrow>
         and_then (asc_output sc b) (\<lambda>new_data.
         and_then (fp_readValue code new_data) (\<lambda>_. asc_commit sc b True)))"

partial_function (option) FilePlayer_threadLoop ::
    "('v, 's) file_player_code \<Rightarrow> ('b, 'v, 's) async_source_calls \<Rightarrow> (nat \<Rightarrow> bool) \<Rightarrow> nat \<Rightarrow> FilePlayer \<times> 's \<Rightarrow>
     (unit res \<times> FilePlayer \<times> 's) option" where
  "FilePlayer_threadLoop code sc running k cs =
     (if \<not> running k then Some (Inr (), cs)
      else case fp_readTimestamp code (snd cs) of
          (Inl e, s') \<Rightarrow> Some (Inl e, fst cs, s')
        | (Inr None, s') \<Rightarrow> Some (Inr (), (fst cs)\<lparr>fp_running := False\<rparr>, s')
        | (Inr (Some ts), s') \<Rightarrow>
            (case player_round code sc ts s' of
               (Inl e, s'') \<Rightarrow> Some (Inl e, fst cs, s'')
             | (Inr _, s'') \<Rightarrow> FilePlayer_threadLoop code sc running (Suc k) (fst cs, s'')))"

section \<open>CudaComponent\<close>

definition Cuda_GetPattern ::
    "'j json_lib \<Rightarrow> string \<Rightarrow> Concurrency \<Rightarrow> ComponentType \<Rightarrow> (Pattern \<times> 'j list) res" where
  "Cuda_GetPattern J pattern_name t_concurrency type =
     bind_res (Pattern_make pattern_name t_concurrency type) (\<lambda>pattern.
     bind_res (addStringParameter J ''cuda_graph'' ''default_cuda_graph'' pattern (Pattern_parameters_make J))
       (\<lambda>parameters. Inr (pattern, parameters)))"

definition Cuda_configureInstance :: "'j json_lib \<Rightarrow> 'j InstanceParameters \<Rightarrow> (unit, string) effect" where
  "Cuda_configureInstance J ip cuda_graph_name =
     (case instance_setValueFromParameter J (get_string J) [] ip ''cuda_graph'' of
        Inl e \<Rightarrow> (Inl e, cuda_graph_name)
      | Inr (_, name) \<Rightarrow> (Inr (), name))"

section \<open>What the components do\<close>

text \<open>\<open>Buffer\<close> keeps the input of time domain 0 and writes what it keeps in every other one.\<close>

lemma Buffer_takes_input:
  assumes "tsb_time_domain t = 0" and "getInput data 0 = Inr a" and "getInputHeader data 0 = Inr h"
  shows "Buffer_processTimePoint data (t, c, m) =
    (Inr True, (t, \<lparr>buffer_value = Some (objects m a), buffer_header = Some (headers m h)\<rparr>, m))"
  using assms by (simp add: Buffer_processTimePoint_def and_then_def members_def set_members_def
      read_input_def read_input_header_def returns_def)

lemma Buffer_writes_output:
  assumes "tsb_time_domain t \<noteq> 0" and "getOutput data 0 t = Inr (a, t')" and "getOutputHeader data 0 = Inr h"
    and "buffer_value c = Some v" and "buffer_header c = Some hv"
  shows "Buffer_processTimePoint data (t, c, m) =
    (Inr True, (t', c, \<lparr>objects = (objects m)(a := v), headers = (headers m)(h := hv)\<rparr>))"
  using assms by (simp add: Buffer_processTimePoint_def and_then_def members_def optional_value_def
      write_output_def write_output_header_def returns_def)

lemma Buffer_empty_writes_nothing:
  "tsb_time_domain t \<noteq> 0 \<Longrightarrow> buffer_value c = None \<Longrightarrow>
   Buffer_processTimePoint data (t, c, m) = (Inr True, (t, c, m))"
  by (simp add: Buffer_processTimePoint_def and_then_def members_def returns_def)

lemma Buffer_invalid_forgets:
  "Buffer_processTimePointWithInvalid data (t, c, m) =
   (Inr True, (t, \<lparr>buffer_value = None, buffer_header = None\<rparr>, m))"
  by (simp add: Buffer_processTimePointWithInvalid_def and_then_def members_def set_members_def returns_def)

text \<open>The sink passes every valid input to the callback, with the timestamp of the event.\<close>

lemma ApplicationSyncSink_delivers:
  assumes "sink_callback c = Some callback" and "getInput data 0 = Inr a"
    and "callback (current_ts t) (objects m a) (sink_application c) = (Inr (), application)"
  shows "ApplicationSyncSink_processTimePoint data (t, c, m) =
    (Inr True, (t, c\<lparr>sink_application := application\<rparr>, m))"
  using assms by (simp add: ApplicationSyncSink_processTimePoint_def and_then_def members_def
      read_input_def call_application_def returns_def)

section \<open>The pattern of Buffer\<close>

text \<open>
  \<open>addTimeDomain\<close> adds a component type but no concurrency: the instance has one time domain, and its
  producer port belongs to a second one.
\<close>

definition Buffer_pattern :: "string \<Rightarrow> Pattern" where
  "Buffer_pattern n =
     \<lparr>pat_name = ''Buffer_'' @ n, pat_display_name = ''Buffer_'' @ n, pat_description = [],
      pat_tags = [kSerialTag, kSynchronousTag, kSourceTag], pat_concurrency = [SERIAL],
      time_domain_component_type = [SYNC_SOURCE, SYNC_SINK],
      port_groups = [(PortGroup_make kDefaultPortGroupName kDefaultPortGroupIndex 1 1)\<lparr>
        producer_ports := [Port_make ''output'' n PRODUCER 0 1],
        consumer_ports := [Port_make ''input'' n CONSUMER 0 0],
        coordinate_systems := [(''A'', \<lparr>cs_name = ''A'', cs_is_multi = False\<rparr>),
          (''B'', \<lparr>cs_name = ''B'', cs_is_multi = False\<rparr>)],
        pg_edges := {(''A'', ''B'', ''output''), (''A'', ''B'', ''input'')}\<rparr>],
      is_group_port = False\<rparr>"

lemma Buffer_GetPattern_eq: "Buffer_GetPattern n = Inr (Buffer_pattern n)"
  by (simp add: Buffer_GetPattern_def Pattern_make_def Let_def addTag_def addTimeDomain_def
      addConsumerPort_typed_def addProducerPort_typed_def on_group_def current_group_def
      addPort_typed_def checkName_def vectorContainsName_def PortGroup_make_def build_def
      addCoordinateSystem_def addEdge_def Port_make_def raw_get_def Buffer_pattern_def
      del: bind_res_eq_Inr_iff)

section \<open>FilePlayer\<close>

text \<open>A file that gets shorter with each timestamp is played to its end.\<close>

lemma FilePlayer_threadLoop_returns:
  fixes left :: "'s \<Rightarrow> nat"
  assumes reads: "\<forall>s ts s'. fp_readTimestamp code s = (Inr (Some ts), s') \<longrightarrow> left s' < left s"
    and rounds: "\<forall>ts s. left (snd (player_round code sc ts s)) \<le> left s"
  shows "\<exists>r c' s'. FilePlayer_threadLoop code sc running k (c, s) = Some (r, c', s') \<and>
    (r = Inr () \<longrightarrow> fp_running c' \<longrightarrow> (\<exists>n \<ge> k. \<not> running n))"
proof (induction "left s" arbitrary: s k rule: less_induct)
  case less
  show ?case
  proof (cases "running k")
    case False
    then have "FilePlayer_threadLoop code sc running k (c, s) = Some (Inr (), c, s)"
      by (subst FilePlayer_threadLoop.simps) simp
    with False show ?thesis by blast
  next
    case run: True
    obtain r1 s1 where read: "fp_readTimestamp code s = (r1, s1)" by (cases "fp_readTimestamp code s")
    show ?thesis
    proof (cases r1)
      case (Inl e)
      with run read have "FilePlayer_threadLoop code sc running k (c, s) = Some (Inl e, c, s1)"
        by (subst FilePlayer_threadLoop.simps) simp
      then show ?thesis by blast
    next
      case (Inr x)
      show ?thesis
      proof (cases x)
        case None
        with Inr run read have "FilePlayer_threadLoop code sc running k (c, s) =
            Some (Inr (), c\<lparr>fp_running := False\<rparr>, s1)"
          by (subst FilePlayer_threadLoop.simps) simp
        then show ?thesis by (intro exI conjI) (assumption, simp)
      next
        case (Some ts)
        from reads read Inr Some have s1: "left s1 < left s" by blast
        obtain r2 s2 where round: "player_round code sc ts s1 = (r2, s2)"
          by (cases "player_round code sc ts s1")
        from rounds round have "left s2 \<le> left s1" by (metis snd_conv)
        with s1 have s2: "left s2 < left s" by simp
        show ?thesis
        proof (cases r2)
          case (Inl e)
          with run read \<open>r1 = Inr x\<close> Some round
          have "FilePlayer_threadLoop code sc running k (c, s) = Some (Inl e, c, s2)"
            by (subst FilePlayer_threadLoop.simps) simp
          then show ?thesis by blast
        next
          case Inr2: (Inr u)
          from less [OF s2, of "Suc k"] obtain r c' s' where
            rec: "FilePlayer_threadLoop code sc running (Suc k) (c, s2) = Some (r, c', s')"
              "r = Inr () \<longrightarrow> fp_running c' \<longrightarrow> (\<exists>n \<ge> Suc k. \<not> running n)" by blast
          have "FilePlayer_threadLoop code sc running k (c, s) = Some (r, c', s')"
            using run read \<open>r1 = Inr x\<close> Some round Inr2 rec(1)
            by (subst FilePlayer_threadLoop.simps) simp
          with rec(2) show ?thesis by (meson Suc_leD)
        qed
      qed
    qed
  qed
qed

end
