(* ===== verification/StorageProps.thy ===== *)
theory StorageProps
  imports Reloading Generic FacadeProps
begin

text \<open>
  The properties of what is stored and of the components that work with files: saving and loading
  graphs, parameters, directories, the generic components.
\<close>

section \<open>Saving and loading\<close>









section \<open>Parameters\<close>

text \<open>C23: A string parameter that a pattern declares is read with its default from every instance; after
  \<open>setParameter\<close> the new value is read, and no other parameter has changed.\<close>

theorem parameter_read_back:
  assumes laws: "json_laws J" and p: "\<not> is_group_port p" "ps \<noteq> []" and ok: "section_ok J (ps ! 0)"
  shows "\<exists>ps' ip. addStringParameter J n d p ps = Inr ps' \<and> InstanceParameters_make ps' = Inr ip \<and>
    instance_setValueFromParameter J (get_string J) [] ip n = Inr (True, d) \<and>
    (\<forall>v. \<exists>ip'. instance_setParameter J n (of_string J v) ip = Inr ip' \<and>
      instance_setValueFromParameter J (get_string J) [] ip' n = Inr (True, v) \<and>
      (\<forall>m. m \<noteq> n \<longrightarrow> instance_setValueFromParameter J (get_string J) [] ip' m =
        instance_setValueFromParameter J (get_string J) [] ip m))"
proof -
  obtain par where par: "set_keys J n [(''default'', of_string J d), (''value'', of_string J d)] (ps ! 0) = Inr par"
      "section_ok J par" "declared_string J par n d d"
    by (rule addStringParameter_declares [OF laws ok, of n d])
  let ?ps = "ps[0 := par]"
  let ?ip = "\<lparr>local_parameters = ?ps, group_parameters = (replicate (length ps) [])[0 := [par]]\<rparr>"
  have add: "addStringParameter J n d p ps = Inr ?ps"
    using p par(1) by (simp add: addStringParameter_def on_parameter_def current_group_def raw_get_def)
  have make: "InstanceParameters_make ?ps = Inr ?ip"
    using p(2) by (simp add: InstanceParameters_make_def vec_at_def)
  have read: "instance_setValueFromParameter J (get_string J) [] ip m = string_of_parameter J q m"
    if "group_parameters ip ! 0 = [q]" "group_parameters ip \<noteq> []" for ip q m
    using that by (simp add: instance_setValueFromParameter_def default_parameter_def vec_at_def raw_get_def)
  have set: "\<exists>ip'. instance_setParameter J n (of_string J v) ?ip = Inr ip' \<and>
      instance_setValueFromParameter J (get_string J) [] ip' n = Inr (True, v) \<and>
      (\<forall>m. m \<noteq> n \<longrightarrow> instance_setValueFromParameter J (get_string J) [] ip' m =
        instance_setValueFromParameter J (get_string J) [] ?ip m)" for v
  proof -
    obtain par' where par': "setParameter J n (of_string J v) par = Inr par'" "section_ok J par'"
        "declared_string J par' n d v" "\<And>m. m \<noteq> n \<Longrightarrow> jfind J m par' = jfind J m par"
      using setParameter_declared [OF laws par(2,3), of v] by blast
    let ?ip' = "?ip\<lparr>group_parameters := (group_parameters ?ip)[0 := [par']]\<rparr>"
    have "instance_setParameter J n (of_string J v) ?ip = Inr ?ip'"
      using p(2) par'(1) by (simp add: instance_setParameter_def vec_at_def raw_get_def)
    moreover have "instance_setValueFromParameter J (get_string J) [] ?ip' n = Inr (True, v)"
      using p(2) declared_string_read [OF laws par'(3)] read [of ?ip' par' n] by simp
    moreover have "instance_setValueFromParameter J (get_string J) [] ?ip' m =
        instance_setValueFromParameter J (get_string J) [] ?ip m" if "m \<noteq> n" for m
      using p(2) read_other [OF par'(4) [OF that], of "get_string J" "[]"] read [of ?ip' par' m]
        read [of ?ip par m] by simp
    ultimately show ?thesis by blast
  qed
  have "instance_setValueFromParameter J (get_string J) [] ?ip n = Inr (True, d)"
    using p(2) declared_string_read [OF laws par(3)] read [of ?ip par n] by simp
  with add make set show ?thesis by blast
qed

theorem parameter_read_back_witness:
  "\<exists>ps' ip. addStringParameter json_values ''file'' ''file.json'' source_pattern [JVNull] = Inr ps' \<and>
    InstanceParameters_make ps' = Inr ip \<and>
    instance_setValueFromParameter json_values (get_string json_values) [] ip ''file'' = Inr (True, ''file.json'')"
proof -
  have "section_ok json_values ([JVNull] ! 0)" using section_ok_null [OF json_values_laws] by (simp add: json_values_def)
  moreover have "\<not> is_group_port source_pattern" by code_simp
  ultimately show ?thesis
    using parameter_read_back [OF json_values_laws, of source_pattern "[JVNull]" "''file''" "''file.json''"] by blast
qed

section \<open>Directories\<close>

text \<open>C38: \<open>createFileDirectory\<close> never creates the missing directory of a file: the recursion creates the parent
  of the missing directory, which exists, so it fails and the file system stays as it was.\<close>

theorem file_directory_not_created:
  assumes law: "createDirectory_law fs" and "\<not> fh_exists fs (fh_parentDirectory fs filename) s"
    and "fh_exists fs ((fh_parentDirectory fs ^^ n) filename) s" and "0 < n"
  shows "createFileDirectory fs filename s = Some (False, s)"
proof -
  from assms(3,4) obtain m where "fh_exists fs ((fh_parentDirectory fs ^^ m) (fh_parentDirectory fs filename)) s"
    by (cases n) (auto simp: funpow_swap1)
  from createDirectoryRecursive_missing [OF law assms(2) this] assms(2) show ?thesis
    by (simp add: createFileDirectory_def)
qed

text \<open>A file system with the root only, whose state is the list of the directories.\<close>

definition demo_files :: "string list file_system" where
  "demo_files =
     \<lparr>fh_exists = (\<lambda>p s. p \<in> set s), fh_isFile = (\<lambda>p s. False), fh_isDirectory = (\<lambda>p s. p \<in> set s),
      fh_entries = (\<lambda>p s. []), fh_parentDirectory = (\<lambda>p. take (length p - 1) p),
      fh_createDirectory = (\<lambda>p s. if p \<in> set s then (False, s) else (True, p # s))\<rparr>"

theorem file_directory_not_created_witness:
  "createFileDirectory demo_files ''/ab'' [''/''] = Some (False, [''/'']) \<and>
   fh_createDirectory demo_files ''/a'' [''/''] = (True, [''/a'', ''/''])"
proof
  show "createFileDirectory demo_files ''/ab'' [''/''] = Some (False, [''/''])"
    by (rule file_directory_not_created [of _ _ _ 2])
      (simp_all add: demo_files_def createDirectory_law_def numeral_2_eq_2)
qed (simp add: demo_files_def)

section \<open>Generic components\<close>

lemma Buffer_ports_fail:
  assumes add: "addPattern a (Buffer_pattern n) td g = Inr g'" and om: "omap_ok (pattern_instances g)"
    and q: "map_of (pattern_instances g') a = Some q"
  shows "getProducerPorts q x = Inl OutOfRange"
proof -
  let ?p = "Buffer_pattern n"
  have inst: "inst_port_groups q = [[PortGroupInstance_make (port_groups ?p ! 0) 0]]"
    "local_to_global_time_domain q = [td]"
    using add om q by (auto simp: addPattern_def PatternInstance_make_def Let_def Buffer_pattern_def
        raw_set_def vec_at_def split: option.splits if_splits)
  have "port_locs gi_producer_ports q = [(0, 0, 0)]"
    by (simp add: port_locs_def inst Buffer_pattern_def PortGroupInstance_make_def)
  moreover have "port_getTimeDomain q (port_inst_at gi_producer_ports q (0, 0, 0)) = Inl OutOfRange"
    by (simp add: port_getTimeDomain_def inst Buffer_pattern_def PortGroupInstance_make_def
        PortInstance_make_def Port_make_def vec_at_int_def)
  ultimately show ?thesis by (simp add: getProducerPorts_def ports_of_time_domain_def)
qed

lemma Buffer_not_saved:
  assumes laws: "json_laws J"
  shows "to_json_Pattern J (Buffer_pattern n) ps (jnull J) = Inl UndefinedBehaviour"
proof -
  let ?p = "Buffer_pattern n"
  let ?kvs = "[(''pattern_name'', of_string J (pat_name ?p)), (''display_name'', of_string J (pat_display_name ?p)),
    (''description'', of_string J (pat_description ?p)), (''tags'', of_strings J (pat_tags ?p))]"
  have null: "jtype J (jnull J) \<in> {JNull, JObject}" "jtype J (jnull J) \<in> {JNull, JArray}"
    by (simp_all add: json_lawsD [OF laws])
  obtain j1 where j1: "set_fields J ?kvs (jnull J) = Inr j1" "jtype J j1 = JObject"
    and f1: "\<And>k. jfind J k j1 = (case map_of (rev ?kvs) k of Some v \<Rightarrow> Some v | None \<Rightarrow> jfind J k (jnull J))"
    using set_fields_cases [where kvs = ?kvs, OF laws null(1)] by (metis list.distinct(1))
  have "json_index J j1 ''time_domains'' = Inr (jnull J)"
    using j1(2) by (simp add: json_index_def f1 json_lawsD [OF laws])
  moreover have "append_all J (to_json_time_domain J ?p) [0, 1] (jnull J) = Inl UndefinedBehaviour"
  proof -
    obtain jx where jx: "to_json_time_domain J ?p 0 = Inr jx"
      using to_json_time_domain_written [OF laws, of 0 ?p] by (auto simp: Buffer_pattern_def)
    obtain a where a: "jemplace_back J jx (jnull J) = Inr a"
      using json_emplace_cases [OF laws null(2), of jx] by metis
    obtain k where "jassign J ''component_type'' (of_int_value J (int (ct_value SYNC_SINK))) (jnull J) = Inr k"
      using json_assign_cases [OF laws null(1), of "''component_type''"] by metis
    then have "to_json_time_domain J ?p 1 = Inl UndefinedBehaviour"
      by (simp add: to_json_time_domain_def Buffer_pattern_def raw_get_def)
    with jx a show ?thesis by (simp add: append_all_def)
  qed
  moreover have "[0..<length (time_domain_component_type ?p)] = [0, 1]"
    by (simp add: Buffer_pattern_def upt_rec)
  ultimately show ?thesis using j1(1) by (simp add: to_json_Pattern_def)
qed

text \<open>C35: The pattern of the component \<open>Buffer\<close> cannot be used: in every graph it is added to, the ports of its
  instance cannot be listed, because its producer port is in a time domain that the instance does not have, and the
  pattern cannot be saved, because it has no concurrency for that time domain.\<close>

theorem buffer_pattern_unusable:
  assumes "Buffer_GetPattern n = Inr p" and "json_laws J"
  shows "(\<forall>a td g g' q x. addPattern a p td g = Inr g' \<longrightarrow> omap_ok (pattern_instances g) \<longrightarrow>
      map_of (pattern_instances g') a = Some q \<longrightarrow> getProducerPorts q x = Inl OutOfRange) \<and>
    to_json_Pattern J p ps (jnull J) = Inl UndefinedBehaviour"
proof -
  have "p = Buffer_pattern n" using assms(1) by (simp add: Buffer_GetPattern_eq)
  then show ?thesis using Buffer_ports_fail Buffer_not_saved [OF assms(2)] by blast
qed

theorem buffer_pattern_unusable_witness:
  "getProducerPorts (snd (hd (pattern_instances (the_ok graph_empty
     (addPattern ''x'' (Buffer_pattern ''t'') 0 graph_empty))))) 0 = Inl OutOfRange \<and>
   to_json_Pattern json_values (Buffer_pattern ''t'') [JVNull] (jnull json_values) = Inl UndefinedBehaviour"
proof
  let ?p = "Buffer_pattern ''t''"
  note unusable = buffer_pattern_unusable [OF Buffer_GetPattern_eq json_values_laws, of "''t''" "[JVNull]"]
  show "to_json_Pattern json_values ?p [JVNull] (jnull json_values) = Inl UndefinedBehaviour"
    using unusable by blast
  obtain g' where g': "addPattern ''x'' ?p 0 graph_empty = Inr g'" "omap_ok (pattern_instances graph_empty)"
      "map_of (pattern_instances g') ''x'' = Some (snd (hd (pattern_instances g')))"
    by (auto simp: addPattern_def PatternInstance_make_def Buffer_pattern_def Let_def vec_at_def raw_set_def
        graph_empty_def GraphInstance_make_def)
  with unusable have "getProducerPorts (snd (hd (pattern_instances g'))) 0 = Inl OutOfRange" by blast
  with g'(1) show "getProducerPorts (snd (hd (pattern_instances (the_ok graph_empty
     (addPattern ''x'' ?p 0 graph_empty))))) 0 = Inl OutOfRange" by (simp add: the_ok_def)
qed






end
