(* ===== verification/Spread.thy ===== *)
theory Spread
  imports ProfileState Clock
begin

text \<open>
  The standard deviation and the rate per second that \<open>update\<close> computes with \<open>double\<close> and \<open>float\<close> from the
  measurements of a task or of the time steps of a task
  (\<open>src/traact/dataflow/state/TimeDomainStateResult.cpp\<close>). Nothing else reads these members, so they are
  functions of the measurements here. \<open>double\<close> is as in \<open>Clock\<close>; a \<open>float\<close> has 24 significant bits; the
  square root is the correctly rounded one of IEEE. \<open>None\<close> is an infinite rate.
\<close>

section \<open>Floating point\<close>

definition to_float :: "rat \<Rightarrow> rat" where
  "to_float x =
     (if x = 0 then 0
      else let e = binade x - 23 in of_int (round_half_even (x / 2 powi e)) * 2 powi e)"

text \<open>The integer square root of \<open>y < 4 ^ n\<close> above \<open>r\<close>, bit by bit.\<close>

fun root_bits :: "nat \<Rightarrow> int \<Rightarrow> rat \<Rightarrow> int" where
  "root_bits 0 r y = r"
| "root_bits (Suc n) r y =
     root_bits n (if of_int ((r + 2 ^ n) * (r + 2 ^ n)) \<le> y then r + 2 ^ n else r) y"

text \<open>
  The argument is scaled by an even power of two to 105 or 106 bits, so its root has 53 bits before the point. A
  root that lies halfway between two doubles would have more bits than a square can have.
\<close>

definition dsqrt :: "rat \<Rightarrow> rat" where
  "dsqrt x =
     (if x = 0 then 0
      else let k = 52 - binade x div 2;
               y = x * 2 powi (2 * k);
               m = root_bits 53 0 y
           in of_int (if (of_int m + 1 / 2) * (of_int m + 1 / 2) < y then m + 1 else m) / 2 powi k)"

section \<open>Spread and rate of a list of measurements\<close>

definition add_square :: "int \<Rightarrow> ProfileTaskResult \<Rightarrow> rat \<Rightarrow> rat" where
  "add_square mean time std_dev_value =
     (let diff = int_to_double (mean - (pr_end time - pr_start time))
      in dadd std_dev_value (dmul diff diff))"

definition std_dev_of :: "int \<Rightarrow> ProfileTaskResult list \<Rightarrow> 64 word res" where
  "std_dev_of mean ms =
     (let std_dev_value = fold (add_square mean) ms 0;
          measurement_count_float = to_float (of_nat (length ms))
      in double_to_uint64 (dsqrt (ddiv std_dev_value measurement_count_float)))"

definition rate_of :: "ProfileTaskResult list \<Rightarrow> rat option" where
  "rate_of ms =
     (let global_start = fold (\<lambda>t a. min a (pr_start t)) ms (2 ^ 63 - 1);
          global_end = fold (\<lambda>t a. max a (pr_end t)) ms 0;
          total_time = to_float (to_float (of_int (global_end - global_start)) / 1000000000)
      in if total_time = 0 then None else Some (to_float (to_float (of_nat (length ms)) / total_time)))"

text \<open>What \<open>update\<close> stores: nothing when there is no measurement.\<close>

definition profile_spread :: "ProfileTimeResult \<Rightarrow> (64 word res \<times> rat option) option" where
  "profile_spread r =
     (let ms = cb_iterate (measurements r)
      in if ms = [] then None
         else Some (std_dev_of (mean_duration (profile_update r)) ms, rate_of ms))"

definition time_step_spread ::
    "ProfileTimeResult list \<Rightarrow> TimeStepProfileTimeResult \<Rightarrow> (64 word res \<times> rat option) option res" where
  "time_step_spread tasks r =
     bind_res (map_res (step_result tasks) (time_steps r)) (\<lambda>results.
     bind_res (time_step_update tasks r) (\<lambda>r'.
     let ms = concat (map (\<lambda>t. cb_iterate (measurements t)) results)
     in Inr (if ms = [] then None else Some (std_dev_of (ts_mean_duration r') ms, rate_of ms))))"

section \<open>Runs of equal length\<close>

lemma root_bits_square:
  assumes "0 \<le> r" and "of_int (r * r) \<le> y" and "y < of_int ((r + 2 ^ n) * (r + 2 ^ n))"
  shows "of_int (root_bits n r y * root_bits n r y) \<le> y \<and>
    y < of_int ((root_bits n r y + 1) * (root_bits n r y + 1)) \<and> r \<le> root_bits n r y"
  using assms
proof (induction n arbitrary: r)
  case (Suc n)
  show ?case
  proof (cases "of_int ((r + 2 ^ n) * (r + 2 ^ n)) \<le> y")
    case True
    have "r + 2 ^ n + 2 ^ n = r + 2 ^ Suc n" by simp
    with Suc.IH [of "r + 2 ^ n"] Suc.prems True show ?thesis
      by (auto simp del: power_Suc of_int_mult intro: order_trans [of r "r + 2 ^ n"])
  next
    case False
    with Suc.IH [of r] Suc.prems(1,2) show ?thesis by (simp del: of_int_mult)
  qed
qed simp

text \<open>\<open>root_bits\<close> is the integer part of the root.\<close>

lemma root_bits_floor:
  assumes "0 \<le> y" and "y < 4 ^ n"
  shows "of_int (root_bits n 0 y * root_bits n 0 y) \<le> y \<and>
    y < of_int ((root_bits n 0 y + 1) * (root_bits n 0 y + 1))"
proof -
  have "(4::rat) ^ n = of_int ((0 + 2 ^ n) * (0 + 2 ^ n))"
    by (simp flip: power_mult_distrib)
  with assms(2) have "y < of_int ((0 + 2 ^ n) * (0 + 2 ^ n))" by simp
  with root_bits_square [of 0 y n] assms(1) show ?thesis by (simp del: of_int_mult)
qed

text \<open>A task whose runs all take the mean duration has no deviation.\<close>

lemma std_dev_of_equal:
  assumes "\<forall>t \<in> set ms. pr_end t - pr_start t = mean"
  shows "std_dev_of mean ms = Inr 0"
proof -
  have "fold (add_square mean) ms 0 = 0"
    using assms by (induction ms) (simp_all add: add_square_def dadd_def dmul_def int_to_double_def)
  then show ?thesis by (simp add: std_dev_of_def Let_def ddiv_def dsqrt_def double_to_uint64_def)
qed

end
